(* ===== verification/Prelude.thy ===== *)
theory Prelude
  imports Complex_Main "HOL-Library.Multiset"
begin

text \<open>
  Shared layer of the development.

  \<^item> Python values: strings are lists of code points (\<open>pystr\<close>), byte strings are lists of
    numbers (\<open>pybytes\<close>), integers are \<open>int\<close>, floats are IEEE doubles (\<open>pyfloat\<close>, a rational
    or one of the three special values, with every arithmetic result rounded to nearest-even on
    53 bits by \<open>round_double\<close>; the sign of a zero is not kept, nothing in the modelled code
    observes it). \<open>pyval\<close> is the dynamically typed argument that a validator inspects, and
    \<open>callback\<close> an argument that may or may not be callable.
  \<^item> Effects: \<open>act\<close> is the type of a piece of Python code with state and exceptions,
    \<open>'s \<Rightarrow> (('e + 'a) \<times> 's) option\<close>: it returns or raises, and leaves a new state in both cases, or
    it never ends (\<open>None\<close>). The state stands for everything the code can reach, the environment and
    other threads included.
  \<^item> \<open>hoare b P m Q E\<close> is the triple for such code (\<open>Q\<close> after a return, \<open>E\<close> after a raise); with
    \<open>b = True\<close> it also says that the code ends. The collection \<open>hoare_rules\<close> holds one rule per
    combinator, each for both readings.
\<close>

named_theorems hoare_rules \<open>one introduction rule per combinator of effectful code\<close>
named_theorems act_simps \<open>equations that run effectful code on a state\<close>

section \<open>Python values\<close>

type_synonym pystr = "nat list"
type_synonym pybytes = "nat list"

definition ustr :: "string \<Rightarrow> pystr" where
  "ustr s = map of_char s"

datatype pyfloat = Finite rat | PosInf | NegInf | NaN

fun isfinite :: "pyfloat \<Rightarrow> bool" where
  "isfinite (Finite _) = True"
| "isfinite _ = False"

text \<open>\<open>a < b\<close> and \<open>a <= b\<close> on floats; every comparison with NaN is false.\<close>

fun float_lt :: "pyfloat \<Rightarrow> pyfloat \<Rightarrow> bool" where
  "float_lt (Finite a) (Finite b) = (a < b)"
| "float_lt NegInf (Finite _) = True"
| "float_lt NegInf PosInf = True"
| "float_lt (Finite _) PosInf = True"
| "float_lt _ _ = False"

fun float_le :: "pyfloat \<Rightarrow> pyfloat \<Rightarrow> bool" where
  "float_le (Finite a) (Finite b) = (a \<le> b)"
| "float_le NegInf y = (y \<noteq> NaN)"
| "float_le x PosInf = (x \<noteq> NaN)"
| "float_le _ _ = False"

text \<open>\<open>int.bit_length\<close> of a non-negative integer, and the binary exponent of a positive rational.\<close>

function bit_length :: "int \<Rightarrow> int" where
  "bit_length n = (if n \<le> 0 then 0 else 1 + bit_length (n div 2))"
  by pat_completeness auto
termination
  by (relation "measure nat") auto

declare bit_length.simps [simp del]

definition floor_log2 :: "rat \<Rightarrow> int" where
  "floor_log2 x =
     (let (p, q) = quotient_of x; k = bit_length p - bit_length q
      in if 2 powi k \<le> x then k else k - 1)"

definition round_half_even :: "rat \<Rightarrow> int" where
  "round_half_even x =
     (let f = \<lfloor>x\<rfloor>; d = x - of_int f
      in if d < 1 / 2 then f else if d > 1 / 2 then f + 1 else if even f then f else f + 1)"

definition float_quantum :: "rat \<Rightarrow> rat" where
  "float_quantum x = 2 powi (max (floor_log2 \<bar>x\<bar> - 52) (- 1074))"

definition round_double :: "rat \<Rightarrow> pyfloat" where
  "round_double x =
     (if x = 0 then Finite 0
      else let q = float_quantum x; y = of_int (round_half_even (x / q)) * q
           in if y \<ge> 2 ^ 1024 then PosInf else if y \<le> - (2 ^ 1024) then NegInf else Finite y)"

fun float_add :: "pyfloat \<Rightarrow> pyfloat \<Rightarrow> pyfloat" where
  "float_add (Finite a) (Finite b) = round_double (a + b)"
| "float_add NaN _ = NaN"
| "float_add _ NaN = NaN"
| "float_add PosInf NegInf = NaN"
| "float_add NegInf PosInf = NaN"
| "float_add PosInf _ = PosInf"
| "float_add _ PosInf = PosInf"
| "float_add NegInf _ = NegInf"
| "float_add _ NegInf = NegInf"

fun float_neg :: "pyfloat \<Rightarrow> pyfloat" where
  "float_neg (Finite a) = Finite (- a)"
| "float_neg PosInf = NegInf"
| "float_neg NegInf = PosInf"
| "float_neg NaN = NaN"

definition float_sub :: "pyfloat \<Rightarrow> pyfloat \<Rightarrow> pyfloat" where
  "float_sub a b = float_add a (float_neg b)"

fun inf_times :: "bool \<Rightarrow> pyfloat \<Rightarrow> pyfloat" where
  "inf_times pos (Finite b) =
     (if b = 0 then NaN else if (b > 0) = pos then PosInf else NegInf)"
| "inf_times pos PosInf = (if pos then PosInf else NegInf)"
| "inf_times pos NegInf = (if pos then NegInf else PosInf)"
| "inf_times pos NaN = NaN"

fun float_mul :: "pyfloat \<Rightarrow> pyfloat \<Rightarrow> pyfloat" where
  "float_mul (Finite a) (Finite b) = round_double (a * b)"
| "float_mul NaN _ = NaN"
| "float_mul PosInf y = inf_times True y"
| "float_mul NegInf y = inf_times False y"
| "float_mul (Finite a) PosInf = inf_times True (Finite a)"
| "float_mul (Finite a) NegInf = inf_times False (Finite a)"
| "float_mul (Finite a) NaN = NaN"

text \<open>Python's \<open>min(a, b)\<close> keeps \<open>a\<close> unless \<open>b < a\<close>.\<close>

definition float_min :: "pyfloat \<Rightarrow> pyfloat \<Rightarrow> pyfloat" where
  "float_min a b = (if float_lt b a then b else a)"

text \<open>\<open>float(n)\<close> of an integer: \<open>None\<close> stands for the \<open>OverflowError\<close>.\<close>

definition float_of_int :: "int \<Rightarrow> pyfloat option" where
  "float_of_int n =
     (case round_double (of_int n) of Finite x \<Rightarrow> Some (Finite x) | _ \<Rightarrow> None)"

datatype pyval =
    PyNone
  | PyBool bool
  | PyInt int
  | PyFloat pyfloat
  | PyStr pystr
  | PyBytes pybytes
  | PyOther

datatype 'f callback = Callable 'f | NotCallable

text \<open>\<open>str.isspace\<close> of one code point, and \<open>str.strip\<close>.\<close>

definition is_space :: "nat \<Rightarrow> bool" where
  "is_space c \<longleftrightarrow>
     9 \<le> c \<and> c \<le> 13 \<or> 28 \<le> c \<and> c \<le> 32 \<or> c = 133 \<or> c = 160 \<or> c = 5760
     \<or> 8192 \<le> c \<and> c \<le> 8202 \<or> c = 8232 \<or> c = 8233 \<or> c = 8239 \<or> c = 8287 \<or> c = 12288"

definition strip :: "pystr \<Rightarrow> pystr" where
  "strip s = rev (dropWhile is_space (rev (dropWhile is_space s)))"

definition str_isspace :: "pystr \<Rightarrow> bool" where
  "str_isspace s \<longleftrightarrow> s \<noteq> [] \<and> list_all is_space s"

text \<open>The number of bytes of the UTF-8 encoding; \<open>None\<close> stands for the \<open>UnicodeEncodeError\<close> that
  a lone surrogate raises.\<close>

fun utf8_len1 :: "nat \<Rightarrow> nat" where
  "utf8_len1 c = (if c < 128 then 1 else if c < 2048 then 2 else if c < 65536 then 3 else 4)"

definition utf8_length :: "pystr \<Rightarrow> nat option" where
  "utf8_length s =
     (if list_all (\<lambda>c. \<not> (55296 \<le> c \<and> c \<le> 57343)) s then Some (sum_list (map utf8_len1 s))
      else None)"

text \<open>Sequencing of code that may raise and has no state.\<close>

definition ebind :: "'e + 'a \<Rightarrow> ('a \<Rightarrow> 'e + 'b) \<Rightarrow> 'e + 'b" where
  "ebind m f = (case m of Inl e \<Rightarrow> Inl e | Inr x \<Rightarrow> f x)"

text \<open>What every \<open>bytes\<close> object satisfies.\<close>

definition bytes_ok :: "pybytes \<Rightarrow> bool" where
  "bytes_ok b \<longleftrightarrow> list_all (\<lambda>x. x < 256) b"

section \<open>Effectful code\<close>

type_synonym ('s, 'e, 'a) act = "'s \<Rightarrow> (('e + 'a) \<times> 's) option"

definition return :: "'a \<Rightarrow> ('s, 'e, 'a) act" where
  "return x = (\<lambda>s. Some (Inr x, s))"

definition raise :: "'e \<Rightarrow> ('s, 'e, 'a) act" where
  "raise e = (\<lambda>s. Some (Inl e, s))"

definition lift :: "'e + 'a \<Rightarrow> ('s, 'e, 'a) act" where
  "lift r = (\<lambda>s. Some (r, s))"

text \<open>\<open>try m except h\<close>, then \<open>k\<close>: the handler sees every raised value and re-raises what it does not
  take; \<open>k\<close> runs outside the handler, as code after a \<open>try\<close> statement does. Sequencing and a plain
  \<open>try\<close> are instances.\<close>

definition try_else ::
  "('s, 'e, 'a) act \<Rightarrow> ('e \<Rightarrow> ('s, 'e, 'b) act) \<Rightarrow> ('a \<Rightarrow> ('s, 'e, 'b) act) \<Rightarrow> ('s, 'e, 'b) act" where
  "try_else m h k =
     (\<lambda>s. case m s of
           None \<Rightarrow> None
         | Some (r, s') \<Rightarrow> (case r of Inl e \<Rightarrow> h e s' | Inr x \<Rightarrow> k x s'))"

definition act_bind :: "('s, 'e, 'a) act \<Rightarrow> ('a \<Rightarrow> ('s, 'e, 'b) act) \<Rightarrow> ('s, 'e, 'b) act" where
  "act_bind m f = try_else m raise f"

definition act_then :: "('s, 'e, 'a) act \<Rightarrow> ('s, 'e, 'b) act \<Rightarrow> ('s, 'e, 'b) act" where
  "act_then m m' = act_bind m (\<lambda>_. m')"

definition try_except :: "('s, 'e, 'a) act \<Rightarrow> ('e \<Rightarrow> ('s, 'e, 'a) act) \<Rightarrow> ('s, 'e, 'a) act" where
  "try_except m h = try_else m h return"

text \<open>\<open>try m finally f\<close>: \<open>f\<close> runs in both cases; its own exception replaces the pending outcome.\<close>

definition try_finally :: "('s, 'e, 'a) act \<Rightarrow> ('s, 'e, unit) act \<Rightarrow> ('s, 'e, 'a) act" where
  "try_finally m f = try_else m (\<lambda>e. act_then f (raise e)) (\<lambda>x. act_then f (return x))"

definition gets :: "('s \<Rightarrow> 'a) \<Rightarrow> ('s, 'e, 'a) act" where
  "gets f = (\<lambda>s. Some (Inr (f s), s))"

definition modify :: "('s \<Rightarrow> 's) \<Rightarrow> ('s, 'e, unit) act" where
  "modify f = (\<lambda>s. Some (Inr (), f s))"

text \<open>Code over a part of the state, run by code that has data of its own beside it.\<close>

definition on_world :: "('w, 'e, 'a) act \<Rightarrow> ('g \<times> 'w, 'e, 'a) act" where
  "on_world m = (\<lambda>(g, w). map_option (\<lambda>(r, w'). (r, (g, w'))) (m w))"

definition hoare ::
  "bool \<Rightarrow> ('s \<Rightarrow> bool) \<Rightarrow> ('s, 'e, 'a) act \<Rightarrow> ('a \<Rightarrow> 's \<Rightarrow> bool) \<Rightarrow> ('e \<Rightarrow> 's \<Rightarrow> bool) \<Rightarrow> bool" where
  "hoare b P m Q E \<longleftrightarrow>
     (\<forall>s. P s \<longrightarrow> (case m s of None \<Rightarrow> \<not> b
                  | Some (r, s') \<Rightarrow> (case r of Inl e \<Rightarrow> E e s' | Inr x \<Rightarrow> Q x s')))"

text \<open>Code that keeps a property of the state, whether it returns or raises (and that ends, if
  \<open>b\<close>).\<close>

definition keeps :: "bool \<Rightarrow> ('s \<Rightarrow> bool) \<Rightarrow> ('s, 'e, 'a) act \<Rightarrow> bool" where
  "keeps b I m \<longleftrightarrow> hoare b I m (\<lambda>_. I) (\<lambda>_. I)"

section \<open>Code without state\<close>

lemma ebind_simps [simp]: "ebind (Inl e) f = Inl e" "ebind (Inr x) f = f x"
  by (simp_all add: ebind_def)

lemma ebind_eq_Inr [simp]: "ebind m f = Inr y \<longleftrightarrow> (\<exists>x. m = Inr x \<and> f x = Inr y)"
  by (cases m) auto

lemma ebind_eq_Inl: "ebind m f = Inl e \<longleftrightarrow> m = Inl e \<or> (\<exists>x. m = Inr x \<and> f x = Inl e)"
  by (cases m) auto

section \<open>Running effectful code\<close>

lemmas act_defs = return_def raise_def lift_def act_bind_def act_then_def try_except_def
  try_else_def try_finally_def gets_def modify_def

lemma return_run [act_simps]: "return x s = Some (Inr x, s)"
  by (simp add: return_def)

lemma raise_run [act_simps]: "raise e s = Some (Inl e, s)"
  by (simp add: raise_def)

lemma lift_run [act_simps]: "lift r s = Some (r, s)"
  by (simp add: lift_def)

lemma gets_run [act_simps]: "gets f s = Some (Inr (f s), s)"
  by (simp add: gets_def)

lemma modify_run [act_simps]: "modify f s = Some (Inr (), f s)"
  by (simp add: modify_def)

lemma try_else_run [act_simps]:
  "try_else m h k s =
     (case m s of None \<Rightarrow> None | Some (r, s') \<Rightarrow> (case r of Inl e \<Rightarrow> h e s' | Inr x \<Rightarrow> k x s'))"
  by (simp add: try_else_def)

lemma act_bind_run [act_simps]:
  "act_bind m f s =
     (case m s of None \<Rightarrow> None
      | Some (r, s') \<Rightarrow> (case r of Inl e \<Rightarrow> Some (Inl e, s') | Inr x \<Rightarrow> f x s'))"
  by (auto simp: act_bind_def try_else_def raise_def split: option.split sum.split)

lemma act_then_run [act_simps]:
  "act_then m m' s =
     (case m s of None \<Rightarrow> None
      | Some (r, s') \<Rightarrow> (case r of Inl e \<Rightarrow> Some (Inl e, s') | Inr x \<Rightarrow> m' s'))"
  by (simp add: act_then_def act_bind_run)

lemma try_except_run [act_simps]:
  "try_except m h s =
     (case m s of None \<Rightarrow> None
      | Some (r, s') \<Rightarrow> (case r of Inl e \<Rightarrow> h e s' | Inr x \<Rightarrow> Some (Inr x, s')))"
  by (auto simp: try_except_def try_else_def return_def split: option.split sum.split)

lemma on_world_run: "on_world m (g, w) = (case m w of None \<Rightarrow> None | Some (r, w') \<Rightarrow> Some (r, (g, w')))"
  by (simp add: on_world_def split: option.split)

section \<open>Triples\<close>

lemma hoareI:
  assumes "\<And>s. P s \<Longrightarrow> m s = None \<Longrightarrow> \<not> b"
    and "\<And>s e s'. P s \<Longrightarrow> m s = Some (Inl e, s') \<Longrightarrow> E e s'"
    and "\<And>s x s'. P s \<Longrightarrow> m s = Some (Inr x, s') \<Longrightarrow> Q x s'"
  shows "hoare b P m Q E"
  using assms unfolding hoare_def by (auto split: option.split sum.split)

lemma hoare_raiseD: "hoare b P m Q E \<Longrightarrow> P s \<Longrightarrow> m s = Some (Inl e, s') \<Longrightarrow> E e s'"
  unfolding hoare_def by force

lemma hoare_returnD: "hoare b P m Q E \<Longrightarrow> P s \<Longrightarrow> m s = Some (Inr x, s') \<Longrightarrow> Q x s'"
  unfolding hoare_def by force

lemma hoare_endsD: "hoare True P m Q E \<Longrightarrow> P s \<Longrightarrow> \<exists>r s'. m s = Some (r, s')"
  unfolding hoare_def by (force split: option.splits)

lemma hoare_noneD: "hoare b P m Q E \<Longrightarrow> P s \<Longrightarrow> m s = None \<Longrightarrow> \<not> b"
  unfolding hoare_def by force

lemma hoare_weaken:
  assumes "hoare b P m Q E" and "\<And>s. P' s \<Longrightarrow> P s"
    and "\<And>x s. Q x s \<Longrightarrow> Q' x s" and "\<And>e s. E e s \<Longrightarrow> E' e s"
  shows "hoare b P' m Q' E'"
  by (rule hoareI)
    (use assms in \<open>blast dest: hoare_noneD\<close>, use assms in \<open>blast dest: hoare_raiseD\<close>,
      use assms in \<open>blast dest: hoare_returnD\<close>)

lemma hoare_pre: "hoare b P m Q E \<Longrightarrow> (\<And>s. P' s \<Longrightarrow> P s) \<Longrightarrow> hoare b P' m Q E"
  by (rule hoare_weaken)

lemma hoare_return [hoare_rules]: "hoare b (Q x) (return x) Q E"
  by (simp add: hoare_def act_simps)

lemma hoare_raise [hoare_rules]: "hoare b (E e) (raise e) Q E"
  by (simp add: hoare_def act_simps)

lemma hoare_lift: "hoare b (\<lambda>s. case r of Inl e \<Rightarrow> E e s | Inr x \<Rightarrow> Q x s) (lift r) Q E"
  by (simp add: hoare_def act_simps)

lemma hoare_gets [hoare_rules]: "hoare b (\<lambda>s. Q (f s) s) (gets f) Q E"
  by (simp add: hoare_def act_simps)

lemma hoare_modify [hoare_rules]: "hoare b (\<lambda>s. Q () (f s)) (modify f) Q E"
  by (simp add: hoare_def act_simps)

lemma hoare_try_else:
  assumes m: "hoare b P m R F" and h: "\<And>e. hoare b (F e) (h e) Q E"
    and k: "\<And>x. hoare b (R x) (k x) Q E"
  shows "hoare b P (try_else m h k) Q E"
proof (rule hoareI)
  fix s
  assume "P s" "try_else m h k s = None"
  then show "\<not> b"
    by (auto simp: act_simps split: option.splits sum.splits
        dest: hoare_noneD [OF m] hoare_noneD [OF h hoare_raiseD [OF m]]
        hoare_noneD [OF k hoare_returnD [OF m]])
next
  fix s e s'
  assume "P s" "try_else m h k s = Some (Inl e, s')"
  then show "E e s'"
    by (auto simp: act_simps split: option.splits sum.splits
        dest: hoare_raiseD [OF h hoare_raiseD [OF m]] hoare_raiseD [OF k hoare_returnD [OF m]])
next
  fix s x s'
  assume "P s" "try_else m h k s = Some (Inr x, s')"
  then show "Q x s'"
    by (auto simp: act_simps split: option.splits sum.splits
        dest: hoare_returnD [OF h hoare_raiseD [OF m]] hoare_returnD [OF k hoare_returnD [OF m]])
qed

lemma hoare_bind:
  assumes "hoare b P m R E" and "\<And>x. hoare b (R x) (f x) Q E"
  shows "hoare b P (act_bind m f) Q E"
  unfolding act_bind_def using assms(1) hoare_raise assms(2) by (rule hoare_try_else)

lemma hoare_then:
  assumes "hoare b P m (\<lambda>_. R) E" and "hoare b R m' Q E"
  shows "hoare b P (act_then m m') Q E"
  unfolding act_then_def using assms by (rule hoare_bind)

lemma hoare_try_except:
  assumes "hoare b P m Q F" and "\<And>e. hoare b (F e) (h e) Q E"
  shows "hoare b P (try_except m h) Q E"
  unfolding try_except_def using assms hoare_return by (rule hoare_try_else)

lemma hoare_try_finally:
  assumes "hoare b P m R F" and "\<And>e. hoare b (F e) f (\<lambda>_. E e) E" and "\<And>x. hoare b (R x) f (\<lambda>_. Q x) E"
  shows "hoare b P (try_finally m f) Q E"
  unfolding try_finally_def
  by (rule hoare_try_else [OF assms(1)];
      rule hoare_then, rule assms, rule hoare_raise hoare_return)

lemma hoare_if:
  "(c \<Longrightarrow> hoare b P m Q E) \<Longrightarrow> (\<not> c \<Longrightarrow> hoare b P m' Q E) \<Longrightarrow> hoare b P (if c then m else m') Q E"
  by simp

text \<open>The partial reading, by the results alone, for induction over a loop.\<close>

lemma hoare_partialI:
  assumes "\<And>s y. m s = Some y \<Longrightarrow> P s \<Longrightarrow> (case fst y of Inl e \<Rightarrow> E e (snd y) | Inr x \<Rightarrow> Q x (snd y))"
  shows "hoare False P m Q E"
  by (rule hoareI) (auto dest: assms)

lemma hoare_partialD:
  "hoare b P m Q E \<Longrightarrow> m s = Some y \<Longrightarrow> P s \<Longrightarrow> (case fst y of Inl e \<Rightarrow> E e (snd y) | Inr x \<Rightarrow> Q x (snd y))"
  by (cases y; cases "fst y") (auto dest: hoare_raiseD hoare_returnD)

lemma hoare_total: "hoare False P m Q E \<Longrightarrow> (\<And>s. b \<Longrightarrow> P s \<Longrightarrow> m s \<noteq> None) \<Longrightarrow> hoare b P m Q E"
  by (rule hoareI) (blast dest: hoare_raiseD hoare_returnD)+

text \<open>The handler of a Python \<open>except\<close> clause often has the raised value in its precondition.\<close>

lemma hoare_conj_pre: "(A \<Longrightarrow> hoare b P m Q E) \<Longrightarrow> hoare b (\<lambda>s. A \<and> P s) m Q E"
  by (auto simp: hoare_def)

lemma keepsD: "keeps b I m \<Longrightarrow> I s \<Longrightarrow> m s = Some (r, s') \<Longrightarrow> I s'"
  unfolding keeps_def by (cases r) (auto dest: hoare_raiseD hoare_returnD)

lemma keepsI:
  "(\<And>s. I s \<Longrightarrow> m s = None \<Longrightarrow> \<not> b) \<Longrightarrow> (\<And>s r s'. I s \<Longrightarrow> m s = Some (r, s') \<Longrightarrow> I s') \<Longrightarrow> keeps b I m"
  unfolding keeps_def by (rule hoareI) blast+

lemma keeps_hoare: "keeps b I m \<Longrightarrow> hoare b I m (\<lambda>_. I) (\<lambda>_. I)"
  by (simp add: keeps_def)

lemma keeps_ends: "keeps True I m \<Longrightarrow> I s \<Longrightarrow> \<exists>r s'. m s = Some (r, s')"
  unfolding keeps_def by (rule hoare_endsD)

lemma keeps_noneD: "keeps b I m \<Longrightarrow> I s \<Longrightarrow> m s = None \<Longrightarrow> \<not> b"
  unfolding keeps_def by (rule hoare_noneD)

lemma keeps_partial: "keeps b I m \<Longrightarrow> keeps False I m"
  by (rule keepsI) (auto dest: keepsD)

lemma keeps_return [hoare_rules]: "keeps b I (return x)"
  unfolding keeps_def by (rule hoare_return)

lemma keeps_raise [hoare_rules]: "keeps b I (raise e)"
  unfolding keeps_def by (rule hoare_raise)

lemma keeps_lift [hoare_rules]: "keeps b I (lift r)"
  by (rule keepsI) (simp_all add: act_simps)

lemma keeps_gets [hoare_rules]: "keeps b I (gets f)"
  unfolding keeps_def by (rule hoare_gets)

lemma keeps_bind [hoare_rules]:
  "keeps b I m \<Longrightarrow> (\<And>x. keeps b I (f x)) \<Longrightarrow> keeps b I (act_bind m f)"
  unfolding keeps_def by (rule hoare_bind)

lemma keeps_then [hoare_rules]: "keeps b I m \<Longrightarrow> keeps b I m' \<Longrightarrow> keeps b I (act_then m m')"
  unfolding keeps_def by (rule hoare_then)

lemma keeps_try_except [hoare_rules]:
  "keeps b I m \<Longrightarrow> (\<And>e. keeps b I (h e)) \<Longrightarrow> keeps b I (try_except m h)"
  unfolding keeps_def by (rule hoare_try_except)

lemma keeps_try_else [hoare_rules]:
  "keeps b I m \<Longrightarrow> (\<And>e. keeps b I (h e)) \<Longrightarrow> (\<And>x. keeps b I (k x)) \<Longrightarrow> keeps b I (try_else m h k)"
  unfolding keeps_def by (rule hoare_try_else)

lemma keeps_if [hoare_rules]:
  "(c \<Longrightarrow> keeps b I m) \<Longrightarrow> (\<not> c \<Longrightarrow> keeps b I m') \<Longrightarrow> keeps b I (if c then m else m')"
  by simp

lemma keeps_case_option [hoare_rules]:
  "(x = None \<Longrightarrow> keeps b I m) \<Longrightarrow> (\<And>y. x = Some y \<Longrightarrow> keeps b I (f y)) \<Longrightarrow>
   keeps b I (case x of None \<Rightarrow> m | Some y \<Rightarrow> f y)"
  by (cases x) auto

section \<open>Loops that may run forever\<close>

text \<open>Monotonicity of the combinators in a recursive call, so that \<open>partial_function (option)\<close> takes
  a loop that is written with them.\<close>

lemma try_else_mono [partial_function_mono]:
  fixes m :: "('x \<Rightarrow> 'y option) \<Rightarrow> ('s, 'e, 'a) act"
  assumes "\<And>s. mono_option (\<lambda>f. m f s)" "\<And>e s. mono_option (\<lambda>f. h f e s)"
    "\<And>x s. mono_option (\<lambda>f. k f x s)"
  shows "mono_option (\<lambda>f. try_else (m f) (h f) (k f) s)"
proof (rule monotoneI)
  fix x y :: "'x \<Rightarrow> 'y option"
  assume le: "fun_ord option_ord x y"
  have m: "option_ord (m x s) (m y s)" by (rule monotoneD [OF assms(1), OF le])
  have h: "option_ord (h x e s') (h y e s')" for e s' by (rule monotoneD [OF assms(2), OF le])
  have k: "option_ord (k x r s') (k y r s')" for r s' by (rule monotoneD [OF assms(3), OF le])
  show "option_ord (try_else (m x) (h x) (k x) s) (try_else (m y) (h y) (k y) s)"
    using m h k
    by (cases "m x s"; cases "m y s") (auto simp: try_else_def flat_ord_def split: sum.split, blast+)
qed

lemma act_bind_mono [partial_function_mono]:
  assumes "\<And>s. mono_option (\<lambda>f. m f s)" "\<And>x s. mono_option (\<lambda>f. k f x s)"
  shows "mono_option (\<lambda>f. act_bind (m f) (k f) s)"
  unfolding act_bind_def using assms by (intro try_else_mono) (auto intro: option.const_mono)

lemma act_then_mono [partial_function_mono]:
  assumes "\<And>s. mono_option (\<lambda>f. m f s)" "\<And>s. mono_option (\<lambda>f. k f s)"
  shows "mono_option (\<lambda>f. act_then (m f) (k f) s)"
  unfolding act_then_def using assms by (rule act_bind_mono)

lemma try_except_mono [partial_function_mono]:
  assumes "\<And>s. mono_option (\<lambda>f. m f s)" "\<And>e s. mono_option (\<lambda>f. h f e s)"
  shows "mono_option (\<lambda>f. try_except (m f) (h f) s)"
  unfolding try_except_def using assms by (intro try_else_mono) (auto intro: option.const_mono)

lemma if_act_mono [partial_function_mono]:
  assumes "\<And>s. mono_option (\<lambda>f. m f s)" "\<And>s. mono_option (\<lambda>f. m' f s)"
  shows "mono_option (\<lambda>f. (if c then m f else m' f) s)"
  using assms by (cases c) auto

section \<open>Transition systems\<close>

text \<open>
  The interface between a component's steps and its invariant: one step keeps it, so every run
  keeps it.
\<close>

locale transition_invariant =
  fixes step :: "'x \<Rightarrow> 'x \<Rightarrow> bool" and inv :: "'x \<Rightarrow> bool"
  assumes step_inv: "inv x \<Longrightarrow> step x y \<Longrightarrow> inv y"
begin

lemma run_inv: "step\<^sup>*\<^sup>* x y \<Longrightarrow> inv x \<Longrightarrow> inv y"
  by (induction rule: rtranclp_induct) (auto intro: step_inv)

text \<open>A quantity that no step decreases does not decrease along a run that starts in the invariant.\<close>

lemma run_mono:
  fixes q :: "'x \<Rightarrow> 'n :: preorder"
  assumes "step\<^sup>*\<^sup>* x y" "inv x" "\<And>u v. inv u \<Longrightarrow> step u v \<Longrightarrow> q u \<le> q v"
  shows "q x \<le> q y"
  using assms(1)
proof (induction rule: rtranclp_induct)
  case base
  then show ?case by simp
next
  case (step y z)
  have "q y \<le> q z" using assms(3) run_inv [OF step(1) assms(2)] step(2) by blast
  with step.IH show ?case by (rule order_trans)
qed

end

section \<open>Floats\<close>

text \<open>Rounding never changes the sign, so non-negative arithmetic stays non-negative.\<close>

definition float_nonneg :: "pyfloat \<Rightarrow> bool" where
  "float_nonneg f \<longleftrightarrow> f = PosInf \<or> (\<exists>x\<ge>0. f = Finite x)"

lemma float_nonneg_simps [simp]:
  "float_nonneg (Finite x) \<longleftrightarrow> 0 \<le> x" "float_nonneg PosInf" "\<not> float_nonneg NegInf"
  "\<not> float_nonneg NaN"
  by (auto simp: float_nonneg_def)

lemma float_nonneg_cases:
  assumes "float_nonneg f"
  obtains (inf) "f = PosInf" | (fin) x where "f = Finite x" and "0 \<le> x"
  using assms by (auto simp: float_nonneg_def)

lemma round_half_even_nonneg: "0 \<le> x \<Longrightarrow> 0 \<le> round_half_even x"
  by (simp add: round_half_even_def Let_def)

lemma float_quantum_pos: "0 < float_quantum x"
  by (simp add: float_quantum_def)

lemma round_double_nonneg: "0 \<le> x \<Longrightarrow> float_nonneg (round_double x)"
proof (cases "x = 0")
  case True
  then show ?thesis by (simp add: round_double_def)
next
  case False
  assume "0 \<le> x"
  define y where "y = of_int (round_half_even (x / float_quantum x)) * float_quantum x"
  have "0 \<le> y"
    using \<open>0 \<le> x\<close> float_quantum_pos [of x] by (simp add: y_def round_half_even_nonneg)
  moreover have "round_double x =
      (if y \<ge> 2 ^ 1024 then PosInf else if y \<le> - (2 ^ 1024) then NegInf else Finite y)"
    using False by (simp add: round_double_def y_def Let_def)
  moreover have "(0::rat) < 2 ^ 1024"
    by (rule zero_less_power) simp
  ultimately show ?thesis by (simp del: power_numeral)
qed

lemma round_double_0 [simp]: "round_double 0 = Finite 0"
  by (simp add: round_double_def)

lemma float_add_nonneg: "float_nonneg a \<Longrightarrow> float_nonneg b \<Longrightarrow> float_nonneg (float_add a b)"
  by (elim float_nonneg_cases) (simp_all add: round_double_nonneg)

lemma float_mul_nonneg:
  "float_nonneg a \<Longrightarrow> float_nonneg b \<Longrightarrow> float_mul a b \<noteq> NaN \<Longrightarrow> float_nonneg (float_mul a b)"
  by (elim float_nonneg_cases) (auto simp: round_double_nonneg split: if_splits)

lemma round_half_even_nonpos: "x \<le> 0 \<Longrightarrow> round_half_even x \<le> 0"
  by (cases "x = 0") (auto simp: round_half_even_def Let_def floor_less_iff)

lemma round_double_nonpos: "x \<le> 0 \<Longrightarrow> float_le (round_double x) (Finite 0)"
proof (cases "x = 0")
  case False
  assume "x \<le> 0"
  define y where "y = of_int (round_half_even (x / float_quantum x)) * float_quantum x"
  have "x / float_quantum x \<le> 0"
    using \<open>x \<le> 0\<close> float_quantum_pos [of x] by (simp add: divide_le_0_iff)
  then have "y \<le> 0"
    using float_quantum_pos [of x] by (simp add: y_def mult_le_0_iff round_half_even_nonpos)
  moreover have "round_double x =
      (if y \<ge> 2 ^ 1024 then PosInf else if y \<le> - (2 ^ 1024) then NegInf else Finite y)"
    using False by (simp add: round_double_def y_def Let_def)
  moreover have "(0::rat) < 2 ^ 1024"
    by (rule zero_less_power) simp
  ultimately show ?thesis by (simp del: power_numeral)
qed simp

lemma float_sub_pos: "\<not> float_le (float_sub (Finite a) (Finite b)) (Finite 0) \<Longrightarrow> b < a"
  using round_double_nonpos [of "a - b"] by (force simp: float_sub_def)

lemma float_min_cases: "float_min a b = a \<or> float_min a b = b"
  by (simp add: float_min_def)

lemma float_lt_0: "float_lt f (Finite 0) \<Longrightarrow> \<not> float_nonneg f"
  by (cases f) auto

text \<open>Integers of at most 53 bits are doubles, so that rounding keeps them.\<close>

lemma bit_length_bounds: "0 < n \<Longrightarrow> 1 \<le> bit_length n \<and> 2 ^ nat (bit_length n - 1) \<le> n \<and> n < 2 ^ nat (bit_length n)"
proof (induction n rule: bit_length.induct)
  case (1 n)
  show ?case
  proof (cases "n = 1")
    case True
    then show ?thesis by (simp add: bit_length.simps)
  next
    case False
    then have "0 < n div 2" using 1(2) by linarith
    then have IH: "1 \<le> bit_length (n div 2)" "2 ^ nat (bit_length (n div 2) - 1) \<le> n div 2"
      "n div 2 < 2 ^ nat (bit_length (n div 2))"
      using 1 by auto
    have b: "bit_length n = 1 + bit_length (n div 2)" using 1(2) by (subst bit_length.simps) simp
    have "nat (bit_length (n div 2)) = Suc (nat (bit_length (n div 2) - 1))" using IH(1) by simp
    then have "2 * 2 ^ nat (bit_length (n div 2) - 1) \<le> n" "n < 4 * 2 ^ nat (bit_length (n div 2) - 1)"
      using IH by (auto, linarith+)
    moreover have "nat (bit_length n - 1) = Suc (nat (bit_length (n div 2) - 1))"
      "nat (bit_length n) = Suc (Suc (nat (bit_length (n div 2) - 1)))"
      using IH(1) by (simp_all add: b)
    ultimately show ?thesis using IH(1) by (simp add: b)
  qed
qed

lemma floor_log2_of_int: "0 < n \<Longrightarrow> floor_log2 (of_int n) = bit_length n - 1"
proof -
  assume n: "0 < n"
  have "(2::rat) powi (bit_length n - 1) = of_int (2 ^ nat (bit_length n - 1))"
    using bit_length_bounds [OF n] by (simp add: power_int_def)
  also have "\<dots> \<le> of_int n" using bit_length_bounds [OF n] by (simp only: of_int_le_iff)
  finally show ?thesis
    by (simp add: floor_log2_def quotient_of_int bit_length.simps)
qed

lemma round_half_even_of_int [simp]: "round_half_even (of_int n) = n"
  by (simp add: round_half_even_def Let_def)

lemma round_double_of_int:
  assumes "\<bar>n\<bar> < 2 ^ 53"
  shows "round_double (of_int n) = Finite (of_int n)"
proof (cases "n = 0")
  case False
  define k where "k = bit_length \<bar>n\<bar> - 1"
  have pos: "0 < \<bar>n\<bar>" using False by simp
  have k: "0 \<le> k" using bit_length_bounds [OF pos] by (simp add: k_def)
  have "2 ^ nat k < (2::int) ^ 53" using bit_length_bounds [OF pos] assms by (simp add: k_def)
  then have "nat k < 53" by (rule power_less_imp_less_exp [rotated]) simp
  then have k52: "k \<le> 52" by simp
  have q: "float_quantum (of_int n) = 1 / 2 ^ nat (52 - k)"
    using k k52 floor_log2_of_int [OF pos]
    by (simp add: float_quantum_def k_def [symmetric] power_int_def power_one_over)
  have "of_int n / float_quantum (of_int n) = of_int (n * 2 ^ nat (52 - k))" by (simp add: q)
  then have "of_int (round_half_even (of_int n / float_quantum (of_int n))) * float_quantum (of_int n)
      = rat_of_int n"
    by (simp only: round_half_even_of_int) (simp add: q)
  moreover have "rat_of_int n < 2 ^ 1024" "- (2 ^ 1024) < rat_of_int n"
  proof -
    have "\<bar>rat_of_int n\<bar> < of_int (2 ^ 53)" using assms by (simp only: of_int_abs [symmetric] of_int_less_iff)
    then show "rat_of_int n < 2 ^ 1024" "- (2 ^ 1024) < rat_of_int n" by simp_all
  qed
  ultimately show ?thesis using False by (simp add: round_double_def Let_def not_le del: power_numeral)
qed (simp add: round_double_def)

text \<open>The error of rounding: half a unit in the last place, and half the least positive double.\<close>

lemma two_powi_le_quotient:
  fixes p q :: int
  assumes "0 < p" and "0 < q"
  shows "2 powi (bit_length p - bit_length q - 1) \<le> (of_int p / of_int q :: rat)"
proof -
  have "(2::rat) powi (bit_length p - 1) = of_int (2 ^ nat (bit_length p - 1))"
    using bit_length_bounds [OF assms(1)] by (simp add: power_int_def)
  also have "\<dots> \<le> of_int p" using bit_length_bounds [OF assms(1)] by (simp only: of_int_le_iff)
  finally have p: "(2::rat) powi (bit_length p - 1) \<le> of_int p" .
  have "(of_int q :: rat) \<le> of_int (2 ^ nat (bit_length q))"
    using bit_length_bounds [OF assms(2)] by (simp only: of_int_le_iff less_imp_le)
  also have "\<dots> = 2 powi (bit_length q)"
    using bit_length_bounds [OF assms(2)] by (simp add: power_int_def)
  finally have q: "(of_int q :: rat) \<le> 2 powi (bit_length q)" .
  have "(2::rat) powi (bit_length p - bit_length q - 1)
      = 2 powi (bit_length p - 1) / 2 powi (bit_length q)"
    by (simp add: algebra_simps flip: power_int_diff)
  also have "\<dots> \<le> of_int p / of_int q"
    using p q assms by (intro frac_le) simp_all
  finally show ?thesis .
qed

lemma floor_log2_le: "0 < x \<Longrightarrow> 2 powi (floor_log2 x) \<le> x"
proof -
  assume "0 < x"
  obtain p q where pq: "quotient_of x = (p, q)" by fastforce
  then have x: "x = of_int p / of_int q" and "0 < q"
    by (auto dest: quotient_of_div quotient_of_denom_pos)
  with \<open>0 < x\<close> have "0 < p" by (simp add: zero_less_divide_iff)
  from two_powi_le_quotient [OF this \<open>0 < q\<close>] show ?thesis
    by (auto simp: floor_log2_def pq Let_def simp flip: x)
qed

lemma round_half_even_error: "\<bar>of_int (round_half_even x) - x\<bar> \<le> 1 / 2"
proof -
  have "of_int \<lfloor>x\<rfloor> \<le> x" "x < of_int \<lfloor>x\<rfloor> + 1" using floor_correct [of x] by simp_all
  then have "0 \<le> x - of_int \<lfloor>x\<rfloor>" "x - of_int \<lfloor>x\<rfloor> < 1" by linarith+
  then show ?thesis
    unfolding round_half_even_def Let_def by (simp split: if_splits)
qed

lemma round_at_quantum: "0 < q \<Longrightarrow> \<bar>of_int (round_half_even (x / q)) * q - x\<bar> \<le> q / 2"
proof -
  assume q: "0 < q"
  have "\<bar>of_int (round_half_even (x / q)) * q - x\<bar> = \<bar>(of_int (round_half_even (x / q)) - x / q) * q\<bar>"
    using q by (simp add: left_diff_distrib)
  also have "\<dots> = \<bar>of_int (round_half_even (x / q)) - x / q\<bar> * q"
    using q by (simp add: abs_mult)
  also have "\<dots> \<le> 1 / 2 * q"
    using q by (intro mult_right_mono round_half_even_error) simp
  finally show ?thesis by simp
qed

lemma float_quantum_le: "x \<noteq> 0 \<Longrightarrow> float_quantum x \<le> \<bar>x\<bar> / 2 ^ 52 + 1 / 2 ^ 1074"
proof -
  assume "x \<noteq> 0"
  then have "2 powi (floor_log2 \<bar>x\<bar>) / 2 ^ 52 \<le> \<bar>x\<bar> / 2 ^ 52"
    by (intro divide_right_mono floor_log2_le) simp_all
  moreover have "(2::rat) powi (floor_log2 \<bar>x\<bar> - 52) = 2 powi (floor_log2 \<bar>x\<bar>) / 2 ^ 52"
    by (simp add: power_int_diff)
  moreover have "(2::rat) powi (- 1074) = 1 / 2 ^ 1074"
    by (simp add: power_int_minus divide_inverse del: power_numeral)
  moreover have "0 \<le> (1::rat) / 2 ^ 1074" "0 \<le> \<bar>x\<bar> / 2 ^ 52" by (simp_all del: power_numeral)
  ultimately show ?thesis
    unfolding float_quantum_def max_def by (simp del: power_numeral)
qed

lemma round_double_error:
  assumes "round_double x = Finite y"
  shows "\<bar>y - x\<bar> \<le> \<bar>x\<bar> / 2 ^ 53 + 1 / 2 ^ 1075"
proof (cases "x = 0")
  case False
  define q where "q = float_quantum x"
  have "0 < q" by (simp add: q_def float_quantum_def)
  moreover have "y = of_int (round_half_even (x / q)) * q"
    using assms False by (auto simp: round_double_def Let_def q_def split: if_splits)
  ultimately have "\<bar>y - x\<bar> \<le> q / 2" using round_at_quantum [of q x] by blast
  also have "\<dots> \<le> (\<bar>x\<bar> / 2 ^ 52 + 1 / 2 ^ 1074) / 2"
    using float_quantum_le [OF False] by (simp add: q_def)
  also have "\<dots> = \<bar>x\<bar> / 2 ^ 53 + 1 / 2 ^ 1075"
    by (simp add: field_simps)
  finally show ?thesis .
qed (use assms in simp)

lemma round_double_finite:
  assumes "\<bar>x\<bar> \<le> 2 ^ 1023 + 2 ^ 1022"
  shows "\<exists>y. round_double x = Finite y"
proof (cases "x = 0")
  case False
  define y where "y = of_int (round_half_even (x / float_quantum x)) * float_quantum x"
  have "\<bar>y - x\<bar> \<le> float_quantum x / 2"
    unfolding y_def by (rule round_at_quantum) (simp add: float_quantum_def)
  then have "\<bar>y - x\<bar> \<le> (\<bar>x\<bar> / 2 ^ 52 + 1 / 2 ^ 1074) / 2"
    using float_quantum_le [OF False] by simp
  moreover have "\<bar>x\<bar> + (\<bar>x\<bar> / 2 ^ 52 + 1 / 2 ^ 1074) / 2 < 2 ^ 1024"
  proof -
    have "\<bar>x\<bar> + (\<bar>x\<bar> / 2 ^ 52 + 1 / 2 ^ 1074) / 2 \<le> (2 ^ 1023 + 2 ^ 1022) + ((2 ^ 1023 + 2 ^ 1022) / 2 ^ 52 + 1 / 2 ^ 1074) / (2::rat)"
      by (intro add_mono divide_right_mono assms order_refl) simp_all
    also have "\<dots> < 2 ^ 1024" by simp
    finally show ?thesis .
  qed
  ultimately have "\<bar>y\<bar> < 2 ^ 1024" by linarith
  then have "\<not> y \<ge> 2 ^ 1024" "\<not> y \<le> - (2 ^ 1024)" by linarith+
  then show ?thesis using False by (simp add: round_double_def y_def Let_def del: power_numeral)
qed simp

end
