(* ===== verification/Resilience_Core.thy ===== *)
theory Resilience_Core
  imports Prelude
begin

text \<open>
  \<open>bluetape.resilience._core\<close> and the callable checks of \<open>_retry\<close>: the enumerations, the
  immutable event and snapshot values, the exceptions, the argument validators and \<open>_emit\<close>.

  \<open>exn\<close> is what resilience code can raise. \<open>is_exception\<close> says whether a raised value is an
  \<open>Exception\<close>; \<open>CancelledError\<close> and \<open>UserBaseException\<close> (\<open>KeyboardInterrupt\<close> and the like) are
  not. A caller's own exception is \<open>UserException\<close>, numbered to tell several apart. The \<open>raise ...
  from error\<close> of the retry policy is kept as the last argument of \<open>RetryExhaustedError\<close>.
\<close>

datatype policy_type = RETRY | TIMEOUT | CIRCUIT_BREAKER | BULKHEAD

datatype event_kind =
    SUCCEEDED | FAILED | RETRY_SCHEDULED | TIMED_OUT | CIRCUIT_TRANSITIONED | ADMITTED | REJECTED

datatype policy_outcome = SUCCESS | FAILURE | REJECTION

datatype failure_category_t =
    CAT_NONE | CAT_FAILURE | CAT_TIMEOUT | CAT_RETRY_EXHAUSTED | CAT_CIRCUIT_OPEN
  | CAT_BULKHEAD_REJECTED

datatype circuit_state = CLOSED | OPEN | HALF_OPEN

record policy_event =
  ev_policy_name :: pystr
  ev_policy_type :: policy_type
  ev_kind :: event_kind
  ev_outcome :: "policy_outcome option"
  ev_failure_category :: failure_category_t
  ev_attempt :: "int option"
  ev_delay :: "pyfloat option"
  ev_timeout :: "pyfloat option"
  ev_state :: "circuit_state option"
  ev_previous_state :: "circuit_state option"
  ev_in_flight :: "int option"
  ev_waiters :: "int option"

record circuit_snapshot =
  cs_name :: pystr
  cs_state :: circuit_state
  cs_consecutive_failures :: int
  cs_recovery_successes :: int
  cs_half_open_in_flight :: int

record bulkhead_snapshot =
  bs_name :: pystr
  bs_max_concurrency :: int
  bs_in_flight :: int
  bs_waiters :: int

datatype exn =
    TypeError string
  | ValueError string
  | OverflowError
  | RuntimeError string
  | TimeoutError
  | SyncResultContractError
  | RetryExhaustedError pystr int exn
  | PolicyTimeoutError pystr pyfloat
  | CircuitOpenError pystr circuit_state
  | BulkheadRejectedError pystr
  | UserException nat
  | CancelledError
  | UserBaseException nat

fun is_exception :: "exn \<Rightarrow> bool" where
  "is_exception CancelledError = False"
| "is_exception (UserBaseException _) = False"
| "is_exception _ = True"

fun is_timeout_error :: "exn \<Rightarrow> bool" where
  "is_timeout_error TimeoutError = True"
| "is_timeout_error (PolicyTimeoutError _ _) = True"
| "is_timeout_error _ = False"

section \<open>Validators\<close>

definition validate_name :: "pyval \<Rightarrow> string \<Rightarrow> exn + pystr" where
  "validate_name v parameter =
     (case v of
        PyStr s \<Rightarrow>
          if s = [] \<or> s \<noteq> strip s
          then Inl (ValueError (parameter @ '' must be non-blank without surrounding whitespace''))
          else Inr s
      | _ \<Rightarrow> Inl (TypeError (parameter @ '' must be a string'')))"

definition positive_int :: "pyval \<Rightarrow> string \<Rightarrow> exn + int" where
  "positive_int v parameter =
     (case v of
        PyInt n \<Rightarrow>
          if n < 1 then Inl (ValueError (parameter @ '' must be greater than 0'')) else Inr n
      | _ \<Rightarrow> Inl (TypeError (parameter @ '' must be an integer'')))"

text \<open>\<open>float(value)\<close> of an \<open>int\<close> or a \<open>float\<close> that is not a \<open>bool\<close>.\<close>

fun to_float :: "pyval \<Rightarrow> string \<Rightarrow> exn + pyfloat" where
  "to_float (PyInt n) msg = (case float_of_int n of None \<Rightarrow> Inl OverflowError | Some f \<Rightarrow> Inr f)"
| "to_float (PyFloat f) msg = Inr f"
| "to_float _ msg = Inl (TypeError msg)"

definition finite_non_negative :: "pyval \<Rightarrow> string \<Rightarrow> exn + pyfloat" where
  "finite_non_negative v parameter =
     (case to_float v (parameter @ '' must be a finite non-negative number'') of
        Inl e \<Rightarrow> Inl e
      | Inr result \<Rightarrow>
          if \<not> isfinite result \<or> float_lt result (Finite 0)
          then Inl (ValueError (parameter @ '' must be a finite non-negative number''))
          else Inr result)"

definition finite_positive :: "pyval \<Rightarrow> string \<Rightarrow> exn + pyfloat" where
  "finite_positive v parameter =
     (case to_float v (parameter @ '' must be a finite positive number'') of
        Inl e \<Rightarrow> Inl e
      | Inr result \<Rightarrow>
          if \<not> isfinite result \<or> float_le result (Finite 0)
          then Inl (ValueError (parameter @ '' must be a finite positive number''))
          else Inr result)"

definition validate_callable :: "'f callback \<Rightarrow> string \<Rightarrow> exn + 'f" where
  "validate_callable c parameter =
     (case c of Callable f \<Rightarrow> Inr f | NotCallable \<Rightarrow> Inl (TypeError (parameter @ '' must be callable'')))"

text \<open>\<open>None if value is None else _validate_callable(value, ...)\<close>, as the constructors write it.\<close>

definition validate_optional_callable :: "'f callback option \<Rightarrow> string \<Rightarrow> exn + 'f option" where
  "validate_optional_callable c parameter =
     (case c of None \<Rightarrow> Inr None
      | Some cb \<Rightarrow> (case validate_callable cb parameter of Inl e \<Rightarrow> Inl e | Inr f \<Rightarrow> Inr (Some f)))"

fun failure_category :: "exn \<Rightarrow> failure_category_t" where
  "failure_category (PolicyTimeoutError _ _) = CAT_TIMEOUT"
| "failure_category (RetryExhaustedError _ _ _) = CAT_RETRY_EXHAUSTED"
| "failure_category (CircuitOpenError _ _) = CAT_CIRCUIT_OPEN"
| "failure_category (BulkheadRejectedError _) = CAT_BULKHEAD_REJECTED"
| "failure_category _ = CAT_FAILURE"

type_synonym 's observer = "(policy_event \<Rightarrow> ('s, exn, unit) act) option"

definition emit :: "'s observer \<Rightarrow> policy_event \<Rightarrow> ('s, exn, unit) act" where
  "emit observer event = (case observer of None \<Rightarrow> return () | Some f \<Rightarrow> f event)"

section \<open>Operations\<close>

text \<open>
  A caller's operation. \<open>inspect\<close> looks at the callable and at its \<open>__call__\<close>, so both have a
  kind; running it (its arguments are already bound) has effects and gives a plain value or an
  awaitable, which may have a callable \<open>close\<close>.
\<close>

datatype fkind = PlainFunction | CoroutineFunction | GeneratorFunction | AsyncGeneratorFunction

datatype ('s, 'r) retval = Plain 'r | Awaitable "('s, exn, unit) act option"

record ('s, 'a) operation =
  op_callable :: bool
  op_kinds :: "fkind list"
  op_run :: "('s, exn, 'a) act"

type_synonym ('s, 'r) sync_op = "('s, ('s, 'r) retval) operation"

definition validate_operation :: "('s, 'a) operation \<Rightarrow> exn + unit" where
  "validate_operation operation =
     (if op_callable operation then Inr () else Inl (TypeError ''operation must be callable''))"

definition ensure_sync_operation :: "('s, 'a) operation \<Rightarrow> exn + unit" where
  "ensure_sync_operation operation =
     (if \<not> op_callable operation then Inl (TypeError ''operation must be callable'')
      else if list_ex (\<lambda>k. k = CoroutineFunction \<or> k = GeneratorFunction \<or> k = AsyncGeneratorFunction)
                (op_kinds operation)
      then Inl (TypeError ''sync resilience policy requires a non-generator sync callable'')
      else Inr ())"

definition ensure_async_operation :: "('s, 'a) operation \<Rightarrow> exn + unit" where
  "ensure_async_operation operation =
     (if \<not> op_callable operation then Inl (TypeError ''operation must be callable'')
      else if \<not> list_ex (\<lambda>k. k = CoroutineFunction) (op_kinds operation)
              \<or> list_ex (\<lambda>k. k = GeneratorFunction \<or> k = AsyncGeneratorFunction) (op_kinds operation)
      then Inl (TypeError ''async resilience policy requires an async callable'')
      else Inr ())"

definition ensure_sync_result :: "('s, 'r) retval \<Rightarrow> ('s, exn, 'r) act" where
  "ensure_sync_result result =
     (case result of
        Plain r \<Rightarrow> return r
      | Awaitable None \<Rightarrow> raise SyncResultContractError
      | Awaitable (Some close) \<Rightarrow> act_then close (raise SyncResultContractError))"

text \<open>
  The function a policy's \<open>__call__\<close> returns: it wraps the policy's \<open>call\<close>, keeps the operation's
  name and is itself a plain callable, so that a policy can be applied to it.
\<close>

definition wrapped_sync :: "('s, exn, 'r) act \<Rightarrow> ('s, 'r) sync_op" where
  "wrapped_sync m = \<lparr>op_callable = True, op_kinds = [PlainFunction, PlainFunction],
                     op_run = act_bind m (\<lambda>r. return (Plain r))\<rparr>"

definition wrapped_async :: "('s, exn, 'r) act \<Rightarrow> ('s, 'r) operation" where
  "wrapped_async m = \<lparr>op_callable = True, op_kinds = [CoroutineFunction, PlainFunction], op_run = m\<rparr>"

section \<open>Lemmas\<close>

lemma finite_non_negative_result:
  "finite_non_negative v p = Inr d \<Longrightarrow> isfinite d \<and> float_nonneg d"
  by (cases d) (auto simp: finite_non_negative_def split: sum.splits if_splits)

lemma finite_positive_result:
  "finite_positive v p = Inr d \<Longrightarrow> \<exists>x>0. d = Finite x"
  by (cases d) (auto simp: finite_positive_def split: sum.splits if_splits)

lemma positive_int_result: "positive_int v p = Inr n \<Longrightarrow> v = PyInt n \<and> 1 \<le> n"
  by (auto simp: positive_int_def split: pyval.splits if_splits)

lemma positive_int_PyInt [simp]: "1 \<le> n \<Longrightarrow> positive_int (PyInt n) p = Inr n"
  by (simp add: positive_int_def)

lemma finite_non_negative_Finite [simp]:
  "0 \<le> x \<Longrightarrow> finite_non_negative (PyFloat (Finite x)) p = Inr (Finite x)"
  by (simp add: finite_non_negative_def)

lemma finite_non_negative_of_nonneg:
  "float_nonneg f \<Longrightarrow> finite_non_negative (PyFloat f) p =
     (if isfinite f then Inr f else Inl (ValueError (p @ '' must be a finite non-negative number'')))"
  by (elim float_nonneg_cases) (simp_all add: finite_non_negative_def)

lemma keeps_emit:
  assumes "\<And>f ev. obs = Some f \<Longrightarrow> keeps b I (f ev)"
  shows "keeps b I (emit obs ev)"
  using assms by (auto simp: emit_def keeps_return split: option.split)

lemma keeps_ensure_sync_result:
  assumes "\<And>c. r = Awaitable (Some c) \<Longrightarrow> keeps b I c"
  shows "keeps b I (ensure_sync_result r)"
  using assms
  by (auto simp: ensure_sync_result_def split: retval.splits option.splits intro: hoare_rules)

lemma emit_None [act_simps]: "emit None ev s = Some (Inr (), s)"
  by (simp add: emit_def act_simps)

lemma emit_Some [act_simps]: "emit (Some f) ev s = f ev s"
  by (simp add: emit_def)

lemma ensure_sync_result_Plain [simp]: "ensure_sync_result (Plain r) = return r"
  by (simp add: ensure_sync_result_def)

text \<open>An operation that keeps a property, the \<open>close\<close> of an awaitable it returns included.\<close>

definition safe_sync_op :: "bool \<Rightarrow> ('s \<Rightarrow> bool) \<Rightarrow> ('s, exn, ('s, 'r) retval) act \<Rightarrow> bool" where
  "safe_sync_op b I m \<longleftrightarrow>
     keeps b I m \<and> (\<forall>s c s'. m s = Some (Inr (Awaitable (Some c)), s') \<longrightarrow> keeps b I c)"

lemma hoare_safe_sync_op:
  assumes "safe_sync_op b I m"
  shows "hoare b I m (\<lambda>r s. (\<forall>c. r = Awaitable (Some c) \<longrightarrow> keeps b I c) \<and> I s) (\<lambda>_. I)"
  using assms by (intro hoareI) (auto simp: safe_sync_op_def dest: keepsD keeps_noneD)

lemma keeps_safe_sync_op:
  assumes "safe_sync_op b I m"
  shows "keeps b I (act_bind m ensure_sync_result)"
  unfolding keeps_def
  by (rule hoare_bind [OF hoare_safe_sync_op [OF assms]])
    (intro hoare_conj_pre keeps_hoare keeps_ensure_sync_result, simp)

lemma safe_wrapped_sync: "keeps b I m \<Longrightarrow> safe_sync_op b I (op_run (wrapped_sync m))"
  by (auto simp: safe_sync_op_def wrapped_sync_def act_simps intro: hoare_rules
      split: option.splits sum.splits)

text \<open>A wrapped policy passes the callable checks that the next policy makes.\<close>

lemma wrapped_sync_accepted [simp]:
  "validate_operation (wrapped_sync m) = Inr ()" "ensure_sync_operation (wrapped_sync m) = Inr ()"
  by (simp_all add: wrapped_sync_def validate_operation_def ensure_sync_operation_def)

lemma wrapped_async_accepted [simp]:
  "validate_operation (wrapped_async m) = Inr ()" "ensure_async_operation (wrapped_async m) = Inr ()"
  by (simp_all add: wrapped_async_def validate_operation_def ensure_async_operation_def)

end
