(* ===== verification/Backoff.thy ===== *)
theory Backoff
  imports Resilience_Core
begin

text \<open>
  \<open>bluetape.resilience._backoff\<close>: the constant and the exponential backoff and their factories.

  The exponential backoff is \<open>initial * multiplier ** (attempt - 1)\<close>, capped by an optional
  maximum and scaled by a jitter factor. The float power of the C library and the caller's random
  source are parameters: \<open>pow\<close> gives \<open>None\<close> where Python raises \<open>OverflowError\<close>, and the random
  source is effectful code that gives some Python value.
\<close>

record constant_backoff_t =
  cb_delay :: pyfloat

definition constant_backoff_call :: "constant_backoff_t \<Rightarrow> pyval \<Rightarrow> exn + pyfloat" where
  "constant_backoff_call self failed_attempt =
     ebind (positive_int failed_attempt ''failed_attempt'') (\<lambda>_. Inr (cb_delay self))"






definition constant_backoff :: "pyval \<Rightarrow> exn + constant_backoff_t" where
  "constant_backoff d = ebind (finite_non_negative d ''delay'') (\<lambda>f. Inr \<lparr>cb_delay = f\<rparr>)"


section \<open>What a built exponential backoff guarantees\<close>







section \<open>The jitter\<close>





section \<open>Properties\<close>



end
