(* ===== verification/Retry.thy ===== *)
theory Retry
  imports Backoff
begin

text \<open>
  \<open>bluetape.resilience._retry\<close>: the synchronous and the asynchronous retry policy.

  A policy is a record of its configuration (it has no mutable state of its own). The backoff, the
  predicate, the observer and the sleeper are the caller's code: effectful, free to raise. The
  \<open>while True\<close> loop of \<open>call\<close> is the recursion \<open>retry_loop\<close>; it ends because only an attempt
  below \<open>max_attempts\<close> continues it.
\<close>

record 's retry =
  rt_name :: pystr
  rt_max_attempts :: int
  rt_backoff :: "int \<Rightarrow> ('s, exn, pyval) act"
  rt_retry_if :: "(exn \<Rightarrow> ('s, exn, pyval) act) option"
  rt_observer :: "'s observer"
  rt_sleeper :: "pyfloat \<Rightarrow> ('s, exn, unit) act"

definition retry_event ::
  "pystr \<Rightarrow> event_kind \<Rightarrow> policy_outcome option \<Rightarrow> failure_category_t \<Rightarrow> int \<Rightarrow> pyfloat option
   \<Rightarrow> policy_event" where
  "retry_event name k out category n d =
     \<lparr>ev_policy_name = name, ev_policy_type = RETRY, ev_kind = k, ev_outcome = out,
      ev_failure_category = category, ev_attempt = Some n, ev_delay = d, ev_timeout = None,
      ev_state = None, ev_previous_state = None, ev_in_flight = None, ev_waiters = None\<rparr>"

definition retry_init ::
  "pyval \<Rightarrow> pyval \<Rightarrow> (int \<Rightarrow> ('s, exn, pyval) act) callback
   \<Rightarrow> (exn \<Rightarrow> ('s, exn, pyval) act) callback option \<Rightarrow> (policy_event \<Rightarrow> ('s, exn, unit) act) callback option
   \<Rightarrow> (pyfloat \<Rightarrow> ('s, exn, unit) act) callback \<Rightarrow> exn + 's retry" where
  "retry_init name max_attempts backoff retry_if observer sleeper =
     ebind (validate_name name ''name'') (\<lambda>nm.
     ebind (positive_int max_attempts ''max_attempts'') (\<lambda>ma.
     ebind (validate_callable backoff ''backoff'') (\<lambda>bo.
     ebind (validate_optional_callable retry_if ''retry_if'') (\<lambda>ri.
     ebind (validate_optional_callable observer ''observer'') (\<lambda>ob.
     ebind (validate_callable sleeper ''sleeper'') (\<lambda>sl.
     Inr \<lparr>rt_name = nm, rt_max_attempts = ma, rt_backoff = bo, rt_retry_if = ri,
          rt_observer = ob, rt_sleeper = sl\<rparr>))))))"

text \<open>\<open>isinstance(error, (CircuitOpenError, BulkheadRejectedError, PolicyTimeoutError))\<close>\<close>

fun is_policy_rejection :: "exn \<Rightarrow> bool" where
  "is_policy_rejection (CircuitOpenError _ _) = True"
| "is_policy_rejection (BulkheadRejectedError _) = True"
| "is_policy_rejection (PolicyTimeoutError _ _) = True"
| "is_policy_rejection _ = False"

definition retry_is_retryable :: "'s retry \<Rightarrow> exn \<Rightarrow> ('s, exn, bool) act" where
  "retry_is_retryable self error =
     (case rt_retry_if self of
        None \<Rightarrow> return (\<not> is_policy_rejection error)
      | Some retry_if \<Rightarrow>
          act_bind (retry_if error) (\<lambda>result.
          case result of PyBool b \<Rightarrow> return b | _ \<Rightarrow> raise (TypeError ''retry_if must return bool'')))"

text \<open>The part of the loop body between the attempt check and \<open>attempt += 1\<close>.\<close>

definition retry_schedule :: "'s retry \<Rightarrow> exn \<Rightarrow> int \<Rightarrow> ('s, exn, unit) act" where
  "retry_schedule self error n =
     act_bind (rt_backoff self n) (\<lambda>raw.
     act_bind (lift (finite_non_negative raw ''backoff result'')) (\<lambda>d.
     act_then
       (emit (rt_observer self)
          (retry_event (rt_name self) RETRY_SCHEDULED None (failure_category error) n (Some d)))
       (rt_sleeper self d)))"

definition retry_give_up :: "'s retry \<Rightarrow> failure_category_t \<Rightarrow> int \<Rightarrow> exn \<Rightarrow> ('s, exn, 'r) act" where
  "retry_give_up self category n error =
     act_then
       (emit (rt_observer self) (retry_event (rt_name self) FAILED (Some FAILURE) category n None))
       (raise error)"

definition retry_succeed :: "'s retry \<Rightarrow> int \<Rightarrow> 'r \<Rightarrow> ('s, exn, 'r) act" where
  "retry_succeed self n result =
     act_then
       (emit (rt_observer self) (retry_event (rt_name self) SUCCEEDED (Some SUCCESS) CAT_NONE n None))
       (return result)"

text \<open>One pass through the body of the \<open>while True\<close> loop; the result \<open>None\<close> stands for \<open>continue\<close>.\<close>

definition retry_attempt ::
  "'s retry \<Rightarrow> ('s, exn, ('s, 'r) retval) act \<Rightarrow> int \<Rightarrow> ('s, exn, 'r option) act" where
  "retry_attempt self operation n =
     try_else operation
       (\<lambda>error.
          if error = SyncResultContractError \<or> \<not> is_exception error then raise error
          else
            act_bind (retry_is_retryable self error) (\<lambda>retryable.
            if \<not> retryable then retry_give_up self (failure_category error) n error
            else if n \<ge> rt_max_attempts self
            then retry_give_up self CAT_RETRY_EXHAUSTED n (RetryExhaustedError (rt_name self) n error)
            else act_then (retry_schedule self error n) (return None)))
       (\<lambda>result.
          act_bind (ensure_sync_result result) (\<lambda>r.
          act_bind (retry_succeed self n r) (\<lambda>x. return (Some x))))"

lemma retry_attempt_continues:
  "retry_attempt self operation n s = Some (Inr None, s') \<Longrightarrow> n < rt_max_attempts self"
  by (auto simp: retry_attempt_def act_defs retry_give_up_def retry_succeed_def
      split: option.splits prod.splits sum.splits if_splits)

function retry_loop ::
  "'s retry \<Rightarrow> ('s, exn, ('s, 'r) retval) act \<Rightarrow> int \<Rightarrow> ('s, exn, 'r) act" where
  "retry_loop self operation n s =
     (case retry_attempt self operation n s of
        None \<Rightarrow> None
      | Some (Inl e, s') \<Rightarrow> Some (Inl e, s')
      | Some (Inr (Some r), s') \<Rightarrow> Some (Inr r, s')
      | Some (Inr None, s') \<Rightarrow> retry_loop self operation (n + 1) s')"
  by pat_completeness auto
termination
  by (relation "measure (\<lambda>(self, operation, n, s). nat (rt_max_attempts self - n))")
    (auto dest: retry_attempt_continues)

declare retry_loop.simps [simp del]

definition retry_call :: "'s retry \<Rightarrow> ('s, 'r) sync_op \<Rightarrow> ('s, exn, 'r) act" where
  "retry_call self operation =
     act_then (lift (validate_operation operation))
     (act_then (lift (ensure_sync_operation operation))
     (retry_loop self (op_run operation) 1))"

definition retry_decorate :: "'s retry \<Rightarrow> ('s, 'r) sync_op \<Rightarrow> exn + ('s, 'r) sync_op" where
  "retry_decorate self operation =
     ebind (validate_operation operation) (\<lambda>_.
     ebind (ensure_sync_operation operation) (\<lambda>_. Inr (wrapped_sync (retry_call self operation))))"

section \<open>The asynchronous policy\<close>

text \<open>
  \<open>AsyncRetry\<close> repeats the code of \<open>Retry\<close> with an awaited operation and an awaited sleeper, and
  without the contract error for awaitable results. Its configuration is the same record.
\<close>

definition async_retry_init ::
  "pyval \<Rightarrow> pyval \<Rightarrow> (int \<Rightarrow> ('s, exn, pyval) act) callback
   \<Rightarrow> (exn \<Rightarrow> ('s, exn, pyval) act) callback option \<Rightarrow> (policy_event \<Rightarrow> ('s, exn, unit) act) callback option
   \<Rightarrow> (pyfloat \<Rightarrow> ('s, exn, unit) act) callback \<Rightarrow> exn + 's retry" where
  "async_retry_init name max_attempts backoff retry_if observer sleeper =
     ebind (validate_name name ''name'') (\<lambda>nm.
     ebind (positive_int max_attempts ''max_attempts'') (\<lambda>ma.
     ebind (validate_callable backoff ''backoff'') (\<lambda>bo.
     ebind (validate_optional_callable retry_if ''retry_if'') (\<lambda>ri.
     ebind (validate_optional_callable observer ''observer'') (\<lambda>ob.
     ebind (validate_callable sleeper ''sleeper'') (\<lambda>sl.
     Inr \<lparr>rt_name = nm, rt_max_attempts = ma, rt_backoff = bo, rt_retry_if = ri,
          rt_observer = ob, rt_sleeper = sl\<rparr>))))))"

definition async_retry_is_retryable :: "'s retry \<Rightarrow> exn \<Rightarrow> ('s, exn, bool) act" where
  "async_retry_is_retryable self error =
     (case rt_retry_if self of
        None \<Rightarrow> return (\<not> is_policy_rejection error)
      | Some retry_if \<Rightarrow>
          act_bind (retry_if error) (\<lambda>result.
          case result of PyBool b \<Rightarrow> return b | _ \<Rightarrow> raise (TypeError ''retry_if must return bool'')))"

definition async_retry_attempt ::
  "'s retry \<Rightarrow> ('s, exn, 'r) act \<Rightarrow> int \<Rightarrow> ('s, exn, 'r option) act" where
  "async_retry_attempt self operation n =
     try_else operation
       (\<lambda>error.
          if error = CancelledError \<or> \<not> is_exception error then raise error
          else
            act_bind (async_retry_is_retryable self error) (\<lambda>retryable.
            if \<not> retryable then retry_give_up self (failure_category error) n error
            else if n \<ge> rt_max_attempts self
            then retry_give_up self CAT_RETRY_EXHAUSTED n (RetryExhaustedError (rt_name self) n error)
            else act_then (retry_schedule self error n) (return None)))
       (\<lambda>result. act_bind (retry_succeed self n result) (\<lambda>x. return (Some x)))"

lemma async_retry_attempt_continues:
  "async_retry_attempt self operation n s = Some (Inr None, s') \<Longrightarrow> n < rt_max_attempts self"
  by (auto simp: async_retry_attempt_def act_defs retry_give_up_def retry_succeed_def
      split: option.splits prod.splits sum.splits if_splits)

function async_retry_loop ::
  "'s retry \<Rightarrow> ('s, exn, 'r) act \<Rightarrow> int \<Rightarrow> ('s, exn, 'r) act" where
  "async_retry_loop self operation n s =
     (case async_retry_attempt self operation n s of
        None \<Rightarrow> None
      | Some (Inl e, s') \<Rightarrow> Some (Inl e, s')
      | Some (Inr (Some r), s') \<Rightarrow> Some (Inr r, s')
      | Some (Inr None, s') \<Rightarrow> async_retry_loop self operation (n + 1) s')"
  by pat_completeness auto
termination
  by (relation "measure (\<lambda>(self, operation, n, s). nat (rt_max_attempts self - n))")
    (auto dest: async_retry_attempt_continues)

declare async_retry_loop.simps [simp del]

definition async_retry_call :: "'s retry \<Rightarrow> ('s, 'r) operation \<Rightarrow> ('s, exn, 'r) act" where
  "async_retry_call self operation =
     act_then (lift (validate_operation operation))
     (act_then (lift (ensure_async_operation operation))
     (async_retry_loop self (op_run operation) 1))"

definition async_retry_decorate :: "'s retry \<Rightarrow> ('s, 'r) operation \<Rightarrow> exn + ('s, 'r) operation" where
  "async_retry_decorate self operation =
     ebind (validate_operation operation) (\<lambda>_.
     ebind (ensure_async_operation operation) (\<lambda>_. Inr (wrapped_async (async_retry_call self operation))))"

section \<open>The caller's code keeps a property\<close>

text \<open>\<open>retry_env b I self\<close>: no callback of the policy breaks \<open>I\<close> (and each ends, if \<open>b\<close>).\<close>

definition retry_env :: "bool \<Rightarrow> ('s \<Rightarrow> bool) \<Rightarrow> 's retry \<Rightarrow> bool" where
  "retry_env b I self \<longleftrightarrow>
     (\<forall>n. keeps b I (rt_backoff self n)) \<and> (\<forall>f e. rt_retry_if self = Some f \<longrightarrow> keeps b I (f e))
     \<and> (\<forall>f ev. rt_observer self = Some f \<longrightarrow> keeps b I (f ev)) \<and> (\<forall>d. keeps b I (rt_sleeper self d))"

lemma retry_envD:
  assumes "retry_env b I self"
  shows "keeps b I (rt_backoff self n)" "rt_retry_if self = Some f \<Longrightarrow> keeps b I (f e)"
    "keeps b I (emit (rt_observer self) ev)" "keeps b I (rt_sleeper self d)"
  using assms by (auto simp: retry_env_def intro!: keeps_emit)

lemma keeps_retry_is_retryable [hoare_rules]:
  "retry_env b I self \<Longrightarrow> keeps b I (retry_is_retryable self e)"
  by (auto simp: retry_is_retryable_def retry_envD split: option.split pyval.split intro!: hoare_rules)

lemma keeps_retry_schedule [hoare_rules]: "retry_env b I self \<Longrightarrow> keeps b I (retry_schedule self e n)"
  by (auto simp: retry_schedule_def retry_envD intro!: hoare_rules)

lemma keeps_retry_give_up [hoare_rules]: "retry_env b I self \<Longrightarrow> keeps b I (retry_give_up self c n e)"
  by (auto simp: retry_give_up_def retry_envD intro!: hoare_rules)

lemma keeps_retry_succeed [hoare_rules]: "retry_env b I self \<Longrightarrow> keeps b I (retry_succeed self n r)"
  by (auto simp: retry_succeed_def retry_envD intro!: hoare_rules)

lemma async_retry_is_retryable_eq: "async_retry_is_retryable = retry_is_retryable"
  by (intro ext) (simp add: async_retry_is_retryable_def retry_is_retryable_def)

section \<open>The contract of an attempt loop\<close>

text \<open>
  Both loops are the iteration of an attempt that may ask to continue, and does so only below the
  limit. \<open>loop_rule\<close>: if \<open>J k\<close> before attempt \<open>k\<close> gives \<open>K k\<close> after it, then on every way out \<open>K k\<close>
  holds for the attempt \<open>k\<close> the loop ended with, and \<open>k\<close> is within the limit. \<open>loop_prefix\<close>: the
  attempts that continue can be run through.
\<close>

locale attempt_loop =
  fixes attempt :: "int \<Rightarrow> ('s, 'e, 'r option) act"
    and loop :: "int \<Rightarrow> ('s, 'e, 'r) act"
    and max_attempts :: int
  assumes loop_unfold: "loop n s =
     (case attempt n s of
        None \<Rightarrow> None
      | Some (Inl e, s') \<Rightarrow> Some (Inl e, s')
      | Some (Inr (Some r), s') \<Rightarrow> Some (Inr r, s')
      | Some (Inr None, s') \<Rightarrow> loop (n + 1) s')"
    and continues: "attempt n s = Some (Inr None, s') \<Longrightarrow> n < max_attempts"
begin

lemma loop_rule:
  assumes body: "\<And>k. hoare b (J k) (attempt k) (\<lambda>_. K k) (\<lambda>_. K k)"
    and step: "\<And>k s. K k s \<Longrightarrow> J (k + 1) s"
  shows "hoare b (J n) (loop n) (\<lambda>_ s. \<exists>k. n \<le> k \<and> k \<le> max n max_attempts \<and> K k s)
           (\<lambda>_ s. \<exists>k. n \<le> k \<and> k \<le> max n max_attempts \<and> K k s)"
    (is "hoare b _ _ (\<lambda>_. ?Q n) (\<lambda>_. ?Q n)")
proof (induction "nat (max_attempts - n)" arbitrary: n rule: less_induct)
  case less
  have loop: "loop n = act_bind (attempt n) (\<lambda>x. case x of Some r \<Rightarrow> return r | None \<Rightarrow> loop (n + 1))"
    by (rule ext) (subst loop_unfold, auto simp: act_simps split: option.split sum.split)
  have "hoare b (J n) (attempt n) (\<lambda>x s. (x = None \<longrightarrow> n < max_attempts) \<and> K n s) (\<lambda>_. ?Q n)"
    using body [of n] by (intro hoareI) (auto dest: hoare_noneD hoare_raiseD hoare_returnD continues)
  moreover have "hoare b (\<lambda>s. (x = None \<longrightarrow> n < max_attempts) \<and> K n s)
      (case x of Some r \<Rightarrow> return r | None \<Rightarrow> loop (n + 1)) (\<lambda>_. ?Q n) (\<lambda>_. ?Q n)" for x
  proof (intro hoare_conj_pre, cases x)
    case None
    assume "x = None \<longrightarrow> n < max_attempts"
    then have lt: "n < max_attempts" using None by simp
    have up: "?Q (n + 1) s \<Longrightarrow> ?Q n s" for s
      using lt by (elim exE) (rule_tac x = k in exI, auto)
    show "hoare b (K n) (case x of Some r \<Rightarrow> return r | None \<Rightarrow> loop (n + 1)) (\<lambda>_. ?Q n) (\<lambda>_. ?Q n)"
      unfolding None option.case
      by (rule hoare_weaken [OF less.hyps]) (use lt step up in auto)
  next
    case (Some r)
    show "hoare b (K n) (case x of Some r \<Rightarrow> return r | None \<Rightarrow> loop (n + 1)) (\<lambda>_. ?Q n) (\<lambda>_. ?Q n)"
      unfolding Some option.case by (rule hoare_pre [OF hoare_return]) auto
  qed
  ultimately show ?case unfolding loop by (rule hoare_bind)
qed

lemma loop_prefix:
  assumes "n \<le> k" and "\<And>i. n \<le> i \<Longrightarrow> i < k \<Longrightarrow> attempt i (st i) = Some (Inr None, st (i + 1))"
  shows "loop n (st n) = loop k (st k)"
  using assms
proof (induction "nat (k - n)" arbitrary: n)
  case 0
  then show ?case by simp
next
  case (Suc d)
  then have "loop n (st n) = loop (n + 1) (st (n + 1))"
    by (subst loop_unfold) simp
  moreover have "loop (n + 1) (st (n + 1)) = loop k (st k)"
    using Suc by simp
  ultimately show ?case by simp
qed

end

interpretation rt: attempt_loop "retry_attempt self m" "retry_loop self m" "rt_max_attempts self"
  for self :: "'s retry" and m :: "('s, exn, ('s, 'r) retval) act"
  by unfold_locales (rule retry_loop.simps, erule retry_attempt_continues)

interpretation art: attempt_loop "async_retry_attempt self m" "async_retry_loop self m"
    "rt_max_attempts self"
  for self :: "'s retry" and m :: "('s, exn, 'r) act"
  by unfold_locales (rule async_retry_loop.simps, erule async_retry_attempt_continues)

section \<open>One attempt\<close>

lemma hoare_retry_attempt:
  assumes env: "retry_env b K self"
    and op: "hoare b J m (\<lambda>r s. (\<forall>c. r = Awaitable (Some c) \<longrightarrow> keeps b K c) \<and> K s) (\<lambda>_. K)"
  shows "hoare b J (retry_attempt self m n) (\<lambda>_. K) (\<lambda>_. K)"
  unfolding retry_attempt_def
proof (rule hoare_try_else [OF op])
  show "hoare b K (if error = SyncResultContractError \<or> \<not> is_exception error then raise error
          else
            act_bind (retry_is_retryable self error) (\<lambda>retryable.
            if \<not> retryable then retry_give_up self (failure_category error) n error
            else if n \<ge> rt_max_attempts self
            then retry_give_up self CAT_RETRY_EXHAUSTED n (RetryExhaustedError (rt_name self) n error)
            else act_then (retry_schedule self error n) (return None))) (\<lambda>_. K) (\<lambda>_. K)" for error
    by (rule keeps_hoare) (use env in \<open>intro hoare_rules\<close>)
  show "hoare b (\<lambda>s. (\<forall>c. r = Awaitable (Some c) \<longrightarrow> keeps b K c) \<and> K s)
          (act_bind (ensure_sync_result r) (\<lambda>r.
           act_bind (retry_succeed self n r) (\<lambda>x. return (Some x)))) (\<lambda>_. K) (\<lambda>_. K)" for r
    using env by (intro hoare_conj_pre keeps_hoare hoare_rules keeps_ensure_sync_result) auto
qed

lemma hoare_async_retry_attempt:
  assumes env: "retry_env b K self" and op: "hoare b J m (\<lambda>_. K) (\<lambda>_. K)"
  shows "hoare b J (async_retry_attempt self m n) (\<lambda>_. K) (\<lambda>_. K)"
  unfolding async_retry_attempt_def async_retry_is_retryable_eq
  by (rule hoare_try_else [OF op]; rule keeps_hoare; (intro hoare_rules; use env in simp))

text \<open>A call keeps whatever its callbacks and its operation keep.\<close>

lemma keeps_retry_loop:
  assumes "retry_env b I self" and "safe_sync_op b I m"
  shows "keeps b I (retry_loop self m n)"
  unfolding keeps_def
  by (rule hoare_weaken [OF rt.loop_rule [where J = "\<lambda>_. I" and K = "\<lambda>_. I"]])
    (auto intro: hoare_retry_attempt assms hoare_safe_sync_op)

lemma keeps_retry_call:
  assumes "retry_env b I self" and "safe_sync_op b I (op_run operation)"
  shows "keeps b I (retry_call self operation)"
  unfolding retry_call_def by (intro hoare_rules keeps_retry_loop assms)

lemma keeps_async_retry_call:
  assumes "retry_env b I self" and "keeps b I (op_run operation)"
  shows "keeps b I (async_retry_call self operation)"
proof -
  have "keeps b I (async_retry_loop self (op_run operation) n)" for n
    unfolding keeps_def
    by (rule hoare_weaken [OF art.loop_rule [where J = "\<lambda>_. I" and K = "\<lambda>_. I"]])
      (auto intro: hoare_async_retry_attempt assms keeps_hoare)
  then show ?thesis unfolding async_retry_call_def by (intro hoare_rules)
qed

section \<open>Counting the runs of the operation\<close>

text \<open>\<open>cnt\<close> is any counter of the state that the operation increments and no callback changes.\<close>

lemma retry_loop_counts:
  assumes env: "\<And>c. retry_env b (\<lambda>s. cnt s = (c :: int)) self"
    and op: "\<And>c. hoare b (\<lambda>s. cnt s = c) m
      (\<lambda>r s. (\<forall>f. r = Awaitable (Some f) \<longrightarrow> keeps b (\<lambda>s. cnt s = c + 1) f) \<and> cnt s = c + 1) (\<lambda>_ s. cnt s = c + 1)"
  shows "hoare b (\<lambda>s. cnt s = c) (retry_loop self m 1)
    (\<lambda>_ s. \<exists>k. 1 \<le> k \<and> k \<le> max 1 (rt_max_attempts self) \<and> cnt s = c + k)
    (\<lambda>_ s. \<exists>k. 1 \<le> k \<and> k \<le> max 1 (rt_max_attempts self) \<and> cnt s = c + k)"
proof (rule hoare_pre [OF rt.loop_rule [where J = "\<lambda>k s. cnt s = c + k - 1" and K = "\<lambda>k s. cnt s = c + k"]])
  show "hoare b (\<lambda>s. cnt s = c + k - 1) (retry_attempt self m k) (\<lambda>_ s. cnt s = c + k) (\<lambda>_ s. cnt s = c + k)" for k
    using hoare_retry_attempt [OF env op, of "c + k - 1"] by simp
qed auto

section \<open>Scripted runs\<close>

text \<open>
  A reference environment for exact statements: attempt \<open>i\<close> of the operation has outcome \<open>f i\<close>,
  the observer appends to a log, the backoff gives \<open>d i\<close>, sleeping has no effect. The state is the
  number of the next attempt and the log.
\<close>

definition scripted :: "(int \<Rightarrow> exn + 'a) \<Rightarrow> (int \<times> policy_event list, exn, 'a) act" where
  "scripted f = (\<lambda>(i, evs). Some (f i, (i + 1, evs)))"

definition scripted_op :: "(int \<Rightarrow> exn + 'a) \<Rightarrow> (int \<times> policy_event list, 'a) operation" where
  "scripted_op f = \<lparr>op_callable = True, op_kinds = [PlainFunction, PlainFunction], op_run = scripted f\<rparr>"

definition log_observer :: "policy_event \<Rightarrow> (int \<times> policy_event list, exn, unit) act" where
  "log_observer ev = (\<lambda>(i, evs). Some (Inr (), (i, evs @ [ev])))"

definition scripted_retry :: "pystr \<Rightarrow> int \<Rightarrow> (int \<Rightarrow> rat) \<Rightarrow> (int \<times> policy_event list) retry" where
  "scripted_retry name n d =
     \<lparr>rt_name = name, rt_max_attempts = n,
      rt_backoff = (\<lambda>i. return (PyFloat (Finite (d i)))), rt_retry_if = None,
      rt_observer = Some log_observer, rt_sleeper = (\<lambda>_. return ())\<rparr>"

definition retryable :: "exn \<Rightarrow> bool" where
  "retryable e \<longleftrightarrow> is_exception e \<and> e \<noteq> SyncResultContractError \<and> \<not> is_policy_rejection e"

definition scheduled_event :: "pystr \<Rightarrow> (int \<Rightarrow> rat) \<Rightarrow> (int \<Rightarrow> exn) \<Rightarrow> int \<Rightarrow> policy_event" where
  "scheduled_event name d e i =
     retry_event name RETRY_SCHEDULED None (failure_category (e i)) i (Some (Finite (d i)))"

lemma retry_call_scripted: "retry_call self (scripted_op f) = retry_loop self (scripted f) 1"
  by (rule ext) (simp add: retry_call_def scripted_op_def validate_operation_def
      ensure_sync_operation_def act_simps)

lemma scripted_attempt_continues:
  assumes "f i = Inl (e i)" "retryable (e i)" "i < n" "0 \<le> d i"
  shows "retry_attempt (scripted_retry name n d) (scripted f) i (i, evs) =
    Some (Inr None, (i + 1, evs @ [scheduled_event name d e i]))"
  using assms
  by (simp add: retry_attempt_def scripted_retry_def scripted_def log_observer_def retryable_def
      retry_is_retryable_def retry_schedule_def scheduled_event_def act_simps)

lemma scripted_prefix:
  assumes "1 \<le> k" "k \<le> n" and "\<And>i. 1 \<le> i \<Longrightarrow> i < k \<Longrightarrow> f i = Inl (e i) \<and> retryable (e i) \<and> 0 \<le> d i"
  shows "retry_loop (scripted_retry name n d) (scripted f) 1 (1, []) =
    retry_loop (scripted_retry name n d) (scripted f) k
      (k, map (scheduled_event name d e) [1..k - 1])"
proof -
  let ?st = "\<lambda>i. (i, map (scheduled_event name d e) [1..i - 1])"
  have "retry_loop (scripted_retry name n d) (scripted f) 1 (?st 1) =
      retry_loop (scripted_retry name n d) (scripted f) k (?st k)"
  proof (rule rt.loop_prefix [where st = ?st])
    fix i
    assume i: "1 \<le> i" "i < k"
    have up: "[1..i] = [1..i - 1] @ [i]"
      using upto_rec2 [of 1 i] i by simp
    show "retry_attempt (scripted_retry name n d) (scripted f) i (?st i) = Some (Inr None, ?st (i + 1))"
      using scripted_attempt_continues [of f i e n d name] assms(2,3) i by (simp add: up)
  qed (use assms in simp)
  then show ?thesis by simp
qed

section \<open>Properties\<close>

text \<open>C21: a call on an accepted operation ends, provided the operation and the callbacks do, and it
  runs the operation at least once and at most \<open>max_attempts\<close> times, whatever the outcomes, the
  errors raised by the callbacks and the way the call ends. (\<open>cnt\<close> counts the runs: the operation
  increments it, the callbacks leave it alone.)\<close>

theorem retry_call_attempt_bound:
  assumes "retry_init name ma bo ri ob sl = Inr self"
    and "validate_operation operation = Inr ()" and "ensure_sync_operation operation = Inr ()"
    and "\<And>c. retry_env True (\<lambda>s. cnt s = (c :: int)) self"
    and "\<And>c. hoare True (\<lambda>s. cnt s = c) (op_run operation)
      (\<lambda>r s. (\<forall>f. r = Awaitable (Some f) \<longrightarrow> keeps True (\<lambda>s. cnt s = c + 1) f) \<and> cnt s = c + 1)
      (\<lambda>_ s. cnt s = c + 1)"
  shows "\<exists>res s' k. retry_call self operation s = Some (res, s')
    \<and> 1 \<le> k \<and> k \<le> rt_max_attempts self \<and> cnt s' = cnt s + k"
proof -
  have "1 \<le> rt_max_attempts self"
    using assms(1) by (auto simp: retry_init_def dest: positive_int_result)
  moreover have call: "retry_call self operation s = retry_loop self (op_run operation) 1 s"
    using assms(2,3) by (simp add: retry_call_def act_simps)
  note loop = retry_loop_counts [where cnt = cnt and b = True and self = self and c = "cnt s",
      OF assms(4) assms(5)]
  obtain res s' where res: "retry_loop self (op_run operation) 1 s = Some (res, s')"
    using hoare_endsD [OF loop, of s] by auto
  moreover from this have "\<exists>k. 1 \<le> k \<and> k \<le> max 1 (rt_max_attempts self) \<and> cnt s' = cnt s + k"
    using hoare_raiseD [OF loop, of s] hoare_returnD [OF loop, of s] by (cases res) auto
  ultimately show ?thesis unfolding call by (auto simp: max_absorb2)
qed

theorem retry_call_attempt_bound_witness:
  "\<exists>res s' k. retry_call
       \<lparr>rt_name = [112], rt_max_attempts = 3, rt_backoff = (\<lambda>_. return (PyInt 0)),
        rt_retry_if = None, rt_observer = None, rt_sleeper = (\<lambda>_. return ())\<rparr>
       \<lparr>op_callable = True, op_kinds = [PlainFunction],
        op_run = (\<lambda>s :: int. Some (Inl (UserException 1) :: exn + (int, unit) retval, s + 1))\<rparr> 7
       = Some (res, s')
     \<and> 1 \<le> k \<and> k \<le> 3 \<and> s' = 7 + k"
proof -
  let ?self = "\<lparr>rt_name = [112], rt_max_attempts = 3, rt_backoff = (\<lambda>_. return (PyInt 0)),
      rt_retry_if = None, rt_observer = None, rt_sleeper = (\<lambda>_. return ())\<rparr> :: int retry"
  let ?op = "\<lparr>op_callable = True, op_kinds = [PlainFunction],
      op_run = (\<lambda>s :: int. Some (Inl (UserException 1) :: exn + (int, unit) retval, s + 1))\<rparr>"
  have "\<exists>res s' k. retry_call ?self ?op 7 = Some (res, s')
    \<and> 1 \<le> k \<and> k \<le> rt_max_attempts ?self \<and> id s' = id 7 + k"
  proof (rule retry_call_attempt_bound)
    show "retry_init (PyStr [112]) (PyInt 3) (Callable (\<lambda>_. return (PyInt 0))) None None
        (Callable (\<lambda>_. return ())) = Inr ?self"
      by (simp add: retry_init_def validate_name_def strip_def is_space_def validate_callable_def
          validate_optional_callable_def)
  qed (auto simp: validate_operation_def ensure_sync_operation_def retry_env_def
      intro: hoare_rules hoareI)
  then show ?thesis by simp
qed

text \<open>if the first \<open>k - 1\<close> attempts fail with retryable errors and attempt \<open>k\<close>, within the
  limit, returns a value, the call returns that value after exactly \<open>k\<close> runs, and the observer has
  seen one scheduled event per failed attempt, with its delay, and then the success.\<close>

theorem retry_recovers:
  assumes "1 \<le> k" "k \<le> n" "f k = Inr (Plain r)"
    and "\<And>i. 1 \<le> i \<Longrightarrow> i < k \<Longrightarrow> f i = Inl (e i) \<and> retryable (e i) \<and> 0 \<le> d i"
  shows "retry_call (scripted_retry name n d) (scripted_op f) (1, []) =
    Some (Inr r, (k + 1, map (scheduled_event name d e) [1..k - 1]
       @ [retry_event name SUCCEEDED (Some SUCCESS) CAT_NONE k None]))"
proof -
  have "retry_loop (scripted_retry name n d) (scripted f) k (k, evs) =
      Some (Inr r, (k + 1, evs @ [retry_event name SUCCEEDED (Some SUCCESS) CAT_NONE k None]))" for evs
    using assms(3)
    by (subst retry_loop.simps)
      (simp add: retry_attempt_def retry_succeed_def scripted_retry_def scripted_def log_observer_def
        act_simps)
  then show ?thesis by (simp add: retry_call_scripted scripted_prefix [OF assms(1,2,4)])
qed

theorem retry_recovers_witness:
  "retry_call (scripted_retry [112] 3 (\<lambda>_. 0))
     (scripted_op (\<lambda>i. if i < 3 then Inl (UserException 9) else Inr (Plain True))) (1, []) =
   Some (Inr True, (4, map (scheduled_event [112] (\<lambda>_. 0) (\<lambda>_. UserException 9)) [1..2]
      @ [retry_event [112] SUCCEEDED (Some SUCCESS) CAT_NONE 3 None]))"
  using retry_recovers [of 3 3 "\<lambda>i. if i < 3 then Inl (UserException 9) else Inr (Plain True)" True
      "\<lambda>_. UserException 9" "\<lambda>_. 0" "[112]"]
  by (simp add: retryable_def)

text \<open>if every attempt up to the limit fails with a retryable error, the call raises
  \<open>RetryExhaustedError\<close> with the policy's name, the number of attempts and the last error as its
  cause, after exactly \<open>max_attempts\<close> runs; the observer has seen one scheduled event per attempt
  but the last and then the exhaustion.\<close>

theorem retry_exhausts:
  assumes "1 \<le> n" and "\<And>i. 1 \<le> i \<Longrightarrow> i \<le> n \<Longrightarrow> f i = Inl (e i) \<and> retryable (e i) \<and> 0 \<le> d i"
  shows "retry_call (scripted_retry name n d) (scripted_op f) (1, []) =
    Some (Inl (RetryExhaustedError name n (e n)),
     (n + 1, map (scheduled_event name d e) [1..n - 1]
       @ [retry_event name FAILED (Some FAILURE) CAT_RETRY_EXHAUSTED n None]))"
proof -
  have "retry_loop (scripted_retry name n d) (scripted f) n (n, evs) =
      Some (Inl (RetryExhaustedError name n (e n)),
       (n + 1, evs @ [retry_event name FAILED (Some FAILURE) CAT_RETRY_EXHAUSTED n None]))" for evs
    using assms(1) assms(2) [of n]
    by (subst retry_loop.simps)
      (simp add: retry_attempt_def retry_give_up_def retry_is_retryable_def retryable_def
        scripted_retry_def scripted_def log_observer_def act_simps)
  then show ?thesis
    using assms unfolding retry_call_scripted by (subst scripted_prefix [of n]) auto
qed

theorem retry_exhausts_witness:
  "retry_call (scripted_retry [112] 2 (\<lambda>_. 0))
     (scripted_op (\<lambda>_. Inl (UserException 9) :: exn + (int \<times> policy_event list, bool) retval)) (1, []) =
   Some (Inl (RetryExhaustedError [112] 2 (UserException 9)),
    (3, map (scheduled_event [112] (\<lambda>_. 0) (\<lambda>_. UserException 9)) [1..1]
      @ [retry_event [112] FAILED (Some FAILURE) CAT_RETRY_EXHAUSTED 2 None]))"
  using retry_exhausts [of 2 "\<lambda>_. Inl (UserException 9)" "\<lambda>_. UserException 9" "\<lambda>_. 0" "[112]"]
  by (simp add: retryable_def)

end
