(* ===== verification/Circuit.thy ===== *)
theory Circuit
  imports Resilience_Core
begin

text \<open>
  \<open>bluetape.resilience._circuit\<close>: the lock-protected data of a circuit breaker (\<open>_CircuitData\<close>)
  and the synchronous \<open>CircuitBreaker\<close>.

  \<open>circuit_data\<close> and its operations are pure functions on a record. A breaker lives in the state
  \<open>'s\<close> of the whole program, where \<open>cb_get\<close> and \<open>cb_put\<close> reach its data; \<open>cb_locked\<close> is a
  \<open>with self._lock\<close> block. The operation, the observer, the failure predicate and the clock are
  the caller's code and may do anything to the program state between two lock blocks: run other
  calls of the same breaker, in this thread or in others.

  \<open>circ_inv M d\<close> relates the data to the multiset \<open>M\<close> of outstanding admissions, the calls that were
  admitted and have not reported back. It is an invariant of every interleaving
  (\<open>circuit_step\<close>), and \<open>circuit_call_no_leak\<close> shows that a call gives its admission back on
  every path.
\<close>

record circuit_data =
  cd_failure_threshold :: int
  cd_open_duration :: pyfloat
  cd_half_open_max_calls :: int
  cd_recovery_success_threshold :: int
  cd_state :: circuit_state
  cd_consecutive_failures :: int
  cd_recovery_successes :: int
  cd_half_open_in_flight :: int
  cd_open_until :: pyfloat
  cd_generation :: int

record admission =
  adm_generation :: int
  adm_state :: circuit_state
  adm_owns_half_open_slot :: bool

record transition =
  tr_previous :: circuit_state
  tr_current :: circuit_state

definition circuit_data_init :: "int \<Rightarrow> pyfloat \<Rightarrow> int \<Rightarrow> int \<Rightarrow> circuit_data" where
  "circuit_data_init failure_threshold open_duration half_open_max_calls recovery_success_threshold =
     \<lparr>cd_failure_threshold = failure_threshold, cd_open_duration = open_duration,
      cd_half_open_max_calls = half_open_max_calls,
      cd_recovery_success_threshold = recovery_success_threshold,
      cd_state = CLOSED, cd_consecutive_failures = 0, cd_recovery_successes = 0,
      cd_half_open_in_flight = 0, cd_open_until = Finite 0, cd_generation = 0\<rparr>"

definition circuit_data_snapshot :: "pystr \<Rightarrow> circuit_data \<Rightarrow> circuit_snapshot" where
  "circuit_data_snapshot name d =
     \<lparr>cs_name = name, cs_state = cd_state d, cs_consecutive_failures = cd_consecutive_failures d,
      cs_recovery_successes = cd_recovery_successes d,
      cs_half_open_in_flight = cd_half_open_in_flight d\<rparr>"

definition circuit_transition ::
  "circuit_state \<Rightarrow> pyfloat \<Rightarrow> circuit_data \<Rightarrow> transition \<times> circuit_data" where
  "circuit_transition state now d =
     (\<lparr>tr_previous = cd_state d, tr_current = state\<rparr>,
      d\<lparr>cd_state := state, cd_generation := cd_generation d + 1, cd_consecutive_failures := 0,
        cd_recovery_successes := 0, cd_half_open_in_flight := 0,
        cd_open_until := if state = OPEN then float_add now (cd_open_duration d) else cd_open_until d\<rparr>)"

definition circuit_admit ::
  "pyfloat \<Rightarrow> circuit_data \<Rightarrow> (admission option \<times> transition option) \<times> circuit_data" where
  "circuit_admit now d =
     (if cd_state d = OPEN \<and> float_lt now (cd_open_until d) then ((None, None), d)
      else
        let (transition, d1) =
              (if cd_state d = OPEN
               then let (t, d') = circuit_transition HALF_OPEN now d in (Some t, d')
               else (None, d));
            owns_slot = (cd_state d1 = HALF_OPEN)
        in if owns_slot \<and> cd_half_open_in_flight d1 \<ge> cd_half_open_max_calls d1
           then ((None, transition), d1)
           else
             let d2 = (if owns_slot
                       then d1\<lparr>cd_half_open_in_flight := cd_half_open_in_flight d1 + 1\<rparr> else d1)
             in ((Some \<lparr>adm_generation = cd_generation d2, adm_state = cd_state d2,
                        adm_owns_half_open_slot = owns_slot\<rparr>, transition), d2))"

definition circuit_ignore :: "admission \<Rightarrow> circuit_data \<Rightarrow> circuit_data" where
  "circuit_ignore admission d =
     (if adm_generation admission = cd_generation d \<and> adm_owns_half_open_slot admission
         \<and> cd_state d = HALF_OPEN
      then d\<lparr>cd_half_open_in_flight := cd_half_open_in_flight d - 1\<rparr> else d)"

definition circuit_succeed ::
  "admission \<Rightarrow> pyfloat \<Rightarrow> circuit_data \<Rightarrow> transition option \<times> circuit_data" where
  "circuit_succeed admission now d =
     (if adm_generation admission \<noteq> cd_generation d then (None, d)
      else if adm_owns_half_open_slot admission \<and> cd_state d = HALF_OPEN
      then
        let d1 = d\<lparr>cd_half_open_in_flight := cd_half_open_in_flight d - 1,
                   cd_recovery_successes := cd_recovery_successes d + 1\<rparr>
        in if cd_recovery_successes d1 \<ge> cd_recovery_success_threshold d1
           then let (t, d2) = circuit_transition CLOSED now d1 in (Some t, d2)
           else (None, d1)
      else if cd_state d = CLOSED then (None, d\<lparr>cd_consecutive_failures := 0\<rparr>)
      else (None, d))"

definition circuit_fail ::
  "admission \<Rightarrow> pyfloat \<Rightarrow> circuit_data \<Rightarrow> transition option \<times> circuit_data" where
  "circuit_fail admission now d =
     (if adm_generation admission \<noteq> cd_generation d then (None, d)
      else if adm_owns_half_open_slot admission \<and> cd_state d = HALF_OPEN
      then
        let (t, d2) = circuit_transition OPEN now
                        (d\<lparr>cd_half_open_in_flight := cd_half_open_in_flight d - 1\<rparr>)
        in (Some t, d2)
      else if cd_state d = CLOSED
      then
        let d1 = d\<lparr>cd_consecutive_failures := cd_consecutive_failures d + 1\<rparr>
        in if cd_consecutive_failures d1 \<ge> cd_failure_threshold d1
           then let (t, d2) = circuit_transition OPEN now d1 in (Some t, d2)
           else (None, d1)
      else (None, d))"

definition circuit_event ::
  "pystr \<Rightarrow> event_kind \<Rightarrow> policy_outcome option \<Rightarrow> failure_category_t \<Rightarrow> circuit_snapshot
   \<Rightarrow> transition option \<Rightarrow> policy_event" where
  "circuit_event name k out category snapshot transition =
     \<lparr>ev_policy_name = name, ev_policy_type = CIRCUIT_BREAKER, ev_kind = k, ev_outcome = out,
      ev_failure_category = category, ev_attempt = None, ev_delay = None, ev_timeout = None,
      ev_state = Some (cs_state snapshot),
      ev_previous_state = map_option tr_previous transition,
      ev_in_flight = Some (cs_half_open_in_flight snapshot), ev_waiters = None\<rparr>"

section \<open>The synchronous breaker\<close>

record 's circuit_breaker =
  cb_name :: pystr
  cb_get :: "'s \<Rightarrow> circuit_data"
  cb_put :: "circuit_data \<Rightarrow> 's \<Rightarrow> 's"
  cb_failure_if :: "(exn \<Rightarrow> ('s, exn, pyval) act) option"
  cb_observer :: "'s observer"
  cb_clock :: "('s, exn, pyval) act"

text \<open>The constructor: the validated configuration and the initial data. Where the data is kept in
  the program state is given by the accessors.\<close>

definition circuit_breaker_init ::
  "('s \<Rightarrow> circuit_data) \<Rightarrow> (circuit_data \<Rightarrow> 's \<Rightarrow> 's)
   \<Rightarrow> pyval \<Rightarrow> pyval \<Rightarrow> pyval \<Rightarrow> pyval \<Rightarrow> pyval
   \<Rightarrow> (exn \<Rightarrow> ('s, exn, pyval) act) callback option \<Rightarrow> (policy_event \<Rightarrow> ('s, exn, unit) act) callback option
   \<Rightarrow> ('s, exn, pyval) act callback \<Rightarrow> exn + 's circuit_breaker \<times> circuit_data" where
  "circuit_breaker_init get_data put_data name failure_threshold open_duration half_open_max_calls
     recovery_success_threshold failure_if observer clock =
     ebind (validate_name name ''name'') (\<lambda>nm.
     ebind (positive_int failure_threshold ''failure_threshold'') (\<lambda>ft.
     ebind (finite_positive open_duration ''open_duration'') (\<lambda>od.
     ebind (positive_int half_open_max_calls ''half_open_max_calls'') (\<lambda>hm.
     ebind (positive_int recovery_success_threshold ''recovery_success_threshold'') (\<lambda>rs.
     ebind (validate_optional_callable failure_if ''failure_if'') (\<lambda>fi.
     ebind (validate_optional_callable observer ''observer'') (\<lambda>ob.
     ebind (validate_callable clock ''clock'') (\<lambda>cl.
     Inr (\<lparr>cb_name = nm, cb_get = get_data, cb_put = put_data, cb_failure_if = fi,
           cb_observer = ob, cb_clock = cl\<rparr>, circuit_data_init ft od hm rs)))))))))"

definition cb_locked :: "'s circuit_breaker \<Rightarrow> (circuit_data \<Rightarrow> 'a \<times> circuit_data) \<Rightarrow> ('s, exn, 'a) act" where
  "cb_locked self f = (\<lambda>s. case f (cb_get self s) of (x, d) \<Rightarrow> Some (Inr x, cb_put self d s))"

definition circuit_snapshot_call :: "'s circuit_breaker \<Rightarrow> ('s, exn, circuit_snapshot) act" where
  "circuit_snapshot_call self = cb_locked self (\<lambda>d. (circuit_data_snapshot (cb_name self) d, d))"

definition circuit_release :: "'s circuit_breaker \<Rightarrow> admission \<Rightarrow> ('s, exn, circuit_snapshot) act" where
  "circuit_release self admission =
     cb_locked self (\<lambda>d. let d' = circuit_ignore admission d in (circuit_data_snapshot (cb_name self) d', d'))"

definition circuit_classify :: "'s circuit_breaker \<Rightarrow> exn \<Rightarrow> ('s, exn, bool) act" where
  "circuit_classify self error =
     (case cb_failure_if self of
        None \<Rightarrow> return True
      | Some failure_if \<Rightarrow>
          act_bind (failure_if error) (\<lambda>result.
          case result of PyBool b \<Rightarrow> return b | _ \<Rightarrow> raise (TypeError ''failure_if must return bool'')))"

definition circuit_now :: "'s circuit_breaker \<Rightarrow> ('s, exn, pyfloat) act" where
  "circuit_now self =
     act_bind (cb_clock self) (\<lambda>v. lift (finite_non_negative v ''clock result''))"

definition circuit_emit_transition ::
  "'s circuit_breaker \<Rightarrow> circuit_snapshot \<Rightarrow> transition option \<Rightarrow> ('s, exn, unit) act" where
  "circuit_emit_transition self snapshot changed =
     (case changed of
        None \<Rightarrow> return ()
      | Some t \<Rightarrow>
          emit (cb_observer self)
            (circuit_event (cb_name self) CIRCUIT_TRANSITIONED None CAT_NONE snapshot (Some t)))"

text \<open>The first \<open>try\<close> of \<open>call\<close>: announce the admission, or the rejection that it raises. Any
  exception of the observer gives an admission back.\<close>

definition circuit_announcement ::
  "'s circuit_breaker \<Rightarrow> admission option \<Rightarrow> transition option \<Rightarrow> circuit_snapshot
   \<Rightarrow> ('s, exn, unit) act" where
  "circuit_announcement self admission transition snapshot =
     act_then (circuit_emit_transition self snapshot transition)
       (case admission of
          None \<Rightarrow>
            act_then
              (emit (cb_observer self)
                 (circuit_event (cb_name self) REJECTED (Some REJECTION) CAT_CIRCUIT_OPEN snapshot None))
              (raise (CircuitOpenError (cb_name self) (cs_state snapshot)))
        | Some _ \<Rightarrow>
            emit (cb_observer self)
              (circuit_event (cb_name self) ADMITTED None CAT_NONE snapshot None))"

definition circuit_announce ::
  "'s circuit_breaker \<Rightarrow> admission option \<Rightarrow> transition option \<Rightarrow> circuit_snapshot
   \<Rightarrow> ('s, exn, unit) act" where
  "circuit_announce self admission transition snapshot =
     try_except (circuit_announcement self admission transition snapshot)
       (\<lambda>e. case admission of
              None \<Rightarrow> raise e
            | Some a \<Rightarrow> act_then (circuit_release self a) (raise e))"

text \<open>Code that gives the admission back and re-raises if it fails.\<close>

definition circuit_guard ::
  "'s circuit_breaker \<Rightarrow> admission \<Rightarrow> ('s, exn, 'a) act \<Rightarrow> ('s, exn, 'a) act" where
  "circuit_guard self admission m =
     try_except m (\<lambda>e. act_then (circuit_release self admission) (raise e))"

text \<open>The \<open>except Exception as error\<close> branch.\<close>

definition circuit_on_error ::
  "'s circuit_breaker \<Rightarrow> admission \<Rightarrow> exn \<Rightarrow> ('s, exn, 'r) act" where
  "circuit_on_error self admission error =
     act_bind (circuit_guard self admission (circuit_classify self error)) (\<lambda>classified.
     act_bind (circuit_guard self admission (circuit_now self)) (\<lambda>now.
     act_bind
       (cb_locked self (\<lambda>d.
          let (changed, d') = (if classified then circuit_fail admission now d
                               else (None, circuit_ignore admission d))
          in ((changed, circuit_data_snapshot (cb_name self) d'), d'))) (\<lambda>(changed, snapshot).
     act_then (circuit_emit_transition self snapshot changed)
     (act_then
       (emit (cb_observer self)
          (circuit_event (cb_name self) FAILED (Some FAILURE) (failure_category error) snapshot None))
       (raise error)))))"

text \<open>After the operation returned.\<close>

definition circuit_on_success ::
  "'s circuit_breaker \<Rightarrow> admission \<Rightarrow> 'r \<Rightarrow> ('s, exn, 'r) act" where
  "circuit_on_success self admission result =
     act_bind (circuit_guard self admission (circuit_now self)) (\<lambda>now.
     act_bind
       (cb_locked self (\<lambda>d.
          let (changed, d') = circuit_succeed admission now d
          in ((changed, circuit_data_snapshot (cb_name self) d'), d'))) (\<lambda>(changed, snapshot).
     act_then (circuit_emit_transition self snapshot changed)
     (act_then
       (emit (cb_observer self)
          (circuit_event (cb_name self) SUCCEEDED (Some SUCCESS) CAT_NONE snapshot None))
       (return result))))"

definition circuit_execute ::
  "'s circuit_breaker \<Rightarrow> admission \<Rightarrow> ('s, exn, ('s, 'r) retval) act \<Rightarrow> ('s, exn, 'r) act" where
  "circuit_execute self admission operation =
     try_else (act_bind operation ensure_sync_result)
       (\<lambda>error.
          if error = SyncResultContractError \<or> \<not> is_exception error
          then act_then (circuit_release self admission) (raise error)
          else circuit_on_error self admission error)
       (circuit_on_success self admission)"

text \<open>\<open>call\<close>. When the admission is \<open>None\<close> the announcement has raised, so the last \<open>None\<close> branch
  is never run.\<close>

definition circuit_call :: "'s circuit_breaker \<Rightarrow> ('s, 'r) sync_op \<Rightarrow> ('s, exn, 'r) act" where
  "circuit_call self operation =
     act_then (lift (validate_operation operation))
     (act_then (lift (ensure_sync_operation operation))
     (act_bind (circuit_now self) (\<lambda>now.
      act_bind
        (cb_locked self (\<lambda>d.
           let ((admission, transition), d') = circuit_admit now d
           in ((admission, transition, circuit_data_snapshot (cb_name self) d'), d')))
        (\<lambda>(admission, transition, snapshot).
      act_then (circuit_announce self admission transition snapshot)
        (case admission of
           None \<Rightarrow> raise (CircuitOpenError (cb_name self) (cs_state snapshot))
         | Some a \<Rightarrow> circuit_execute self a (op_run operation))))))"

definition circuit_decorate :: "'s circuit_breaker \<Rightarrow> ('s, 'r) sync_op \<Rightarrow> exn + ('s, 'r) sync_op" where
  "circuit_decorate self operation =
     ebind (validate_operation operation) (\<lambda>_.
     ebind (ensure_sync_operation operation) (\<lambda>_. Inr (wrapped_sync (circuit_call self operation))))"

section \<open>The invariant of the data and the outstanding admissions\<close>

definition live :: "admission multiset \<Rightarrow> circuit_data \<Rightarrow> admission multiset" where
  "live M d = filter_mset (\<lambda>a. adm_generation a = cd_generation d) M"

definition circ_params :: "circuit_data \<Rightarrow> bool" where
  "circ_params d \<longleftrightarrow> 1 \<le> cd_failure_threshold d \<and> 1 \<le> cd_half_open_max_calls d
     \<and> 1 \<le> cd_recovery_success_threshold d"

definition circ_counters :: "circuit_data \<Rightarrow> bool" where
  "circ_counters d \<longleftrightarrow>
     0 \<le> cd_consecutive_failures d \<and> cd_consecutive_failures d < cd_failure_threshold d
     \<and> (cd_state d \<noteq> CLOSED \<longrightarrow> cd_consecutive_failures d = 0)
     \<and> 0 \<le> cd_recovery_successes d \<and> cd_recovery_successes d < cd_recovery_success_threshold d
     \<and> (cd_state d \<noteq> HALF_OPEN \<longrightarrow> cd_recovery_successes d = 0)"

text \<open>The slots in use are exactly the outstanding admissions of the current generation, and they
  never exceed the limit. An open breaker has no outstanding admission of its generation.\<close>

definition circ_slots :: "admission multiset \<Rightarrow> circuit_data \<Rightarrow> bool" where
  "circ_slots M d \<longleftrightarrow>
     (\<forall>a\<in>#M. adm_generation a \<le> cd_generation d)
     \<and> (\<forall>a\<in>#live M d. adm_owns_half_open_slot a \<longleftrightarrow> cd_state d = HALF_OPEN)
     \<and> (cd_state d = OPEN \<longrightarrow> live M d = {#})
     \<and> cd_half_open_in_flight d = (if cd_state d = HALF_OPEN then int (size (live M d)) else 0)
     \<and> cd_half_open_in_flight d \<le> cd_half_open_max_calls d"

definition circ_inv :: "admission multiset \<Rightarrow> circuit_data \<Rightarrow> bool" where
  "circ_inv M d \<longleftrightarrow> circ_params d \<and> circ_counters d \<and> circ_slots M d"

lemmas circ_defs = circ_inv_def circ_params_def circ_counters_def circ_slots_def

lemma live_add [simp]:
  "live (add_mset a M) d = (if adm_generation a = cd_generation d then add_mset a (live M d) else live M d)"
  by (simp add: live_def)

lemma live_update [simp]:
  "live M (d\<lparr>cd_half_open_in_flight := n\<rparr>) = live M d" "live M (d\<lparr>cd_recovery_successes := n\<rparr>) = live M d"
  "live M (d\<lparr>cd_consecutive_failures := n\<rparr>) = live M d"
  by (simp_all add: live_def)

lemma live_empty [simp]: "live {#} d = {#}"
  by (simp add: live_def)

lemma transition_inv:
  assumes "circ_params d" and "\<forall>a\<in>#M. adm_generation a \<le> cd_generation d"
  shows "circ_inv M (snd (circuit_transition state now d))"
proof -
  have "live M (snd (circuit_transition state now d)) = {#}"
    using assms(2) by (force simp: live_def circuit_transition_def filter_mset_eq_mempty_iff)
  then show ?thesis using assms by (auto simp: circ_defs circuit_transition_def)
qed

lemma circ_inv_init:
  "1 \<le> f \<Longrightarrow> 1 \<le> h \<Longrightarrow> 1 \<le> r \<Longrightarrow> circ_inv {#} (circuit_data_init f od h r)"
  by (simp add: circuit_data_init_def circ_defs)

lemma circ_inv_drop_stale:
  assumes "circ_inv (add_mset a M) d" and "adm_generation a \<noteq> cd_generation d"
  shows "circ_inv M d"
  using assms by (simp add: circ_defs)

text \<open>Taking and giving back a slot of the current generation.\<close>

lemma circ_inv_take:
  assumes "circ_inv M d" "adm_generation a = cd_generation d" "cd_state d \<noteq> OPEN"
    "adm_owns_half_open_slot a \<longleftrightarrow> cd_state d = HALF_OPEN"
    "cd_state d = HALF_OPEN \<Longrightarrow> cd_half_open_in_flight d < cd_half_open_max_calls d"
  shows "circ_inv (add_mset a M)
    (if cd_state d = HALF_OPEN then d\<lparr>cd_half_open_in_flight := cd_half_open_in_flight d + 1\<rparr> else d)"
  using assms by (auto simp: circ_defs)

lemma circ_inv_give:
  assumes "circ_inv (add_mset a M) d" "adm_generation a = cd_generation d"
  shows "circ_inv M
    (if cd_state d = HALF_OPEN then d\<lparr>cd_half_open_in_flight := cd_half_open_in_flight d - 1\<rparr> else d)"
  using assms by (auto simp: circ_defs split: if_splits)

lemma circ_inv_owner:
  "circ_inv (add_mset a M) d \<Longrightarrow> adm_generation a = cd_generation d \<Longrightarrow>
   adm_owns_half_open_slot a \<longleftrightarrow> cd_state d = HALF_OPEN"
  by (simp add: circ_defs)

text \<open>The data that \<open>admit\<close> counts on: an open breaker has moved to half-open.\<close>

definition probed :: "pyfloat \<Rightarrow> circuit_data \<Rightarrow> circuit_data" where
  "probed now d = (if cd_state d = OPEN then snd (circuit_transition HALF_OPEN now d) else d)"

definition admission_of :: "circuit_data \<Rightarrow> admission" where
  "admission_of d = \<lparr>adm_generation = cd_generation d, adm_state = cd_state d,
                     adm_owns_half_open_slot = (cd_state d = HALF_OPEN)\<rparr>"

lemma admission_of_sel [simp]:
  "adm_generation (admission_of d) = cd_generation d"
  "adm_owns_half_open_slot (admission_of d) = (cd_state d = HALF_OPEN)"
  by (simp_all add: admission_of_def)

lemma admit_eq:
  assumes "\<not> (cd_state d = OPEN \<and> float_lt now (cd_open_until d))"
  obtains tr where "circuit_admit now d =
    (let d1 = probed now d in
     if cd_state d1 = HALF_OPEN \<and> cd_half_open_in_flight d1 \<ge> cd_half_open_max_calls d1
     then ((None, tr), d1)
     else ((Some (admission_of d1), tr),
           if cd_state d1 = HALF_OPEN
           then d1\<lparr>cd_half_open_in_flight := cd_half_open_in_flight d1 + 1\<rparr> else d1))"
proof (cases "cd_state d = OPEN")
  case True
  then show ?thesis
    using assms
    by (intro that [of "Some (fst (circuit_transition HALF_OPEN now d))"])
      (simp add: circuit_admit_def probed_def admission_of_def Let_def split_beta circuit_transition_def)
next
  case False
  then show ?thesis
    by (intro that [of None]) (simp add: circuit_admit_def probed_def admission_of_def Let_def)
qed

lemma probed_inv:
  assumes "circ_inv M d"
  shows "circ_inv M (probed now d)" and "cd_state (probed now d) \<noteq> OPEN"
proof -
  have "circ_inv M (snd (circuit_transition HALF_OPEN now d))"
    using assms by (intro transition_inv) (auto simp: circ_defs)
  then show "circ_inv M (probed now d)" using assms by (simp add: probed_def)
  show "cd_state (probed now d) \<noteq> OPEN" by (simp add: probed_def circuit_transition_def)
qed

lemma admit_inv:
  assumes inv: "circ_inv M d" and adm: "circuit_admit now d = ((adm, tr), d')"
  shows "circ_inv (case adm of None \<Rightarrow> M | Some a \<Rightarrow> add_mset a M) d'"
proof (cases "cd_state d = OPEN \<and> float_lt now (cd_open_until d)")
  case True
  then show ?thesis using inv adm by (auto simp: circuit_admit_def)
next
  case False
  then obtain tr' where eq: "circuit_admit now d =
    (let d1 = probed now d in
     if cd_state d1 = HALF_OPEN \<and> cd_half_open_in_flight d1 \<ge> cd_half_open_max_calls d1
     then ((None, tr'), d1)
     else ((Some (admission_of d1), tr'),
           if cd_state d1 = HALF_OPEN
           then d1\<lparr>cd_half_open_in_flight := cd_half_open_in_flight d1 + 1\<rparr> else d1))"
    by (rule admit_eq)
  show ?thesis
    using adm probed_inv [OF inv, of now] circ_inv_take [of M "probed now d" "admission_of (probed now d)"]
    unfolding eq by (auto simp: Let_def split: if_splits)
qed

lemma ignore_inv:
  assumes "circ_inv (add_mset a M) d"
  shows "circ_inv M (circuit_ignore a d)"
proof (cases "adm_generation a = cd_generation d")
  case False
  then show ?thesis using circ_inv_drop_stale [OF assms] by (simp add: circuit_ignore_def)
next
  case True
  then show ?thesis
    using circ_inv_give [OF assms True] circ_inv_owner [OF assms True]
    by (simp add: circuit_ignore_def split: if_splits)
qed

lemma succeed_inv:
  assumes inv: "circ_inv (add_mset a M) d" and succ: "circuit_succeed a now d = (tr, d')"
  shows "circ_inv M d'"
proof (cases "adm_generation a = cd_generation d")
  case False
  then show ?thesis using inv succ by (auto simp: circuit_succeed_def intro: circ_inv_drop_stale)
next
  case True
  note give = circ_inv_give [OF inv True] and owner = circ_inv_owner [OF inv True]
  show ?thesis
  proof (cases "cd_state d = HALF_OPEN")
    case half: True
    let ?d1 = "d\<lparr>cd_half_open_in_flight := cd_half_open_in_flight d - 1,
      cd_recovery_successes := cd_recovery_successes d + 1\<rparr>"
    have "circ_inv M (snd (circuit_transition CLOSED now ?d1))"
      using inv by (intro transition_inv) (auto simp: circ_defs)
    moreover have "circ_inv M ?d1"
      if "cd_recovery_successes d + 1 < cd_recovery_success_threshold d"
      using give half that by (auto simp: circ_defs)
    ultimately show ?thesis
      using succ True owner half by (auto simp: circuit_succeed_def Let_def split: if_splits prod.splits)
  next
    case False
    then have "circ_inv M d" using give by simp
    then show ?thesis
      using succ True owner False by (auto simp: circuit_succeed_def circ_defs split: if_splits)
  qed
qed

lemma fail_inv:
  assumes inv: "circ_inv (add_mset a M) d" and fl: "circuit_fail a now d = (tr, d')"
  shows "circ_inv M d'"
proof (cases "adm_generation a = cd_generation d")
  case False
  then show ?thesis using inv fl by (auto simp: circuit_fail_def intro: circ_inv_drop_stale)
next
  case True
  note give = circ_inv_give [OF inv True] and owner = circ_inv_owner [OF inv True]
  have half: "circ_inv M (snd (circuit_transition OPEN now (d\<lparr>cd_half_open_in_flight := n\<rparr>)))" for n
    using inv by (intro transition_inv) (auto simp: circ_defs)
  have opened: "circ_inv M (snd (circuit_transition OPEN now (d\<lparr>cd_consecutive_failures := n\<rparr>)))" for n
    using inv by (intro transition_inv) (auto simp: circ_defs)
  show ?thesis
  proof (cases "cd_state d = CLOSED")
    case False
    then show ?thesis
      using fl True owner give half [of "cd_half_open_in_flight d - 1"]
      by (auto simp: circuit_fail_def split: if_splits prod.splits)
  next
    case closed: True
    have "circ_inv M (d\<lparr>cd_consecutive_failures := cd_consecutive_failures d + 1\<rparr>)"
      if "cd_consecutive_failures d + 1 < cd_failure_threshold d"
      using give closed that by (auto simp: circ_defs)
    then show ?thesis
      using fl True owner closed opened [of "cd_consecutive_failures d + 1"]
      by (auto simp: circuit_fail_def Let_def split: if_splits prod.splits)
  qed
qed

section \<open>Interleavings\<close>

text \<open>One lock block of some call: an admission, a rejection, or the report of an outstanding
  admission.\<close>

inductive circuit_step ::
  "admission multiset \<times> circuit_data \<Rightarrow> admission multiset \<times> circuit_data \<Rightarrow> bool" where
  admit: "circuit_admit now d = ((Some a, tr), d') \<Longrightarrow> circuit_step (M, d) (add_mset a M, d')"
| reject: "circuit_admit now d = ((None, tr), d') \<Longrightarrow> circuit_step (M, d) (M, d')"
| ignore: "circuit_step (add_mset a M, d) (M, circuit_ignore a d)"
| succeed: "circuit_succeed a now d = (tr, d') \<Longrightarrow> circuit_step (add_mset a M, d) (M, d')"
| fail: "circuit_fail a now d = (tr, d') \<Longrightarrow> circuit_step (add_mset a M, d) (M, d')"

lemma circuit_step_inv:
  assumes "circuit_step x y" "circ_inv (fst x) (snd x)"
  shows "circ_inv (fst y) (snd y)"
  using assms
  by (cases rule: circuit_step.cases) (auto dest: admit_inv ignore_inv succeed_inv fail_inv)

interpretation circ: transition_invariant circuit_step "\<lambda>x. circ_inv (fst x) (snd x)"
  by unfold_locales (rule circuit_step_inv)

lemma circuit_step_generation: "circuit_step x y \<Longrightarrow> cd_generation (snd x) \<le> cd_generation (snd y)"
  by (cases rule: circuit_step.cases, assumption)
    (auto simp: circuit_admit_def circuit_ignore_def circuit_succeed_def circuit_fail_def
      circuit_transition_def Let_def split: if_splits prod.splits)

lemma circuit_run_generation: "circuit_step\<^sup>*\<^sup>* x y \<Longrightarrow> cd_generation (snd x) \<le> cd_generation (snd y)"
  by (induction rule: rtranclp_induct) (auto dest: circuit_step_generation)

lemma circuit_step_params:
  "circuit_step x y \<Longrightarrow> cd_half_open_max_calls (snd y) = cd_half_open_max_calls (snd x)
     \<and> cd_failure_threshold (snd y) = cd_failure_threshold (snd x)"
  by (cases rule: circuit_step.cases, assumption)
    (auto simp: circuit_admit_def circuit_ignore_def circuit_succeed_def circuit_fail_def
      circuit_transition_def Let_def split: if_splits prod.splits)

lemma circuit_run_params:
  "circuit_step\<^sup>*\<^sup>* x y \<Longrightarrow> cd_half_open_max_calls (snd y) = cd_half_open_max_calls (snd x)
     \<and> cd_failure_threshold (snd y) = cd_failure_threshold (snd x)"
  by (induction rule: rtranclp_induct) (auto dest: circuit_step_params)

section \<open>Calls\<close>

text \<open>\<open>breaker_holds self oth M s\<close>: in the program state \<open>s\<close> the breaker's data satisfies the invariant
  for the outstanding admissions \<open>M\<close> of the thread under consideration and those that other threads
  hold there, the ghost \<open>oth s\<close>. \<open>breaker_env\<close>: the caller's code keeps it for every \<open>M\<close>, while
  other threads take and report admissions of their own.\<close>

definition breaker_holds ::
  "'s circuit_breaker \<Rightarrow> ('s \<Rightarrow> admission multiset) \<Rightarrow> admission multiset \<Rightarrow> 's \<Rightarrow> bool" where
  "breaker_holds self oth M s \<longleftrightarrow> circ_inv (M + oth s) (cb_get self s)"

definition breaker_env :: "bool \<Rightarrow> 's circuit_breaker \<Rightarrow> ('s \<Rightarrow> admission multiset) \<Rightarrow> bool" where
  "breaker_env b self oth \<longleftrightarrow>
     (\<forall>d s. cb_get self (cb_put self d s) = d \<and> oth (cb_put self d s) = oth s)
     \<and> (\<forall>M. keeps b (breaker_holds self oth M) (cb_clock self))
     \<and> (\<forall>M f e. cb_failure_if self = Some f \<longrightarrow> keeps b (breaker_holds self oth M) (f e))
     \<and> (\<forall>M f ev. cb_observer self = Some f \<longrightarrow> keeps b (breaker_holds self oth M) (f ev))"

lemma breaker_envD:
  assumes "breaker_env b self oth"
  shows "cb_get self (cb_put self d s) = d" "oth (cb_put self d s) = oth s" "keeps b (breaker_holds self oth M) (circuit_now self)"
    "keeps b (breaker_holds self oth M) (emit (cb_observer self) ev)"
    "keeps b (breaker_holds self oth M) (circuit_classify self e)"
    "keeps b (breaker_holds self oth M) (circuit_emit_transition self sn tr)"
  using assms
  by (auto simp: breaker_env_def circuit_now_def circuit_classify_def circuit_emit_transition_def
      split: option.split pyval.split intro!: hoare_rules keeps_emit)

lemma hoare_cb_locked:
  assumes "breaker_env b self oth" and "\<And>X d x d'. circ_inv (M + X) d \<Longrightarrow> f d = (x, d') \<Longrightarrow> circ_inv (N x + X) d'"
  shows "hoare b (breaker_holds self oth M) (cb_locked self f) (\<lambda>x. breaker_holds self oth (N x)) E"
  using assms
  by (auto simp: cb_locked_def breaker_holds_def breaker_envD intro!: hoareI split: prod.splits)

lemma hoare_circuit_release:
  assumes "breaker_env b self oth"
  shows "hoare b (breaker_holds self oth (add_mset a M)) (circuit_release self a)
           (\<lambda>_. breaker_holds self oth M) E"
  unfolding circuit_release_def
  by (rule hoare_cb_locked [OF assms, where N = "\<lambda>_. M"]) (auto simp: Let_def dest: ignore_inv)

lemma hoare_release_raise:
  assumes "breaker_env b self oth"
  shows "hoare b (breaker_holds self oth (add_mset a M)) (act_then (circuit_release self a) (raise e))
           Q (\<lambda>_. breaker_holds self oth M)"
  by (rule hoare_then [OF hoare_circuit_release [OF assms] hoare_raise])

lemma hoare_circuit_guard:
  assumes "breaker_env b self oth" and "keeps b (breaker_holds self oth (add_mset a M)) m"
  shows "hoare b (breaker_holds self oth (add_mset a M)) (circuit_guard self a m)
           (\<lambda>_. breaker_holds self oth (add_mset a M)) (\<lambda>_. breaker_holds self oth M)"
  unfolding circuit_guard_def
  by (rule hoare_try_except [OF keeps_hoare [OF assms(2)] hoare_release_raise [OF assms(1)]])

lemma hoare_report:
  assumes env: "breaker_env b self oth"
    and f: "\<And>X d x d'. circ_inv (add_mset a (M + X)) d \<Longrightarrow> f d = (x, d') \<Longrightarrow> circ_inv (M + X) d'"
    and k: "\<And>x. keeps b (breaker_holds self oth M) (k x)"
  shows "hoare b (breaker_holds self oth (add_mset a M)) (act_bind (cb_locked self f) k)
           (\<lambda>_. breaker_holds self oth M) (\<lambda>_. breaker_holds self oth M)"
  by (rule hoare_bind [OF hoare_cb_locked [where N = "\<lambda>_. M", OF env] keeps_hoare [OF k]]) (simp add: f)

lemma hoare_circuit_on_error:
  assumes env: "breaker_env b self oth"
  shows "hoare b (breaker_holds self oth (add_mset a M)) (circuit_on_error self a e)
           (\<lambda>_. breaker_holds self oth M) (\<lambda>_. breaker_holds self oth M)"
  unfolding circuit_on_error_def
proof (intro hoare_bind [OF hoare_circuit_guard] breaker_envD env hoare_report)
  fix classified now X d x d'
  assume "circ_inv (add_mset a (M + X)) d"
    and "(let (changed, d') = if classified then circuit_fail a now d else (None, circuit_ignore a d)
          in ((changed, circuit_data_snapshot (cb_name self) d'), d')) = (x, d')"
  then show "circ_inv (M + X) d'"
    by (auto split: if_splits prod.splits dest: fail_inv ignore_inv)
qed (auto split: prod.split intro!: hoare_rules breaker_envD env)

lemma hoare_circuit_on_success:
  assumes env: "breaker_env b self oth"
  shows "hoare b (breaker_holds self oth (add_mset a M)) (circuit_on_success self a r)
           (\<lambda>_. breaker_holds self oth M) (\<lambda>_. breaker_holds self oth M)"
  unfolding circuit_on_success_def
proof (intro hoare_bind [OF hoare_circuit_guard] breaker_envD env hoare_report)
  fix now X d x d'
  assume "circ_inv (add_mset a (M + X)) d"
    and "(let (changed, d') = circuit_succeed a now d
          in ((changed, circuit_data_snapshot (cb_name self) d'), d')) = (x, d')"
  then show "circ_inv (M + X) d'" by (auto split: prod.splits dest: succeed_inv)
qed (auto split: prod.split intro!: hoare_rules breaker_envD env)

lemma hoare_circuit_execute:
  assumes env: "breaker_env b self oth" and op: "\<And>M. safe_sync_op b (breaker_holds self oth M) m"
  shows "hoare b (breaker_holds self oth (add_mset a M)) (circuit_execute self a m)
           (\<lambda>_. breaker_holds self oth M) (\<lambda>_. breaker_holds self oth M)"
  unfolding circuit_execute_def
  by (rule hoare_try_else [OF keeps_hoare [OF keeps_safe_sync_op [OF op]]])
    (auto intro: hoare_release_raise hoare_circuit_on_error hoare_circuit_on_success env)

lemma keeps_circuit_announcement:
  assumes "breaker_env b self oth"
  shows "keeps b (breaker_holds self oth M) (circuit_announcement self adm tr sn)"
  unfolding circuit_announcement_def by (intro hoare_rules breaker_envD assms)

lemma hoare_circuit_announce:
  assumes env: "breaker_env b self oth"
  shows "hoare b (breaker_holds self oth (add_mset a M)) (circuit_announce self (Some a) tr sn)
           (\<lambda>_. breaker_holds self oth (add_mset a M)) (\<lambda>_. breaker_holds self oth M)"
    and "keeps b (breaker_holds self oth M) (circuit_announce self None tr sn)"
  unfolding circuit_announce_def option.case
  by (rule hoare_try_except [OF keeps_hoare [OF keeps_circuit_announcement [OF env]]
        hoare_release_raise [OF env]])
    (intro hoare_rules keeps_circuit_announcement env)

lemma keeps_circuit_call:
  assumes env: "breaker_env b self oth" and op: "\<And>M. safe_sync_op b (breaker_holds self oth M) (op_run operation)"
  shows "keeps b (breaker_holds self oth M) (circuit_call self operation)"
proof -
  let ?admit = "\<lambda>now. cb_locked self (\<lambda>d.
           let ((admission, transition), d') = circuit_admit now d
           in ((admission, transition, circuit_data_snapshot (cb_name self) d'), d'))"
  let ?rest = "\<lambda>(admission, transition, snapshot).
      act_then (circuit_announce self admission transition snapshot)
        (case admission of
           None \<Rightarrow> raise (CircuitOpenError (cb_name self) (cs_state snapshot))
         | Some a \<Rightarrow> circuit_execute self a (op_run operation))"
  let ?N = "\<lambda>(admission, tr, sn). case admission of None \<Rightarrow> M | Some a \<Rightarrow> add_mset a M"
  have admit: "hoare b (breaker_holds self oth M) (?admit now) (\<lambda>x. breaker_holds self oth (?N x)) (\<lambda>_. breaker_holds self oth M)" for now
  proof (rule hoare_cb_locked [OF env])
    fix X d x d'
    assume inv: "circ_inv (M + X) d" and eq: "(let ((admission, transition), d') = circuit_admit now d
           in ((admission, transition, circuit_data_snapshot (cb_name self) d'), d')) = (x, d')"
    obtain adm tr d1 where a: "circuit_admit now d = ((adm, tr), d1)" by (metis prod.exhaust)
    then have "x = (adm, tr, circuit_data_snapshot (cb_name self) d1)" "d' = d1" using eq by auto
    then show "circ_inv (?N x + X) d'" using admit_inv [OF inv a] by (cases adm) simp_all
  qed
  have rest: "hoare b (breaker_holds self oth (?N x)) (?rest x)
      (\<lambda>_. breaker_holds self oth M) (\<lambda>_. breaker_holds self oth M)" for x
  proof (cases x)
    case (fields adm tr sn)
    show ?thesis
    proof (cases adm)
      case None
      have "keeps b (breaker_holds self oth M) (act_then (circuit_announce self None tr sn)
          (raise (CircuitOpenError (cb_name self) (cs_state sn)) :: ('a, exn, 'b) act))"
        by (intro keeps_then keeps_raise hoare_circuit_announce env)
      then show ?thesis by (simp add: fields None keeps_def)
    next
      case (Some a)
      show ?thesis
        unfolding fields Some prod.case option.case
        by (rule hoare_then [OF hoare_circuit_announce(1) [OF env] hoare_circuit_execute [OF env op]])
    qed
  qed
  have bound: "keeps b (breaker_holds self oth M) (act_bind (?admit now) ?rest)" for now
    unfolding keeps_def by (rule hoare_bind [OF admit rest])
  show ?thesis
    unfolding circuit_call_def
    by (intro keeps_then keeps_lift keeps_bind [OF breaker_envD(3) [OF env]] bound)
qed

section \<open>Properties\<close>

text \<open>C13: in every interleaving of the lock blocks of any number of calls of a breaker, the
  half-open slots in use are exactly the outstanding admissions of the current generation and never
  exceed \<open>half_open_max_calls\<close>; an open breaker has none outstanding, and the failure count stays
  below the threshold.\<close>

theorem circuit_reachable_inv:
  assumes "1 \<le> f" "1 \<le> h" "1 \<le> r" and "circuit_step\<^sup>*\<^sup>* ({#}, circuit_data_init f od h r) (M, d)"
  shows "cd_half_open_in_flight d = (if cd_state d = HALF_OPEN then int (size (live M d)) else 0)
    \<and> cd_half_open_in_flight d \<le> h \<and> \<not> (cd_state d = OPEN \<and> live M d \<noteq> {#})
    \<and> 0 \<le> cd_consecutive_failures d \<and> cd_consecutive_failures d < f"
proof -
  have "circ_inv M d"
    using circ.run_inv [OF assms(4)] circ_inv_init [OF assms(1-3)] by simp
  moreover have "cd_half_open_max_calls d = h" "cd_failure_threshold d = f"
    using circuit_run_params [OF assms(4)] by (simp_all add: circuit_data_init_def)
  ultimately show ?thesis by (auto simp: circ_defs)
qed

lemma step_admit_closed:
  assumes "cd_state d = CLOSED"
  shows "circuit_step (M, d) (add_mset (admission_of d) M, d)"
  using assms by (intro circuit_step.admit [where now = "Finite 0" and tr = None])
    (simp add: circuit_admit_def admission_of_def)

theorem circuit_reachable_inv_witness:
  "cd_half_open_in_flight (circuit_data_init 2 (Finite 5) 1 1) \<le> 1"
proof -
  let ?d = "circuit_data_init 2 (Finite 5) 1 1"
  have "circuit_step\<^sup>*\<^sup>* ({#}, ?d) ({#admission_of ?d#}, ?d)"
    by (intro r_into_rtranclp step_admit_closed) (simp add: circuit_data_init_def)
  from circuit_reachable_inv [OF _ _ _ this] show ?thesis by simp
qed

text \<open>generation safety. Once the breaker has moved on since a call was admitted, whatever the
  steps in between, the late report of that call (success, failure or release) changes nothing.\<close>

theorem circuit_late_report:
  assumes "1 \<le> f" "1 \<le> h" "1 \<le> r" and "circuit_step\<^sup>*\<^sup>* ({#}, circuit_data_init f od h r) (M, d)"
    and "a \<in># M" and "circuit_step\<^sup>*\<^sup>* (M, d) (M1, d1)" and "cd_generation d < cd_generation d1"
    and "circuit_step\<^sup>*\<^sup>* (M1, d1) (M2, d2)"
  shows "circuit_fail a now d2 = (None, d2) \<and> circuit_succeed a now d2 = (None, d2)
    \<and> circuit_ignore a d2 = d2"
proof -
  have "circ_inv M d"
    using circ.run_inv [OF assms(4)] circ_inv_init [OF assms(1-3)] by simp
  then have "adm_generation a \<le> cd_generation d" using assms(5) by (auto simp: circ_defs)
  also have "cd_generation d < cd_generation d1" by (rule assms(7))
  also have "cd_generation d1 \<le> cd_generation d2" using circuit_run_generation [OF assms(8)] by simp
  finally show ?thesis by (simp add: circuit_fail_def circuit_succeed_def circuit_ignore_def)
qed

theorem circuit_late_report_witness:
  "let d = circuit_data_init 1 (Finite 5) 1 1; a = admission_of d;
       d1 = snd (circuit_transition OPEN (Finite 0) d)
   in circuit_fail a (Finite 9) d1 = (None, d1)"
proof -
  define d where "d = circuit_data_init 1 (Finite 5) 1 1"
  define a where "a = admission_of d"
  define d1 where "d1 = snd (circuit_transition OPEN (Finite 0) d)"
  have s1: "circuit_step ({#}, d) ({#a#}, d)" and s2: "circuit_step ({#a#}, d) ({#a, a#}, d)"
    using step_admit_closed [of d] by (simp_all add: a_def d_def circuit_data_init_def)
  have s3: "circuit_step ({#a, a#}, d) ({#a#}, d1)"
    by (rule circuit_step.fail [where now = "Finite 0"])
      (auto simp: circuit_fail_def a_def d_def d1_def circuit_data_init_def circuit_transition_def)
  have "circuit_fail a (Finite 9) d1 = (None, d1) \<and> circuit_succeed a (Finite 9) d1 = (None, d1)
    \<and> circuit_ignore a d1 = d1"
  proof (rule circuit_late_report [of 1 1 1 "Finite 5"])
    show "circuit_step\<^sup>*\<^sup>* ({#}, circuit_data_init 1 (Finite 5) 1 1) ({#a, a#}, d)"
      using s1 s2 by (simp add: d_def [symmetric])
    show "circuit_step\<^sup>*\<^sup>* ({#a, a#}, d) ({#a#}, d1)" using s3 by simp
    show "circuit_step\<^sup>*\<^sup>* ({#a#}, d1) ({#a#}, d1)" by simp
  qed (simp_all add: d1_def circuit_transition_def)
  then show ?thesis by (simp add: Let_def d_def a_def d1_def)
qed

definition admit_all :: "pyfloat list \<Rightarrow> circuit_data \<Rightarrow> bool list \<times> circuit_data" where
  "admit_all ts d =
     fold (\<lambda>t (oks, d). let ((a, _), d') = circuit_admit t d in (oks @ [a \<noteq> None], d')) ts ([], d)"

lemma admit_all_rejected:
  assumes "cd_state d = OPEN" "list_all (\<lambda>t. float_lt t (cd_open_until d)) ts"
  shows "admit_all ts d = (replicate (length ts) False, d)"
proof -
  have "list_all (\<lambda>t. float_lt t (cd_open_until d)) ts \<Longrightarrow>
    fold (\<lambda>t (oks, d). let ((a, _), d') = circuit_admit t d in (oks @ [a \<noteq> None], d')) ts (bs, d)
      = (bs @ replicate (length ts) False, d)" for bs
    using assms(1) by (induction ts arbitrary: bs) (simp_all add: circuit_admit_def)
  then show ?thesis using assms(2) by (simp add: admit_all_def)
qed

text \<open>an open breaker rejects every call whose clock reading is before the end of the open
  period, and these calls leave its data as it is; the first reading at or after it admits a call
  into the half-open state with one slot in use.\<close>

theorem circuit_open_period:
  assumes "circ_inv M d" "cd_state d = OPEN" "list_all (\<lambda>t. float_lt t (cd_open_until d)) ts"
    "\<not> float_lt t (cd_open_until d)"
  shows "admit_all ts d = (replicate (length ts) False, d)
    \<and> (\<exists>a tr d'. circuit_admit t d = ((Some a, Some tr), d') \<and> cd_state d' = HALF_OPEN
         \<and> cd_half_open_in_flight d' = 1 \<and> adm_owns_half_open_slot a
         \<and> adm_generation a = cd_generation d + 1)"
  using assms admit_all_rejected [OF assms(2,3)]
  by (simp add: circuit_admit_def circuit_transition_def circ_defs Let_def)

theorem circuit_open_period_witness:
  "\<exists>d. cd_state d = OPEN \<and> admit_all [Finite 1, Finite 4] d = ([False, False], d)"
proof -
  let ?d = "(circuit_data_init 1 (Finite 5) 1 1)\<lparr>cd_state := OPEN, cd_open_until := Finite 5\<rparr>"
  have "circ_inv {#} ?d" by (simp add: circuit_data_init_def circ_defs)
  then show ?thesis
    using circuit_open_period [of "{#}" ?d "[Finite 1, Finite 4]" "Finite 5"]
    by (intro exI [of _ ?d]) (simp add: numeral_2_eq_2)
qed

definition failing_call :: "pyfloat \<Rightarrow> circuit_data \<Rightarrow> circuit_data" where
  "failing_call now d =
     (case circuit_admit now d of
        ((Some a, _), d') \<Rightarrow> snd (circuit_fail a now d')
      | ((None, _), d') \<Rightarrow> d')"

lemma failing_call_closed:
  assumes "cd_state d = CLOSED"
  shows "failing_call now d =
    (if cd_consecutive_failures d + 1 < cd_failure_threshold d
     then d\<lparr>cd_consecutive_failures := cd_consecutive_failures d + 1\<rparr>
     else snd (circuit_transition OPEN now d))"
  using assms
  by (simp add: failing_call_def circuit_admit_def circuit_fail_def circuit_transition_def Let_def)

lemma failing_calls_closed:
  "int n < f \<Longrightarrow> (failing_call now ^^ n) (circuit_data_init f od h r) =
     (circuit_data_init f od h r)\<lparr>cd_consecutive_failures := int n\<rparr>"
  by (induction n) (auto simp: failing_call_closed circuit_data_init_def)

text \<open>\<open>n\<close> consecutive failing calls of a fresh breaker leave it closed with \<open>n\<close> counted failures
  while \<open>n\<close> is below the threshold, and the one that reaches the threshold opens it until the clock
  reading of that failure plus the open duration.\<close>

theorem circuit_trips:
  assumes "0 \<le> n" "n \<le> f" "1 \<le> f"
  shows "(failing_call now ^^ nat n) (circuit_data_init f od h r) =
    (if n < f then (circuit_data_init f od h r)\<lparr>cd_consecutive_failures := n\<rparr>
     else (circuit_data_init f od h r)\<lparr>cd_state := OPEN, cd_generation := 1,
            cd_open_until := float_add now od\<rparr>)"
proof (cases "n < f")
  case True
  then show ?thesis using failing_calls_closed [of "nat n" f] assms by simp
next
  case False
  define m where "m = nat (f - 1)"
  have m: "nat n = Suc m" "f = int m + 1" using False assms by (auto simp: m_def)
  then have "(failing_call now ^^ nat n) (circuit_data_init f od h r) =
      failing_call now ((circuit_data_init f od h r)\<lparr>cd_consecutive_failures := int m\<rparr>)"
    using failing_calls_closed [of m f now od h r] by simp
  also have "\<dots> = (circuit_data_init f od h r)\<lparr>cd_state := OPEN, cd_generation := 1,
      cd_open_until := float_add now od\<rparr>"
    using m(2) by (subst failing_call_closed) (simp_all add: circuit_data_init_def circuit_transition_def)
  finally show ?thesis using False by simp
qed

theorem circuit_trips_witness:
  "cd_state ((failing_call (Finite 0) ^^ nat 3) (circuit_data_init 3 (Finite 5) 1 1)) = OPEN"
  using circuit_trips [of 3 3 "Finite 0" "Finite 5" 1 1] by simp

text \<open>C17: a call never leaks its slot. If the caller's code (operation, observer, failure predicate,
  clock), during which other threads may be admitted and report back, keeps the breaker's invariant
  for every multiset of own outstanding admissions and ends, then the call ends and the thread has
  the same outstanding admissions before and after, whether the call returns, is rejected, raises,
  or any of the callbacks raises.\<close>

theorem circuit_call_no_leak:
  assumes "breaker_env True self oth" and "\<And>M. safe_sync_op True (breaker_holds self oth M) (op_run operation)"
    and "circ_inv (M + oth s) (cb_get self s)"
  shows "\<exists>res s'. circuit_call self operation s = Some (res, s') \<and> circ_inv (M + oth s') (cb_get self s')"
proof -
  have k: "keeps True (breaker_holds self oth M) (circuit_call self operation)"
    by (rule keeps_circuit_call [OF assms(1,2)])
  have s: "breaker_holds self oth M s" using assms(3) by (simp add: breaker_holds_def)
  obtain res s' where "circuit_call self operation s = Some (res, s')"
    using keeps_ends [OF k s] by blast
  then show ?thesis using keepsD [OF k s] by (auto simp: breaker_holds_def)
qed

theorem circuit_call_no_leak_witness:
  "\<exists>res s'. circuit_call
     \<lparr>cb_name = [99], cb_get = id, cb_put = (\<lambda>d _. d), cb_failure_if = None, cb_observer = None,
      cb_clock = return (PyInt 0)\<rparr>
     \<lparr>op_callable = True, op_kinds = [PlainFunction],
      op_run = raise (UserException 1) :: (circuit_data, exn, (circuit_data, unit) retval) act\<rparr>
     (circuit_data_init 1 (Finite 5) 1 1) = Some (res, s') \<and> circ_inv {#} s'"
  using circuit_call_no_leak [where M = "{#}" and oth = "\<lambda>_. {#}" and s = "circuit_data_init 1 (Finite 5) 1 1"
      and self = "\<lparr>cb_name = [99], cb_get = id, cb_put = (\<lambda>d _. d), cb_failure_if = None,
        cb_observer = None, cb_clock = return (PyInt 0)\<rparr>"
      and operation = "\<lparr>op_callable = True, op_kinds = [PlainFunction],
        op_run = raise (UserException 1) :: (circuit_data, exn, (circuit_data, unit) retval) act\<rparr>"]
  by (auto simp: breaker_env_def safe_sync_op_def circ_inv_init raise_run intro: hoare_rules)

end
