(* ===== verification/Async_Base.thy ===== *)
theory Async_Base
  imports Resilience_Core
begin

text \<open>
  What the asynchronous policies of \<open>bluetape.resilience\<close> share: the binding of a policy to one
  event loop (\<open>_bind_loop\<close>), the loop that gives a resource back although the task is being
  cancelled (\<open>_release_preserving_cancellation\<close>), and the \<open>asyncio.timeout\<close> scope.

  An \<open>async with lock\<close> block may suspend the task while it enters the lock: other tasks run, and the
  task may be cancelled there. The body of every such block in the modelled code has no suspension
  point, and leaving the block has none. A lock is therefore an action that keeps what the other
  tasks keep and that raises \<open>CancelledError\<close> only.
\<close>

section \<open>Event loop binding\<close>

record 's loop_binding =
  lb_get :: "'s \<Rightarrow> nat option"
  lb_put :: "nat option \<Rightarrow> 's \<Rightarrow> 's"
  lb_running :: "'s \<Rightarrow> nat"

definition bind_loop :: "'s loop_binding \<Rightarrow> string \<Rightarrow> ('s, exn, unit) act" where
  "bind_loop lb message = (\<lambda>s.
     case lb_get lb s of
       None \<Rightarrow> Some (Inr (), lb_put lb (Some (lb_running lb s)) s)
     | Some loop \<Rightarrow>
         if loop \<noteq> lb_running lb s then Some (Inl (RuntimeError message), s) else Some (Inr (), s))"

section \<open>Giving back under cancellation\<close>

partial_function (option) preserving_cancellation ::
  "('s, exn, 'a) act \<Rightarrow> bool \<Rightarrow> 's \<Rightarrow> ((exn + 'a \<times> bool) \<times> 's) option" where
  "preserving_cancellation release cancelled s =
     try_else release
       (\<lambda>e. if e = CancelledError then preserving_cancellation release True else raise e)
       (\<lambda>snapshot. return (snapshot, cancelled)) s"

text \<open>The three ways in which the callers end after it.\<close>

definition give_back_and_raise :: "('s, exn, 'x) act \<Rightarrow> exn \<Rightarrow> ('s, exn, 'a) act" where
  "give_back_and_raise release e =
     (if e = CancelledError then act_then (preserving_cancellation release False) (raise e)
      else act_bind (preserving_cancellation release False)
             (\<lambda>(_, cancelled). if cancelled then raise CancelledError else raise e))"

section \<open>\<open>asyncio.timeout\<close>\<close>

text \<open>
  The timer of a task is part of the environment: \<open>tm_enter\<close> arms it, and \<open>tm_exit\<close> disarms it and
  reports whether it had fired (the scope is \<open>EXPIRING\<close>) and, if so, whether the task has no other
  cancellation request pending (\<open>uncancel() <= self._cancelling\<close>). The scope turns the cancellation
  that the timer caused into \<open>TimeoutError\<close>. \<open>tm_expired\<close> is \<open>context.expired()\<close> afterwards.
\<close>

record 's timer =
  tm_enter :: "pyfloat \<Rightarrow> ('s, exn, unit) act"
  tm_exit :: "('s, exn, bool \<times> bool) act"
  tm_expired :: "'s \<Rightarrow> bool"

definition timeout_scope :: "'s timer \<Rightarrow> pyfloat \<Rightarrow> ('s, exn, 'a) act \<Rightarrow> ('s, exn, 'a) act" where
  "timeout_scope tm delay body =
     act_then (tm_enter tm delay)
       (try_else body
         (\<lambda>e. act_bind (tm_exit tm) (\<lambda>(expiring, only).
            if expiring \<and> only \<and> e = CancelledError then raise TimeoutError else raise e))
         (\<lambda>x. act_then (tm_exit tm) (return x)))"

section \<open>Lemmas\<close>

definition keeps_binding :: "'s loop_binding \<Rightarrow> ('s \<Rightarrow> bool) \<Rightarrow> bool" where
  "keeps_binding lb I \<longleftrightarrow> (\<forall>l s. I s \<longrightarrow> I (lb_put lb l s))"

lemma keeps_bind_loop: "keeps_binding lb I \<Longrightarrow> keeps b I (bind_loop lb msg)"
  by (rule keepsI) (auto simp: bind_loop_def keeps_binding_def split: option.splits if_splits)

lemma bind_loop_same:
  "lb_get lb s = Some (lb_running lb s) \<Longrightarrow> bind_loop lb msg s = Some (Inr (), s)"
  by (simp add: bind_loop_def)

text \<open>Cancellations are finite: \<open>cnt\<close> decreases whenever the release is cancelled.\<close>

definition finitely_cancelled :: "('s, exn, 'a) act \<Rightarrow> ('s \<Rightarrow> nat) \<Rightarrow> bool" where
  "finitely_cancelled release cnt \<longleftrightarrow>
     (\<forall>s s'. release s = Some (Inl CancelledError, s') \<longrightarrow> cnt s' < cnt s)"

text \<open>A release that leaves \<open>P\<close> alone while it is cancelled, and establishes \<open>Q\<close> when it returns.\<close>

lemma hoare_preserving:
  assumes rel: "hoare b P (release :: ('s, exn, 'a) act) (\<lambda>_. Q) (\<lambda>e s. e = CancelledError \<and> P s)"
    and fin: "b \<Longrightarrow> finitely_cancelled release cnt"
  shows "hoare b P (preserving_cancellation release c) (\<lambda>_. Q) E"
proof (rule hoare_total)
  show "hoare False P (preserving_cancellation release c) (\<lambda>_. Q) E"
  proof (rule hoare_partialI)
    fix s y
    assume "preserving_cancellation release c s = Some y" "P s"
    then show "case fst y of Inl e \<Rightarrow> E e (snd y) | Inr x \<Rightarrow> Q (snd y)"
      using rel
    proof (induction rule: preserving_cancellation.raw_induct [rotated, consumes 1])
      case (1 f release c s y)
      have "hoare False P (f release True) (\<lambda>_. Q) E"
        using 1 by (intro hoare_partialI) blast
      then have h: "hoare False (\<lambda>s. e = CancelledError \<and> P s)
          (if e = CancelledError then f release True else raise e) (\<lambda>_. Q) E" for e
        by (intro hoare_conj_pre) simp
      have "hoare False P release (\<lambda>_. Q) (\<lambda>e s. e = CancelledError \<and> P s)"
        using 1(4) by (intro hoare_partialI) (rule hoare_partialD)
      from hoare_try_else [OF this h hoare_return] show ?case
        using 1(2,3) by (rule hoare_partialD)
    qed
  qed
next
  fix s
  assume b and "P s"
  have total: "hoare True P release (\<lambda>_. Q) (\<lambda>e s. e = CancelledError \<and> P s)"
    using rel \<open>b\<close> by simp
  from \<open>P s\<close> show "preserving_cancellation release c s \<noteq> None"
  proof (induction "cnt s" arbitrary: s c rule: less_induct)
    case less
    obtain r s' where r: "release s = Some (r, s')"
      using hoare_endsD [OF total less(2)] by blast
    have "preserving_cancellation release True s' \<noteq> None" if "r = Inl CancelledError"
      using less hoare_raiseD [OF rel less(2)] fin [OF \<open>b\<close>] r that
      unfolding finitely_cancelled_def by blast
    then show ?case
      using r by (subst preserving_cancellation.simps) (auto simp: act_simps split: sum.split)
  qed
qed

lemma hoare_give_back:
  assumes "hoare b P (release :: ('s, exn, 'x) act) (\<lambda>_. Q) (\<lambda>e s. e = CancelledError \<and> P s)"
    and "b \<Longrightarrow> finitely_cancelled release cnt"
  shows "hoare b P (give_back_and_raise release e) R (\<lambda>_. Q)"
  unfolding give_back_and_raise_def
  by (intro hoare_if hoare_then [OF hoare_preserving [OF assms]]
      hoare_bind [OF hoare_preserving [OF assms]])
    (auto split: prod.split intro: hoare_raise)

lemma keeps_timeout_scope:
  assumes "\<And>t. keeps b I (tm_enter tm t)" "keeps b I (tm_exit tm)" "keeps b I body"
  shows "keeps b I (timeout_scope tm delay body)"
  unfolding timeout_scope_def using assms by (auto intro!: hoare_rules split: prod.split)

lemma preserving_run:
  "(\<And>i. i < n \<Longrightarrow> release (\<sigma> i) = Some (Inl CancelledError, \<sigma> (Suc i))) \<Longrightarrow>
   release (\<sigma> n) = Some (Inr x, s') \<Longrightarrow>
   preserving_cancellation release c (\<sigma> 0) = Some (Inr (x, c \<or> 0 < n), s')"
proof (induction n arbitrary: c \<sigma>)
  case 0
  then show ?case by (subst preserving_cancellation.simps) (simp add: act_simps)
next
  case (Suc n)
  have "preserving_cancellation release True (\<sigma> (Suc 0)) = Some (Inr (x, True \<or> 0 < n), s')"
    using Suc.IH [of "\<lambda>i. \<sigma> (Suc i)" True] Suc.prems by simp
  then show ?case
    using Suc.prems(1) [of 0] by (subst preserving_cancellation.simps) (simp add: act_simps)
qed

text \<open>C34: a release survives cancellation. If the release is cancelled \<open>n\<close> times and then goes
  through, the loop returns its result, the release has taken effect exactly once, and the flag
  tells whether a cancellation was swallowed on the way.\<close>

theorem release_survives_cancellation:
  assumes "\<And>i. i < n \<Longrightarrow> release (\<sigma> i) = Some (Inl CancelledError, \<sigma> (Suc i))"
    and "release (\<sigma> n) = Some (Inr x, s')"
  shows "preserving_cancellation release False (\<sigma> 0) = Some (Inr (x, 0 < n), s')"
  using preserving_run [of n release \<sigma> x s' False] assms by simp

theorem release_survives_cancellation_witness:
  "preserving_cancellation
     (\<lambda>s::nat \<times> int. if fst s = 0 then Some (Inr (snd s - 1), (0, snd s - 1))
                     else Some (Inl CancelledError, (fst s - 1, snd s))) False (2, 5)
   = Some (Inr (4, True), (0, 4))"
  using release_survives_cancellation
    [of 2 "\<lambda>s::nat \<times> int. if fst s = 0 then Some (Inr (snd s - 1), (0, snd s - 1))
                     else Some (Inl CancelledError, (fst s - 1, snd s))" "\<lambda>i. (2 - i, 5)" 4 "(0, 4)"]
  by simp

end
