(* ===== verification/Async_Circuit.thy ===== *)
theory Async_Circuit
  imports Circuit Async_Base
begin

text \<open>
  \<open>bluetape.resilience._circuit\<close>: \<open>AsyncCircuitBreaker\<close>. It shares the lock-protected data with the
  synchronous breaker; what differs is that entering the lock suspends the task and may be
  cancelled, that a policy belongs to one event loop, and that an admission is given back by the
  loop that survives cancellation.
\<close>

record 's async_circuit_breaker =
  acb_base :: "'s circuit_breaker"
  acb_lock :: "('s, exn, unit) act"
  acb_binding :: "'s loop_binding"

definition async_circuit_breaker_init ::
  "('s \<Rightarrow> circuit_data) \<Rightarrow> (circuit_data \<Rightarrow> 's \<Rightarrow> 's) \<Rightarrow> ('s, exn, unit) act \<Rightarrow> 's loop_binding
   \<Rightarrow> pyval \<Rightarrow> pyval \<Rightarrow> pyval \<Rightarrow> pyval \<Rightarrow> pyval
   \<Rightarrow> (exn \<Rightarrow> ('s, exn, pyval) act) callback option \<Rightarrow> (policy_event \<Rightarrow> ('s, exn, unit) act) callback option
   \<Rightarrow> ('s, exn, pyval) act callback \<Rightarrow> exn + 's async_circuit_breaker \<times> circuit_data" where
  "async_circuit_breaker_init get_data put_data lock binding name failure_threshold open_duration
     half_open_max_calls recovery_success_threshold failure_if observer clock =
     ebind (circuit_breaker_init get_data put_data name failure_threshold open_duration
              half_open_max_calls recovery_success_threshold failure_if observer clock)
       (\<lambda>(base, data). Inr (\<lparr>acb_base = base, acb_lock = lock, acb_binding = binding\<rparr>, data))"

definition async_circuit_bind_loop :: "'s async_circuit_breaker \<Rightarrow> ('s, exn, unit) act" where
  "async_circuit_bind_loop self =
     bind_loop (acb_binding self) ''async circuit breaker is bound to another event loop''"

definition acb_locked ::
  "'s async_circuit_breaker \<Rightarrow> (circuit_data \<Rightarrow> 'a \<times> circuit_data) \<Rightarrow> ('s, exn, 'a) act" where
  "acb_locked self f = act_then (acb_lock self) (cb_locked (acb_base self) f)"

definition async_circuit_snapshot :: "'s async_circuit_breaker \<Rightarrow> ('s, exn, circuit_snapshot) act" where
  "async_circuit_snapshot self =
     act_then (async_circuit_bind_loop self)
       (acb_locked self (\<lambda>d. (circuit_data_snapshot (cb_name (acb_base self)) d, d)))"

definition async_circuit_release ::
  "'s async_circuit_breaker \<Rightarrow> admission \<Rightarrow> ('s, exn, circuit_snapshot) act" where
  "async_circuit_release self admission =
     acb_locked self (\<lambda>d. let d' = circuit_ignore admission d
                          in (circuit_data_snapshot (cb_name (acb_base self)) d', d'))"

definition async_circuit_release_preserving ::
  "'s async_circuit_breaker \<Rightarrow> admission \<Rightarrow> ('s, exn, circuit_snapshot \<times> bool) act" where
  "async_circuit_release_preserving self admission =
     preserving_cancellation (async_circuit_release self admission) False"

definition async_circuit_classify :: "'s async_circuit_breaker \<Rightarrow> exn \<Rightarrow> ('s, exn, bool) act" where
  "async_circuit_classify self error =
     (case cb_failure_if (acb_base self) of
        None \<Rightarrow> return True
      | Some failure_if \<Rightarrow>
          act_bind (failure_if error) (\<lambda>result.
          case result of PyBool b \<Rightarrow> return b | _ \<Rightarrow> raise (TypeError ''failure_if must return bool'')))"

definition async_circuit_give_back ::
  "'s async_circuit_breaker \<Rightarrow> admission \<Rightarrow> exn \<Rightarrow> ('s, exn, 'a) act" where
  "async_circuit_give_back self admission e = give_back_and_raise (async_circuit_release self admission) e"

definition async_circuit_announce ::
  "'s async_circuit_breaker \<Rightarrow> admission option \<Rightarrow> transition option \<Rightarrow> circuit_snapshot
   \<Rightarrow> ('s, exn, unit) act" where
  "async_circuit_announce self admission transition snapshot =
     try_except (circuit_announcement (acb_base self) admission transition snapshot)
       (\<lambda>e. case admission of None \<Rightarrow> raise e | Some a \<Rightarrow> async_circuit_give_back self a e)"

text \<open>\<open>try: ... except BaseException\<close> around the predicate and the clock.\<close>

definition async_circuit_guard ::
  "'s async_circuit_breaker \<Rightarrow> admission \<Rightarrow> ('s, exn, 'a) act \<Rightarrow> ('s, exn, 'a) act" where
  "async_circuit_guard self admission m =
     try_except m (\<lambda>e. act_bind (async_circuit_release_preserving self admission)
       (\<lambda>(_, cancelled). if cancelled then raise CancelledError else raise e))"

text \<open>\<open>try: async with self._lock: ... except CancelledError\<close> around a report.\<close>

definition async_circuit_report ::
  "'s async_circuit_breaker \<Rightarrow> admission \<Rightarrow> (circuit_data \<Rightarrow> transition option \<times> circuit_data)
   \<Rightarrow> ('s, exn, transition option \<times> circuit_snapshot) act" where
  "async_circuit_report self admission f =
     try_except
       (acb_locked self (\<lambda>d. let (changed, d') = f d
                             in ((changed, circuit_data_snapshot (cb_name (acb_base self)) d'), d')))
       (\<lambda>e. if e = CancelledError
            then act_then (async_circuit_release_preserving self admission) (raise e)
            else raise e)"

definition async_circuit_on_error ::
  "'s async_circuit_breaker \<Rightarrow> admission \<Rightarrow> exn \<Rightarrow> ('s, exn, 'r) act" where
  "async_circuit_on_error self admission error =
     act_bind (async_circuit_guard self admission (async_circuit_classify self error)) (\<lambda>classified.
     act_bind (async_circuit_guard self admission (circuit_now (acb_base self))) (\<lambda>now.
     act_bind
       (async_circuit_report self admission
         (\<lambda>d. if classified then circuit_fail admission now d else (None, circuit_ignore admission d)))
       (\<lambda>(changed, snapshot).
     act_then (circuit_emit_transition (acb_base self) snapshot changed)
     (act_then
       (emit (cb_observer (acb_base self))
          (circuit_event (cb_name (acb_base self)) FAILED (Some FAILURE) (failure_category error) snapshot None))
       (raise error)))))"

definition async_circuit_on_success ::
  "'s async_circuit_breaker \<Rightarrow> admission \<Rightarrow> 'r \<Rightarrow> ('s, exn, 'r) act" where
  "async_circuit_on_success self admission result =
     act_bind (async_circuit_guard self admission (circuit_now (acb_base self))) (\<lambda>now.
     act_bind (async_circuit_report self admission (circuit_succeed admission now))
       (\<lambda>(changed, snapshot).
     act_then (circuit_emit_transition (acb_base self) snapshot changed)
     (act_then
       (emit (cb_observer (acb_base self))
          (circuit_event (cb_name (acb_base self)) SUCCEEDED (Some SUCCESS) CAT_NONE snapshot None))
       (return result))))"

definition async_circuit_execute ::
  "'s async_circuit_breaker \<Rightarrow> admission \<Rightarrow> ('s, exn, 'r) act \<Rightarrow> ('s, exn, 'r) act" where
  "async_circuit_execute self admission operation =
     try_else operation
       (\<lambda>error. if is_exception error then async_circuit_on_error self admission error
                else async_circuit_give_back self admission error)
       (async_circuit_on_success self admission)"

definition async_circuit_call ::
  "'s async_circuit_breaker \<Rightarrow> ('s, 'r) operation \<Rightarrow> ('s, exn, 'r) act" where
  "async_circuit_call self operation =
     act_then (lift (validate_operation operation))
     (act_then (lift (ensure_async_operation operation))
     (act_then (async_circuit_bind_loop self)
     (act_bind (circuit_now (acb_base self)) (\<lambda>now.
      act_bind
        (acb_locked self (\<lambda>d.
           let ((admission, transition), d') = circuit_admit now d
           in ((admission, transition, circuit_data_snapshot (cb_name (acb_base self)) d'), d')))
        (\<lambda>(admission, transition, snapshot).
      act_then (async_circuit_announce self admission transition snapshot)
        (case admission of
           None \<Rightarrow> raise (CircuitOpenError (cb_name (acb_base self)) (cs_state snapshot))
         | Some a \<Rightarrow> async_circuit_execute self a (op_run operation)))))))"

definition async_circuit_decorate ::
  "'s async_circuit_breaker \<Rightarrow> ('s, 'r) operation \<Rightarrow> exn + ('s, 'r) operation" where
  "async_circuit_decorate self operation =
     ebind (validate_operation operation) (\<lambda>_.
     ebind (ensure_async_operation operation) (\<lambda>_. Inr (wrapped_async (async_circuit_call self operation))))"

section \<open>Triples\<close>

text \<open>The environment of the synchronous breaker, a lock that raises \<open>CancelledError\<close> only, and
  finitely many cancellations of it.\<close>

definition async_breaker_env ::
  "bool \<Rightarrow> 's async_circuit_breaker \<Rightarrow> ('s \<Rightarrow> admission multiset) \<Rightarrow> ('s \<Rightarrow> nat) \<Rightarrow> bool" where
  "async_breaker_env b self oth cnt \<longleftrightarrow>
     breaker_env b (acb_base self) oth
     \<and> (\<forall>M. keeps b (breaker_holds (acb_base self) oth M) (acb_lock self)
            \<and> keeps_binding (acb_binding self) (breaker_holds (acb_base self) oth M))
     \<and> (\<forall>s e s'. acb_lock self s = Some (Inl e, s') \<longrightarrow> e = CancelledError \<and> cnt s' < cnt s)"

lemma async_breaker_envD:
  assumes "async_breaker_env b self oth cnt"
  shows "breaker_env b (acb_base self) oth"
    "keeps b (breaker_holds (acb_base self) oth M) (acb_lock self)"
    "keeps b (breaker_holds (acb_base self) oth M) (async_circuit_bind_loop self)"
    "acb_lock self s = Some (Inl e, s') \<Longrightarrow> e = CancelledError \<and> cnt s' < cnt s"
  using assms unfolding async_breaker_env_def async_circuit_bind_loop_def
  by (blast intro: keeps_bind_loop)+

lemma hoare_acb_locked:
  assumes env: "async_breaker_env b self oth cnt"
    and f: "\<And>X d x d'. circ_inv (M + X) d \<Longrightarrow> f d = (x, d') \<Longrightarrow> circ_inv (N x + X) d'"
  shows "hoare b (breaker_holds (acb_base self) oth M) (acb_locked self f)
    (\<lambda>x. breaker_holds (acb_base self) oth (N x))
    (\<lambda>e s. e = CancelledError \<and> breaker_holds (acb_base self) oth M s)"
proof -
  have "hoare b (breaker_holds (acb_base self) oth M) (acb_lock self)
      (\<lambda>_. breaker_holds (acb_base self) oth M)
      (\<lambda>e s. e = CancelledError \<and> breaker_holds (acb_base self) oth M s)"
    using async_breaker_envD [OF env]
    by (intro hoareI) (blast dest: keepsD keeps_noneD)+
  then show ?thesis
    unfolding acb_locked_def
    by (rule hoare_then) (rule hoare_cb_locked [OF async_breaker_envD(1) [OF env] f])
qed

lemma release_finitely:
  assumes "async_breaker_env b self oth cnt"
  shows "finitely_cancelled (async_circuit_release self a) cnt"
  using async_breaker_envD(4) [OF assms]
  by (auto simp: finitely_cancelled_def async_circuit_release_def acb_locked_def cb_locked_def
      act_simps split: option.splits sum.splits prod.splits)

lemma hoare_async_release:
  assumes env: "async_breaker_env b self oth cnt"
  shows "hoare b (breaker_holds (acb_base self) oth (add_mset a M)) (async_circuit_release self a)
    (\<lambda>_. breaker_holds (acb_base self) oth M)
    (\<lambda>e s. e = CancelledError \<and> breaker_holds (acb_base self) oth (add_mset a M) s)"
  unfolding async_circuit_release_def
  by (rule hoare_acb_locked [OF env, where N = "\<lambda>_. M"]) (auto simp: Let_def dest: ignore_inv)

lemmas hoare_async_give_back =
  hoare_give_back [OF hoare_async_release release_finitely, folded async_circuit_give_back_def]

lemmas hoare_async_preserving =
  hoare_preserving [OF hoare_async_release release_finitely, where c = False,
    folded async_circuit_release_preserving_def]

lemma hoare_async_guard:
  assumes env: "async_breaker_env b self oth cnt"
    and m: "keeps b (breaker_holds (acb_base self) oth (add_mset a M)) m"
  shows "hoare b (breaker_holds (acb_base self) oth (add_mset a M)) (async_circuit_guard self a m)
           (\<lambda>_. breaker_holds (acb_base self) oth (add_mset a M)) (\<lambda>_. breaker_holds (acb_base self) oth M)"
  unfolding async_circuit_guard_def
  by (rule hoare_try_except [OF keeps_hoare [OF m]],
      rule hoare_bind [OF hoare_async_preserving [OF env env]])
    (auto split: prod.split intro: hoare_raise)

lemma hoare_async_report:
  assumes env: "async_breaker_env b self oth cnt"
    and f: "\<And>X d x d'. circ_inv (add_mset a (M + X)) d \<Longrightarrow> f d = (x, d') \<Longrightarrow> circ_inv (M + X) d'"
  shows "hoare b (breaker_holds (acb_base self) oth (add_mset a M)) (async_circuit_report self a f)
    (\<lambda>_. breaker_holds (acb_base self) oth M) (\<lambda>_. breaker_holds (acb_base self) oth M)"
  unfolding async_circuit_report_def
proof (rule hoare_try_except)
  show "hoare b (breaker_holds (acb_base self) oth (add_mset a M))
     (acb_locked self (\<lambda>d. let (changed, d') = f d
        in ((changed, circuit_data_snapshot (cb_name (acb_base self)) d'), d')))
     (\<lambda>_. breaker_holds (acb_base self) oth M)
     (\<lambda>e s. e = CancelledError \<and> breaker_holds (acb_base self) oth (add_mset a M) s)"
    by (rule hoare_acb_locked [OF env, where N = "\<lambda>_. M"]) (auto split: prod.splits dest: f)
  show "hoare b (\<lambda>s. e = CancelledError \<and> breaker_holds (acb_base self) oth (add_mset a M) s)
     (if e = CancelledError then act_then (async_circuit_release_preserving self a) (raise e) else raise e)
     (\<lambda>_. breaker_holds (acb_base self) oth M) (\<lambda>_. breaker_holds (acb_base self) oth M)" for e
    by (rule hoare_conj_pre, simp, rule hoare_then [OF hoare_async_preserving [OF env env] hoare_raise])
qed

lemma keeps_async_classify:
  assumes "async_breaker_env b self oth cnt"
  shows "keeps b (breaker_holds (acb_base self) oth M) (async_circuit_classify self e)"
  using breaker_envD(5) [OF async_breaker_envD(1) [OF assms]]
  by (simp add: async_circuit_classify_def circuit_classify_def)

lemma hoare_async_on_error:
  assumes env: "async_breaker_env b self oth cnt"
  shows "hoare b (breaker_holds (acb_base self) oth (add_mset a M)) (async_circuit_on_error self a e)
           (\<lambda>_. breaker_holds (acb_base self) oth M) (\<lambda>_. breaker_holds (acb_base self) oth M)"
  unfolding async_circuit_on_error_def
  by (intro hoare_bind [OF hoare_async_guard [OF env]] hoare_bind [OF hoare_async_report [OF env]]
      keeps_async_classify [OF env] breaker_envD(3) [OF async_breaker_envD(1) [OF env]])
    (auto split: if_splits prod.splits dest: fail_inv ignore_inv
      intro!: keeps_hoare hoare_rules breaker_envD [OF async_breaker_envD(1) [OF env]])

lemma hoare_async_on_success:
  assumes env: "async_breaker_env b self oth cnt"
  shows "hoare b (breaker_holds (acb_base self) oth (add_mset a M)) (async_circuit_on_success self a r)
           (\<lambda>_. breaker_holds (acb_base self) oth M) (\<lambda>_. breaker_holds (acb_base self) oth M)"
  unfolding async_circuit_on_success_def
  by (intro hoare_bind [OF hoare_async_guard [OF env]] hoare_bind [OF hoare_async_report [OF env]]
      breaker_envD(3) [OF async_breaker_envD(1) [OF env]])
    (auto split: prod.splits dest: succeed_inv
      intro!: keeps_hoare hoare_rules breaker_envD [OF async_breaker_envD(1) [OF env]])

lemma hoare_async_execute:
  assumes env: "async_breaker_env b self oth cnt"
    and op: "\<And>M. keeps b (breaker_holds (acb_base self) oth M) m"
  shows "hoare b (breaker_holds (acb_base self) oth (add_mset a M)) (async_circuit_execute self a m)
           (\<lambda>_. breaker_holds (acb_base self) oth M) (\<lambda>_. breaker_holds (acb_base self) oth M)"
  unfolding async_circuit_execute_def
  by (rule hoare_try_else [OF keeps_hoare [OF op]])
    (intro hoare_if hoare_async_on_error [OF env] hoare_async_on_success [OF env]
      hoare_async_give_back [OF env env])+

lemma hoare_async_announce:
  assumes env: "async_breaker_env b self oth cnt"
  shows "hoare b (breaker_holds (acb_base self) oth (add_mset a M)) (async_circuit_announce self (Some a) tr sn)
           (\<lambda>_. breaker_holds (acb_base self) oth (add_mset a M)) (\<lambda>_. breaker_holds (acb_base self) oth M)"
    and "keeps b (breaker_holds (acb_base self) oth M) (async_circuit_announce self None tr sn)"
  unfolding async_circuit_announce_def option.case
  by (rule hoare_try_except [OF keeps_hoare [OF keeps_circuit_announcement [OF async_breaker_envD(1) [OF env]]]
        hoare_async_give_back [OF env env]])
    (intro hoare_rules keeps_circuit_announcement async_breaker_envD(1) [OF env])

lemma hoare_async_after_admit:
  assumes env: "async_breaker_env b self oth cnt"
    and op: "\<And>M. keeps b (breaker_holds (acb_base self) oth M) m"
  shows "hoare b (breaker_holds (acb_base self) oth (case adm of None \<Rightarrow> M | Some a \<Rightarrow> add_mset a M))
     (act_then (async_circuit_announce self adm tr sn)
        (case adm of
           None \<Rightarrow> raise (CircuitOpenError (cb_name (acb_base self)) (cs_state sn))
         | Some a \<Rightarrow> async_circuit_execute self a m))
     (\<lambda>_. breaker_holds (acb_base self) oth M) (\<lambda>_. breaker_holds (acb_base self) oth M)"
proof (cases adm)
  case None
  show ?thesis
    unfolding None option.case
    by (rule keeps_hoare) (intro keeps_then keeps_raise hoare_async_announce(2) [OF env])
next
  case (Some a)
  show ?thesis
    unfolding Some option.case
    by (rule hoare_then [OF hoare_async_announce(1) [OF env] hoare_async_execute [OF env op]])
qed

lemma keeps_async_circuit_call:
  assumes env: "async_breaker_env b self oth cnt"
    and op: "\<And>M. keeps b (breaker_holds (acb_base self) oth M) (op_run operation)"
  shows "keeps b (breaker_holds (acb_base self) oth M) (async_circuit_call self operation)"
proof -
  let ?N = "\<lambda>(admission, tr, sn). case admission of None \<Rightarrow> M | Some a \<Rightarrow> add_mset a M"
  let ?f = "\<lambda>now d. let ((admission, transition), d') = circuit_admit now d
      in ((admission, transition, circuit_data_snapshot (cb_name (acb_base self)) d'), d')"
  have admit: "hoare b (breaker_holds (acb_base self) oth M) (acb_locked self (?f now))
      (\<lambda>x. breaker_holds (acb_base self) oth (?N x))
      (\<lambda>_. breaker_holds (acb_base self) oth M)" for now
  proof (rule hoare_weaken [OF hoare_acb_locked [OF env, where N = ?N]])
    fix X d x d'
    assume inv: "circ_inv (M + X) d" and eq: "?f now d = (x, d')"
    obtain adm tr d1 where a: "circuit_admit now d = ((adm, tr), d1)" by (metis prod.exhaust)
    then have "x = (adm, tr, circuit_data_snapshot (cb_name (acb_base self)) d1)" "d' = d1"
      using eq by auto
    then show "circ_inv (?N x + X) d'" using admit_inv [OF inv a] by (cases adm) simp_all
  qed auto
  show ?thesis
    unfolding async_circuit_call_def keeps_def
    by (intro hoare_then [OF keeps_hoare [OF keeps_lift]]
        hoare_then [OF keeps_hoare [OF async_breaker_envD(3) [OF env]]]
        hoare_bind [OF keeps_hoare [OF breaker_envD(3) [OF async_breaker_envD(1) [OF env]]]]
        hoare_bind [OF admit])
      (auto split: prod.split simp: hoare_async_after_admit [OF env op])
qed

text \<open>the asynchronous breaker never leaks its slot, also when the task is cancelled at any of
  its suspension points, any number of times. If the caller's code and the other tasks keep the
  breaker's invariant and end, the lock raises nothing but \<open>CancelledError\<close>, and cancellations are
  finite, then a call ends, and the task has the same outstanding admissions before and after.\<close>

theorem async_circuit_call_no_leak:
  assumes "async_breaker_env True self oth cnt"
    and "\<And>M. keeps True (breaker_holds (acb_base self) oth M) (op_run operation)"
    and "circ_inv (M + oth s) (cb_get (acb_base self) s)"
  shows "\<exists>res s'. async_circuit_call self operation s = Some (res, s')
    \<and> circ_inv (M + oth s') (cb_get (acb_base self) s')"
proof -
  have k: "keeps True (breaker_holds (acb_base self) oth M) (async_circuit_call self operation)"
    by (rule keeps_async_circuit_call [OF assms(1,2)])
  have s: "breaker_holds (acb_base self) oth M s" using assms(3) by (simp add: breaker_holds_def)
  obtain res s' where "async_circuit_call self operation s = Some (res, s')"
    using keeps_ends [OF k s] by blast
  then show ?thesis using keepsD [OF k s] by (auto simp: breaker_holds_def)
qed

text \<open>A breaker whose lock cancels the task as often as the second component of the state says.\<close>

definition cancelling_breaker :: "(circuit_data \<times> nat) async_circuit_breaker" where
  "cancelling_breaker =
     \<lparr>acb_base = \<lparr>cb_name = [99], cb_get = fst, cb_put = (\<lambda>d s. (d, snd s)), cb_failure_if = None,
        cb_observer = None, cb_clock = return (PyInt 0)\<rparr>,
      acb_lock = (\<lambda>(d, n). if n = 0 then Some (Inr (), (d, 0)) else Some (Inl CancelledError, (d, n - 1))),
      acb_binding = \<lparr>lb_get = (\<lambda>_. Some 1), lb_put = (\<lambda>_ s. s), lb_running = (\<lambda>_. 1)\<rparr>\<rparr>"

lemma cancelling_env: "async_breaker_env True cancelling_breaker (\<lambda>_. {#}) snd"
  by (auto simp: async_breaker_env_def breaker_env_def cancelling_breaker_def keeps_binding_def
      breaker_holds_def intro!: keeps_return keepsI split: if_splits)

text \<open>The operation of the witness is cancelled itself and leaves two more cancellations behind.\<close>

theorem async_circuit_call_no_leak_witness:
  "\<exists>res s'. async_circuit_call cancelling_breaker
     \<lparr>op_callable = True, op_kinds = [CoroutineFunction],
      op_run = (\<lambda>(d, n). Some (Inl CancelledError, (d, 2))) :: (circuit_data \<times> nat, exn, unit) act\<rparr>
     (circuit_data_init 1 (Finite 5) 1 1, 0) = Some (res, s') \<and> circ_inv {#} (fst s')"
proof -
  let ?op = "\<lparr>op_callable = True, op_kinds = [CoroutineFunction],
      op_run = (\<lambda>(d, n). Some (Inl CancelledError, (d, 2))) :: (circuit_data \<times> nat, exn, unit) act\<rparr>"
  have "keeps True (breaker_holds (acb_base cancelling_breaker) (\<lambda>_. {#}) M) (op_run ?op)" for M
    by (rule keepsI) (auto simp: breaker_holds_def cancelling_breaker_def)
  from async_circuit_call_no_leak [OF cancelling_env this, of "{#}" "(circuit_data_init 1 (Finite 5) 1 1, 0)"]
  show ?thesis by (simp add: cancelling_breaker_def circ_inv_init)
qed

end
