(* ===== verification/Bulkhead.thy ===== *)
theory Bulkhead
  imports Resilience_Core
begin

text \<open>
  \<open>bluetape.resilience._bulkhead\<close>: the synchronous \<open>Bulkhead\<close>.

  The bulkhead's counters live in the program state \<open>'s\<close>, where \<open>bh_get\<close> and \<open>bh_put\<close> reach them.
  \<open>time.monotonic()\<close> and \<open>Condition.wait(remaining)\<close> are the fields \<open>bh_monotonic\<close> and \<open>bh_wait\<close>:
  \<open>wait\<close> gives the lock up, so other threads run inside it, and it may raise (an interrupt). The
  loop of \<open>_acquire\<close> ends only if the clock moves on, so it is a \<open>partial_function\<close>; a lemma below
  shows that it ends when waits time out as documented and notifications are finitely many.

  Other threads are a ghost: \<open>oth s\<close> is the number of slots and of queue places that other threads
  hold in the state \<open>s\<close>. \<open>bulk_holds self oth k w\<close> says that the counters are those of the other
  threads plus the \<open>k\<close> slots and \<open>w\<close> places of the thread under consideration, and that the slots
  are within the limit. Other threads may take and give back slots whenever foreign code runs.
\<close>

record bulkhead_data =
  bd_in_flight :: int
  bd_waiters :: int

text \<open>The attributes that \<open>Bulkhead\<close> and \<open>AsyncBulkhead\<close> share.\<close>

record 's bulkhead_core =
  bh_name :: pystr
  bh_max_concurrency :: int
  bh_max_wait :: pyfloat
  bh_observer :: "'s observer"
  bh_get :: "'s \<Rightarrow> bulkhead_data"
  bh_put :: "bulkhead_data \<Rightarrow> 's \<Rightarrow> 's"

record 's bulkhead = "'s bulkhead_core" +
  bh_monotonic :: "('s, exn, pyfloat) act"
  bh_wait :: "pyfloat \<Rightarrow> ('s, exn, unit) act"

definition bulkhead_event ::
  "pystr \<Rightarrow> event_kind \<Rightarrow> policy_outcome option \<Rightarrow> failure_category_t \<Rightarrow> bulkhead_snapshot
   \<Rightarrow> policy_event" where
  "bulkhead_event name kind outcome category snapshot =
     \<lparr>ev_policy_name = name, ev_policy_type = BULKHEAD, ev_kind = kind, ev_outcome = outcome,
      ev_failure_category = category, ev_attempt = None, ev_delay = None, ev_timeout = None,
      ev_state = None, ev_previous_state = None, ev_in_flight = Some (bs_in_flight snapshot),
      ev_waiters = Some (bs_waiters snapshot)\<rparr>"

definition bulkhead_init ::
  "('s \<Rightarrow> bulkhead_data) \<Rightarrow> (bulkhead_data \<Rightarrow> 's \<Rightarrow> 's) \<Rightarrow> ('s, exn, pyfloat) act
   \<Rightarrow> (pyfloat \<Rightarrow> ('s, exn, unit) act) \<Rightarrow> pyval \<Rightarrow> pyval \<Rightarrow> pyval
   \<Rightarrow> (policy_event \<Rightarrow> ('s, exn, unit) act) callback option \<Rightarrow> exn + 's bulkhead \<times> bulkhead_data" where
  "bulkhead_init get_data put_data monotonic wait name max_concurrency max_wait observer =
     ebind (validate_name name ''name'') (\<lambda>nm.
     ebind (positive_int max_concurrency ''max_concurrency'') (\<lambda>mc.
     ebind (finite_non_negative max_wait ''max_wait'') (\<lambda>mw.
     ebind (validate_optional_callable observer ''observer'') (\<lambda>ob.
     Inr (\<lparr>bh_name = nm, bh_max_concurrency = mc, bh_max_wait = mw, bh_observer = ob,
           bh_get = get_data, bh_put = put_data, bh_monotonic = monotonic, bh_wait = wait\<rparr>,
          \<lparr>bd_in_flight = 0, bd_waiters = 0\<rparr>)))))"

definition bulkhead_snapshot_locked :: "pystr \<Rightarrow> int \<Rightarrow> bulkhead_data \<Rightarrow> bulkhead_snapshot" where
  "bulkhead_snapshot_locked name max_concurrency d =
     \<lparr>bs_name = name, bs_max_concurrency = max_concurrency, bs_in_flight = bd_in_flight d,
      bs_waiters = bd_waiters d\<rparr>"

definition bulkhead_snap :: "('s, 'z) bulkhead_core_scheme \<Rightarrow> ('s, exn, bulkhead_snapshot) act" where
  "bulkhead_snap self =
     gets (\<lambda>s. bulkhead_snapshot_locked (bh_name self) (bh_max_concurrency self) (bh_get self s))"

definition bulkhead_update :: "('s, 'z) bulkhead_core_scheme \<Rightarrow> (bulkhead_data \<Rightarrow> bulkhead_data) \<Rightarrow> ('s, exn, unit) act" where
  "bulkhead_update self f = modify (\<lambda>s. bh_put self (f (bh_get self s)) s)"

definition bulkhead_full :: "('s, 'z) bulkhead_core_scheme \<Rightarrow> ('s, exn, bool) act" where
  "bulkhead_full self = gets (\<lambda>s. bd_in_flight (bh_get self s) \<ge> bh_max_concurrency self)"

text \<open>The \<open>while\<close> loop of \<open>_acquire\<close>: \<open>True\<close> when a slot is free, \<open>False\<close> at the \<open>return None\<close>.\<close>

partial_function (option) bulkhead_wait_loop ::
  "'s bulkhead \<Rightarrow> pyfloat \<Rightarrow> 's \<Rightarrow> ((exn + bool) \<times> 's) option" where
  "bulkhead_wait_loop self deadline s =
     act_bind (bulkhead_full self) (\<lambda>full.
       if \<not> full then return True
       else act_bind (bh_monotonic self) (\<lambda>now.
         if float_le (float_sub deadline now) (Finite 0) then return False
         else act_then (bh_wait self (float_sub deadline now)) (bulkhead_wait_loop self deadline))) s"

definition bulkhead_take :: "('s, 'z) bulkhead_core_scheme \<Rightarrow> ('s, exn, bulkhead_snapshot option) act" where
  "bulkhead_take self =
     act_then (bulkhead_update self (\<lambda>d. d\<lparr>bd_in_flight := bd_in_flight d + 1\<rparr>))
       (act_bind (bulkhead_snap self) (\<lambda>snapshot. return (Some snapshot)))"

definition bulkhead_acquire :: "'s bulkhead \<Rightarrow> ('s, exn, bulkhead_snapshot option) act" where
  "bulkhead_acquire self =
     act_bind (bulkhead_full self) (\<lambda>full.
       if \<not> full then bulkhead_take self
       else if bh_max_wait self = Finite 0 then return None
       else act_bind (bh_monotonic self) (\<lambda>now.
         act_then (bulkhead_update self (\<lambda>d. d\<lparr>bd_waiters := bd_waiters d + 1\<rparr>))
         (act_bind
           (try_finally (bulkhead_wait_loop self (float_add now (bh_max_wait self)))
             (bulkhead_update self (\<lambda>d. d\<lparr>bd_waiters := bd_waiters d - 1\<rparr>)))
           (\<lambda>free. if free then bulkhead_take self else return None))))"

text \<open>\<open>notify\<close> wakes a waiting thread; it runs once the lock is free, inside foreign code.\<close>

definition bulkhead_release :: "('s, 'z) bulkhead_core_scheme \<Rightarrow> ('s, exn, bulkhead_snapshot) act" where
  "bulkhead_release self =
     act_then (bulkhead_update self (\<lambda>d. d\<lparr>bd_in_flight := bd_in_flight d - 1\<rparr>)) (bulkhead_snap self)"

definition bulkhead_emit ::
  "('s, 'z) bulkhead_core_scheme \<Rightarrow> event_kind \<Rightarrow> policy_outcome option \<Rightarrow> failure_category_t \<Rightarrow> bulkhead_snapshot
   \<Rightarrow> ('s, exn, unit) act" where
  "bulkhead_emit self kind outcome category snapshot =
     emit (bh_observer self) (bulkhead_event (bh_name self) kind outcome category snapshot)"

definition bulkhead_call :: "'s bulkhead \<Rightarrow> ('s, 'r) sync_op \<Rightarrow> ('s, exn, 'r) act" where
  "bulkhead_call self operation =
     act_then (lift (validate_operation operation))
     (act_then (lift (ensure_sync_operation operation))
     (act_bind (bulkhead_acquire self) (\<lambda>acquired.
        case acquired of
          None \<Rightarrow>
            act_bind (bulkhead_snap self) (\<lambda>rejected.
            act_then (bulkhead_emit self REJECTED (Some REJECTION) CAT_BULKHEAD_REJECTED rejected)
            (raise (BulkheadRejectedError (bh_name self))))
        | Some snapshot \<Rightarrow>
            act_then
              (try_except (bulkhead_emit self ADMITTED None CAT_NONE snapshot)
                (\<lambda>e. act_then (bulkhead_release self) (raise e)))
              (try_else (act_bind (op_run operation) ensure_sync_result)
                (\<lambda>error.
                   if error = SyncResultContractError \<or> \<not> is_exception error
                   then act_then (bulkhead_release self) (raise error)
                   else act_bind (bulkhead_release self) (\<lambda>released.
                        act_then (bulkhead_emit self FAILED (Some FAILURE) (failure_category error) released)
                        (raise error)))
                (\<lambda>result. act_bind (bulkhead_release self) (\<lambda>released.
                   act_then (bulkhead_emit self SUCCEEDED (Some SUCCESS) CAT_NONE released)
                   (return result)))))))"

definition bulkhead_decorate :: "'s bulkhead \<Rightarrow> ('s, 'r) sync_op \<Rightarrow> exn + ('s, 'r) sync_op" where
  "bulkhead_decorate self operation =
     ebind (validate_operation operation) (\<lambda>_.
     ebind (ensure_sync_operation operation) (\<lambda>_. Inr (wrapped_sync (bulkhead_call self operation))))"

section \<open>Triples of the counters\<close>

definition bulk_holds ::
  "('s, 'z) bulkhead_core_scheme \<Rightarrow> ('s \<Rightarrow> int \<times> int) \<Rightarrow> int \<Rightarrow> int \<Rightarrow> 's \<Rightarrow> bool" where
  "bulk_holds self oth k w s \<longleftrightarrow>
     bd_in_flight (bh_get self s) = k + fst (oth s) \<and> bd_waiters (bh_get self s) = w + snd (oth s)
     \<and> 0 \<le> k \<and> 0 \<le> w \<and> 0 \<le> fst (oth s) \<and> 0 \<le> snd (oth s)
     \<and> bd_in_flight (bh_get self s) \<le> bh_max_concurrency self"

text \<open>The caller's code keeps the counters consistent for every number of own slots and places; so do
  the clock and the wait. Only the wait lets other threads run while the lock is wanted.\<close>

definition bulk_core_env :: "bool \<Rightarrow> ('s, 'z) bulkhead_core_scheme \<Rightarrow> ('s \<Rightarrow> int \<times> int) \<Rightarrow> bool" where
  "bulk_core_env b self oth \<longleftrightarrow>
     (\<forall>d s. bh_get self (bh_put self d s) = d \<and> oth (bh_put self d s) = oth s)
     \<and> (\<forall>k w f ev. bh_observer self = Some f \<longrightarrow> keeps b (bulk_holds self oth k w) (f ev))"

definition bulk_env :: "bool \<Rightarrow> 's bulkhead \<Rightarrow> ('s \<Rightarrow> int \<times> int) \<Rightarrow> bool" where
  "bulk_env b self oth \<longleftrightarrow>
     bulk_core_env b self oth
     \<and> (\<forall>k w. keeps b (bulk_holds self oth k w) (bh_monotonic self))
     \<and> (\<forall>k w t. keeps b (bulk_holds self oth k w) (bh_wait self t))"

lemma bulk_coreD:
  assumes "bulk_core_env b self oth"
  shows "bh_get self (bh_put self d s) = d" "oth (bh_put self d s) = oth s"
    "keeps b (bulk_holds self oth k w) (bulkhead_emit self kd oc ct sn)"
  using assms by (auto simp: bulk_core_env_def bulkhead_emit_def intro!: keeps_emit)

lemma bulk_envD:
  assumes "bulk_env b self oth"
  shows "bulk_core_env b self oth" "keeps b (bulk_holds self oth k w) (bh_monotonic self)"
    "keeps b (bulk_holds self oth k w) (bh_wait self t)"
  using assms by (simp_all add: bulk_env_def)

lemma keeps_bulkhead_reads [hoare_rules]:
  "keeps b I (bulkhead_snap self)" "keeps b I (bulkhead_full self)"
  by (simp_all add: bulkhead_snap_def bulkhead_full_def keeps_gets)

lemma hoare_bulkhead_full:
  "hoare b P (bulkhead_full self)
     (\<lambda>full s. P s \<and> full = (bd_in_flight (bh_get self s) \<ge> bh_max_concurrency self)) E"
  by (auto simp: bulkhead_full_def act_simps intro!: hoareI)

lemma hoare_bulkhead_waiters:
  assumes "bulk_core_env b self oth"
  shows "0 \<le> w + n \<Longrightarrow> hoare b (bulk_holds self oth k w)
      (bulkhead_update self (\<lambda>d. d\<lparr>bd_waiters := bd_waiters d + n\<rparr>))
      (\<lambda>_. bulk_holds self oth k (w + n)) E"
  by (auto simp: bulkhead_update_def act_simps bulk_holds_def bulk_coreD [OF assms] intro!: hoareI)

lemma hoare_bulkhead_take:
  assumes "bulk_core_env b self oth"
  shows "hoare b (\<lambda>s. bulk_holds self oth k w s \<and> bd_in_flight (bh_get self s) < bh_max_concurrency self)
      (bulkhead_take self) (\<lambda>r s. r \<noteq> None \<and> bulk_holds self oth (k + 1) w s) E"
  by (auto simp: bulkhead_take_def bulkhead_update_def bulkhead_snap_def act_simps bulk_holds_def
      bulk_coreD [OF assms] intro!: hoareI)

lemma hoare_bulkhead_release:
  assumes "bulk_core_env b self oth" and "0 \<le> k"
  shows "hoare b (bulk_holds self oth (k + 1) w) (bulkhead_release self)
      (\<lambda>_. bulk_holds self oth k w) E"
  using assms(2)
  by (auto simp: bulkhead_release_def bulkhead_update_def bulkhead_snap_def act_simps bulk_holds_def
      bulk_coreD [OF assms(1)] intro!: hoareI)

section \<open>The wait loop\<close>

definition got_slot :: "('s, 'z) bulkhead_core_scheme \<Rightarrow> ('s \<Rightarrow> int \<times> int) \<Rightarrow> int \<Rightarrow> int \<Rightarrow> bool \<Rightarrow> 's \<Rightarrow> bool" where
  "got_slot self oth k w free s \<longleftrightarrow>
     bulk_holds self oth k w s \<and> (free \<longrightarrow> bd_in_flight (bh_get self s) < bh_max_concurrency self)"

lemma bulk_env_partial: "bulk_env b self oth \<Longrightarrow> bulk_env False self oth"
  unfolding bulk_env_def bulk_core_env_def using keeps_partial by metis

lemma hoare_wait_body:
  assumes env: "bulk_env b self oth" and rec: "hoare b (bulk_holds self oth k w) rec (got_slot self oth k w)
      (\<lambda>_. bulk_holds self oth k w)"
  shows "hoare b (bulk_holds self oth k w)
     (act_bind (bulkhead_full self) (\<lambda>full.
       if \<not> full then return True
       else act_bind (bh_monotonic self) (\<lambda>now.
         if float_le (float_sub deadline now) (Finite 0) then return False
         else act_then (bh_wait self (float_sub deadline now)) rec)))
     (got_slot self oth k w) (\<lambda>_. bulk_holds self oth k w)"
proof (rule hoare_bind [OF hoare_bulkhead_full])
  fix full
  have go: "hoare b (bulk_holds self oth k w) (act_bind (bh_monotonic self) (\<lambda>now.
         if float_le (float_sub deadline now) (Finite 0) then return False
         else act_then (bh_wait self (float_sub deadline now)) rec))
     (got_slot self oth k w) (\<lambda>_. bulk_holds self oth k w)"
  proof (rule hoare_bind [OF keeps_hoare [OF bulk_envD(2) [OF env]]])
    fix now
    have "hoare b (bulk_holds self oth k w) (return False :: (_, exn, _) act) (got_slot self oth k w)
        (\<lambda>_. bulk_holds self oth k w)"
      by (rule hoare_pre [OF hoare_return]) (simp add: got_slot_def)
    then show "hoare b (bulk_holds self oth k w) (if float_le (float_sub deadline now) (Finite 0) then return False
         else act_then (bh_wait self (float_sub deadline now)) rec)
       (got_slot self oth k w) (\<lambda>_. bulk_holds self oth k w)"
      using hoare_then [OF keeps_hoare [OF bulk_envD(3) [OF env]] rec] by simp
  qed
  have "hoare b (\<lambda>s. bulk_holds self oth k w s \<and> \<not> bh_max_concurrency self \<le> bd_in_flight (bh_get self s))
      (return True :: (_, exn, _) act) (got_slot self oth k w) (\<lambda>_. bulk_holds self oth k w)"
    by (rule hoare_pre [OF hoare_return]) (simp add: got_slot_def)
  with go show "hoare b (\<lambda>s. bulk_holds self oth k w s
      \<and> full = (bh_max_concurrency self \<le> bd_in_flight (bh_get self s)))
     (if \<not> full then return True
       else act_bind (bh_monotonic self) (\<lambda>now.
         if float_le (float_sub deadline now) (Finite 0) then return False
         else act_then (bh_wait self (float_sub deadline now)) rec))
     (got_slot self oth k w) (\<lambda>_. bulk_holds self oth k w)"
    by (cases full) (auto elim: hoare_pre)
qed

lemma hoare_wait_loop_partial:
  assumes env: "bulk_env False self oth"
  shows "hoare False (bulk_holds self oth k w) (bulkhead_wait_loop self deadline) (got_slot self oth k w)
      (\<lambda>_. bulk_holds self oth k w)"
proof (rule hoare_partialI)
  fix s y
  assume "bulkhead_wait_loop self deadline s = Some y"
  then show "bulk_holds self oth k w s \<Longrightarrow> (case fst y of Inl e \<Rightarrow> bulk_holds self oth k w (snd y)
    | Inr x \<Rightarrow> got_slot self oth k w x (snd y))"
    using env
  proof (induction rule: bulkhead_wait_loop.raw_induct [rotated, consumes 1])
    case (1 f self deadline s y)
    have "hoare False (bulk_holds self oth k w) (f self deadline) (got_slot self oth k w)
        (\<lambda>_. bulk_holds self oth k w)"
      using 1 by (intro hoare_partialI) blast
    from hoare_wait_body [OF 1(4) this] show ?case
      using 1(2,3) by (rule hoare_partialD)
  qed
qed

text \<open>The documented behaviour of \<open>time.monotonic\<close> and \<open>Condition.wait(t)\<close>. The clock is read as
  \<open>clk s\<close> and never goes back. A wait ends; if it returns, it was notified (or woken without reason),
  or it timed out, and then at least \<open>t\<close> seconds and one tick \<open>\<epsilon>\<close> of the clock have passed. A wait
  whose timeout is not a finite number never times out. \<open>wakeups s\<close> bounds the notifications still to
  come.\<close>

definition clock_progress :: "'s bulkhead \<Rightarrow> ('s \<Rightarrow> rat) \<Rightarrow> ('s \<Rightarrow> nat) \<Rightarrow> rat \<Rightarrow> bool" where
  "clock_progress self clk wakeups \<epsilon> \<longleftrightarrow>
     0 < \<epsilon>
     \<and> (\<forall>s. \<exists>s'. bh_monotonic self s = Some (Inr (Finite (clk s)), s')
          \<and> clk s' = clk s \<and> wakeups s' \<le> wakeups s)
     \<and> (\<forall>t s. \<exists>r s'. bh_wait self t s = Some (r, s') \<and>
          (r = Inr () \<longrightarrow> clk s \<le> clk s'
             \<and> (wakeups s' < wakeups s
                \<or> wakeups s' \<le> wakeups s \<and> (\<exists>\<tau>. t = Finite \<tau> \<and> clk s + max \<epsilon> \<tau> \<le> clk s'))))"

text \<open>What is left to wait for: the notifications to come and the ticks up to a finite deadline.\<close>

definition wait_budget :: "('s \<Rightarrow> rat) \<Rightarrow> ('s \<Rightarrow> nat) \<Rightarrow> rat \<Rightarrow> pyfloat \<Rightarrow> 's \<Rightarrow> nat" where
  "wait_budget clk wakeups \<epsilon> deadline s =
     wakeups s + (case deadline of Finite D \<Rightarrow> nat \<lceil>(D - clk s) / \<epsilon>\<rceil> | _ \<Rightarrow> 0)"

lemma wait_budget_notified:
  assumes "0 < \<epsilon>" and "clk s \<le> clk s'" and "wakeups s' < wakeups s"
  shows "wait_budget clk wakeups \<epsilon> deadline s' < wait_budget clk wakeups \<epsilon> deadline s"
proof -
  have "nat \<lceil>(D - clk s') / \<epsilon>\<rceil> \<le> nat \<lceil>(D - clk s) / \<epsilon>\<rceil>" for D
    using assms(1,2) by (intro nat_mono ceiling_mono divide_right_mono) simp_all
  then show ?thesis
    using assms(3) by (auto simp: wait_budget_def add_less_le_mono split: pyfloat.split)
qed

lemma wait_budget_timed_out:
  assumes "0 < \<epsilon>" and "clk s < D" and "clk s + \<epsilon> \<le> clk s'" and "wakeups s' \<le> wakeups s"
  shows "wait_budget clk wakeups \<epsilon> (Finite D) s' < wait_budget clk wakeups \<epsilon> (Finite D) s"
proof -
  have "0 < (D - clk s) / \<epsilon>" using assms(1,2) by simp
  moreover have "(D - clk s') / \<epsilon> \<le> (D - clk s) / \<epsilon> - 1"
    using assms(1,3) divide_right_mono [of "D - clk s'" "D - clk s - \<epsilon>" \<epsilon>]
    by (simp add: diff_divide_distrib)
  ultimately have "nat \<lceil>(D - clk s') / \<epsilon>\<rceil> < nat \<lceil>(D - clk s) / \<epsilon>\<rceil>" by linarith
  then show ?thesis
    unfolding wait_budget_def pyfloat.case by (rule add_le_less_mono [OF assms(4)])
qed

lemma finite_remaining: "float_sub d (Finite c) = Finite \<tau> \<Longrightarrow> \<exists>D. d = Finite D"
  by (cases d) (simp_all add: float_sub_def)

lemma wait_loop_ends:
  assumes prog: "clock_progress self clk wakeups \<epsilon>"
  shows "bulkhead_wait_loop self deadline s \<noteq> None"
proof (induction "wait_budget clk wakeups \<epsilon> deadline s" arbitrary: s rule: less_induct)
  case less
  have pos: "0 < \<epsilon>" using prog by (simp add: clock_progress_def)
  let ?t = "float_sub deadline (Finite (clk s))"
  obtain s1 where m: "bh_monotonic self s = Some (Inr (Finite (clk s)), s1)" "clk s1 = clk s"
    "wakeups s1 \<le> wakeups s"
    using prog unfolding clock_progress_def by blast
  obtain r s2 where w: "bh_wait self ?t s1 = Some (r, s2)"
    and ret: "r = Inr () \<Longrightarrow> clk s \<le> clk s2 \<and> (wakeups s2 < wakeups s1
      \<or> wakeups s2 \<le> wakeups s1 \<and> (\<exists>\<tau>. ?t = Finite \<tau> \<and> clk s + max \<epsilon> \<tau> \<le> clk s2))"
    using prog m(2) unfolding clock_progress_def by metis
  have "bulkhead_wait_loop self deadline s2 \<noteq> None"
    if left: "\<not> float_le ?t (Finite 0)" and "r = Inr ()"
  proof (rule less)
    from ret [OF that(2)] consider (notified) "clk s \<le> clk s2" "wakeups s2 < wakeups s"
      | (timed_out) D where "deadline = Finite D" "clk s + \<epsilon> \<le> clk s2" "wakeups s2 \<le> wakeups s"
      using m(3) finite_remaining by (fastforce simp: max_def split: if_splits)
    then show "wait_budget clk wakeups \<epsilon> deadline s2 < wait_budget clk wakeups \<epsilon> deadline s"
    proof cases
      case notified
      then show ?thesis by (rule wait_budget_notified [OF pos])
    next
      case timed_out
      then have "clk s < D" using left float_sub_pos by simp
      then show ?thesis using wait_budget_timed_out [OF pos] timed_out by simp
    qed
  qed
  then show ?case
    using m w by (subst bulkhead_wait_loop.simps)
      (auto simp: act_simps bulkhead_full_def split: sum.split)
qed

section \<open>Calls\<close>

text \<open>What a call needs of its wait loop: with the deadline that \<open>_acquire\<close> computes it ends.\<close>

definition waits_end :: "'s bulkhead \<Rightarrow> bool" where
  "waits_end self \<longleftrightarrow>
     (\<forall>s now s1 s2. bh_monotonic self s = Some (Inr now, s1) \<longrightarrow>
        bulkhead_wait_loop self (float_add now (bh_max_wait self)) s2 \<noteq> None)"

lemma waits_endI: "clock_progress self clk wakeups \<epsilon> \<Longrightarrow> waits_end self"
  unfolding waits_end_def by (intro allI impI wait_loop_ends)

lemma hoare_wait_loop:
  assumes env: "bulk_env b self oth" and ends: "b \<Longrightarrow> \<forall>s. bulkhead_wait_loop self deadline s \<noteq> None"
  shows "hoare b (bulk_holds self oth k w) (bulkhead_wait_loop self deadline) (got_slot self oth k w)
      (\<lambda>_. bulk_holds self oth k w)"
  by (rule hoare_total [OF hoare_wait_loop_partial [OF bulk_env_partial [OF env]]]) (use ends in blast)

lemma hoare_waiters_down:
  assumes "bulk_core_env b self oth" "0 \<le> w"
  shows "hoare b (got_slot self oth k (w + 1) free)
      (bulkhead_update self (\<lambda>d. d\<lparr>bd_waiters := bd_waiters d - 1\<rparr>)) (\<lambda>_. got_slot self oth k w free) E"
    and "hoare b (bulk_holds self oth k (w + 1))
      (bulkhead_update self (\<lambda>d. d\<lparr>bd_waiters := bd_waiters d - 1\<rparr>)) (\<lambda>_. bulk_holds self oth k w) E"
  using assms(2)
  by (auto simp: bulkhead_update_def act_simps got_slot_def bulk_holds_def bulk_coreD [OF assms(1)]
      intro!: hoareI)

text \<open>\<open>slots r k\<close>: the own slots after an acquisition that gave \<open>r\<close>.\<close>

definition slots :: "bulkhead_snapshot option \<Rightarrow> int \<Rightarrow> int" where
  "slots r k = (case r of None \<Rightarrow> k | Some _ \<Rightarrow> k + 1)"

lemma hoare_take_or_none:
  assumes env: "bulk_core_env b self oth"
  shows "hoare b (got_slot self oth k w free)
     (if free then bulkhead_take self else return None)
     (\<lambda>r. bulk_holds self oth (slots r k) w) (\<lambda>_. bulk_holds self oth k w)"
proof (cases free)
  case True
  have "hoare b (got_slot self oth k w True) (bulkhead_take self)
     (\<lambda>r. bulk_holds self oth (slots r k) w) (\<lambda>_. bulk_holds self oth k w)"
    by (rule hoare_weaken [OF hoare_bulkhead_take [OF env, of k w]])
      (auto simp: got_slot_def slots_def)
  then show ?thesis using True by simp
next
  case False
  have "hoare b (bulk_holds self oth k w) (return None :: (_, exn, _) act)
      (\<lambda>r. bulk_holds self oth (slots r k) w) (\<lambda>_. bulk_holds self oth k w)"
    by (rule hoare_pre [OF hoare_return]) (simp add: slots_def)
  then show ?thesis using False by (auto simp: got_slot_def elim: hoare_pre)
qed

lemma hoare_acquire_wait:
  assumes env: "bulk_env b self oth" and ends: "b \<Longrightarrow> \<forall>s. bulkhead_wait_loop self deadline s \<noteq> None"
    and "0 \<le> w"
  shows "hoare b (bulk_holds self oth k w)
     (act_then (bulkhead_update self (\<lambda>d. d\<lparr>bd_waiters := bd_waiters d + 1\<rparr>))
       (act_bind
         (try_finally (bulkhead_wait_loop self deadline)
           (bulkhead_update self (\<lambda>d. d\<lparr>bd_waiters := bd_waiters d - 1\<rparr>)))
         (\<lambda>free. if free then bulkhead_take self else return None)))
     (\<lambda>r. bulk_holds self oth (slots r k) w) (\<lambda>_. bulk_holds self oth k w)"
proof -
  have up: "hoare b (bulk_holds self oth k w)
      (bulkhead_update self (\<lambda>d. d\<lparr>bd_waiters := bd_waiters d + 1\<rparr>))
      (\<lambda>_. bulk_holds self oth k (w + 1)) (\<lambda>_. bulk_holds self oth k w)"
    using hoare_bulkhead_waiters [OF bulk_envD(1) [OF env], where n = 1 and w = w] assms(3) by simp
  have loop: "hoare b (bulk_holds self oth k (w + 1))
      (try_finally (bulkhead_wait_loop self deadline)
        (bulkhead_update self (\<lambda>d. d\<lparr>bd_waiters := bd_waiters d - 1\<rparr>)))
      (got_slot self oth k w) (\<lambda>_. bulk_holds self oth k w)"
    by (rule hoare_try_finally [OF hoare_wait_loop [OF env ends]
          hoare_waiters_down(2) [OF bulk_envD(1) [OF env] assms(3)]
          hoare_waiters_down(1) [OF bulk_envD(1) [OF env] assms(3)]])
  show ?thesis
    by (rule hoare_then [OF up hoare_bind [OF loop hoare_take_or_none [OF bulk_envD(1) [OF env]]]])
qed

lemma hoare_bulkhead_acquire:
  assumes env: "bulk_env b self oth" and ends: "b \<Longrightarrow> waits_end self" and "0 \<le> w"
  shows "hoare b (bulk_holds self oth k w) (bulkhead_acquire self)
     (\<lambda>r. bulk_holds self oth (slots r k) w) (\<lambda>_. bulk_holds self oth k w)"
  unfolding bulkhead_acquire_def
proof (rule hoare_bind [OF hoare_bulkhead_full])
  let ?rest = "\<lambda>now. act_then (bulkhead_update self (\<lambda>d. d\<lparr>bd_waiters := bd_waiters d + 1\<rparr>))
         (act_bind
           (try_finally (bulkhead_wait_loop self (float_add now (bh_max_wait self)))
             (bulkhead_update self (\<lambda>d. d\<lparr>bd_waiters := bd_waiters d - 1\<rparr>)))
           (\<lambda>free. if free then bulkhead_take self else return None))"
  fix full
  have now: "hoare b (bulk_holds self oth k w) (bh_monotonic self)
      (\<lambda>now s. (b \<longrightarrow> (\<forall>s. bulkhead_wait_loop self (float_add now (bh_max_wait self)) s \<noteq> None))
        \<and> bulk_holds self oth k w s) (\<lambda>_. bulk_holds self oth k w)"
  proof (rule hoareI)
    fix s now s'
    assume "bulk_holds self oth k w s" and m: "bh_monotonic self s = Some (Inr now, s')"
    then have "bulk_holds self oth k w s'" by (rule keepsD [OF bulk_envD(2) [OF env]])
    then show "(b \<longrightarrow> (\<forall>s. bulkhead_wait_loop self (float_add now (bh_max_wait self)) s \<noteq> None))
        \<and> bulk_holds self oth k w s'"
      using ends m unfolding waits_end_def by blast
  qed (auto dest: keepsD [OF bulk_envD(2) [OF env]] keeps_noneD [OF bulk_envD(2) [OF env]])
  have wait: "hoare b (bulk_holds self oth k w) (act_bind (bh_monotonic self) ?rest)
     (\<lambda>r. bulk_holds self oth (slots r k) w) (\<lambda>_. bulk_holds self oth k w)"
    by (rule hoare_bind [OF now], rule hoare_conj_pre, rule hoare_acquire_wait [OF env _ assms(3)]) simp
  have none: "hoare b (bulk_holds self oth k w) (return None :: (_, exn, _) act)
      (\<lambda>r. bulk_holds self oth (slots r k) w) (\<lambda>_. bulk_holds self oth k w)"
    using hoare_take_or_none [OF bulk_envD(1) [OF env], of k w False] by (auto simp: got_slot_def elim: hoare_pre)
  have free: "hoare b (got_slot self oth k w True) (bulkhead_take self)
      (\<lambda>r. bulk_holds self oth (slots r k) w) (\<lambda>_. bulk_holds self oth k w)"
    using hoare_take_or_none [OF bulk_envD(1) [OF env], of k w True] by simp
  show "hoare b (\<lambda>s. bulk_holds self oth k w s
      \<and> full = (bh_max_concurrency self \<le> bd_in_flight (bh_get self s)))
     (if \<not> full then bulkhead_take self
      else if bh_max_wait self = Finite 0 then return None
      else act_bind (bh_monotonic self) ?rest)
     (\<lambda>r. bulk_holds self oth (slots r k) w) (\<lambda>_. bulk_holds self oth k w)"
    by (intro hoare_if; (rule hoare_pre [OF free] hoare_pre [OF none] hoare_pre [OF wait]);
        simp add: got_slot_def)
qed


lemma keeps_bulkhead_call:
  assumes env: "bulk_env b self oth" and ends: "b \<Longrightarrow> waits_end self"
    and op: "\<And>k w. safe_sync_op b (bulk_holds self oth k w) (op_run operation)"
    and "0 \<le> k" "0 \<le> w"
  shows "keeps b (bulk_holds self oth k w) (bulkhead_call self operation)"
proof -
  have release: "hoare b (bulk_holds self oth (k + 1) w) (bulkhead_release self)
      (\<lambda>_. bulk_holds self oth k w) (\<lambda>_. bulk_holds self oth k w)"
    by (rule hoare_bulkhead_release [OF bulk_envD(1) [OF env] assms(4)])
  have give_up: "hoare b (bulk_holds self oth (k + 1) w) (act_then (bulkhead_release self) (raise e))
      Q (\<lambda>_. bulk_holds self oth k w)" for e and Q :: "'z \<Rightarrow> _"
    by (rule hoare_then [OF release hoare_raise])
  have tail: "hoare b (bulk_holds self oth (k + 1) w)
      (act_bind (bulkhead_release self) (\<lambda>sn. act_then (bulkhead_emit self kd oc ct sn) m))
      (\<lambda>_. bulk_holds self oth k w) (\<lambda>_. bulk_holds self oth k w)"
    if "keeps b (bulk_holds self oth k w) m" for kd oc ct and m :: "(_, _, 'z) act"
    by (rule hoare_bind [OF release]) (intro keeps_hoare keeps_then bulk_coreD(3) bulk_envD(1) [OF env] that)
  have admitted: "hoare b (bulk_holds self oth (k + 1) w)
      (try_except (bulkhead_emit self ADMITTED None CAT_NONE sn)
        (\<lambda>e. act_then (bulkhead_release self) (raise e)))
      (\<lambda>_. bulk_holds self oth (k + 1) w) (\<lambda>_. bulk_holds self oth k w)" for sn
    by (rule hoare_try_except [OF keeps_hoare [OF bulk_coreD(3) [OF bulk_envD(1) [OF env]]] give_up])
  show ?thesis
    unfolding bulkhead_call_def keeps_def
  proof (intro hoare_then [OF keeps_hoare [OF keeps_lift]] hoare_bind [OF hoare_bulkhead_acquire]
      env ends assms(5))
    fix r
    show "hoare b (bulk_holds self oth (slots r k) w)
      (case r of
          None \<Rightarrow>
            act_bind (bulkhead_snap self) (\<lambda>rejected.
            act_then (bulkhead_emit self REJECTED (Some REJECTION) CAT_BULKHEAD_REJECTED rejected)
            (raise (BulkheadRejectedError (bh_name self))))
        | Some snapshot \<Rightarrow>
            act_then
              (try_except (bulkhead_emit self ADMITTED None CAT_NONE snapshot)
                (\<lambda>e. act_then (bulkhead_release self) (raise e)))
              (try_else (act_bind (op_run operation) ensure_sync_result)
                (\<lambda>error.
                   if error = SyncResultContractError \<or> \<not> is_exception error
                   then act_then (bulkhead_release self) (raise error)
                   else act_bind (bulkhead_release self) (\<lambda>released.
                        act_then (bulkhead_emit self FAILED (Some FAILURE) (failure_category error) released)
                        (raise error)))
                (\<lambda>result. act_bind (bulkhead_release self) (\<lambda>released.
                   act_then (bulkhead_emit self SUCCEEDED (Some SUCCESS) CAT_NONE released)
                   (return result)))))
      (\<lambda>_. bulk_holds self oth k w) (\<lambda>_. bulk_holds self oth k w)"
    proof (cases r)
      case None
      then show ?thesis
        by (simp add: slots_def)
          (intro keeps_hoare keeps_bind keeps_bulkhead_reads keeps_then bulk_coreD(3) bulk_envD(1) [OF env] keeps_raise)
    next
      case (Some sn)
      show ?thesis
        unfolding Some slots_def option.case
        by (intro hoare_then [OF admitted] hoare_try_else [OF keeps_hoare [OF keeps_safe_sync_op [OF op]]]
            hoare_if give_up tail keeps_raise keeps_return)
    qed
  qed
qed

section \<open>Properties\<close>

text \<open>C18: a bulkhead never leaks a slot or a queue place. Other threads may do anything whenever
  foreign code runs, if that code keeps the counters consistent and ends, and the clock and
  \<open>Condition.wait\<close> behave as documented with finitely many notifications. Then a call ends, whatever
  its limit on the waiting time, and afterwards the calling thread holds as many slots and places as
  before, and the slots in use are within the limit, whether the call returned, was rejected or
  raised.\<close>

theorem bulkhead_call_no_leak:
  assumes "bulk_env True self oth" and "clock_progress self clk wakeups \<epsilon>"
    and "\<And>k w. safe_sync_op True (bulk_holds self oth k w) (op_run operation)"
    and "bulk_holds self oth k w s"
  shows "\<exists>res s'. bulkhead_call self operation s = Some (res, s') \<and> bulk_holds self oth k w s'"
proof -
  have nn: "0 \<le> k" "0 \<le> w" using assms(4) by (simp_all add: bulk_holds_def)
  have c: "keeps True (bulk_holds self oth k w) (bulkhead_call self operation)"
    by (rule keeps_bulkhead_call [OF assms(1) waits_endI [OF assms(2)] assms(3) nn])
  then show ?thesis using keeps_ends [OF c assms(4)] keepsD [OF c assms(4)] by blast
qed

text \<open>A program whose state is the counters and the clock. Nobody notifies, so that every wait with a
  finite timeout runs to its end and returns; any other timeout is an \<open>OverflowError\<close>.\<close>

definition ticking_bulkhead :: "(bulkhead_data \<times> rat) bulkhead" where
  "ticking_bulkhead =
     \<lparr>bh_name = [98], bh_max_concurrency = 1, bh_max_wait = Finite 1, bh_observer = None,
      bh_get = fst, bh_put = (\<lambda>d s. (d, snd s)), bh_monotonic = gets (\<lambda>s. Finite (snd s)),
      bh_wait = (\<lambda>t s. case t of Finite \<tau> \<Rightarrow> Some (Inr (), (fst s, snd s + max 1 \<tau>))
                                 | _ \<Rightarrow> Some (Inl OverflowError, s))\<rparr>"

definition plain_op :: "'r \<Rightarrow> ('s, 'r) sync_op" where
  "plain_op r = \<lparr>op_callable = True, op_kinds = [PlainFunction], op_run = return (Plain r)\<rparr>"

lemma plain_op_safe: "safe_sync_op b I (op_run (plain_op r))"
  by (auto simp: safe_sync_op_def plain_op_def act_simps intro: hoare_rules)

lemma ticking_env: "bulk_env True ticking_bulkhead (\<lambda>_. (n, 0))"
  by (auto simp: bulk_env_def bulk_core_env_def ticking_bulkhead_def intro!: keeps_gets keepsI
      split: if_splits pyfloat.splits) (auto simp: bulk_holds_def)

lemma ticking_progress: "clock_progress ticking_bulkhead snd (\<lambda>_. 0) 1"
  by (auto simp: clock_progress_def ticking_bulkhead_def act_simps split: pyfloat.split)

theorem bulkhead_call_no_leak_witness:
  "\<exists>res s'. bulkhead_call ticking_bulkhead (plain_op ())
       (\<lparr>bd_in_flight = 1, bd_waiters = 0\<rparr>, 0) = Some (res, s')
     \<and> bd_in_flight (fst s') = 1 \<and> bd_waiters (fst s') = 0"
proof -
  have "bulk_holds ticking_bulkhead (\<lambda>_. (1, 0)) 0 0 (\<lparr>bd_in_flight = 1, bd_waiters = 0\<rparr>, 0)"
    by (simp add: bulk_holds_def ticking_bulkhead_def)
  from bulkhead_call_no_leak [OF ticking_env ticking_progress plain_op_safe this, of "()"]
  show ?thesis by (auto simp: bulk_holds_def ticking_bulkhead_def)
qed

text \<open>the bulkhead is transparent. Without an observer, a call of a free bulkhead runs the
  operation with one more slot in use and gives exactly its result or exception, with the slot given
  back; a full bulkhead that does not wait rejects the call without running the operation and
  without touching anything.\<close>

theorem bulkhead_call_transparent:
  assumes "\<And>d s. bh_get self (bh_put self d s) = d" and "bh_observer self = None"
    and "ensure_sync_operation operation = Inr ()"
  shows "(bd_in_flight (bh_get self s) < bh_max_concurrency self \<longrightarrow>
      bulkhead_call self operation s =
        (case act_bind (op_run operation) ensure_sync_result
                (bh_put self ((bh_get self s)\<lparr>bd_in_flight := bd_in_flight (bh_get self s) + 1\<rparr>) s) of
           None \<Rightarrow> None
         | Some (res, s') \<Rightarrow>
             Some (res, bh_put self ((bh_get self s')\<lparr>bd_in_flight := bd_in_flight (bh_get self s') - 1\<rparr>) s')))
    \<and> (bh_max_concurrency self \<le> bd_in_flight (bh_get self s) \<and> bh_max_wait self = Finite 0 \<longrightarrow>
      bulkhead_call self operation s = Some (Inl (BulkheadRejectedError (bh_name self)), s))"
proof -
  have "validate_operation operation = Inr ()"
    using assms(3) by (auto simp: ensure_sync_operation_def validate_operation_def split: if_splits)
  then show ?thesis
    using assms
    by (simp add: bulkhead_call_def bulkhead_acquire_def bulkhead_full_def bulkhead_take_def
        bulkhead_release_def bulkhead_snap_def bulkhead_update_def bulkhead_emit_def act_simps
        split: option.split sum.split)
qed

theorem bulkhead_call_transparent_witness:
  "bulkhead_call ticking_bulkhead (plain_op True) (\<lparr>bd_in_flight = 0, bd_waiters = 0\<rparr>, 0)
     = Some (Inr True, (\<lparr>bd_in_flight = 0, bd_waiters = 0\<rparr>, 0))"
  using bulkhead_call_transparent [of ticking_bulkhead "plain_op True" "(\<lparr>bd_in_flight = 0, bd_waiters = 0\<rparr>, 0)"]
  by (simp add: ticking_bulkhead_def plain_op_def ensure_sync_operation_def act_simps)

end
