(* ===== verification/Async_Bulkhead.thy ===== *)
theory Async_Bulkhead
  imports Bulkhead Async_Base
begin

text \<open>
  \<open>bluetape.resilience._bulkhead\<close>: \<open>AsyncBulkhead\<close>. The counters and what is done to them under the
  lock are those of the synchronous bulkhead. \<open>abh_lock\<close> enters \<open>async with self._condition\<close> and
  \<open>abh_wait\<close> is \<open>await self._condition.wait()\<close>: both are suspension points where other tasks run and
  where the task may be cancelled. The timer of \<open>asyncio.timeout\<close> ends the wait loop by cancelling
  the task; entering and leaving the scope are no suspension points.
\<close>

record 's async_bulkhead = "'s bulkhead_core" +
  abh_lock :: "('s, exn, unit) act"
  abh_wait :: "('s, exn, unit) act"
  abh_timer :: "'s timer"
  abh_binding :: "'s loop_binding"

definition async_bulkhead_init ::
  "('s \<Rightarrow> bulkhead_data) \<Rightarrow> (bulkhead_data \<Rightarrow> 's \<Rightarrow> 's) \<Rightarrow> ('s, exn, unit) act \<Rightarrow> ('s, exn, unit) act
   \<Rightarrow> 's timer \<Rightarrow> 's loop_binding \<Rightarrow> pyval \<Rightarrow> pyval \<Rightarrow> pyval
   \<Rightarrow> (policy_event \<Rightarrow> ('s, exn, unit) act) callback option
   \<Rightarrow> exn + 's async_bulkhead \<times> bulkhead_data" where
  "async_bulkhead_init get_data put_data lock wait timer binding name max_concurrency max_wait observer =
     ebind (validate_name name ''name'') (\<lambda>nm.
     ebind (positive_int max_concurrency ''max_concurrency'') (\<lambda>mc.
     ebind (finite_non_negative max_wait ''max_wait'') (\<lambda>mw.
     ebind (validate_optional_callable observer ''observer'') (\<lambda>ob.
     Inr (\<lparr>bh_name = nm, bh_max_concurrency = mc, bh_max_wait = mw, bh_observer = ob,
           bh_get = get_data, bh_put = put_data, abh_lock = lock, abh_wait = wait,
           abh_timer = timer, abh_binding = binding\<rparr>,
          \<lparr>bd_in_flight = 0, bd_waiters = 0\<rparr>)))))"

definition async_bulkhead_bind_loop :: "'s async_bulkhead \<Rightarrow> ('s, exn, unit) act" where
  "async_bulkhead_bind_loop self =
     bind_loop (abh_binding self) ''async bulkhead is bound to another event loop''"

definition async_bulkhead_snapshot :: "'s async_bulkhead \<Rightarrow> ('s, exn, bulkhead_snapshot) act" where
  "async_bulkhead_snapshot self =
     act_then (async_bulkhead_bind_loop self) (act_then (abh_lock self) (bulkhead_snap self))"

partial_function (option) async_bulkhead_wait_loop ::
  "'s async_bulkhead \<Rightarrow> 's \<Rightarrow> ((exn + unit) \<times> 's) option" where
  "async_bulkhead_wait_loop self s =
     act_bind (bulkhead_full self) (\<lambda>full.
       if \<not> full then return ()
       else act_then (abh_wait self) (async_bulkhead_wait_loop self)) s"

text \<open>The \<open>try ... except TimeoutError\<close> in it: whether a slot became free in time.\<close>

definition async_bulkhead_wait_slot :: "'s async_bulkhead \<Rightarrow> ('s, exn, bool) act" where
  "async_bulkhead_wait_slot self =
     try_else (timeout_scope (abh_timer self) (bh_max_wait self) (async_bulkhead_wait_loop self))
       (\<lambda>e. if is_timeout_error e then return False else raise e)
       (\<lambda>_. return True)"

definition async_bulkhead_acquire :: "'s async_bulkhead \<Rightarrow> ('s, exn, bulkhead_snapshot option) act" where
  "async_bulkhead_acquire self =
     act_then (abh_lock self)
     (act_bind (bulkhead_full self) (\<lambda>full.
       if \<not> full then bulkhead_take self
       else if bh_max_wait self = Finite 0 then return None
       else
         act_then (bulkhead_update self (\<lambda>d. d\<lparr>bd_waiters := bd_waiters d + 1\<rparr>))
         (act_bind
           (try_finally (async_bulkhead_wait_slot self)
             (bulkhead_update self (\<lambda>d. d\<lparr>bd_waiters := bd_waiters d - 1\<rparr>)))
           (\<lambda>free. if free then bulkhead_take self else return None))))"

definition async_bulkhead_release :: "'s async_bulkhead \<Rightarrow> ('s, exn, bulkhead_snapshot) act" where
  "async_bulkhead_release self = act_then (abh_lock self) (bulkhead_release self)"

definition async_bulkhead_release_preserving ::
  "'s async_bulkhead \<Rightarrow> ('s, exn, bulkhead_snapshot \<times> bool) act" where
  "async_bulkhead_release_preserving self = preserving_cancellation (async_bulkhead_release self) False"

text \<open>\<open>released, cancelled = await ...; if cancelled: raise CancelledError; _emit(...)\<close>.\<close>

definition async_bulkhead_finish ::
  "'s async_bulkhead \<Rightarrow> event_kind \<Rightarrow> policy_outcome \<Rightarrow> failure_category_t \<Rightarrow> ('s, exn, unit) act" where
  "async_bulkhead_finish self kind outcome category =
     act_bind (async_bulkhead_release_preserving self) (\<lambda>(released, cancelled).
       if cancelled then raise CancelledError
       else bulkhead_emit self kind (Some outcome) category released)"

definition async_bulkhead_call :: "'s async_bulkhead \<Rightarrow> ('s, 'r) operation \<Rightarrow> ('s, exn, 'r) act" where
  "async_bulkhead_call self operation =
     act_then (lift (validate_operation operation))
     (act_then (lift (ensure_async_operation operation))
     (act_then (async_bulkhead_bind_loop self)
     (act_bind (async_bulkhead_acquire self) (\<lambda>acquired.
        case acquired of
          None \<Rightarrow>
            act_bind (async_bulkhead_snapshot self) (\<lambda>rejected.
            act_then (bulkhead_emit self REJECTED (Some REJECTION) CAT_BULKHEAD_REJECTED rejected)
            (raise (BulkheadRejectedError (bh_name self))))
        | Some snapshot \<Rightarrow>
            act_then
              (try_except (bulkhead_emit self ADMITTED None CAT_NONE snapshot)
                (give_back_and_raise (async_bulkhead_release self)))
              (try_else (op_run operation)
                (\<lambda>error.
                   if is_exception error
                   then act_then (async_bulkhead_finish self FAILED FAILURE (failure_category error))
                          (raise error)
                   else give_back_and_raise (async_bulkhead_release self) error)
                (\<lambda>result. act_then (async_bulkhead_finish self SUCCEEDED SUCCESS CAT_NONE)
                   (return result)))))))"

definition async_bulkhead_decorate ::
  "'s async_bulkhead \<Rightarrow> ('s, 'r) operation \<Rightarrow> exn + ('s, 'r) operation" where
  "async_bulkhead_decorate self operation =
     ebind (validate_operation operation) (\<lambda>_.
     ebind (ensure_async_operation operation) (\<lambda>_. Inr (wrapped_async (async_bulkhead_call self operation))))"

section \<open>Triples\<close>

definition async_bulk_env ::
  "bool \<Rightarrow> 's async_bulkhead \<Rightarrow> ('s \<Rightarrow> int \<times> int) \<Rightarrow> ('s \<Rightarrow> nat) \<Rightarrow> ('s \<Rightarrow> nat) \<Rightarrow> bool" where
  "async_bulk_env b self oth cnt wakes \<longleftrightarrow>
     bulk_core_env b self oth
     \<and> (\<forall>k w. keeps b (bulk_holds self oth k w) (abh_lock self)
            \<and> keeps b (bulk_holds self oth k w) (abh_wait self)
            \<and> keeps_binding (abh_binding self) (bulk_holds self oth k w))
     \<and> (\<forall>I t. (\<forall>s s'. bh_get self s' = bh_get self s \<and> oth s' = oth s \<longrightarrow> I s = I s') \<longrightarrow>
            keeps b I (tm_enter (abh_timer self) t) \<and> keeps b I (tm_exit (abh_timer self)))
     \<and> (\<forall>s e s'. abh_lock self s = Some (Inl e, s') \<longrightarrow> e = CancelledError \<and> cnt s' < cnt s)
     \<and> (\<forall>s s'. abh_wait self s = Some (Inr (), s') \<longrightarrow> wakes s' < wakes s)"

lemma async_bulk_envD:
  assumes "async_bulk_env b self oth cnt wakes"
  shows "bulk_core_env b self oth" "keeps b (bulk_holds self oth k w) (abh_lock self)"
    "keeps b (bulk_holds self oth k w) (abh_wait self)"
    "keeps b (bulk_holds self oth k w) (async_bulkhead_bind_loop self)"
    "abh_lock self s = Some (Inl e, s') \<Longrightarrow> e = CancelledError \<and> cnt s' < cnt s"
    "abh_wait self s = Some (Inr (), s') \<Longrightarrow> wakes s' < wakes s"
  using assms unfolding async_bulk_env_def async_bulkhead_bind_loop_def
  by (blast intro: keeps_bind_loop)+

lemma async_bulk_timer:
  assumes "async_bulk_env b self oth cnt wakes"
  shows "keeps b (bulk_holds self oth k w) (tm_enter (abh_timer self) t)"
    "keeps b (bulk_holds self oth k w) (tm_exit (abh_timer self))"
    "keeps b (got_slot self oth k w free) (tm_exit (abh_timer self))"
  using assms unfolding async_bulk_env_def
  by (auto simp: bulk_holds_def [abs_def] got_slot_def [abs_def])

lemma async_bulk_env_partial: "async_bulk_env b self oth cnt wakes \<Longrightarrow> async_bulk_env False self oth cnt wakes"
  unfolding async_bulk_env_def bulk_core_env_def using keeps_partial by metis

lemma async_wait_loop_ends:
  assumes env: "async_bulk_env True self oth cnt wakes" and "bulk_holds self oth k w s"
  shows "async_bulkhead_wait_loop self s \<noteq> None"
  using assms(2)
proof (induction "wakes s" arbitrary: s rule: less_induct)
  case less
  note wait = async_bulk_envD(3) [OF env, of k w]
  obtain r s' where r: "abh_wait self s = Some (r, s')" using keeps_ends [OF wait less(2)] by blast
  have "async_bulkhead_wait_loop self s' \<noteq> None" if "r = Inr ()"
    using less(1) [OF async_bulk_envD(6) [OF env]] keepsD [OF wait less(2)] r that by blast
  then show ?case
    using r by (subst async_bulkhead_wait_loop.simps)
      (auto simp: act_simps bulkhead_full_def split: sum.splits)
qed

lemma hoare_async_wait_body:
  assumes wait: "keeps b (bulk_holds self oth k w) (abh_wait self)"
    and rec: "hoare b (bulk_holds self oth k w) rec (\<lambda>_. got_slot self oth k w True) (\<lambda>_. bulk_holds self oth k w)"
  shows "hoare b (bulk_holds self oth k w)
     (act_bind (bulkhead_full self) (\<lambda>full. if \<not> full then return () else act_then (abh_wait self) rec))
     (\<lambda>_. got_slot self oth k w True) (\<lambda>_. bulk_holds self oth k w)"
  by (rule hoare_bind [OF hoare_bulkhead_full], rule hoare_if)
    (rule hoare_pre [OF hoare_return], simp add: got_slot_def,
      rule hoare_pre [OF hoare_then [OF keeps_hoare [OF wait] rec]], simp)

lemma hoare_async_wait_loop:
  assumes env: "async_bulk_env b self oth cnt wakes"
  shows "hoare b (bulk_holds self oth k w) (async_bulkhead_wait_loop self)
    (\<lambda>_. got_slot self oth k w True) (\<lambda>_. bulk_holds self oth k w)"
proof (rule hoare_total)
  show "hoare False (bulk_holds self oth k w) (async_bulkhead_wait_loop self)
    (\<lambda>_. got_slot self oth k w True) (\<lambda>_. bulk_holds self oth k w)"
  proof (rule hoare_partialI)
    fix s y
    assume "async_bulkhead_wait_loop self s = Some y"
    then show "bulk_holds self oth k w s \<Longrightarrow> (case fst y of Inl e \<Rightarrow> bulk_holds self oth k w (snd y)
      | Inr x \<Rightarrow> got_slot self oth k w True (snd y))"
      using keeps_partial [OF async_bulk_envD(3) [OF env]]
    proof (induction rule: async_bulkhead_wait_loop.raw_induct [rotated, consumes 1])
      case (1 f self s y)
      have "hoare False (bulk_holds self oth k w) (f self) (\<lambda>_. got_slot self oth k w True)
          (\<lambda>_. bulk_holds self oth k w)"
        using 1 by (intro hoare_partialI) blast
      from hoare_async_wait_body [OF 1(4) this] show ?case using 1(2,3) by (rule hoare_partialD)
    qed
  qed
  show "async_bulkhead_wait_loop self s \<noteq> None" if b "bulk_holds self oth k w s" for s
    using async_wait_loop_ends [OF _ that(2)] env that(1) by simp
qed

lemma hoare_async_wait_slot:
  assumes env: "async_bulk_env b self oth cnt wakes"
  shows "hoare b (bulk_holds self oth k w) (async_bulkhead_wait_slot self)
    (got_slot self oth k w) (\<lambda>_. bulk_holds self oth k w)"
proof -
  note timer = async_bulk_timer [OF env]
  have scope: "hoare b (bulk_holds self oth k w)
     (timeout_scope (abh_timer self) t (async_bulkhead_wait_loop self))
     (\<lambda>_. got_slot self oth k w True) (\<lambda>_. bulk_holds self oth k w)" for t
    unfolding timeout_scope_def
  proof (intro hoare_then [OF keeps_hoare [OF timer(1)]] hoare_try_else [OF hoare_async_wait_loop [OF env]])
    show "hoare b (bulk_holds self oth k w) (act_bind (tm_exit (abh_timer self)) (\<lambda>(expiring, only).
        if expiring \<and> only \<and> e = CancelledError then raise TimeoutError else raise e))
      (\<lambda>_. got_slot self oth k w True) (\<lambda>_. bulk_holds self oth k w)" for e
      by (rule hoare_bind [OF keeps_hoare [OF timer(2)]]) (auto split: prod.split intro: hoare_raise)
    show "hoare b (got_slot self oth k w True) (act_then (tm_exit (abh_timer self)) (return x))
      (\<lambda>_. got_slot self oth k w True) (\<lambda>_. bulk_holds self oth k w)" for x :: unit
      by (rule hoare_weaken [OF keeps_hoare [OF keeps_then [OF timer(3) [of k w True] keeps_return]]])
        (auto simp: got_slot_def)
  qed
  show ?thesis
    unfolding async_bulkhead_wait_slot_def
    by (rule hoare_try_else [OF scope]; (rule hoare_if)?)
      (auto simp: got_slot_def intro: hoare_pre [OF hoare_return] hoare_raise hoare_return)
qed

lemma hoare_async_acquire:
  assumes env: "async_bulk_env b self oth cnt wakes" and "0 \<le> w"
  shows "hoare b (bulk_holds self oth k w) (async_bulkhead_acquire self)
     (\<lambda>r. bulk_holds self oth (slots r k) w) (\<lambda>_. bulk_holds self oth k w)"
proof -
  note core = async_bulk_envD(1) [OF env]
  have up: "hoare b (bulk_holds self oth k w)
      (bulkhead_update self (\<lambda>d. d\<lparr>bd_waiters := bd_waiters d + 1\<rparr>))
      (\<lambda>_. bulk_holds self oth k (w + 1)) (\<lambda>_. bulk_holds self oth k w)"
    using hoare_bulkhead_waiters [OF core, where n = 1 and w = w] assms(2) by simp
  have queue: "hoare b (bulk_holds self oth k (w + 1))
      (try_finally (async_bulkhead_wait_slot self)
        (bulkhead_update self (\<lambda>d. d\<lparr>bd_waiters := bd_waiters d - 1\<rparr>)))
      (got_slot self oth k w) (\<lambda>_. bulk_holds self oth k w)"
    by (rule hoare_try_finally [OF hoare_async_wait_slot [OF env] hoare_waiters_down(2) [OF core assms(2)]
          hoare_waiters_down(1) [OF core assms(2)]])
  note free = hoare_take_or_none [OF core, of k w True, simplified]
    and none = hoare_take_or_none [OF core, of k w False, simplified]
  show ?thesis
    unfolding async_bulkhead_acquire_def
    by (intro hoare_then [OF keeps_hoare [OF async_bulk_envD(2) [OF env]]]
        hoare_bind [OF hoare_bulkhead_full] hoare_if;
        (rule hoare_pre [OF free] hoare_pre [OF none]
          hoare_pre [OF hoare_then [OF up hoare_bind [OF queue hoare_take_or_none [OF core]]]]);
        simp add: got_slot_def)
qed

lemma hoare_async_bulkhead_release:
  assumes env: "async_bulk_env b self oth cnt wakes" and "0 \<le> k"
  shows "hoare b (bulk_holds self oth (k + 1) w) (async_bulkhead_release self)
    (\<lambda>_. bulk_holds self oth k w) (\<lambda>e s. e = CancelledError \<and> bulk_holds self oth (k + 1) w s)"
proof -
  have "hoare b (bulk_holds self oth (k + 1) w) (abh_lock self) (\<lambda>_. bulk_holds self oth (k + 1) w)
      (\<lambda>e s. e = CancelledError \<and> bulk_holds self oth (k + 1) w s)"
    using async_bulk_envD [OF env] by (intro hoareI) (blast dest: keepsD keeps_noneD)+
  then show ?thesis
    unfolding async_bulkhead_release_def
    by (rule hoare_then) (rule hoare_bulkhead_release [OF async_bulk_envD(1) [OF env] assms(2)])
qed

lemma async_bulkhead_release_finitely:
  assumes "async_bulk_env b self oth cnt wakes"
  shows "finitely_cancelled (async_bulkhead_release self) cnt"
  using async_bulk_envD(5) [OF assms]
  by (auto simp: finitely_cancelled_def async_bulkhead_release_def bulkhead_release_def
      bulkhead_update_def bulkhead_snap_def act_simps split: option.splits sum.splits)

lemmas hoare_async_bulkhead_give_back =
  hoare_give_back [OF hoare_async_bulkhead_release async_bulkhead_release_finitely]

lemmas hoare_async_bulkhead_preserving =
  hoare_preserving [OF hoare_async_bulkhead_release async_bulkhead_release_finitely, where c = False,
    folded async_bulkhead_release_preserving_def]

lemma hoare_async_bulkhead_finish:
  assumes env: "async_bulk_env b self oth cnt wakes" and "0 \<le> k"
  shows "hoare b (bulk_holds self oth (k + 1) w) (async_bulkhead_finish self kd oc ct)
    (\<lambda>_. bulk_holds self oth k w) (\<lambda>_. bulk_holds self oth k w)"
  unfolding async_bulkhead_finish_def
  by (rule hoare_bind [OF hoare_async_bulkhead_preserving [OF env assms(2) env]])
    (auto split: prod.split intro: hoare_raise keeps_hoare bulk_coreD(3) async_bulk_envD(1) [OF env])

lemma keeps_async_bulkhead_call:
  assumes env: "async_bulk_env b self oth cnt wakes"
    and op: "\<And>k w. keeps b (bulk_holds self oth k w) (op_run operation)" and nn: "0 \<le> k" "0 \<le> w"
  shows "keeps b (bulk_holds self oth k w) (async_bulkhead_call self operation)"
proof -
  note core = async_bulk_envD(1) [OF env]
  note give_up = hoare_async_bulkhead_give_back [OF env nn(1) env]
    and finish = hoare_async_bulkhead_finish [OF env nn(1)]
  have snap: "keeps b (bulk_holds self oth k w) (async_bulkhead_snapshot self)"
    unfolding async_bulkhead_snapshot_def
    by (intro keeps_then keeps_bulkhead_reads async_bulk_envD [OF env])
  have run: "hoare b (bulk_holds self oth (k + 1) w)
      (act_then
         (try_except (bulkhead_emit self ADMITTED None CAT_NONE sn)
           (give_back_and_raise (async_bulkhead_release self)))
         (try_else (op_run operation)
           (\<lambda>error.
              if is_exception error
              then act_then (async_bulkhead_finish self FAILED FAILURE (failure_category error)) (raise error)
              else give_back_and_raise (async_bulkhead_release self) error)
           (\<lambda>result. act_then (async_bulkhead_finish self SUCCEEDED SUCCESS CAT_NONE) (return result))))
      (\<lambda>_. bulk_holds self oth k w) (\<lambda>_. bulk_holds self oth k w)" for sn
    by (intro hoare_then [OF hoare_try_except [OF keeps_hoare [OF bulk_coreD(3) [OF core]] give_up]]
        hoare_try_else [OF keeps_hoare [OF op]] hoare_if give_up
        hoare_then [OF finish] keeps_hoare keeps_raise keeps_return)
  show ?thesis
    unfolding async_bulkhead_call_def keeps_def
  proof (intro hoare_then [OF keeps_hoare [OF keeps_lift]]
      hoare_then [OF keeps_hoare [OF async_bulk_envD(4) [OF env]]]
      hoare_bind [OF hoare_async_acquire [OF env nn(2)]])
    fix r
    show "hoare b (bulk_holds self oth (slots r k) w)
      (case r of
          None \<Rightarrow>
            act_bind (async_bulkhead_snapshot self) (\<lambda>rejected.
            act_then (bulkhead_emit self REJECTED (Some REJECTION) CAT_BULKHEAD_REJECTED rejected)
            (raise (BulkheadRejectedError (bh_name self))))
        | Some snapshot \<Rightarrow>
            act_then
              (try_except (bulkhead_emit self ADMITTED None CAT_NONE snapshot)
                (give_back_and_raise (async_bulkhead_release self)))
              (try_else (op_run operation)
                (\<lambda>error.
                   if is_exception error
                   then act_then (async_bulkhead_finish self FAILED FAILURE (failure_category error))
                          (raise error)
                   else give_back_and_raise (async_bulkhead_release self) error)
                (\<lambda>result. act_then (async_bulkhead_finish self SUCCEEDED SUCCESS CAT_NONE)
                   (return result))))
      (\<lambda>_. bulk_holds self oth k w) (\<lambda>_. bulk_holds self oth k w)"
      by (cases r; simp add: slots_def run)
        (intro keeps_hoare keeps_bind snap keeps_then bulk_coreD(3) core keeps_raise)
  qed
qed

section \<open>Properties\<close>

text \<open>the asynchronous bulkhead never leaks a slot or a queue place, also when the task is
  cancelled while it waits, while it runs the operation, or any number of times while it gives the
  slot back. If the caller's code and the other tasks keep the counters and end, and there are
  finitely many cancellations and wake-ups, then a call ends, and the task holds as many slots and
  places as before, with the slots in use within the limit.\<close>

theorem async_bulkhead_call_no_leak:
  assumes "async_bulk_env True self oth cnt wakes"
    and "\<And>k w. keeps True (bulk_holds self oth k w) (op_run operation)"
    and "bulk_holds self oth k w s"
  shows "\<exists>res s'. async_bulkhead_call self operation s = Some (res, s') \<and> bulk_holds self oth k w s'"
proof -
  have nn: "0 \<le> k" "0 \<le> w" using assms(3) by (simp_all add: bulk_holds_def)
  have c: "keeps True (bulk_holds self oth k w) (async_bulkhead_call self operation)"
    by (rule keeps_async_bulkhead_call [OF assms(1,2) nn])
  show ?thesis using keeps_ends [OF c assms(3)] keepsD [OF c assms(3)] by blast
qed

text \<open>A bulkhead whose lock cancels the task as often as the second component of the state says, and
  whose timer fires in the first wait.\<close>

definition cancelling_bulkhead :: "(bulkhead_data \<times> nat) async_bulkhead" where
  "cancelling_bulkhead =
     \<lparr>bh_name = [98], bh_max_concurrency = 1, bh_max_wait = Finite 1, bh_observer = None,
      bh_get = fst, bh_put = (\<lambda>d s. (d, snd s)),
      abh_lock = (\<lambda>(d, n). if n = 0 then Some (Inr (), (d, 0)) else Some (Inl CancelledError, (d, n - 1))),
      abh_wait = raise CancelledError,
      abh_timer = \<lparr>tm_enter = (\<lambda>_. return ()), tm_exit = return (True, True), tm_expired = (\<lambda>_. True)\<rparr>,
      abh_binding = \<lparr>lb_get = (\<lambda>_. Some 1), lb_put = (\<lambda>_ s. s), lb_running = (\<lambda>_. 1)\<rparr>\<rparr>"

lemma cancelling_bulkhead_env: "async_bulk_env True cancelling_bulkhead (\<lambda>_. (0, 0)) snd (\<lambda>_. 0)"
proof -
  have "keeps True (bulk_holds cancelling_bulkhead (\<lambda>_. (0, 0)) k w) (abh_lock cancelling_bulkhead)" for k w
    by (rule keepsI) (auto simp: cancelling_bulkhead_def bulk_holds_def split: if_splits)
  then show ?thesis
    by (auto simp: async_bulk_env_def bulk_core_env_def cancelling_bulkhead_def keeps_binding_def
        act_simps intro!: keeps_return keeps_raise split: if_splits)
qed

theorem async_bulkhead_call_no_leak_witness:
  "\<exists>res s'. async_bulkhead_call cancelling_bulkhead
     \<lparr>op_callable = True, op_kinds = [CoroutineFunction],
      op_run = (\<lambda>(d, n). Some (Inl (UserException 1), (d, 3))) :: (bulkhead_data \<times> nat, exn, unit) act\<rparr>
     (\<lparr>bd_in_flight = 0, bd_waiters = 0\<rparr>, 0) = Some (res, s')
     \<and> fst s' = \<lparr>bd_in_flight = 0, bd_waiters = 0\<rparr>"
proof -
  let ?op = "\<lparr>op_callable = True, op_kinds = [CoroutineFunction],
      op_run = (\<lambda>(d, n). Some (Inl (UserException 1), (d, 3))) :: (bulkhead_data \<times> nat, exn, unit) act\<rparr>"
  have op: "keeps True (bulk_holds cancelling_bulkhead (\<lambda>_. (0, 0)) k w) (op_run ?op)" for k w
    by (rule keepsI) (auto simp: bulk_holds_def cancelling_bulkhead_def)
  have "bulk_holds cancelling_bulkhead (\<lambda>_. (0, 0)) 0 0 (\<lparr>bd_in_flight = 0, bd_waiters = 0\<rparr>, 0)"
    by (simp add: bulk_holds_def cancelling_bulkhead_def)
  from async_bulkhead_call_no_leak [OF cancelling_bulkhead_env op this]
  show ?thesis by (auto simp: bulk_holds_def cancelling_bulkhead_def intro: bulkhead_data.equality)
qed

end
