(* ===== verification/Pipeline.thy ===== *)
theory Pipeline
  imports Retry Async_Circuit Async_Bulkhead
begin

text \<open>
  \<open>bluetape.resilience._timeout\<close> (\<open>AsyncTimeout\<close>) and \<open>bluetape.resilience._pipeline\<close>: the immutable
  pipelines that wrap an operation in the policies they were given, the last one outermost.

  \<open>policy_contract\<close> is the interface between a pipeline and its policies: a policy accepts every
  callable that passes the check, and its call keeps a family of state properties that the wrapped
  operation keeps. It is interpreted for the synchronous and for the asynchronous policies.
\<close>

section \<open>\<open>AsyncTimeout\<close>\<close>

record 's async_timeout =
  at_name :: pystr
  at_timeout :: pyfloat
  at_observer :: "'s observer"
  at_timer :: "'s timer"

definition async_timeout_init ::
  "'s timer \<Rightarrow> pyval \<Rightarrow> pyval \<Rightarrow> (policy_event \<Rightarrow> ('s, exn, unit) act) callback option
   \<Rightarrow> exn + 's async_timeout" where
  "async_timeout_init timer name timeout observer =
     ebind (validate_name name ''name'') (\<lambda>nm.
     ebind (finite_positive timeout ''timeout'') (\<lambda>t.
     ebind (validate_optional_callable observer ''observer'') (\<lambda>ob.
     Inr \<lparr>at_name = nm, at_timeout = t, at_observer = ob, at_timer = timer\<rparr>)))"

definition async_timeout_event ::
  "'s async_timeout \<Rightarrow> event_kind \<Rightarrow> policy_outcome \<Rightarrow> failure_category_t \<Rightarrow> policy_event" where
  "async_timeout_event self kind outcome category =
     \<lparr>ev_policy_name = at_name self, ev_policy_type = TIMEOUT, ev_kind = kind,
      ev_outcome = Some outcome, ev_failure_category = category, ev_attempt = None, ev_delay = None,
      ev_timeout = Some (at_timeout self), ev_state = None, ev_previous_state = None,
      ev_in_flight = None, ev_waiters = None\<rparr>"

definition async_timeout_failed :: "'s async_timeout \<Rightarrow> exn \<Rightarrow> ('s, exn, 'r) act" where
  "async_timeout_failed self error =
     act_then (emit (at_observer self) (async_timeout_event self FAILED FAILURE (failure_category error)))
       (raise error)"

definition async_timeout_call :: "'s async_timeout \<Rightarrow> ('s, 'r) operation \<Rightarrow> ('s, exn, 'r) act" where
  "async_timeout_call self operation =
     act_then (lift (validate_operation operation))
     (act_then (lift (ensure_async_operation operation))
     (try_else (timeout_scope (at_timer self) (at_timeout self) (op_run operation))
       (\<lambda>error.
          if error = CancelledError then raise error
          else if is_timeout_error error
          then act_bind (gets (tm_expired (at_timer self))) (\<lambda>expired.
                 if expired
                 then act_then (emit (at_observer self) (async_timeout_event self TIMED_OUT FAILURE CAT_TIMEOUT))
                        (raise (PolicyTimeoutError (at_name self) (at_timeout self)))
                 else async_timeout_failed self error)
          else if is_exception error then async_timeout_failed self error
          else raise error)
       (\<lambda>result.
          act_then (emit (at_observer self) (async_timeout_event self SUCCEEDED SUCCESS CAT_NONE))
            (return result))))"

definition async_timeout_decorate ::
  "'s async_timeout \<Rightarrow> ('s, 'r) operation \<Rightarrow> exn + ('s, 'r) operation" where
  "async_timeout_decorate self operation =
     ebind (validate_operation operation) (\<lambda>_.
     ebind (ensure_async_operation operation) (\<lambda>_. Inr (wrapped_async (async_timeout_call self operation))))"

section \<open>\<open>ResiliencePipeline\<close>\<close>

datatype 's sync_policy =
    RetryPolicy "'s retry" | CircuitPolicy "'s circuit_breaker" | BulkheadPolicy "'s bulkhead"

type_synonym 's pipeline = "'s sync_policy list"

definition pipeline_init :: "'s pipeline" where
  "pipeline_init = []"

text \<open>The argument of the \<open>with_\<close> methods is \<open>None\<close> when it is not a policy at all.\<close>

definition with_retry :: "'s pipeline \<Rightarrow> 's sync_policy option \<Rightarrow> exn + 's pipeline" where
  "with_retry self policy =
     (case policy of Some (RetryPolicy r) \<Rightarrow> Inr (self @ [RetryPolicy r])
      | _ \<Rightarrow> Inl (TypeError ''policy must be Retry''))"

definition with_circuit_breaker :: "'s pipeline \<Rightarrow> 's sync_policy option \<Rightarrow> exn + 's pipeline" where
  "with_circuit_breaker self policy =
     (case policy of Some (CircuitPolicy c) \<Rightarrow> Inr (self @ [CircuitPolicy c])
      | _ \<Rightarrow> Inl (TypeError ''policy must be CircuitBreaker''))"

definition with_bulkhead :: "'s pipeline \<Rightarrow> 's sync_policy option \<Rightarrow> exn + 's pipeline" where
  "with_bulkhead self policy =
     (case policy of Some (BulkheadPolicy h) \<Rightarrow> Inr (self @ [BulkheadPolicy h])
      | _ \<Rightarrow> Inl (TypeError ''policy must be Bulkhead''))"

fun sync_policy_decorate :: "'s sync_policy \<Rightarrow> ('s, 'r) sync_op \<Rightarrow> exn + ('s, 'r) sync_op" where
  "sync_policy_decorate (RetryPolicy r) operation = retry_decorate r operation"
| "sync_policy_decorate (CircuitPolicy c) operation = circuit_decorate c operation"
| "sync_policy_decorate (BulkheadPolicy h) operation = bulkhead_decorate h operation"

fun sync_policy_call :: "'s sync_policy \<Rightarrow> ('s, 'r) sync_op \<Rightarrow> ('s, exn, 'r) act" where
  "sync_policy_call (RetryPolicy r) operation = retry_call r operation"
| "sync_policy_call (CircuitPolicy c) operation = circuit_call c operation"
| "sync_policy_call (BulkheadPolicy h) operation = bulkhead_call h operation"

text \<open>\<open>for policy in self._policies: wrapped = policy(wrapped)\<close>.\<close>

fun apply_policies :: "('p \<Rightarrow> 'o \<Rightarrow> exn + 'o) \<Rightarrow> 'p list \<Rightarrow> 'o \<Rightarrow> exn + 'o" where
  "apply_policies decorate [] wrapped = Inr wrapped"
| "apply_policies decorate (policy # policies) wrapped =
     ebind (decorate policy wrapped) (apply_policies decorate policies)"

definition pipeline_call :: "'s pipeline \<Rightarrow> ('s, 'r) sync_op \<Rightarrow> ('s, exn, 'r) act" where
  "pipeline_call self operation =
     act_then (lift (ensure_sync_operation operation))
     (act_bind (lift (apply_policies sync_policy_decorate self operation)) (\<lambda>wrapped.
      act_bind (op_run wrapped) ensure_sync_result))"

definition pipeline_decorate :: "'s pipeline \<Rightarrow> ('s, 'r) sync_op \<Rightarrow> exn + ('s, 'r) sync_op" where
  "pipeline_decorate self operation =
     ebind (ensure_sync_operation operation) (\<lambda>_. Inr (wrapped_sync (pipeline_call self operation)))"

section \<open>\<open>AsyncResiliencePipeline\<close>\<close>

datatype 's async_policy =
    AsyncRetryPolicy "'s retry" | AsyncCircuitPolicy "'s async_circuit_breaker"
  | AsyncBulkheadPolicy "'s async_bulkhead" | AsyncTimeoutPolicy "'s async_timeout"

type_synonym 's async_pipeline = "'s async_policy list"

definition async_pipeline_init :: "'s async_pipeline" where
  "async_pipeline_init = []"

definition async_with_retry :: "'s async_pipeline \<Rightarrow> 's async_policy option \<Rightarrow> exn + 's async_pipeline" where
  "async_with_retry self policy =
     (case policy of Some (AsyncRetryPolicy r) \<Rightarrow> Inr (self @ [AsyncRetryPolicy r])
      | _ \<Rightarrow> Inl (TypeError ''policy must be AsyncRetry''))"

definition async_with_circuit_breaker ::
  "'s async_pipeline \<Rightarrow> 's async_policy option \<Rightarrow> exn + 's async_pipeline" where
  "async_with_circuit_breaker self policy =
     (case policy of Some (AsyncCircuitPolicy c) \<Rightarrow> Inr (self @ [AsyncCircuitPolicy c])
      | _ \<Rightarrow> Inl (TypeError ''policy must be AsyncCircuitBreaker''))"

definition async_with_bulkhead :: "'s async_pipeline \<Rightarrow> 's async_policy option \<Rightarrow> exn + 's async_pipeline" where
  "async_with_bulkhead self policy =
     (case policy of Some (AsyncBulkheadPolicy h) \<Rightarrow> Inr (self @ [AsyncBulkheadPolicy h])
      | _ \<Rightarrow> Inl (TypeError ''policy must be AsyncBulkhead''))"

definition async_with_timeout :: "'s async_pipeline \<Rightarrow> 's async_policy option \<Rightarrow> exn + 's async_pipeline" where
  "async_with_timeout self policy =
     (case policy of Some (AsyncTimeoutPolicy t) \<Rightarrow> Inr (self @ [AsyncTimeoutPolicy t])
      | _ \<Rightarrow> Inl (TypeError ''policy must be AsyncTimeout''))"

fun async_policy_decorate :: "'s async_policy \<Rightarrow> ('s, 'r) operation \<Rightarrow> exn + ('s, 'r) operation" where
  "async_policy_decorate (AsyncRetryPolicy r) operation = async_retry_decorate r operation"
| "async_policy_decorate (AsyncCircuitPolicy c) operation = async_circuit_decorate c operation"
| "async_policy_decorate (AsyncBulkheadPolicy h) operation = async_bulkhead_decorate h operation"
| "async_policy_decorate (AsyncTimeoutPolicy t) operation = async_timeout_decorate t operation"

fun async_policy_call :: "'s async_policy \<Rightarrow> ('s, 'r) operation \<Rightarrow> ('s, exn, 'r) act" where
  "async_policy_call (AsyncRetryPolicy r) operation = async_retry_call r operation"
| "async_policy_call (AsyncCircuitPolicy c) operation = async_circuit_call c operation"
| "async_policy_call (AsyncBulkheadPolicy h) operation = async_bulkhead_call h operation"
| "async_policy_call (AsyncTimeoutPolicy t) operation = async_timeout_call t operation"

definition async_pipeline_call :: "'s async_pipeline \<Rightarrow> ('s, 'r) operation \<Rightarrow> ('s, exn, 'r) act" where
  "async_pipeline_call self operation =
     act_then (lift (ensure_async_operation operation))
     (act_bind (lift (apply_policies async_policy_decorate self operation)) op_run)"

definition async_pipeline_decorate ::
  "'s async_pipeline \<Rightarrow> ('s, 'r) operation \<Rightarrow> exn + ('s, 'r) operation" where
  "async_pipeline_decorate self operation =
     ebind (ensure_async_operation operation) (\<lambda>_. Inr (wrapped_async (async_pipeline_call self operation)))"

section \<open>The contract of a policy\<close>

text \<open>
  \<open>accepts\<close> is the check of an operation, \<open>run\<close> what a pipeline does with the wrapped operation,
  \<open>safe\<close> that it keeps a property, and \<open>ok b F p\<close> that the policy \<open>p\<close> works with the family \<open>F\<close>.
\<close>

locale policy_contract =
  fixes decorate :: "'p \<Rightarrow> 'o \<Rightarrow> exn + 'o"
    and call :: "'p \<Rightarrow> 'o \<Rightarrow> ('s, exn, 'r) act"
    and wrap :: "('s, exn, 'r) act \<Rightarrow> 'o"
    and run :: "'o \<Rightarrow> ('s, exn, 'r) act"
    and accepts :: "'o \<Rightarrow> bool"
    and safe :: "bool \<Rightarrow> ('s \<Rightarrow> bool) \<Rightarrow> 'o \<Rightarrow> bool"
    and ok :: "bool \<Rightarrow> ('i \<Rightarrow> 's \<Rightarrow> bool) \<Rightarrow> 'p \<Rightarrow> bool"
  assumes decorate: "accepts m \<Longrightarrow> decorate p m = Inr (wrap (call p m))"
    and wrap_accepted: "accepts (wrap a)"
    and run_wrap: "run (wrap a) = a"
    and safe_wrap: "keeps b I a \<Longrightarrow> safe b I (wrap a)"
    and safe_run: "safe b I m \<Longrightarrow> keeps b I (run m)"
    and call_keeps: "ok b F p \<Longrightarrow> (\<And>i. safe b (F i) m) \<Longrightarrow> keeps b (F i) (call p m)"
begin

text \<open>Wrapping never fails, and the last policy is outermost.\<close>

lemma apply_snoc:
  "accepts m \<Longrightarrow> \<exists>w. accepts w \<and> apply_policies decorate ps m = Inr w
     \<and> apply_policies decorate (ps @ [p]) m = Inr (wrap (call p w))"
  by (induction ps arbitrary: m) (auto simp: decorate wrap_accepted)

lemma apply_accepts: "accepts m \<Longrightarrow> \<exists>w. accepts w \<and> apply_policies decorate ps m = Inr w"
  using apply_snoc by blast

lemma apply_keeps:
  "accepts m \<Longrightarrow> list_all (ok b F) ps \<Longrightarrow> (\<And>i. safe b (F i) m) \<Longrightarrow>
   apply_policies decorate ps m = Inr w \<Longrightarrow> keeps b (F i) (run w)"
proof (induction ps arbitrary: m)
  case Nil
  then show ?case by (auto intro: safe_run)
next
  case (Cons p ps)
  have "safe b (F i) (wrap (call p m))" for i
    by (rule safe_wrap) (use Cons.prems call_keeps in auto)
  then show ?case using Cons.IH [of "wrap (call p m)"] Cons.prems by (simp add: decorate wrap_accepted)
qed

end

section \<open>Policies keep what they do not own\<close>

text \<open>A policy that does not own a property \<open>I\<close> keeps it, if its own data is not part of \<open>I\<close>.\<close>

definition circuit_frame :: "bool \<Rightarrow> ('s \<Rightarrow> bool) \<Rightarrow> 's circuit_breaker \<Rightarrow> bool" where
  "circuit_frame b I self \<longleftrightarrow>
     (\<forall>d s. I s \<longrightarrow> I (cb_put self d s)) \<and> keeps b I (cb_clock self)
     \<and> (\<forall>f e. cb_failure_if self = Some f \<longrightarrow> keeps b I (f e))
     \<and> (\<forall>f ev. cb_observer self = Some f \<longrightarrow> keeps b I (f ev))"

definition bulkhead_frame :: "bool \<Rightarrow> ('s \<Rightarrow> bool) \<Rightarrow> ('s, 'z) bulkhead_core_scheme \<Rightarrow> bool" where
  "bulkhead_frame b I self \<longleftrightarrow>
     (\<forall>d s. I s \<longrightarrow> I (bh_put self d s)) \<and> (\<forall>f ev. bh_observer self = Some f \<longrightarrow> keeps b I (f ev))"

lemma circuit_frameD:
  assumes "circuit_frame b I self"
  shows "keeps b I (cb_locked self f)" "keeps b I (circuit_now self)" "keeps b I (emit (cb_observer self) ev)"
    "keeps b I (circuit_classify self e)" "keeps b I (circuit_emit_transition self sn tr)"
    "keeps b I (circuit_announcement self adm tr sn)"
proof -
  show "keeps b I (cb_locked self f)"
    using assms by (intro keepsI) (auto simp: circuit_frame_def cb_locked_def split: prod.splits)
  show o: "keeps b I (emit (cb_observer self) ev)" for ev
    using assms by (auto simp: circuit_frame_def intro!: keeps_emit)
  then show t: "keeps b I (circuit_emit_transition self sn tr)" for sn tr
    by (auto simp: circuit_emit_transition_def split: option.split intro: hoare_rules)
  show "keeps b I (circuit_announcement self adm tr sn)"
    unfolding circuit_announcement_def by (intro hoare_rules o t)
  show "keeps b I (circuit_now self)" "keeps b I (circuit_classify self e)"
    using assms by (auto simp: circuit_frame_def circuit_now_def circuit_classify_def
        split: option.split pyval.split intro!: hoare_rules)
qed

lemma keeps_circuit_call_frame:
  assumes fr: "circuit_frame b I self" and op: "safe_sync_op b I (op_run operation)"
  shows "keeps b I (circuit_call self operation)"
proof -
  note fr = circuit_frameD [OF fr]
  have rel: "keeps b I (circuit_release self a)" for a
    unfolding circuit_release_def by (rule fr)
  have guard: "keeps b I m \<Longrightarrow> keeps b I (circuit_guard self a m)" for a and m :: "('a, exn, 'z) act"
    unfolding circuit_guard_def by (intro hoare_rules rel)
  have err: "keeps b I (circuit_on_error self a e :: ('a, exn, 'b) act)" for a e
    unfolding circuit_on_error_def by (auto intro!: hoare_rules guard fr split: prod.split)
  have suc: "keeps b I (circuit_on_success self a r)" for a and r :: 'b
    unfolding circuit_on_success_def by (auto intro!: hoare_rules guard fr split: prod.split)
  have "keeps b I (circuit_execute self a (op_run operation))" for a
    unfolding circuit_execute_def by (intro hoare_rules keeps_safe_sync_op op rel err suc)
  moreover have "keeps b I (circuit_announce self adm tr sn)" for adm tr sn
    unfolding circuit_announce_def by (intro hoare_rules fr rel)
  ultimately show ?thesis
    unfolding circuit_call_def by (auto intro!: hoare_rules fr split: prod.split option.split)
qed

lemma bulkhead_frameD:
  assumes "bulkhead_frame b I self"
  shows "keeps b I (bulkhead_update self f)" "keeps b I (bulkhead_emit self kd oc ct sn)"
proof -
  show "keeps b I (bulkhead_update self f)"
    using assms by (intro keepsI) (auto simp: bulkhead_frame_def bulkhead_update_def act_simps)
  show "keeps b I (bulkhead_emit self kd oc ct sn)"
    unfolding bulkhead_emit_def using assms by (intro keeps_emit) (auto simp: bulkhead_frame_def)
qed

lemma keeps_bulkhead_ops:
  assumes "bulkhead_frame b I self"
  shows "keeps b I (bulkhead_take self)" "keeps b I (bulkhead_release self)"
  unfolding bulkhead_take_def bulkhead_release_def by (intro hoare_rules bulkhead_frameD [OF assms])+

lemma keeps_wait_loop:
  assumes "keeps b I (bh_monotonic self)" "\<And>t. keeps b I (bh_wait self t)"
    and "b \<Longrightarrow> \<forall>s. bulkhead_wait_loop self deadline s \<noteq> None"
  shows "keeps b I (bulkhead_wait_loop self deadline)"
  unfolding keeps_def
proof (rule hoare_total)
  show "hoare False I (bulkhead_wait_loop self deadline) (\<lambda>_. I) (\<lambda>_. I)"
  proof (rule hoare_partialI)
    fix s y
    assume "bulkhead_wait_loop self deadline s = Some y"
    then show "I s \<Longrightarrow> (case fst y of Inl e \<Rightarrow> I (snd y) | Inr x \<Rightarrow> I (snd y))"
      using keeps_partial [OF assms(1)] keeps_partial [OF assms(2)]
    proof (induction rule: bulkhead_wait_loop.raw_induct [rotated, consumes 1])
      case (1 f self deadline s y)
      have "keeps False I (f self deadline)"
        unfolding keeps_def using 1 by (intro hoare_partialI) blast
      then have "keeps False I (act_bind (bulkhead_full self) (\<lambda>full.
       if \<not> full then return True
       else act_bind (bh_monotonic self) (\<lambda>now.
         if float_le (float_sub deadline now) (Finite 0) then return False
         else act_then (bh_wait self (float_sub deadline now)) (f self deadline))))"
        by (intro hoare_rules 1)
      then show ?case using 1(2,3) unfolding keeps_def by (rule hoare_partialD)
    qed
  qed
qed (use assms(3) in blast)

lemma keeps_bulkhead_call_frame:
  assumes fr: "bulkhead_frame b I self" and m: "keeps b I (bh_monotonic self)" "\<And>t. keeps b I (bh_wait self t)"
    and ends: "b \<Longrightarrow> waits_end self" and op: "safe_sync_op b I (op_run operation)"
  shows "keeps b I (bulkhead_call self operation)"
proof -
  note upd = bulkhead_frameD [OF fr] keeps_bulkhead_ops [OF fr]
  let ?go = "\<lambda>now. act_then (bulkhead_update self (\<lambda>d. d\<lparr>bd_waiters := bd_waiters d + 1\<rparr>))
         (act_bind
           (try_finally (bulkhead_wait_loop self (float_add now (bh_max_wait self)))
             (bulkhead_update self (\<lambda>d. d\<lparr>bd_waiters := bd_waiters d - 1\<rparr>)))
           (\<lambda>free. if free then bulkhead_take self else return None))"
  have now: "hoare b I (bh_monotonic self)
      (\<lambda>now s. (b \<longrightarrow> (\<forall>s. bulkhead_wait_loop self (float_add now (bh_max_wait self)) s \<noteq> None)) \<and> I s)
      (\<lambda>_. I)"
  proof (rule hoareI)
    fix s now s'
    assume "I s" and read: "bh_monotonic self s = Some (Inr now, s')"
    then show "(b \<longrightarrow> (\<forall>s. bulkhead_wait_loop self (float_add now (bh_max_wait self)) s \<noteq> None)) \<and> I s'"
      using ends keepsD [OF m(1)] unfolding waits_end_def by blast
  qed (blast dest: keepsD [OF m(1)] keeps_noneD [OF m(1)])+
  have "keeps b I (?go now)" if "b \<longrightarrow> (\<forall>s. bulkhead_wait_loop self (float_add now (bh_max_wait self)) s \<noteq> None)" for now
    unfolding try_finally_def by (intro hoare_rules upd keeps_wait_loop m) (use that in simp)
  then have wait: "keeps b I (act_bind (bh_monotonic self) ?go)"
    unfolding keeps_def by (intro hoare_bind [OF now] hoare_conj_pre)
  have "keeps b I (bulkhead_acquire self)"
    unfolding bulkhead_acquire_def
    by (rule keeps_bind [OF keeps_bulkhead_reads(2)]) (intro keeps_if keeps_return upd wait)
  then show ?thesis
    unfolding bulkhead_call_def by (intro hoare_rules upd keeps_safe_sync_op op)
qed

section \<open>The synchronous policies fulfil the contract\<close>

text \<open>A policy works with a family of properties if its callbacks keep each of them, or, for a breaker
  or a bulkhead, if the family is the one of its own invariant, over all numbers of own admissions
  or slots.\<close>

fun sync_policy_ok :: "bool \<Rightarrow> ('i \<Rightarrow> 's \<Rightarrow> bool) \<Rightarrow> 's sync_policy \<Rightarrow> bool" where
  "sync_policy_ok b F (RetryPolicy r) \<longleftrightarrow> (\<forall>i. retry_env b (F i) r)"
| "sync_policy_ok b F (CircuitPolicy c) \<longleftrightarrow>
     (\<forall>i. circuit_frame b (F i) c)
     \<or> (\<exists>oth f. breaker_env b c oth \<and> surj f \<and> F = (\<lambda>i. breaker_holds c oth (f i)))"
| "sync_policy_ok b F (BulkheadPolicy h) \<longleftrightarrow>
     (b \<longrightarrow> waits_end h)
     \<and> ((\<forall>i. bulkhead_frame b (F i) h \<and> keeps b (F i) (bh_monotonic h) \<and> (\<forall>t. keeps b (F i) (bh_wait h t)))
        \<or> (\<exists>oth f. bulk_env b h oth \<and> surj f \<and> F = (\<lambda>i. bulk_holds h oth (fst (f i)) (snd (f i)))))"

lemma ensure_sync_validates: "ensure_sync_operation m = Inr () \<Longrightarrow> validate_operation m = Inr ()"
  by (auto simp: ensure_sync_operation_def validate_operation_def split: if_splits)

lemma sync_decorate:
  "ensure_sync_operation m = Inr () \<Longrightarrow> sync_policy_decorate p m = Inr (wrapped_sync (sync_policy_call p m))"
  using ensure_sync_validates [of m]
  by (cases p) (simp_all add: retry_decorate_def circuit_decorate_def bulkhead_decorate_def)

lemma run_wrapped_sync: "act_bind (op_run (wrapped_sync a)) ensure_sync_result = a"
  by (intro ext) (auto simp: wrapped_sync_def act_simps split: option.split sum.split)

lemma surj_all: "surj f \<Longrightarrow> (\<And>i. P (f i)) \<Longrightarrow> P x"
  by (metis surjD)

lemma keeps_False: "(\<And>s. \<not> I s) \<Longrightarrow> keeps b I m"
  by (rule keepsI) auto

lemma sync_call_keeps:
  assumes "sync_policy_ok b F p" and op: "\<And>i. safe_sync_op b (F i) (op_run m)"
  shows "keeps b (F i) (sync_policy_call p m)"
proof (cases p)
  case (RetryPolicy r)
  then show ?thesis using assms by (simp add: keeps_retry_call)
next
  case (CircuitPolicy c)
  show ?thesis
  proof (cases "\<forall>i. circuit_frame b (F i) c")
    case True
    then show ?thesis using op by (simp add: CircuitPolicy keeps_circuit_call_frame)
  next
    case False
    then obtain oth f where f: "breaker_env b c oth" "surj f" "F = (\<lambda>i. breaker_holds c oth (f i))"
      using assms(1) CircuitPolicy by auto
    have op': "safe_sync_op b (breaker_holds c oth M) (op_run m)" for M
      by (rule surj_all [OF f(2), where P = "\<lambda>M. safe_sync_op b (breaker_holds c oth M) (op_run m)"])
        (use op f(3) in simp)
    show ?thesis unfolding CircuitPolicy sync_policy_call.simps f(3)
      by (rule keeps_circuit_call [OF f(1) op'])
  qed
next
  case (BulkheadPolicy h)
  have ends: "b \<Longrightarrow> waits_end h" using assms(1) BulkheadPolicy by simp
  show ?thesis
  proof (cases "\<forall>i. bulkhead_frame b (F i) h \<and> keeps b (F i) (bh_monotonic h) \<and> (\<forall>t. keeps b (F i) (bh_wait h t))")
    case True
    then show ?thesis using op ends by (simp add: BulkheadPolicy keeps_bulkhead_call_frame)
  next
    case False
    then obtain oth f where f: "bulk_env b h oth" "surj f"
      "F = (\<lambda>i. bulk_holds h oth (fst (f i)) (snd (f i)))"
      using assms(1) BulkheadPolicy by auto
    have op': "safe_sync_op b (bulk_holds h oth k w) (op_run m)" for k w
      using surj_all [OF f(2), where P = "\<lambda>x. safe_sync_op b (bulk_holds h oth (fst x) (snd x)) (op_run m)"
          and x = "(k, w)"] op f(3) by simp
    show ?thesis
    proof (cases "0 \<le> fst (f i) \<and> 0 \<le> snd (f i)")
      case True
      show ?thesis unfolding BulkheadPolicy sync_policy_call.simps f(3)
        by (rule keeps_bulkhead_call [OF f(1) ends op']) (use True in simp_all)
    next
      case False
      then show ?thesis by (intro keeps_False) (auto simp: f(3) bulk_holds_def)
    qed
  qed
qed

interpretation sp: policy_contract sync_policy_decorate sync_policy_call wrapped_sync
  "\<lambda>w. act_bind (op_run w) ensure_sync_result" "\<lambda>m. ensure_sync_operation m = Inr ()"
  "\<lambda>b I m. safe_sync_op b I (op_run m)" sync_policy_ok
  by unfold_locales
    (simp_all add: sync_decorate run_wrapped_sync safe_wrapped_sync keeps_safe_sync_op sync_call_keeps)

lemma pipeline_call_run:
  assumes "ensure_sync_operation m = Inr ()" and "apply_policies sync_policy_decorate ps m = Inr w"
  shows "pipeline_call ps m = act_bind (op_run w) ensure_sync_result"
  by (intro ext) (simp add: pipeline_call_def assms act_simps)

section \<open>The asynchronous policies fulfil the contract\<close>

text \<open>A lock that keeps \<open>I\<close>, raises \<open>CancelledError\<close> only, and is cancelled finitely often.\<close>

definition cancellable_lock :: "bool \<Rightarrow> ('s \<Rightarrow> bool) \<Rightarrow> ('s, exn, unit) act \<Rightarrow> bool" where
  "cancellable_lock b I lock \<longleftrightarrow>
     keeps b I lock
     \<and> (\<exists>cnt :: 's \<Rightarrow> nat. \<forall>s e s'. lock s = Some (Inl e, s') \<longrightarrow> e = CancelledError \<and> cnt s' < cnt s)"

lemma hoare_lock_then:
  assumes "cancellable_lock b I lock" and m: "hoare b I m (\<lambda>_. I) (\<lambda>_ _. False)"
  shows "hoare b I (act_then lock m) (\<lambda>_. I) (\<lambda>e s. e = CancelledError \<and> I s)"
    and "\<exists>cnt. (\<forall>s e s'. m s \<noteq> Some (Inl e, s')) \<longrightarrow> finitely_cancelled (act_then lock m) cnt"
proof -
  have k: "keeps b I lock" using assms(1) by (simp add: cancellable_lock_def)
  obtain cnt :: "'a \<Rightarrow> nat" where cnt: "\<And>s e s'. lock s = Some (Inl e, s') \<Longrightarrow> e = CancelledError \<and> cnt s' < cnt s"
    using assms(1) unfolding cancellable_lock_def by blast
  have "hoare b I lock (\<lambda>_. I) (\<lambda>e s. e = CancelledError \<and> I s)"
    using cnt by (intro hoareI) (blast dest: keepsD [OF k] keeps_noneD [OF k])+
  then show "hoare b I (act_then lock m) (\<lambda>_. I) (\<lambda>e s. e = CancelledError \<and> I s)"
    by (rule hoare_then) (rule hoare_weaken [OF m], auto)
  have "finitely_cancelled (act_then lock m) cnt" if "\<forall>s e s'. m s \<noteq> Some (Inl e, s')"
    using cnt that by (auto simp: finitely_cancelled_def act_simps split: option.splits sum.splits)
  then show "\<exists>cnt. (\<forall>s e s'. m s \<noteq> Some (Inl e, s')) \<longrightarrow> finitely_cancelled (act_then lock m) cnt"
    by blast
qed

lemma keeps_lock_preserving:
  assumes lock: "cancellable_lock b I lock" and m: "keeps b I m" and raises: "\<And>s e s'. m s \<noteq> Some (Inl e, s')"
  shows "keeps b I (preserving_cancellation (act_then lock m) c)"
    and "keeps b I (give_back_and_raise (act_then lock m) e)"
proof -
  have m': "hoare b I m (\<lambda>_. I) (\<lambda>_ _. False)"
    using raises by (intro hoareI) (blast dest: keepsD [OF m] keeps_noneD [OF m])+
  obtain cnt where cnt: "finitely_cancelled (act_then lock m) cnt"
    using hoare_lock_then(2) [OF lock m'] raises by blast
  note hoare_preserving [OF hoare_lock_then(1) [OF lock m'] cnt]
  then show p: "keeps b I (preserving_cancellation (act_then lock m) c)" for c
    unfolding keeps_def .
  show "keeps b I (give_back_and_raise (act_then lock m) e)"
    unfolding give_back_and_raise_def by (auto intro!: hoare_rules p split: prod.split)
qed

definition async_circuit_frame :: "bool \<Rightarrow> ('s \<Rightarrow> bool) \<Rightarrow> 's async_circuit_breaker \<Rightarrow> bool" where
  "async_circuit_frame b I self \<longleftrightarrow>
     circuit_frame b I (acb_base self) \<and> cancellable_lock b I (acb_lock self)
     \<and> keeps_binding (acb_binding self) I"

lemma keeps_async_circuit_call_frame:
  assumes fr: "async_circuit_frame b I self" and op: "keeps b I (op_run operation)"
  shows "keeps b I (async_circuit_call self operation)"
proof -
  have base: "circuit_frame b I (acb_base self)" and lock: "cancellable_lock b I (acb_lock self)"
    and bind: "keeps b I (async_circuit_bind_loop self)"
    using fr by (auto simp: async_circuit_frame_def async_circuit_bind_loop_def keeps_bind_loop)
  note fr = circuit_frameD [OF base]
  have locked: "keeps b I (acb_locked self f)" for f :: "circuit_data \<Rightarrow> 'z \<times> circuit_data"
    unfolding acb_locked_def using lock fr(1) by (auto simp: cancellable_lock_def intro: keeps_then)
  have pres: "keeps b I (async_circuit_release_preserving self a)"
    and give: "keeps b I (async_circuit_give_back self a e :: ('a, exn, 'z) act)" for a e
    unfolding async_circuit_release_preserving_def async_circuit_give_back_def async_circuit_release_def
      acb_locked_def
    by (rule keeps_lock_preserving [OF lock fr(1)]; simp add: cb_locked_def split: prod.splits)+
  have guard: "keeps b I m \<Longrightarrow> keeps b I (async_circuit_guard self a m)" for a and m :: "('a, exn, 'z) act"
    unfolding async_circuit_guard_def by (auto intro!: hoare_rules pres split: prod.split)
  have report: "keeps b I (async_circuit_report self a f)" for a f
    unfolding async_circuit_report_def by (intro hoare_rules locked pres)
  have classify: "keeps b I (async_circuit_classify self e)" for e
    using fr(4) by (simp add: async_circuit_classify_def circuit_classify_def)
  have "keeps b I (async_circuit_execute self a (op_run operation))" for a
    unfolding async_circuit_execute_def async_circuit_on_error_def async_circuit_on_success_def
    by (auto intro!: hoare_rules guard report classify give fr op split: prod.split)
  moreover have "keeps b I (async_circuit_announce self adm tr sn)" for adm tr sn
    unfolding async_circuit_announce_def by (intro hoare_rules fr give)
  ultimately show ?thesis
    unfolding async_circuit_call_def
    by (auto intro!: hoare_rules bind locked fr split: prod.split option.split)
qed

definition async_bulkhead_frame :: "bool \<Rightarrow> ('s \<Rightarrow> bool) \<Rightarrow> 's async_bulkhead \<Rightarrow> bool" where
  "async_bulkhead_frame b I self \<longleftrightarrow>
     bulkhead_frame b I self \<and> cancellable_lock b I (abh_lock self) \<and> keeps_binding (abh_binding self) I
     \<and> keeps b I (abh_wait self) \<and> (\<forall>t. keeps b I (tm_enter (abh_timer self) t))
     \<and> keeps b I (tm_exit (abh_timer self))
     \<and> (b \<longrightarrow> (\<forall>s. I s \<longrightarrow> async_bulkhead_wait_loop self s \<noteq> None))"

lemma keeps_async_wait_loop:
  assumes "keeps b I (abh_wait self)" and "b \<Longrightarrow> \<forall>s. I s \<longrightarrow> async_bulkhead_wait_loop self s \<noteq> None"
  shows "keeps b I (async_bulkhead_wait_loop self)"
  unfolding keeps_def
proof (rule hoare_total)
  show "hoare False I (async_bulkhead_wait_loop self) (\<lambda>_. I) (\<lambda>_. I)"
  proof (rule hoare_partialI)
    fix s y
    assume "async_bulkhead_wait_loop self s = Some y"
    then show "I s \<Longrightarrow> (case fst y of Inl e \<Rightarrow> I (snd y) | Inr x \<Rightarrow> I (snd y))"
      using keeps_partial [OF assms(1)]
    proof (induction rule: async_bulkhead_wait_loop.raw_induct [rotated, consumes 1])
      case (1 f self s y)
      have "keeps False I (f self)"
        unfolding keeps_def using 1 by (intro hoare_partialI) blast
      then have "keeps False I (act_bind (bulkhead_full self) (\<lambda>full.
          if \<not> full then return () else act_then (abh_wait self) (f self)))"
        by (intro hoare_rules 1)
      then show ?case using 1(2,3) unfolding keeps_def by (rule hoare_partialD)
    qed
  qed
qed (use assms(2) in blast)

lemma keeps_async_bulkhead_call_frame:
  assumes fr: "async_bulkhead_frame b I self" and op: "keeps b I (op_run operation)"
  shows "keeps b I (async_bulkhead_call self operation)"
proof -
  have base: "bulkhead_frame b I self" and lock: "cancellable_lock b I (abh_lock self)"
    and bind: "keeps b I (async_bulkhead_bind_loop self)" and wait: "keeps b I (abh_wait self)"
    and timer: "keeps b I (tm_enter (abh_timer self) t)" "keeps b I (tm_exit (abh_timer self))"
    and ends: "b \<Longrightarrow> \<forall>s. I s \<longrightarrow> async_bulkhead_wait_loop self s \<noteq> None" for t
    using fr by (auto simp: async_bulkhead_frame_def async_bulkhead_bind_loop_def keeps_bind_loop)
  note upd = bulkhead_frameD [OF base] keeps_bulkhead_ops [OF base]
  have lk: "keeps b I (abh_lock self)" using lock by (simp add: cancellable_lock_def)
  have "keeps b I (async_bulkhead_wait_slot self)"
    unfolding async_bulkhead_wait_slot_def
    by (intro hoare_rules keeps_timeout_scope keeps_async_wait_loop timer wait ends)
  then have acquire: "keeps b I (async_bulkhead_acquire self)"
    unfolding async_bulkhead_acquire_def try_finally_def by (intro hoare_rules lk upd)
  have rel: "keeps b I (preserving_cancellation (async_bulkhead_release self) c)"
    "keeps b I (give_back_and_raise (async_bulkhead_release self) e :: ('a, exn, 'z) act)" for c e
    unfolding async_bulkhead_release_def
    by (rule keeps_lock_preserving [OF lock upd(4)];
        simp add: bulkhead_release_def bulkhead_update_def bulkhead_snap_def act_simps)+
  have finish: "keeps b I (async_bulkhead_finish self kd oc ct)" for kd oc ct
    unfolding async_bulkhead_finish_def async_bulkhead_release_preserving_def
    by (auto intro!: hoare_rules rel upd split: prod.split)
  have "keeps b I (async_bulkhead_snapshot self)"
    unfolding async_bulkhead_snapshot_def by (intro hoare_rules bind lk)
  then show ?thesis
    unfolding async_bulkhead_call_def by (intro hoare_rules bind acquire rel finish upd op)
qed

definition async_timeout_frame :: "bool \<Rightarrow> ('s \<Rightarrow> bool) \<Rightarrow> 's async_timeout \<Rightarrow> bool" where
  "async_timeout_frame b I self \<longleftrightarrow>
     (\<forall>t. keeps b I (tm_enter (at_timer self) t)) \<and> keeps b I (tm_exit (at_timer self))
     \<and> (\<forall>f ev. at_observer self = Some f \<longrightarrow> keeps b I (f ev))"

lemma keeps_async_timeout_call:
  assumes "async_timeout_frame b I self" and "keeps b I (op_run operation)"
  shows "keeps b I (async_timeout_call self operation)"
proof -
  have emit: "keeps b I (emit (at_observer self) ev)" for ev
    using assms(1) by (intro keeps_emit) (auto simp: async_timeout_frame_def)
  have scope: "keeps b I (timeout_scope (at_timer self) t (op_run operation))" for t
    using assms by (intro keeps_timeout_scope) (auto simp: async_timeout_frame_def)
  show ?thesis
    unfolding async_timeout_call_def async_timeout_failed_def by (intro hoare_rules emit scope)
qed

fun async_policy_ok :: "bool \<Rightarrow> ('i \<Rightarrow> 's \<Rightarrow> bool) \<Rightarrow> 's async_policy \<Rightarrow> bool" where
  "async_policy_ok b F (AsyncRetryPolicy r) \<longleftrightarrow> (\<forall>i. retry_env b (F i) r)"
| "async_policy_ok b F (AsyncCircuitPolicy c) \<longleftrightarrow>
     (\<forall>i. async_circuit_frame b (F i) c)
     \<or> (\<exists>oth cnt f. async_breaker_env b c oth cnt \<and> surj f \<and> F = (\<lambda>i. breaker_holds (acb_base c) oth (f i)))"
| "async_policy_ok b F (AsyncBulkheadPolicy h) \<longleftrightarrow>
     (\<forall>i. async_bulkhead_frame b (F i) h)
     \<or> (\<exists>oth cnt wakes f. async_bulk_env b h oth cnt wakes \<and> surj f
          \<and> F = (\<lambda>i. bulk_holds h oth (fst (f i)) (snd (f i))))"
| "async_policy_ok b F (AsyncTimeoutPolicy t) \<longleftrightarrow> (\<forall>i. async_timeout_frame b (F i) t)"

lemma async_decorate:
  "ensure_async_operation m = Inr () \<Longrightarrow> async_policy_decorate p m = Inr (wrapped_async (async_policy_call p m))"
proof -
  assume "ensure_async_operation m = Inr ()"
  moreover from this have "validate_operation m = Inr ()"
    by (auto simp: ensure_async_operation_def validate_operation_def split: if_splits)
  ultimately show ?thesis
    by (cases p) (simp_all add: async_retry_decorate_def async_circuit_decorate_def
        async_bulkhead_decorate_def async_timeout_decorate_def)
qed

lemma async_call_keeps:
  assumes "async_policy_ok b F p" and op: "\<And>i. keeps b (F i) (op_run m)"
  shows "keeps b (F i) (async_policy_call p m)"
proof (cases p)
  case (AsyncRetryPolicy r)
  then show ?thesis using assms by (simp add: keeps_async_retry_call)
next
  case (AsyncTimeoutPolicy t)
  then show ?thesis using assms by (simp add: keeps_async_timeout_call)
next
  case (AsyncCircuitPolicy c)
  show ?thesis
  proof (cases "\<forall>i. async_circuit_frame b (F i) c")
    case True
    then show ?thesis using op by (simp add: AsyncCircuitPolicy keeps_async_circuit_call_frame)
  next
    case False
    then obtain oth cnt f where f: "async_breaker_env b c oth cnt" "surj f"
      "F = (\<lambda>i. breaker_holds (acb_base c) oth (f i))"
      using assms(1) AsyncCircuitPolicy by auto
    have op': "keeps b (breaker_holds (acb_base c) oth M) (op_run m)" for M
      by (rule surj_all [OF f(2), where P = "\<lambda>M. keeps b (breaker_holds (acb_base c) oth M) (op_run m)"])
        (use op f(3) in simp)
    show ?thesis unfolding AsyncCircuitPolicy async_policy_call.simps f(3)
      by (rule keeps_async_circuit_call [OF f(1) op'])
  qed
next
  case (AsyncBulkheadPolicy h)
  show ?thesis
  proof (cases "\<forall>i. async_bulkhead_frame b (F i) h")
    case True
    then show ?thesis using op by (simp add: AsyncBulkheadPolicy keeps_async_bulkhead_call_frame)
  next
    case False
    then obtain oth cnt wakes f where f: "async_bulk_env b h oth cnt wakes" "surj f"
      "F = (\<lambda>i. bulk_holds h oth (fst (f i)) (snd (f i)))"
      using assms(1) AsyncBulkheadPolicy by auto
    have op': "keeps b (bulk_holds h oth k w) (op_run m)" for k w
      using surj_all [OF f(2), where P = "\<lambda>x. keeps b (bulk_holds h oth (fst x) (snd x)) (op_run m)"
          and x = "(k, w)"] op f(3) by simp
    show ?thesis
    proof (cases "0 \<le> fst (f i) \<and> 0 \<le> snd (f i)")
      case True
      show ?thesis unfolding AsyncBulkheadPolicy async_policy_call.simps f(3)
        by (rule keeps_async_bulkhead_call [OF f(1) op']) (use True in simp_all)
    next
      case False
      then show ?thesis by (intro keeps_False) (auto simp: f(3) bulk_holds_def)
    qed
  qed
qed

interpretation ap: policy_contract async_policy_decorate async_policy_call wrapped_async op_run
  "\<lambda>m. ensure_async_operation m = Inr ()" "\<lambda>b I m. keeps b I (op_run m)" async_policy_ok
  by unfold_locales (simp_all add: async_decorate async_call_keeps, simp_all add: wrapped_async_def)

lemma async_pipeline_call_run:
  assumes "ensure_async_operation m = Inr ()" and "apply_policies async_policy_decorate ps m = Inr w"
  shows "async_pipeline_call ps m = op_run w"
  by (intro ext) (simp add: async_pipeline_call_def assms act_simps)

section \<open>Properties\<close>

text \<open>what a timeout makes of its operation. A result passes through; a cancellation caused by the
  timer, with no other request pending, and every \<open>TimeoutError\<close> raised after the timer fired become
  \<open>PolicyTimeoutError\<close>; everything else, an outside cancellation and the operation's own timeout
  included, passes through unchanged.\<close>

theorem async_timeout_outcome:
  assumes "ensure_async_operation operation = Inr ()" and "at_observer self = None"
    and "tm_enter (at_timer self) (at_timeout self) s = Some (Inr (), s1)"
    and "op_run operation s1 = Some (r, s2)"
    and "tm_exit (at_timer self) s2 = Some (Inr (fired, only), s3)" and "tm_expired (at_timer self) s3 = fired"
  shows "async_timeout_call self operation s =
    Some (case r of
            Inr x \<Rightarrow> Inr x
          | Inl e \<Rightarrow> if fired \<and> (only \<and> e = CancelledError \<or> is_timeout_error e)
                     then Inl (PolicyTimeoutError (at_name self) (at_timeout self)) else Inl e, s3)"
proof -
  have "validate_operation operation = Inr ()"
    using assms(1) by (auto simp: ensure_async_operation_def validate_operation_def split: if_splits)
  then show ?thesis
    using assms
    by (auto simp: async_timeout_call_def async_timeout_failed_def timeout_scope_def act_simps emit_def
        split: sum.splits)
qed

theorem async_timeout_outcome_witness:
  "async_timeout_call
     \<lparr>at_name = [116], at_timeout = Finite 1, at_observer = None,
      at_timer = \<lparr>tm_enter = (\<lambda>_. return ()), tm_exit = return (True, True), tm_expired = (\<lambda>_. True)\<rparr>\<rparr>
     \<lparr>op_callable = True, op_kinds = [CoroutineFunction], op_run = raise CancelledError :: (unit, exn, int) act\<rparr> ()
   = Some (Inl (PolicyTimeoutError [116] (Finite 1)), ())"
  by (subst async_timeout_outcome [where r = "Inl CancelledError" and fired = True and only = True
        and ?s1.0 = "()" and ?s2.0 = "()" and ?s3.0 = "()"])
    (simp_all add: act_simps ensure_async_operation_def)

text \<open>composition order. For an operation that passes the check, wrapping never fails; the
  pipeline with one more policy is that policy's call around the operation that the pipeline before
  wraps, so that the policy added last is outermost.\<close>

theorem pipeline_last_is_outermost:
  assumes "ensure_sync_operation operation = Inr ()"
  shows "\<exists>w. apply_policies sync_policy_decorate ps operation = Inr w
    \<and> pipeline_call ps operation = act_bind (op_run w) ensure_sync_result
    \<and> pipeline_call (ps @ [p]) operation = sync_policy_call p w"
proof -
  obtain w where w: "apply_policies sync_policy_decorate ps operation = Inr w"
    "apply_policies sync_policy_decorate (ps @ [p]) operation = Inr (wrapped_sync (sync_policy_call p w))"
    using sp.apply_snoc [OF assms] by blast
  then show ?thesis
    using pipeline_call_run [OF assms w(1)] pipeline_call_run [OF assms w(2)] by (simp add: run_wrapped_sync)
qed

theorem pipeline_last_is_outermost_witness:
  "pipeline_call [BulkheadPolicy ticking_bulkhead] (plain_op True) = bulkhead_call ticking_bulkhead (plain_op True)"
  using pipeline_last_is_outermost [of "plain_op True" "[]" "BulkheadPolicy ticking_bulkhead"]
  by (simp add: plain_op_def ensure_sync_operation_def)

text \<open>C35: a pipeline of any policies in any order keeps the invariant of each of them: if every policy
  works with a family of properties (for the breaker or the bulkhead that owns it, the family of
  its invariant) and the operation keeps it, then a call of the pipeline ends and keeps it.\<close>

theorem pipeline_keeps_invariants:
  assumes "ensure_sync_operation operation = Inr ()" and "list_all (sync_policy_ok True F) ps"
    and "\<And>i. safe_sync_op True (F i) (op_run operation)" and "F i s"
  shows "\<exists>res s'. pipeline_call ps operation s = Some (res, s') \<and> F i s'"
proof -
  obtain w where w: "apply_policies sync_policy_decorate ps operation = Inr w"
    using sp.apply_accepts [OF assms(1)] by blast
  have k: "keeps True (F i) (pipeline_call ps operation)"
    unfolding pipeline_call_run [OF assms(1) w]
    by (rule sp.apply_keeps [OF assms(1-3) w])
  show ?thesis using keeps_ends [OF k assms(4)] keepsD [OF k assms(4)] by blast
qed

theorem pipeline_keeps_invariants_witness:
  "\<exists>res s'. pipeline_call [BulkheadPolicy ticking_bulkhead, BulkheadPolicy ticking_bulkhead] (plain_op True)
     (\<lparr>bd_in_flight = 0, bd_waiters = 0\<rparr>, 0) = Some (res, s')
     \<and> fst s' = \<lparr>bd_in_flight = 0, bd_waiters = 0\<rparr>"
proof -
  let ?F = "\<lambda>x. bulk_holds ticking_bulkhead (\<lambda>_. (0, 0)) (fst x) (snd x)"
  have "surj (\<lambda>x :: int \<times> int. x)" by simp
  then have "sync_policy_ok True ?F (BulkheadPolicy ticking_bulkhead)"
    using waits_endI [OF ticking_progress] ticking_env [of 0]
    by (auto intro!: exI [of _ "\<lambda>_. (0, 0)"] exI [of _ "\<lambda>x. x"])
  then have ok: "list_all (sync_policy_ok True ?F) [BulkheadPolicy ticking_bulkhead, BulkheadPolicy ticking_bulkhead]"
    by simp
  have st: "?F (0, 0) (\<lparr>bd_in_flight = 0, bd_waiters = 0\<rparr>, 0)"
    by (simp add: bulk_holds_def ticking_bulkhead_def)
  have acc: "ensure_sync_operation (plain_op True :: (bulkhead_data \<times> rat, bool) sync_op) = Inr ()"
    by (simp add: plain_op_def ensure_sync_operation_def)
  from pipeline_keeps_invariants [OF acc ok plain_op_safe st] obtain res s' where
    "pipeline_call [BulkheadPolicy ticking_bulkhead, BulkheadPolicy ticking_bulkhead] (plain_op True)
       (\<lparr>bd_in_flight = 0, bd_waiters = 0\<rparr>, 0) = Some (res, s')" and "?F (0, 0) s'" by blast
  moreover from this(2) have "fst s' = \<lparr>bd_in_flight = 0, bd_waiters = 0\<rparr>"
    by (intro bulkhead_data.equality) (simp_all add: bulk_holds_def ticking_bulkhead_def)
  ultimately show ?thesis by blast
qed

text \<open>the same for the asynchronous pipeline and its four kinds of policies, cancellation included,
  together with the composition order.\<close>

theorem async_pipeline_keeps_invariants:
  assumes "ensure_async_operation operation = Inr ()" and "list_all (async_policy_ok True F) (ps @ [p])"
    and "\<And>i. keeps True (F i) (op_run operation)" and "F i s"
  shows "(\<exists>res s'. async_pipeline_call (ps @ [p]) operation s = Some (res, s') \<and> F i s')
    \<and> (\<exists>w. apply_policies async_policy_decorate ps operation = Inr w
         \<and> async_pipeline_call (ps @ [p]) operation = async_policy_call p w)"
proof -
  obtain w where w: "apply_policies async_policy_decorate ps operation = Inr w"
    "apply_policies async_policy_decorate (ps @ [p]) operation = Inr (wrapped_async (async_policy_call p w))"
    using ap.apply_snoc [OF assms(1)] by blast
  have k: "keeps True (F i) (async_pipeline_call (ps @ [p]) operation)"
    unfolding async_pipeline_call_run [OF assms(1) w(2)]
    by (rule ap.apply_keeps [OF assms(1-3) w(2)])
  have "async_pipeline_call (ps @ [p]) operation = async_policy_call p w"
    using async_pipeline_call_run [OF assms(1) w(2)] by (simp add: wrapped_async_def)
  then show ?thesis using keeps_ends [OF k assms(4)] keepsD [OF k assms(4)] w(1) by blast
qed

theorem async_pipeline_keeps_invariants_witness:
  "\<exists>res s'. async_pipeline_call [AsyncCircuitPolicy cancelling_breaker]
     \<lparr>op_callable = True, op_kinds = [CoroutineFunction],
      op_run = (\<lambda>(d, n). Some (Inl CancelledError, (d, 2))) :: (circuit_data \<times> nat, exn, unit) act\<rparr>
     (circuit_data_init 1 (Finite 5) 1 1, 0) = Some (res, s') \<and> circ_inv {#} (fst s')"
proof -
  let ?op = "\<lparr>op_callable = True, op_kinds = [CoroutineFunction],
      op_run = (\<lambda>(d, n). Some (Inl CancelledError, (d, 2))) :: (circuit_data \<times> nat, exn, unit) act\<rparr>"
  let ?F = "breaker_holds (acb_base cancelling_breaker) (\<lambda>_. {#})"
  have op: "keeps True (?F M) (op_run ?op)" for M
    by (rule keepsI) (auto simp: breaker_holds_def cancelling_breaker_def)
  have "surj (\<lambda>M :: admission multiset. M)" by simp
  then have ok: "list_all (async_policy_ok True ?F) ([] @ [AsyncCircuitPolicy cancelling_breaker])"
    using cancelling_env by (auto intro!: exI [of _ "\<lambda>_. {#}"] exI [of _ "\<lambda>M. M"])
  have acc: "ensure_async_operation ?op = Inr ()" by (simp add: ensure_async_operation_def)
  have st: "?F {#} (circuit_data_init 1 (Finite 5) 1 1, 0)"
    by (simp add: breaker_holds_def cancelling_breaker_def circ_inv_init)
  from async_pipeline_keeps_invariants [OF acc ok op st] show ?thesis
    by (auto simp: breaker_holds_def cancelling_breaker_def)
qed

end
