(* ===== verification/Cache_State.thy ===== *)
theory Cache_State
  imports Prelude "HOL-Library.Product_Lexorder"
begin

text \<open>
  \<open>bluetape.cache._core\<close>: argument checks and \<open>_CacheState\<close>, the entry, expiry, recency, version and
  counter state that the synchronous and the asynchronous cache share.

  The ordered dictionary of entries is an association list, least recently used first. The expiry
  heap of \<open>heapq\<close> is kept as a list sorted by (expiry, sequence): \<open>heapq\<close> compares its tuples in that
  order and the sequence numbers are distinct, so its first element and what it pops are those of the
  sorted list. Time is an integer number of nanoseconds.
\<close>

datatype 'k cache_exn =
    TypeError string
  | ValueError string
  | KeyError 'k
  | RecursiveLoadError
  | CacheLoadLimitError
  | RuntimeError string
  | CancelledError
  | UserException nat
  | UserBaseException nat

definition require_callable :: "'f callback \<Rightarrow> string \<Rightarrow> 'k cache_exn + 'f" where
  "require_callable value parameter =
     (case value of Callable f \<Rightarrow> Inr f | NotCallable \<Rightarrow> Inl (TypeError (parameter @ '' must be callable'')))"

definition ttl_ns :: "pyval \<Rightarrow> string \<Rightarrow> 'k cache_exn + int" where
  "ttl_ns value parameter =
     ebind
       (case value of
          PyInt n \<Rightarrow>
            if n \<le> 0 then Inl (ValueError (parameter @ '' must be a finite positive number''))
            else Inr (n * 1000000000)
        | PyFloat f \<Rightarrow>
            if float_le f (Finite 0) \<or> \<not> isfinite f
            then Inl (ValueError (parameter @ '' must be a finite positive number''))
            else (case f of Finite x \<Rightarrow> let (numerator, denominator) = quotient_of x
                                       in Inr ((numerator * 1000000000) div denominator)
                  | _ \<Rightarrow> Inl (ValueError (parameter @ '' must be a finite positive number'')))
        | _ \<Rightarrow> Inl (TypeError (parameter @ '' must be a finite positive number'')))
       (\<lambda>nanoseconds.
          if nanoseconds < 1 then Inl (ValueError (parameter @ '' must be at least one nanosecond''))
          else Inr nanoseconds)"

definition cache_positive_int :: "pyval \<Rightarrow> string \<Rightarrow> 'k cache_exn + int" where
  "cache_positive_int value parameter =
     (case value of
        PyInt n \<Rightarrow>
          if n < 1 then Inl (ValueError (parameter @ '' must be greater than 0'')) else Inr n
      | _ \<Rightarrow> Inl (TypeError (parameter @ '' must be an integer'')))"

record cache_stats =
  cst_hits :: int
  cst_misses :: int
  cst_loads :: int
  cst_load_failures :: int
  cst_load_rejections :: int
  cst_coalesced_waiters :: int
  cst_evictions :: int
  cst_expirations :: int
  cst_invalidations :: int
  cst_inflight_loads :: int
  cst_abandoned_loads :: int
  cst_superseded_loads :: int

record 'v entry =
  en_value :: 'v
  en_expires_at :: int
  en_version :: int

type_synonym 'k heap_item = "int \<times> int \<times> 'k \<times> int"

record ('k, 'v) cache_state =
  st_max_size :: int
  st_entries :: "('k \<times> 'v entry) list"
  st_expiry_heap :: "'k heap_item list"
  st_key_versions :: "'k \<rightharpoonup> int"
  st_clear_epoch :: int
  st_last_tick :: int
  st_sequence :: int
  st_hits :: int
  st_misses :: int
  st_loads :: int
  st_load_failures :: int
  st_load_rejections :: int
  st_coalesced_waiters :: int
  st_evictions :: int
  st_expirations :: int
  st_invalidations :: int
  st_abandoned_loads :: int
  st_superseded_loads :: int

section \<open>Ordered dictionary and heap\<close>

definition od_del :: "'k \<Rightarrow> ('k \<times> 'a) list \<Rightarrow> ('k \<times> 'a) list" where
  "od_del k es = filter (\<lambda>p. fst p \<noteq> k) es"

text \<open>\<open>d[k] = x\<close> keeps the place of a key that is present.\<close>

definition od_set :: "'k \<Rightarrow> 'a \<Rightarrow> ('k \<times> 'a) list \<Rightarrow> ('k \<times> 'a) list" where
  "od_set k x es = (if k \<in> fst ` set es then map (\<lambda>p. if fst p = k then (k, x) else p) es else es @ [(k, x)])"

definition od_move_to_end :: "'k \<Rightarrow> ('k \<times> 'a) list \<Rightarrow> ('k \<times> 'a) list" where
  "od_move_to_end k es = od_del k es @ filter (\<lambda>p. fst p = k) es"

fun heap_key :: "'k heap_item \<Rightarrow> int \<times> int" where
  "heap_key (e, q, k, v) = (e, q)"

definition heappush :: "'k heap_item \<Rightarrow> 'k heap_item list \<Rightarrow> 'k heap_item list" where
  "heappush x h = insort_key heap_key x h"

definition heapify :: "'k heap_item list \<Rightarrow> 'k heap_item list" where
  "heapify h = sort_key heap_key h"

section \<open>Operations\<close>

definition cache_state_init :: "int \<Rightarrow> ('k, 'v) cache_state" where
  "cache_state_init max_size =
     \<lparr>st_max_size = max_size, st_entries = [], st_expiry_heap = [], st_key_versions = Map.empty,
      st_clear_epoch = 0, st_last_tick = 0, st_sequence = 0, st_hits = 0, st_misses = 0, st_loads = 0,
      st_load_failures = 0, st_load_rejections = 0, st_coalesced_waiters = 0, st_evictions = 0,
      st_expirations = 0, st_invalidations = 0, st_abandoned_loads = 0, st_superseded_loads = 0\<rparr>"

definition clamp_tick :: "int \<Rightarrow> ('k, 'v) cache_state \<Rightarrow> int \<times> ('k, 'v) cache_state" where
  "clamp_tick tick s = (let t = max (st_last_tick s) tick in (t, s\<lparr>st_last_tick := t\<rparr>))"

definition version :: "'k \<Rightarrow> ('k, 'v) cache_state \<Rightarrow> int" where
  "version key s = (case st_key_versions s key of None \<Rightarrow> 0 | Some v \<Rightarrow> v)"

definition bump_version :: "'k \<Rightarrow> ('k, 'v) cache_state \<Rightarrow> int \<times> ('k, 'v) cache_state" where
  "bump_version key s =
     (let v = version key s + 1 in (v, s\<lparr>st_key_versions := (st_key_versions s)(key \<mapsto> v)\<rparr>))"

definition drop_unused_version :: "'k \<Rightarrow> 'k set \<Rightarrow> ('k, 'v) cache_state \<Rightarrow> ('k, 'v) cache_state" where
  "drop_unused_version key owned s =
     (if key \<notin> fst ` set (st_entries s) \<and> key \<notin> owned
      then s\<lparr>st_key_versions := (st_key_versions s)(key := None)\<rparr> else s)"

text \<open>One pass of the loop of \<open>purge_expired\<close>, after the pop.\<close>

definition purge_item :: "'k \<Rightarrow> int \<Rightarrow> 'k set \<Rightarrow> ('k, 'v) cache_state \<Rightarrow> ('k, 'v) cache_state" where
  "purge_item key v owned s =
     (case map_of (st_entries s) key of
        None \<Rightarrow> s
      | Some entry \<Rightarrow>
          if en_version entry \<noteq> v then s
          else drop_unused_version key owned
                 (s\<lparr>st_entries := od_del key (st_entries s), st_expirations := st_expirations s + 1\<rparr>))"

lemma purge_item_heap [simp]: "st_expiry_heap (purge_item key v owned s) = st_expiry_heap s"
  by (simp add: purge_item_def drop_unused_version_def split: option.split)

function purge_expired :: "int \<Rightarrow> 'k set \<Rightarrow> ('k, 'v) cache_state \<Rightarrow> ('k, 'v) cache_state" where
  "purge_expired now owned s =
     (case st_expiry_heap s of
        [] \<Rightarrow> s
      | (e, q, key, v) # rest \<Rightarrow>
          if e \<le> now then purge_expired now owned (purge_item key v owned (s\<lparr>st_expiry_heap := rest\<rparr>))
          else s)"
  by pat_completeness auto
termination
  by (relation "measure (\<lambda>(now, owned, s). length (st_expiry_heap s))") auto

declare purge_expired.simps [simp del]

definition cache_get ::
  "'k \<Rightarrow> int \<Rightarrow> 'k set \<Rightarrow> ('k, 'v) cache_state \<Rightarrow> ('k cache_exn + 'v) \<times> ('k, 'v) cache_state" where
  "cache_get key now owned s =
     (let s = purge_expired now owned s in
      case map_of (st_entries s) key of
        None \<Rightarrow> (Inl (KeyError key), s\<lparr>st_misses := st_misses s + 1\<rparr>)
      | Some entry \<Rightarrow>
          (Inr (en_value entry),
           s\<lparr>st_entries := od_move_to_end key (st_entries s), st_hits := st_hits s + 1\<rparr>))"

text \<open>The eviction loop and \<open>rebuild_expiry_heap\<close>.\<close>

function evict_loop :: "'k set \<Rightarrow> ('k, 'v) cache_state \<Rightarrow> ('k, 'v) cache_state" where
  "evict_loop owned s =
     (case st_entries s of
        [] \<Rightarrow> s
      | (evicted, _) # rest \<Rightarrow>
          if int (length (st_entries s)) > st_max_size s
          then evict_loop owned
                 (drop_unused_version evicted owned
                    (s\<lparr>st_entries := rest, st_evictions := st_evictions s + 1\<rparr>))
          else s)"
  by pat_completeness auto
termination
  by (relation "measure (\<lambda>(owned, s). length (st_entries s))") (auto simp: drop_unused_version_def)

declare evict_loop.simps [simp del]

fun rebuild_items :: "int \<Rightarrow> ('k \<times> 'v entry) list \<Rightarrow> 'k heap_item list" where
  "rebuild_items sequence [] = []"
| "rebuild_items sequence ((key, entry) # rest) =
     (en_expires_at entry, sequence + 1, key, en_version entry) # rebuild_items (sequence + 1) rest"

definition rebuild_expiry_heap :: "('k, 'v) cache_state \<Rightarrow> ('k, 'v) cache_state" where
  "rebuild_expiry_heap s =
     s\<lparr>st_sequence := st_sequence s + int (length (st_entries s)),
       st_expiry_heap := heapify (rebuild_items (st_sequence s) (st_entries s))\<rparr>"

definition cache_store ::
  "'k \<Rightarrow> 'v \<Rightarrow> int \<Rightarrow> int \<Rightarrow> 'k set \<Rightarrow> ('k, 'v) cache_state \<Rightarrow> ('k, 'v) cache_state" where
  "cache_store key value ttl now owned s =
     (let s = purge_expired now owned s;
          (v, s) = bump_version key s;
          expires_at = now + ttl;
          entry = \<lparr>en_value = value, en_expires_at = expires_at, en_version = v\<rparr>;
          s = s\<lparr>st_entries := od_move_to_end key (od_set key entry (st_entries s)),
                st_sequence := st_sequence s + 1\<rparr>;
          s = s\<lparr>st_expiry_heap := heappush (expires_at, st_sequence s, key, v) (st_expiry_heap s)\<rparr>;
          s = evict_loop owned s
      in if int (length (st_expiry_heap s)) > 2 * st_max_size s then rebuild_expiry_heap s else s)"

text \<open>\<open>owned\<close> is what the callback \<open>on_supersede\<close> returns; it runs first and does not touch this
  state.\<close>

definition cache_invalidate ::
  "'k \<Rightarrow> int \<Rightarrow> 'k set \<Rightarrow> ('k, 'v) cache_state \<Rightarrow> bool \<times> ('k, 'v) cache_state" where
  "cache_invalidate key now owned s =
     (let s = purge_expired now owned s;
          entry = map_of (st_entries s) key;
          s = s\<lparr>st_entries := od_del key (st_entries s)\<rparr>;
          s = snd (bump_version key s);
          s = (if entry \<noteq> None then s\<lparr>st_invalidations := st_invalidations s + 1\<rparr> else s)
      in (entry \<noteq> None, drop_unused_version key owned s))"

definition cache_clear :: "'k set \<Rightarrow> ('k, 'v) cache_state \<Rightarrow> ('k, 'v) cache_state" where
  "cache_clear owned s =
     s\<lparr>st_clear_epoch := st_clear_epoch s + 1, st_entries := [], st_expiry_heap := [],
       st_key_versions := st_key_versions s |` owned\<rparr>"

definition cache_size :: "int \<Rightarrow> 'k set \<Rightarrow> ('k, 'v) cache_state \<Rightarrow> int \<times> ('k, 'v) cache_state" where
  "cache_size now owned s =
     (let s = purge_expired now owned s in (int (length (st_entries s)), s))"

definition cache_stats_of ::
  "int \<Rightarrow> 'k set \<Rightarrow> int \<Rightarrow> int \<Rightarrow> int \<Rightarrow> ('k, 'v) cache_state \<Rightarrow> cache_stats \<times> ('k, 'v) cache_state" where
  "cache_stats_of now owned inflight abandoned superseded s =
     (let s = purge_expired now owned s in
      (\<lparr>cst_hits = st_hits s, cst_misses = st_misses s, cst_loads = st_loads s,
        cst_load_failures = st_load_failures s, cst_load_rejections = st_load_rejections s,
        cst_coalesced_waiters = st_coalesced_waiters s, cst_evictions = st_evictions s,
        cst_expirations = st_expirations s, cst_invalidations = st_invalidations s,
        cst_inflight_loads = inflight, cst_abandoned_loads = abandoned,
        cst_superseded_loads = superseded\<rparr>, s))"

section \<open>Lemmas on the containers\<close>

lemma set_od_del [simp]: "set (od_del k es) = {p \<in> set es. fst p \<noteq> k}"
  by (auto simp: od_del_def)

lemma od_del_distinct [simp]: "distinct (map fst es) \<Longrightarrow> distinct (map fst (od_del k es))"
  by (simp add: od_del_def distinct_map_filter)

lemma map_of_od_del [simp]: "map_of (od_del k es) = (map_of es)(k := None)"
  by (induction es) (auto simp: od_del_def)

lemma length_od_del: "length (od_del k es) \<le> length es"
  by (simp add: od_del_def)

lemma od_del_absent [simp]: "k \<notin> fst ` set es \<Longrightarrow> od_del k es = es"
  by (force simp: od_del_def filter_id_conv)

lemma filter_key:
  "distinct (map fst es) \<Longrightarrow> filter (\<lambda>p. fst p = k) es = (case map_of es k of None \<Rightarrow> [] | Some x \<Rightarrow> [(k, x)])"
proof (induction es)
  case (Cons p es)
  then show ?case
    by (cases p; cases "map_of es k") (force simp: filter_empty_conv dest: map_of_SomeD)+
qed simp

lemma od_touch:
  assumes "distinct (map fst es)" and "map_of es k = Some x"
  shows "od_move_to_end k es = od_del k es @ [(k, x)]"
  using assms by (simp add: od_move_to_end_def filter_key)

lemma od_put:
  assumes "distinct (map fst es)"
  shows "od_move_to_end k (od_set k x es) = od_del k es @ [(k, x)]"
proof (cases "k \<in> fst ` set es")
  case False
  then have "filter (\<lambda>p. fst p = k) es = []" by (force simp: filter_empty_conv)
  moreover have "filter (\<lambda>p. fst p \<noteq> k) es = es" using False by (force simp: filter_id_conv)
  ultimately show ?thesis using False by (simp add: od_move_to_end_def od_set_def od_del_def)
next
  case True
  let ?es = "map (\<lambda>p. if fst p = k then (k, x) else p) es"
  have keys: "map fst ?es = map fst es" by auto
  have "od_del k ?es = od_del k es" by (induction es) (auto simp: od_del_def)
  moreover have "map_of ?es k = Some x" using True by (induction es) auto
  moreover have "distinct (map fst ?es)" using assms by (simp only: keys)
  ultimately show ?thesis using True by (simp add: od_set_def od_touch)
qed

lemma od_put_distinct:
  "distinct (map fst es) \<Longrightarrow> distinct (map fst (od_del k es @ [(k, x)]))"
  by (auto simp: distinct_map_filter)

lemma map_of_od_put: "map_of (od_del k es @ [(k, x)]) = (map_of es)(k \<mapsto> x)"
  by (auto simp: map_add_def split: option.split)

lemma length_od_put:
  "distinct (map fst es) \<Longrightarrow> map_of es k \<noteq> None \<Longrightarrow> length (od_del k es @ [(k, x)]) = length es"
proof (induction es)
  case (Cons p es)
  show ?case
  proof (cases "fst p = k")
    case True
    then have "od_del k (p # es) = od_del k es" "k \<notin> fst ` set es"
      using Cons.prems(1) by (auto simp: od_del_def)
    then show ?thesis by simp
  next
    case False
    then show ?thesis using Cons by (cases p) (simp add: od_del_def)
  qed
qed simp

lemma heappush_set [simp]: "set (heappush x h) = insert x (set h)"
  by (simp add: heappush_def set_insort_key)

lemma heappush_length [simp]: "length (heappush x h) = Suc (length h)"
  by (simp add: heappush_def)

lemma heappush_sorted: "sorted (map heap_key h) \<Longrightarrow> sorted (map heap_key (heappush x h))"
  by (simp add: heappush_def sorted_insort_key)

lemma heapify_simps [simp]: "set (heapify h) = set h" "length (heapify h) = length h"
  "sorted (map heap_key (heapify h))"
  by (simp_all add: heapify_def)

lemma length_rebuild [simp]: "length (rebuild_items n es) = length es"
  by (induction es arbitrary: n) auto

lemma rebuild_covers:
  "(k, en) \<in> set es \<Longrightarrow> \<exists>q. (en_expires_at en, q, k, en_version en) \<in> set (rebuild_items n es)"
  by (induction n es rule: rebuild_items.induct) fastforce+

lemma rebuild_only:
  "(e, q, k, v) \<in> set (rebuild_items n es) \<Longrightarrow>
   \<exists>en. (k, en) \<in> set es \<and> e = en_expires_at en \<and> v = en_version en"
  by (induction n es rule: rebuild_items.induct) auto

section \<open>The invariant\<close>

text \<open>Every entry is covered by a heap item with its expiry and version, so that it cannot outlive its
  expiry; the version of an entry never exceeds the current version of its key.\<close>

definition covered :: "('k \<times> 'v entry) list \<Rightarrow> 'k heap_item list \<Rightarrow> bool" where
  "covered es h \<longleftrightarrow> (\<forall>(k, en)\<in>set es. \<exists>q. (en_expires_at en, q, k, en_version en) \<in> set h)"

definition cache_core :: "('k, 'v) cache_state \<Rightarrow> bool" where
  "cache_core s \<longleftrightarrow>
     1 \<le> st_max_size s \<and> distinct (map fst (st_entries s)) \<and> sorted (map heap_key (st_expiry_heap s))
     \<and> covered (st_entries s) (st_expiry_heap s)
     \<and> (\<forall>(k, en)\<in>set (st_entries s). en_version en \<le> version k s)"

definition cache_ok :: "('k, 'v) cache_state \<Rightarrow> bool" where
  "cache_ok s \<longleftrightarrow>
     cache_core s \<and> int (length (st_entries s)) \<le> st_max_size s
     \<and> int (length (st_expiry_heap s)) \<le> 2 * st_max_size s"

lemma cache_ok_init: "1 \<le> n \<Longrightarrow> cache_ok (cache_state_init n)"
  by (simp add: cache_ok_def cache_core_def cache_state_init_def covered_def)

lemma drop_simps [simp]:
  "st_entries (drop_unused_version k owned s) = st_entries s"
  "st_expiry_heap (drop_unused_version k owned s) = st_expiry_heap s"
  "st_max_size (drop_unused_version k owned s) = st_max_size s"
  "st_clear_epoch (drop_unused_version k owned s) = st_clear_epoch s"
  "st_last_tick (drop_unused_version k owned s) = st_last_tick s"
  by (simp_all add: drop_unused_version_def)

lemma drop_version:
  "k' \<in> owned \<or> k' \<in> fst ` set (st_entries s) \<or> k' \<noteq> k \<Longrightarrow>
   version k' (drop_unused_version k owned s) = version k' s"
  by (auto simp: drop_unused_version_def version_def)

lemma drop_core: "cache_core (drop_unused_version k owned s) = cache_core s"
proof -
  have "version k' (drop_unused_version k owned s) = version k' s" if "(k', en) \<in> set (st_entries s)" for k' en
    using that by (intro drop_version) force
  then show ?thesis by (auto simp: cache_core_def)
qed

lemma purge_item_core:
  assumes "cache_core s" and "st_expiry_heap s = (e, q, k, v) # rest"
  shows "cache_core (purge_item k v owned (s\<lparr>st_expiry_heap := rest\<rparr>))"
proof (cases "\<exists>en. map_of (st_entries s) k = Some en \<and> en_version en = v")
  case True
  then show ?thesis
    using assms
    by (auto simp: purge_item_def drop_core) (fastforce simp: cache_core_def covered_def version_def)
next
  case False
  have "map_of (st_entries s) k = Some en" if "(k, en) \<in> set (st_entries s)" for en
    using assms(1) that by (simp add: cache_core_def)
  then have "covered (st_entries s) rest"
    using assms False unfolding cache_core_def covered_def by fastforce
  moreover have "purge_item k v owned (s\<lparr>st_expiry_heap := rest\<rparr>) = s\<lparr>st_expiry_heap := rest\<rparr>"
    using False by (auto simp: purge_item_def split: option.split)
  ultimately show ?thesis using assms by (auto simp: cache_core_def version_def)
qed

lemma version_update [simp]:
  "version k (s\<lparr>st_entries := x\<rparr>) = version k s" "version k (s\<lparr>st_expirations := n\<rparr>) = version k s"
  "version k (s\<lparr>st_expiry_heap := h\<rparr>) = version k s" "version k (s\<lparr>st_sequence := n\<rparr>) = version k s"
  "version k (s\<lparr>st_evictions := n\<rparr>) = version k s" "version k (s\<lparr>st_hits := n\<rparr>) = version k s"
  "version k (s\<lparr>st_misses := n\<rparr>) = version k s" "version k (s\<lparr>st_invalidations := n\<rparr>) = version k s"
  by (simp_all add: version_def)

text \<open>What the operations leave alone: the limits, the epoch, the clock, and the version of every key
  that is owned by a load or still has an entry.\<close>

definition same_frame :: "'k set \<Rightarrow> ('k, 'v) cache_state \<Rightarrow> ('k, 'v) cache_state \<Rightarrow> bool" where
  "same_frame owned s t \<longleftrightarrow>
     st_max_size t = st_max_size s \<and> st_clear_epoch t = st_clear_epoch s \<and> st_last_tick t = st_last_tick s
     \<and> (\<forall>k \<in> owned. version k t = version k s)"

lemma same_frame_refl: "same_frame owned s s"
  by (simp add: same_frame_def)

lemma same_frame_trans: "same_frame owned s t \<Longrightarrow> same_frame owned t u \<Longrightarrow> same_frame owned s u"
  by (simp add: same_frame_def)

lemma purge_item_frame: "same_frame owned s (purge_item k v owned (s\<lparr>st_expiry_heap := h\<rparr>))"
  by (auto simp: same_frame_def purge_item_def drop_version split: option.splits)

lemma purge_item_entries:
  "st_entries (purge_item k v owned s) =
     (if \<exists>en. map_of (st_entries s) k = Some en \<and> en_version en = v then od_del k (st_entries s)
      else st_entries s)"
  by (auto simp: purge_item_def split: option.splits)

text \<open>A property that one pass keeps holds after the loop.\<close>

lemma purge_rule:
  assumes "Q s"
    and "\<And>s e q k v rest. Q s \<Longrightarrow> st_expiry_heap s = (e, q, k, v) # rest \<Longrightarrow> e \<le> now \<Longrightarrow>
      Q (purge_item k v owned (s\<lparr>st_expiry_heap := rest\<rparr>))"
  shows "Q (purge_expired now owned s)"
  using assms(1)
proof (induction "length (st_expiry_heap s)" arbitrary: s rule: less_induct)
  case less
  show ?case
  proof (cases "st_expiry_heap s")
    case Nil
    then show ?thesis using less(2) by (subst purge_expired.simps) simp
  next
    case (Cons x rest)
    obtain e q k v where "x = (e, q, k, v)" by (cases x)
    then show ?thesis
      using less(2) assms(2) [OF less(2)] less(1) Cons by (subst purge_expired.simps) simp
  qed
qed

lemma purge_core: "cache_core s \<Longrightarrow> cache_core (purge_expired now owned s)"
  by (rule purge_rule) (auto intro: purge_item_core)

lemma purge_frame: "same_frame owned s (purge_expired now owned s)"
  by (rule purge_rule [OF same_frame_refl]) (blast intro: same_frame_trans purge_item_frame)

lemma purge_smaller:
  "length (st_entries (purge_expired now owned s)) \<le> length (st_entries s)
   \<and> length (st_expiry_heap (purge_expired now owned s)) \<le> length (st_expiry_heap s)
   \<and> set (st_entries (purge_expired now owned s)) \<subseteq> set (st_entries s)
   \<and> set (st_expiry_heap (purge_expired now owned s)) \<subseteq> set (st_expiry_heap s)"
proof (rule purge_rule)
  fix t :: "('a, 'b) cache_state" and e q k v rest
  assume "length (st_entries t) \<le> length (st_entries s) \<and> length (st_expiry_heap t) \<le> length (st_expiry_heap s)
    \<and> set (st_entries t) \<subseteq> set (st_entries s) \<and> set (st_expiry_heap t) \<subseteq> set (st_expiry_heap s)"
    and "st_expiry_heap t = (e, q, k, v) # rest"
  then show "length (st_entries (purge_item k v owned (t\<lparr>st_expiry_heap := rest\<rparr>))) \<le> length (st_entries s)
    \<and> length (st_expiry_heap (purge_item k v owned (t\<lparr>st_expiry_heap := rest\<rparr>))) \<le> length (st_expiry_heap s)
    \<and> set (st_entries (purge_item k v owned (t\<lparr>st_expiry_heap := rest\<rparr>))) \<subseteq> set (st_entries s)
    \<and> set (st_expiry_heap (purge_item k v owned (t\<lparr>st_expiry_heap := rest\<rparr>))) \<subseteq> set (st_expiry_heap s)"
    using length_od_del [of k "st_entries t"] by (auto simp: purge_item_entries)
qed simp

lemma purge_ok: "cache_ok s \<Longrightarrow> cache_ok (purge_expired now owned s)"
  using purge_smaller [of now owned s] purge_frame [of owned s now]
  by (auto simp: cache_ok_def purge_core same_frame_def)

text \<open>After the loop no heap item is due, so that no entry is expired.\<close>

lemma purge_head: "case st_expiry_heap (purge_expired now owned s) of [] \<Rightarrow> True | x # _ \<Rightarrow> now < fst x"
proof (induction "length (st_expiry_heap s)" arbitrary: s rule: less_induct)
  case less
  show ?case
  proof (cases "st_expiry_heap s")
    case Nil
    then show ?thesis by (subst purge_expired.simps) simp
  next
    case (Cons x rest)
    obtain e q k v where "x = (e, q, k, v)" by (cases x)
    then show ?thesis
      using less [of "purge_item k v owned (s\<lparr>st_expiry_heap := rest\<rparr>)"] Cons
      by (subst purge_expired.simps) auto
  qed
qed

lemma purge_not_due:
  assumes "cache_core s" and "x \<in> set (st_expiry_heap (purge_expired now owned s))"
  shows "now < fst x"
proof -
  have "sorted (map heap_key (st_expiry_heap (purge_expired now owned s)))"
    using purge_core [OF assms(1)] by (simp add: cache_core_def)
  moreover obtain y h where h: "st_expiry_heap (purge_expired now owned s) = y # h"
    using assms(2) by (cases "st_expiry_heap (purge_expired now owned s)") auto
  ultimately have "heap_key y \<le> heap_key x" using assms(2) by auto
  then have "fst y \<le> fst x" by (cases x; cases y) (auto simp: less_eq_prod_def)
  then show ?thesis using purge_head [of now owned s] h by simp
qed

lemma purge_live:
  assumes "cache_core s" and "(k, en) \<in> set (st_entries (purge_expired now owned s))"
  shows "now < en_expires_at en"
  using purge_core [OF assms(1), of now owned] assms(2) purge_not_due [OF assms(1)]
  by (fastforce simp: cache_core_def covered_def)

lemma purge_nothing:
  assumes "list_all (\<lambda>x. now < fst x) (st_expiry_heap s)"
  shows "purge_expired now owned s = s"
  using assms by (subst purge_expired.simps) (auto split: list.split)

section \<open>Every operation keeps the invariant\<close>

lemma touch_ok:
  assumes "cache_ok s" and "map_of (st_entries s) k = Some en"
  shows "cache_ok (s\<lparr>st_entries := od_move_to_end k (st_entries s), st_hits := n\<rparr>)"
proof -
  have d: "distinct (map fst (st_entries s))" using assms(1) by (simp add: cache_ok_def cache_core_def)
  have "(k, en) \<in> set (st_entries s)" using assms(2) by (rule map_of_SomeD)
  then show ?thesis
    using assms od_touch [OF d assms(2)] od_put_distinct [OF d, of k en] length_od_put [OF d, of k en]
    by (auto simp: cache_ok_def cache_core_def covered_def)
qed

lemma miss_ok: "cache_ok s \<Longrightarrow> cache_ok (s\<lparr>st_misses := n\<rparr>)"
  by (simp add: cache_ok_def cache_core_def)

lemma get_ok: "cache_ok s \<Longrightarrow> cache_ok (snd (cache_get k now owned s))"
  by (auto simp: cache_get_def Let_def split: option.split intro: touch_ok miss_ok purge_ok)

lemma evict_step_core:
  assumes "cache_core s" and "st_entries s = (k, en) # rest"
  shows "cache_core (drop_unused_version k owned (s\<lparr>st_entries := rest, st_evictions := n\<rparr>))"
  using assms by (auto simp: drop_core) (auto simp: cache_core_def covered_def)

text \<open>The eviction loop keeps the most recent entries, as many as fit.\<close>

lemma evict_entries:
  "st_entries (evict_loop owned s) =
     drop (nat (int (length (st_entries s)) - max 0 (st_max_size s))) (st_entries s)"
proof (induction owned s rule: evict_loop.induct)
  case (1 owned s)
  show ?case
  proof (cases "st_entries s")
    case Nil
    then show ?thesis by (subst evict_loop.simps) simp
  next
    case (Cons p rest)
    obtain k en where p: "p = (k, en)" by (cases p)
    show ?thesis
    proof (cases "int (length (st_entries s)) > st_max_size s")
      case False
      then show ?thesis using Cons by (subst evict_loop.simps) (auto split: prod.split)
    next
      case True
      have "st_entries (evict_loop owned s) =
          drop (nat (int (length rest) - max 0 (st_max_size s))) rest"
        using "1.IH" [OF Cons p [symmetric] True] Cons p True by (subst evict_loop.simps) simp
      also have "\<dots> = drop (nat (int (length (st_entries s)) - max 0 (st_max_size s))) (st_entries s)"
      proof (cases "0 \<le> st_max_size s")
        case nn: True
        then have "nat (int (length (st_entries s)) - max 0 (st_max_size s))
            = Suc (nat (int (length rest) - max 0 (st_max_size s)))"
          using True Cons by simp
        then show ?thesis using Cons by simp
      next
        case False
        then show ?thesis using Cons by simp
      qed
      finally show ?thesis .
    qed
  qed
qed

lemma evict_inv:
  "cache_core s \<Longrightarrow> cache_core (evict_loop owned s) \<and> same_frame owned s (evict_loop owned s)
     \<and> st_expiry_heap (evict_loop owned s) = st_expiry_heap s"
proof (induction owned s rule: evict_loop.induct)
  case (1 owned s)
  show ?case
  proof (cases "st_entries s")
    case Nil
    then show ?thesis using 1(2) by (subst (1 2 3) evict_loop.simps) (simp add: same_frame_refl)
  next
    case (Cons p rest)
    obtain k en where p: "p = (k, en)" by (cases p)
    show ?thesis
    proof (cases "int (length (st_entries s)) > st_max_size s")
      case False
      then show ?thesis
        using Cons p 1(2) by (subst (1 2 3) evict_loop.simps) (simp add: same_frame_refl)
    next
      case True
      let ?s = "drop_unused_version k owned (s\<lparr>st_entries := rest, st_evictions := st_evictions s + 1\<rparr>)"
      have eq: "evict_loop owned s = evict_loop owned ?s"
        using Cons p True by (subst evict_loop.simps) simp
      have "cache_core ?s" using 1(2) Cons p by (intro evict_step_core) simp_all
      moreover have "same_frame owned s ?s" by (simp add: same_frame_def drop_version)
      ultimately show ?thesis
        unfolding eq using "1.IH" [OF Cons p [symmetric] True] same_frame_trans by fastforce
    qed
  qed
qed

text \<open>The state that \<open>store\<close> hands to the eviction loop.\<close>

definition stored :: "'k \<Rightarrow> 'v \<Rightarrow> int \<Rightarrow> int \<Rightarrow> ('k, 'v) cache_state \<Rightarrow> ('k, 'v) cache_state" where
  "stored k x ttl now s =
     s\<lparr>st_key_versions := (st_key_versions s)(k \<mapsto> version k s + 1),
       st_entries := od_del k (st_entries s) @
         [(k, \<lparr>en_value = x, en_expires_at = now + ttl, en_version = version k s + 1\<rparr>)],
       st_sequence := st_sequence s + 1,
       st_expiry_heap := heappush (now + ttl, st_sequence s + 1, k, version k s + 1) (st_expiry_heap s)\<rparr>"

lemma store_eq:
  assumes "cache_core s"
  shows "cache_store k x ttl now owned s =
    (let t = evict_loop owned (stored k x ttl now (purge_expired now owned s))
     in if int (length (st_expiry_heap t)) > 2 * st_max_size t then rebuild_expiry_heap t else t)"
proof -
  have "distinct (map fst (st_entries (purge_expired now owned s)))"
    using purge_core [OF assms] by (simp add: cache_core_def)
  then show ?thesis by (simp add: cache_store_def stored_def Let_def bump_version_def od_put)
qed

lemma stored_version: "version k' (stored k x ttl now s) = (if k' = k then version k s + 1 else version k' s)"
  by (simp add: stored_def version_def)

lemma stored_core:
  assumes "cache_core s"
  shows "cache_core (stored k x ttl now s)"
proof -
  have old: "en_version en \<le> version k' s" if "(k', en) \<in> set (st_entries s)" for k' en
    using assms that by (auto simp: cache_core_def)
  have "en_version en \<le> version k' (stored k x ttl now s)"
    if "(k', en) \<in> set (st_entries (stored k x ttl now s))" for k' en
    using that old unfolding stored_version by (auto simp: stored_def)
  moreover have "covered (st_entries (stored k x ttl now s)) (st_expiry_heap (stored k x ttl now s))"
    using assms by (fastforce simp: stored_def cache_core_def covered_def)
  moreover have "sorted (map heap_key (st_expiry_heap (stored k x ttl now s)))"
    "distinct (map fst (st_entries (stored k x ttl now s)))" "1 \<le> st_max_size (stored k x ttl now s)"
    using assms od_put_distinct [of "st_entries s" k] by (auto simp: cache_core_def stored_def heappush_sorted)
  ultimately show ?thesis by (auto simp: cache_core_def)
qed

lemma rebuild_core: "cache_core s \<Longrightarrow> cache_core (rebuild_expiry_heap s)"
  using rebuild_covers by (fastforce simp: cache_core_def rebuild_expiry_heap_def covered_def)

lemma store_parts:
  assumes "cache_ok s"
  shows "cache_core (evict_loop owned (stored k x ttl now (purge_expired now owned s)))"
    and "length (st_expiry_heap (evict_loop owned (stored k x ttl now (purge_expired now owned s))))
      \<le> Suc (length (st_expiry_heap s))"
    and "int (length (st_entries (evict_loop owned (stored k x ttl now (purge_expired now owned s))))) \<le> st_max_size s"
    and "st_max_size (evict_loop owned (stored k x ttl now (purge_expired now owned s))) = st_max_size s"
proof -
  let ?p = "purge_expired now owned s"
  have p: "cache_core ?p" using assms purge_core by (auto simp: cache_ok_def)
  have m: "st_max_size ?p = st_max_size s" using purge_frame [of owned s now] by (simp add: same_frame_def)
  note e = evict_inv [OF stored_core [OF p], of owned k x ttl now]
  show "cache_core (evict_loop owned (stored k x ttl now ?p))" using e by blast
  show "length (st_expiry_heap (evict_loop owned (stored k x ttl now ?p))) \<le> Suc (length (st_expiry_heap s))"
    using e purge_smaller [of now owned s] by (simp add: stored_def)
  show max: "st_max_size (evict_loop owned (stored k x ttl now ?p)) = st_max_size s"
    using e m by (simp add: same_frame_def stored_def)
  have "1 \<le> st_max_size s" using assms by (simp add: cache_ok_def cache_core_def)
  then show "int (length (st_entries (evict_loop owned (stored k x ttl now ?p)))) \<le> st_max_size s"
    using m by (simp add: evict_entries stored_def)
qed

lemma store_ok:
  assumes "cache_ok s"
  shows "cache_ok (cache_store k x ttl now owned s)"
proof -
  let ?t = "evict_loop owned (stored k x ttl now (purge_expired now owned s))"
  note t = store_parts [OF assms, of owned k x ttl now]
  have core: "cache_core s" using assms by (simp add: cache_ok_def)
  have "cache_ok (rebuild_expiry_heap ?t)"
    using t rebuild_core [OF t(1)] by (simp add: cache_ok_def rebuild_expiry_heap_def)
  moreover have "cache_ok ?t" if "int (length (st_expiry_heap ?t)) \<le> 2 * st_max_size ?t"
    using t that by (simp add: cache_ok_def)
  ultimately show ?thesis unfolding store_eq [OF core] Let_def by auto
qed

lemma version_bump:
  "version k' (snd (bump_version k s)) = (if k' = k then version k s + 1 else version k' s)"
  by (simp add: bump_version_def version_def Let_def)

lemma bump_fields:
  "st_entries (snd (bump_version k s)) = st_entries s"
  "st_expiry_heap (snd (bump_version k s)) = st_expiry_heap s"
  "st_max_size (snd (bump_version k s)) = st_max_size s"
  "st_clear_epoch (snd (bump_version k s)) = st_clear_epoch s"
  "st_last_tick (snd (bump_version k s)) = st_last_tick s"
  by (simp_all add: bump_version_def Let_def)

lemma invalidate_ok:
  assumes "cache_ok s"
  shows "cache_ok (snd (cache_invalidate k now owned s))"
proof -
  let ?p = "purge_expired now owned s"
  have p: "cache_ok ?p" by (rule purge_ok [OF assms])
  have "cache_ok (snd (bump_version k (?p\<lparr>st_entries := od_del k (st_entries ?p)\<rparr>)))"
    using p length_od_del [of k "st_entries ?p"]
    by (auto simp: cache_ok_def cache_core_def covered_def bump_fields version_bump)
  then show ?thesis
    by (simp add: cache_invalidate_def Let_def cache_ok_def drop_core) (simp add: cache_core_def)
qed

lemma clear_ok: "cache_ok s \<Longrightarrow> cache_ok (cache_clear owned s)"
  by (simp add: cache_ok_def cache_core_def cache_clear_def covered_def)

lemma size_ok: "cache_ok s \<Longrightarrow> cache_ok (snd (cache_size now owned s))"
  by (simp add: cache_size_def Let_def purge_ok)

lemma stats_ok: "cache_ok s \<Longrightarrow> cache_ok (snd (cache_stats_of now owned i a u s))"
  by (simp add: cache_stats_of_def Let_def purge_ok)

lemma bump_ok: "cache_ok s \<Longrightarrow> cache_ok (snd (bump_version k s))"
  by (fastforce simp: cache_ok_def cache_core_def bump_fields version_bump)

lemma drop_ok: "cache_ok (drop_unused_version k owned s) = cache_ok s"
  by (simp add: cache_ok_def drop_core)

lemma clamp_ok: "cache_ok (snd (clamp_tick t s)) = cache_ok s"
  by (simp add: clamp_tick_def Let_def cache_ok_def cache_core_def version_def)

lemma counters_ok [simp]:
  "cache_ok (st\<lparr>st_coalesced_waiters := n\<rparr>) = cache_ok st" "cache_ok (st\<lparr>st_load_rejections := n\<rparr>) = cache_ok st"
  "cache_ok (st\<lparr>st_loads := n\<rparr>) = cache_ok st" "cache_ok (st\<lparr>st_load_failures := n\<rparr>) = cache_ok st"
  "version k (st\<lparr>st_coalesced_waiters := n\<rparr>) = version k st" "version k (st\<lparr>st_load_rejections := n\<rparr>) = version k st"
  "version k (st\<lparr>st_loads := n\<rparr>) = version k st" "version k (st\<lparr>st_load_failures := n\<rparr>) = version k st"
  by (simp_all add: cache_ok_def cache_core_def version_def)

lemmas cache_ok_ops = get_ok store_ok invalidate_ok clear_ok size_ok stats_ok bump_ok

section \<open>What the operations leave alone\<close>

lemma get_frame: "same_frame owned s (snd (cache_get k now owned s))"
  using purge_frame [of owned s now]
  by (auto simp: cache_get_def Let_def same_frame_def split: option.split)

lemma store_frame:
  assumes "cache_core s"
  shows "same_frame (owned - {k}) s (cache_store k x ttl now owned s)"
proof -
  let ?p = "purge_expired now owned s"
  have "same_frame (owned - {k}) s ?p" using purge_frame [of owned s now] by (simp add: same_frame_def)
  moreover have "same_frame (owned - {k}) ?p (stored k x ttl now ?p)"
    by (simp add: same_frame_def stored_version) (simp add: stored_def)
  moreover have "same_frame (owned - {k}) (stored k x ttl now ?p) (evict_loop owned (stored k x ttl now ?p))"
    using evict_inv [OF stored_core [OF purge_core [OF assms]], of owned k x ttl now] by (simp add: same_frame_def)
  ultimately have "same_frame (owned - {k}) s (evict_loop owned (stored k x ttl now ?p))"
    by (blast intro: same_frame_trans)
  then show ?thesis
    by (simp add: store_eq [OF assms] Let_def same_frame_def rebuild_expiry_heap_def)
qed

lemma invalidate_frame: "same_frame (owned - {k}) s (snd (cache_invalidate k now owned s))"
  using purge_frame [of owned s now]
  by (auto simp: cache_invalidate_def Let_def same_frame_def drop_version version_bump bump_fields)

lemma size_frame: "same_frame owned s (snd (cache_size now owned s))"
  using purge_frame by (simp add: cache_size_def Let_def)

lemma stats_frame: "same_frame owned s (snd (cache_stats_of now owned i a u s))"
  using purge_frame by (simp add: cache_stats_of_def Let_def)

lemma clear_version: "k \<in> owned \<Longrightarrow> version k (cache_clear owned s) = version k s"
  by (simp add: cache_clear_def version_def)

section \<open>Histories\<close>

text \<open>
  A history of operations with its specification: \<open>m k\<close> is the value and the expiry that the last
  \<open>store\<close> of \<open>k\<close> gave it, if no \<open>invalidate\<close> or \<open>clear\<close> came after. Every operation may see its own
  clock reading and its own set of keys with a load in flight.
\<close>

type_synonym ('k, 'v) history = "('k, 'v) cache_state \<times> ('k \<rightharpoonup> 'v \<times> int)"

inductive cache_step :: "('k, 'v) history \<Rightarrow> ('k, 'v) history \<Rightarrow> bool" where
  get: "cache_step (s, m) (snd (cache_get k now owned s), m)"
| store: "cache_step (s, m) (cache_store k x ttl now owned s, m(k \<mapsto> (x, now + ttl)))"
| invalidate: "cache_step (s, m) (snd (cache_invalidate k now owned s), m(k := None))"
| clear: "cache_step (s, m) (cache_clear owned s, Map.empty)"
| size: "cache_step (s, m) (snd (cache_size now owned s), m)"
| stats: "cache_step (s, m) (snd (cache_stats_of now owned i a u s), m)"
| bump: "cache_step (s, m) (snd (bump_version k s), m)"
| drop: "cache_step (s, m) (drop_unused_version k owned s, m)"
| tick: "cache_step (s, m) (snd (clamp_tick t s), m)"

definition agrees :: "('k, 'v) cache_state \<Rightarrow> ('k \<rightharpoonup> 'v \<times> int) \<Rightarrow> bool" where
  "agrees s m \<longleftrightarrow> (\<forall>(k, en)\<in>set (st_entries s). m k = Some (en_value en, en_expires_at en))"

lemma agrees_subset: "agrees s m \<Longrightarrow> set (st_entries t) \<subseteq> set (st_entries s) \<Longrightarrow> agrees t m"
  by (auto simp: agrees_def)

lemma agrees_purge: "agrees s m \<Longrightarrow> agrees (purge_expired now owned s) m"
  using purge_smaller by (blast intro: agrees_subset)

lemma od_move_set: "set (od_move_to_end k es) = set es"
  by (auto simp: od_move_to_end_def)

lemma store_entries_subset:
  assumes "cache_core s"
  shows "set (st_entries (cache_store k x ttl now owned s))
    \<subseteq> set (st_entries (stored k x ttl now (purge_expired now owned s)))"
  by (auto simp: store_eq [OF assms] Let_def rebuild_expiry_heap_def evict_entries dest: in_set_dropD)

lemma cache_step_inv:
  assumes "cache_ok (fst x) \<and> agrees (fst x) (snd x)" and "cache_step x y"
  shows "cache_ok (fst y) \<and> agrees (fst y) (snd y)"
  using assms(2)
proof cases
  case (get s m k now owned)
  have "agrees (purge_expired now owned s) m" using assms get agrees_purge by auto
  then have "agrees (snd (cache_get k now owned s)) m"
    by (auto simp: cache_get_def Let_def agrees_def od_move_set split: option.split)
  then show ?thesis using assms get get_ok by auto
next
  case (store s m k v ttl now owned)
  have core: "cache_core s" using assms store by (simp add: cache_ok_def)
  have p: "agrees (purge_expired now owned s) m" using assms store agrees_purge by auto
  have "agrees (stored k v ttl now (purge_expired now owned s)) (m(k \<mapsto> (v, now + ttl)))"
    using p by (auto simp: agrees_def stored_def)
  then show ?thesis
    using assms store store_ok agrees_subset [OF _ store_entries_subset [OF core]] by auto
next
  case (invalidate s m k now owned)
  have "agrees (purge_expired now owned s) m" using assms invalidate agrees_purge by auto
  then have "agrees (snd (cache_invalidate k now owned s)) (m(k := None))"
    by (auto simp: cache_invalidate_def Let_def agrees_def bump_fields)
  then show ?thesis using assms invalidate invalidate_ok by auto
next
  case (clear s m owned)
  then show ?thesis using assms clear_ok by (auto simp: agrees_def cache_clear_def)
next
  case (size s m now owned)
  then show ?thesis using assms purge_ok agrees_purge by (auto simp: cache_size_def Let_def)
next
  case (stats s m now owned i a u)
  then show ?thesis using assms purge_ok agrees_purge by (auto simp: cache_stats_of_def Let_def)
next
  case (bump s m k)
  then show ?thesis using assms bump_ok by (auto simp: agrees_def bump_fields)
next
  case (drop s m k owned)
  then show ?thesis using assms by (auto simp: drop_ok agrees_def)
next
  case (tick s m t)
  then show ?thesis using assms by (auto simp: clamp_ok) (auto simp: clamp_tick_def Let_def agrees_def)
qed

interpretation ch: transition_invariant cache_step "\<lambda>x. cache_ok (fst x) \<and> agrees (fst x) (snd x)"
  by unfold_locales (rule cache_step_inv)

lemma history_inv:
  assumes "1 \<le> n" and "cache_step\<^sup>*\<^sup>* (cache_state_init n, Map.empty) (s, m)"
  shows "cache_ok s" "agrees s m"
proof -
  have "cache_ok (cache_state_init n :: ('a, 'b) cache_state) \<and> agrees (cache_state_init n) Map.empty"
    using cache_ok_init [OF assms(1)] by (auto simp: agrees_def cache_state_init_def)
  then have "cache_ok s \<and> agrees s m" using ch.run_inv [OF assms(2)] by auto
  then show "cache_ok s" "agrees s m" by auto
qed

lemma history_max:
  "cache_step\<^sup>*\<^sup>* x y \<Longrightarrow> cache_ok (fst x) \<and> agrees (fst x) (snd x) \<Longrightarrow> st_max_size (fst y) = st_max_size (fst x)"
proof (induction rule: rtranclp_induct)
  case (step y z)
  have y: "cache_ok (fst y)" using ch.run_inv [OF step(1)] step(4) by blast
  then have core: "cache_core (fst y)" by (simp add: cache_ok_def)
  note max = purge_frame [unfolded same_frame_def, THEN conjunct1]
  have "st_max_size (cache_store k x ttl now owned (fst y)) = st_max_size (fst y)" for k x ttl now owned
    using store_parts(4) [OF y] by (simp add: store_eq [OF core] Let_def rebuild_expiry_heap_def)
  with step(2) have "st_max_size (fst z) = st_max_size (fst y)"
    by (cases rule: cache_step.cases) (auto simp: max cache_get_def cache_invalidate_def cache_clear_def
        cache_size_def cache_stats_of_def clamp_tick_def bump_fields Let_def split: option.split)
  then show ?case using step by simp
qed simp

section \<open>Properties\<close>

text \<open>C36: bounds. After any history of operations on a cache of size \<open>n\<close>, with any clock readings and
  any loads in flight, there are at most \<open>n\<close> entries, under distinct keys, at most \<open>2 n\<close> heap items,
  and every entry has a heap item that expires it.\<close>

theorem cache_bounds:
  assumes "1 \<le> n" and "cache_step\<^sup>*\<^sup>* (cache_state_init n, Map.empty) (s, m)"
  shows "int (length (st_entries s)) \<le> n \<and> distinct (map fst (st_entries s))
    \<and> int (length (st_expiry_heap s)) \<le> 2 * n
    \<and> covered (st_entries s) (st_expiry_heap s)"
proof -
  have "st_max_size s = n"
    using history_max [OF assms(2)] cache_ok_init [OF assms(1)]
    by (simp add: agrees_def cache_state_init_def)
  then show ?thesis using history_inv [OF assms] by (auto simp: cache_ok_def cache_core_def)
qed

theorem cache_bounds_witness:
  "int (length (st_entries (cache_store (2::nat) CHR ''b'' 5 0 {}
      (cache_store 1 CHR ''a'' 5 0 {} (cache_state_init 1))))) \<le> 1"
proof -
  have "cache_step\<^sup>*\<^sup>* (cache_state_init 1, Map.empty)
      (cache_store 2 CHR ''b'' 5 0 {} (cache_store (1::nat) CHR ''a'' 5 0 {} (cache_state_init 1)),
       Map.empty(1 \<mapsto> (CHR ''a'', 0 + 5), 2 \<mapsto> (CHR ''b'', 0 + 5)))"
    by (rule converse_rtranclp_into_rtranclp, rule cache_step.store, rule r_into_rtranclp, rule cache_step.store)
  from cache_bounds [OF _ this] show ?thesis by simp
qed

text \<open>C14: a cache never serves a wrong or an expired value. After any history, a \<open>get\<close> that returns
  \<open>x\<close> returns what the last \<open>store\<close> of that key put there, not invalidated or cleared since, before
  its expiry; and the key becomes the most recently used one.\<close>

theorem cache_get_sound:
  assumes "1 \<le> n" and "cache_step\<^sup>*\<^sup>* (cache_state_init n, Map.empty) (s, m)"
    and "cache_get k now owned s = (Inr x, s')"
  shows "(\<exists>e. m k = Some (x, e) \<and> now < e) \<and> fst (last (st_entries s')) = k"
proof -
  let ?p = "purge_expired now owned s"
  have core: "cache_core s" and p: "agrees ?p m"
    using history_inv [OF assms(1,2)] agrees_purge by (auto simp: cache_ok_def)
  obtain en where en: "map_of (st_entries ?p) k = Some en" "x = en_value en"
    "st_entries s' = od_move_to_end k (st_entries ?p)"
    using assms(3) by (auto simp: cache_get_def Let_def split: option.splits)
  have "(k, en) \<in> set (st_entries ?p)" using en(1) by (rule map_of_SomeD)
  then have "m k = Some (x, en_expires_at en)" "now < en_expires_at en"
    using p purge_live [OF core] en(2) by (auto simp: agrees_def)
  moreover have "distinct (map fst (st_entries ?p))" using purge_core [OF core] by (simp add: cache_core_def)
  ultimately show ?thesis using en od_touch by fastforce
qed

theorem cache_get_sound_witness:
  "\<exists>e. (Map.empty(1 \<mapsto> (CHR ''a'', 0 + 5)) :: nat \<rightharpoonup> char \<times> int) 1 = Some (CHR ''a'', e) \<and> 3 < e"
proof -
  let ?s = "cache_store (1::nat) CHR ''a'' 5 0 {} (cache_state_init 1)"
  have st: "cache_step\<^sup>*\<^sup>* (cache_state_init 1, Map.empty) (?s, Map.empty(1 \<mapsto> (CHR ''a'', 0 + 5)))"
    by (rule r_into_rtranclp, rule cache_step.store)
  have "fst (cache_get 1 3 {} ?s) = Inr CHR ''a''" by code_simp
  then obtain s' where "cache_get 1 3 {} ?s = (Inr CHR ''a'', s')" by (metis prod.collapse)
  from cache_get_sound [OF _ st this] show ?thesis by simp
qed

lemma purge_keeps_entry:
  fixes s :: "('k, 'v) cache_state"
  assumes "map_of (st_entries s) k = Some en"
    and "\<forall>(e, q, k', v)\<in>set (st_expiry_heap s). k' = k \<and> v = en_version en \<longrightarrow> now < e"
  shows "map_of (st_entries (purge_expired now owned s)) k = Some en"
proof -
  have "map_of (st_entries (purge_expired now owned s)) k = Some en
    \<and> set (st_expiry_heap (purge_expired now owned s)) \<subseteq> set (st_expiry_heap s)"
  proof (rule purge_rule)
    fix t :: "('k, 'v) cache_state" and e q k' v rest
    assume "map_of (st_entries t) k = Some en \<and> set (st_expiry_heap t) \<subseteq> set (st_expiry_heap s)"
      and "st_expiry_heap t = (e, q, k', v) # rest" and "e \<le> now"
    then show "map_of (st_entries (purge_item k' v owned (t\<lparr>st_expiry_heap := rest\<rparr>))) k = Some en
      \<and> set (st_expiry_heap (purge_item k' v owned (t\<lparr>st_expiry_heap := rest\<rparr>))) \<subseteq> set (st_expiry_heap s)"
      using assms(2) by (fastforce simp: purge_item_entries)
  qed (use assms(1) in simp)
  then show ?thesis by blast
qed

lemma store_result:
  fixes now ttl :: int and owned :: "'k set" and k :: 'k and x :: 'v and s :: "('k, 'v) cache_state"
  assumes "cache_ok s"
  defines "p \<equiv> purge_expired now owned s"
  defines "en \<equiv> \<lparr>en_value = x, en_expires_at = now + ttl, en_version = version k p + 1\<rparr>"
  shows "map_of (st_entries (cache_store k x ttl now owned s)) k = Some en"
    and "\<forall>(e, q, k', v)\<in>set (st_expiry_heap (cache_store k x ttl now owned s)).
           k' = k \<longrightarrow> (e, q, k', v) \<in> set (st_expiry_heap p) \<or> (e = now + ttl \<and> v = en_version en)"
proof -
  let ?t = "evict_loop owned (stored k x ttl now p)"
  have core: "cache_core s" and pc: "cache_core p"
    using assms(1) purge_core unfolding p_def by (auto simp: cache_ok_def)
  have es: "st_entries (stored k x ttl now p) = od_del k (st_entries p) @ [(k, en)]"
    by (simp add: stored_def en_def)
  have "1 \<le> st_max_size (stored k x ttl now p)" using stored_core [OF pc] by (simp add: cache_core_def)
  then have t: "\<exists>pre. st_entries ?t = pre @ [(k, en)]"
    unfolding evict_entries es by (auto simp: drop_append)
  have tc: "cache_core ?t" and th: "st_expiry_heap ?t = st_expiry_heap (stored k x ttl now p)"
    using evict_inv [OF stored_core [OF pc]] by blast+
  have kt: "(k, en') \<in> set (st_entries ?t) \<longleftrightarrow> en' = en" for en'
    using t tc by (auto simp: cache_core_def image_iff) (metis fst_conv)
  have d: "distinct (map fst (st_entries ?t))" using tc by (simp add: cache_core_def)
  have eq: "cache_store k x ttl now owned s =
      (if int (length (st_expiry_heap ?t)) > 2 * st_max_size ?t then rebuild_expiry_heap ?t else ?t)"
    unfolding store_eq [OF core] Let_def p_def ..
  have "map_of (st_entries ?t) k = Some en" using d kt by simp
  then show "map_of (st_entries (cache_store k x ttl now owned s)) k = Some en"
    by (simp add: eq rebuild_expiry_heap_def)
  have "\<forall>(e, q, k', v)\<in>set (st_expiry_heap ?t).
      k' = k \<longrightarrow> (e, q, k', v) \<in> set (st_expiry_heap p) \<or> (e = now + ttl \<and> v = en_version en)"
    unfolding th by (auto simp: stored_def en_def)
  moreover have "\<forall>(e, q, k', v)\<in>set (st_expiry_heap (rebuild_expiry_heap ?t)).
      k' = k \<longrightarrow> e = now + ttl \<and> v = en_version en"
    using rebuild_only kt by (fastforce simp: rebuild_expiry_heap_def en_def)
  ultimately show "\<forall>(e, q, k', v)\<in>set (st_expiry_heap (cache_store k x ttl now owned s)).
           k' = k \<longrightarrow> (e, q, k', v) \<in> set (st_expiry_heap p) \<or> (e = now + ttl \<and> v = en_version en)"
    unfolding eq by (auto split: if_splits)
qed

text \<open>a stored value is served until its expiry. A \<open>get\<close> at any tick before \<open>now + ttl\<close> returns
  what \<open>store\<close> put there, provided that no leftover heap item of that key carries the version that
  the entry got and is due by then.\<close>

theorem cache_get_after_store:
  assumes "cache_ok s" and "now' < now + ttl"
    and "\<forall>(e, q, k', v)\<in>set (st_expiry_heap s).
           k' = k \<and> v = version k (purge_expired now owned s) + 1 \<longrightarrow> now' < e"
  shows "fst (cache_get k now' owned' (cache_store k x ttl now owned s)) = Inr x"
proof -
  let ?p = "purge_expired now owned s"
  let ?en = "\<lparr>en_value = x, en_expires_at = now + ttl, en_version = version k ?p + 1\<rparr>"
  have sub: "set (st_expiry_heap ?p) \<subseteq> set (st_expiry_heap s)" using purge_smaller by blast
  have "\<forall>(e, q, k', v)\<in>set (st_expiry_heap (cache_store k x ttl now owned s)).
      k' = k \<and> v = en_version ?en \<longrightarrow> now' < e"
    using store_result(2) [OF assms(1), of k x ttl now owned] assms(2,3) sub by fastforce
  from purge_keeps_entry [OF store_result(1) [OF assms(1)] this]
  show ?thesis by (simp add: cache_get_def Let_def)
qed

theorem cache_get_after_store_witness:
  "fst (cache_get (7::nat) 4 {} (cache_store 7 CHR ''a'' 5 0 {} (cache_state_init 2))) = Inr CHR ''a''"
  using cache_get_after_store [of "cache_state_init 2" 4 0 5 "7::nat" "{}" "{}" "CHR ''a''"]
  by (simp add: cache_ok_init) (simp add: cache_state_init_def)

text \<open>the proviso of \<open>cache_get_after_store\<close> is needed. A key that is stored, invalidated and stored again with a
  longer time to live is dropped when the first time to live ends: \<open>invalidate\<close> forgets the version
  of the key, so that the new entry gets the version of the old one and the leftover heap item
  expires it. The value was stored for longer and never invalidated.\<close>

theorem cache_reused_version_expires_early:
  "fst (cache_get (1::nat) 5 {}
     (cache_store 1 CHR ''b'' 100 0 {}
       (snd (cache_invalidate 1 0 {} (cache_store 1 CHR ''a'' 5 0 {} (cache_state_init 10))))))
   = Inl (KeyError 1)"
  by code_simp

text \<open>recency. When nothing is due, storing a new key in a full cache evicts exactly the least
  recently used entry, and storing a present key evicts nothing; in both cases the stored key is the
  most recently used one and the others keep their order.\<close>

theorem cache_store_lru:
  assumes "cache_ok s" and "list_all (\<lambda>i. now < fst i) (st_expiry_heap s)"
    and "int (length (st_entries s)) = st_max_size s"
  shows "map fst (st_entries (cache_store k x ttl now owned s)) =
    (if k \<in> fst ` set (st_entries s) then filter (\<lambda>k'. k' \<noteq> k) (map fst (st_entries s)) @ [k]
     else tl (map fst (st_entries s)) @ [k])"
proof -
  have core: "cache_core s" and d: "distinct (map fst (st_entries s))" and pos: "1 \<le> st_max_size s"
    using assms(1) by (auto simp: cache_ok_def cache_core_def)
  have p: "purge_expired now owned s = s" using assms(2) by (rule purge_nothing)
  have es: "st_entries (cache_store k x ttl now owned s) = st_entries (evict_loop owned (stored k x ttl now s))"
    by (simp add: store_eq [OF core] p Let_def rebuild_expiry_heap_def)
  have del: "map fst (od_del k (st_entries s)) = filter (\<lambda>k'. k' \<noteq> k) (map fst (st_entries s))"
    by (simp add: od_del_def filter_map o_def)
  show ?thesis
  proof (cases "k \<in> fst ` set (st_entries s)")
    case True
    then have "map_of (st_entries s) k \<noteq> None" by (simp add: map_of_eq_None_iff)
    then have "length (od_del k (st_entries s)) + 1 = length (st_entries s)"
      using length_od_put [OF d, of k undefined] by simp
    then show ?thesis using True assms(3) pos by (simp add: es evict_entries stored_def del)
  next
    case False
    then show ?thesis
      using assms(3) pos by (simp add: es evict_entries stored_def drop_Suc map_tl [symmetric])
  qed
qed

theorem cache_store_lru_witness:
  "map fst (st_entries (cache_store (3::nat) CHR ''c'' 5 0 {}
      (cache_store 2 CHR ''b'' 5 0 {} (cache_store 1 CHR ''a'' 5 0 {} (cache_state_init 2))))) = [2, 3]"
proof -
  let ?s = "cache_store (2::nat) CHR ''b'' 5 0 {} (cache_store 1 CHR ''a'' 5 0 {} (cache_state_init 2))"
  have ok: "cache_ok ?s" by (intro store_ok cache_ok_init) simp
  have "list_all (\<lambda>i. 0 < fst i) (st_expiry_heap ?s)" "int (length (st_entries ?s)) = st_max_size ?s"
    "map fst (st_entries ?s) = [1, 2]" "3 \<notin> fst ` set (st_entries ?s)"
    by code_simp+
  then show ?thesis using cache_store_lru [OF ok, of 0 3 "CHR ''c''" 5 "{}"] by simp
qed

end
