(* ===== verification/Sync_Cache.thy ===== *)
theory Sync_Cache
  imports Cache_State
begin

text \<open>
  \<open>bluetape.cache._sync\<close>: \<open>TTLCache\<close>, a bounded cache in which concurrent misses of a key share one
  load (a flight).

  Flight objects live in the list \<open>td_flights\<close>, and a reference to one is its index. A cache lives in
  the program state \<open>'s\<close>, where \<open>tc_get\<close> and \<open>tc_put\<close> reach its data; \<open>tc_locked\<close> is what happens
  under \<open>self._lock\<close> between two pieces of foreign code. The clock, the loader and
  \<open>Condition.wait\<close> are foreign code: other threads run inside the last two, and the clock, which is
  called under the re-entrant lock, may itself call the cache. The set of loads that the current
  thread is in (the thread-local \<open>_loader_scope\<close>) is \<open>tc_tokens\<close>.
\<close>

record ('k, 'v) sync_flight =
  fl_key :: 'k
  fl_epoch :: int
  fl_version :: int
  fl_ttl_ns :: int
  fl_owner_thread :: nat
  fl_terminal :: bool
  fl_superseded :: bool
  fl_result :: "'v option"
  fl_error :: "'k cache_exn option"

record ('k, 'v) ttl_data =
  td_active :: "'k \<rightharpoonup> nat"
  td_owned :: "nat list"
  td_flights :: "('k, 'v) sync_flight list"
  td_state :: "('k, 'v) cache_state"

record ('s, 'k, 'v) ttl_cache =
  tc_default_ttl_ns :: int
  tc_max_inflight :: int
  tc_clock :: "('s, 'k cache_exn, int) act"
  tc_get :: "'s \<Rightarrow> ('k, 'v) ttl_data"
  tc_put :: "('k, 'v) ttl_data \<Rightarrow> 's \<Rightarrow> 's"
  tc_wait :: "nat \<Rightarrow> ('s, 'k cache_exn, unit) act"
  tc_thread :: "'s \<Rightarrow> nat"
  tc_id :: nat
  tc_tokens :: "'s \<Rightarrow> (nat \<times> 'k) set"
  tc_set_tokens :: "(nat \<times> 'k) set \<Rightarrow> 's \<Rightarrow> 's"

definition ttl_data_init :: "int \<Rightarrow> ('k, 'v) ttl_data" where
  "ttl_data_init max_size =
     \<lparr>td_active = Map.empty, td_owned = [], td_flights = [], td_state = cache_state_init max_size\<rparr>"

text \<open>What the constructor computes from its arguments: the default time to live, the limits and the
  clock.\<close>

definition ttl_cache_init ::
  "pyval \<Rightarrow> pyval \<Rightarrow> pyval option \<Rightarrow> ('s, 'k cache_exn, int) act callback
   \<Rightarrow> 'k cache_exn + int \<times> int \<times> ('s, 'k cache_exn, int) act \<times> ('k, 'v) ttl_data" where
  "ttl_cache_init default_ttl max_size max_inflight clock =
     ebind (ttl_ns default_ttl ''default_ttl'') (\<lambda>dt.
     ebind (cache_positive_int max_size ''max_size'') (\<lambda>ms.
     ebind (case max_inflight of None \<Rightarrow> Inr ms | Some v \<Rightarrow> cache_positive_int v ''max_inflight'') (\<lambda>mi.
     ebind (require_callable clock ''clock'') (\<lambda>cl.
     Inr (dt, mi, cl, ttl_data_init ms)))))"

definition owned_keys :: "('k, 'v) ttl_data \<Rightarrow> 'k set" where
  "owned_keys d = (\<lambda>i. fl_key (td_flights d ! i)) ` set (td_owned d)"

section \<open>Under the lock\<close>

definition tc_supersede :: "'k \<Rightarrow> ('k, 'v) ttl_data \<Rightarrow> ('k, 'v) ttl_data" where
  "tc_supersede key d =
     (case td_active d key of
        None \<Rightarrow> d
      | Some i \<Rightarrow> d\<lparr>td_active := (td_active d)(key := None),
                   td_flights := (td_flights d)[i := (td_flights d ! i)\<lparr>fl_superseded := True\<rparr>]\<rparr>)"

definition tc_get_locked :: "'k \<Rightarrow> int \<Rightarrow> ('k, 'v) ttl_data \<Rightarrow> ('k cache_exn + 'v) \<times> ('k, 'v) ttl_data" where
  "tc_get_locked key now d =
     (let (r, st) = cache_get key now (owned_keys d) (td_state d) in (r, d\<lparr>td_state := st\<rparr>))"

definition tc_store_locked :: "'k \<Rightarrow> 'v \<Rightarrow> int \<Rightarrow> int \<Rightarrow> ('k, 'v) ttl_data \<Rightarrow> ('k, 'v) ttl_data" where
  "tc_store_locked key value ttl now d =
     d\<lparr>td_state := cache_store key value ttl now (owned_keys d) (td_state d)\<rparr>"

definition tc_invalidate_locked :: "'k \<Rightarrow> int \<Rightarrow> ('k, 'v) ttl_data \<Rightarrow> bool \<times> ('k, 'v) ttl_data" where
  "tc_invalidate_locked key now d =
     (let d = tc_supersede key d;
          (r, st) = cache_invalidate key now (owned_keys d) (td_state d)
      in (r, d\<lparr>td_state := st\<rparr>))"

text \<open>\<open>clear\<close> marks every active flight; the values of the active map are visited in any order.\<close>

definition tc_clear_locked :: "('k, 'v) ttl_data \<Rightarrow> ('k, 'v) ttl_data" where
  "tc_clear_locked d =
     (let d = d\<lparr>td_flights := map (\<lambda>i. if td_active d (fl_key (td_flights d ! i)) = Some i
                                      then (td_flights d ! i)\<lparr>fl_superseded := True\<rparr>
                                      else td_flights d ! i) [0..<length (td_flights d)],
               td_active := Map.empty\<rparr>
      in d\<lparr>td_state := cache_clear (owned_keys d) (td_state d)\<rparr>)"

datatype load_decision = Join nat | Reject | Own nat

definition tc_admit :: "int \<Rightarrow> 'k \<Rightarrow> int \<Rightarrow> nat \<Rightarrow> ('k, 'v) ttl_data \<Rightarrow> load_decision \<times> ('k, 'v) ttl_data" where
  "tc_admit max_inflight key ttl thread d =
     (case td_active d key of
        Some i \<Rightarrow> (Join i, d\<lparr>td_state := (td_state d)\<lparr>st_coalesced_waiters := st_coalesced_waiters (td_state d) + 1\<rparr>\<rparr>)
      | None \<Rightarrow>
          if int (length (td_owned d)) \<ge> max_inflight
          then (Reject, d\<lparr>td_state := (td_state d)\<lparr>st_load_rejections := st_load_rejections (td_state d) + 1\<rparr>\<rparr>)
          else
            let i = length (td_flights d);
                flight = \<lparr>fl_key = key, fl_epoch = st_clear_epoch (td_state d),
                          fl_version = version key (td_state d), fl_ttl_ns = ttl,
                          fl_owner_thread = thread, fl_terminal = False, fl_superseded = False,
                          fl_result = None, fl_error = None\<rparr>
            in (Own i,
                d\<lparr>td_active := (td_active d)(key \<mapsto> i), td_owned := td_owned d @ [i],
                  td_flights := td_flights d @ [flight],
                  td_state := (td_state d)\<lparr>st_loads := st_loads (td_state d) + 1\<rparr>\<rparr>))"

definition tc_can_publish ::
  "nat \<Rightarrow> 'v option \<Rightarrow> 'k cache_exn option \<Rightarrow> ('k, 'v) ttl_data \<Rightarrow> bool" where
  "tc_can_publish i result error d =
     (let flight = td_flights d ! i in
      error = None \<and> result \<noteq> None \<and> \<not> fl_superseded flight
      \<and> st_clear_epoch (td_state d) = fl_epoch flight
      \<and> version (fl_key flight) (td_state d) = fl_version flight
      \<and> td_active d (fl_key flight) = Some i)"

text \<open>The rest of \<open>_finish_flight\<close>, after the publication.\<close>

definition tc_finish_locked ::
  "nat \<Rightarrow> 'v option \<Rightarrow> bool \<Rightarrow> 'k cache_exn option \<Rightarrow> ('k, 'v) ttl_data \<Rightarrow> ('k, 'v) ttl_data" where
  "tc_finish_locked i result loader_failed error d =
     (let key = fl_key (td_flights d ! i);
          d = (if loader_failed
               then d\<lparr>td_state := (td_state d)\<lparr>st_load_failures := st_load_failures (td_state d) + 1\<rparr>\<rparr> else d);
          d = d\<lparr>td_flights := (td_flights d)[i := (td_flights d ! i)
                 \<lparr>fl_result := result, fl_error := error, fl_terminal := True\<rparr>]\<rparr>;
          d = (if td_active d key = Some i then d\<lparr>td_active := (td_active d)(key := None)\<rparr> else d);
          d = d\<lparr>td_owned := removeAll i (td_owned d)\<rparr>
      in d\<lparr>td_state := drop_unused_version key (owned_keys d) (td_state d)\<rparr>)"


section \<open>The public operations\<close>

definition tc_locked ::
  "('s, 'k, 'v) ttl_cache \<Rightarrow> (('k, 'v) ttl_data \<Rightarrow> 'a \<times> ('k, 'v) ttl_data) \<Rightarrow> ('s, 'k cache_exn, 'a) act" where
  "tc_locked self f = (\<lambda>s. case f (tc_get self s) of (x, d) \<Rightarrow> Some (Inr x, tc_put self d s))"

definition tc_now :: "('s, 'k, 'v) ttl_cache \<Rightarrow> ('s, 'k cache_exn, int) act" where
  "tc_now self =
     act_bind (tc_clock self) (\<lambda>tick.
     tc_locked self (\<lambda>d. let (t, st) = clamp_tick tick (td_state d) in (t, d\<lparr>td_state := st\<rparr>)))"






definition tc_stats :: "('s, 'k, 'v) ttl_cache \<Rightarrow> ('s, 'k cache_exn, cache_stats) act" where
  "tc_stats self =
     act_bind (tc_now self) (\<lambda>now.
     tc_locked self (\<lambda>d.
       let (r, st) = cache_stats_of now (owned_keys d) (int (length (td_owned d))) 0
             (int (length (filter (\<lambda>i. fl_superseded (td_flights d ! i)) (td_owned d)))) (td_state d)
       in (r, d\<lparr>td_state := st\<rparr>)))"

definition tc_len :: "('s, 'k, 'v) ttl_cache \<Rightarrow> ('s, 'k cache_exn, int) act" where
  "tc_len self =
     act_bind (tc_now self) (\<lambda>now.
     tc_locked self (\<lambda>d. let (r, st) = cache_size now (owned_keys d) (td_state d) in (r, d\<lparr>td_state := st\<rparr>)))"






section \<open>The invariant of the flights\<close>

text \<open>The active flights are exactly the owned ones that were not superseded, at most one per key, and
  for these the epoch and the version of their key are those they started with. An owned flight is
  not terminal yet.\<close>

definition flights_but :: "nat set \<Rightarrow> ('k, 'v) ttl_data \<Rightarrow> bool" where
  "flights_but X d \<longleftrightarrow>
     cache_ok (td_state d) \<and> distinct (td_owned d)
     \<and> (\<forall>i\<in>set (td_owned d). i < length (td_flights d) \<and> \<not> fl_terminal (td_flights d ! i))
     \<and> (\<forall>k i. td_active d k = Some i \<longleftrightarrow>
          i \<in> set (td_owned d) \<and> fl_key (td_flights d ! i) = k \<and> \<not> fl_superseded (td_flights d ! i))
     \<and> (\<forall>i\<in>set (td_owned d) - X. \<not> fl_superseded (td_flights d ! i) \<longrightarrow>
          version (fl_key (td_flights d ! i)) (td_state d) = fl_version (td_flights d ! i)
          \<and> st_clear_epoch (td_state d) = fl_epoch (td_flights d ! i))"

definition flights_ok :: "('k, 'v) ttl_data \<Rightarrow> bool" where
  "flights_ok d \<longleftrightarrow> flights_but {} d"

lemma flights_butD:
  assumes "flights_but X d"
  shows "cache_ok (td_state d)" "distinct (td_owned d)"
    "i \<in> set (td_owned d) \<Longrightarrow> i < length (td_flights d)"
    "i \<in> set (td_owned d) \<Longrightarrow> \<not> fl_terminal (td_flights d ! i)"
    "td_active d k = Some i \<longleftrightarrow>
       i \<in> set (td_owned d) \<and> fl_key (td_flights d ! i) = k \<and> \<not> fl_superseded (td_flights d ! i)"
    "i \<in> set (td_owned d) \<Longrightarrow> i \<notin> X \<Longrightarrow> \<not> fl_superseded (td_flights d ! i) \<Longrightarrow>
       version (fl_key (td_flights d ! i)) (td_state d) = fl_version (td_flights d ! i)
       \<and> st_clear_epoch (td_state d) = fl_epoch (td_flights d ! i)"
  using assms unfolding flights_but_def by blast+

lemmas flights_okD = flights_butD [where X = "{}", folded flights_ok_def, simplified]

lemma flights_butI:
  assumes "cache_ok (td_state d)" "distinct (td_owned d)"
    "\<And>i. i \<in> set (td_owned d) \<Longrightarrow> i < length (td_flights d)"
    "\<And>i. i \<in> set (td_owned d) \<Longrightarrow> \<not> fl_terminal (td_flights d ! i)"
    "\<And>k i. td_active d k = Some i \<longleftrightarrow>
       i \<in> set (td_owned d) \<and> fl_key (td_flights d ! i) = k \<and> \<not> fl_superseded (td_flights d ! i)"
    "\<And>i. i \<in> set (td_owned d) \<Longrightarrow> i \<notin> X \<Longrightarrow> \<not> fl_superseded (td_flights d ! i) \<Longrightarrow>
       version (fl_key (td_flights d ! i)) (td_state d) = fl_version (td_flights d ! i)
       \<and> st_clear_epoch (td_state d) = fl_epoch (td_flights d ! i)"
  shows "flights_but X d"
  using assms unfolding flights_but_def by blast

lemmas flights_okI = flights_butI [where X = "{}", folded flights_ok_def, simplified]

lemma flights_ok_but: "flights_ok d \<Longrightarrow> flights_but X d"
  unfolding flights_ok_def flights_but_def by blast

lemma flights_ok_init: "1 \<le> n \<Longrightarrow> flights_ok (ttl_data_init n)"
  by (simp add: flights_ok_def flights_but_def ttl_data_init_def cache_ok_init)

lemma flights_state:
  assumes "flights_ok d" and "cache_ok st"
    and "\<And>i. i \<in> set (td_owned d) \<Longrightarrow> \<not> fl_superseded (td_flights d ! i) \<Longrightarrow>
      version (fl_key (td_flights d ! i)) st = version (fl_key (td_flights d ! i)) (td_state d)
      \<and> st_clear_epoch st = st_clear_epoch (td_state d)"
  shows "flights_ok (d\<lparr>td_state := st\<rparr>)"
  using assms by (auto simp: flights_ok_def flights_but_def)

lemma flights_frame:
  assumes "flights_ok d" and "cache_ok st" and "same_frame (owned_keys d) (td_state d) st"
  shows "flights_ok (d\<lparr>td_state := st\<rparr>)"
  using assms by (intro flights_state) (auto simp: same_frame_def owned_keys_def)

lemma flights_cache_ok: "flights_ok d \<Longrightarrow> cache_ok (td_state d)"
  by (rule flights_okD)

lemma get_locked_ok:
  assumes "flights_ok d" and "tc_get_locked k now d = (r, d')"
  shows "flights_ok d'"
proof -
  have "d' = d\<lparr>td_state := snd (cache_get k now (owned_keys d) (td_state d))\<rparr>"
    using assms(2) by (auto simp: tc_get_locked_def split: prod.splits)
  then show ?thesis
    using flights_frame [OF assms(1) get_ok [OF flights_cache_ok [OF assms(1)]] get_frame] by simp
qed

lemma supersede_ok:
  assumes "flights_ok d"
  shows "flights_ok (tc_supersede k d)" and "td_active (tc_supersede k d) k = None"
    and "td_state (tc_supersede k d) = td_state d" and "td_owned (tc_supersede k d) = td_owned d"
proof -
  show "flights_ok (tc_supersede k d)"
  proof (cases "td_active d k")
    case None
    then show ?thesis using assms by (simp add: tc_supersede_def)
  next
    case (Some i)
    note D = flights_okD [OF assms]
    have i: "i \<in> set (td_owned d)" "fl_key (td_flights d ! i) = k" "i < length (td_flights d)"
      using Some D(3,5) by auto
    let ?d = "tc_supersede k d"
    have fl: "td_flights ?d ! j = (if j = i then (td_flights d ! i)\<lparr>fl_superseded := True\<rparr> else td_flights d ! j)" for j
      using i(3) Some by (simp add: tc_supersede_def)
    have rest: "td_owned ?d = td_owned d" "td_state ?d = td_state d"
      "length (td_flights ?d) = length (td_flights d)" "td_active ?d = (td_active d)(k := None)"
      using Some by (simp_all add: tc_supersede_def)
    have act: "td_active d k' = Some j \<Longrightarrow> j = i \<Longrightarrow> k' = k" for k' j using D(5) i(2) by auto
    show ?thesis
    proof (rule flights_okI; unfold rest)
      show "((td_active d)(k := None)) k' = Some j \<longleftrightarrow>
          j \<in> set (td_owned d) \<and> fl_key (td_flights ?d ! j) = k' \<and> \<not> fl_superseded (td_flights ?d ! j)" for k' j
        using D(5) [of k' j] D(5) [of k j] Some i(2) by (auto simp: fl)
    qed (use D in \<open>auto simp: fl split: if_splits\<close>)
  qed
qed (auto simp: tc_supersede_def split: option.split)

text \<open>A flight is superseded for good, and a key without an active flight has no flight that could
  publish.\<close>

lemma no_active_no_publish:
  assumes "flights_ok d" "td_active d k = None" "i \<in> set (td_owned d)" "fl_key (td_flights d ! i) = k"
  shows "fl_superseded (td_flights d ! i)"
  using assms flights_okD(5) [OF assms(1), of k i] by auto

lemma store_locked_ok:
  assumes "flights_ok d" and "td_active d k = None"
  shows "flights_ok (tc_store_locked k x ttl now d)"
proof -
  have ok: "cache_ok (td_state d)" by (rule flights_cache_ok [OF assms(1)])
  then have fr: "same_frame (owned_keys d - {k}) (td_state d) (cache_store k x ttl now (owned_keys d) (td_state d))"
    by (intro store_frame) (simp add: cache_ok_def)
  show ?thesis
    unfolding tc_store_locked_def
  proof (rule flights_state [OF assms(1) store_ok [OF ok]])
    fix i
    assume i: "i \<in> set (td_owned d)" "\<not> fl_superseded (td_flights d ! i)"
    then have "fl_key (td_flights d ! i) \<noteq> k" using no_active_no_publish [OF assms] by blast
    then show "version (fl_key (td_flights d ! i)) (cache_store k x ttl now (owned_keys d) (td_state d)) =
        version (fl_key (td_flights d ! i)) (td_state d)
      \<and> st_clear_epoch (cache_store k x ttl now (owned_keys d) (td_state d)) = st_clear_epoch (td_state d)"
      using fr i by (auto simp: same_frame_def owned_keys_def)
  qed
qed

lemma invalidate_locked_ok:
  assumes "flights_ok d" and "tc_invalidate_locked k now d = (r, d')"
  shows "flights_ok d'"
proof -
  let ?d = "tc_supersede k d"
  note d = supersede_ok [OF assms(1), of k]
  have "flights_ok (?d\<lparr>td_state := snd (cache_invalidate k now (owned_keys ?d) (td_state ?d))\<rparr>)"
  proof (rule flights_state [OF d(1) invalidate_ok [OF flights_cache_ok [OF d(1)]]])
    fix i
    assume i: "i \<in> set (td_owned ?d)" "\<not> fl_superseded (td_flights ?d ! i)"
    then have "fl_key (td_flights ?d ! i) \<noteq> k" using no_active_no_publish [OF d(1,2)] by blast
    then show "version (fl_key (td_flights ?d ! i)) (snd (cache_invalidate k now (owned_keys ?d) (td_state ?d))) =
        version (fl_key (td_flights ?d ! i)) (td_state ?d)
      \<and> st_clear_epoch (snd (cache_invalidate k now (owned_keys ?d) (td_state ?d))) = st_clear_epoch (td_state ?d)"
      using invalidate_frame [of "owned_keys ?d" k "td_state ?d" now] i
      by (auto simp: same_frame_def owned_keys_def)
  qed
  then show ?thesis using assms(2) by (auto simp: tc_invalidate_locked_def Let_def split: prod.splits)
qed

lemma clear_locked_ok:
  assumes "flights_ok d"
  shows "flights_ok (tc_clear_locked d)"
proof -
  have "fl_superseded (td_flights (tc_clear_locked d) ! i)" if "i \<in> set (td_owned d)" for i
    using flights_okD(3,5) [OF assms] that by (auto simp: tc_clear_locked_def Let_def)
  moreover have "cache_ok (td_state (tc_clear_locked d))"
    using clear_ok [OF flights_cache_ok [OF assms]] by (simp add: tc_clear_locked_def Let_def)
  moreover have "td_owned (tc_clear_locked d) = td_owned d" "td_active (tc_clear_locked d) = Map.empty"
    "length (td_flights (tc_clear_locked d)) = length (td_flights d)"
    by (simp_all add: tc_clear_locked_def Let_def)
  moreover have "fl_terminal (td_flights (tc_clear_locked d) ! i) = fl_terminal (td_flights d ! i)"
    if "i < length (td_flights d)" for i
    using that by (simp add: tc_clear_locked_def Let_def)
  ultimately show ?thesis using assms by (auto simp: flights_ok_def flights_but_def)
qed

lemma admit_ok:
  assumes "flights_ok d" and "tc_admit m k ttl th d = (r, d')"
  shows "flights_ok d'"
proof (cases "td_active d k")
  case (Some i)
  then show ?thesis using assms by (auto simp: tc_admit_def flights_ok_def flights_but_def)
next
  case None
  then have "fl_superseded (td_flights d ! i)" if "i \<in> set (td_owned d)" "fl_key (td_flights d ! i) = k" for i
    using no_active_no_publish [OF assms(1)] that by blast
  note D = flights_okD [OF assms(1)] and sup = this
  show ?thesis
  proof (cases "m \<le> int (length (td_owned d))")
    case True
    then show ?thesis using assms None by (auto simp: tc_admit_def flights_ok_def flights_but_def)
  next
    case False
    let ?n = "length (td_flights d)"
    have d': "td_owned d' = td_owned d @ [?n]" "td_active d' = (td_active d)(k \<mapsto> ?n)"
      "length (td_flights d') = Suc ?n" "cache_ok (td_state d') = cache_ok (td_state d)"
      "version k' (td_state d') = version k' (td_state d)" "st_clear_epoch (td_state d') = st_clear_epoch (td_state d)"
      "i < ?n \<Longrightarrow> td_flights d' ! i = td_flights d ! i"
      "fl_key (td_flights d' ! ?n) = k" "\<not> fl_terminal (td_flights d' ! ?n)"
      "\<not> fl_superseded (td_flights d' ! ?n)" "fl_version (td_flights d' ! ?n) = version k (td_state d)"
      "fl_epoch (td_flights d' ! ?n) = st_clear_epoch (td_state d)" for k' i
      using assms(2) None False by (auto simp: tc_admit_def Let_def nth_append)
    have fresh: "?n \<notin> set (td_owned d)" using D(3) by blast
    show ?thesis
    proof (rule flights_okI; unfold d')
      show "((td_active d)(k \<mapsto> ?n)) k' = Some i \<longleftrightarrow>
          i \<in> set (td_owned d @ [?n]) \<and> fl_key (td_flights d' ! i) = k' \<and> \<not> fl_superseded (td_flights d' ! i)" for k' i
      proof (cases "i = ?n")
        case True
        then show ?thesis using D(5) [of k' ?n] fresh d'(8,10) by auto
      next
        case False
        then show ?thesis using D(5) [of k' i] D(3) [of i] d'(7) [of i] sup [of i] None by auto
      qed
    qed (use D d'(7-12) fresh in \<open>auto simp: less_Suc_eq\<close>)
  qed
qed

lemma finish_locked_ok:
  assumes "flights_but {i} d" and "i \<in> set (td_owned d)"
  shows "flights_ok (tc_finish_locked i r lf e d)"
proof -
  have il: "i < length (td_flights d)" using flights_butD(3) [OF assms(1)] assms(2) by blast
  let ?d = "tc_finish_locked i r lf e d"
  have owned: "set (td_owned ?d) = set (td_owned d) - {i}" "distinct (td_owned ?d)"
    using flights_butD(2) [OF assms(1)] by (auto simp: tc_finish_locked_def Let_def distinct_removeAll)
  have other: "j \<noteq> i \<Longrightarrow> td_flights ?d ! j = td_flights d ! j" for j
    by (simp add: tc_finish_locked_def Let_def)
  have active: "td_active ?d k = (if td_active d k = Some i then None else td_active d k)" for k
    using flights_butD(5) [OF assms(1), of k i] by (auto simp: tc_finish_locked_def Let_def)
  have vers: "version (fl_key (td_flights d ! j)) (td_state ?d) = version (fl_key (td_flights d ! j)) (td_state d)"
    if "j \<in> set (td_owned d) - {i}" for j
    using that other il
    by (auto simp: tc_finish_locked_def Let_def owned_keys_def intro!: drop_version [THEN trans])
  have "cache_ok (td_state ?d)" "st_clear_epoch (td_state ?d) = st_clear_epoch (td_state d)"
    "length (td_flights ?d) = length (td_flights d)"
    using flights_butD(1) [OF assms(1)] by (auto simp: tc_finish_locked_def Let_def drop_ok)
  note rest = this
  note D = flights_butD [OF assms(1)]
  have ne: "j \<in> set (td_owned ?d) \<Longrightarrow> j \<noteq> i \<and> j \<in> set (td_owned d)" for j using owned by auto
  show ?thesis
  proof (rule flights_okI)
    show "td_active ?d k = Some j \<longleftrightarrow>
        j \<in> set (td_owned ?d) \<and> fl_key (td_flights ?d ! j) = k \<and> \<not> fl_superseded (td_flights ?d ! j)" for k j
    proof (cases "j = i")
      case True
      then show ?thesis using D(5) [of k i] owned(1) by (simp add: active)
    next
      case False
      then have "td_active ?d k = Some j \<longleftrightarrow> td_active d k = Some j" by (simp add: active)
      then show ?thesis using D(5) [of k j] owned(1) other [OF False] False by simp
    qed
    show "version (fl_key (td_flights ?d ! j)) (td_state ?d) = fl_version (td_flights ?d ! j)
        \<and> st_clear_epoch (td_state ?d) = fl_epoch (td_flights ?d ! j)"
      if "j \<in> set (td_owned ?d)" "\<not> fl_superseded (td_flights ?d ! j)" for j
    proof -
      have j: "j \<noteq> i" "j \<in> set (td_owned d)" using ne [OF that(1)] by simp_all
      then have sup: "\<not> fl_superseded (td_flights d ! j)" using that(2) other by simp
      have "j \<in> set (td_owned d) - {i}" using j by simp
      then show ?thesis using D(6) [OF j(2) _ sup] vers [of j] rest(2) other [OF j(1)] j(1) by simp
    qed
    show "j < length (td_flights ?d)" "\<not> fl_terminal (td_flights ?d ! j)" if "j \<in> set (td_owned ?d)" for j
      using ne [OF that] D(3) [of j] D(4) [of j] rest(3) other [of j] by simp_all
  qed (simp_all add: rest owned(2))
qed

text \<open>Publishing bumps the version of the key; the flight that publishes is on its way out.\<close>

lemma publish_ok:
  assumes "flights_ok d" and "td_active d k = Some i"
  shows "flights_but {i} (tc_store_locked k x ttl now d)"
proof -
  note D = flights_okD [OF assms(1)]
  have ok: "cache_ok (td_state d)" by (rule D)
  then have fr: "same_frame (owned_keys d - {k}) (td_state d) (cache_store k x ttl now (owned_keys d) (td_state d))"
    by (intro store_frame) (simp add: cache_ok_def)
  show ?thesis
  proof (rule flights_butI)
    fix j
    assume j: "j \<in> set (td_owned (tc_store_locked k x ttl now d))" "j \<notin> {i}"
      "\<not> fl_superseded (td_flights (tc_store_locked k x ttl now d) ! j)"
    then have "fl_key (td_flights d ! j) \<noteq> k"
      using D(5) [of k j] assms(2) by (auto simp: tc_store_locked_def)
    then have "fl_key (td_flights d ! j) \<in> owned_keys d - {k}"
      using j by (auto simp: owned_keys_def tc_store_locked_def)
    then show "version (fl_key (td_flights (tc_store_locked k x ttl now d) ! j)) (td_state (tc_store_locked k x ttl now d))
        = fl_version (td_flights (tc_store_locked k x ttl now d) ! j)
      \<and> st_clear_epoch (td_state (tc_store_locked k x ttl now d))
        = fl_epoch (td_flights (tc_store_locked k x ttl now d) ! j)"
      using fr j D(6) [of j] by (simp add: same_frame_def tc_store_locked_def)
  qed (use D store_ok [OF ok] in \<open>simp_all add: tc_store_locked_def\<close>)
qed

section \<open>Interleavings\<close>

text \<open>One lock block of some thread. \<open>finish\<close> is the whole of \<open>_finish_flight\<close>, with the clock reading
  \<open>now\<close>; the \<open>failed\<close> blocks are those in which the clock raised; \<open>m\<close> is \<open>max_inflight\<close>.\<close>

definition tc_finish ::
  "nat \<Rightarrow> 'v option \<Rightarrow> 'k cache_exn option \<Rightarrow> int \<Rightarrow> ('k, 'v) ttl_data \<Rightarrow> ('k, 'v) ttl_data" where
  "tc_finish i result error now d =
     tc_finish_locked i result (error \<noteq> None) error
       (case (tc_can_publish i result error d, result) of
          (True, Some x) \<Rightarrow> tc_store_locked (fl_key (td_flights d ! i)) x (fl_ttl_ns (td_flights d ! i)) now d
        | _ \<Rightarrow> d)"

inductive tc_step :: "int \<Rightarrow> ('k, 'v) ttl_data \<Rightarrow> ('k, 'v) ttl_data \<Rightarrow> bool" for m :: int where
  get: "tc_get_locked k now d = (r, d') \<Longrightarrow> tc_step m d d'"
| set: "tc_step m d (tc_store_locked k x ttl now (tc_supersede k d))"
| invalidate: "tc_invalidate_locked k now d = (r, d') \<Longrightarrow> tc_step m d d'"
| clear: "tc_step m d (tc_clear_locked d)"
| admit: "tc_admit m k ttl th d = (r, d') \<Longrightarrow> tc_step m d d'"
| finish: "i \<in> set (td_owned d) \<Longrightarrow> tc_step m d (tc_finish i r e now d)"
| finish_failed: "i \<in> set (td_owned d) \<Longrightarrow> tc_step m d (tc_finish_locked i r False (Some e) d)"
| set_failed: "tc_step m d (tc_supersede k d)"
| clamp: "clamp_tick t (td_state d) = (t', st) \<Longrightarrow> tc_step m d (d\<lparr>td_state := st\<rparr>)"
| size: "cache_size now (owned_keys d) (td_state d) = (n, st) \<Longrightarrow> tc_step m d (d\<lparr>td_state := st\<rparr>)"
| stats: "cache_stats_of now (owned_keys d) a b c (td_state d) = (q, st) \<Longrightarrow> tc_step m d (d\<lparr>td_state := st\<rparr>)"

lemma finish_ok:
  assumes "flights_ok d" and "i \<in> set (td_owned d)"
  shows "flights_ok (tc_finish i r e now d)"
proof (cases "tc_can_publish i r e d")
  case False
  then show ?thesis using finish_locked_ok [OF flights_ok_but [OF assms(1)] assms(2)] by (simp add: tc_finish_def)
next
  case True
  then obtain x where x: "r = Some x" by (auto simp: tc_can_publish_def Let_def)
  have "td_active d (fl_key (td_flights d ! i)) = Some i" using True by (simp add: tc_can_publish_def Let_def)
  from finish_locked_ok [OF publish_ok [OF assms(1) this]] show ?thesis
    using True assms(2) by (simp add: tc_finish_def x) (simp add: tc_store_locked_def)
qed

definition tc_inv :: "int \<Rightarrow> ('k, 'v) ttl_data \<Rightarrow> bool" where
  "tc_inv m d \<longleftrightarrow> flights_ok d \<and> int (length (td_owned d)) \<le> m"

lemma owned_simps [simp]:
  "td_owned (tc_store_locked k x ttl now d) = td_owned d" "td_owned (tc_supersede k d) = td_owned d"
  "td_owned (tc_clear_locked d) = td_owned d" "td_flights (tc_store_locked k x ttl now d) = td_flights d"
  "td_active (tc_store_locked k x ttl now d) = td_active d"
  by (simp_all add: tc_store_locked_def tc_supersede_def tc_clear_locked_def Let_def split: option.split)

lemma owned_locked:
  "tc_get_locked k now d = (r, d') \<Longrightarrow> td_owned d' = td_owned d"
  "tc_invalidate_locked k now d = (b, d') \<Longrightarrow> td_owned d' = td_owned d"
  "td_owned (tc_finish_locked i res lf e d) = removeAll i (td_owned d)"
  "td_owned (tc_finish i res e now d) = removeAll i (td_owned d)"
  by (auto simp: tc_get_locked_def tc_invalidate_locked_def tc_finish_def tc_finish_locked_def Let_def
      split: prod.splits option.splits bool.splits)

lemma tc_step_inv: "tc_inv m d \<Longrightarrow> tc_step m d d' \<Longrightarrow> tc_inv m d'"
proof -
  assume inv: "tc_inv m d" and "tc_step m d d'"
  then have ok: "flights_ok d" and len: "int (length (td_owned d)) \<le> m" by (auto simp: tc_inv_def)
  from \<open>tc_step m d d'\<close> show "tc_inv m d'"
  proof cases
    case (get k now r)
    then show ?thesis using get_locked_ok [OF ok get] owned_locked(1) [OF get] len by (simp add: tc_inv_def)
  next
    case (set k x ttl now)
    then show ?thesis
      using store_locked_ok [OF supersede_ok(1,2) [OF ok]] len by (simp add: tc_inv_def)
  next
    case (invalidate k now r)
    then show ?thesis
      using invalidate_locked_ok [OF ok invalidate] owned_locked(2) [OF invalidate] len by (simp add: tc_inv_def)
  next
    case clear
    then show ?thesis using clear_locked_ok [OF ok] len by (simp add: tc_inv_def)
  next
    case (admit k ttl th r)
    then show ?thesis
      using admit_ok [OF ok] len by (auto simp: tc_inv_def tc_admit_def Let_def split: option.splits if_splits)
  next
    case (finish i r e now)
    have "length (td_owned d') \<le> length (td_owned d)" unfolding finish(1) owned_locked(4) by simp
    then show ?thesis using finish finish_ok [OF ok finish(2)] len by (simp add: tc_inv_def)
  next
    case (finish_failed i r e)
    have "length (td_owned d') \<le> length (td_owned d)" unfolding finish_failed(1) owned_locked(3) by simp
    then show ?thesis
      using finish_failed finish_locked_ok [OF flights_ok_but [OF ok] finish_failed(2)] len by (simp add: tc_inv_def)
  next
    case (set_failed k)
    then show ?thesis using supersede_ok(1) [OF ok] len by (simp add: tc_inv_def)
  next
    case (clamp t t' st)
    then have "cache_ok st" using clamp_ok [of t "td_state d"] flights_cache_ok [OF ok] by simp
    moreover have "version k st = version k (td_state d) \<and> st_clear_epoch st = st_clear_epoch (td_state d)" for k
      using clamp(2) by (auto simp: clamp_tick_def Let_def version_def)
    ultimately show ?thesis using clamp(1) flights_state [OF ok] len by (simp add: tc_inv_def)
  next
    case (size now n st)
    then show ?thesis
      using flights_frame [OF ok size_ok [OF flights_cache_ok [OF ok]] size_frame, of now] len
      by (simp add: tc_inv_def)
  next
    case (stats now a b c q st)
    then show ?thesis
      using flights_frame [OF ok stats_ok [OF flights_cache_ok [OF ok]] stats_frame, of now a b c] len
      by (simp add: tc_inv_def)
  qed
qed

interpretation tcs: transition_invariant "tc_step m" "tc_inv m"
  by unfold_locales (rule tc_step_inv)

text \<open>A flight keeps its key, and once superseded it stays so.\<close>

definition flight_mono :: "('k, 'v) ttl_data \<Rightarrow> ('k, 'v) ttl_data \<Rightarrow> bool" where
  "flight_mono d d' \<longleftrightarrow>
     length (td_flights d) \<le> length (td_flights d')
     \<and> (\<forall>i < length (td_flights d). fl_key (td_flights d' ! i) = fl_key (td_flights d ! i)
          \<and> (fl_superseded (td_flights d ! i) \<longrightarrow> fl_superseded (td_flights d' ! i)))"

lemma flight_mono_refl: "flight_mono d d"
  by (simp add: flight_mono_def)

lemma flight_mono_trans: "flight_mono d e \<Longrightarrow> flight_mono e f \<Longrightarrow> flight_mono d f"
  by (auto simp: flight_mono_def)

lemma flight_mono_update:
  "fl_key f = fl_key (td_flights d ! i) \<Longrightarrow> (fl_superseded (td_flights d ! i) \<Longrightarrow> fl_superseded f) \<Longrightarrow>
   td_flights d' = (td_flights d)[i := f] \<Longrightarrow> flight_mono d d'"
  by (cases "i < length (td_flights d)") (auto simp: flight_mono_def nth_list_update)

lemma flight_mono_same: "td_flights d' = td_flights d \<Longrightarrow> flight_mono d d'"
  by (simp add: flight_mono_def)

lemma supersede_mono: "flight_mono d (tc_supersede k d)"
proof (cases "td_active d k")
  case None
  then show ?thesis by (simp add: tc_supersede_def flight_mono_refl)
next
  case (Some i)
  show ?thesis
    by (rule flight_mono_update [where i = i and f = "(td_flights d ! i)\<lparr>fl_superseded := True\<rparr>"])
      (simp_all add: tc_supersede_def Some)
qed

lemma store_mono: "flight_mono d (tc_store_locked k x ttl now d)"
  by (rule flight_mono_same) simp

lemma finish_flights:
  "td_flights (tc_finish_locked i r lf e d) =
     (td_flights d)[i := (td_flights d ! i)\<lparr>fl_result := r, fl_error := e, fl_terminal := True\<rparr>]"
  by (simp add: tc_finish_locked_def Let_def)

lemma finish_mono: "flight_mono d (tc_finish i r e now d)"
proof -
  let ?d = "case (tc_can_publish i r e d, r) of
      (True, Some x) \<Rightarrow> tc_store_locked (fl_key (td_flights d ! i)) x (fl_ttl_ns (td_flights d ! i)) now d | _ \<Rightarrow> d"
  have eq: "td_flights ?d = td_flights d" by (auto split: bool.split option.split)
  show ?thesis
    by (rule flight_mono_update [where i = i and f = "(td_flights d ! i)\<lparr>fl_result := r, fl_error := e, fl_terminal := True\<rparr>"])
      (simp_all only: tc_finish_def finish_flights eq, simp_all)
qed

lemma invalidate_mono:
  assumes "tc_invalidate_locked k now d = (r, d')"
  shows "flight_mono d d'"
proof -
  have "td_flights d' = td_flights (tc_supersede k d)"
    using assms by (auto simp: tc_invalidate_locked_def Let_def split: prod.splits)
  then show ?thesis by (rule flight_mono_trans [OF supersede_mono flight_mono_same])
qed

lemma clear_mono: "flight_mono d (tc_clear_locked d)"
  by (auto simp: flight_mono_def tc_clear_locked_def Let_def)

lemma tc_step_mono: "tc_step m d d' \<Longrightarrow> flight_mono d d'"
proof (induction rule: tc_step.induct)
  case (get k now d r d')
  then show ?case by (intro flight_mono_same) (auto simp: tc_get_locked_def split: prod.splits)
next
  case (set d k x ttl now)
  show ?case by (rule flight_mono_trans [OF supersede_mono store_mono])
next
  case (admit k ttl th d r d')
  then show ?case
    by (auto simp: tc_admit_def Let_def flight_mono_def nth_append split: option.splits if_splits)
next
  case (finish_failed i d r e)
  show ?case
    by (rule flight_mono_update [OF _ _ finish_flights]) simp_all
qed (auto intro: invalidate_mono clear_mono finish_mono supersede_mono flight_mono_same)

lemma tc_run_mono: "(tc_step m)\<^sup>*\<^sup>* d d' \<Longrightarrow> flight_mono d d'"
  by (induction rule: rtranclp_induct) (auto intro: flight_mono_refl flight_mono_trans tc_step_mono)

lemma tc_reachable_inv:
  assumes "1 \<le> n" "0 \<le> m" "(tc_step m)\<^sup>*\<^sup>* (ttl_data_init n) d"
  shows "tc_inv m d"
  using tcs.run_inv [OF assms(3)] flights_ok_init [OF assms(1)] assms(2)
  by (simp add: tc_inv_def ttl_data_init_def)

text \<open>The three operations that make a load of \<open>k\<close> stale.\<close>

definition makes_stale :: "'k \<Rightarrow> ('k, 'v) ttl_data \<Rightarrow> ('k, 'v) ttl_data \<Rightarrow> bool" where
  "makes_stale k d d' \<longleftrightarrow>
     (\<exists>x ttl now. d' = tc_store_locked k x ttl now (tc_supersede k d))
     \<or> (\<exists>now r. tc_invalidate_locked k now d = (r, d')) \<or> d' = tc_clear_locked d"

lemma makes_stale_superseded:
  assumes "flights_ok d" "i \<in> set (td_owned d)" "makes_stale (fl_key (td_flights d ! i)) d d'"
  shows "fl_superseded (td_flights d' ! i)"
proof -
  let ?k = "fl_key (td_flights d ! i)"
  have i: "i < length (td_flights d)" using flights_okD(3) [OF assms(1,2)] .
  have "fl_key (td_flights (tc_supersede ?k d) ! i) = ?k" using supersede_mono [of d ?k] i by (simp add: flight_mono_def)
  then have sup: "fl_superseded (td_flights (tc_supersede ?k d) ! i)"
    using no_active_no_publish [OF supersede_ok(1,2) [OF assms(1)]] assms(2) by simp
  have "td_flights d' = td_flights (tc_supersede ?k d)" if "tc_invalidate_locked ?k now d = (r, d')" for now r
    using that by (auto simp: tc_invalidate_locked_def Let_def split: prod.splits)
  moreover have "fl_superseded (td_flights (tc_clear_locked d) ! i)"
    using flights_okD(5) [OF assms(1), of ?k i] assms(2) i by (auto simp: tc_clear_locked_def Let_def)
  ultimately show ?thesis using assms(3) sup by (auto simp: makes_stale_def)
qed

section \<open>Calls\<close>





















section \<open>Properties\<close>

text \<open>C3: no stale load is ever published. In any interleaving of the lock blocks of any number of
  threads, if the key of a running load is set or invalidated, or the cache is cleared, then
  whatever happens afterwards, the end of that load does not change the entries.\<close>

theorem stale_load_not_published:
  assumes "1 \<le> n" "0 \<le> m" "(tc_step m)\<^sup>*\<^sup>* (ttl_data_init n) d" and "i \<in> set (td_owned d)"
    and "makes_stale (fl_key (td_flights d ! i)) d d1" and "(tc_step m)\<^sup>*\<^sup>* d1 d2"
  shows "\<not> tc_can_publish i r e d2
    \<and> st_entries (td_state (tc_finish i r e now d2)) = st_entries (td_state d2)"
proof -
  have inv: "tc_inv m d" by (rule tc_reachable_inv [OF assms(1-3)])
  then have ok: "flights_ok d" by (simp add: tc_inv_def)
  have "fl_superseded (td_flights d1 ! i)" by (rule makes_stale_superseded [OF ok assms(4,5)])
  moreover have "flight_mono d d1"
    using assms(5) invalidate_mono clear_mono flight_mono_trans [OF supersede_mono store_mono]
    by (auto simp: makes_stale_def)
  then have "i < length (td_flights d1)"
    using flights_okD(3) [OF ok assms(4)] by (auto simp: flight_mono_def)
  ultimately have "fl_superseded (td_flights d2 ! i)"
    using tc_run_mono [OF assms(6)] by (auto simp: flight_mono_def)
  then show ?thesis
    by (simp add: tc_can_publish_def tc_finish_def tc_finish_locked_def Let_def)
qed

theorem stale_load_not_published_witness:
  "let d = snd (tc_admit 4 (1::nat) 5 0 (ttl_data_init 3 :: (nat, char) ttl_data));
       d1 = tc_clear_locked d
   in st_entries (td_state (tc_finish 0 (Some CHR ''x'') None 0 d1)) = st_entries (td_state d1)"
proof -
  define d where "d = snd (tc_admit 4 (1::nat) 5 0 (ttl_data_init 3 :: (nat, char) ttl_data))"
  have "tc_step 4 (ttl_data_init 3) d"
    unfolding d_def by (rule tc_step.admit) (rule prod.collapse [symmetric])
  moreover have "0 \<in> set (td_owned d)" by (simp add: d_def tc_admit_def ttl_data_init_def Let_def)
  ultimately have "st_entries (td_state (tc_finish 0 (Some CHR ''x'') None 0 (tc_clear_locked d)))
      = st_entries (td_state (tc_clear_locked d))"
    using stale_load_not_published [of 3 4 d 0 "tc_clear_locked d" "tc_clear_locked d" "Some CHR ''x''" None 0]
    by (auto simp: makes_stale_def)
  then show ?thesis unfolding d_def Let_def .
qed

text \<open>C11: one load per key. In every interleaving the loads in flight stay within \<open>max_inflight\<close>; at
  most one load of a key can publish, and exactly the loads that were not superseded can (the epoch
  and version checks never fail for those); and a miss on a key with such a load joins it instead of
  starting another.\<close>

theorem single_flight:
  assumes "1 \<le> n" "0 \<le> m" "(tc_step m)\<^sup>*\<^sup>* (ttl_data_init n) d" and "i \<in> set (td_owned d)"
  shows "int (length (td_owned d)) \<le> m
    \<and> (tc_can_publish i (Some x) None d \<longleftrightarrow> \<not> fl_superseded (td_flights d ! i))
    \<and> (\<not> fl_superseded (td_flights d ! i) \<longrightarrow>
         fst (tc_admit m (fl_key (td_flights d ! i)) ttl th d) = Join i
         \<and> \<not> (\<exists>j\<in>set (td_owned d) - {i}. fl_key (td_flights d ! j) = fl_key (td_flights d ! i)
                 \<and> \<not> fl_superseded (td_flights d ! j)))"
proof -
  have "tc_inv m d" by (rule tc_reachable_inv [OF assms(1-3)])
  then have ok: "flights_ok d" and len: "int (length (td_owned d)) \<le> m" by (auto simp: tc_inv_def)
  let ?k = "fl_key (td_flights d ! i)"
  have act: "td_active d ?k = Some i \<longleftrightarrow> \<not> fl_superseded (td_flights d ! i)"
    using flights_okD(5) [OF ok, of ?k i] assms(4) by simp
  have "tc_can_publish i (Some x) None d \<longleftrightarrow> \<not> fl_superseded (td_flights d ! i)"
    using act flights_okD(6) [OF ok assms(4)] by (auto simp: tc_can_publish_def Let_def)
  moreover have "\<not> (\<exists>j\<in>set (td_owned d) - {i}. fl_key (td_flights d ! j) = ?k \<and> \<not> fl_superseded (td_flights d ! j))"
    if "td_active d ?k = Some i"
    using flights_okD(5) [OF ok, of ?k] that by force
  ultimately show ?thesis
    using len act by (cases "fl_superseded (td_flights d ! i)") (simp_all add: tc_admit_def)
qed

theorem single_flight_witness:
  "let d = snd (tc_admit 4 (1::nat) 5 0 (ttl_data_init 3 :: (nat, char) ttl_data))
   in fst (tc_admit 4 1 9 7 d) = Join 0"
proof -
  define d where "d = snd (tc_admit 4 (1::nat) 5 0 (ttl_data_init 3 :: (nat, char) ttl_data))"
  have "tc_step 4 (ttl_data_init 3) d"
    unfolding d_def by (rule tc_step.admit) (rule prod.collapse [symmetric])
  moreover have "0 \<in> set (td_owned d)" "fl_key (td_flights d ! 0) = 1" "\<not> fl_superseded (td_flights d ! 0)"
    by (simp_all add: d_def tc_admit_def ttl_data_init_def Let_def)
  ultimately have "fst (tc_admit 4 1 9 7 d) = Join 0"
    using single_flight [of 3 4 d 0 undefined 9 7] by auto
  then show ?thesis unfolding d_def Let_def .
qed








end
