(* ===== verification/Async_Cache.thy ===== *)
theory Async_Cache
  imports Cache_State
begin

text \<open>
  \<open>bluetape.cache._async\<close>: \<open>AsyncTTLCache\<close>, the cache of one event loop. Concurrent misses of a key share
  one load, which runs in a task of its own; the callers wait for that task, each can be cancelled while
  it waits, and the load is cancelled when its last waiter has gone.

  Flight objects live in the list \<open>ad_flights\<close>, a reference to one is its index. The bodies of the
  \<open>async with lock\<close> blocks have no suspension point: each is one step on the data, and the lock is free
  whenever other tasks run. What is foreign is a parameter (\<open>async_cache\<close>): the clock, entering the lock
  (other tasks may run, and the task may be cancelled there), the creation of tasks, and waiting for one
  through \<open>asyncio.shield\<close>. The context variable \<open>_LOAD_SCOPE\<close> is \<open>ac_scope\<close>. The done callback
  \<open>_observe_task\<close> only marks the exception of a task as seen and is left out.
\<close>

record 'k async_flight =
  af_key :: 'k
  af_epoch :: int
  af_version :: int
  af_ttl_ns :: int
  af_sequence :: int
  af_task :: "nat option"
  af_waiters :: int
  af_abandoned :: bool
  af_superseded :: bool

record ('k, 'v) async_data =
  ad_active :: "'k \<rightharpoonup> nat"
  ad_owned :: "nat list"
  ad_flights :: "'k async_flight list"
  ad_sequence :: int
  ad_state :: "('k, 'v) cache_state"

record ('s, 'k, 'v) async_cache =
  ac_default_ttl_ns :: int
  ac_max_inflight :: int
  ac_clock :: "('s, 'k cache_exn, int) act"
  ac_get :: "'s \<Rightarrow> ('k, 'v) async_data"
  ac_put :: "('k, 'v) async_data \<Rightarrow> 's \<Rightarrow> 's"
  ac_loop :: "'s \<Rightarrow> nat option"
  ac_set_loop :: "nat option \<Rightarrow> 's \<Rightarrow> 's"
  ac_running :: "'s \<Rightarrow> nat"
  ac_enter :: "('s, 'k cache_exn, unit) act"
  ac_spawn :: "('s, 'k cache_exn, 'v) act \<Rightarrow> ('s, 'k cache_exn, nat) act"
  ac_spawn_release :: "('s, 'k cache_exn, unit) act \<Rightarrow> ('s, 'k cache_exn, nat) act"
  ac_await :: "nat \<Rightarrow> ('s, 'k cache_exn, 'v) act"
  ac_await_release :: "nat \<Rightarrow> ('s, 'k cache_exn, unit) act"
  ac_done :: "nat \<Rightarrow> 's \<Rightarrow> bool"
  ac_result :: "nat \<Rightarrow> ('s, 'k cache_exn, unit) act"
  ac_cancel :: "nat \<Rightarrow> ('s, 'k cache_exn, unit) act"
  ac_id :: nat
  ac_scope :: "'s \<Rightarrow> (nat \<times> 'k) set"
  ac_set_scope :: "(nat \<times> 'k) set \<Rightarrow> 's \<Rightarrow> 's"

definition async_data_init :: "int \<Rightarrow> ('k, 'v) async_data" where
  "async_data_init max_size =
     \<lparr>ad_active = Map.empty, ad_owned = [], ad_flights = [], ad_sequence = 0, ad_state = cache_state_init max_size\<rparr>"

definition async_cache_init ::
  "pyval \<Rightarrow> pyval \<Rightarrow> pyval option \<Rightarrow> ('s, 'k cache_exn, int) act callback
   \<Rightarrow> 'k cache_exn + int \<times> int \<times> ('s, 'k cache_exn, int) act \<times> ('k, 'v) async_data" where
  "async_cache_init default_ttl max_size max_inflight clock =
     ebind (ttl_ns default_ttl ''default_ttl'') (\<lambda>dt.
     ebind (cache_positive_int max_size ''max_size'') (\<lambda>ms.
     ebind (case max_inflight of None \<Rightarrow> Inr ms | Some v \<Rightarrow> cache_positive_int v ''max_inflight'') (\<lambda>mi.
     ebind (require_callable clock ''clock'') (\<lambda>cl.
     Inr (dt, mi, cl, async_data_init ms)))))"

definition async_owned_keys :: "('k, 'v) async_data \<Rightarrow> 'k set" where
  "async_owned_keys d = (\<lambda>i. af_key (ad_flights d ! i)) ` set (ad_owned d)"

section \<open>Under the lock\<close>

definition ac_supersede :: "'k \<Rightarrow> ('k, 'v) async_data \<Rightarrow> ('k, 'v) async_data" where
  "ac_supersede key d =
     (case ad_active d key of
        None \<Rightarrow> d
      | Some i \<Rightarrow> d\<lparr>ad_active := (ad_active d)(key := None),
                   ad_flights := (ad_flights d)[i := (ad_flights d ! i)\<lparr>af_superseded := True\<rparr>]\<rparr>)"

definition ac_get_locked :: "'k \<Rightarrow> int \<Rightarrow> ('k, 'v) async_data \<Rightarrow> ('k cache_exn + 'v) \<times> ('k, 'v) async_data" where
  "ac_get_locked key now d =
     (let (r, st) = cache_get key now (async_owned_keys d) (ad_state d) in (r, d\<lparr>ad_state := st\<rparr>))"

definition ac_store_locked :: "'k \<Rightarrow> 'v \<Rightarrow> int \<Rightarrow> int \<Rightarrow> ('k, 'v) async_data \<Rightarrow> ('k, 'v) async_data" where
  "ac_store_locked key value ttl now d =
     d\<lparr>ad_state := cache_store key value ttl now (async_owned_keys d) (ad_state d)\<rparr>"

definition ac_invalidate_locked :: "'k \<Rightarrow> int \<Rightarrow> ('k, 'v) async_data \<Rightarrow> bool \<times> ('k, 'v) async_data" where
  "ac_invalidate_locked key now d =
     (let d = ac_supersede key d;
          (r, st) = cache_invalidate key now (async_owned_keys d) (ad_state d)
      in (r, d\<lparr>ad_state := st\<rparr>))"

definition ac_clear_locked :: "('k, 'v) async_data \<Rightarrow> ('k, 'v) async_data" where
  "ac_clear_locked d =
     (let d = d\<lparr>ad_flights := map (\<lambda>i. if ad_active d (af_key (ad_flights d ! i)) = Some i
                                      then (ad_flights d ! i)\<lparr>af_superseded := True\<rparr>
                                      else ad_flights d ! i) [0..<length (ad_flights d)],
               ad_active := Map.empty\<rparr>
      in d\<lparr>ad_state := cache_clear (async_owned_keys d) (ad_state d)\<rparr>)"

text \<open>A miss: join the active flight, be rejected, or own a new flight, whose task is created next.\<close>

datatype async_decision = Join_flight nat | Reject_load | Own_flight nat

definition ac_admit :: "int \<Rightarrow> 'k \<Rightarrow> int \<Rightarrow> ('k, 'v) async_data \<Rightarrow> async_decision \<times> ('k, 'v) async_data" where
  "ac_admit max_inflight key ttl d =
     (case ad_active d key of
        Some i \<Rightarrow>
          (Join_flight i,
           d\<lparr>ad_flights := (ad_flights d)[i := (ad_flights d ! i)\<lparr>af_waiters := af_waiters (ad_flights d ! i) + 1\<rparr>],
             ad_state := (ad_state d)\<lparr>st_coalesced_waiters := st_coalesced_waiters (ad_state d) + 1\<rparr>\<rparr>)
      | None \<Rightarrow>
          if int (length (ad_owned d)) \<ge> max_inflight
          then (Reject_load, d\<lparr>ad_state := (ad_state d)\<lparr>st_load_rejections := st_load_rejections (ad_state d) + 1\<rparr>\<rparr>)
          else
            let i = length (ad_flights d);
                flight = \<lparr>af_key = key, af_epoch = st_clear_epoch (ad_state d),
                          af_version = version key (ad_state d), af_ttl_ns = ttl,
                          af_sequence = ad_sequence d + 1, af_task = None, af_waiters = 1,
                          af_abandoned = False, af_superseded = False\<rparr>
            in (Own_flight i,
                d\<lparr>ad_sequence := ad_sequence d + 1, ad_active := (ad_active d)(key \<mapsto> i),
                  ad_owned := ad_owned d @ [i], ad_flights := ad_flights d @ [flight]\<rparr>))"

text \<open>The task was created.\<close>

definition ac_started :: "nat \<Rightarrow> nat \<Rightarrow> ('k, 'v) async_data \<Rightarrow> ('k, 'v) async_data" where
  "ac_started i task d =
     d\<lparr>ad_flights := (ad_flights d)[i := (ad_flights d ! i)\<lparr>af_task := Some task\<rparr>],
       ad_state := (ad_state d)\<lparr>st_loads := st_loads (ad_state d) + 1\<rparr>\<rparr>"

definition ac_can_publish :: "nat \<Rightarrow> ('k, 'v) async_data \<Rightarrow> bool" where
  "ac_can_publish i d =
     (let flight = ad_flights d ! i in
      \<not> af_abandoned flight \<and> \<not> af_superseded flight
      \<and> st_clear_epoch (ad_state d) = af_epoch flight
      \<and> version (af_key flight) (ad_state d) = af_version flight
      \<and> ad_active d (af_key flight) = Some i)"

text \<open>The \<open>finally\<close> part of \<open>_complete_async_flight\<close>.\<close>

definition ac_complete_locked :: "nat \<Rightarrow> ('k, 'v) async_data \<Rightarrow> ('k, 'v) async_data" where
  "ac_complete_locked i d =
     (let key = af_key (ad_flights d ! i);
          d = (if ad_active d key = Some i then d\<lparr>ad_active := (ad_active d)(key := None)\<rparr> else d);
          d = d\<lparr>ad_owned := removeAll i (ad_owned d)\<rparr>
      in d\<lparr>ad_state := drop_unused_version key (async_owned_keys d) (ad_state d)\<rparr>)"

text \<open>\<open>_release_waiter_locked\<close>: \<open>True\<close> tells the caller to cancel the task.\<close>

definition ac_release_locked :: "nat \<Rightarrow> bool \<Rightarrow> ('k, 'v) async_data \<Rightarrow> bool \<times> ('k, 'v) async_data" where
  "ac_release_locked i task_done d =
     (let d = d\<lparr>ad_flights := (ad_flights d)[i := (ad_flights d ! i)\<lparr>af_waiters := af_waiters (ad_flights d ! i) - 1\<rparr>]\<rparr>
      in if af_waiters (ad_flights d ! i) \<noteq> 0 \<or> task_done then (False, d)
         else
           let key = af_key (ad_flights d ! i);
               d = d\<lparr>ad_flights := (ad_flights d)[i := (ad_flights d ! i)\<lparr>af_abandoned := True\<rparr>]\<rparr>;
               d = (if ad_active d key = Some i then d\<lparr>ad_active := (ad_active d)(key := None)\<rparr> else d)
           in (True, d\<lparr>ad_state := snd (bump_version key (ad_state d))\<rparr>))"

section \<open>The event loop and the lock\<close>

definition ac_require_loop :: "('s, 'k, 'v) async_cache \<Rightarrow> ('s, 'k cache_exn, unit) act" where
  "ac_require_loop self = (\<lambda>s.
     case ac_loop self s of
       None \<Rightarrow> Some (Inr (), ac_set_loop self (Some (ac_running self s)) s)
     | Some loop \<Rightarrow>
         if loop \<noteq> ac_running self s
         then Some (Inl (RuntimeError ''AsyncTTLCache is bound to a different event loop''), s)
         else Some (Inr (), s))"

text \<open>\<open>async with self._bound_lock()\<close>.\<close>

definition ac_bound_lock :: "('s, 'k, 'v) async_cache \<Rightarrow> ('s, 'k cache_exn, 'a) act \<Rightarrow> ('s, 'k cache_exn, 'a) act" where
  "ac_bound_lock self body = act_then (ac_require_loop self) (act_then (ac_enter self) body)"

definition ac_locked ::
  "('s, 'k, 'v) async_cache \<Rightarrow> (('k, 'v) async_data \<Rightarrow> 'a \<times> ('k, 'v) async_data) \<Rightarrow> ('s, 'k cache_exn, 'a) act" where
  "ac_locked self f = (\<lambda>s. case f (ac_get self s) of (x, d) \<Rightarrow> Some (Inr x, ac_put self d s))"

definition ac_now :: "('s, 'k, 'v) async_cache \<Rightarrow> ('s, 'k cache_exn, int) act" where
  "ac_now self =
     act_bind (ac_clock self) (\<lambda>tick.
     ac_locked self (\<lambda>d. let (t, st) = clamp_tick tick (ad_state d) in (t, d\<lparr>ad_state := st\<rparr>)))"

section \<open>The simple operations\<close>

definition ac_entry_ttl :: "('s, 'k, 'v) async_cache \<Rightarrow> pyval option \<Rightarrow> 'k cache_exn + int" where
  "ac_entry_ttl self ttl = (case ttl of None \<Rightarrow> Inr (ac_default_ttl_ns self) | Some v \<Rightarrow> ttl_ns v ''ttl'')"

definition ac_lookup :: "('s, 'k, 'v) async_cache \<Rightarrow> 'k \<Rightarrow> ('s, 'k cache_exn, 'v) act" where
  "ac_lookup self key =
     act_bind (ac_now self) (\<lambda>now. act_bind (ac_locked self (ac_get_locked key now)) lift)"

definition ac_get_value :: "('s, 'k, 'v) async_cache \<Rightarrow> 'k \<Rightarrow> ('s, 'k cache_exn, 'v) act" where
  "ac_get_value self key = ac_bound_lock self (ac_lookup self key)"

definition ac_set :: "('s, 'k, 'v) async_cache \<Rightarrow> 'k \<Rightarrow> 'v \<Rightarrow> pyval option \<Rightarrow> ('s, 'k cache_exn, unit) act" where
  "ac_set self key value ttl =
     act_bind (lift (ac_entry_ttl self ttl)) (\<lambda>ttl.
     ac_bound_lock self
       (act_then (ac_locked self (\<lambda>d. ((), ac_supersede key d)))
       (act_bind (ac_now self) (\<lambda>now.
        ac_locked self (\<lambda>d. ((), ac_store_locked key value ttl now d))))))"

definition ac_invalidate :: "('s, 'k, 'v) async_cache \<Rightarrow> 'k \<Rightarrow> ('s, 'k cache_exn, bool) act" where
  "ac_invalidate self key =
     ac_bound_lock self (act_bind (ac_now self) (\<lambda>now. ac_locked self (ac_invalidate_locked key now)))"

definition ac_clear :: "('s, 'k, 'v) async_cache \<Rightarrow> ('s, 'k cache_exn, unit) act" where
  "ac_clear self =
     ac_bound_lock self (act_then (ac_now self) (ac_locked self (\<lambda>d. ((), ac_clear_locked d))))"

definition ac_stats :: "('s, 'k, 'v) async_cache \<Rightarrow> ('s, 'k cache_exn, cache_stats) act" where
  "ac_stats self =
     ac_bound_lock self
       (act_bind (ac_now self) (\<lambda>now.
        ac_locked self (\<lambda>d.
          let (r, st) = cache_stats_of now (async_owned_keys d) (int (length (ad_owned d)))
                (int (length (filter (\<lambda>i. af_abandoned (ad_flights d ! i)) (ad_owned d))))
                (int (length (filter (\<lambda>i. af_superseded (ad_flights d ! i)) (ad_owned d)))) (ad_state d)
          in (r, d\<lparr>ad_state := st\<rparr>))))"

definition ac_size :: "('s, 'k, 'v) async_cache \<Rightarrow> ('s, 'k cache_exn, int) act" where
  "ac_size self =
     ac_bound_lock self
       (act_bind (ac_now self) (\<lambda>now.
        ac_locked self (\<lambda>d. let (r, st) = cache_size now (async_owned_keys d) (ad_state d) in (r, d\<lparr>ad_state := st\<rparr>))))"

section \<open>Loading\<close>

definition ac_complete_flight ::
  "('s, 'k, 'v) async_cache \<Rightarrow> nat \<Rightarrow> 'v option \<Rightarrow> bool \<Rightarrow> ('s, 'k cache_exn, unit) act" where
  "ac_complete_flight self i result publish =
     try_finally
       (case (publish, result) of
          (True, Some value) \<Rightarrow>
            act_bind (ac_now self) (\<lambda>now.
            ac_locked self (\<lambda>d. ((), ac_store_locked (af_key (ad_flights d ! i)) value
                                       (af_ttl_ns (ad_flights d ! i)) now d)))
        | _ \<Rightarrow> return ())
       (ac_locked self (\<lambda>d. ((), ac_complete_locked i d)))"

text \<open>The body of the task that loads; \<open>loader\<close> stands for \<open>await loader(flight.key)\<close>.\<close>

definition ac_run_loader ::
  "('s, 'k, 'v) async_cache \<Rightarrow> nat \<Rightarrow> 'k \<Rightarrow> ('s, 'k cache_exn, 'v) act \<Rightarrow> ('s, 'k cache_exn, 'v) act" where
  "ac_run_loader self i key loader =
     act_bind (gets (ac_scope self)) (\<lambda>token.
     act_then (modify (ac_set_scope self (insert (ac_id self, key) token)))
     (try_finally
       (try_else loader
         (\<lambda>e. act_then
            (ac_bound_lock self
              (act_then (ac_locked self (\<lambda>d. ((), d\<lparr>ad_state := (ad_state d)
                  \<lparr>st_load_failures := st_load_failures (ad_state d) + 1\<rparr>\<rparr>)))
               (ac_complete_flight self i None False)))
            (raise e))
         (\<lambda>result. act_then
            (ac_bound_lock self
              (act_bind (gets (\<lambda>s. ac_can_publish i (ac_get self s))) (\<lambda>publish.
               ac_complete_flight self i (Some result) publish)))
            (return result)))
       (modify (ac_set_scope self token))))"

definition ac_release_block :: "('s, 'k, 'v) async_cache \<Rightarrow> nat \<Rightarrow> nat \<Rightarrow> ('s, 'k cache_exn, bool) act" where
  "ac_release_block self i task =
     act_bind (gets (ac_done self task)) (\<lambda>task_done. ac_locked self (ac_release_locked i task_done))"

definition ac_release_waiter :: "('s, 'k, 'v) async_cache \<Rightarrow> nat \<Rightarrow> nat \<Rightarrow> ('s, 'k cache_exn, unit) act" where
  "ac_release_waiter self i task =
     act_then (ac_enter self)
     (act_bind (ac_release_block self i task) (\<lambda>cancel. if cancel then ac_cancel self task else return ()))"

text \<open>Acquiring the lock whatever cancellations come; the result tells whether one did.\<close>

partial_function (option) ac_acquire ::
  "('s, 'k, 'v) async_cache \<Rightarrow> bool \<Rightarrow> 's \<Rightarrow> (('k cache_exn + bool) \<times> 's) option" where
  "ac_acquire self cancelled s =
     try_else (ac_enter self)
       (\<lambda>e. if e = CancelledError then ac_acquire self True else raise e)
       (\<lambda>_. return cancelled) s"

definition ac_release_without_task ::
  "('s, 'k, 'v) async_cache \<Rightarrow> nat \<Rightarrow> nat \<Rightarrow> bool \<Rightarrow> ('s, 'k cache_exn, unit) act" where
  "ac_release_without_task self i task cancelled =
     act_bind (ac_acquire self cancelled) (\<lambda>cancelled.
     act_bind (ac_release_block self i task) (\<lambda>cancel.
     act_then (if cancel then ac_cancel self task else return ())
       (if cancelled then raise CancelledError else return ())))"

partial_function (option) ac_await_release_task ::
  "('s, 'k, 'v) async_cache \<Rightarrow> nat \<Rightarrow> bool \<Rightarrow> 's \<Rightarrow> (('k cache_exn + bool) \<times> 's) option" where
  "ac_await_release_task self release_task cancelled s =
     act_bind (gets (ac_done self release_task)) (\<lambda>finished.
       if finished then return cancelled
       else try_else (ac_await_release self release_task)
              (\<lambda>e. if e = CancelledError then ac_await_release_task self release_task True else raise e)
              (\<lambda>_. ac_await_release_task self release_task cancelled)) s"

fun cache_is_exception :: "'k cache_exn \<Rightarrow> bool" where
  "cache_is_exception CancelledError = False"
| "cache_is_exception (UserBaseException _) = False"
| "cache_is_exception _ = True"

definition ac_release_safe :: "('s, 'k, 'v) async_cache \<Rightarrow> nat \<Rightarrow> nat \<Rightarrow> ('s, 'k cache_exn, unit) act" where
  "ac_release_safe self i task =
     try_else (ac_spawn_release self (ac_release_waiter self i task))
       (\<lambda>error.
          act_then (ac_release_without_task self i task (error = CancelledError))
            (if \<not> cache_is_exception error \<and> error \<noteq> CancelledError then raise error else return ()))
       (\<lambda>release_task.
          act_bind (ac_await_release_task self release_task False) (\<lambda>cancelled.
          act_then (ac_result self release_task)
            (if cancelled then raise CancelledError else return ())))"

text \<open>Under the lock of \<open>get_or_load\<close>: a hit, or the flight to wait for.\<close>

definition ac_start_flight ::
  "('s, 'k, 'v) async_cache \<Rightarrow> nat \<Rightarrow> 'k \<Rightarrow> ('s, 'k cache_exn, 'v) act \<Rightarrow> ('s, 'k cache_exn, unit) act" where
  "ac_start_flight self i key loader =
     try_else (ac_spawn self (ac_run_loader self i key loader))
       (\<lambda>e. act_then (ac_complete_flight self i None False) (raise e))
       (\<lambda>task. ac_locked self (\<lambda>d. ((), ac_started i task d)))"

definition ac_hit_or_flight ::
  "('s, 'k, 'v) async_cache \<Rightarrow> 'k \<Rightarrow> ('s, 'k cache_exn, 'v) act \<Rightarrow> int \<Rightarrow> ('s, 'k cache_exn, 'v + nat) act" where
  "ac_hit_or_flight self key loader ttl =
     try_else (ac_lookup self key)
       (\<lambda>e. case e of
          KeyError _ \<Rightarrow>
            act_bind (ac_locked self (ac_admit (ac_max_inflight self) key ttl)) (\<lambda>decision.
            case decision of
              Join_flight i \<Rightarrow> return (Inr i)
            | Reject_load \<Rightarrow> raise CacheLoadLimitError
            | Own_flight i \<Rightarrow> act_then (ac_start_flight self i key loader) (return (Inr i)))
        | _ \<Rightarrow> raise e)
       (\<lambda>x. return (Inl x))"

definition ac_get_or_load ::
  "('s, 'k, 'v) async_cache \<Rightarrow> 'k \<Rightarrow> ('s, 'k cache_exn, 'v) act \<Rightarrow> pyval option \<Rightarrow> ('s, 'k cache_exn, 'v) act" where
  "ac_get_or_load self key loader ttl =
     act_bind (gets (\<lambda>s. (ac_id self, key) \<in> ac_scope self s)) (\<lambda>recursive.
     if recursive then raise RecursiveLoadError
     else
       act_bind (lift (ac_entry_ttl self ttl)) (\<lambda>ttl.
       act_bind (ac_bound_lock self (ac_hit_or_flight self key loader ttl)) (\<lambda>r.
       case r of
         Inl x \<Rightarrow> return x
       | Inr i \<Rightarrow>
           act_bind (gets (\<lambda>s. af_task (ad_flights (ac_get self s) ! i))) (\<lambda>task.
           case task of
             None \<Rightarrow> raise (RuntimeError ''cache flight task was not initialized'')
           | Some task \<Rightarrow> try_finally (ac_await self task) (ac_release_safe self i task)))))"

section \<open>Interleavings\<close>

text \<open>The end of a load: \<open>result\<close> is \<open>None\<close> if the loader raised.\<close>

definition ac_finish :: "nat \<Rightarrow> 'v option \<Rightarrow> int \<Rightarrow> ('k, 'v) async_data \<Rightarrow> ('k, 'v) async_data" where
  "ac_finish i result now d =
     ac_complete_locked i
       (case result of
          None \<Rightarrow> d\<lparr>ad_state := (ad_state d)\<lparr>st_load_failures := st_load_failures (ad_state d) + 1\<rparr>\<rparr>
        | Some x \<Rightarrow>
            if ac_can_publish i d
            then ac_store_locked (af_key (ad_flights d ! i)) x (af_ttl_ns (ad_flights d ! i)) now d else d)"

text \<open>One lock block of some task, on the data and the waits in progress: the multiset holds a flight
  once for every caller that waits for it. \<open>m\<close> is \<open>max_inflight\<close>; in the \<open>failed\<close> blocks the clock or the
  creation of the task raised.\<close>

inductive ac_step ::
  "int \<Rightarrow> ('k, 'v) async_data \<times> nat multiset \<Rightarrow> ('k, 'v) async_data \<times> nat multiset \<Rightarrow> bool" for m :: int where
  get: "ac_get_locked k now d = (r, d') \<Longrightarrow> ac_step m (d, W) (d', W)"
| set: "ac_step m (d, W) (ac_store_locked k x ttl now (ac_supersede k d), W)"
| set_failed: "ac_step m (d, W) (ac_supersede k d, W)"
| invalidate: "ac_invalidate_locked k now d = (r, d') \<Longrightarrow> ac_step m (d, W) (d', W)"
| clear: "ac_step m (d, W) (ac_clear_locked d, W)"
| clamp: "clamp_tick t (ad_state d) = (t', st) \<Longrightarrow> ac_step m (d, W) (d\<lparr>ad_state := st\<rparr>, W)"
| size: "cache_size now (async_owned_keys d) (ad_state d) = (n, st) \<Longrightarrow> ac_step m (d, W) (d\<lparr>ad_state := st\<rparr>, W)"
| stats: "cache_stats_of now (async_owned_keys d) a b c (ad_state d) = (q, st) \<Longrightarrow>
    ac_step m (d, W) (d\<lparr>ad_state := st\<rparr>, W)"
| join: "ac_admit m k ttl d = (Join_flight i, d') \<Longrightarrow> ac_step m (d, W) (d', add_mset i W)"
| reject: "ac_admit m k ttl d = (Reject_load, d') \<Longrightarrow> ac_step m (d, W) (d', W)"
| own: "ac_admit m k ttl d = (Own_flight i, d') \<Longrightarrow> ac_step m (d, W) (ac_started i t d', add_mset i W)"
| own_failed: "ac_admit m k ttl d = (Own_flight i, d') \<Longrightarrow> ac_step m (d, W) (ac_complete_locked i d', W)"
| finish: "i \<in> set (ad_owned d) \<Longrightarrow> ac_step m (d, W) (ac_finish i r now d, W)"
| finish_failed: "i \<in> set (ad_owned d) \<Longrightarrow> ac_step m (d, W) (ac_complete_locked i d, W)"
| release: "i \<in># W \<Longrightarrow> ac_release_locked i task_done d = (c, d') \<Longrightarrow> ac_step m (d, W) (d', W - {#i#})"

section \<open>The invariant\<close>

text \<open>A load is stale when it was superseded or abandoned. The active flights are the owned ones that are
  not stale; the waiter count of a flight is the number of callers that wait for it; and nobody waits
  for an abandoned flight.\<close>

definition af_stale :: "'k async_flight \<Rightarrow> bool" where
  "af_stale f \<longleftrightarrow> af_superseded f \<or> af_abandoned f"

definition ac_ok :: "('k, 'v) async_data \<Rightarrow> bool" where
  "ac_ok d \<longleftrightarrow>
     cache_ok (ad_state d) \<and> distinct (ad_owned d) \<and> (\<forall>i\<in>set (ad_owned d). i < length (ad_flights d))
     \<and> (\<forall>k i. ad_active d k = Some i \<longleftrightarrow>
          i \<in> set (ad_owned d) \<and> af_key (ad_flights d ! i) = k \<and> \<not> af_stale (ad_flights d ! i))"

definition waiters_ok :: "('k, 'v) async_data \<Rightarrow> nat multiset \<Rightarrow> bool" where
  "waiters_ok d W \<longleftrightarrow>
     (\<forall>i\<in>#W. i < length (ad_flights d))
     \<and> (\<forall>i. i \<in> set (ad_owned d) \<or> i \<in># W \<longrightarrow> af_waiters (ad_flights d ! i) = int (count W i))
     \<and> (\<forall>i<length (ad_flights d). af_abandoned (ad_flights d ! i) \<longrightarrow> i \<notin># W)"

definition ac_inv :: "int \<Rightarrow> ('k, 'v) async_data \<times> nat multiset \<Rightarrow> bool" where
  "ac_inv m x \<longleftrightarrow> ac_ok (fst x) \<and> int (length (ad_owned (fst x))) \<le> m \<and> waiters_ok (fst x) (snd x)"

lemma ac_okD:
  assumes "ac_ok d"
  shows "cache_ok (ad_state d)" "distinct (ad_owned d)" "i \<in> set (ad_owned d) \<Longrightarrow> i < length (ad_flights d)"
    "ad_active d k = Some i \<longleftrightarrow>
       i \<in> set (ad_owned d) \<and> af_key (ad_flights d ! i) = k \<and> \<not> af_stale (ad_flights d ! i)"
  using assms unfolding ac_ok_def by blast+

lemma ac_state: "ac_ok d \<Longrightarrow> cache_ok st \<Longrightarrow> ac_ok (d\<lparr>ad_state := st\<rparr>)"
  by (simp add: ac_ok_def)

lemma waiters_state [simp]: "waiters_ok (d\<lparr>ad_state := st\<rparr>) W = waiters_ok d W"
  by (simp add: waiters_ok_def)

lemma waitersD:
  assumes "waiters_ok d W"
  shows "i \<in># W \<Longrightarrow> i < length (ad_flights d)"
    "i \<in> set (ad_owned d) \<or> i \<in># W \<Longrightarrow> af_waiters (ad_flights d ! i) = int (count W i)"
    "i < length (ad_flights d) \<Longrightarrow> af_abandoned (ad_flights d ! i) \<Longrightarrow> i \<notin># W"
  using assms unfolding waiters_ok_def by blast+

text \<open>Blocks that change one flight at most, keep its key, and forget it as active if it becomes stale.\<close>

lemma ac_ok_update:
  assumes "ac_ok d" "cache_ok (ad_state d')" "ad_owned d' = ad_owned d"
    and "ad_flights d' = (ad_flights d)[i := f]" "af_key f = af_key (ad_flights d ! i)"
    and "af_stale (ad_flights d ! i) \<Longrightarrow> af_stale f"
    and "ad_active d' = (if af_stale f \<and> ad_active d (af_key f) = Some i
           then (ad_active d)(af_key f := None) else ad_active d)"
  shows "ac_ok d'"
proof -
  note D = ac_okD [OF assms(1)]
  have fl: "j < length (ad_flights d) \<Longrightarrow> ad_flights d' ! j = (if j = i then f else ad_flights d ! j)" for j
    by (simp add: assms(4))
  have "ad_active d' k = Some j \<longleftrightarrow>
      j \<in> set (ad_owned d) \<and> af_key (ad_flights d' ! j) = k \<and> \<not> af_stale (ad_flights d' ! j)" for k j
  proof (cases "j \<in> set (ad_owned d)")
    case False
    then show ?thesis using D(4) [of k j] by (auto simp: assms(7) split: if_splits)
  next
    case True
    then show ?thesis
      using D(4) [of k j] D(4) [of "af_key f" j] D(4) [of "af_key f" i] fl [OF D(3) [OF True]] assms(5,6)
      by (auto simp: assms(7))
  qed
  then show ?thesis using assms(1,2) by (simp add: ac_ok_def assms(3,4))
qed

lemma waiters_update:
  assumes "waiters_ok d W" "ad_owned d' = ad_owned d" "ad_flights d' = (ad_flights d)[i := f]"
    and "\<And>j. j \<noteq> i \<Longrightarrow> count W' j = count W j"
    and "i < length (ad_flights d) \<Longrightarrow> i \<in> set (ad_owned d) \<or> i \<in># W' \<Longrightarrow> af_waiters f = int (count W' i)"
    and "i < length (ad_flights d) \<Longrightarrow> af_abandoned f \<Longrightarrow> i \<notin># W'"
    and "i \<in># W' \<Longrightarrow> i < length (ad_flights d)" "i \<in> set (ad_owned d) \<Longrightarrow> i < length (ad_flights d)"
  shows "waiters_ok d' W'"
proof -
  have other: "j \<in># W' \<longleftrightarrow> j \<in># W" if "j \<noteq> i" for j
    using assms(4) [OF that] by (metis count_greater_zero_iff)
  have fl: "ad_flights d' ! j = ad_flights d ! j" if "j \<noteq> i" for j using that by (simp add: assms(3))
  have fi: "i < length (ad_flights d) \<Longrightarrow> ad_flights d' ! i = f" by (simp add: assms(3))
  have "af_waiters (ad_flights d' ! j) = int (count W' j)" if "j \<in> set (ad_owned d) \<or> j \<in># W'" for j
    using that assms(4,5,7,8) waitersD(2) [OF assms(1), of j] other [of j] fl [of j] fi by (cases "j = i") auto
  moreover have "j < length (ad_flights d)" if "j \<in># W'" for j
    using that other [of j] assms(7) waitersD(1) [OF assms(1), of j] by (cases "j = i") auto
  moreover have "j \<notin># W'" if "j < length (ad_flights d)" "af_abandoned (ad_flights d' ! j)" for j
    using that other [of j] assms(6) waitersD(3) [OF assms(1), of j] fl [of j] fi by (cases "j = i") auto
  ultimately show ?thesis by (simp add: waiters_ok_def assms(2)) (simp add: assms(3))
qed

lemma af_stale_simps [simp]:
  "af_stale (f\<lparr>af_superseded := True\<rparr>)" "af_stale (f\<lparr>af_abandoned := True\<rparr>)"
  "af_stale (f\<lparr>af_waiters := n\<rparr>) = af_stale f" "af_stale (f\<lparr>af_task := t\<rparr>) = af_stale f"
  by (simp_all add: af_stale_def)

lemma ac_supersede_state [simp]: "ad_state (ac_supersede k d) = ad_state d"
  by (simp add: ac_supersede_def split: option.split)

lemma ac_supersede_inv:
  assumes "ac_ok d" "waiters_ok d W"
  shows "ac_ok (ac_supersede k d)" "waiters_ok (ac_supersede k d) W"
proof -
  have "ac_ok (ac_supersede k d) \<and> waiters_ok (ac_supersede k d) W"
  proof (cases "ad_active d k")
    case None
    then show ?thesis using assms by (simp add: ac_supersede_def)
  next
    case (Some i)
    note D = ac_okD [OF assms(1)]
    have i: "i \<in> set (ad_owned d)" "af_key (ad_flights d ! i) = k" using Some D(4) by auto
    have "ac_ok (ac_supersede k d)"
      by (rule ac_ok_update [OF assms(1), where i = i and f = "(ad_flights d ! i)\<lparr>af_superseded := True\<rparr>"])
        (simp_all add: ac_supersede_def Some i D(1))
    moreover have "waiters_ok (ac_supersede k d) W"
      by (rule waiters_update [OF assms(2), where i = i and f = "(ad_flights d ! i)\<lparr>af_superseded := True\<rparr>"])
        (use waitersD [OF assms(2)] D(3) i in \<open>auto simp: ac_supersede_def Some\<close>)
    ultimately show ?thesis ..
  qed
  then show "ac_ok (ac_supersede k d)" "waiters_ok (ac_supersede k d) W" by blast+
qed

lemma ac_clear_inv:
  assumes "ac_ok d" "waiters_ok d W"
  shows "ac_ok (ac_clear_locked d)" "waiters_ok (ac_clear_locked d) W"
proof -
  note D = ac_okD [OF assms(1)]
  let ?d = "ac_clear_locked d"
  have rest: "ad_owned ?d = ad_owned d" "ad_active ?d = Map.empty" "length (ad_flights ?d) = length (ad_flights d)"
    "cache_ok (ad_state ?d)"
    using clear_ok [OF D(1)] by (simp_all add: ac_clear_locked_def Let_def)
  have same: "af_waiters (ad_flights ?d ! i) = af_waiters (ad_flights d ! i)"
    "af_abandoned (ad_flights ?d ! i) = af_abandoned (ad_flights d ! i)" if "i < length (ad_flights d)" for i
    using that by (simp_all add: ac_clear_locked_def Let_def)
  have "af_stale (ad_flights ?d ! i)" if "i \<in> set (ad_owned d)" for i
    using that D(3) [OF that] D(4) [of "af_key (ad_flights d ! i)" i]
    by (auto simp: ac_clear_locked_def Let_def)
  then show "ac_ok ?d" using D(2,3) rest by (simp add: ac_ok_def)
  show "waiters_ok ?d W"
    using waitersD [OF assms(2)] D(3) by (simp add: waiters_ok_def rest(1,3) same)
qed

lemma ac_admit_inv:
  assumes "ac_ok d" "waiters_ok d W" "ac_admit m k ttl d = (r, d')"
  shows "ac_ok d'" "int (length (ad_owned d)) \<le> m \<Longrightarrow> int (length (ad_owned d')) \<le> m"
    and "waiters_ok d' (case r of Join_flight i \<Rightarrow> add_mset i W | Own_flight i \<Rightarrow> add_mset i W | Reject_load \<Rightarrow> W)"
    and "r = Own_flight i \<Longrightarrow> i \<notin># W \<and> i = length (ad_flights d) \<and> i \<in> set (ad_owned d')"
proof -
  note D = ac_okD [OF assms(1)] and V = waitersD [OF assms(2)]
  have "ac_ok d' \<and> (int (length (ad_owned d)) \<le> m \<longrightarrow> int (length (ad_owned d')) \<le> m)
    \<and> waiters_ok d' (case r of Join_flight i \<Rightarrow> add_mset i W | Own_flight i \<Rightarrow> add_mset i W | Reject_load \<Rightarrow> W)
    \<and> (r = Own_flight i \<longrightarrow> i \<notin># W \<and> i = length (ad_flights d) \<and> i \<in> set (ad_owned d'))"
  proof (cases "ad_active d k")
    case (Some j)
    let ?f = "(ad_flights d ! j)\<lparr>af_waiters := af_waiters (ad_flights d ! j) + 1\<rparr>"
    have j: "j \<in> set (ad_owned d)" "\<not> af_stale (ad_flights d ! j)" using Some D(4) by auto
    have d': "r = Join_flight j" "ad_flights d' = (ad_flights d)[j := ?f]" "ad_owned d' = ad_owned d"
      "ad_active d' = ad_active d" "cache_ok (ad_state d')"
      using assms(3) D(1) by (auto simp: ac_admit_def Some)
    have "ac_ok d'"
      by (rule ac_ok_update [OF assms(1) d'(5,3,2)]) (simp_all add: d'(4) j)
    moreover have "waiters_ok d' (add_mset j W)"
      by (rule waiters_update [OF assms(2) d'(3,2)])
        (use V(2) [of j] D(3) [OF j(1)] j in \<open>auto simp: af_stale_def\<close>)
    ultimately show ?thesis by (simp add: d')
  next
    case None
    show ?thesis
    proof (cases "m \<le> int (length (ad_owned d))")
      case True
      then show ?thesis using assms None D(1) by (auto simp: ac_admit_def intro!: ac_state)
    next
      case False
      let ?n = "length (ad_flights d)"
      obtain f where f: "ad_flights d' = ad_flights d @ [f]" "af_key f = k" "af_waiters f = 1" "\<not> af_stale f"
        "\<not> af_abandoned f"
        and d': "r = Own_flight ?n" "ad_owned d' = ad_owned d @ [?n]" "ad_active d' = (ad_active d)(k \<mapsto> ?n)"
          "ad_state d' = ad_state d"
        using assms(3) None False by (auto simp: ac_admit_def Let_def af_stale_def)
      have fresh: "?n \<notin> set (ad_owned d)" "?n \<notin># W" using D(3) V(1) by blast+
      have fl: "j < ?n \<Longrightarrow> ad_flights d' ! j = ad_flights d ! j" "ad_flights d' ! ?n = f" for j
        by (simp_all add: f(1) nth_append)
      have act: "((ad_active d)(k \<mapsto> ?n)) k' = Some j \<longleftrightarrow>
          j \<in> set (ad_owned d') \<and> af_key (ad_flights d' ! j) = k' \<and> \<not> af_stale (ad_flights d' ! j)" for k' j
      proof (cases "j = ?n")
        case True
        then show ?thesis using D(4) [of k' ?n] fresh f(2,4) fl(2) by (auto simp: d'(2))
      next
        case False
        have "fl_eq": "ad_flights d' ! j = ad_flights d ! j" if "j \<in> set (ad_owned d)"
          using fl(1) D(3) [OF that] .
        show ?thesis using False D(4) [of k' j] D(4) [of k j] fl_eq None by (auto simp: d'(2))
      qed
      have "ac_ok d'"
        unfolding ac_ok_def using D(1-3) fresh act by (auto simp: d' f(1) less_Suc_eq)
      moreover have "waiters_ok d' (add_mset ?n W)"
        unfolding waiters_ok_def
      proof (intro conjI ballI allI impI)
        fix j
        show "j \<in># add_mset ?n W \<Longrightarrow> j < length (ad_flights d')" using V(1) [of j] by (auto simp: f(1))
        show "j \<in> set (ad_owned d') \<or> j \<in># add_mset ?n W \<Longrightarrow>
            af_waiters (ad_flights d' ! j) = int (count (add_mset ?n W) j)"
          using V(1,2) [of j] D(3) [of j] fl fresh f(3) by (cases "j = ?n") (auto simp: d'(2) not_in_iff)
        show "j < length (ad_flights d') \<Longrightarrow> af_abandoned (ad_flights d' ! j) \<Longrightarrow> j \<notin># add_mset ?n W"
          using V(3) [of j] fl f(5) by (cases "j = ?n") (auto simp: f(1))
      qed
      ultimately show ?thesis using False fresh by (auto simp: d')
    qed
  qed
  then show "ac_ok d'" "int (length (ad_owned d)) \<le> m \<Longrightarrow> int (length (ad_owned d')) \<le> m"
    "waiters_ok d' (case r of Join_flight i \<Rightarrow> add_mset i W | Own_flight i \<Rightarrow> add_mset i W | Reject_load \<Rightarrow> W)"
    "r = Own_flight i \<Longrightarrow> i \<notin># W \<and> i = length (ad_flights d) \<and> i \<in> set (ad_owned d')"
    by blast+
qed

lemma ac_started_inv:
  assumes "ac_ok d" "waiters_ok d W"
  shows "ac_ok (ac_started i t d)" "waiters_ok (ac_started i t d) W"
proof -
  note D = ac_okD [OF assms(1)] and V = waitersD [OF assms(2)]
  show "ac_ok (ac_started i t d)"
    by (rule ac_ok_update [OF assms(1), where i = i and f = "(ad_flights d ! i)\<lparr>af_task := Some t\<rparr>"])
      (use D(1) D(4) [of "af_key (ad_flights d ! i)" i] in \<open>auto simp: ac_started_def\<close>)
  show "waiters_ok (ac_started i t d) W"
    by (rule waiters_update [OF assms(2), where i = i and f = "(ad_flights d ! i)\<lparr>af_task := Some t\<rparr>"])
      (use V D(3) in \<open>auto simp: ac_started_def\<close>)
qed

lemma ac_complete_inv:
  assumes "ac_ok d" and "waiters_ok d W"
  shows "ac_ok (ac_complete_locked i d)" "waiters_ok (ac_complete_locked i d) W"
proof -
  note D = ac_okD [OF assms(1)]
  let ?d = "ac_complete_locked i d"
  have d': "set (ad_owned ?d) = set (ad_owned d) - {i}" "ad_flights ?d = ad_flights d" "distinct (ad_owned ?d)"
    "cache_ok (ad_state ?d)"
    using D(1,2) by (auto simp: ac_complete_locked_def Let_def drop_ok distinct_removeAll)
  have act: "ad_active ?d k = (if ad_active d k = Some i then None else ad_active d k)" for k
    using D(4) [of k i] by (auto simp: ac_complete_locked_def Let_def)
  have "ad_active ?d k = Some j \<longleftrightarrow>
      j \<in> set (ad_owned d) - {i} \<and> af_key (ad_flights d ! j) = k \<and> \<not> af_stale (ad_flights d ! j)" for k j
    using D(4) [of k j] by (cases "ad_active d k") (auto simp: act)
  then show "ac_ok ?d" using D(3) d' by (simp add: ac_ok_def)
  show "waiters_ok ?d W" using assms(2) d'(1,2) by (auto simp: waiters_ok_def)
qed

lemma ac_complete_forget:
  "waiters_ok d (add_mset i W) \<Longrightarrow> i \<notin># W \<Longrightarrow> waiters_ok (ac_complete_locked i d) W"
proof -
  assume w: "waiters_ok d (add_mset i W)" and i: "i \<notin># W"
  have "ad_flights (ac_complete_locked i d) = ad_flights d" "set (ad_owned (ac_complete_locked i d)) = set (ad_owned d) - {i}"
    by (auto simp: ac_complete_locked_def Let_def)
  then show ?thesis using w i by (auto simp: waiters_ok_def)
qed

lemma ac_store_inv:
  assumes "ac_ok d"
  shows "ac_ok (ac_store_locked k x ttl now d)"
  unfolding ac_store_locked_def by (rule ac_state [OF assms store_ok [OF ac_okD(1) [OF assms]]])

lemma ac_finish_inv:
  assumes "ac_ok d" "waiters_ok d W"
  shows "ac_ok (ac_finish i r now d)" "waiters_ok (ac_finish i r now d) W"
proof -
  let ?d = "case r of
      None \<Rightarrow> d\<lparr>ad_state := (ad_state d)\<lparr>st_load_failures := st_load_failures (ad_state d) + 1\<rparr>\<rparr>
    | Some x \<Rightarrow> if ac_can_publish i d
        then ac_store_locked (af_key (ad_flights d ! i)) x (af_ttl_ns (ad_flights d ! i)) now d else d"
  have "ac_ok ?d \<and> waiters_ok ?d W"
    using assms ac_store_inv [OF assms(1)] ac_okD(1) [OF assms(1)]
    by (auto simp: ac_state ac_store_locked_def split: option.split)
  then show "ac_ok (ac_finish i r now d)" "waiters_ok (ac_finish i r now d) W"
    unfolding ac_finish_def using ac_complete_inv by blast+
qed

lemma ac_release_inv:
  assumes "ac_ok d" "waiters_ok d W" "i \<in># W" "ac_release_locked i b d = (c, d')"
  shows "ac_ok d'" "waiters_ok d' (W - {#i#})" "ad_owned d' = ad_owned d"
proof -
  note D = ac_okD [OF assms(1)] and V = waitersD [OF assms(2)]
  define f where "f = (let f = (ad_flights d ! i)\<lparr>af_waiters := af_waiters (ad_flights d ! i) - 1\<rparr>
    in if af_waiters f \<noteq> 0 \<or> b then f else f\<lparr>af_abandoned := True\<rparr>)"
  have i: "i < length (ad_flights d)" "af_waiters (ad_flights d ! i) = int (count W i)" using V assms(3) by blast+
  have d': "ad_flights d' = (ad_flights d)[i := f]" "ad_owned d' = ad_owned d" "cache_ok (ad_state d')"
    "ad_active d' = (if af_stale f \<and> ad_active d (af_key f) = Some i
           then (ad_active d)(af_key f := None) else ad_active d)"
    using assms(4) i D(1) D(4) [of "af_key (ad_flights d ! i)" i] bump_ok [OF D(1)]
    by (auto simp: ac_release_locked_def Let_def f_def split: if_splits)
  have f: "af_waiters f = int (count W i) - 1" "af_abandoned f \<Longrightarrow> af_abandoned (ad_flights d ! i) \<or> count W i = 1"
    using i(2) by (auto simp: f_def Let_def)
  show "ad_owned d' = ad_owned d" by (rule d')
  show "ac_ok d'"
    by (rule ac_ok_update [OF assms(1) d'(3,2,1) _ _ d'(4)]) (simp_all add: f_def Let_def)
  show "waiters_ok d' (W - {#i#})"
  proof (rule waiters_update [OF assms(2) d'(2,1)])
    show "af_waiters f = int (count (W - {#i#}) i)" using f(1) assms(3) by (simp add: of_nat_diff)
    show "i \<notin># W - {#i#}" if "af_abandoned f"
      using f(2) [OF that] V(3) [OF i(1)] assms(3) by (auto simp: not_in_iff)
  qed (use i(1) in auto)
qed

lemma ac_owned_simps [simp]:
  "ad_owned (ac_store_locked k x ttl now d) = ad_owned d" "ad_owned (ac_supersede k d) = ad_owned d"
  "ad_owned (ac_clear_locked d) = ad_owned d" "ad_flights (ac_store_locked k x ttl now d) = ad_flights d"
  "ad_owned (ac_started i t d) = ad_owned d" "ad_owned (ac_complete_locked i d) = removeAll i (ad_owned d)"
  "ad_owned (ac_finish i r now d) = removeAll i (ad_owned d)"
  "ad_flights (ac_complete_locked i d) = ad_flights d" "ad_flights (ac_finish i r now d) = ad_flights d"
  by (simp_all add: ac_store_locked_def ac_supersede_def ac_clear_locked_def ac_started_def ac_finish_def
      ac_complete_locked_def Let_def split: option.split)

lemma length_removeAll_int: "int (length xs) \<le> m \<Longrightarrow> int (length (removeAll i xs)) \<le> m"
  using length_removeAll_less_eq [of i xs] by linarith

lemma waiters_store [simp]: "waiters_ok (ac_store_locked k x ttl now d) W = waiters_ok d W"
  by (simp add: ac_store_locked_def)

lemma ac_step_inv: "ac_inv m x \<Longrightarrow> ac_step m x y \<Longrightarrow> ac_inv m y"
proof -
  assume inv: "ac_inv m x" and step: "ac_step m x y"
  obtain d W where x: "x = (d, W)" by (cases x)
  have ok: "ac_ok d" and len: "int (length (ad_owned d)) \<le> m" and wait: "waiters_ok d W"
    using inv by (simp_all add: ac_inv_def x)
  note st = ac_okD(1) [OF ok]
  from step show ?thesis
  proof cases
    case (get k now e r d' W')
    then have "d' = d\<lparr>ad_state := snd (cache_get k now (async_owned_keys d) (ad_state d))\<rparr>"
      using x by (auto simp: ac_get_locked_def split: prod.splits)
    then show ?thesis using get x len wait ac_state [OF ok get_ok [OF st]] by (simp add: ac_inv_def)
  next
    case (set e W' k v ttl now)
    then show ?thesis
      using x len ac_supersede_inv [OF ok wait] by (simp add: ac_inv_def ac_store_inv)
  next
    case (set_failed e W' k)
    then show ?thesis using x len ac_supersede_inv [OF ok wait] by (simp add: ac_inv_def)
  next
    case (invalidate k now e r d' W')
    let ?d = "ac_supersede k d"
    have "d' = ?d\<lparr>ad_state := snd (cache_invalidate k now (async_owned_keys ?d) (ad_state ?d))\<rparr>"
      using invalidate x by (auto simp: ac_invalidate_locked_def Let_def split: prod.splits)
    then show ?thesis
      using invalidate x len ac_supersede_inv [OF ok wait] ac_state [OF _ invalidate_ok, of ?d "ad_state ?d"] st
      by (simp add: ac_inv_def)
  next
    case (clear e W')
    then show ?thesis using x len ac_clear_inv [OF ok wait] by (simp add: ac_inv_def)
  next
    case (clamp t e t' s W')
    then have "cache_ok s" using clamp_ok [of t "ad_state d"] st x by simp
    then show ?thesis using clamp x len wait ac_state [OF ok] by (simp add: ac_inv_def)
  next
    case (size now e n s W')
    then have "cache_ok s" using size_ok [OF st, of now "async_owned_keys d"] x by simp
    then show ?thesis using size x len wait ac_state [OF ok] by (simp add: ac_inv_def)
  next
    case (stats now e a b c q s W')
    then have "cache_ok s" using stats_ok [OF st, of now "async_owned_keys d" a b c] x by simp
    then show ?thesis using stats x len wait ac_state [OF ok] by (simp add: ac_inv_def)
  next
    case (join k ttl e i d' W')
    then show ?thesis using x len ac_admit_inv(1-3) [OF ok wait, of m k ttl "Join_flight i" d'] by (simp add: ac_inv_def)
  next
    case (reject k ttl e d' W')
    then show ?thesis using x len ac_admit_inv(1-3) [OF ok wait, of m k ttl Reject_load d'] by (simp add: ac_inv_def)
  next
    case (own k ttl e i d' t W')
    then show ?thesis
      using x len ac_admit_inv(1-3) [OF ok wait, of m k ttl "Own_flight i" d'] ac_started_inv [of d' "add_mset i W" i]
      by (simp add: ac_inv_def)
  next
    case (own_failed k ttl e i d' W')
    note A = ac_admit_inv [OF ok wait, of m k ttl "Own_flight i" d']
    then show ?thesis
      using x len own_failed ac_complete_inv(1) [of d' "add_mset i W" i] ac_complete_forget [of d' i W]
      by (simp add: ac_inv_def length_removeAll_int)
  next
    case (finish i e r now W')
    then show ?thesis using x len ac_finish_inv [OF ok wait] by (simp add: ac_inv_def length_removeAll_int)
  next
    case (finish_failed i e W')
    then show ?thesis using x len ac_complete_inv [OF ok wait] by (simp add: ac_inv_def length_removeAll_int)
  next
    case (release i W' b e c d')
    then show ?thesis using x len ac_release_inv [OF ok wait, of i b c d'] by (simp add: ac_inv_def)
  qed
qed

interpretation acs: transition_invariant "ac_step m" "ac_inv m"
  by unfold_locales (rule ac_step_inv)

lemma ac_reachable_inv:
  assumes "1 \<le> n" "0 \<le> m" "(ac_step m)\<^sup>*\<^sup>* (async_data_init n, {#}) (d, W)"
  shows "ac_inv m (d, W)"
  using acs.run_inv [OF assms(3)] assms(1,2)
  by (simp add: ac_inv_def ac_ok_def waiters_ok_def async_data_init_def cache_ok_init)

text \<open>A flight keeps its key, and once stale it stays stale.\<close>

definition ac_mono :: "('k, 'v) async_data \<Rightarrow> ('k, 'v) async_data \<Rightarrow> bool" where
  "ac_mono d d' \<longleftrightarrow>
     length (ad_flights d) \<le> length (ad_flights d')
     \<and> (\<forall>i<length (ad_flights d).
          af_key (ad_flights d' ! i) = af_key (ad_flights d ! i)
          \<and> (af_superseded (ad_flights d ! i) \<longrightarrow> af_superseded (ad_flights d' ! i))
          \<and> (af_abandoned (ad_flights d ! i) \<longrightarrow> af_abandoned (ad_flights d' ! i)))"

lemma ac_mono_refl: "ac_mono d d"
  by (simp add: ac_mono_def)

lemma ac_mono_trans: "ac_mono d e \<Longrightarrow> ac_mono e f \<Longrightarrow> ac_mono d f"
  by (auto simp: ac_mono_def)

lemma ac_mono_same: "ad_flights d' = ad_flights d \<Longrightarrow> ac_mono d d'"
  by (simp add: ac_mono_def)

lemma ac_mono_as: "ac_mono d e \<Longrightarrow> ad_flights f = ad_flights e \<Longrightarrow> ac_mono d f"
  by (simp add: ac_mono_def)

lemma nth_update_eq: "xs[i := f] ! j = (if i = j \<and> j < length xs then f else xs ! j)"
  by (cases "i < length xs") (auto simp: nth_list_update list_update_beyond)

lemma ac_mono_update:
  assumes "ad_flights d' = (ad_flights d)[i := f]" "af_key f = af_key (ad_flights d ! i)"
    and "af_superseded (ad_flights d ! i) \<Longrightarrow> af_superseded f" "af_abandoned (ad_flights d ! i) \<Longrightarrow> af_abandoned f"
  shows "ac_mono d d'"
  using assms by (auto simp: ac_mono_def nth_update_eq)

lemma ac_supersede_mono: "ac_mono d (ac_supersede k d)"
proof (cases "ad_active d k")
  case None
  then show ?thesis by (simp add: ac_supersede_def ac_mono_refl)
next
  case (Some i)
  show ?thesis
    by (rule ac_mono_update [where i = i and f = "(ad_flights d ! i)\<lparr>af_superseded := True\<rparr>"])
      (simp_all add: ac_supersede_def Some)
qed

lemma ac_invalidate_flights:
  "ac_invalidate_locked k now d = (r, d') \<Longrightarrow> ad_flights d' = ad_flights (ac_supersede k d)"
  by (auto simp: ac_invalidate_locked_def Let_def split: prod.splits)

lemma ac_clear_mono: "ac_mono d (ac_clear_locked d)"
  by (auto simp: ac_mono_def ac_clear_locked_def Let_def)

lemma ac_admit_mono: "ac_admit m k ttl d = (r, d') \<Longrightarrow> ac_mono d d'"
  by (auto simp: ac_admit_def Let_def ac_mono_def nth_append nth_update_eq split: option.splits if_splits)

lemma ac_started_mono: "ac_mono d (ac_started i t d)"
  by (rule ac_mono_update [where i = i and f = "(ad_flights d ! i)\<lparr>af_task := Some t\<rparr>"]) (simp_all add: ac_started_def)

lemma ac_release_mono: "ac_release_locked i b d = (c, d') \<Longrightarrow> ac_mono d d'"
  by (auto simp: ac_release_locked_def Let_def ac_mono_def nth_update_eq split: if_splits)

lemma ac_step_mono: "ac_step m x y \<Longrightarrow> ac_mono (fst x) (fst y)"
proof (induction rule: ac_step.induct)
  case (get k now d r d' W)
  then show ?case by (auto simp: ac_get_locked_def intro!: ac_mono_same split: prod.splits)
next
  case (set d W k x ttl now)
  show ?case unfolding fst_conv by (rule ac_mono_as [OF ac_supersede_mono]) simp
next
  case (invalidate k now d r d' W)
  show ?case using ac_mono_as [OF ac_supersede_mono ac_invalidate_flights [OF invalidate]] by simp
next
  case (own k ttl d i d' t W)
  show ?case using ac_mono_trans [OF ac_admit_mono [OF own] ac_started_mono] by simp
next
  case (own_failed k ttl d i d' W)
  show ?case using ac_mono_trans [OF ac_admit_mono [OF own_failed] ac_mono_same] by simp
qed (auto intro: ac_supersede_mono ac_clear_mono ac_mono_same ac_admit_mono ac_release_mono)

lemma ac_run_mono: "(ac_step m)\<^sup>*\<^sup>* x y \<Longrightarrow> ac_mono (fst x) (fst y)"
  by (induction rule: rtranclp_induct) (auto intro: ac_mono_refl ac_mono_trans ac_step_mono)

text \<open>What makes a running load stale: its key is set or invalidated, the cache is cleared, or its last
  waiter leaves.\<close>

definition ac_makes_stale :: "nat \<Rightarrow> ('k, 'v) async_data \<Rightarrow> ('k, 'v) async_data \<Rightarrow> bool" where
  "ac_makes_stale i d d' \<longleftrightarrow>
     (let k = af_key (ad_flights d ! i) in
      (\<exists>x ttl now. d' = ac_store_locked k x ttl now (ac_supersede k d))
      \<or> (\<exists>now r. ac_invalidate_locked k now d = (r, d')) \<or> d' = ac_clear_locked d
      \<or> ac_release_locked i False d = (True, d'))"

lemma ac_makes_stale:
  assumes "ac_ok d" "i \<in> set (ad_owned d)" "ac_makes_stale i d d'"
  shows "af_stale (ad_flights d' ! i)" "ac_mono d d'"
proof -
  let ?k = "af_key (ad_flights d ! i)"
  note D = ac_okD [OF assms(1)]
  have i: "i < length (ad_flights d)" by (rule D(3) [OF assms(2)])
  have sup: "af_stale (ad_flights (ac_supersede ?k d) ! i)"
  proof (cases "ad_active d ?k = Some i")
    case True
    then show ?thesis using i by (simp add: ac_supersede_def)
  next
    case False
    then have "af_stale (ad_flights d ! i)" using D(4) [of ?k i] assms(2) by simp
    then show ?thesis using ac_supersede_mono [of d ?k] i by (auto simp: ac_mono_def af_stale_def)
  qed
  have clr: "af_stale (ad_flights (ac_clear_locked d) ! i)"
    using D(4) [of ?k i] assms(2) i by (auto simp: ac_clear_locked_def Let_def)
  have rel: "af_stale (ad_flights d' ! i)" if "ac_release_locked i False d = (True, d')"
    using that i by (auto simp: ac_release_locked_def Let_def split: if_splits)
  show "af_stale (ad_flights d' ! i)"
    using assms(3) sup clr rel by (auto simp: ac_makes_stale_def Let_def dest!: ac_invalidate_flights)
  show "ac_mono d d'"
    using assms(3) unfolding ac_makes_stale_def Let_def
    by (elim disjE exE)
      (auto intro: ac_clear_mono ac_release_mono ac_mono_as [OF ac_supersede_mono] dest: ac_invalidate_flights)
qed

section \<open>Properties\<close>

text \<open>C16: no stale load of the asynchronous cache is published. In any interleaving of the lock blocks of
  the tasks, if the key of a running load is set or invalidated, the cache is cleared, or the last
  caller that waited for the load goes away, then whatever happens afterwards, the end of that load does
  not change the entries.\<close>

theorem async_stale_load_not_published:
  assumes "1 \<le> n" "0 \<le> m" "(ac_step m)\<^sup>*\<^sup>* (async_data_init n, {#}) (d, W)" "i \<in> set (ad_owned d)"
    and "ac_makes_stale i d d1" "(ac_step m)\<^sup>*\<^sup>* (d1, W1) (d2, W2)"
  shows "\<not> ac_can_publish i d2 \<and> st_entries (ad_state (ac_finish i r now d2)) = st_entries (ad_state d2)"
proof -
  have ok: "ac_ok d" using ac_reachable_inv [OF assms(1-3)] by (simp add: ac_inv_def)
  note stale = ac_makes_stale [OF ok assms(4,5)]
  have "i < length (ad_flights d1)" using stale(2) ac_okD(3) [OF ok assms(4)] by (simp add: ac_mono_def)
  then have "af_stale (ad_flights d2 ! i)"
    using stale(1) ac_run_mono [OF assms(6)] by (auto simp: ac_mono_def af_stale_def)
  then have "\<not> ac_can_publish i d2" by (auto simp: ac_can_publish_def af_stale_def Let_def)
  then show ?thesis
    by (auto simp: ac_finish_def ac_complete_locked_def Let_def split: option.split)
qed

text \<open>C9: waiters are counted right. In every interleaving at most \<open>max_inflight\<close> loads are in progress;
  the waiter count of a flight is the number of callers that wait for it, so that a load is abandoned,
  and its task cancelled, only when nobody waits for it any more, and nobody ever waits for an abandoned
  load; and a load that is not stale is the only one of its key, which every miss on the key joins.\<close>

theorem async_waiters:
  assumes "1 \<le> n" "0 \<le> m" "(ac_step m)\<^sup>*\<^sup>* (async_data_init n, {#}) (d, W)"
  shows "int (length (ad_owned d)) \<le> m
    \<and> (\<forall>i\<in>#W. af_waiters (ad_flights d ! i) = int (count W i) \<and> \<not> af_abandoned (ad_flights d ! i)
        \<and> (fst (ac_release_locked i b d) \<longleftrightarrow> \<not> b \<and> i \<notin># W - {#i#}))
    \<and> (\<forall>i\<in>set (ad_owned d). \<not> af_stale (ad_flights d ! i) \<longrightarrow>
        fst (ac_admit m (af_key (ad_flights d ! i)) ttl d) = Join_flight i
        \<and> (\<forall>j\<in>set (ad_owned d) - {i}. af_key (ad_flights d ! j) = af_key (ad_flights d ! i) \<longrightarrow>
             af_stale (ad_flights d ! j)))"
proof -
  have ok: "ac_ok d" and len: "int (length (ad_owned d)) \<le> m" and wait: "waiters_ok d W"
    using ac_reachable_inv [OF assms] by (simp_all add: ac_inv_def)
  note D = ac_okD [OF ok] and V = waitersD [OF wait]
  have "af_waiters (ad_flights d ! i) = int (count W i) \<and> \<not> af_abandoned (ad_flights d ! i)
      \<and> (fst (ac_release_locked i b d) \<longleftrightarrow> \<not> b \<and> i \<notin># W - {#i#})" if "i \<in># W" for i
  proof -
    have i: "i < length (ad_flights d)" "af_waiters (ad_flights d ! i) = int (count W i)"
      "\<not> af_abandoned (ad_flights d ! i)"
      using V [of i] that by blast+
    have "fst (ac_release_locked i b d) \<longleftrightarrow> \<not> b \<and> count W i = 1"
      using i(1,2) by (auto simp: ac_release_locked_def Let_def)
    moreover have "count (W - {#i#}) i = 0 \<longleftrightarrow> count W i = 1"
      using count_greater_eq_one_iff [of W i] that by (simp only: count_diff count_single simp_thms if_True) linarith
    then have "i \<notin># W - {#i#} \<longleftrightarrow> count W i = 1" by (simp only: not_in_iff)
    ultimately show ?thesis using i by simp
  qed
  moreover have "fst (ac_admit m (af_key (ad_flights d ! i)) ttl d) = Join_flight i
      \<and> (\<forall>j\<in>set (ad_owned d) - {i}. af_key (ad_flights d ! j) = af_key (ad_flights d ! i) \<longrightarrow>
           af_stale (ad_flights d ! j))" if "i \<in> set (ad_owned d)" "\<not> af_stale (ad_flights d ! i)" for i
  proof -
    have act: "ad_active d (af_key (ad_flights d ! i)) = Some i" using that D(4) by blast
    have "af_stale (ad_flights d ! j)"
      if "j \<in> set (ad_owned d) - {i}" "af_key (ad_flights d ! j) = af_key (ad_flights d ! i)" for j
      using D(4) [of "af_key (ad_flights d ! i)" j] act that by auto
    then show ?thesis using act by (simp add: ac_admit_def)
  qed
  ultimately show ?thesis using len by blast
qed

text \<open>A late waiter of an old flight spoils a fresh one: when it leaves, the version of the key is bumped
  although another flight is active for the key, which is neither superseded nor abandoned and now
  cannot publish.\<close>

theorem late_waiter_spoils_load:
  assumes "ac_ok d" "waiters_ok d W" "ad_active d (af_key (ad_flights d ! i)) = Some j" "i \<noteq> j" "count W i = 1"
    and "ac_can_publish j d" "ac_release_locked i False d = (c, d')"
  shows "c \<and> \<not> ac_can_publish j d' \<and> ad_active d' (af_key (ad_flights d ! i)) = Some j
    \<and> \<not> af_stale (ad_flights d' ! j)"
proof -
  have i: "i \<in># W" using assms(5) by (simp flip: count_greater_zero_iff)
  then have "i < length (ad_flights d)" "af_waiters (ad_flights d ! i) = 1" using waitersD [OF assms(2)] assms(5) by auto
  moreover have "af_key (ad_flights d ! j) = af_key (ad_flights d ! i)" "\<not> af_stale (ad_flights d ! j)"
    using ac_okD(4) [OF assms(1)] assms(3) by blast+
  ultimately show ?thesis
    using assms(3,4,6,7) by (auto simp: ac_release_locked_def ac_can_publish_def Let_def bump_version_def version_def)
qed

section \<open>Concrete runs\<close>

definition demo_load :: "(nat, char) async_data" where
  "demo_load = ac_started 0 7 (snd (ac_admit 4 1 5 (async_data_init 3)))"

lemma demo_load_run: "(ac_step 4)\<^sup>*\<^sup>* (async_data_init 3, {#}) (demo_load, {#0#})"
proof -
  have "ac_admit 4 1 5 (async_data_init 3 :: (nat, char) async_data) =
      (Own_flight 0, snd (ac_admit 4 1 5 (async_data_init 3)))"
    by (simp add: ac_admit_def async_data_init_def Let_def)
  from ac_step.own [OF this, of "{#}" 7] show ?thesis unfolding demo_load_def by blast
qed

lemmas demo_load_simps = demo_load_def ac_started_def ac_admit_def async_data_init_def Let_def cache_state_init_def version_def

theorem async_stale_load_not_published_witness:
  "let d = snd (ac_release_locked 0 False demo_load)
   in ac_release_locked 0 False demo_load = (True, d)
    \<and> st_entries (ad_state (ac_finish 0 (Some CHR ''x'') 0 d)) = st_entries (ad_state d)"
proof -
  let ?d = "snd (ac_release_locked 0 False demo_load)"
  have "ac_release_locked 0 False demo_load = (True, ?d)"
    by (simp add: demo_load_simps ac_release_locked_def)
  moreover from this have "ac_makes_stale 0 demo_load ?d" by (simp add: ac_makes_stale_def Let_def)
  moreover have "0 \<in> set (ad_owned demo_load)" by (simp add: demo_load_simps)
  ultimately show ?thesis
    using async_stale_load_not_published [of 3 4 demo_load "{#0#}" 0 ?d "{#}" ?d "{#}" "Some CHR ''x''" 0] demo_load_run
    by (simp add: Let_def)
qed

definition demo_joined :: "(nat, char) async_data" where
  "demo_joined = snd (ac_admit 4 1 9 demo_load)"

lemma demo_joined_run: "(ac_step 4)\<^sup>*\<^sup>* (async_data_init 3, {#}) (demo_joined, {#0, 0#})"
proof -
  have "ac_admit 4 1 9 demo_load = (Join_flight 0, demo_joined)"
    by (simp add: demo_joined_def demo_load_simps)
  from ac_step.join [OF this, of "{#0#}"] demo_load_run show ?thesis by (rule rtranclp.rtrancl_into_rtrancl [rotated])
qed

theorem async_waiters_witness:
  "af_waiters (ad_flights demo_joined ! 0) = 2 \<and> \<not> fst (ac_release_locked 0 False demo_joined)
    \<and> fst (ac_admit 4 1 5 demo_joined) = Join_flight 0"
proof -
  have "0 \<in> set (ad_owned demo_joined)" "af_key (ad_flights demo_joined ! 0) = 1" "\<not> af_stale (ad_flights demo_joined ! 0)"
    by (simp_all add: demo_joined_def demo_load_simps af_stale_def)
  then show ?thesis using async_waiters [of 3 4 demo_joined "{#0, 0#}" False 5] demo_joined_run by auto
qed

text \<open>A reachable state in which a late waiter spoils a fresh load: the key of the first load is
  invalidated, a second caller starts another, and the first caller is cancelled.\<close>

definition demo_fresh :: "(nat, char) async_data" where
  "demo_fresh = ac_started 1 8 (snd (ac_admit 4 1 5 (snd (ac_invalidate_locked 1 0 demo_load))))"

lemma demo_fresh_run: "(ac_step 4)\<^sup>*\<^sup>* (async_data_init 3, {#}) (demo_fresh, {#1, 0#})"
proof -
  let ?d = "snd (ac_invalidate_locked 1 0 demo_load)"
  have "ac_step 4 (demo_load, {#0#}) (?d, {#0#})" by (rule ac_step.invalidate) (rule prod.collapse [symmetric])
  moreover have "ac_admit 4 1 5 ?d = (Own_flight 1, snd (ac_admit 4 1 5 ?d))"
    by (simp add: demo_load_simps ac_invalidate_locked_def ac_supersede_def split: prod.split)
  from ac_step.own [OF this, of "{#0#}" 8] have "ac_step 4 (?d, {#0#}) (demo_fresh, {#1, 0#})"
    unfolding demo_fresh_def .
  ultimately show ?thesis using demo_load_run by (meson rtranclp.rtrancl_into_rtrancl)
qed

theorem late_waiter_reachable:
  "ac_can_publish 1 demo_fresh \<and> \<not> ac_can_publish 1 (snd (ac_release_locked 0 False demo_fresh))
    \<and> ad_active (snd (ac_release_locked 0 False demo_fresh)) 1 = Some 1"
proof -
  have "ac_ok demo_fresh" "waiters_ok demo_fresh {#1, 0#}"
    using ac_reachable_inv [OF _ _ demo_fresh_run] by (simp_all add: ac_inv_def)
  moreover have "ad_active demo_fresh 1 = Some 1" "af_key (ad_flights demo_fresh ! 0) = 1" "ac_can_publish 1 demo_fresh"
    by (simp_all add: demo_fresh_def demo_load_simps ac_invalidate_locked_def ac_supersede_def ac_can_publish_def
        cache_invalidate_def purge_expired.simps bump_version_def drop_unused_version_def od_del_def async_owned_keys_def)
  ultimately show ?thesis
    using late_waiter_spoils_load [of demo_fresh "{#1, 0#}" 0 1 "fst (ac_release_locked 0 False demo_fresh)"
        "snd (ac_release_locked 0 False demo_fresh)"] by simp
qed

end
