(* ===== verification/Leader_Core.thy ===== *)
theory Leader_Core
  imports Prelude
begin

text \<open>
  \<open>bluetape.leader\<close>: the backend-neutral values of leader election (\<open>_errors\<close>, \<open>_options\<close>, \<open>_values\<close>,
  \<open>_results\<close>).

  A dataclass is a record, and its constructor with \<open>__post_init__\<close> a function from the arguments,
  which are dynamically typed (\<open>pyobj\<close>), to the record or to what is raised. An instance of a subclass
  of the expected type is \<open>OOther\<close>: the code asks for exact types.
\<close>

section \<open>Errors\<close>

text \<open>What the leader packages raise, and what they tell apart in what they catch: the three errors
  after which a Redis call has an uncertain outcome (\<open>Uncertain\<close>), the other exceptions, and the
  interrupts that are no \<open>Exception\<close>.\<close>

datatype leader_exn =
    TypeError string
  | ValueError string
  | RuntimeError string
  | AssertionError
  | InvalidLeaderOptionsError
  | InvalidLockNameError
  | LeaderBackendError
  | LeaderLeaseLostError
  | LeaderReleaseError
  | LeaderExecutionError leader_exn leader_exn
  | NoScriptError
  | Uncertain nat
  | OtherException nat
  | CancelledError
  | Interrupt nat
  | OtherBaseException nat

text \<open>\<open>isinstance(e, Exception)\<close> and \<open>isinstance(e, LeaderError)\<close>; \<open>Interrupt\<close> is one of
  \<open>KeyboardInterrupt\<close>, \<open>SystemExit\<close> and \<open>GeneratorExit\<close>.\<close>

fun is_exception :: "leader_exn \<Rightarrow> bool" where
  "is_exception CancelledError = False"
| "is_exception (Interrupt _) = False"
| "is_exception (OtherBaseException _) = False"
| "is_exception _ = True"

fun is_leader_error :: "leader_exn \<Rightarrow> bool" where
  "is_leader_error InvalidLeaderOptionsError = True"
| "is_leader_error InvalidLockNameError = True"
| "is_leader_error LeaderBackendError = True"
| "is_leader_error LeaderLeaseLostError = True"
| "is_leader_error LeaderReleaseError = True"
| "is_leader_error (LeaderExecutionError _ _) = True"
| "is_leader_error _ = False"

fun is_uncertain :: "leader_exn \<Rightarrow> bool" where
  "is_uncertain (Uncertain _) = True"
| "is_uncertain _ = False"

fun is_interrupt :: "leader_exn \<Rightarrow> bool" where
  "is_interrupt (Interrupt _) = True"
| "is_interrupt _ = False"

definition leader_execution_error :: "leader_exn \<Rightarrow> leader_exn \<Rightarrow> leader_exn" where
  "leader_execution_error action_cause lifecycle_cause =
     (if \<not> is_exception action_cause then TypeError ''action_cause must be Exception''
      else if \<not> is_leader_error lifecycle_cause then TypeError ''lifecycle_cause must be LeaderError''
      else LeaderExecutionError action_cause lifecycle_cause)"

section \<open>Durations and instants\<close>

text \<open>\<open>datetime.timedelta\<close>, normalised as Python keeps it.\<close>

record timedelta =
  td_days :: int
  td_seconds :: int
  td_microseconds :: int

definition td_us :: "timedelta \<Rightarrow> int" where
  "td_us d = (td_days d * 86400 + td_seconds d) * 1000000 + td_microseconds d"

definition timedelta_of_us :: "int \<Rightarrow> timedelta" where
  "timedelta_of_us us =
     \<lparr>td_days = us div 86400000000, td_seconds = us div 1000000 mod 86400, td_microseconds = us mod 1000000\<rparr>"

definition td_ok :: "timedelta \<Rightarrow> bool" where
  "td_ok d \<longleftrightarrow> 0 \<le> td_seconds d \<and> td_seconds d < 86400 \<and> 0 \<le> td_microseconds d \<and> td_microseconds d < 1000000"

text \<open>\<open>d / n\<close> rounds to the nearest microsecond, ties to even.\<close>

definition td_div :: "timedelta \<Rightarrow> int \<Rightarrow> timedelta" where
  "td_div d n = timedelta_of_us (round_half_even (of_int (td_us d) / of_int n))"

definition td_add_us :: "int \<Rightarrow> timedelta \<Rightarrow> int" where
  "td_add_us t d = t + td_us d"

text \<open>\<open>d.total_seconds()\<close> is a correctly rounded quotient.\<close>

definition total_seconds :: "timedelta \<Rightarrow> pyfloat" where
  "total_seconds d = round_double (of_int (td_us d) / 1000000)"

text \<open>The time zone of a \<open>datetime\<close>: none, a fixed \<open>timezone\<close>, a \<open>ZoneInfo\<close> with its offset at that
  instant, or an instance of another class. Offsets and instants are in microseconds.\<close>

datatype tzinfo = Naive | Timezone int | Zone int | OtherTz

record pydatetime =
  dt_us :: int
  dt_tz :: tzinfo

datatype pyobj =
    ONone
  | OBool bool
  | OInt int
  | OFloat pyfloat
  | OStr pystr
  | OBytes pybytes
  | OTimedelta timedelta
  | ODatetime pydatetime
  | OOther

section \<open>Checks\<close>

definition require_exact_timedelta :: "pyobj \<Rightarrow> string \<Rightarrow> leader_exn + timedelta" where
  "require_exact_timedelta value field_name =
     (case value of OTimedelta d \<Rightarrow> Inr d | _ \<Rightarrow> Inl (TypeError (field_name @ '' must be an exact timedelta'')))"

definition require_exact_bool :: "pyobj \<Rightarrow> string \<Rightarrow> leader_exn + bool" where
  "require_exact_bool value field_name =
     (case value of OBool b \<Rightarrow> Inr b | _ \<Rightarrow> Inl (TypeError (field_name @ '' must be an exact bool'')))"

definition require_exact_str :: "pyobj \<Rightarrow> string \<Rightarrow> leader_exn + pystr" where
  "require_exact_str value field_name =
     (case value of OStr s \<Rightarrow> Inr s | _ \<Rightarrow> Inl (TypeError (field_name @ '' must be an exact str'')))"

text \<open>An optional field: \<open>None\<close> is taken as it is.\<close>

definition optional :: "(pyobj \<Rightarrow> string \<Rightarrow> leader_exn + 'a) \<Rightarrow> pyobj \<Rightarrow> string \<Rightarrow> leader_exn + 'a option" where
  "optional check value field_name =
     (case value of ONone \<Rightarrow> Inr None | _ \<Rightarrow> ebind (check value field_name) (\<lambda>x. Inr (Some x)))"

definition require_optional_utc_datetime :: "pyobj \<Rightarrow> string \<Rightarrow> leader_exn + pydatetime option" where
  "require_optional_utc_datetime value field_name =
     (case value of
        ONone \<Rightarrow> Inr None
      | ODatetime d \<Rightarrow>
          (case dt_tz d of
             Timezone offset \<Rightarrow>
               if offset \<noteq> 0 then Inl (ValueError (field_name @ '' must be an aware UTC datetime'')) else Inr (Some d)
           | Zone offset \<Rightarrow>
               if offset \<noteq> 0 then Inl (ValueError (field_name @ '' must be an aware UTC datetime'')) else Inr (Some d)
           | _ \<Rightarrow> Inl (ValueError (field_name @ '' must be an aware UTC datetime'')))
      | _ \<Rightarrow> Inl (TypeError (field_name @ '' must be an exact datetime or None'')))"

definition validate_node_id :: "pystr \<Rightarrow> leader_exn + unit" where
  "validate_node_id node_id =
     (case utf8_length node_id of
        None \<Rightarrow> Inl InvalidLeaderOptionsError
      | Some encoded_length \<Rightarrow>
          if node_id = [] \<or> str_isspace node_id \<or> encoded_length > 256
          then Inl InvalidLeaderOptionsError else Inr ())"

section \<open>Options\<close>

record leader_options =
  lo_wait_time :: timedelta
  lo_lease_time :: timedelta
  lo_node_id :: "pystr option"
  lo_min_lease_time :: timedelta
  lo_auto_renew :: bool
  lo_renew_interval :: "timedelta option"

definition check :: "bool \<Rightarrow> leader_exn + unit" where
  "check ok = (if ok then Inr () else Inl InvalidLeaderOptionsError)"

definition derive_interval :: "bool \<Rightarrow> timedelta option \<Rightarrow> timedelta \<Rightarrow> leader_exn + timedelta option" where
  "derive_interval auto_renew interval lease_time =
     (case interval of
        None \<Rightarrow>
          if auto_renew
          then (let derived = td_div lease_time 3
                in if td_us derived \<le> 0 then Inl InvalidLeaderOptionsError else Inr (Some derived))
          else Inr None
      | Some i \<Rightarrow>
          if \<not> (0 < td_us i \<and> td_us i < td_us lease_time) then Inl InvalidLeaderOptionsError else Inr (Some i))"

definition leader_options_new ::
  "pyobj \<Rightarrow> pyobj \<Rightarrow> pyobj \<Rightarrow> pyobj \<Rightarrow> pyobj \<Rightarrow> pyobj \<Rightarrow> leader_exn + leader_options" where
  "leader_options_new wait_time lease_time node_id min_lease_time auto_renew renew_interval =
     ebind (require_exact_timedelta wait_time ''wait_time'') (\<lambda>wt.
     ebind (require_exact_timedelta lease_time ''lease_time'') (\<lambda>lt.
     ebind (require_exact_timedelta min_lease_time ''min_lease_time'') (\<lambda>mt.
     ebind (require_exact_bool auto_renew ''auto_renew'') (\<lambda>ar.
     ebind (optional require_exact_timedelta renew_interval ''renew_interval'') (\<lambda>ri.
     ebind (optional require_exact_str node_id ''node_id'') (\<lambda>nid.
     ebind (check (\<not> (td_us wt < 0 \<or> td_us lt \<le> 0))) (\<lambda>_.
     ebind (check (0 \<le> td_us mt \<and> td_us mt \<le> td_us lt)) (\<lambda>_.
     ebind (case nid of None \<Rightarrow> Inr () | Some n \<Rightarrow> validate_node_id n) (\<lambda>_.
     ebind (derive_interval ar ri lt) (\<lambda>interval.
     Inr \<lparr>lo_wait_time = wt, lo_lease_time = lt, lo_node_id = nid, lo_min_lease_time = mt,
          lo_auto_renew = ar, lo_renew_interval = interval\<rparr>))))))))))"

section \<open>Lease observations\<close>

record leader_lease =
  ll_audit_leader_id :: pystr
  ll_node_id :: "pystr option"
  ll_elected_at :: "pydatetime option"
  ll_lease_until :: "pydatetime option"

record fenced_leader_lease = leader_lease +
  fll_fencing_token :: int

definition leader_lease_new :: "pyobj \<Rightarrow> pyobj \<Rightarrow> pyobj \<Rightarrow> pyobj \<Rightarrow> leader_exn + leader_lease" where
  "leader_lease_new audit_leader_id node_id elected_at lease_until =
     ebind (require_exact_str audit_leader_id ''audit_leader_id'') (\<lambda>a.
     ebind (optional require_exact_str node_id ''node_id'') (\<lambda>n.
     ebind (require_optional_utc_datetime elected_at ''elected_at'') (\<lambda>e.
     ebind (require_optional_utc_datetime lease_until ''lease_until'') (\<lambda>u.
     Inr \<lparr>ll_audit_leader_id = a, ll_node_id = n, ll_elected_at = e, ll_lease_until = u\<rparr>))))"

definition fenced_leader_lease_new ::
  "pyobj \<Rightarrow> pyobj \<Rightarrow> pyobj \<Rightarrow> pyobj \<Rightarrow> pyobj \<Rightarrow> leader_exn + fenced_leader_lease" where
  "fenced_leader_lease_new audit_leader_id node_id elected_at lease_until fencing_token =
     ebind (leader_lease_new audit_leader_id node_id elected_at lease_until) (\<lambda>l.
     case fencing_token of
       OInt t \<Rightarrow>
         if t < 1 then Inl (ValueError ''fencing_token must be positive'')
         else Inr (leader_lease.extend l (fenced_leader_lease.fields t))
     | _ \<Rightarrow> Inl (TypeError ''fencing_token must be an exact int''))"

section \<open>Results\<close>

datatype ('v, 'l) leader_run_result = Elected 'v 'l | Skipped | ActionFailed leader_exn 'l

definition action_failed :: "leader_exn \<Rightarrow> 'l \<Rightarrow> leader_exn + ('v, 'l) leader_run_result" where
  "action_failed cause lease =
     (if is_exception cause then Inr (ActionFailed cause lease) else Inl (TypeError ''cause must be Exception''))"

datatype renew_outcome = Renewed "pydatetime option" | NotHeld | RenewBackendFailure leader_exn

definition renewed :: "pyobj \<Rightarrow> leader_exn + renew_outcome" where
  "renewed observed_lease_until =
     ebind (require_optional_utc_datetime observed_lease_until ''observed_lease_until'') (\<lambda>d. Inr (Renewed d))"

definition renew_backend_failure :: "leader_exn \<Rightarrow> leader_exn + renew_outcome" where
  "renew_backend_failure cause =
     (if cause = LeaderBackendError then Inr (RenewBackendFailure cause)
      else Inl (TypeError ''cause must be LeaderBackendError''))"

section \<open>Lemmas\<close>

lemma timedelta_of_us_ok [simp]: "td_ok (timedelta_of_us n)"
  by (simp add: td_ok_def timedelta_of_us_def)

lemma td_us_of_us [simp]: "td_us (timedelta_of_us n) = n"
proof -
  have "n div 86400000000 = n div 1000000 div 86400" by (simp add: zdiv_zmult2_eq)
  then have "n div 86400000000 * 86400 + n div 1000000 mod 86400 = n div 1000000" by simp
  then show ?thesis by (simp add: td_us_def timedelta_of_us_def)
qed

lemma timedelta_eq_iff: "td_ok d \<Longrightarrow> td_ok e \<Longrightarrow> td_us d = td_us e \<longleftrightarrow> d = e"
proof
  assume ok: "td_ok d" "td_ok e" and eq: "td_us d = td_us e"
  have "td_us x div 1000000 = td_days x * 86400 + td_seconds x \<and> td_us x mod 1000000 = td_microseconds x"
    if "td_ok x" for x
    using that unfolding td_us_def td_ok_def
    by (intro conjI int_div_pos_eq [where r = "td_microseconds x"]
        int_mod_pos_eq [where q = "td_days x * 86400 + td_seconds x"]) simp_all
  then have *: "td_days d * 86400 + td_seconds d = td_days e * 86400 + td_seconds e"
    "td_microseconds d = td_microseconds e"
    using ok eq by metis+
  then have "(td_days d * 86400 + td_seconds d) div 86400 = (td_days e * 86400 + td_seconds e) div 86400"
    "(td_days d * 86400 + td_seconds d) mod 86400 = (td_days e * 86400 + td_seconds e) mod 86400"
    by simp_all
  then have "td_days d = td_days e" "td_seconds d = td_seconds e"
    using ok by (simp_all add: td_ok_def)
  with * show "d = e" by simp
qed simp

lemma round_half_even_third: "0 < n \<Longrightarrow> round_half_even (of_int n / 3) < n \<or> n = 1"
proof -
  assume "0 < n"
  have "\<lfloor>rat_of_int n / 3\<rfloor> = n div 3" using floor_divide_of_int_eq [of n 3, where ?'a = rat] by simp
  then have "round_half_even (of_int n / 3) \<le> n div 3 + 1" by (simp add: round_half_even_def Let_def)
  moreover have "n div 3 + 1 < n \<or> n = 1 \<or> n = 2" using \<open>0 < n\<close> by presburger
  moreover have "\<lfloor>2 / 3 :: rat\<rfloor> = 0" by (rule floor_unique) simp_all
  then have "n = 2 \<Longrightarrow> round_half_even (of_int n / 3) = 1" by (simp add: round_half_even_def Let_def)
  ultimately show ?thesis by linarith
qed

lemma check_eq [simp]: "check b = Inr u \<longleftrightarrow> b"
  by (simp add: check_def)

text \<open>every \<open>LeaderElectionOptions\<close> value that can be built is well formed: the wait is not
  negative, the lease is positive, the minimum lease lies within the lease, and with automatic renewal
  there is a renewal interval, positive and shorter than the lease, also where it is derived from the
  lease by a rounded division.\<close>

theorem leader_options_sound:
  assumes "leader_options_new wait_time lease_time node_id min_lease_time auto_renew renew_interval = Inr opts"
  shows "0 \<le> td_us (lo_wait_time opts) \<and> 0 < td_us (lo_lease_time opts)
    \<and> 0 \<le> td_us (lo_min_lease_time opts) \<and> td_us (lo_min_lease_time opts) \<le> td_us (lo_lease_time opts)
    \<and> (lo_auto_renew opts \<longrightarrow> lo_renew_interval opts \<noteq> None)
    \<and> (\<forall>i. lo_renew_interval opts = Some i \<longrightarrow> 0 < td_us i \<and> td_us i < td_us (lo_lease_time opts))
    \<and> (\<forall>n. lo_node_id opts = Some n \<longrightarrow> n \<noteq> [] \<and> (\<exists>k\<le>256. utf8_length n = Some k))"
proof -
  obtain wt lt mt ar ri nid where
    c: "\<not> (td_us wt < 0 \<or> td_us lt \<le> 0)" "0 \<le> td_us mt \<and> td_us mt \<le> td_us lt"
      "(case nid of None \<Rightarrow> Inr () | Some n \<Rightarrow> validate_node_id n) = Inr ()"
      "derive_interval ar ri lt = Inr (lo_renew_interval opts)"
    and o: "lo_wait_time opts = wt" "lo_lease_time opts = lt" "lo_node_id opts = nid"
      "lo_min_lease_time opts = mt" "lo_auto_renew opts = ar"
    using assms unfolding leader_options_new_def by auto
  have "ar \<longrightarrow> lo_renew_interval opts \<noteq> None"
    using c(4) by (cases "lo_renew_interval opts") (auto simp: derive_interval_def Let_def split: option.splits if_splits)
  moreover have "0 < td_us i \<and> td_us i < td_us lt" if "lo_renew_interval opts = Some i" for i
  proof (cases ri)
    case (Some j)
    then show ?thesis using c(4) that by (auto simp: derive_interval_def split: if_splits)
  next
    case None
    then have i: "i = td_div lt 3" "0 < td_us (td_div lt 3)"
      using c(4) that by (auto simp: derive_interval_def Let_def split: if_splits)
    have "\<lfloor>1 / 3 :: rat\<rfloor> = 0" by (rule floor_unique) simp_all
    then have "td_us lt = 1 \<Longrightarrow> td_us (td_div lt 3) = 0"
      by (simp add: td_div_def round_half_even_def Let_def)
    then show ?thesis
      using i c(1) round_half_even_third [of "td_us lt"] by (force simp: td_div_def)
  qed
  moreover have "n \<noteq> [] \<and> (\<exists>k\<le>256. utf8_length n = Some k)" if "nid = Some n" for n
    using c(3) that by (auto simp: validate_node_id_def not_less split: option.splits if_splits)
  ultimately show ?thesis using c(1,2) o by auto
qed

theorem leader_options_sound_witness:
  "\<exists>opts. leader_options_new (OTimedelta (timedelta_of_us 0)) (OTimedelta (timedelta_of_us 2)) ONone
       (OTimedelta (timedelta_of_us 0)) (OBool True) ONone = Inr opts
     \<and> td_us (lo_lease_time opts) = 2 \<and> (\<exists>i. lo_renew_interval opts = Some i \<and> 0 < td_us i)"
proof -
  have f: "\<lfloor>2 / 3 :: rat\<rfloor> = 0" by (rule floor_unique) simp_all
  obtain opts where o: "leader_options_new (OTimedelta (timedelta_of_us 0)) (OTimedelta (timedelta_of_us 2)) ONone
       (OTimedelta (timedelta_of_us 0)) (OBool True) ONone = Inr opts"
    by (simp add: leader_options_new_def require_exact_timedelta_def require_exact_bool_def optional_def check_def
        derive_interval_def td_div_def Let_def round_half_even_def f)
  moreover have "td_us (lo_lease_time opts) = 2" "lo_auto_renew opts"
    using o by (auto simp: leader_options_new_def require_exact_timedelta_def require_exact_bool_def)
  ultimately show ?thesis using leader_options_sound [OF o] by auto
qed

end
