(* ===== verification/Lease_Record.thy ===== *)
theory Lease_Record
  imports Leader_Core
begin

text \<open>
  The text formats of \<open>bluetape.leader.redis\<close>: owner tokens, fencing tokens, the lease record
  \<open>v1:owner:fence\<close> (\<open>_support\<close>) and the Redis keys (\<open>_keys\<close>), together with the checks that the Lua
  scripts make of the same formats on the server (\<open>_scripts\<close>).

  ASCII text and its bytes are the same list of numbers. SHA-256 is a parameter of the keys.
\<close>

section \<open>Decimal text\<close>

text \<open>\<open>str(n)\<close> of a non-negative integer, and \<open>int(s)\<close> of ASCII digits.\<close>

fun dec_nat :: "nat \<Rightarrow> pystr" where
  "dec_nat n = (if n < 10 then [48 + n] else dec_nat (n div 10) @ [48 + n mod 10])"

declare dec_nat.simps [simp del]

definition dec :: "int \<Rightarrow> pystr" where
  "dec n = (if n < 0 then 45 # dec_nat (nat (- n)) else dec_nat (nat n))"

definition undec :: "pystr \<Rightarrow> int" where
  "undec s = foldl (\<lambda>a c. 10 * a + (int c - 48)) 0 s"

definition is_digit :: "nat \<Rightarrow> bool" where
  "is_digit c \<longleftrightarrow> 48 \<le> c \<and> c \<le> 57"

text \<open>\<open>s <= t\<close> on strings, by code points.\<close>

fun str_le :: "pystr \<Rightarrow> pystr \<Rightarrow> bool" where
  "str_le [] t = True"
| "str_le (x # s) [] = False"
| "str_le (x # s) (y # t) = (x < y \<or> x = y \<and> str_le s t)"

text \<open>\<open>s.split(":")\<close>.\<close>

fun split_on :: "nat \<Rightarrow> pystr \<Rightarrow> pystr list" where
  "split_on c [] = [[]]"
| "split_on c (x # s) =
     (if x = c then [] # split_on c s
      else case split_on c s of [] \<Rightarrow> [[x]] | p # ps \<Rightarrow> (x # p) # ps)"

definition is_ascii :: "pybytes \<Rightarrow> bool" where
  "is_ascii s \<longleftrightarrow> list_all (\<lambda>c. c < 128) s"

section \<open>Tokens and records\<close>

definition max_redis_integer :: int where
  "max_redis_integer = 9223372036854775807"

definition max_redis_integer_text :: pystr where
  "max_redis_integer_text = ustr ''9223372036854775807''"

definition owner_char :: "nat \<Rightarrow> bool" where
  "owner_char c \<longleftrightarrow> 65 \<le> c \<and> c \<le> 90 \<or> 97 \<le> c \<and> c \<le> 122 \<or> is_digit c \<or> c = 45 \<or> c = 95"

definition is_owner_token :: "pystr \<Rightarrow> bool" where
  "is_owner_token value \<longleftrightarrow> length value = 32 \<and> list_all owner_char value"

definition is_canonical_fence :: "pystr \<Rightarrow> bool" where
  "is_canonical_fence value \<longleftrightarrow>
     value \<noteq> [] \<and> 49 \<le> hd value \<and> hd value \<le> 57 \<and> is_ascii value \<and> list_all is_digit value
     \<and> (length value < length max_redis_integer_text
        \<or> length value = length max_redis_integer_text \<and> str_le value max_redis_integer_text)"

record lease_record =
  lr_owner_token :: pystr
  lr_fencing_token :: int

definition lease_record_ok :: "lease_record \<Rightarrow> bool" where
  "lease_record_ok r \<longleftrightarrow>
     is_owner_token (lr_owner_token r) \<and> 0 < lr_fencing_token r \<and> lr_fencing_token r \<le> max_redis_integer"

definition lease_record_new :: "pystr \<Rightarrow> int \<Rightarrow> leader_exn + lease_record" where
  "lease_record_new owner_token fencing_token =
     (if \<not> is_owner_token owner_token then Inl (ValueError ''invalid Redis lease record'')
      else if fencing_token \<le> 0 \<or> fencing_token > max_redis_integer
      then Inl (ValueError ''invalid Redis lease record'')
      else Inr \<lparr>lr_owner_token = owner_token, lr_fencing_token = fencing_token\<rparr>)"

definition record_to_bytes :: "lease_record \<Rightarrow> pybytes" where
  "record_to_bytes r = ustr ''v1:'' @ lr_owner_token r @ ustr '':'' @ dec (lr_fencing_token r)"

definition record_parse :: "pybytes \<Rightarrow> leader_exn + lease_record" where
  "record_parse value =
     (if \<not> is_ascii value then Inl (ValueError ''invalid Redis lease record'')
      else case split_on 58 value of
        [version, owner, fence] \<Rightarrow>
          if version \<noteq> ustr ''v1'' \<or> \<not> is_owner_token owner \<or> \<not> is_canonical_fence fence
          then Inl (ValueError ''invalid Redis lease record'')
          else lease_record_new owner (undec fence)
      | _ \<Rightarrow> Inl (ValueError ''invalid Redis lease record''))"

text \<open>\<open>_new_owner_token\<close>; \<open>token_urlsafe(24)\<close> is the argument.\<close>

definition new_owner_token :: "pystr \<Rightarrow> leader_exn + pystr" where
  "new_owner_token token =
     (if is_owner_token token then Inr token else Inl (RuntimeError ''owner token generation failed''))"

section \<open>The checks of the scripts\<close>

definition lua_digits :: "pybytes \<Rightarrow> bool" where
  "lua_digits s \<longleftrightarrow> (case s of [] \<Rightarrow> False | c # cs \<Rightarrow> 49 \<le> c \<and> c \<le> 57 \<and> list_all is_digit cs)"

definition valid_fence :: "pybytes \<Rightarrow> bool" where
  "valid_fence fence \<longleftrightarrow>
     lua_digits fence
     \<and> (length fence < 19 \<or> length fence = 19 \<and> str_le fence (ustr ''9223372036854775807''))"

text \<open>\<open>string.match(current, '^v1:([%w_-]+):([1-9][0-9]*)$')\<close>. A colon is not in the class of the first
  group, so that the group is the longest run of its class.\<close>

definition lua_word :: "nat \<Rightarrow> bool" where
  "lua_word c \<longleftrightarrow> is_digit c \<or> 65 \<le> c \<and> c \<le> 90 \<or> 97 \<le> c \<and> c \<le> 122 \<or> c = 95 \<or> c = 45"

definition lua_match_record :: "pybytes \<Rightarrow> (pybytes \<times> pybytes) option" where
  "lua_match_record current =
     (if take 3 current \<noteq> ustr ''v1:'' then None
      else let rest = drop 3 current; owner = takeWhile lua_word rest
           in case dropWhile lua_word rest of
                c # fence \<Rightarrow> if owner \<noteq> [] \<and> c = 58 \<and> lua_digits fence then Some (owner, fence) else None
              | [] \<Rightarrow> None)"

text \<open>\<open>not owner or string.len(owner) ~= 32 or not valid_fence(fence)\<close> is \<open>None\<close>.\<close>

definition lua_record :: "pybytes \<Rightarrow> (pybytes \<times> pybytes) option" where
  "lua_record current =
     (case lua_match_record current of
        None \<Rightarrow> None
      | Some (owner, fence) \<Rightarrow> if length owner \<noteq> 32 \<or> \<not> valid_fence fence then None else Some (owner, fence))"

section \<open>Keys\<close>

record redis_keys =
  rk_lease :: pystr
  rk_fence :: pystr
  rk_history :: pystr

definition prefix_char :: "nat \<Rightarrow> bool" where
  "prefix_char c \<longleftrightarrow> owner_char c \<or> c = 46"

definition validated_prefix :: "pyobj \<Rightarrow> leader_exn + pystr" where
  "validated_prefix prefix =
     (case prefix of
        OStr s \<Rightarrow>
          if \<not> (1 \<le> length s \<and> length s \<le> 64) \<or> \<not> list_all prefix_char s
          then Inl (ValueError ''Redis key prefix is invalid'') else Inr s
      | _ \<Rightarrow> Inl (ValueError ''Redis key prefix is invalid''))"

definition redis_keys_of :: "(pystr \<Rightarrow> pystr) \<Rightarrow> pyobj \<Rightarrow> pyobj \<Rightarrow> leader_exn + redis_keys" where
  "redis_keys_of sha256_hex lock_name prefix =
     ebind (validated_prefix prefix) (\<lambda>safe_prefix.
     case lock_name of
       OStr name \<Rightarrow>
         if strip name = [] then Inl InvalidLockNameError
         else (case utf8_length name of
                 None \<Rightarrow> Inl InvalidLockNameError
               | Some n \<Rightarrow>
                   if n > 1024 then Inl InvalidLockNameError
                   else let hash_tag = safe_prefix @ ustr '':{'' @ sha256_hex name @ ustr ''}''
                        in Inr \<lparr>rk_lease = hash_tag @ ustr '':lease'', rk_fence = hash_tag @ ustr '':fence'',
                                rk_history = hash_tag @ ustr '':history''\<rparr>)
     | _ \<Rightarrow> Inl InvalidLockNameError)"

section \<open>Lemmas on decimal text\<close>

lemma undec_append: "undec (s @ [c]) = 10 * undec s + (int c - 48)"
  by (simp add: undec_def)

lemma dec_nat_digits: "list_all is_digit (dec_nat n)"
proof (induction n rule: dec_nat.induct)
  case (1 n)
  moreover have "is_digit (48 + n mod 10)" "n < 10 \<Longrightarrow> is_digit (48 + n)" by (auto simp: is_digit_def)
  ultimately show ?case by (subst dec_nat.simps) simp
qed

lemma undec_dec_nat: "undec (dec_nat n) = int n"
proof (induction n rule: dec_nat.induct)
  case (1 n)
  show ?case
  proof (cases "n < 10")
    case True
    then show ?thesis by (simp add: dec_nat.simps undec_def)
  next
    case False
    then show ?thesis
      using 1 by (simp add: dec_nat.simps [of n] undec_append) presburger
  qed
qed

lemma undec_dec [simp]: "0 \<le> n \<Longrightarrow> undec (dec n) = n"
  by (simp add: dec_def undec_dec_nat)

lemma dec_nat_hd: "0 < n \<Longrightarrow> dec_nat n \<noteq> [] \<and> 49 \<le> hd (dec_nat n) \<and> hd (dec_nat n) \<le> 57"
proof (induction n rule: dec_nat.induct)
  case (1 n)
  show ?case
  proof (cases "n < 10")
    case True
    then show ?thesis using 1 by (simp add: dec_nat.simps)
  next
    case False
    then show ?thesis using 1 by (simp add: dec_nat.simps [of n] hd_append)
  qed
qed

lemma undec_nonneg: "list_all is_digit s \<Longrightarrow> 0 \<le> undec s"
proof (induction s rule: rev_induct)
  case (snoc c s)
  then show ?case by (simp add: undec_append is_digit_def)
qed (simp add: undec_def)

lemma undec_pos: "list_all is_digit s \<Longrightarrow> s \<noteq> [] \<Longrightarrow> 49 \<le> hd s \<Longrightarrow> 0 < undec s"
proof (induction s rule: rev_induct)
  case (snoc c s)
  then show ?case
    by (cases "s = []") (auto simp: undec_append is_digit_def hd_append undec_def)
qed simp

lemma dec_undec:
  "list_all is_digit s \<Longrightarrow> s \<noteq> [] \<Longrightarrow> 49 \<le> hd s \<Longrightarrow> dec (undec s) = s"
proof (induction s rule: rev_induct)
  case (snoc c s)
  show ?case
  proof (cases "s = []")
    case True
    then show ?thesis using snoc by (auto simp: dec_def undec_def dec_nat.simps is_digit_def)
  next
    case False
    have IH: "dec (undec s) = s" and pos: "0 < undec s"
      using snoc False by (auto simp: hd_append intro: undec_pos)
    have c: "48 \<le> c" "c \<le> 57" using snoc by (auto simp: is_digit_def)
    let ?n = "nat (undec (s @ [c]))"
    have n: "int ?n = 10 * undec s + (int c - 48)" using pos c by (simp add: undec_append)
    define m d where "m = nat (undec s)" and "d = c - 48"
    have md: "int m = undec s" "c = 48 + d" using pos c by (simp_all add: m_def d_def)
    then have "int ?n = int (10 * m + d)" using n by simp
    then have "?n = 10 * m + d" "d < 10" "0 < m" "c = 48 + d"
      using pos c md by (simp_all only: of_nat_eq_iff)
    then have "?n div 10 = nat (undec s)" "48 + ?n mod 10 = c" "\<not> ?n < 10" by (auto simp: m_def)
    then have "dec_nat ?n = dec_nat (nat (undec s)) @ [c]" by (subst dec_nat.simps) simp
    then show ?thesis using IH pos c by (simp add: dec_def undec_append)
  qed
qed simp

text \<open>Equally long digit strings compare as their numbers.\<close>

lemma undec_Cons: "undec (c # s) = (int c - 48) * 10 ^ length s + undec s"
proof (induction s rule: rev_induct)
  case (snoc d s)
  then show ?case
    using undec_append [of "c # s" d] by (simp add: undec_append algebra_simps)
qed (simp add: undec_def)

lemma undec_less: "list_all is_digit s \<Longrightarrow> undec s < 10 ^ length s"
proof (induction s)
  case (Cons c s)
  then have "(int c - 48) * 10 ^ length s \<le> 9 * 10 ^ length s" by (intro mult_right_mono) (auto simp: is_digit_def)
  moreover have "undec s < 10 ^ length s" using Cons by simp
  ultimately have "(int c - 48) * 10 ^ length s + undec s < 10 * 10 ^ length s" by linarith
  then show ?case by (simp add: undec_Cons)
qed (simp add: undec_def)

lemma undec_ge: "list_all is_digit s \<Longrightarrow> s \<noteq> [] \<Longrightarrow> 49 \<le> hd s \<Longrightarrow> 10 ^ (length s - 1) \<le> undec s"
proof (cases s)
  case (Cons c t)
  assume "list_all is_digit s" "49 \<le> hd s"
  then have "1 * 10 ^ length t \<le> (int c - 48) * 10 ^ length t" "0 \<le> undec t"
    using Cons by (auto intro!: mult_right_mono undec_nonneg)
  then have "10 ^ length t \<le> (int c - 48) * 10 ^ length t + undec t" by linarith
  then show ?thesis using Cons by (simp add: undec_Cons)
qed simp

lemma str_le_undec:
  "list_all is_digit s \<Longrightarrow> list_all is_digit t \<Longrightarrow> length s = length t \<Longrightarrow> str_le s t \<longleftrightarrow> undec s \<le> undec t"
proof (induction s t rule: str_le.induct)
  case (3 x s y t)
  then have IH: "str_le s t \<longleftrightarrow> undec s \<le> undec t" and len: "length s = length t" by auto
  have lt: "undec (a # u) < undec (b # v)"
    if "a < b" "list_all is_digit u" "list_all is_digit v" "length u = length v" for a b u v
  proof -
    have "(int a - 48) * 10 ^ length v + 10 ^ length v \<le> (int b - 48) * 10 ^ length v"
    proof -
      have "(int a - 48 + 1) * 10 ^ length v \<le> (int b - 48) * 10 ^ length v"
        using that(1) by (intro mult_right_mono) auto
      then show ?thesis by (simp only: distrib_right mult_1_left)
    qed
    then have "(int a - 48) * 10 ^ length v + undec u < (int b - 48) * 10 ^ length v + undec v"
      using undec_less [OF that(2)] undec_nonneg [OF that(3)] that(4) by simp
    then show ?thesis using that(4) by (simp add: undec_Cons)
  qed
  consider "x < y" | "x = y" | "y < x" by linarith
  then show ?case
  proof cases
    case 1
    then show ?thesis using lt [of x y s t] 3(2,3) len by simp
  next
    case 2
    then show ?thesis using IH len by (simp add: undec_Cons)
  next
    case 3
    then show ?thesis using lt [of y x t s] \<open>list_all is_digit (x # s)\<close> \<open>list_all is_digit (y # t)\<close> len by simp
  qed
qed (auto simp: undec_def)

section \<open>Lemmas on tokens and records\<close>

lemma max_text [simp]: "length max_redis_integer_text = 19" "list_all is_digit max_redis_integer_text"
  "undec max_redis_integer_text = max_redis_integer"
  by (simp_all add: max_redis_integer_text_def max_redis_integer_def ustr_def is_digit_def undec_def)

lemma digits_ascii: "list_all is_digit s \<Longrightarrow> is_ascii s"
  by (auto simp: is_ascii_def list_all_iff is_digit_def)

text \<open>The canonical fences are exactly the decimal texts of the positive 63-bit integers.\<close>

lemma canonical_bounds:
  assumes "list_all is_digit s" "s \<noteq> []" "49 \<le> hd s"
  shows "length s < 19 \<or> length s = 19 \<and> str_le s max_redis_integer_text \<longleftrightarrow> undec s \<le> max_redis_integer"
proof -
  consider "length s < 19" | "length s = 19" | "19 < length s" by linarith
  then show ?thesis
  proof cases
    case 1
    have "undec s < 10 ^ length s" by (rule undec_less [OF assms(1)])
    also have "\<dots> \<le> 10 ^ 18" using 1 by (intro power_increasing) auto
    finally show ?thesis using 1 by (simp add: max_redis_integer_def)
  next
    case 2
    then show ?thesis using str_le_undec [OF assms(1), of max_redis_integer_text] by simp
  next
    case 3
    have "(10::int) ^ 19 \<le> 10 ^ (length s - 1)" using 3 by (intro power_increasing) auto
    also have "\<dots> \<le> undec s" by (rule undec_ge [OF assms])
    finally show ?thesis using 3 by (simp add: max_redis_integer_def)
  qed
qed

lemma hd_digit: "list_all is_digit s \<Longrightarrow> s \<noteq> [] \<Longrightarrow> hd s \<le> 57"
  by (cases s) (auto simp: is_digit_def)

lemma canonical_fence_iff:
  "is_canonical_fence s \<longleftrightarrow> (\<exists>n. 0 < n \<and> n \<le> max_redis_integer \<and> s = dec n)"
proof
  assume c: "is_canonical_fence s"
  then have s: "list_all is_digit s" "s \<noteq> []" "49 \<le> hd s" by (auto simp: is_canonical_fence_def)
  moreover have "undec s \<le> max_redis_integer"
    using c canonical_bounds [OF s] by (simp add: is_canonical_fence_def)
  ultimately show "\<exists>n. 0 < n \<and> n \<le> max_redis_integer \<and> s = dec n"
    using undec_pos dec_undec by (intro exI [of _ "undec s"]) simp
next
  assume "\<exists>n. 0 < n \<and> n \<le> max_redis_integer \<and> s = dec n"
  then obtain n where n: "0 < n" "n \<le> max_redis_integer" "s = dec n" by blast
  have s: "list_all is_digit s" "s \<noteq> []" "49 \<le> hd s"
    using n(1,3) dec_nat_digits dec_nat_hd [of "nat n"] by (auto simp: dec_def)
  moreover have "undec s \<le> max_redis_integer" using n by simp
  ultimately show "is_canonical_fence s"
    using canonical_bounds [OF s] hd_digit digits_ascii by (simp add: is_canonical_fence_def)
qed

lemma canonical_fence_dec [simp]: "0 < n \<Longrightarrow> n \<le> max_redis_integer \<Longrightarrow> is_canonical_fence (dec n)"
  using canonical_fence_iff by blast

lemma canonical_fence_undec:
  assumes "is_canonical_fence s"
  shows "0 < undec s" "undec s \<le> max_redis_integer" "dec (undec s) = s"
  using assms by (auto simp: canonical_fence_iff)

lemma split_on_absent: "c \<notin> set s \<Longrightarrow> split_on c s = [s]"
  by (induction s) auto

lemma split_on_append: "c \<notin> set s \<Longrightarrow> split_on c (s @ c # t) = s # split_on c t"
  by (induction s) auto

lemma split_on_join: "split_on c s = p # q # ps \<Longrightarrow> \<exists>t. s = p @ c # t \<and> c \<notin> set p \<and> split_on c t = q # ps"
proof (induction s arbitrary: p)
  case (Cons x s)
  show ?case
  proof (cases "x = c")
    case True
    then show ?thesis using Cons.prems by auto
  next
    case False
    obtain p' where "p = x # p'" "split_on c s = p' # q # ps"
      using Cons.prems False by (auto split: list.splits)
    then show ?thesis using Cons.IH [of p'] False by force
  qed
qed simp

lemma split_on_nonempty [simp]: "split_on c s \<noteq> []"
  by (cases s) (auto split: list.split)

lemma split_on_single: "split_on c s = [p] \<Longrightarrow> p = s \<and> c \<notin> set s"
  by (induction s arbitrary: p) (auto split: if_splits list.splits)

lemma split_on_three:
  "split_on c s = [a, b, d] \<longleftrightarrow> s = a @ c # b @ c # d \<and> c \<notin> set a \<and> c \<notin> set b \<and> c \<notin> set d"
  using split_on_join [of c s a b "[d]"] split_on_join [of c _ b d "[]"] split_on_single [of c _ d]
  by (auto simp: split_on_append split_on_absent dest!: split_on_join split_on_single)

lemma owner_no_colon: "is_owner_token t \<Longrightarrow> 58 \<notin> set t"
  by (auto simp: is_owner_token_def list_all_iff owner_char_def is_digit_def)

lemma owner_ascii: "is_owner_token t \<Longrightarrow> is_ascii t"
  by (auto simp: is_owner_token_def is_ascii_def list_all_iff owner_char_def is_digit_def)

lemma digits_no_colon: "list_all is_digit s \<Longrightarrow> 58 \<notin> set s"
  by (auto simp: list_all_iff is_digit_def)

lemma record_parse_iff:
  "record_parse b = Inr r \<longleftrightarrow> lease_record_ok r \<and> b = record_to_bytes r"
proof
  assume "record_parse b = Inr r"
  then obtain o' f where sp: "split_on 58 b = [ustr ''v1'', o', f]"
    and c: "is_owner_token o'" "is_canonical_fence f" "lease_record_new o' (undec f) = Inr r"
    by (auto simp: record_parse_def split: if_splits list.splits)
  have "r = \<lparr>lr_owner_token = o', lr_fencing_token = undec f\<rparr>" "lease_record_ok r"
    using c by (auto simp: lease_record_new_def lease_record_ok_def split: if_splits)
  moreover have "b = ustr ''v1'' @ 58 # o' @ 58 # f" using sp by (simp add: split_on_three)
  ultimately show "lease_record_ok r \<and> b = record_to_bytes r"
    using canonical_fence_undec [OF c(2)] by (simp add: record_to_bytes_def ustr_def)
next
  assume "lease_record_ok r \<and> b = record_to_bytes r"
  then have ok: "is_owner_token (lr_owner_token r)" "0 < lr_fencing_token r" "lr_fencing_token r \<le> max_redis_integer"
    and b: "b = ustr ''v1'' @ 58 # lr_owner_token r @ 58 # dec (lr_fencing_token r)"
    by (auto simp: lease_record_ok_def record_to_bytes_def ustr_def)
  have f: "is_canonical_fence (dec (lr_fencing_token r))" using ok by simp
  then have d: "list_all is_digit (dec (lr_fencing_token r))" by (simp add: is_canonical_fence_def)
  have "split_on 58 b = [ustr ''v1'', lr_owner_token r, dec (lr_fencing_token r)]"
    using owner_no_colon [OF ok(1)] digits_no_colon [OF d] by (simp add: b ustr_def split_on_append split_on_absent)
  moreover have "is_ascii b"
    using owner_ascii [OF ok(1)] digits_ascii [OF d] by (simp add: b is_ascii_def ustr_def)
  ultimately show "record_parse b = Inr r"
    using ok f by (simp add: record_parse_def lease_record_new_def)
qed

section \<open>The scripts agree with the client\<close>

lemma valid_fence_iff: "valid_fence s \<longleftrightarrow> is_canonical_fence s"
proof -
  have "lua_digits s \<longleftrightarrow> s \<noteq> [] \<and> 49 \<le> hd s \<and> list_all is_digit s"
    by (cases s) (auto simp: lua_digits_def is_digit_def)
  then show ?thesis
    using hd_digit digits_ascii
    by (auto simp: valid_fence_def is_canonical_fence_def max_redis_integer_text_def [symmetric])
qed

lemma lua_word_owner: "lua_word = owner_char"
  by (rule ext) (auto simp: lua_word_def owner_char_def)

lemma takeWhile_all_stop: "list_all P s \<Longrightarrow> \<not> P c \<Longrightarrow> takeWhile P (s @ c # t) = s \<and> dropWhile P (s @ c # t) = c # t"
  by (induction s) auto

lemma lua_record_iff:
  "lua_record b = Some (w, f) \<longleftrightarrow> is_owner_token w \<and> is_canonical_fence f \<and> b = ustr ''v1:'' @ w @ 58 # f"
proof
  assume "lua_record b = Some (w, f)"
  then have m: "lua_match_record b = Some (w, f)" and c: "length w = 32" "is_canonical_fence f"
    by (auto simp: lua_record_def valid_fence_iff split: option.splits if_splits)
  have t: "take 3 b = ustr ''v1:''" and w: "w = takeWhile owner_char (drop 3 b)"
    and d: "dropWhile owner_char (drop 3 b) = 58 # f"
    using m by (auto simp: lua_match_record_def lua_word_owner Let_def split: if_splits list.splits)
  have "drop 3 b = w @ 58 # f" using takeWhile_dropWhile_id [of owner_char "drop 3 b"] w d by simp
  then have "b = ustr ''v1:'' @ w @ 58 # f" using append_take_drop_id [of 3 b] t by simp
  moreover have "list_all owner_char w" by (auto simp: w list_all_iff dest: set_takeWhileD)
  ultimately show "is_owner_token w \<and> is_canonical_fence f \<and> b = ustr ''v1:'' @ w @ 58 # f"
    using c by (simp add: is_owner_token_def)
next
  assume "is_owner_token w \<and> is_canonical_fence f \<and> b = ustr ''v1:'' @ w @ 58 # f"
  then have w: "length w = 32" "list_all owner_char w" and f: "is_canonical_fence f"
    and b: "b = ustr ''v1:'' @ w @ 58 # f"
    by (auto simp: is_owner_token_def)
  have "\<not> owner_char 58" by (simp add: owner_char_def is_digit_def)
  note tw = takeWhile_all_stop [OF w(2) this]
  have "lua_digits f" using f valid_fence_iff [of f] by (simp add: valid_fence_def)
  moreover have "w \<noteq> []" using w(1) by auto
  ultimately have "lua_match_record b = Some (w, f)"
    by (simp add: lua_match_record_def lua_word_owner b tw ustr_def Let_def)
  then show "lua_record b = Some (w, f)" using w f by (simp add: lua_record_def valid_fence_iff)
qed

text \<open>C37: the lease record is a bijection between the well-formed records and the byte strings that
  the parser accepts: what is written is read back, and what is read is what would be written.\<close>

theorem lease_record_roundtrip:
  "(lease_record_ok r \<longrightarrow> record_parse (record_to_bytes r) = Inr r)
   \<and> (record_parse b = Inr r' \<longrightarrow> record_to_bytes r' = b \<and> lease_record_ok r')"
  using record_parse_iff by auto

theorem lease_record_roundtrip_witness:
  "record_parse (ustr ''v1:'' @ replicate 32 65 @ ustr '':907'')
   = Inr \<lparr>lr_owner_token = replicate 32 65, lr_fencing_token = 907\<rparr>"
proof -
  let ?r = "\<lparr>lr_owner_token = replicate 32 65, lr_fencing_token = 907\<rparr>"
  have "lease_record_ok ?r"
    by (simp add: lease_record_ok_def is_owner_token_def owner_char_def max_redis_integer_def list_all_iff)
  then have "record_parse (record_to_bytes ?r) = Inr ?r" using lease_record_roundtrip [of ?r] by blast
  moreover have "record_to_bytes ?r = ustr ''v1:'' @ replicate 32 65 @ ustr '':907''"
    by (simp add: record_to_bytes_def dec_def dec_nat.simps ustr_def)
  ultimately show ?thesis by simp
qed

text \<open>C38: server and client mean the same thing by a lease record and by a fence. The pattern, the
  length test and \<open>valid_fence\<close> of the Lua scripts accept a byte string exactly when
  \<open>_LeaseRecord.parse\<close> does, with the same owner and number, and the two fence checks accept the same
  texts, namely the decimal texts of 1 to \<open>2^63 - 1\<close>.\<close>

theorem lua_record_agrees:
  "(lua_record b = Some (w, f) \<longleftrightarrow>
      record_parse b = Inr \<lparr>lr_owner_token = w, lr_fencing_token = undec f\<rparr> \<and> f = dec (undec f))
   \<and> (lua_record b = None \<longleftrightarrow> \<not> (\<exists>r. record_parse b = Inr r))
   \<and> (valid_fence s \<longleftrightarrow> is_canonical_fence s)
   \<and> (valid_fence s \<longleftrightarrow> (\<exists>n. 0 < n \<and> n \<le> 2 ^ 63 - 1 \<and> s = dec n))"
proof -
  have some: "lua_record b = Some (w, f) \<longleftrightarrow>
      record_parse b = Inr \<lparr>lr_owner_token = w, lr_fencing_token = undec f\<rparr> \<and> f = dec (undec f)" for w f
    by (auto simp: lua_record_iff record_parse_iff lease_record_ok_def record_to_bytes_def ustr_def
        canonical_fence_undec) (metis canonical_fence_iff)
  moreover have "lua_record b = None \<longleftrightarrow> \<not> (\<exists>r. record_parse b = Inr r)"
  proof -
    have "lua_record b = Some (lr_owner_token r, dec (lr_fencing_token r))" if "record_parse b = Inr r" for r
      using that by (simp add: some) (simp add: record_parse_iff lease_record_ok_def)
    moreover have "\<exists>r. record_parse b = Inr r" if "lua_record b = Some p" for p
      using that by (cases p) (auto simp: some)
    ultimately show ?thesis by (cases "lua_record b") auto
  qed
  moreover have "max_redis_integer = 2 ^ 63 - 1" by (simp add: max_redis_integer_def)
  ultimately show ?thesis using valid_fence_iff [of s] canonical_fence_iff [of s] by simp
qed

end
