(* ===== verification/Redis_Server.thy ===== *)
theory Redis_Server
  imports Prelude
begin

text \<open>
  What the two packages that talk to Redis assume of the server's key space. The server is not part of the
  repository: its state is a type variable, and a view of it, a map from keys to values with their time to
  live, is what the laws about its commands speak of (\<open>Lease_Scripts\<close>, \<open>Result_Scripts\<close>).
\<close>

text \<open>A key holds a string or a value of another type, with the milliseconds it has left to live, if
  it expires at all.\<close>

datatype rvalue = RStr pybytes | RList | RSet | RZset | RHash | RStream

type_synonym rview = "pybytes \<rightharpoonup> rvalue \<times> int option"

fun type_name :: "(rvalue \<times> int option) option \<Rightarrow> pybytes" where
  "type_name None = ustr ''none''"
| "type_name (Some (RStr _, _)) = ustr ''string''"
| "type_name (Some (RList, _)) = ustr ''list''"
| "type_name (Some (RSet, _)) = ustr ''set''"
| "type_name (Some (RZset, _)) = ustr ''zset''"
| "type_name (Some (RHash, _)) = ustr ''hash''"
| "type_name (Some (RStream, _)) = ustr ''stream''"

fun pttl_of :: "(rvalue \<times> int option) option \<Rightarrow> int" where
  "pttl_of None = - 2"
| "pttl_of (Some (_, None)) = - 1"
| "pttl_of (Some (_, Some t)) = t"

text \<open>\<open>returns\<close>: a command that succeeds and changes the view as told; \<open>returns_or_fails\<close>: one that may
  also fail, and then changes nothing.\<close>

definition returns :: "('r \<Rightarrow> rview) \<Rightarrow> ('r, 'e, unit) act \<Rightarrow> 'r \<Rightarrow> rview \<Rightarrow> bool" where
  "returns rv m s v \<longleftrightarrow> (\<exists>s'. m s = Some (Inr (), s') \<and> rv s' = v)"

definition returns_or_fails :: "('r \<Rightarrow> rview) \<Rightarrow> ('r, 'e, unit) act \<Rightarrow> 'r \<Rightarrow> rview \<Rightarrow> bool" where
  "returns_or_fails rv m s v \<longleftrightarrow> returns rv m s v \<or> (\<exists>e s'. m s = Some (Inl e, s') \<and> rv s' = rv s)"

end
