(* ===== verification/Lease_Scripts.thy ===== *)
theory Lease_Scripts
  imports Lease_Record Redis_Server
begin

text \<open>
  The five Lua scripts of \<open>bluetape.leader.redis._scripts\<close>, as they run on the Redis server.

  Redis itself is not part of the repository: the commands that the scripts call are a parameter
  (\<open>'r redis\<close>, over the server's state \<open>'r\<close>), and \<open>redis_laws\<close> states what their documentation says of
  them, by means of a view of the key space. A script runs atomically. \<open>SET ... PX\<close> and \<open>PEXPIRE\<close> may
  fail on a time to live that is out of range, which aborts the script without undoing what it did.
\<close>

section \<open>Redis commands\<close>

record 'r redis =
  rd_type :: "pybytes \<Rightarrow> ('r, leader_exn, pybytes) act"
  rd_pttl :: "pybytes \<Rightarrow> ('r, leader_exn, int) act"
  rd_get :: "pybytes \<Rightarrow> ('r, leader_exn, pybytes option) act"
  rd_set :: "pybytes \<Rightarrow> pybytes \<Rightarrow> ('r, leader_exn, unit) act"
  rd_set_px :: "pybytes \<Rightarrow> pybytes \<Rightarrow> pybytes \<Rightarrow> ('r, leader_exn, unit) act"
  rd_incr :: "pybytes \<Rightarrow> ('r, leader_exn, unit) act"
  rd_pexpire :: "pybytes \<Rightarrow> pybytes \<Rightarrow> ('r, leader_exn, unit) act"
  rd_del :: "pybytes \<Rightarrow> ('r, leader_exn, unit) act"

definition redis_laws :: "'r redis \<Rightarrow> ('r \<Rightarrow> rview) \<Rightarrow> bool" where
  "redis_laws R rv \<longleftrightarrow>
     (\<forall>s k. rd_type R k s = Some (Inr (type_name (rv s k)), s))
     \<and> (\<forall>s k. rd_pttl R k s = Some (Inr (pttl_of (rv s k)), s))
     \<and> (\<forall>s k. rv s k = None \<longrightarrow> rd_get R k s = Some (Inr None, s))
     \<and> (\<forall>s k x t. rv s k = Some (RStr x, t) \<longrightarrow> rd_get R k s = Some (Inr (Some x), s))
     \<and> (\<forall>s k x. returns rv (rd_set R k x) s ((rv s)(k \<mapsto> (RStr x, None))))
     \<and> (\<forall>s k x t. 0 < t \<longrightarrow> returns_or_fails rv (rd_set_px R k x (dec t)) s ((rv s)(k \<mapsto> (RStr x, Some t))))
     \<and> (\<forall>s k. rv s k = None \<longrightarrow> returns rv (rd_incr R k) s ((rv s)(k \<mapsto> (RStr (dec 1), None))))
     \<and> (\<forall>s k n t. rv s k = Some (RStr (dec n), t) \<longrightarrow> 0 < n \<longrightarrow> n < max_redis_integer \<longrightarrow>
          returns rv (rd_incr R k) s ((rv s)(k \<mapsto> (RStr (dec (n + 1)), t))))
     \<and> (\<forall>s k x t t'. rv s k = Some (x, t) \<longrightarrow> 0 < t' \<longrightarrow>
          returns_or_fails rv (rd_pexpire R k (dec t')) s ((rv s)(k \<mapsto> (x, Some t'))))
     \<and> (\<forall>s k. returns rv (rd_del R k) s ((rv s)(k := None)))"

text \<open>The server takes \<open>n\<close> milliseconds for a time to live: \<open>SET ... PX\<close> and \<open>PEXPIRE\<close> fail only on one
  that is out of its range, so that they succeed with such an \<open>n\<close>.\<close>

definition accepts_ttl :: "'r redis \<Rightarrow> ('r \<Rightarrow> rview) \<Rightarrow> int \<Rightarrow> bool" where
  "accepts_ttl R rv n \<longleftrightarrow>
     (\<forall>s k x. returns rv (rd_set_px R k x (dec n)) s ((rv s)(k \<mapsto> (RStr x, Some n))))
     \<and> (\<forall>s k x t. rv s k = Some (x, t) \<longrightarrow>
          returns rv (rd_pexpire R k (dec n)) s ((rv s)(k \<mapsto> (x, Some n))))"

section \<open>The scripts\<close>

definition reply :: "string \<Rightarrow> ('r, leader_exn, pybytes list) act" where
  "reply status = return [ustr status]"

text \<open>A string function of Lua on the result of \<open>GET\<close>, which is \<open>false\<close> if there is no such key: that
  is an error of the script.\<close>

definition lua_string :: "pybytes option \<Rightarrow> ('r, leader_exn, pybytes) act" where
  "lua_string v = (case v of Some x \<Rightarrow> return x | None \<Rightarrow> raise (OtherException 0))"

text \<open>The three guards of the acquire script; \<open>False\<close> and \<open>None\<close> stand for the reply \<open>CORRUPT\<close>.\<close>

definition acquire_history :: "'r redis \<Rightarrow> pybytes \<Rightarrow> pybytes \<Rightarrow> ('r, leader_exn, bool) act" where
  "acquire_history R k3 history_type =
     (if history_type = ustr ''none'' then return True
      else if history_type \<noteq> ustr ''string'' then return False
      else act_bind (rd_pttl R k3) (\<lambda>ttl.
           if ttl \<noteq> - 1 then return False
           else act_bind (rd_get R k3) (\<lambda>v. return (v = Some (ustr ''v1'')))))"

definition acquire_previous ::
  "'r redis \<Rightarrow> pybytes \<Rightarrow> pybytes \<Rightarrow> ('r, leader_exn, pybytes option option) act" where
  "acquire_previous R k2 history_type =
     act_bind (rd_type R k2) (\<lambda>fence_type.
     if fence_type = ustr ''none''
     then return (if history_type \<noteq> ustr ''none'' then None else Some None)
     else if history_type = ustr ''none'' then return None
     else if fence_type \<noteq> ustr ''string'' then return None
     else act_bind (rd_pttl R k2) (\<lambda>ttl.
          if ttl \<noteq> - 1 then return None
          else act_bind (rd_get R k2) (\<lambda>v. act_bind (lua_string v) (\<lambda>previous.
               return (if valid_fence previous then Some (Some previous) else None)))))"

definition acquire_contended ::
  "'r redis \<Rightarrow> pybytes \<Rightarrow> pybytes \<Rightarrow> pybytes \<Rightarrow> pybytes option \<Rightarrow> ('r, leader_exn, pybytes list) act" where
  "acquire_contended R k1 history_type lease_type previous =
     (if history_type = ustr ''none'' then reply ''CORRUPT''
      else if lease_type \<noteq> ustr ''string'' then reply ''CORRUPT''
      else act_bind (rd_get R k1) (\<lambda>v. act_bind (lua_string v) (\<lambda>current.
           case lua_record current of
             None \<Rightarrow> reply ''CORRUPT''
           | Some (owner, fence) \<Rightarrow>
               if Some fence \<noteq> previous then reply ''CORRUPT''
               else act_bind (rd_pttl R k1) (\<lambda>ttl.
                    if ttl \<le> 0 then reply ''CORRUPT'' else reply ''CONTENDED''))))"

definition acquire_take ::
  "'r redis \<Rightarrow> pybytes \<Rightarrow> pybytes \<Rightarrow> pybytes \<Rightarrow> pybytes \<Rightarrow> pybytes option \<Rightarrow> pybytes \<Rightarrow> pybytes
   \<Rightarrow> ('r, leader_exn, pybytes list) act" where
  "acquire_take R k1 k2 k3 history_type previous owner ttl =
     (if previous = Some (ustr ''9223372036854775807'') then reply ''CORRUPT''
      else act_then (if history_type = ustr ''none'' then rd_set R k3 (ustr ''v1'') else return ())
          (act_then (rd_incr R k2)
          (act_bind (rd_get R k2) (\<lambda>v. act_bind (lua_string v) (\<lambda>fence.
           if \<not> valid_fence fence then reply ''CORRUPT''
           else act_then (rd_set_px R k1 (ustr ''v1:'' @ owner @ ustr '':'' @ fence) ttl)
                  (return [ustr ''ACQUIRED'', fence]))))))"

definition acquire_script ::
  "'r redis \<Rightarrow> pybytes \<Rightarrow> pybytes \<Rightarrow> pybytes \<Rightarrow> pybytes \<Rightarrow> pybytes \<Rightarrow> ('r, leader_exn, pybytes list) act" where
  "acquire_script R k1 k2 k3 owner ttl =
     act_bind (rd_type R k3) (\<lambda>history_type.
     act_bind (acquire_history R k3 history_type) (\<lambda>history_ok.
     if \<not> history_ok then reply ''CORRUPT''
     else act_bind (acquire_previous R k2 history_type) (\<lambda>prev.
     case prev of
       None \<Rightarrow> reply ''CORRUPT''
     | Some previous \<Rightarrow>
         act_bind (rd_type R k1) (\<lambda>lease_type.
         if lease_type \<noteq> ustr ''none'' then acquire_contended R k1 history_type lease_type previous
         else acquire_take R k1 k2 k3 history_type previous owner ttl))))"

text \<open>What the other four scripts begin with: \<open>absent\<close> is the reply for a lease that is not there or
  just ran out.\<close>

definition read_lease ::
  "'r redis \<Rightarrow> pybytes \<Rightarrow> string \<Rightarrow> (pybytes \<Rightarrow> ('r, leader_exn, pybytes list) act)
   \<Rightarrow> ('r, leader_exn, pybytes list) act" where
  "read_lease R k1 absent go =
     act_bind (rd_type R k1) (\<lambda>lease_type.
     if lease_type = ustr ''none'' then reply absent
     else if lease_type \<noteq> ustr ''string'' then reply ''CORRUPT''
     else act_bind (rd_get R k1) (\<lambda>v. act_bind (lua_string v) (\<lambda>current.
          if lua_record current = None then reply ''CORRUPT''
          else act_bind (rd_pttl R k1) (\<lambda>ttl.
               if ttl = - 1 then reply ''CORRUPT''
               else if ttl \<le> 0 then reply absent
               else go current))))"

definition renew_script :: "'r redis \<Rightarrow> pybytes \<Rightarrow> pybytes \<Rightarrow> pybytes \<Rightarrow> ('r, leader_exn, pybytes list) act" where
  "renew_script R k1 rec ttl =
     read_lease R k1 ''NOT_HELD'' (\<lambda>current.
       if current \<noteq> rec then reply ''NOT_HELD''
       else act_then (rd_pexpire R k1 ttl) (reply ''RENEWED''))"

definition probe_script :: "'r redis \<Rightarrow> pybytes \<Rightarrow> pybytes \<Rightarrow> ('r, leader_exn, pybytes list) act" where
  "probe_script R k1 rec =
     read_lease R k1 ''NOT_HELD'' (\<lambda>current. if current \<noteq> rec then reply ''NOT_HELD'' else reply ''HELD'')"

definition reconcile_script :: "'r redis \<Rightarrow> pybytes \<Rightarrow> ('r, leader_exn, pybytes list) act" where
  "reconcile_script R k1 = read_lease R k1 ''ABSENT'' (\<lambda>current. return [ustr ''PRESENT'', current])"

definition release_script :: "'r redis \<Rightarrow> pybytes \<Rightarrow> pybytes \<Rightarrow> pybytes \<Rightarrow> ('r, leader_exn, pybytes list) act" where
  "release_script R k1 rec ttl =
     read_lease R k1 ''NOT_HELD'' (\<lambda>current.
       if current \<noteq> rec then reply ''NOT_HELD''
       else if ttl = ustr ''0'' then act_then (rd_del R k1) (reply ''DELETED'')
       else act_then (rd_pexpire R k1 ttl) (reply ''MIN_TTL_APPLIED''))"

section \<open>The abstract lock\<close>

text \<open>What the three keys of a lock mean: the last fence that was issued, 0 if there was none, and the
  holder with its fence and the milliseconds left.\<close>

record lock_abs =
  la_last :: int
  la_holder :: "(pybytes \<times> int \<times> int) option"

definition abs_acquire :: "pybytes \<Rightarrow> int \<Rightarrow> lock_abs \<Rightarrow> pybytes list \<times> lock_abs" where
  "abs_acquire owner ttl a =
     (case la_holder a of
        Some (_, _, t) \<Rightarrow> ([ustr (if t = 0 then ''CORRUPT'' else ''CONTENDED'')], a)
      | None \<Rightarrow>
          if la_last a = max_redis_integer then ([ustr ''CORRUPT''], a)
          else ([ustr ''ACQUIRED'', dec (la_last a + 1)],
                \<lparr>la_last = la_last a + 1, la_holder = Some (owner, la_last a + 1, ttl)\<rparr>))"

definition abs_holds :: "pybytes \<Rightarrow> int \<Rightarrow> lock_abs \<Rightarrow> bool" where
  "abs_holds owner fence a \<longleftrightarrow> (\<exists>t>0. la_holder a = Some (owner, fence, t))"

definition abs_renew :: "pybytes \<Rightarrow> int \<Rightarrow> int \<Rightarrow> lock_abs \<Rightarrow> pybytes list \<times> lock_abs" where
  "abs_renew owner fence ttl a =
     (if abs_holds owner fence a then ([ustr ''RENEWED''], a\<lparr>la_holder := Some (owner, fence, ttl)\<rparr>)
      else ([ustr ''NOT_HELD''], a))"

definition abs_release :: "pybytes \<Rightarrow> int \<Rightarrow> int \<Rightarrow> lock_abs \<Rightarrow> pybytes list \<times> lock_abs" where
  "abs_release owner fence ttl a =
     (if \<not> abs_holds owner fence a then ([ustr ''NOT_HELD''], a)
      else if ttl = 0 then ([ustr ''DELETED''], a\<lparr>la_holder := None\<rparr>)
      else ([ustr ''MIN_TTL_APPLIED''], a\<lparr>la_holder := Some (owner, fence, ttl)\<rparr>))"

definition abs_record :: "pybytes \<Rightarrow> int \<Rightarrow> pybytes" where
  "abs_record owner fence = record_to_bytes \<lparr>lr_owner_token = owner, lr_fencing_token = fence\<rparr>"

definition lock_view :: "pybytes \<Rightarrow> pybytes \<Rightarrow> pybytes \<Rightarrow> lock_abs \<Rightarrow> rview \<Rightarrow> bool" where
  "lock_view k1 k2 k3 a v \<longleftrightarrow>
     (if la_last a = 0 then v k3 = None \<and> v k2 = None
      else 0 < la_last a \<and> la_last a \<le> max_redis_integer
           \<and> v k3 = Some (RStr (ustr ''v1''), None) \<and> v k2 = Some (RStr (dec (la_last a)), None))
     \<and> (case la_holder a of
          None \<Rightarrow> v k1 = None
        | Some (owner, fence, t) \<Rightarrow>
            fence = la_last a \<and> 0 < fence \<and> is_owner_token owner \<and> 0 \<le> t
            \<and> v k1 = Some (RStr (abs_record owner fence), Some t))"

section \<open>The scripts refine the abstract lock\<close>

lemma redis_lawsD:
  assumes "redis_laws R rv"
  shows "rd_type R k s = Some (Inr (type_name (rv s k)), s)"
    "rd_pttl R k s = Some (Inr (pttl_of (rv s k)), s)"
    "rv s k = None \<Longrightarrow> rd_get R k s = Some (Inr None, s)"
    "rv s k = Some (RStr x, t) \<Longrightarrow> rd_get R k s = Some (Inr (Some x), s)"
    "returns rv (rd_set R k x) s ((rv s)(k \<mapsto> (RStr x, None)))"
    "0 < t' \<Longrightarrow> returns_or_fails rv (rd_set_px R k x (dec t')) s ((rv s)(k \<mapsto> (RStr x, Some t')))"
    "rv s k = None \<Longrightarrow> returns rv (rd_incr R k) s ((rv s)(k \<mapsto> (RStr (dec 1), None)))"
    "rv s k = Some (RStr (dec n), t) \<Longrightarrow> 0 < n \<Longrightarrow> n < max_redis_integer \<Longrightarrow>
       returns rv (rd_incr R k) s ((rv s)(k \<mapsto> (RStr (dec (n + 1)), t)))"
    "rv s k = Some (y, t) \<Longrightarrow> 0 < t' \<Longrightarrow>
       returns_or_fails rv (rd_pexpire R k (dec t')) s ((rv s)(k \<mapsto> (y, Some t')))"
    "returns rv (rd_del R k) s ((rv s)(k := None))"
  using assms by (simp_all add: redis_laws_def)

lemma type_names [simp]:
  "ustr ''string'' \<noteq> ustr ''none''" "ustr ''none'' \<noteq> ustr ''string''"
  "type_name (Some (RStr x, t)) = ustr ''string''"
  by (simp_all add: ustr_def)

text \<open>Running a script: it ends, leaves the other keys alone, and either replies as the abstract lock
  does, in a matching state, or fails in a state that matches \<open>a''\<close>.\<close>

definition simulates ::
  "('r \<Rightarrow> rview) \<Rightarrow> pybytes \<Rightarrow> pybytes \<Rightarrow> pybytes \<Rightarrow> ('r, leader_exn, pybytes list) act \<Rightarrow> 'r
   \<Rightarrow> pybytes list \<times> lock_abs \<Rightarrow> lock_abs \<Rightarrow> bool" where
  "simulates rv k1 k2 k3 m s x a'' \<longleftrightarrow>
     (\<exists>r s'. m s = Some (r, s') \<and> (\<forall>k. k \<notin> {k1, k2, k3} \<longrightarrow> rv s' k = rv s k)
        \<and> (case r of Inr y \<Rightarrow> y = fst x \<and> lock_view k1 k2 k3 (snd x) (rv s')
           | Inl _ \<Rightarrow> lock_view k1 k2 k3 a'' (rv s')))"

lemma simulates_reply:
  "m s = Some (Inr y, s') \<Longrightarrow> rv s' = rv s \<Longrightarrow> lock_view k1 k2 k3 (snd x) (rv s) \<Longrightarrow> y = fst x \<Longrightarrow>
   simulates rv k1 k2 k3 m s x a''"
  by (auto simp: simulates_def)

text \<open>No key space represents the lock below, so that a script that matches it on failure cannot fail.\<close>

definition no_lock :: lock_abs where
  "no_lock = \<lparr>la_last = - 1, la_holder = None\<rparr>"

lemma no_lock_view: "\<not> lock_view k1 k2 k3 no_lock v"
  by (simp add: lock_view_def no_lock_def)

lemma simulates_succeeds:
  "simulates rv k1 k2 k3 m s x no_lock \<Longrightarrow>
   \<exists>s'. m s = Some (Inr (fst x), s') \<and> lock_view k1 k2 k3 (snd x) (rv s')"
  unfolding simulates_def by (elim exE conjE, split sum.split_asm) (auto simp: no_lock_view)

lemma abs_record_lua [simp]:
  "is_owner_token w \<Longrightarrow> 0 < f \<Longrightarrow> f \<le> max_redis_integer \<Longrightarrow> lua_record (abs_record w f) = Some (w, dec f)"
  by (simp add: lua_record_iff abs_record_def record_to_bytes_def ustr_def)

lemma dec_max: "dec max_redis_integer = ustr ''9223372036854775807''"
proof -
  have "dec (undec max_redis_integer_text) = max_redis_integer_text"
    by (rule dec_undec) (simp_all, simp_all add: max_redis_integer_text_def ustr_def)
  then show ?thesis by (simp only: max_text) (simp add: max_redis_integer_text_def)
qed

lemma dec_inj: "0 \<le> m \<Longrightarrow> 0 \<le> n \<Longrightarrow> dec m = dec n \<longleftrightarrow> m = n"
  by (metis undec_dec)

lemma abs_record_inj:
  assumes "is_owner_token w" "is_owner_token w'" "0 < f" "f \<le> max_redis_integer" "0 < f'" "f' \<le> max_redis_integer"
  shows "abs_record w f = abs_record w' f' \<longleftrightarrow> w = w' \<and> f = f'"
proof
  assume "abs_record w f = abs_record w' f'"
  then have "Some (w, dec f) = Some (w', dec f')"
    using abs_record_lua [OF assms(1,3,4)] abs_record_lua [OF assms(2,5,6)] by simp
  then show "w = w' \<and> f = f'" using dec_inj [of f f'] assms by simp
qed simp

lemma lock_viewD:
  assumes "lock_view k1 k2 k3 a v"
  shows "la_last a = 0 \<Longrightarrow> v k3 = None \<and> v k2 = None"
    "la_last a \<noteq> 0 \<Longrightarrow> v k3 = Some (RStr (ustr ''v1''), None) \<and> v k2 = Some (RStr (dec (la_last a)), None)"
    "0 \<le> la_last a" "la_last a \<le> max_redis_integer"
    "la_holder a = None \<Longrightarrow> v k1 = None"
    "la_holder a = Some (w, f, t) \<Longrightarrow>
       f = la_last a \<and> 0 < f \<and> is_owner_token w \<and> 0 \<le> t \<and> v k1 = Some (RStr (abs_record w f), Some t)"
  using assms by (auto simp: lock_view_def max_redis_integer_def split: if_splits option.splits)

text \<open>The guards of the acquire script on a well-formed lock.\<close>

lemma acquire_guards:
  assumes laws: "redis_laws R rv" and v: "lock_view k1 k2 k3 a (rv s)"
  defines "ht \<equiv> if la_last a = 0 then ustr ''none'' else ustr ''string''"
  shows "rd_type R k3 s = Some (Inr ht, s)"
    "acquire_history R k3 ht s = Some (Inr True, s)"
    "acquire_previous R k2 ht s = Some (Inr (Some (if la_last a = 0 then None else Some (dec (la_last a)))), s)"
  using lock_viewD(1-4) [OF v] redis_lawsD(1-4) [OF laws]
  by (auto simp: ht_def acquire_history_def acquire_previous_def act_simps lua_string_def valid_fence_iff)

lemma acquire_script_run:
  assumes laws: "redis_laws R rv" and v: "lock_view k1 k2 k3 a (rv s)"
  defines "ht \<equiv> if la_last a = 0 then ustr ''none'' else ustr ''string''"
    and "prev \<equiv> if la_last a = 0 then None else Some (dec (la_last a))"
  shows "acquire_script R k1 k2 k3 w ttl s =
    (if la_holder a = None then acquire_take R k1 k2 k3 ht prev w ttl s
     else acquire_contended R k1 ht (ustr ''string'') prev s)"
  using acquire_guards [OF laws v, folded ht_def prev_def] redis_lawsD(1) [OF laws, of k1 s] lock_viewD(5,6) [OF v]
  by (cases "la_holder a") (auto simp: acquire_script_def act_simps)

lemma acquire_contended_sim:
  assumes laws: "redis_laws R rv" and v: "lock_view k1 k2 k3 a (rv s)" and h: "la_holder a = Some (w', f, t)"
  shows "simulates rv k1 k2 k3 (acquire_script R k1 k2 k3 w ttl) s (abs_acquire w n a) a''"
proof -
  note d = lock_viewD(6) [OF v h] lock_viewD(4) [OF v]
  have "acquire_script R k1 k2 k3 w ttl s =
      Some (Inr [ustr (if t = 0 then ''CORRUPT'' else ''CONTENDED'')], s)"
    unfolding acquire_script_run [OF laws v]
    using d h redis_lawsD(2) [OF laws, of k1 s] redis_lawsD(4) [OF laws, of s k1]
    by (auto simp: acquire_contended_def act_simps lua_string_def reply_def)
  then show ?thesis using v h by (auto simp: abs_acquire_def intro: simulates_reply)
qed

lemma returnsE:
  assumes "returns rv m s v"
  obtains s' where "m s = Some (Inr (), s')" "rv s' = v"
  using assms by (auto simp: returns_def)

text \<open>\<open>SET ... PX\<close> and \<open>PEXPIRE\<close>: they succeed, or they fail on a time to live that is not accepted.\<close>

lemma set_px_cases:
  assumes "redis_laws R rv" and "0 < n"
  obtains (set) s' where "rd_set_px R k x (dec n) s = Some (Inr (), s')" "rv s' = (rv s)(k \<mapsto> (RStr x, Some n))"
    | (failed) e s' where "rd_set_px R k x (dec n) s = Some (Inl e, s')" "rv s' = rv s" "\<not> accepts_ttl R rv n"
  using redis_lawsD(6) [OF assms, of k x s] unfolding returns_or_fails_def returns_def accepts_ttl_def
  by (metis Inl_Inr_False Pair_inject option.inject)

lemma pexpire_cases:
  assumes "redis_laws R rv" and "0 < n" and "rv s k = Some (x, t)"
  obtains (set) s' where "rd_pexpire R k (dec n) s = Some (Inr (), s')" "rv s' = (rv s)(k \<mapsto> (x, Some n))"
    | (failed) e s' where "rd_pexpire R k (dec n) s = Some (Inl e, s')" "rv s' = rv s" "\<not> accepts_ttl R rv n"
  using redis_lawsD(9) [OF assms(1,3,2)] assms(3) unfolding returns_or_fails_def returns_def accepts_ttl_def
  by (metis Inl_Inr_False Pair_inject option.inject)

lemma acquire_free_sim:
  assumes laws: "redis_laws R rv" and v: "lock_view k1 k2 k3 a (rv s)" and h: "la_holder a = None"
    and k: "distinct [k1, k2, k3]" and w: "is_owner_token w" and n: "0 < n"
  shows "simulates rv k1 k2 k3 (acquire_script R k1 k2 k3 w (dec n)) s (abs_acquire w n a)
    (if accepts_ttl R rv n then z else a\<lparr>la_last := la_last a + 1\<rparr>)"
proof (cases "la_last a = max_redis_integer")
  case True
  then have "acquire_script R k1 k2 k3 w (dec n) s = Some (Inr [ustr ''CORRUPT''], s)"
    unfolding acquire_script_run [OF laws v] using h
    by (simp add: acquire_take_def reply_def act_simps dec_max) (simp add: max_redis_integer_def)
  then show ?thesis using v h True by (auto simp: abs_acquire_def intro: simulates_reply)
next
  case False
  let ?l = "la_last a"
  let ?ht = "if ?l = 0 then ustr ''none'' else ustr ''string''"
  note d = lock_viewD(1-5) [OF v]
  have lt: "?l < max_redis_integer" using False d(4) by simp
  have prev: "(if ?l = 0 then None else Some (dec ?l)) \<noteq> Some (ustr ''9223372036854775807'')"
  proof -
    have "dec ?l \<noteq> dec max_redis_integer"
      using False d(3) dec_inj [of ?l max_redis_integer] by (simp add: max_redis_integer_def)
    then show ?thesis by (simp add: dec_max)
  qed
  obtain s1 where s1: "(if ?ht = ustr ''none'' then rd_set R k3 (ustr ''v1'') else return ()) s = Some (Inr (), s1)"
    "rv s1 = (rv s)(k3 \<mapsto> (RStr (ustr ''v1''), None))"
  proof (cases "?l = 0")
    case True
    obtain s1 where "rd_set R k3 (ustr ''v1'') s = Some (Inr (), s1)" "rv s1 = (rv s)(k3 \<mapsto> (RStr (ustr ''v1''), None))"
      by (rule returnsE [OF redis_lawsD(5) [OF laws]])
    then show ?thesis using True that by simp
  next
    case False
    then show ?thesis using d(2) that [of s] by (simp add: act_simps fun_upd_idem)
  qed
  obtain s2 where s2: "rd_incr R k2 s1 = Some (Inr (), s2)" "rv s2 = (rv s1)(k2 \<mapsto> (RStr (dec (?l + 1)), None))"
  proof (cases "?l = 0")
    case True
    then have "rv s1 k2 = None" using d(1) s1(2) k by simp
    from returnsE [OF redis_lawsD(7) [OF laws this]] show ?thesis using that True by auto
  next
    case False
    then have "rv s1 k2 = Some (RStr (dec ?l), None)" using d(2) s1(2) k by simp
    from returnsE [OF redis_lawsD(8) [OF laws this _ lt]] show ?thesis using that False d(3) by auto
  qed
  have vf: "valid_fence (dec (?l + 1))" using d(3) lt by (simp add: valid_fence_iff)
  have g: "rd_get R k2 s2 = Some (Inr (Some (dec (?l + 1))), s2)"
    using redis_lawsD(4) [OF laws, of s2 k2] s2(2) by simp
  let ?rec = "ustr ''v1:'' @ w @ ustr '':'' @ dec (?l + 1)"
  have rec: "?rec = abs_record w (?l + 1)" by (simp add: abs_record_def record_to_bytes_def)
  have run: "acquire_script R k1 k2 k3 w (dec n) s =
      (case rd_set_px R k1 ?rec (dec n) s2 of None \<Rightarrow> None
       | Some (Inl e, s') \<Rightarrow> Some (Inl e, s') | Some (Inr _, s') \<Rightarrow> Some (Inr [ustr ''ACQUIRED'', dec (?l + 1)], s'))"
    unfolding acquire_script_run [OF laws v] using h prev s1(1) s2(1) g vf
    by (simp add: acquire_take_def act_simps lua_string_def split: option.split sum.split)
  have v2: "rv s2 k1 = None" "rv s2 k3 = Some (RStr (ustr ''v1''), None)" "rv s2 k2 = Some (RStr (dec (?l + 1)), None)"
    "k \<notin> {k1, k2, k3} \<Longrightarrow> rv s2 k = rv s k" for k
    using s1(2) s2(2) k d(5) [OF h] by auto
  show ?thesis
    using laws n
  proof (cases rule: set_px_cases [where k = k1 and x = ?rec and s = s2])
    case s3: (set s3)
    have "lock_view k1 k2 k3 (snd (abs_acquire w n a)) (rv s3)"
      using s3(2) v2 d(3) lt h False w n k by (auto simp: abs_acquire_def lock_view_def rec)
    moreover have "fst (abs_acquire w n a) = [ustr ''ACQUIRED'', dec (?l + 1)]"
      using h False by (simp add: abs_acquire_def)
    ultimately show ?thesis using run s3 v2(4) by (simp add: simulates_def)
  next
    case e: (failed e s3)
    then have "lock_view k1 k2 k3 (a\<lparr>la_last := ?l + 1\<rparr>) (rv s3)"
      using v2 d(3) lt h by (simp add: lock_view_def)
    then show ?thesis using run e v2(4) by (simp add: simulates_def)
  qed
qed

text \<open>The other scripts.\<close>

lemma read_lease_run:
  assumes laws: "redis_laws R rv" and v: "lock_view k1 k2 k3 a (rv s)"
  shows "read_lease R k1 absent go s =
    (case la_holder a of
       None \<Rightarrow> Some (Inr [ustr absent], s)
     | Some (w, f, t) \<Rightarrow> if t = 0 then Some (Inr [ustr absent], s) else go (abs_record w f) s)"
proof (cases "la_holder a")
  case None
  then show ?thesis
    using lock_viewD(5) [OF v] redis_lawsD(1) [OF laws, of k1 s] by (simp add: read_lease_def act_simps reply_def)
next
  case (Some p)
  then obtain w f t where h: "la_holder a = Some (w, f, t)" by (cases p) auto
  note d = lock_viewD(6) [OF v h] lock_viewD(4) [OF v]
  have "rd_get R k1 s = Some (Inr (Some (abs_record w f)), s)" using d redis_lawsD(4) [OF laws] by blast
  then show ?thesis
    using d h redis_lawsD(1,2) [OF laws, of k1 s]
    by (auto simp: read_lease_def act_simps lua_string_def reply_def)
qed

lemma holder_record:
  assumes "lock_view k1 k2 k3 a v" "la_holder a = Some (w', f', t)"
    "is_owner_token w" "0 < f" "f \<le> max_redis_integer"
  shows "abs_record w' f' = abs_record w f \<longleftrightarrow> w' = w \<and> f' = f"
  using lock_viewD(4,6) [OF assms(1)] assms by (intro abs_record_inj) auto

text \<open>The comparison with the caller's record in the scripts.\<close>

lemma read_own_lease:
  assumes laws: "redis_laws R rv" and v: "lock_view k1 k2 k3 a (rv s)"
    and w: "is_owner_token w" "0 < f" "f \<le> max_redis_integer"
  shows "read_lease R k1 ''NOT_HELD'' (\<lambda>current. if current \<noteq> abs_record w f then reply ''NOT_HELD'' else m) s =
    (if abs_holds w f a then m s else Some (Inr [ustr ''NOT_HELD''], s))"
proof (cases "la_holder a")
  case None
  then show ?thesis by (simp add: read_lease_run [OF laws v] abs_holds_def)
next
  case (Some p)
  then obtain w' f' t where h: "la_holder a = Some (w', f', t)" by (cases p) auto
  have "0 \<le> t" using lock_viewD(6) [OF v h] by simp
  moreover have "abs_holds w f a \<longleftrightarrow> w' = w \<and> f' = f \<and> 0 < t" using h by (auto simp: abs_holds_def)
  ultimately show ?thesis
    using h holder_record [OF v h w] by (simp add: read_lease_run [OF laws v] reply_def act_simps)
qed

lemma expire_sim:
  assumes laws: "redis_laws R rv" and v: "lock_view k1 k2 k3 a (rv s)" and h: "la_holder a = Some (w, f, t)"
    and k: "distinct [k1, k2, k3]" and n: "0 < n"
  shows "simulates rv k1 k2 k3 (act_then (rd_pexpire R k1 (dec n)) (reply st)) s
    ([ustr st], a\<lparr>la_holder := Some (w, f, n)\<rparr>) (if accepts_ttl R rv n then z else a)"
proof -
  note d = lock_viewD [OF v]
  have k1: "rv s k1 = Some (RStr (abs_record w f), Some t)" using d(6) [OF h] by simp
  have v': "lock_view k1 k2 k3 (a\<lparr>la_holder := Some (w, f, n)\<rparr>) ((rv s)(k1 \<mapsto> (RStr (abs_record w f), Some n)))"
    using v h k n by (auto simp: lock_view_def)
  show ?thesis
    by (cases rule: pexpire_cases [where R = R and rv = rv and s = s and k = k1, OF laws n k1])
      (use v v' in \<open>simp_all add: simulates_def act_simps reply_def\<close>)
qed

lemma renew_runs:
  assumes laws: "redis_laws R rv" and v: "lock_view k1 k2 k3 a (rv s)" and k: "distinct [k1, k2, k3]"
    and w: "is_owner_token w" "0 < f" "f \<le> max_redis_integer" and n: "0 < n"
  shows "simulates rv k1 k2 k3 (renew_script R k1 (abs_record w f) (dec n)) s (abs_renew w f n a)
    (if accepts_ttl R rv n then z else a)"
proof (cases "abs_holds w f a")
  case True
  then obtain t where h: "la_holder a = Some (w, f, t)" "0 < t" by (auto simp: abs_holds_def)
  then have "renew_script R k1 (abs_record w f) (dec n) s = act_then (rd_pexpire R k1 (dec n)) (reply ''RENEWED'') s"
    using True by (simp add: renew_script_def read_own_lease [OF laws v w])
  then show ?thesis
    using expire_sim [OF laws v h(1) k n, of "''RENEWED''"] True by (simp add: simulates_def abs_renew_def)
next
  case False
  then have "renew_script R k1 (abs_record w f) (dec n) s = Some (Inr [ustr ''NOT_HELD''], s)"
    by (simp add: renew_script_def read_own_lease [OF laws v w])
  then show ?thesis using v False by (auto simp: abs_renew_def intro: simulates_reply)
qed

lemmas renew_sim = renew_runs [where z = a and a = a for a, simplified if_cancel]

lemma probe_run:
  assumes laws: "redis_laws R rv" and v: "lock_view k1 k2 k3 a (rv s)"
    and w: "is_owner_token w" "0 < f" "f \<le> max_redis_integer"
  shows "probe_script R k1 (abs_record w f) s =
    Some (Inr [ustr (if abs_holds w f a then ''HELD'' else ''NOT_HELD'')], s)"
  by (simp add: probe_script_def read_own_lease [OF laws v w] reply_def act_simps)

lemma reconcile_run:
  assumes laws: "redis_laws R rv" and v: "lock_view k1 k2 k3 a (rv s)"
  shows "reconcile_script R k1 s =
    Some (Inr (case la_holder a of
       Some (w, f, t) \<Rightarrow> if t = 0 then [ustr ''ABSENT''] else [ustr ''PRESENT'', abs_record w f]
     | None \<Rightarrow> [ustr ''ABSENT'']), s)"
  by (auto simp: reconcile_script_def read_lease_run [OF laws v] act_simps split: option.split)

lemma dec_zero: "0 \<le> n \<Longrightarrow> dec n = ustr ''0'' \<longleftrightarrow> n = 0"
  using dec_inj [of n 0] by (simp add: dec_def dec_nat.simps ustr_def)

lemma release_runs:
  assumes laws: "redis_laws R rv" and v: "lock_view k1 k2 k3 a (rv s)" and k: "distinct [k1, k2, k3]"
    and w: "is_owner_token w" "0 < f" "f \<le> max_redis_integer" and n: "0 \<le> n"
  shows "simulates rv k1 k2 k3 (release_script R k1 (abs_record w f) (dec n)) s (abs_release w f n a)
    (if n = 0 \<or> accepts_ttl R rv n then z else a)"
proof (cases "abs_holds w f a")
  case True
  then obtain t where h: "la_holder a = Some (w, f, t)" "0 < t" by (auto simp: abs_holds_def)
  show ?thesis
  proof (cases "n = 0")
    case False
    then have "release_script R k1 (abs_record w f) (dec n) s =
        act_then (rd_pexpire R k1 (dec n)) (reply ''MIN_TTL_APPLIED'') s"
      using True n by (simp add: release_script_def read_own_lease [OF laws v w] dec_zero)
    then show ?thesis
      using expire_sim [OF laws v h(1) k, of n "''MIN_TTL_APPLIED''"] True False n
      by (simp add: simulates_def abs_release_def)
  next
    case zero: True
    obtain s' where s': "rd_del R k1 s = Some (Inr (), s')" "rv s' = (rv s)(k1 := None)"
      by (rule returnsE [OF redis_lawsD(10) [OF laws]])
    then have "release_script R k1 (abs_record w f) (dec n) s = Some (Inr [ustr ''DELETED''], s')"
      using True n zero by (simp add: release_script_def read_own_lease [OF laws v w] dec_zero act_simps reply_def)
    moreover have "lock_view k1 k2 k3 (a\<lparr>la_holder := None\<rparr>) (rv s')"
      using v k s'(2) h by (auto simp: lock_view_def)
    ultimately show ?thesis using True zero s'(2) by (simp add: simulates_def abs_release_def)
  qed
next
  case False
  then have "release_script R k1 (abs_record w f) (dec n) s = Some (Inr [ustr ''NOT_HELD''], s)"
    by (simp add: release_script_def read_own_lease [OF laws v w])
  then show ?thesis using v False by (auto simp: abs_release_def intro: simulates_reply)
qed

lemmas release_sim = release_runs [where z = a and a = a for a, simplified if_cancel]

lemma acquire_runs:
  assumes "redis_laws R rv" "lock_view k1 k2 k3 a (rv s)" "distinct [k1, k2, k3]" "is_owner_token w" "0 < n"
  shows "simulates rv k1 k2 k3 (acquire_script R k1 k2 k3 w (dec n)) s (abs_acquire w n a)
    (if la_holder a \<noteq> None \<or> accepts_ttl R rv n then z else a\<lparr>la_last := la_last a + 1\<rparr>)"
  using acquire_free_sim [OF assms(1,2) _ assms(3-5)] acquire_contended_sim [OF assms(1,2)]
  by (cases "la_holder a") auto

lemma acquire_sim:
  assumes "redis_laws R rv" "lock_view k1 k2 k3 a (rv s)" "distinct [k1, k2, k3]" "is_owner_token w" "0 < n"
  shows "simulates rv k1 k2 k3 (acquire_script R k1 k2 k3 w (dec n)) s (abs_acquire w n a)
    (if la_holder a = None then a\<lparr>la_last := la_last a + 1\<rparr> else a)"
  using acquire_runs [OF assms, of "if la_holder a = None then a\<lparr>la_last := la_last a + 1\<rparr> else a"]
  by (auto split: if_splits)

section \<open>Runs\<close>

text \<open>Time passes: what expires has less time left, or is gone.\<close>

definition time_passes :: "rview \<Rightarrow> rview \<Rightarrow> bool" where
  "time_passes v v' \<longleftrightarrow>
     (\<forall>k. case v k of
           None \<Rightarrow> v' k = None
         | Some (x, None) \<Rightarrow> v' k = v k
         | Some (x, Some t) \<Rightarrow> v' k = None \<or> (\<exists>t'. 0 \<le> t' \<and> t' \<le> t \<and> v' k = Some (x, Some t')))"

text \<open>One step of the system: a client runs a script, or time passes. The second component lists the
  leases that were granted, the latest first.\<close>

inductive lock_step ::
  "'r redis \<Rightarrow> ('r \<Rightarrow> rview) \<Rightarrow> pybytes \<Rightarrow> pybytes \<Rightarrow> pybytes \<Rightarrow>
   'r \<times> (pybytes \<times> int) list \<Rightarrow> 'r \<times> (pybytes \<times> int) list \<Rightarrow> bool"
  for R :: "'r redis" and rv :: "'r \<Rightarrow> rview" and k1 k2 k3 :: pybytes where
  acquired: "is_owner_token w \<Longrightarrow> 0 < n \<Longrightarrow>
     acquire_script R k1 k2 k3 w (dec n) s = Some (Inr [ustr ''ACQUIRED'', f], s') \<Longrightarrow>
     lock_step R rv k1 k2 k3 (s, gs) (s', (w, undec f) # gs)"
| not_acquired: "is_owner_token w \<Longrightarrow> 0 < n \<Longrightarrow>
     acquire_script R k1 k2 k3 w (dec n) s = Some (r, s') \<Longrightarrow> (\<forall>f. r \<noteq> Inr [ustr ''ACQUIRED'', f]) \<Longrightarrow>
     lock_step R rv k1 k2 k3 (s, gs) (s', gs)"
| renew: "lease_record_ok q \<Longrightarrow> 0 < n \<Longrightarrow> renew_script R k1 (record_to_bytes q) (dec n) s = Some (r, s') \<Longrightarrow>
     lock_step R rv k1 k2 k3 (s, gs) (s', gs)"
| probe: "lease_record_ok q \<Longrightarrow> probe_script R k1 (record_to_bytes q) s = Some (r, s') \<Longrightarrow>
     lock_step R rv k1 k2 k3 (s, gs) (s', gs)"
| reconcile: "reconcile_script R k1 s = Some (r, s') \<Longrightarrow> lock_step R rv k1 k2 k3 (s, gs) (s', gs)"
| release: "lease_record_ok q \<Longrightarrow> 0 \<le> n \<Longrightarrow> release_script R k1 (record_to_bytes q) (dec n) s = Some (r, s') \<Longrightarrow>
     lock_step R rv k1 k2 k3 (s, gs) (s', gs)"
| time: "time_passes (rv s) (rv s') \<Longrightarrow> lock_step R rv k1 k2 k3 (s, gs) (s', gs)"

text \<open>The grants have strictly increasing fences, none above the last one issued, and who holds the
  lock is the latest grantee.\<close>

definition lock_inv ::
  "('r \<Rightarrow> rview) \<Rightarrow> pybytes \<Rightarrow> pybytes \<Rightarrow> pybytes \<Rightarrow> 'r \<times> (pybytes \<times> int) list \<Rightarrow> bool" where
  "lock_inv rv k1 k2 k3 x \<longleftrightarrow>
     (\<exists>a. lock_view k1 k2 k3 a (rv (fst x)) \<and> sorted_wrt (>) (map snd (snd x))
        \<and> (\<forall>g\<in>set (snd x). snd g \<le> la_last a)
        \<and> (\<forall>w f t. la_holder a = Some (w, f, t) \<longrightarrow> snd x \<noteq> [] \<and> hd (snd x) = (w, f)))"

lemma time_view:
  assumes v: "lock_view k1 k2 k3 a v" and t: "time_passes v v'"
  shows "lock_view k1 k2 k3 (a\<lparr>la_holder := None\<rparr>) v'
    \<or> (\<exists>w f t t'. la_holder a = Some (w, f, t) \<and> lock_view k1 k2 k3 (a\<lparr>la_holder := Some (w, f, t')\<rparr>) v')"
proof -
  have none: "v k = None \<Longrightarrow> v' k = None" and pers: "v k = Some (x, None) \<Longrightarrow> v' k = v k"
    and exp: "v k = Some (x, Some t) \<Longrightarrow> v' k = None \<or> (\<exists>t'. 0 \<le> t' \<and> t' \<le> t \<and> v' k = Some (x, Some t'))" for k x t
    using spec [OF t [unfolded time_passes_def], of k] by (simp_all split: option.splits)
  note d = lock_viewD [OF v]
  have fixed: "if la_last a = 0 then v' k3 = None \<and> v' k2 = None
      else 0 < la_last a \<and> la_last a \<le> max_redis_integer
           \<and> v' k3 = Some (RStr (ustr ''v1''), None) \<and> v' k2 = Some (RStr (dec (la_last a)), None)"
    using d(1-4) none pers by (cases "la_last a = 0") auto
  show ?thesis
  proof (cases "la_holder a")
    case None
    then show ?thesis using fixed none d(5) by (simp add: lock_view_def)
  next
    case (Some p)
    then obtain w f n where h: "la_holder a = Some (w, f, n)" by (cases p) auto
    note dh = d(6) [OF h]
    then have "v k1 = Some (RStr (abs_record w f), Some n)" by simp
    from exp [OF this] show ?thesis
    proof (elim disjE exE conjE)
      assume "v' k1 = None"
      then show ?thesis using fixed by (simp add: lock_view_def)
    next
      fix t'
      assume "0 \<le> t'" "t' \<le> n" "v' k1 = Some (RStr (abs_record w f), Some t')"
      then show ?thesis using fixed dh h by (intro disjI2 exI [of _ w] exI [of _ f] exI [of _ n] exI [of _ t'])
          (simp add: lock_view_def)
    qed
  qed
qed

lemma lock_inv_keep:
  assumes "lock_inv rv k1 k2 k3 (s, gs)"
    and "\<And>a. lock_view k1 k2 k3 a (rv s) \<Longrightarrow> \<exists>a'. lock_view k1 k2 k3 a' (rv s') \<and> la_last a \<le> la_last a'
      \<and> (\<forall>w f t. la_holder a' = Some (w, f, t) \<longrightarrow> (\<exists>t. la_holder a = Some (w, f, t)))"
  shows "lock_inv rv k1 k2 k3 (s', gs)"
proof -
  obtain a where a: "lock_view k1 k2 k3 a (rv s)" "sorted_wrt (>) (map snd gs)" "\<forall>g\<in>set gs. snd g \<le> la_last a"
    "\<forall>w f t. la_holder a = Some (w, f, t) \<longrightarrow> gs \<noteq> [] \<and> hd gs = (w, f)"
    using assms(1) by (auto simp: lock_inv_def)
  from assms(2) [OF a(1)] obtain a' where "lock_view k1 k2 k3 a' (rv s')" "la_last a \<le> la_last a'"
    "\<forall>w f t. la_holder a' = Some (w, f, t) \<longrightarrow> (\<exists>t. la_holder a = Some (w, f, t))" by blast
  with a show ?thesis unfolding lock_inv_def by (intro exI [of _ a']) force
qed

text \<open>A script that grants nothing.\<close>

lemma simulates_keep:
  assumes "lock_inv rv k1 k2 k3 (s, gs)" and "m s = Some (r, s')"
    and "\<And>a. lock_view k1 k2 k3 a (rv s) \<Longrightarrow> \<exists>x a''. simulates rv k1 k2 k3 m s x a''
      \<and> (\<forall>a'\<in>{snd x, a''}. la_last a \<le> la_last a'
          \<and> (\<forall>w f t. la_holder a' = Some (w, f, t) \<longrightarrow> (\<exists>t. la_holder a = Some (w, f, t))))"
  shows "lock_inv rv k1 k2 k3 (s', gs)"
proof (rule lock_inv_keep [OF assms(1)])
  fix a
  assume "lock_view k1 k2 k3 a (rv s)"
  from assms(3) [OF this] obtain x a'' where sim: "simulates rv k1 k2 k3 m s x a''"
    and g: "\<forall>a'\<in>{snd x, a''}. la_last a \<le> la_last a'
          \<and> (\<forall>w f t. la_holder a' = Some (w, f, t) \<longrightarrow> (\<exists>t. la_holder a = Some (w, f, t)))" by blast
  have "lock_view k1 k2 k3 (snd x) (rv s') \<or> lock_view k1 k2 k3 a'' (rv s')"
    using sim assms(2) by (auto simp: simulates_def split: sum.splits)
  then show "\<exists>a'. lock_view k1 k2 k3 a' (rv s') \<and> la_last a \<le> la_last a'
      \<and> (\<forall>w f t. la_holder a' = Some (w, f, t) \<longrightarrow> (\<exists>t. la_holder a = Some (w, f, t)))"
    using g by blast
qed

lemma abs_record_fields: "record_to_bytes q = abs_record (lr_owner_token q) (lr_fencing_token q)"
  by (simp add: abs_record_def record_to_bytes_def)

lemma lock_step_inv:
  assumes laws: "redis_laws R rv" and k: "distinct [k1, k2, k3]"
    and inv: "lock_inv rv k1 k2 k3 x" and step: "lock_step R rv k1 k2 k3 x y"
  shows "lock_inv rv k1 k2 k3 y"
  using step
proof cases
  case (acquired w n s f s' gs)
  obtain a where a: "lock_view k1 k2 k3 a (rv s)" "sorted_wrt (>) (map snd gs)" "\<forall>g\<in>set gs. snd g \<le> la_last a"
    using inv acquired(1) by (auto simp: lock_inv_def)
  have sim: "fst (abs_acquire w n a) = [ustr ''ACQUIRED'', f]" "lock_view k1 k2 k3 (snd (abs_acquire w n a)) (rv s')"
    using acquire_sim [OF laws a(1) k acquired(3,4)] acquired(5) by (auto simp: simulates_def)
  have h: "la_holder a = None" and f: "f = dec (la_last a + 1)"
    and a': "snd (abs_acquire w n a) = \<lparr>la_last = la_last a + 1, la_holder = Some (w, la_last a + 1, n)\<rparr>"
    using sim(1) by (auto simp: abs_acquire_def ustr_def split: option.splits if_splits)
  have "undec f = la_last a + 1" using f lock_viewD(3) [OF a(1)] by simp
  then show ?thesis
    unfolding acquired(2) lock_inv_def
    using a(2,3) sim(2) a' by (intro exI [of _ "snd (abs_acquire w n a)"]) force
next
  case (not_acquired w n s r s' gs)
  show ?thesis
    unfolding not_acquired(2)
  proof (rule simulates_keep [where m = "acquire_script R k1 k2 k3 w (dec n)", OF inv [unfolded not_acquired(1)] not_acquired(5)])
    fix a
    assume a: "lock_view k1 k2 k3 a (rv s)"
    let ?x = "abs_acquire w n a"
    let ?e = "if la_holder a = None then a\<lparr>la_last := la_last a + 1\<rparr> else a"
    note sim = acquire_sim [OF laws a k not_acquired(3,4)]
    show "\<exists>x a''. simulates rv k1 k2 k3 (acquire_script R k1 k2 k3 w (dec n)) s x a''
      \<and> (\<forall>a'\<in>{snd x, a''}. la_last a \<le> la_last a'
          \<and> (\<forall>w f t. la_holder a' = Some (w, f, t) \<longrightarrow> (\<exists>t. la_holder a = Some (w, f, t))))"
    proof (cases "\<exists>f. fst ?x = [ustr ''ACQUIRED'', f]")
      case True
      then have "\<exists>e. r = Inl e"
        using sim not_acquired(5,6) by (cases r) (auto simp: simulates_def)
      then have "simulates rv k1 k2 k3 (acquire_script R k1 k2 k3 w (dec n)) s (undefined, ?e) ?e"
        using sim not_acquired(5) by (auto simp: simulates_def)
      then show ?thesis by (intro exI [of _ "(undefined, ?e)"] exI [of _ ?e]) auto
    next
      case False
      then have "snd ?x = a" by (auto simp: abs_acquire_def split: option.splits if_splits)
      then show ?thesis using sim by (intro exI [of _ ?x] exI [of _ ?e]) auto
    qed
  qed
next
  case (renew q n s r s' gs)
  show ?thesis
    unfolding renew(2)
  proof (rule simulates_keep [where m = "renew_script R k1 (record_to_bytes q) (dec n)", OF inv [unfolded renew(1)] renew(5)])
    fix a
    assume a: "lock_view k1 k2 k3 a (rv s)"
    have "simulates rv k1 k2 k3 (renew_script R k1 (record_to_bytes q) (dec n)) s
        (abs_renew (lr_owner_token q) (lr_fencing_token q) n a) a"
      using renew_sim [OF laws a k _ _ _ renew(4)] renew(3) by (simp add: abs_record_fields lease_record_ok_def)
    then show "\<exists>x a''. simulates rv k1 k2 k3 (renew_script R k1 (record_to_bytes q) (dec n)) s x a''
      \<and> (\<forall>a'\<in>{snd x, a''}. la_last a \<le> la_last a'
          \<and> (\<forall>w f t. la_holder a' = Some (w, f, t) \<longrightarrow> (\<exists>t. la_holder a = Some (w, f, t))))"
      by (intro exI conjI) (assumption, auto simp: abs_renew_def abs_holds_def)
  qed
next
  case (probe q s r s' gs)
  have "s' = s" if "lock_view k1 k2 k3 a (rv s)" for a
    using probe_run [OF laws that] probe(3,4) by (simp add: abs_record_fields lease_record_ok_def)
  then show ?thesis using inv probe(1,2) by (auto simp: lock_inv_def)
next
  case (reconcile s r s' gs)
  have "s' = s" if "lock_view k1 k2 k3 a (rv s)" for a
    using reconcile_run [OF laws that] reconcile(3) by simp
  then show ?thesis using inv reconcile(1,2) by (auto simp: lock_inv_def)
next
  case (release q n s r s' gs)
  show ?thesis
    unfolding release(2)
  proof (rule simulates_keep [where m = "release_script R k1 (record_to_bytes q) (dec n)", OF inv [unfolded release(1)] release(5)])
    fix a
    assume a: "lock_view k1 k2 k3 a (rv s)"
    have "simulates rv k1 k2 k3 (release_script R k1 (record_to_bytes q) (dec n)) s
        (abs_release (lr_owner_token q) (lr_fencing_token q) n a) a"
      using release_sim [OF laws a k _ _ _ release(4)] release(3) by (simp add: abs_record_fields lease_record_ok_def)
    then show "\<exists>x a''. simulates rv k1 k2 k3 (release_script R k1 (record_to_bytes q) (dec n)) s x a''
      \<and> (\<forall>a'\<in>{snd x, a''}. la_last a \<le> la_last a'
          \<and> (\<forall>w f t. la_holder a' = Some (w, f, t) \<longrightarrow> (\<exists>t. la_holder a = Some (w, f, t))))"
      by (intro exI conjI) (assumption, auto simp: abs_release_def abs_holds_def)
  qed
next
  case (time s s' gs)
  show ?thesis
    unfolding time(2)
  proof (rule lock_inv_keep [OF inv [unfolded time(1)]])
    fix a
    assume "lock_view k1 k2 k3 a (rv s)"
    from time_view [OF this time(3)] show "\<exists>a'. lock_view k1 k2 k3 a' (rv s') \<and> la_last a \<le> la_last a'
        \<and> (\<forall>w f t. la_holder a' = Some (w, f, t) \<longrightarrow> (\<exists>t. la_holder a = Some (w, f, t)))"
      by fastforce
  qed
qed

text \<open>A key space that obeys the laws: the state is the view itself.\<close>

definition kv_redis :: "rview redis" where
  "kv_redis = \<lparr>
     rd_type = (\<lambda>k s. Some (Inr (type_name (s k)), s)),
     rd_pttl = (\<lambda>k s. Some (Inr (pttl_of (s k)), s)),
     rd_get = (\<lambda>k s. case s k of None \<Rightarrow> Some (Inr None, s) | Some (RStr x, _) \<Rightarrow> Some (Inr (Some x), s)
                      | _ \<Rightarrow> Some (Inl (OtherException 1), s)),
     rd_set = (\<lambda>k x s. Some (Inr (), s(k \<mapsto> (RStr x, None)))),
     rd_set_px = (\<lambda>k x t s. Some (Inr (), s(k \<mapsto> (RStr x, Some (undec t))))),
     rd_incr = (\<lambda>k s. case s k of None \<Rightarrow> Some (Inr (), s(k \<mapsto> (RStr (dec 1), None)))
                      | Some (RStr x, t) \<Rightarrow> Some (Inr (), s(k \<mapsto> (RStr (dec (undec x + 1)), t)))
                      | _ \<Rightarrow> Some (Inl (OtherException 1), s)),
     rd_pexpire = (\<lambda>k t s. case s k of None \<Rightarrow> Some (Inr (), s)
                      | Some (x, _) \<Rightarrow> Some (Inr (), s(k \<mapsto> (x, Some (undec t))))),
     rd_del = (\<lambda>k s. Some (Inr (), s(k := None)))\<rparr>"

lemma kv_redis_laws: "redis_laws kv_redis (\<lambda>s. s)"
  by (auto simp: redis_laws_def kv_redis_def returns_def returns_or_fails_def)

lemma kv_redis_accepts: "0 < n \<Longrightarrow> accepts_ttl kv_redis (\<lambda>s. s) n"
  by (auto simp: accepts_ttl_def kv_redis_def returns_def)

lemma lock_view_empty: "v k1 = None \<Longrightarrow> v k2 = None \<Longrightarrow> v k3 = None \<Longrightarrow>
  lock_view k1 k2 k3 \<lparr>la_last = 0, la_holder = None\<rparr> v"
  by (simp add: lock_view_def)

section \<open>Properties\<close>

text \<open>C1: the acquire, renew and release scripts refine an abstract lock (the last fence issued, and at
  most one holder). On any server that behaves as documented, in any state that represents the
  abstract lock \<open>a\<close>, each script ends, touches only the keys of the lock, and either replies what the
  abstract operation replies and leaves a state that represents its result, or fails on an
  out-of-range time to live, in which case an acquire has used up a fence and nothing else happened.
  The probe and the reconcile script change nothing and tell who holds the lock.\<close>

theorem scripts_refine_lock:
  assumes "redis_laws R rv" "distinct [k1, k2, k3]" "lock_view k1 k2 k3 a (rv s)"
    and "is_owner_token w" "0 < f" "f \<le> max_redis_integer" "0 < n" "0 \<le> m"
  shows "simulates rv k1 k2 k3 (acquire_script R k1 k2 k3 w (dec n)) s (abs_acquire w n a)
      (if la_holder a = None then a\<lparr>la_last := la_last a + 1\<rparr> else a)
    \<and> simulates rv k1 k2 k3 (renew_script R k1 (abs_record w f) (dec n)) s (abs_renew w f n a) a
    \<and> simulates rv k1 k2 k3 (release_script R k1 (abs_record w f) (dec m)) s (abs_release w f m a) a
    \<and> probe_script R k1 (abs_record w f) s =
        Some (Inr [ustr (if abs_holds w f a then ''HELD'' else ''NOT_HELD'')], s)
    \<and> reconcile_script R k1 s =
        Some (Inr (case la_holder a of
           Some (w, f, t) \<Rightarrow> if t = 0 then [ustr ''ABSENT''] else [ustr ''PRESENT'', abs_record w f]
         | None \<Rightarrow> [ustr ''ABSENT'']), s)"
proof (intro conjI)
  show "simulates rv k1 k2 k3 (renew_script R k1 (abs_record w f) (dec n)) s (abs_renew w f n a) a"
    by (rule renew_sim [OF assms(1,3,2,4-7)])
  show "simulates rv k1 k2 k3 (release_script R k1 (abs_record w f) (dec m)) s (abs_release w f m a) a"
    by (rule release_sim [OF assms(1,3,2,4-6,8)])
qed (rule acquire_sim [OF assms(1,3,2,4,7)] probe_run [OF assms(1,3-6)] reconcile_run [OF assms(1,3)])+

theorem scripts_refine_lock_witness:
  "simulates (\<lambda>s. s) [1] [2] [3] (acquire_script kv_redis [1] [2] [3] (replicate 32 65) (dec 60000))
     Map.empty ([ustr ''ACQUIRED'', dec 1],
       \<lparr>la_last = 1, la_holder = Some (replicate 32 65, 1, 60000)\<rparr>) \<lparr>la_last = 1, la_holder = None\<rparr>"
proof -
  let ?a = "\<lparr>la_last = 0, la_holder = None\<rparr>"
  have w: "is_owner_token (replicate 32 65)" by (simp add: is_owner_token_def owner_char_def list_all_iff)
  have "simulates (\<lambda>s. s) [1] [2] [3] (acquire_script kv_redis [1] [2] [3] (replicate 32 65) (dec 60000))
      Map.empty (abs_acquire (replicate 32 65) 60000 ?a)
      (if la_holder ?a = None then ?a\<lparr>la_last := la_last ?a + 1\<rparr> else ?a)"
    using scripts_refine_lock [where rv = "\<lambda>s. s" and s = Map.empty and ?k1.0 = "[1]" and ?k2.0 = "[2]"
        and ?k3.0 = "[3]" and f = 1 and n = 60000 and m = 0 and a = ?a, OF kv_redis_laws _ _ w]
      lock_view_empty [of Map.empty "[1]" "[2]" "[3]"]
    by (simp add: max_redis_integer_def)
  then show ?thesis by (simp add: abs_acquire_def max_redis_integer_def)
qed

text \<open>C2: fencing and mutual exclusion. Start with a fresh lock and let any number of clients run the
  scripts in any order, with leases running out at any time: the fences of the leases granted strictly
  increase, and from the moment a lease is granted no earlier lease is ever again confirmed, renewed or
  released: for a record that is not the latest grant the three scripts reply \<open>NOT_HELD\<close> and change
  nothing.\<close>

theorem fencing:
  assumes "redis_laws R rv" "distinct [k1, k2, k3]" "rv s0 k1 = None" "rv s0 k2 = None" "rv s0 k3 = None"
    and "(lock_step R rv k1 k2 k3)\<^sup>*\<^sup>* (s0, []) (s, gs)"
    and "lease_record_ok q" "gs = [] \<or> hd gs \<noteq> (lr_owner_token q, lr_fencing_token q)" "0 < n" "0 \<le> m"
  shows "sorted_wrt (>) (map snd gs)
    \<and> probe_script R k1 (record_to_bytes q) s = Some (Inr [ustr ''NOT_HELD''], s)
    \<and> (\<exists>s'. renew_script R k1 (record_to_bytes q) (dec n) s = Some (Inr [ustr ''NOT_HELD''], s') \<and> rv s' = rv s)
    \<and> (\<exists>s'. release_script R k1 (record_to_bytes q) (dec m) s = Some (Inr [ustr ''NOT_HELD''], s') \<and> rv s' = rv s)"
proof -
  have "lock_inv rv k1 k2 k3 (s0, [])"
    using lock_view_empty [OF assms(3-5)] unfolding lock_inv_def by fastforce
  with assms(6) have "lock_inv rv k1 k2 k3 (s, gs)"
    by (induction rule: rtranclp_induct) (auto intro: lock_step_inv [OF assms(1,2)])
  then obtain a where a: "lock_view k1 k2 k3 a (rv s)" "sorted_wrt (>) (map snd gs)"
    "\<forall>w f t. la_holder a = Some (w, f, t) \<longrightarrow> gs \<noteq> [] \<and> hd gs = (w, f)"
    by (auto simp: lock_inv_def)
  let ?w = "lr_owner_token q" and ?f = "lr_fencing_token q"
  have w: "is_owner_token ?w" "0 < ?f" "?f \<le> max_redis_integer" using assms(7) by (auto simp: lease_record_ok_def)
  have no: "\<not> abs_holds ?w ?f a" using a(3) assms(8) by (auto simp: abs_holds_def)
  show ?thesis
    using a(2) no unfolding abs_record_fields renew_script_def release_script_def probe_script_def
    by (simp add: read_own_lease [OF assms(1) a(1) w])
qed

theorem fencing_witness:
  "let q = \<lparr>lr_owner_token = replicate 32 66, lr_fencing_token = 1\<rparr> in
   \<exists>s. acquire_script kv_redis [1] [2] [3] (replicate 32 65) (dec 9) Map.empty
        = Some (Inr [ustr ''ACQUIRED'', dec 1], s)
     \<and> probe_script kv_redis [1] (record_to_bytes q) s = Some (Inr [ustr ''NOT_HELD''], s)"
proof -
  let ?q = "\<lparr>lr_owner_token = replicate 32 66, lr_fencing_token = 1\<rparr>"
  have w: "is_owner_token (replicate 32 65)" "is_owner_token (replicate 32 66)"
    by (simp_all add: is_owner_token_def owner_char_def list_all_iff)
  have "acquire_script kv_redis [1] [2] [3] (replicate 32 65) (dec 9) Map.empty
      = acquire_take kv_redis [1] [2] [3] (ustr ''none'') None (replicate 32 65) (dec 9) Map.empty"
    using acquire_script_run [where rv = "\<lambda>s. s", OF kv_redis_laws lock_view_empty [of Map.empty "[1]" "[2]" "[3]"]]
    by simp
  moreover have "valid_fence (dec 1)" by (simp add: valid_fence_iff max_redis_integer_def)
  ultimately obtain s where s: "acquire_script kv_redis [1] [2] [3] (replicate 32 65) (dec 9) Map.empty
        = Some (Inr [ustr ''ACQUIRED'', dec 1], s)"
    by (auto simp: acquire_take_def act_simps kv_redis_def lua_string_def)
  have "lock_step kv_redis (\<lambda>s. s) [1] [2] [3] (Map.empty, []) (s, [(replicate 32 65, undec (dec 1))])"
    by (rule lock_step.acquired [OF w(1) _ s]) simp
  moreover have "lease_record_ok ?q" using w(2) by (simp add: lease_record_ok_def max_redis_integer_def)
  ultimately have "probe_script kv_redis [1] (record_to_bytes ?q) s = Some (Inr [ustr ''NOT_HELD''], s)"
    using fencing [OF kv_redis_laws, of "[1]" "[2]" "[3]" Map.empty s "[(replicate 32 65, undec (dec 1))]" ?q 1 0]
    by (auto simp: replicate_eqI)
  then show ?thesis using s by (simp add: Let_def)
qed

text \<open>a contender that comes in the last millisecond of a lease, when \<open>PTTL\<close> already reports 0, is
  told that the lock is corrupt, although lock and lease are well formed and the four other scripts treat
  the same state as a lease that has just run out: they change nothing and say so.\<close>

theorem acquire_last_millisecond:
  assumes "redis_laws R rv" "lock_view k1 k2 k3 a (rv s)" "la_holder a = Some (w', f, 0)"
  shows "acquire_script R k1 k2 k3 w ttl s = Some (Inr [ustr ''CORRUPT''], s)
    \<and> probe_script R k1 (abs_record w' f) s = Some (Inr [ustr ''NOT_HELD''], s)
    \<and> renew_script R k1 (abs_record w' f) ttl s = Some (Inr [ustr ''NOT_HELD''], s)
    \<and> release_script R k1 (abs_record w' f) ttl s = Some (Inr [ustr ''NOT_HELD''], s)
    \<and> reconcile_script R k1 s = Some (Inr [ustr ''ABSENT''], s)"
proof -
  have d: "is_owner_token w'" "0 < f" "f \<le> max_redis_integer" "rv s k1 = Some (RStr (abs_record w' f), Some 0)"
    using lock_viewD(4,6) [OF assms(2)] assms(3) by auto
  have "acquire_script R k1 k2 k3 w ttl s = Some (Inr [ustr ''CORRUPT''], s)"
    unfolding acquire_script_run [OF assms(1,2)]
    using d assms(3) lock_viewD(6) [OF assms(2,3)] redis_lawsD(2) [OF assms(1), of k1 s] redis_lawsD(4) [OF assms(1), of s k1]
    by (auto simp: acquire_contended_def act_simps lua_string_def reply_def)
  moreover have "\<not> abs_holds w' f a" using assms(3) by (simp add: abs_holds_def)
  ultimately show ?thesis
    using probe_run [OF assms(1,2) d(1-3)] reconcile_run [OF assms(1,2)] assms(3)
    by (simp add: renew_script_def release_script_def read_own_lease [OF assms(1,2) d(1-3)])
qed

theorem acquire_last_millisecond_witness:
  "let s = [[1] \<mapsto> (RStr (abs_record (replicate 32 65) 1), Some 0), [2] \<mapsto> (RStr (dec 1), None),
            [3] \<mapsto> (RStr (ustr ''v1''), None)]
   in acquire_script kv_redis [1] [2] [3] (replicate 32 66) (dec 9) s = Some (Inr [ustr ''CORRUPT''], s)"
proof -
  let ?s = "[[1] \<mapsto> (RStr (abs_record (replicate 32 65) 1), Some 0), [2] \<mapsto> (RStr (dec 1), None),
            [3] \<mapsto> (RStr (ustr ''v1''), None)]"
  have "lock_view [1] [2] [3] \<lparr>la_last = 1, la_holder = Some (replicate 32 65, 1, 0)\<rparr> ?s"
    by (simp add: lock_view_def is_owner_token_def owner_char_def list_all_iff max_redis_integer_def)
  from acquire_last_millisecond [where rv = "\<lambda>s. s", OF kv_redis_laws this] show ?thesis by (simp add: Let_def)
qed

end
