(* ===== verification/Redis_Client.thy ===== *)
theory Redis_Client
  imports Lease_Scripts
begin

text \<open>
  The client's side of the scripts (\<open>_scripts\<close>): checking what is sent, the dispatch by \<open>EVALSHA\<close> with
  a single \<open>EVAL\<close> after \<open>NOSCRIPT\<close>, and the parsers of the replies; and the durations, time budgets and
  options of \<open>_support\<close>.

  The Redis client object is a parameter: \<open>cm_evalsha\<close> and \<open>cm_eval\<close> run one of the fixed scripts on the
  server. \<open>serving\<close> says that they reach a server that runs the scripts of \<open>Lease_Scripts\<close>.
\<close>

datatype script = AcquireScript | RenewScript | ProbeScript | ReconcileScript | ReleaseScript

datatype part = PBytes pybytes | POther

text \<open>A reply: a list or tuple of parts, or anything else.\<close>

datatype rreply = RParts "part list" | ROther

record 's commands =
  cm_evalsha :: "script \<Rightarrow> pybytes list \<Rightarrow> pybytes list \<Rightarrow> ('s, leader_exn, rreply) act"
  cm_eval :: "script \<Rightarrow> pybytes list \<Rightarrow> pybytes list \<Rightarrow> ('s, leader_exn, rreply) act"

section \<open>Checks\<close>

definition validate_bytes :: "pybytes \<Rightarrow> leader_exn + unit" where
  "validate_bytes value = (if value = [] then Inl (TypeError ''invalid Redis script dispatch'') else Inr ())"

fun validate_all_bytes :: "pybytes list \<Rightarrow> leader_exn + unit" where
  "validate_all_bytes [] = Inr ()"
| "validate_all_bytes (value # rest) = ebind (validate_bytes value) (\<lambda>_. validate_all_bytes rest)"

definition canonical_positive_decimal :: "pybytes \<Rightarrow> bool" where
  "canonical_positive_decimal value \<longleftrightarrow> is_ascii value \<and> is_canonical_fence value"

definition valid_owner_bytes :: "pybytes \<Rightarrow> bool" where
  "valid_owner_bytes value \<longleftrightarrow> is_ascii value \<and> is_owner_token value"

definition bad_argument :: leader_exn where
  "bad_argument = ValueError ''Redis script argument is invalid''"

definition validate_milliseconds :: "pybytes \<Rightarrow> bool \<Rightarrow> leader_exn + unit" where
  "validate_milliseconds value allow_zero =
     (if allow_zero \<and> value = ustr ''0'' then Inr ()
      else if \<not> canonical_positive_decimal value then Inl bad_argument
      else Inr ())"

definition validate_record_args :: "script \<Rightarrow> pybytes list \<Rightarrow> pybytes list \<Rightarrow> leader_exn + unit" where
  "validate_record_args script keys args =
     (let expected_args = (if script = ProbeScript then 1 else 2) in
      if length keys \<noteq> 1 \<or> length args \<noteq> expected_args then Inl bad_argument
      else case record_parse (args ! 0) of
             Inl _ \<Rightarrow> Inl bad_argument
           | Inr _ \<Rightarrow> if script \<noteq> ProbeScript then validate_milliseconds (args ! 1) (script = ReleaseScript) else Inr ())"

definition validate_dispatch :: "script \<Rightarrow> pybytes list \<Rightarrow> pybytes list \<Rightarrow> leader_exn + unit" where
  "validate_dispatch script keys args =
     ebind (validate_all_bytes (keys @ args)) (\<lambda>_.
     if script = AcquireScript
     then (if length keys \<noteq> 3 \<or> length args \<noteq> 2 \<or> \<not> valid_owner_bytes (args ! 0) then Inl bad_argument
           else validate_milliseconds (args ! 1) False)
     else if script = ReconcileScript then Inl (TypeError ''invalid Redis script dispatch'')
     else validate_record_args script keys args)"

definition validated_script_args :: "pystr \<Rightarrow> int \<Rightarrow> leader_exn + pybytes \<times> pybytes" where
  "validated_script_args owner_token ttl_ms =
     (if \<not> is_owner_token owner_token then Inl bad_argument
      else if ttl_ms \<le> 0 \<or> ttl_ms > 9223372036854775807 then Inl bad_argument
      else Inr (owner_token, dec ttl_ms))"

section \<open>Dispatch\<close>

definition run_script :: "'s commands \<Rightarrow> script \<Rightarrow> pybytes list \<Rightarrow> pybytes list \<Rightarrow> ('s, leader_exn, rreply) act" where
  "run_script commands script keys args =
     act_then (lift (validate_dispatch script keys args))
     (try_except (cm_evalsha commands script keys args)
       (\<lambda>e. if e = NoScriptError then cm_eval commands script keys args else raise e))"

definition run_reconcile :: "'s commands \<Rightarrow> pybytes \<Rightarrow> ('s, leader_exn, rreply) act" where
  "run_reconcile commands lease_key =
     act_then (lift (validate_bytes lease_key)) (cm_eval commands ReconcileScript [lease_key] [])"

section \<open>Replies\<close>

definition bad_response :: leader_exn where
  "bad_response = ValueError ''invalid Redis script response''"

fun part_bytes :: "part list \<Rightarrow> leader_exn + pybytes list" where
  "part_bytes [] = Inr []"
| "part_bytes (PBytes b # ps) = ebind (part_bytes ps) (\<lambda>bs. Inr (b # bs))"
| "part_bytes (POther # ps) = Inl bad_response"

definition response_parts :: "rreply \<Rightarrow> leader_exn + pybytes list" where
  "response_parts value =
     (case value of
        ROther \<Rightarrow> Inl bad_response
      | RParts ps \<Rightarrow> if ps = [] then Inl bad_response else part_bytes ps)"

definition parse_acquire_response :: "rreply \<Rightarrow> leader_exn + pystr \<times> int option" where
  "parse_acquire_response value =
     ebind (response_parts value) (\<lambda>parts.
     if parts = [ustr ''CONTENDED''] \<or> parts = [ustr ''CORRUPT''] then Inr (hd parts, None)
     else if length parts = 2 \<and> hd parts = ustr ''ACQUIRED'' \<and> canonical_positive_decimal (parts ! 1)
     then Inr (ustr ''ACQUIRED'', Some (undec (parts ! 1)))
     else Inl bad_response)"

definition parse_status_response :: "rreply \<Rightarrow> pystr list \<Rightarrow> leader_exn + pystr" where
  "parse_status_response value allowed =
     ebind (response_parts value) (\<lambda>parts.
     if length parts \<noteq> 1 then Inl bad_response
     else if \<not> is_ascii (hd parts) then Inl bad_response
     else if hd parts \<notin> set allowed then Inl bad_response
     else Inr (hd parts))"

definition parse_reconcile_response :: "rreply \<Rightarrow> leader_exn + pystr \<times> lease_record option" where
  "parse_reconcile_response value =
     ebind (response_parts value) (\<lambda>parts.
     if parts = [ustr ''ABSENT''] \<or> parts = [ustr ''CORRUPT''] then Inr (hd parts, None)
     else if length parts = 2 \<and> hd parts = ustr ''PRESENT''
     then (case record_parse (parts ! 1) of Inr r \<Rightarrow> Inr (ustr ''PRESENT'', Some r) | Inl _ \<Rightarrow> Inl bad_response)
     else Inl bad_response)"

section \<open>Durations, time budgets and options\<close>

definition duration_milliseconds :: "pyobj \<Rightarrow> leader_exn + int" where
  "duration_milliseconds value =
     (case value of
        OTimedelta d \<Rightarrow>
          if td_us d \<le> 0 then Inl (ValueError ''Redis duration is invalid'')
          else let milliseconds = td_days d * 86400000 + td_seconds d * 1000 + td_microseconds d div 1000
               in if milliseconds \<le> 0 then Inl (ValueError ''Redis duration is invalid'') else Inr milliseconds
      | _ \<Rightarrow> Inl (ValueError ''Redis duration is invalid''))"

definition duration_nanoseconds :: "timedelta \<Rightarrow> int" where
  "duration_nanoseconds d =
     td_days d * 86400000000000 + td_seconds d * 1000000000 + td_microseconds d * 1000"

record timing =
  tg_handshake_round_trips :: int
  tg_connect :: pyfloat
  tg_command :: pyfloat
  tg_script :: pyfloat
  tg_acquire :: pyfloat
  tg_probe :: pyfloat
  tg_renew :: pyfloat
  tg_release :: pyfloat

text \<open>\<open>float(value)\<close> of an integer that is too large raises \<open>OverflowError\<close>.\<close>

definition positive_finite :: "pyobj \<Rightarrow> leader_exn + pyfloat option" where
  "positive_finite value =
     ebind
       (case value of
          OFloat f \<Rightarrow> Inr (Some f)
        | OInt n \<Rightarrow> (case float_of_int n of Some f \<Rightarrow> Inr (Some f) | None \<Rightarrow> Inl (OtherException 2))
        | _ \<Rightarrow> Inr None)
       (\<lambda>c. Inr (case c of None \<Rightarrow> None
                 | Some f \<Rightarrow> if float_lt (Finite 0) f \<and> isfinite f then Some f else None))"

definition int_times_float :: "int \<Rightarrow> pyfloat \<Rightarrow> leader_exn + pyfloat" where
  "int_times_float n f =
     (case float_of_int n of None \<Rightarrow> Inl (OtherException 2) | Some x \<Rightarrow> Inr (float_mul x f))"

text \<open>\<open>_timing\<close>, whose callers leave \<open>pool_wait\<close> at a float.\<close>

definition timing_of :: "int \<Rightarrow> pyobj \<Rightarrow> pyobj \<Rightarrow> pyfloat \<Rightarrow> leader_exn + timing" where
  "timing_of handshake_round_trips socket_connect_timeout socket_timeout pool_wait =
     (if handshake_round_trips < 0 then Inl (ValueError ''unsupported Redis client configuration'')
      else
        ebind (positive_finite socket_connect_timeout) (\<lambda>sct.
        case sct of None \<Rightarrow> Inl (ValueError ''unsupported Redis client configuration'') | Some sct \<Rightarrow>
        ebind (positive_finite socket_timeout) (\<lambda>st.
        case st of None \<Rightarrow> Inl (ValueError ''unsupported Redis client configuration'') | Some st \<Rightarrow>
            if float_lt pool_wait (Finite 0) \<or> \<not> isfinite pool_wait
            then Inl (ValueError ''unsupported Redis client configuration'')
            else
              ebind (int_times_float handshake_round_trips st) (\<lambda>hs.
              let connect = float_add sct hs;
                  command = float_add (float_add pool_wait connect) st;
                  script = float_mul (Finite 2) command
              in Inr \<lparr>tg_handshake_round_trips = handshake_round_trips, tg_connect = connect,
                      tg_command = command, tg_script = script, tg_acquire = float_add script command,
                      tg_probe = script, tg_renew = script,
                      tg_release = float_add (float_mul (Finite 2) script) command\<rparr>))))"

definition invalid_options :: "leader_exn + 'a \<Rightarrow> leader_exn + 'a" where
  "invalid_options r =
     (case r of Inl (ValueError _) \<Rightarrow> Inl InvalidLeaderOptionsError | _ \<Rightarrow> r)"

text \<open>The renewal interval that is used: a third of the lease is cut to whole milliseconds, through
  \<open>replace\<close>, which checks the options again.\<close>

definition redis_interval :: "leader_options \<Rightarrow> timedelta \<Rightarrow> leader_exn + leader_options \<times> timedelta" where
  "redis_interval options interval =
     (if td_us interval = td_us (td_div (lo_lease_time options) 3)
      then ebind (invalid_options (duration_milliseconds (OTimedelta interval))) (\<lambda>ms.
           let interval = timedelta_of_us (ms * 1000) in
           ebind (leader_options_new (OTimedelta (lo_wait_time options)) (OTimedelta (lo_lease_time options))
                    (case lo_node_id options of None \<Rightarrow> ONone | Some n \<Rightarrow> OStr n)
                    (OTimedelta (lo_min_lease_time options)) (OBool (lo_auto_renew options)) (OTimedelta interval))
             (\<lambda>options. Inr (options, interval)))
      else Inr (options, interval))"

definition validated_redis_options :: "leader_options \<Rightarrow> timing \<Rightarrow> leader_exn + leader_options" where
  "validated_redis_options options tg =
     (if \<not> lo_auto_renew options then Inr options
      else case lo_renew_interval options of
        None \<Rightarrow> Inl AssertionError
      | Some interval \<Rightarrow>
          ebind (redis_interval options interval) (\<lambda>(options, interval).
          ebind (invalid_options (duration_milliseconds (OTimedelta (lo_lease_time options)))) (\<lambda>lease_ms.
          let effective_lease_seconds = round_double (of_int lease_ms / 1000);
              interval_seconds = total_seconds interval
          in if \<not> (float_lt (tg_renew tg) interval_seconds
                    \<and> float_lt (float_add (tg_renew tg) interval_seconds) effective_lease_seconds)
             then Inl InvalidLeaderOptionsError else Inr options)))"

section \<open>Lemmas\<close>

lemma duration_milliseconds_eq:
  assumes "td_ok d"
  shows "duration_milliseconds (OTimedelta d) =
    (if td_us d < 1000 then Inl (ValueError ''Redis duration is invalid'') else Inr (td_us d div 1000))"
proof -
  have "td_us d = (td_days d * 86400000 + td_seconds d * 1000) * 1000 + td_microseconds d"
    by (simp add: td_us_def)
  then have "td_us d div 1000 = td_days d * 86400000 + td_seconds d * 1000 + td_microseconds d div 1000"
    by (simp add: div_mult_self3 add.commute)
  then show ?thesis by (auto simp: duration_milliseconds_def Let_def)
qed

lemma duration_nanoseconds_eq: "duration_nanoseconds d = td_us d * 1000"
  by (simp add: duration_nanoseconds_def td_us_def)

lemma part_bytes_map [simp]: "part_bytes (map PBytes bs) = Inr bs"
  by (induction bs) simp_all

lemma response_parts_map [simp]: "bs \<noteq> [] \<Longrightarrow> response_parts (RParts (map PBytes bs)) = Inr bs"
  by (simp add: response_parts_def)

section \<open>Client and server together\<close>

definition server_eval ::
  "'r redis \<Rightarrow> script \<Rightarrow> pybytes list \<Rightarrow> pybytes list \<Rightarrow> ('r, leader_exn, pybytes list) act" where
  "server_eval R script keys args =
     (case script of
        AcquireScript \<Rightarrow> acquire_script R (keys ! 0) (keys ! 1) (keys ! 2) (args ! 0) (args ! 1)
      | RenewScript \<Rightarrow> renew_script R (keys ! 0) (args ! 0) (args ! 1)
      | ProbeScript \<Rightarrow> probe_script R (keys ! 0) (args ! 0)
      | ReconcileScript \<Rightarrow> reconcile_script R (keys ! 0)
      | ReleaseScript \<Rightarrow> release_script R (keys ! 0) (args ! 0) (args ! 1))"

text \<open>Running something on the server, which is one part of the state, and decoding its reply; an
  error of a script comes back as a \<open>ResponseError\<close>.\<close>

definition on_server ::
  "('s \<Rightarrow> 'r) \<Rightarrow> ('r \<Rightarrow> 's \<Rightarrow> 's) \<Rightarrow> ('r, leader_exn, pybytes list) act \<Rightarrow> ('s, leader_exn, rreply) act" where
  "on_server srv put m = (\<lambda>s.
     case m (srv s) of None \<Rightarrow> None
     | Some (Inl e, r) \<Rightarrow> Some (Inl (OtherException 3), put r s)
     | Some (Inr bs, r) \<Rightarrow> Some (Inr (RParts (map PBytes bs)), put r s))"

text \<open>\<open>EVALSHA\<close> does what \<open>EVAL\<close> does, or the server does not know the script and nothing happens.\<close>

definition serving :: "'s commands \<Rightarrow> 'r redis \<Rightarrow> ('s \<Rightarrow> 'r) \<Rightarrow> ('r \<Rightarrow> 's \<Rightarrow> 's) \<Rightarrow> bool" where
  "serving commands R srv put \<longleftrightarrow>
     (\<forall>r s. srv (put r s) = r)
     \<and> (\<forall>script keys args s. cm_eval commands script keys args s = on_server srv put (server_eval R script keys args) s)
     \<and> (\<forall>script keys args s. cm_evalsha commands script keys args s = cm_eval commands script keys args s
          \<or> cm_evalsha commands script keys args s = Some (Inl NoScriptError, s))"

lemma run_script_serving:
  assumes "serving commands R srv put" and "validate_dispatch script keys args = Inr ()"
  shows "run_script commands script keys args s = on_server srv put (server_eval R script keys args) s"
proof -
  have eval: "cm_eval commands script keys args s = on_server srv put (server_eval R script keys args) s"
    and sha: "cm_evalsha commands script keys args s = cm_eval commands script keys args s
      \<or> cm_evalsha commands script keys args s = Some (Inl NoScriptError, s)"
    using assms(1) unfolding serving_def by blast+
  from sha show ?thesis
    by (elim disjE) (auto simp: run_script_def act_simps assms(2) eval on_server_def split: option.split sum.split)
qed

lemma validate_all_bytes_ok: "validate_all_bytes bs = Inr () \<longleftrightarrow> [] \<notin> set bs"
  by (induction bs) (auto simp: validate_bytes_def)

lemma dec_canonical [simp]: "0 < n \<Longrightarrow> n \<le> max_redis_integer \<Longrightarrow> canonical_positive_decimal (dec n)"
  using canonical_fence_dec [of n] by (simp add: canonical_positive_decimal_def is_canonical_fence_def)

lemma dec_out_of_range: "l = 0 \<or> max_redis_integer < l \<Longrightarrow> \<not> canonical_positive_decimal (dec l)"
proof -
  assume l: "l = 0 \<or> max_redis_integer < l"
  have "dec l \<noteq> dec n" if "0 < n" "n \<le> max_redis_integer" for n
    using dec_inj [of l n] l that by (auto simp: max_redis_integer_def)
  then have "\<not> is_canonical_fence (dec l)" unfolding canonical_fence_iff by blast
  then show ?thesis by (simp add: canonical_positive_decimal_def)
qed

lemma dec_not_empty [simp]: "dec n \<noteq> []" "[] \<noteq> dec n"
  by (auto simp: dec_def dec_nat.simps)

lemma owner_token_nonempty: "is_owner_token w \<Longrightarrow> w \<noteq> []"
  by (auto simp: is_owner_token_def)

lemma dispatch_acquire:
  assumes "is_owner_token w" "0 < n" "n \<le> max_redis_integer" "k1 \<noteq> []" "k2 \<noteq> []" "k3 \<noteq> []"
  shows "validate_dispatch AcquireScript [k1, k2, k3] [w, dec n] = Inr ()"
  using assms owner_token_nonempty [OF assms(1)] validate_all_bytes_ok [of "[k1, k2, k3] @ [w, dec n]"]
  by (simp add: validate_dispatch_def valid_owner_bytes_def owner_ascii validate_milliseconds_def)

lemma record_bytes_nonempty: "record_to_bytes q \<noteq> []"
  by (simp add: record_to_bytes_def ustr_def)

lemma dispatch_record:
  assumes "lease_record_ok q" "k1 \<noteq> []"
  shows "validate_dispatch ProbeScript [k1] [record_to_bytes q] = Inr ()"
    "0 < n \<Longrightarrow> n \<le> max_redis_integer \<Longrightarrow> validate_dispatch RenewScript [k1] [record_to_bytes q, dec n] = Inr ()"
    "0 \<le> n \<Longrightarrow> n \<le> max_redis_integer \<Longrightarrow> validate_dispatch ReleaseScript [k1] [record_to_bytes q, dec n] = Inr ()"
  using assms record_bytes_nonempty [of q] record_parse_iff [of "record_to_bytes q" q] dec_zero [of n]
    validate_all_bytes_ok [of "[k1] @ [record_to_bytes q]"] validate_all_bytes_ok [of "[k1] @ [record_to_bytes q, dec n]"]
  by (auto simp: validate_dispatch_def validate_record_args_def validate_milliseconds_def)

text \<open>What a client sees of an operation of the abstract lock.\<close>

definition acquire_status :: "pybytes list \<Rightarrow> pystr \<times> int option" where
  "acquire_status bs = (hd bs, if length bs = 2 then Some (undec (bs ! 1)) else None)"

lemma parse_acquire_abs:
  assumes "0 \<le> la_last a" "la_last a \<le> max_redis_integer"
  shows "parse_acquire_response (RParts (map PBytes (fst (abs_acquire w n a)))) = Inr (acquire_status (fst (abs_acquire w n a)))"
proof (cases "la_holder a")
  case None
  show ?thesis
  proof (cases "la_last a = max_redis_integer")
    case False
    then have "canonical_positive_decimal (dec (la_last a + 1))" using assms by simp
    then show ?thesis
      using None False by (simp add: parse_acquire_response_def abs_acquire_def acquire_status_def response_parts_def)
  qed (simp add: None parse_acquire_response_def abs_acquire_def acquire_status_def response_parts_def)
next
  case (Some p)
  then show ?thesis
    by (cases p) (auto simp: parse_acquire_response_def abs_acquire_def acquire_status_def response_parts_def)
qed

lemma simulates_parsed:
  assumes "serving commands R srv put" "simulates rv k1 k2 k3 (server_eval R script keys args) (srv s) x a''"
    and "validate_dispatch script keys args = Inr ()" and "parse (RParts (map PBytes (fst x))) = Inr y"
  shows "\<exists>r s'. act_bind (run_script commands script keys args) (\<lambda>raw. lift (parse raw)) s = Some (r, s')
    \<and> (case r of Inr z \<Rightarrow> z = y \<and> lock_view k1 k2 k3 (snd x) (rv (srv s'))
       | Inl e \<Rightarrow> e = OtherException 3 \<and> lock_view k1 k2 k3 a'' (rv (srv s')))"
proof -
  have put: "srv (put r s) = r" for r s using assms(1) by (simp add: serving_def)
  obtain r t where r: "server_eval R script keys args (srv s) = Some (r, t)"
    "case r of Inr y \<Rightarrow> y = fst x \<and> lock_view k1 k2 k3 (snd x) (rv t) | Inl _ \<Rightarrow> lock_view k1 k2 k3 a'' (rv t)"
    using assms(2) unfolding simulates_def by blast
  show ?thesis
  proof (cases r)
    case (Inl e)
    then show ?thesis
      using r by (simp add: act_simps run_script_serving [OF assms(1,3)] on_server_def put)
  next
    case (Inr bs)
    then have "bs = fst x" using r(2) by simp
    with Inr show ?thesis
      using r assms(4) by (simp add: act_simps run_script_serving [OF assms(1,3)] on_server_def put)
  qed
qed

text \<open>\<open>answers\<close>: what comes back of one exchange is the abstract answer \<open>fst x\<close>, decoded by \<open>view\<close>, and
  the server then represents the result \<open>snd x\<close>. If not, Redis itself reported an error
  (\<open>ResponseError\<close>), which it may do only when \<open>fails\<close> holds, and the server represents \<open>a''\<close>.\<close>

definition answers ::
  "(rview \<Rightarrow> lock_abs \<Rightarrow> bool) \<Rightarrow> ('s \<Rightarrow> rview) \<Rightarrow> ('s, leader_exn, 'b) act \<Rightarrow> 's \<Rightarrow> 'b \<Rightarrow> lock_abs \<Rightarrow> bool \<Rightarrow> lock_abs \<Rightarrow> bool"
where
  "answers represents key_space exchange s answer result fails a'' \<longleftrightarrow>
     (\<exists>r s'. exchange s = Some (r, s')
        \<and> (case r of
             Inr z \<Rightarrow> z = answer \<and> represents (key_space s') result
           | Inl e \<Rightarrow> fails \<and> e = OtherException 3 \<and> represents (key_space s') a''))"

lemma simulates_answers:
  assumes "serving commands R srv put"
    and "\<And>z. simulates rv k1 k2 k3 (server_eval R script keys args) (srv s) x (if ok then z else a'')"
    and "validate_dispatch script keys args = Inr ()" and "parse (RParts (map PBytes (fst x))) = Inr y"
  shows "answers (\<lambda>v a. lock_view k1 k2 k3 a v) (\<lambda>s. rv (srv s))
    (act_bind (run_script commands script keys args) (\<lambda>raw. lift (parse raw))) s y (snd x) (\<not> ok) a''"
proof -
  from simulates_parsed [where parse = parse, OF assms(1) assms(2) assms(3,4), of no_lock]
  obtain r s' where "act_bind (run_script commands script keys args) (\<lambda>raw. lift (parse raw)) s = Some (r, s')"
    "case r of Inr z \<Rightarrow> z = y \<and> lock_view k1 k2 k3 (snd x) (rv (srv s'))
       | Inl e \<Rightarrow> e = OtherException 3 \<and> lock_view k1 k2 k3 (if ok then no_lock else a'') (rv (srv s'))"
    by blast
  then show ?thesis
    unfolding answers_def
    by (intro exI [of _ r] exI [of _ s']) (cases r; simp add: no_lock_view split: if_splits)
qed

lemma parse_status:
  "ustr st \<in> set allowed \<Longrightarrow> is_ascii (ustr st) \<Longrightarrow>
   parse_status_response (RParts [PBytes (ustr st)]) allowed = Inr (ustr st)"
  by (simp add: parse_status_response_def response_parts_def)

lemma statuses_ascii [simp]:
  "is_ascii (ustr ''RENEWED'')" "is_ascii (ustr ''NOT_HELD'')" "is_ascii (ustr ''HELD'')"
  "is_ascii (ustr ''DELETED'')" "is_ascii (ustr ''MIN_TTL_APPLIED'')"
  by (simp_all add: is_ascii_def ustr_def)

text \<open>C7: client and server together implement the abstract lock. Over a connection to a server that
  runs the scripts, with or without them cached, what a client sends for well-formed arguments (an owner
  token, a record, a time to live of 1 to \<open>max_redis_integer\<close> milliseconds, which for a release may be 0)
  passes its own checks, and what it decodes from the reply is what the abstract lock answers: an acquire
  gives the next fence or says \<open>CONTENDED\<close>, and renew, release and probe tell whether the record is the
  holder's. The only failure is Redis's own \<open>ResponseError\<close> for a time to live that it does not accept,
  after which the lock is as it was, but for the fence that an acquire of a free lock has used up. A time
  to live of 0 for an acquire or a renewal, and one above \<open>max_redis_integer\<close>, is refused with a
  \<open>ValueError\<close> before anything is sent.\<close>

theorem client_refines_lock:
  assumes "serving commands R srv put" "redis_laws R rv" "distinct [k1, k2, k3]" "[] \<notin> {k1, k2, k3}"
    and "lock_view k1 k2 k3 a (rv (srv s))" "is_owner_token w" "0 < n" "n \<le> max_redis_integer"
    and "lease_record_ok q" "0 \<le> m" "m \<le> max_redis_integer" "l = 0 \<or> max_redis_integer < l"
  defines "represents \<equiv> \<lambda>v a. lock_view k1 k2 k3 a v" and "key_space \<equiv> \<lambda>s. rv (srv s)"
    and "owner \<equiv> lr_owner_token q" and "fence \<equiv> lr_fencing_token q"
  shows "answers represents key_space
        (act_bind (run_script commands AcquireScript [k1, k2, k3] [w, dec n]) (\<lambda>raw. lift (parse_acquire_response raw)))
        s (acquire_status (fst (abs_acquire w n a))) (snd (abs_acquire w n a))
        (la_holder a = None \<and> \<not> accepts_ttl R rv n) (a\<lparr>la_last := la_last a + 1\<rparr>)
    \<and> answers represents key_space
        (act_bind (run_script commands RenewScript [k1] [record_to_bytes q, dec n])
           (\<lambda>raw. lift (parse_status_response raw [ustr ''RENEWED'', ustr ''NOT_HELD'', ustr ''CORRUPT''])))
        s (hd (fst (abs_renew owner fence n a))) (snd (abs_renew owner fence n a)) (\<not> accepts_ttl R rv n) a
    \<and> answers represents key_space
        (act_bind (run_script commands ReleaseScript [k1] [record_to_bytes q, dec m])
           (\<lambda>raw. lift (parse_status_response raw
              [ustr ''DELETED'', ustr ''MIN_TTL_APPLIED'', ustr ''NOT_HELD'', ustr ''CORRUPT''])))
        s (hd (fst (abs_release owner fence m a))) (snd (abs_release owner fence m a))
        (m \<noteq> 0 \<and> \<not> accepts_ttl R rv m) a
    \<and> answers represents key_space
        (act_bind (run_script commands ProbeScript [k1] [record_to_bytes q])
           (\<lambda>raw. lift (parse_status_response raw [ustr ''HELD'', ustr ''NOT_HELD'', ustr ''CORRUPT''])))
        s (ustr (if abs_holds owner fence a then ''HELD'' else ''NOT_HELD'')) a False a
    \<and> run_script commands AcquireScript [k1, k2, k3] [w, dec l] s = Some (Inl bad_argument, s)
    \<and> run_script commands RenewScript [k1] [record_to_bytes q, dec l] s = Some (Inl bad_argument, s)"
proof (intro conjI)
  note k = assms(4)
  have k1: "k1 \<noteq> []" and k23: "k2 \<noteq> []" "k3 \<noteq> []" using k by auto
  have q: "is_owner_token owner" "0 < fence" "fence \<le> max_redis_integer" "record_to_bytes q = abs_record owner fence"
    using assms(9) by (simp_all add: owner_def fence_def abs_record_fields lease_record_ok_def)
  let ?x = "abs_acquire w n a" and ?y = "abs_renew owner fence n a" and ?z = "abs_release owner fence m a"
  have "simulates rv k1 k2 k3 (server_eval R AcquireScript [k1, k2, k3] [w, dec n]) (srv s) ?x
      (if la_holder a \<noteq> None \<or> accepts_ttl R rv n then z else a\<lparr>la_last := la_last a + 1\<rparr>)" for z
    using acquire_runs [OF assms(2,5,3,6,7)] by (simp add: server_eval_def)
  from simulates_answers [where parse = parse_acquire_response, OF assms(1) this dispatch_acquire [OF assms(6-8) k1 k23]
      parse_acquire_abs [OF lock_viewD(3,4) [OF assms(5)]]]
  show "answers represents key_space
        (act_bind (run_script commands AcquireScript [k1, k2, k3] [w, dec n]) (\<lambda>raw. lift (parse_acquire_response raw)))
        s (acquire_status (fst ?x)) (snd ?x) (la_holder a = None \<and> \<not> accepts_ttl R rv n) (a\<lparr>la_last := la_last a + 1\<rparr>)"
    unfolding represents_def key_space_def by (simp only: de_Morgan_disj not_not)
  let ?renew = "[ustr ''RENEWED'', ustr ''NOT_HELD'', ustr ''CORRUPT'']"
  have "simulates rv k1 k2 k3 (server_eval R RenewScript [k1] [record_to_bytes q, dec n]) (srv s) ?y
      (if accepts_ttl R rv n then z else a)" for z
    using renew_runs [OF assms(2,5,3) q(1-3) assms(7)] by (simp add: server_eval_def q(4))
  moreover have "parse_status_response (RParts (map PBytes (fst ?y))) ?renew = Inr (hd (fst ?y))"
    by (simp add: abs_renew_def parse_status)
  ultimately show "answers represents key_space
        (act_bind (run_script commands RenewScript [k1] [record_to_bytes q, dec n])
           (\<lambda>raw. lift (parse_status_response raw ?renew)))
        s (hd (fst ?y)) (snd ?y) (\<not> accepts_ttl R rv n) a"
    using simulates_answers [where parse = "\<lambda>raw. parse_status_response raw ?renew", OF assms(1) _
        dispatch_record(2) [OF assms(9) k1 assms(7,8)]]
    unfolding represents_def key_space_def by blast
  let ?release = "[ustr ''DELETED'', ustr ''MIN_TTL_APPLIED'', ustr ''NOT_HELD'', ustr ''CORRUPT'']"
  have "simulates rv k1 k2 k3 (server_eval R ReleaseScript [k1] [record_to_bytes q, dec m]) (srv s) ?z
      (if m = 0 \<or> accepts_ttl R rv m then z else a)" for z
    using release_runs [OF assms(2,5,3) q(1-3) assms(10)] by (simp add: server_eval_def q(4))
  moreover have "parse_status_response (RParts (map PBytes (fst ?z))) ?release = Inr (hd (fst ?z))"
    by (simp add: abs_release_def parse_status)
  ultimately have "answers represents key_space
        (act_bind (run_script commands ReleaseScript [k1] [record_to_bytes q, dec m])
           (\<lambda>raw. lift (parse_status_response raw ?release)))
        s (hd (fst ?z)) (snd ?z) (\<not> (m = 0 \<or> accepts_ttl R rv m)) a"
    using simulates_answers [where parse = "\<lambda>raw. parse_status_response raw ?release", OF assms(1) _
        dispatch_record(3) [OF assms(9) k1 assms(10,11)]]
    unfolding represents_def key_space_def by blast
  then show "answers represents key_space
        (act_bind (run_script commands ReleaseScript [k1] [record_to_bytes q, dec m])
           (\<lambda>raw. lift (parse_status_response raw ?release)))
        s (hd (fst ?z)) (snd ?z) (m \<noteq> 0 \<and> \<not> accepts_ttl R rv m) a"
    by simp
  let ?held = "[ustr ''HELD'', ustr ''NOT_HELD'', ustr ''CORRUPT'']"
  let ?h = "([ustr (if abs_holds owner fence a then ''HELD'' else ''NOT_HELD'')], a)"
  have "simulates rv k1 k2 k3 (server_eval R ProbeScript [k1] [record_to_bytes q]) (srv s) ?h z" for z
    using probe_run [OF assms(2,5) q(1-3)] assms(5) by (simp add: server_eval_def q(4) simulates_def)
  then have "simulates rv k1 k2 k3 (server_eval R ProbeScript [k1] [record_to_bytes q]) (srv s) ?h (if True then z else a)" for z
    by simp
  moreover have "parse_status_response (RParts (map PBytes (fst ?h))) ?held = Inr (hd (fst ?h))"
    by (simp add: parse_status)
  ultimately have "answers represents key_space
        (act_bind (run_script commands ProbeScript [k1] [record_to_bytes q])
           (\<lambda>raw. lift (parse_status_response raw ?held)))
        s (hd (fst ?h)) (snd ?h) (\<not> True) a"
    using simulates_answers [where parse = "\<lambda>raw. parse_status_response raw ?held", OF assms(1) _
        dispatch_record(1) [OF assms(9) k1]]
    unfolding represents_def key_space_def by blast
  then
  show "answers represents key_space
        (act_bind (run_script commands ProbeScript [k1] [record_to_bytes q])
           (\<lambda>raw. lift (parse_status_response raw ?held)))
        s (ustr (if abs_holds owner fence a then ''HELD'' else ''NOT_HELD'')) a False a"
    by simp
  have l: "validate_milliseconds (dec l) False = Inl bad_argument"
    using dec_out_of_range [OF assms(12)] by (simp add: validate_milliseconds_def)
  show "run_script commands AcquireScript [k1, k2, k3] [w, dec l] s = Some (Inl bad_argument, s)"
    using l k owner_token_nonempty [OF assms(6)] validate_all_bytes_ok [of "[k1, k2, k3] @ [w, dec l]"]
      owner_ascii [OF assms(6)] assms(6)
    by (simp add: run_script_def validate_dispatch_def valid_owner_bytes_def act_simps)
  show "run_script commands RenewScript [k1] [record_to_bytes q, dec l] s = Some (Inl bad_argument, s)"
    using l k1 record_bytes_nonempty [of q] record_parse_iff [of "record_to_bytes q" q] assms(9)
      validate_all_bytes_ok [of "[k1] @ [record_to_bytes q, dec l]"]
    by (simp add: run_script_def validate_dispatch_def validate_record_args_def act_simps)
qed

text \<open>A connection whose state is the server's and the set of scripts that the server has cached.\<close>

definition server_commands :: "'r redis \<Rightarrow> ('r \<times> script set) commands" where
  "server_commands R =
     (let eval = (\<lambda>script keys args. on_server fst (\<lambda>r s. (r, snd s)) (server_eval R script keys args))
      in \<lparr>cm_evalsha = (\<lambda>script keys args s. if script \<in> snd s then eval script keys args s
                                              else Some (Inl NoScriptError, s)),
          cm_eval = eval\<rparr>)"

lemma server_serving: "serving (server_commands R) R fst (\<lambda>r s. (r, snd s))"
  by (simp add: serving_def server_commands_def Let_def)

abbreviation "kv_commands \<equiv> server_commands kv_redis"

theorem client_refines_lock_witness:
  "\<exists>s'. act_bind (run_script kv_commands AcquireScript [[1], [2], [3]] [replicate 32 65, dec 60000])
       (\<lambda>raw. lift (parse_acquire_response raw)) (Map.empty, {})
     = Some (Inr (ustr ''ACQUIRED'', Some 1), s')"
proof -
  let ?a = "\<lparr>la_last = 0, la_holder = None\<rparr>" and ?w = "replicate 32 65"
  have w: "is_owner_token ?w" by (simp add: is_owner_token_def owner_char_def list_all_iff)
  have q: "lease_record_ok \<lparr>lr_owner_token = ?w, lr_fencing_token = 1\<rparr>"
    using w by (simp add: lease_record_ok_def max_redis_integer_def)
  have v: "lock_view [1] [2] [3] ?a Map.empty" by (simp add: lock_view_def)
  have "answers (\<lambda>v a. lock_view [1] [2] [3] a v) fst
      (act_bind (run_script kv_commands AcquireScript [[1], [2], [3]] [?w, dec 60000])
         (\<lambda>raw. lift (parse_acquire_response raw))) (Map.empty, {})
      (acquire_status (fst (abs_acquire ?w 60000 ?a))) (snd (abs_acquire ?w 60000 ?a))
      (la_holder ?a = None \<and> \<not> accepts_ttl kv_redis (\<lambda>s. s) 60000) (?a\<lparr>la_last := la_last ?a + 1\<rparr>)"
    using client_refines_lock [where rv = "\<lambda>s. s" and ?k1.0 = "[1]" and ?k2.0 = "[2]" and ?k3.0 = "[3]"
        and s = "(Map.empty, {})" and a = ?a and w = ?w and n = 60000 and m = 0 and l = 0,
        OF server_serving kv_redis_laws _ _ _ w _ _ q] v
    by (auto simp: max_redis_integer_def)
  then obtain r s' where run: "act_bind (run_script kv_commands AcquireScript [[1], [2], [3]] [?w, dec 60000])
       (\<lambda>raw. lift (parse_acquire_response raw)) (Map.empty, {}) = Some (r, s')"
    and r: "case r of Inr z \<Rightarrow> z = acquire_status (fst (abs_acquire ?w 60000 ?a))
          \<and> lock_view [1] [2] [3] (snd (abs_acquire ?w 60000 ?a)) (fst s')
      | Inl e \<Rightarrow> (la_holder ?a = None \<and> \<not> accepts_ttl kv_redis (\<lambda>s. s) 60000) \<and> e = OtherException 3
          \<and> lock_view [1] [2] [3] (?a\<lparr>la_last := la_last ?a + 1\<rparr>) (fst s')"
    unfolding answers_def by blast
  have "acquire_status (fst (abs_acquire ?w 60000 ?a)) = (ustr ''ACQUIRED'', Some 1)"
    using undec_dec [of 1] by (simp add: acquire_status_def abs_acquire_def max_redis_integer_def)
  with r kv_redis_accepts [of 60000] have "r = Inr (ustr ''ACQUIRED'', Some 1)" by (cases r) simp_all
  with run show ?thesis by blast
qed

end
