(* ===== verification/Redis_Options.thy ===== *)
theory Redis_Options
  imports Redis_Client
begin

text \<open>
  The inspection of the borrowed Redis client in \<open>bluetape.leader.redis._support\<close>: which clients and
  connection pools are accepted, and the time budget that follows from their options.

  A Python object is a \<open>cval\<close>: a plain value, a class, a container, a lock, or an instance of one of the
  classes that the code names, with its \<open>vars\<close>. The code compares types with \<open>is\<close>, so that every class it
  does not name is \<open>OtherClass\<close>. Objects that the code compares by identity are compared by equality here.
  What is read from redis-py and the platform is a parameter, the record \<open>redis_lib\<close>.
\<close>

section \<open>Objects\<close>

datatype cclass =
    SyncConnection | SyncUnixConnection | AsyncConnection | AsyncUnixConnection
  | SyncClient | AsyncClient | SyncPool | AsyncPool | SyncRetry | AsyncRetry | NoBackoff
  | MaintNotificationsConfig | DriverInfo | EventDispatcher | AsyncLock
  | RedisConnectionError | RedisTimeoutError | BuiltinTimeoutError | OtherClass nat

datatype rlock_state = Unlocked | Locked_here | Locked_elsewhere

datatype cval =
    CV pyobj
  | CClass cclass
  | CList "cval list"
  | CTuple "cval list"
  | CSet "cval list"
  | CDict "(cval \<times> cval) list"
  | CCaseDict "(cval \<times> cval) list"
  | CRLock rlock_state
  | CInst cclass "(string \<times> cval) list"
  | CSentinel

record redis_lib =
  rlb_version :: pystr
  rlb_resp_version :: pyobj
  rlb_is_ip :: "pystr \<Rightarrow> bool"
  rlb_pid :: int
  rlb_callbacks :: "cval \<Rightarrow> cval \<Rightarrow> (cval \<times> cval) list"
  rlb_case_get :: "(cval \<times> cval) list \<Rightarrow> cval \<Rightarrow> cval"
  rlb_events :: "(cval \<times> cval) list"
  rlb_connection_kwargs :: "(string \<times> cval) list \<Rightarrow> cval"

definition unsupported :: leader_exn where
  "unsupported = TypeError ''unsupported Redis client configuration''"

definition require :: "bool \<Rightarrow> leader_exn + unit" where
  "require ok = (if ok then Inr () else Inl unsupported)"

text \<open>\<open>options.get(key, default)\<close> with a string key, and \<open>getattr\<close> or \<open>vars(...)[...]\<close>.\<close>

definition opt_or :: "(cval \<times> cval) list \<Rightarrow> string \<Rightarrow> cval \<Rightarrow> cval" where
  "opt_or options key dflt = (case map_of options (CV (OStr (ustr key))) of None \<Rightarrow> dflt | Some v \<Rightarrow> v)"

definition opt :: "(cval \<times> cval) list \<Rightarrow> string \<Rightarrow> cval" where
  "opt options key = opt_or options key (CV ONone)"

definition attr_or :: "(string \<times> cval) list \<Rightarrow> string \<Rightarrow> cval \<Rightarrow> cval" where
  "attr_or state name dflt = (case map_of state name of None \<Rightarrow> dflt | Some v \<Rightarrow> v)"

definition attr :: "(string \<times> cval) list \<Rightarrow> string \<Rightarrow> cval" where
  "attr state name = attr_or state name (CV ONone)"

definition has_exact_attribute_names :: "(string \<times> cval) list \<Rightarrow> string list \<Rightarrow> bool" where
  "has_exact_attribute_names state expected \<longleftrightarrow>
     length state = length expected \<and> list_all (\<lambda>(name, _). name \<in> set expected) state"

definition has_exact_default_state :: "(string \<times> cval) list \<Rightarrow> (string \<times> cval) list \<Rightarrow> bool" where
  "has_exact_default_state actual expected \<longleftrightarrow>
     has_exact_attribute_names actual (map fst expected)
     \<and> list_all (\<lambda>(name, _). attr actual name = attr expected name) expected"

section \<open>Parts of the options\<close>

definition sync_client_attributes :: "string list" where
  "sync_client_attributes =
     [''_event_dispatcher'', ''_single_connection_client'', ''auto_close_connection_pool'', ''connection'',
      ''connection_pool'', ''response_callbacks'', ''single_connection_lock'']"

definition async_client_attributes :: "string list" where
  "async_client_attributes =
     [''_event_dispatcher'', ''_single_conn_lock'', ''_usage_counter'', ''_usage_lock'', ''auto_close_connection_pool'',
      ''connection'', ''connection_pool'', ''response_callbacks'', ''single_connection_client'']"

definition sync_pool_attributes :: "string list" where
  "sync_pool_attributes =
     [''_available_connections'', ''_cache_factory'', ''_connection_kwargs'', ''_created_connections'',
      ''_event_dispatcher'', ''_fork_lock'', ''_in_use_connections'', ''_lock'', ''_maint_notifications_pool_handler'',
      ''_oss_cluster_maint_notifications_handler'', ''_pool_id'', ''cache'', ''connection_class'', ''max_connections'',
      ''pid'']"

definition async_pool_attributes :: "string list" where
  "async_pool_attributes =
     [''_available_connections'', ''_event_dispatcher'', ''_in_use_connections'', ''_lock'', ''connection_class'',
      ''connection_kwargs'', ''encoder_class'', ''max_connections'']"

definition common_option_keys :: "string list" where
  "common_option_keys =
     [''client_name'', ''credential_provider'', ''db'', ''decode_responses'', ''driver_info'', ''encoding'',
      ''encoding_errors'', ''health_check_interval'', ''legacy_responses'', ''password'', ''protocol'',
      ''redis_connect_func'', ''retry'', ''retry_on_error'', ''socket_read_size'', ''socket_timeout'', ''username'']"

definition required_option_keys :: "cclass \<Rightarrow> string list" where
  "required_option_keys cls =
     (if cls = SyncConnection \<or> cls = AsyncConnection
      then common_option_keys @
        [''host'', ''port'', ''socket_connect_timeout'', ''socket_keepalive'', ''socket_keepalive_options'']
      else common_option_keys @ [''path''])"

fun nonempty_credential :: "cval \<Rightarrow> bool" where
  "nonempty_credential (CV (OStr s)) = (s \<noteq> [])"
| "nonempty_credential (CV (OBytes b)) = (b \<noteq> [])"
| "nonempty_credential _ = False"

fun safe_keepalive_options :: "cval \<Rightarrow> bool" where
  "safe_keepalive_options (CDict items) =
     list_all (\<lambda>(key, option). (case key of CV (OInt _) \<Rightarrow> True | _ \<Rightarrow> False)
        \<and> (case option of CV (OInt _) \<Rightarrow> True | CV (OBytes _) \<Rightarrow> True | _ \<Rightarrow> False)) items"
| "safe_keepalive_options _ = False"

definition maintenance_disabled :: "cval \<Rightarrow> bool" where
  "maintenance_disabled v =
     (case v of
        CV ONone \<Rightarrow> True
      | CInst MaintNotificationsConfig state \<Rightarrow>
          has_exact_attribute_names state [''enabled'', ''relaxed_timeout'', ''proactive_reconnect'', ''endpoint_type'']
          \<and> attr state ''enabled'' = CV (OBool False) \<and> attr state ''proactive_reconnect'' = CV (OBool False)
          \<and> attr state ''relaxed_timeout'' = CV (OInt (-1)) \<and> attr state ''endpoint_type'' = CV ONone
      | _ \<Rightarrow> False)"

definition valid_driver_info :: "redis_lib \<Rightarrow> cval \<Rightarrow> bool" where
  "valid_driver_info lib v =
     (case v of
        CInst DriverInfo state \<Rightarrow>
          has_exact_attribute_names state [''name'', ''lib_version'', ''_upstream'']
          \<and> attr state ''name'' = CV (OStr (ustr ''redis-py'')) \<and> attr state ''lib_version'' = CV (OStr (rlb_version lib))
          \<and> attr state ''_upstream'' = CList []
      | _ \<Rightarrow> False)"

text \<open>No retries: the retry object of redis-py with a count of 0, no backoff, and the default errors.\<close>

definition validate_retry :: "cval \<Rightarrow> bool \<Rightarrow> leader_exn + unit" where
  "validate_retry v sync =
     (case v of
        CInst cls state \<Rightarrow>
          require
            (cls = (if sync then SyncRetry else AsyncRetry)
             \<and> has_exact_attribute_names state [''_backoff'', ''_retries'', ''_supported_errors'']
             \<and> attr state ''_retries'' = CV (OInt 0)
             \<and> (case attr state ''_backoff'' of
                  CInst NoBackoff backoff \<Rightarrow>
                    has_exact_attribute_names backoff [''_backoff''] \<and> attr backoff ''_backoff'' = CV (OInt 0)
                | _ \<Rightarrow> False)
             \<and> attr state ''_supported_errors'' =
                 CTuple (map CClass (if sync then [RedisConnectionError, RedisTimeoutError, BuiltinTimeoutError]
                                     else [RedisConnectionError, RedisTimeoutError])))
      | _ \<Rightarrow> Inl unsupported)"

text \<open>The commands that redis-py sends when it opens a connection, for options that passed the checks
  (so that \<open>db\<close> is an integer).\<close>

definition handshake_commands :: "redis_lib \<Rightarrow> (cval \<times> cval) list \<Rightarrow> leader_exn + string list" where
  "handshake_commands lib options =
     (let username = opt options ''username''; password = opt options ''password'';
          has_auth = (password \<noteq> CV ONone)
      in ebind
           (if opt options ''protocol'' = CV ONone
            then (if rlb_resp_version lib = OInt 3 then Inr (CV (OInt 3)) else Inl unsupported)
            else Inr (opt options ''protocol''))
           (\<lambda>protocol.
            Inr
              ((if has_auth \<and> protocol = CV (OInt 3) then [''HELLO AUTH'']
                else if has_auth
                then ''AUTH'' # (if protocol = CV (OInt 2) \<and> nonempty_credential username \<and> nonempty_credential password
                                 then [''AUTH''] else [])
                else if protocol = CV (OInt 3) then [''HELLO''] else [])
               @ (if opt options ''client_name'' \<noteq> CV ONone then [''CLIENT SETNAME''] else [])
               @ [''CLIENT SETINFO LIB-NAME'', ''CLIENT SETINFO LIB-VER'']
               @ (if opt_or options ''db'' (CV (OInt 0)) \<noteq> CV (OInt 0) then [''SELECT''] else []))))"

section \<open>The pool\<close>

definition int_where :: "(int \<Rightarrow> bool) \<Rightarrow> cval \<Rightarrow> bool" where
  "int_where p v = (case v of CV (OInt n) \<Rightarrow> p n | _ \<Rightarrow> False)"

definition str_where :: "(pystr \<Rightarrow> bool) \<Rightarrow> cval \<Rightarrow> bool" where
  "str_where p v = (case v of CV (OStr s) \<Rightarrow> p s | _ \<Rightarrow> False)"

definition exact_option_keys :: "cclass \<Rightarrow> (cval \<times> cval) list \<Rightarrow> bool" where
  "exact_option_keys cls options \<longleftrightarrow>
     length options = length (required_option_keys cls)
     \<and> list_all (\<lambda>(key, _). str_where (\<lambda>s. s \<in> set (map ustr (required_option_keys cls))) key) options"

text \<open>\<open>_positive_finite\<close> of an option: \<open>None\<close> is not accepted.\<close>

definition positive_option :: "cval \<Rightarrow> leader_exn + pyfloat option" where
  "positive_option v = (case v of CV x \<Rightarrow> positive_finite x | _ \<Rightarrow> Inr None)"

text \<open>The checks of the connection behaviour: no health check, no retry, no callbacks, raw replies.\<close>

definition plain_connection :: "redis_lib \<Rightarrow> (cval \<times> cval) list \<Rightarrow> bool" where
  "plain_connection lib options \<longleftrightarrow>
     opt options ''redis_connect_func'' = CV ONone \<and> opt options ''credential_provider'' = CV ONone
     \<and> opt options ''decode_responses'' = CV (OBool False)
     \<and> opt options ''encoding'' = CV (OStr (ustr ''utf-8''))
     \<and> opt options ''encoding_errors'' = CV (OStr (ustr ''strict''))
     \<and> opt options ''legacy_responses'' = CV (OBool True)
     \<and> int_where (\<lambda>n. n > 0) (opt options ''socket_read_size'')
     \<and> valid_driver_info lib (opt options ''driver_info'')"

definition valid_session :: "(cval \<times> cval) list \<Rightarrow> bool" where
  "valid_session options \<longleftrightarrow>
     (opt options ''protocol'' = CV ONone \<or> int_where (\<lambda>n. n = 2 \<or> n = 3) (opt options ''protocol''))
     \<and> int_where (\<lambda>n. n \<ge> 0) (opt_or options ''db'' (CV (OInt 0)))
     \<and> (opt options ''client_name'' = CV ONone \<or> str_where (\<lambda>s. s \<noteq> []) (opt options ''client_name''))
     \<and> (if opt options ''username'' = CV ONone
        then opt options ''password'' = CV ONone \<or> nonempty_credential (opt options ''password'')
        else nonempty_credential (opt options ''username'') \<and> nonempty_credential (opt options ''password''))"

definition valid_endpoint :: "redis_lib \<Rightarrow> bool \<Rightarrow> (cval \<times> cval) list \<Rightarrow> bool" where
  "valid_endpoint lib tcp options \<longleftrightarrow>
     (if tcp
      then str_where (rlb_is_ip lib) (opt options ''host'')
        \<and> int_where (\<lambda>n. 1 \<le> n \<and> n \<le> 65535) (opt options ''port'')
        \<and> opt options ''socket_keepalive'' \<in> {CV (OBool True), CV (OBool False)}
        \<and> (opt options ''socket_keepalive_options'' = CSentinel
           \<or> safe_keepalive_options (opt options ''socket_keepalive_options''))
      else str_where (\<lambda>s. s \<noteq> [] \<and> 0 \<notin> set s) (opt options ''path''))"

text \<open>The checks after the two timeouts, and the time budget.\<close>

definition pool_budget ::
  "redis_lib \<Rightarrow> cclass \<Rightarrow> (cval \<times> cval) list \<Rightarrow> bool \<Rightarrow> pyfloat \<Rightarrow> pyfloat \<Rightarrow> leader_exn + timing" where
  "pool_budget lib connection_class options sync connect_timeout socket_timeout =
     (let tcp = (connection_class = SyncConnection \<or> connection_class = AsyncConnection) in
      ebind (require (opt options ''health_check_interval'' = CV (OInt 0)
               \<and> opt options ''retry_on_error'' \<in> {CV ONone, CList []})) (\<lambda>_.
      ebind (validate_retry (opt options ''retry'') sync) (\<lambda>_.
      ebind (require (plain_connection lib options \<and> valid_session options \<and> valid_endpoint lib tcp options
               \<and> (sync \<longrightarrow> maintenance_disabled (opt options ''maint_notifications_config'')))) (\<lambda>_.
      ebind (handshake_commands lib options) (\<lambda>commands.
      timing_of (if connection_class = AsyncUnixConnection then int (length commands) * 2 else int (length commands))
        (OFloat connect_timeout) (OFloat socket_timeout) (Finite 0))))))"

definition validate_pool ::
  "redis_lib \<Rightarrow> cclass \<Rightarrow> cval \<Rightarrow> cval \<Rightarrow> bool \<Rightarrow> leader_exn + timing" where
  "validate_pool lib connection_class opts max_connections sync =
     ebind (require (connection_class \<in>
              (if sync then {SyncConnection, SyncUnixConnection} else {AsyncConnection, AsyncUnixConnection}))) (\<lambda>_.
     case opts of
       CDict options \<Rightarrow>
          ebind (require (exact_option_keys connection_class options \<and> int_where (\<lambda>n. n > 0) max_connections)) (\<lambda>_.
          ebind (positive_option
                   (if connection_class = SyncUnixConnection \<or> connection_class = AsyncUnixConnection
                    then opt_or options ''socket_connect_timeout'' (CV (OFloat (Finite 5)))
                    else opt options ''socket_connect_timeout'')) (\<lambda>connect_timeout.
          ebind (positive_option (opt options ''socket_timeout'')) (\<lambda>socket_timeout.
          case (connect_timeout, socket_timeout) of
            (Some c, Some t) \<Rightarrow> pool_budget lib connection_class options sync c t
          | _ \<Rightarrow> Inl unsupported)))
     | _ \<Rightarrow> Inl unsupported)"

section \<open>The client\<close>

definition validate_sync_lock :: "cval \<Rightarrow> leader_exn + unit" where
  "validate_sync_lock v = require (v = CRLock Unlocked)"

definition validate_async_lock :: "cval \<Rightarrow> leader_exn + unit" where
  "validate_async_lock v =
     (case v of
        CInst AsyncLock state \<Rightarrow>
          require (has_exact_attribute_names state [''_waiters'', ''_locked'']
            \<and> attr state ''_waiters'' = CV ONone \<and> attr state ''_locked'' = CV (OBool False))
      | _ \<Rightarrow> Inl unsupported)"

definition validate_empty_pool :: "(string \<times> cval) list \<Rightarrow> leader_exn + unit" where
  "validate_empty_pool pool =
     ebind (require (attr pool ''_available_connections'' = CList [] \<and> attr pool ''_in_use_connections'' = CSet [])) (\<lambda>_.
     require (attr_or pool ''_created_connections'' (CV (OInt 0)) = CV (OInt 0)))"

definition validate_sync_pool_identity :: "redis_lib \<Rightarrow> (string \<times> cval) list \<Rightarrow> leader_exn + unit" where
  "validate_sync_pool_identity lib state =
     require
       (attr state ''pid'' = CV (OInt (rlb_pid lib))
        \<and> attr state ''_maint_notifications_pool_handler'' = CV ONone
        \<and> attr state ''_oss_cluster_maint_notifications_handler'' = CV ONone
        \<and> str_where (\<lambda>s. length s = 8 \<and> set s \<subseteq> set (ustr ''0123456789abcdef'')) (attr state ''_pool_id''))"

text \<open>The listeners of an event: instances of the same classes with the same state.\<close>

definition same_listener :: "cval \<Rightarrow> cval \<Rightarrow> bool" where
  "same_listener actual expected =
     (case (actual, expected) of
        (CInst c1 s1, CInst c2 s2) \<Rightarrow> c1 = c2 \<and> has_exact_default_state s1 s2
      | _ \<Rightarrow> False)"

definition validate_event_dispatcher :: "redis_lib \<Rightarrow> cval \<Rightarrow> leader_exn + unit" where
  "validate_event_dispatcher lib v =
     (case v of
        CInst EventDispatcher state \<Rightarrow>
          ebind (require (has_exact_attribute_names state [''_event_listeners_mapping'', ''_lock'', ''_async_lock''])) (\<lambda>_.
          ebind (validate_sync_lock (attr state ''_lock'')) (\<lambda>_.
          ebind (require (attr state ''_async_lock'' = CV ONone)) (\<lambda>_.
          case attr state ''_event_listeners_mapping'' of
            CDict mapping \<Rightarrow>
              require
                (length mapping = length (rlb_events lib)
                 \<and> list_all (\<lambda>(event, _). (case event of CClass _ \<Rightarrow> True | _ \<Rightarrow> False)
                      \<and> event \<in> fst ` set (rlb_events lib)) mapping
                 \<and> list_all (\<lambda>(event, expected).
                      case (map_of mapping event, expected) of
                        (Some (CList actual), CList expected) \<Rightarrow> list_all2 same_listener actual expected
                      | _ \<Rightarrow> False) (rlb_events lib))
          | _ \<Rightarrow> Inl unsupported)))
      | _ \<Rightarrow> Inl unsupported)"

definition validate_response_callbacks :: "redis_lib \<Rightarrow> cval \<Rightarrow> (cval \<times> cval) list \<Rightarrow> leader_exn + unit" where
  "validate_response_callbacks lib actual options =
     (case actual of
        CCaseDict actual \<Rightarrow>
          (let expected = rlb_callbacks lib (opt options ''protocol'') (opt_or options ''legacy_responses'' (CV (OBool True)))
           in require
                (length actual = length expected
                 \<and> list_all (\<lambda>(name, _). str_where (\<lambda>_. True) name \<and> name \<in> fst ` set expected) actual
                 \<and> list_all (\<lambda>(name, callback). rlb_case_get lib actual name = callback) expected))
      | _ \<Rightarrow> Inl unsupported)"

text \<open>The pool's options as a list; anything but a dictionary was rejected by \<open>validate_pool\<close>.\<close>

fun dict_items :: "cval \<Rightarrow> (cval \<times> cval) list" where
  "dict_items (CDict items) = items"
| "dict_items _ = []"

fun class_of :: "cval \<Rightarrow> cclass" where
  "class_of (CClass c) = c"
| "class_of _ = OtherClass 0"

definition validated_sync_client :: "redis_lib \<Rightarrow> cval \<Rightarrow> leader_exn + timing" where
  "validated_sync_client lib client =
     (case client of
        CInst SyncClient state \<Rightarrow>
          ebind (require (has_exact_attribute_names state sync_client_attributes
                   \<and> attr state ''connection'' = CV ONone \<and> attr state ''_single_connection_client'' = CV (OBool False))) (\<lambda>_.
          ebind (validate_sync_lock (attr state ''single_connection_lock'')) (\<lambda>_.
          case attr state ''connection_pool'' of
            CInst SyncPool pool \<Rightarrow>
              ebind (require (has_exact_attribute_names pool sync_pool_attributes \<and> attr pool ''cache'' = CV ONone)) (\<lambda>_.
              ebind (validate_sync_pool_identity lib pool) (\<lambda>_.
              ebind (validate_sync_lock (attr pool ''_fork_lock'')) (\<lambda>_.
              ebind (validate_sync_lock (attr pool ''_lock'')) (\<lambda>_.
              ebind (validate_empty_pool pool) (\<lambda>_.
              ebind (validate_event_dispatcher lib (attr state ''_event_dispatcher'')) (\<lambda>_.
              ebind (validate_event_dispatcher lib (attr pool ''_event_dispatcher'')) (\<lambda>_.
              ebind (validate_pool lib (class_of (attr pool ''connection_class'')) (rlb_connection_kwargs lib pool)
                       (attr pool ''max_connections'') True) (\<lambda>tg.
              ebind (validate_response_callbacks lib (attr state ''response_callbacks'')
                       (dict_items (rlb_connection_kwargs lib pool))) (\<lambda>_.
              Inr tg)))))))))
          | _ \<Rightarrow> Inl unsupported))
      | _ \<Rightarrow> Inl unsupported)"

definition validated_async_client :: "redis_lib \<Rightarrow> cval \<Rightarrow> leader_exn + timing" where
  "validated_async_client lib client =
     (case client of
        CInst AsyncClient state \<Rightarrow>
          ebind (require (has_exact_attribute_names state async_client_attributes
                   \<and> attr state ''connection'' = CV ONone \<and> attr state ''single_connection_client'' = CV (OBool False))) (\<lambda>_.
          ebind (validate_async_lock (attr state ''_single_conn_lock'')) (\<lambda>_.
          ebind (validate_async_lock (attr state ''_usage_lock'')) (\<lambda>_.
          case attr state ''connection_pool'' of
            CInst AsyncPool pool \<Rightarrow>
              ebind (require (has_exact_attribute_names pool async_pool_attributes)) (\<lambda>_.
              ebind (validate_async_lock (attr pool ''_lock'')) (\<lambda>_.
              ebind (validate_empty_pool pool) (\<lambda>_.
              ebind (validate_event_dispatcher lib (attr state ''_event_dispatcher'')) (\<lambda>_.
              ebind (validate_event_dispatcher lib (attr pool ''_event_dispatcher'')) (\<lambda>_.
              ebind (validate_pool lib (class_of (attr pool ''connection_class'')) (attr pool ''connection_kwargs'')
                       (attr pool ''max_connections'') False) (\<lambda>tg.
              ebind (validate_response_callbacks lib (attr state ''response_callbacks'')
                       (dict_items (attr pool ''connection_kwargs''))) (\<lambda>_.
              Inr tg)))))))
          | _ \<Rightarrow> Inl unsupported)))
      | _ \<Rightarrow> Inl unsupported)"

section \<open>What acceptance means\<close>

lemma require_eq [simp]: "require ok = Inr u \<longleftrightarrow> ok" "require ok = Inl e \<longleftrightarrow> \<not> ok \<and> e = unsupported"
  by (auto simp: require_def)

lemma unsupported_not_Inr [simp]: "Inl unsupported \<noteq> Inr x"
  by simp

lemma handshake_length:
  assumes "handshake_commands lib options = Inr commands"
  shows "2 \<le> length commands \<and> length commands \<le> 6
    \<and> (opt options ''password'' = CV ONone \<longrightarrow> ''AUTH'' \<notin> set commands \<and> ''HELLO AUTH'' \<notin> set commands)"
  using assms by (auto simp: handshake_commands_def Let_def split: if_splits)

lemma timing_of_fields:
  assumes "timing_of n c t w = Inr tg"
  shows "tg_handshake_round_trips tg = n" "tg_script tg = float_mul (Finite 2) (tg_command tg)"
    "tg_acquire tg = float_add (tg_script tg) (tg_command tg)" "tg_probe tg = tg_script tg" "tg_renew tg = tg_script tg"
    "tg_release tg = float_add (float_mul (Finite 2) (tg_script tg)) (tg_command tg)"
  using assms by (auto simp: timing_of_def Let_def split: if_splits option.splits)

text \<open>An accepted pool sends every command once (no retries, no health checks), hands back raw bytes,
  which is what the decoders of the replies ask for, and has a time budget that counts each round trip of
  the handshake: at least two of them and at most six, twice that over an asynchronous Unix socket.\<close>

theorem accepted_pool:
  assumes "validate_pool lib cls opts max_connections sync = Inr tg"
  obtains options commands where
    "opts = CDict options" "handshake_commands lib options = Inr commands"
    "opt options ''decode_responses'' = CV (OBool False)" "opt options ''health_check_interval'' = CV (OInt 0)"
    "validate_retry (opt options ''retry'') sync = Inr ()"
    "tg_handshake_round_trips tg = (if cls = AsyncUnixConnection then 2 else 1) * int (length commands)"
    "2 \<le> length commands" "length commands \<le> 6"
    "tg_renew tg = float_mul (Finite 2) (tg_command tg)"
proof -
  obtain options where opts: "opts = CDict options"
    using assms by (auto simp: validate_pool_def split: cval.splits)
  obtain x y where "(case (x, y) of (Some c, Some t) \<Rightarrow> pool_budget lib cls options sync c t | _ \<Rightarrow> Inl unsupported) = Inr tg"
    using assms unfolding validate_pool_def opts ebind_eq_Inr cval.case by blast
  then obtain c t where o: "opts = CDict options" "pool_budget lib cls options sync c t = Inr tg"
    using opts by (cases x; cases y) auto
  from o(2) obtain commands where *:
    "handshake_commands lib options = Inr commands" "plain_connection lib options"
    "opt options ''health_check_interval'' = CV (OInt 0)" "validate_retry (opt options ''retry'') sync = Inr ()"
    "timing_of (if cls = AsyncUnixConnection then int (length commands) * 2 else int (length commands))
       (OFloat c) (OFloat t) (Finite 0) = Inr tg"
    by (auto simp: pool_budget_def Let_def split del: if_split)
  show ?thesis
    by (rule that [OF o(1) *(1) _ *(3,4)])
      (use *(2) timing_of_fields [OF *(5)] handshake_length [OF *(1)] in \<open>simp_all add: plain_connection_def\<close>)
qed

text \<open>With automatic renewal, the accepted options leave room for a renewal: interval and renewal budget
  together stay below the lease, in the arithmetic of the check.\<close>

theorem renewal_in_time:
  assumes "validated_redis_options options tg = Inr opts" "lo_auto_renew options"
  shows "\<exists>i ms. lo_renew_interval opts = Some i \<and> duration_milliseconds (OTimedelta (lo_lease_time opts)) = Inr ms
    \<and> float_lt (tg_renew tg) (total_seconds i)
    \<and> float_lt (float_add (tg_renew tg) (total_seconds i)) (round_double (of_int ms / 1000))"
proof -
  obtain interval where i: "lo_renew_interval options = Some interval"
    using assms by (auto simp: validated_redis_options_def split: option.splits)
  from assms i obtain o' i' ms where *: "redis_interval options interval = Inr (o', i')" "opts = o'"
    "duration_milliseconds (OTimedelta (lo_lease_time o')) = Inr ms"
    "float_lt (tg_renew tg) (total_seconds i')" "float_lt (float_add (tg_renew tg) (total_seconds i')) (round_double (of_int ms / 1000))"
    by (auto simp: validated_redis_options_def invalid_options_def Let_def split: if_splits sum.splits leader_exn.splits)
  have "lo_renew_interval o' = Some i'"
    using *(1) i by (auto simp: redis_interval_def Let_def leader_options_new_def derive_interval_def
        require_exact_timedelta_def optional_def check_def split: if_splits)
  then show ?thesis using * by blast
qed

end
