(* ===== verification/Redis_Lock.thy ===== *)
theory Redis_Lock
  imports Redis_Client
begin

text \<open>
  \<open>bluetape.leader.redis._lock\<close> and \<open>_elector\<close>: the lease handle with its state machine and its renewal
  thread, the acquisition loop of \<open>RedisDistributedLock\<close>, and \<open>RedisLeaderElector\<close>.

  Handles are objects on a heap that is part of the program state: a handle is the record of its
  constant attributes with the address \<open>rl_ref\<close> of the mutable ones (\<open>handle_data\<close>). What happens under
  \<open>self._lock\<close> is one step on these data (\<open>with_lock\<close>); other threads, the renewal thread among them, run
  whenever a handle calls Redis, the clock, a thread or an event. These are parameters: the client
  object (\<open>commands\<close>) and the threads and events of the standard library (\<open>world\<close>).
\<close>

section \<open>Handles\<close>

datatype lease_state = ACQUIRED | ENTERED | LOST | RELEASED | UNKNOWN

record handle_data =
  hd_state :: lease_state
  hd_failure :: "leader_exn option"
  hd_stop_event :: bool
  hd_worker :: "nat option"
  hd_worker_ready :: bool

record 's world =
  wd_get :: "nat \<Rightarrow> 's \<Rightarrow> handle_data"
  wd_put :: "nat \<Rightarrow> handle_data \<Rightarrow> 's \<Rightarrow> 's"
  wd_fresh :: "'s \<Rightarrow> nat"
  wd_thread :: "('s, leader_exn, nat) act"
  wd_start :: "nat \<Rightarrow> ('s, leader_exn, unit) act"
  wd_is_alive :: "nat \<Rightarrow> ('s, leader_exn, bool) act"
  wd_join :: "nat \<Rightarrow> pyfloat \<Rightarrow> ('s, leader_exn, unit) act"
  wd_ready_wait :: "nat \<Rightarrow> pyfloat \<Rightarrow> ('s, leader_exn, bool) act"
  wd_stop_wait :: "nat \<Rightarrow> pyfloat \<Rightarrow> ('s, leader_exn, bool) act"
  wd_utcnow :: "('s, leader_exn, int) act"

record 's redis_lease =
  rl_commands :: "'s commands"
  rl_lease :: fenced_leader_lease
  rl_lease_key :: pybytes
  rl_record :: lease_record
  rl_options :: leader_options
  rl_monotonic_ns :: "('s, leader_exn, int) act"
  rl_acquired_ns :: int
  rl_timing :: timing
  rl_world :: "'s world"
  rl_ref :: nat

definition handle_init :: handle_data where
  "handle_init = \<lparr>hd_state = ACQUIRED, hd_failure = None, hd_stop_event = False, hd_worker = None,
     hd_worker_ready = True\<rparr>"

abbreviation lease_data :: "'s redis_lease \<Rightarrow> 's \<Rightarrow> handle_data" where
  "lease_data self s \<equiv> wd_get (rl_world self) (rl_ref self) s"

definition with_lock ::
  "'s redis_lease \<Rightarrow> (handle_data \<Rightarrow> (leader_exn + 'a) \<times> handle_data) \<Rightarrow> ('s, leader_exn, 'a) act" where
  "with_lock self f = (\<lambda>s.
     case f (lease_data self s) of (r, d) \<Rightarrow> Some (r, wd_put (rl_world self) (rl_ref self) d s))"

text \<open>The result of a call to Redis under \<open>try ... except _UNCERTAIN_ERRORS ... except Exception\<close>; the
  handlers only set a flag.\<close>

datatype 'a call = Returned 'a | Uncertain_outcome | Backend_failed

definition guarded :: "('s, leader_exn, 'a) act \<Rightarrow> ('s, leader_exn, 'a call) act" where
  "guarded m =
     try_else m
       (\<lambda>e. if is_uncertain e then return Uncertain_outcome
            else if is_exception e then return Backend_failed else raise e)
       (\<lambda>x. return (Returned x))"

section \<open>Under the lock\<close>

type_synonym 'a block = "handle_data \<Rightarrow> (leader_exn + 'a) \<times> handle_data"

definition raise_if_unknown :: "handle_data \<Rightarrow> leader_exn + unit" where
  "raise_if_unknown d =
     (if hd_state d = UNKNOWN
      then (case hd_failure d of None \<Rightarrow> Inl AssertionError | Some e \<Rightarrow> Inl e) else Inr ())"

definition lease_over :: "handle_data \<Rightarrow> bool" where
  "lease_over d \<longleftrightarrow> hd_state d = LOST \<or> hd_state d = RELEASED"

definition fail_unknown :: "leader_exn \<Rightarrow> handle_data \<Rightarrow> (leader_exn + 'a) \<times> handle_data" where
  "fail_unknown failure d = (Inl failure, d\<lparr>hd_state := UNKNOWN, hd_failure := Some failure\<rparr>)"

text \<open>How \<open>renew\<close> and \<open>is_held\<close> begin: is the lease over?\<close>

definition check_over :: "bool block" where
  "check_over d = (ebind (raise_if_unknown d) (\<lambda>_. Inr (lease_over d)), d)"

definition renew_finish :: "pystr call \<Rightarrow> renew_outcome block" where
  "renew_finish status d =
     (case raise_if_unknown d of
        Inl e \<Rightarrow> (Inl e, d)
      | Inr _ \<Rightarrow>
          if lease_over d then (Inr NotHeld, d)
          else if status = Returned (ustr ''RENEWED'') then (renewed ONone, d)
          else if status = Returned (ustr ''NOT_HELD'') then (Inr NotHeld, d\<lparr>hd_state := LOST\<rparr>)
          else (renew_backend_failure LeaderBackendError,
                d\<lparr>hd_state := UNKNOWN, hd_failure := Some LeaderBackendError\<rparr>))"

definition held_finish :: "pystr call \<Rightarrow> bool block" where
  "held_finish status d =
     (case raise_if_unknown d of
        Inl e \<Rightarrow> (Inl e, d)
      | Inr _ \<Rightarrow>
          if lease_over d then (Inr False, d)
          else if status = Returned (ustr ''HELD'') then (Inr True, d)
          else if status = Returned (ustr ''NOT_HELD'') then (Inr False, d\<lparr>hd_state := LOST\<rparr>)
          else fail_unknown LeaderBackendError d)"

definition finish_terminal_release :: "bool \<Rightarrow> handle_data \<Rightarrow> leader_exn + bool" where
  "finish_terminal_release scoped d =
     ebind (raise_if_unknown d) (\<lambda>_.
     if \<not> lease_over d then Inr False
     else if scoped \<and> hd_state d = RELEASED then Inr True
     else if scoped then Inl LeaderLeaseLostError
     else Inl LeaderReleaseError)"

definition finish_release_status :: "bool \<Rightarrow> pystr \<Rightarrow> unit block" where
  "finish_release_status scoped status d =
     (if status = ustr ''DELETED'' \<or> status = ustr ''MIN_TTL_APPLIED'' then (Inr (), d\<lparr>hd_state := RELEASED\<rparr>)
      else if status = ustr ''NOT_HELD''
      then (Inl (if scoped then LeaderLeaseLostError else LeaderReleaseError), d\<lparr>hd_state := LOST\<rparr>)
      else fail_unknown LeaderBackendError d)"

text \<open>The lock blocks of a release: each one ends at once if the lease is over; \<open>uncertain\<close> is the
  failure that an uncertain outcome stands for.\<close>

definition unless_over :: "bool \<Rightarrow> unit block \<Rightarrow> unit block" where
  "unless_over scoped f d =
     (case finish_terminal_release scoped d of
        Inl e \<Rightarrow> (Inl e, d)
      | Inr True \<Rightarrow> (Inr (), d)
      | Inr False \<Rightarrow> f d)"

definition release_finish :: "bool \<Rightarrow> leader_exn \<Rightarrow> pystr call \<Rightarrow> unit block" where
  "release_finish scoped uncertain status =
     unless_over scoped (\<lambda>d.
       case status of
         Returned st \<Rightarrow> finish_release_status scoped st d
       | Uncertain_outcome \<Rightarrow> fail_unknown uncertain d
       | Backend_failed \<Rightarrow> fail_unknown LeaderBackendError d)"

text \<open>The block between the reconciliation and the second release; \<open>Inr False\<close> goes on.\<close>

definition reconcile_check ::
  "bool \<Rightarrow> pystr \<Rightarrow> (pystr \<times> lease_record option) call \<Rightarrow> bool block" where
  "reconcile_check scoped owner_token outcome d =
     (case finish_terminal_release scoped d of
        Inl e \<Rightarrow> (Inl e, d)
      | Inr True \<Rightarrow> (Inr True, d)
      | Inr False \<Rightarrow>
          (case outcome of
             Returned (status, record) \<Rightarrow>
               if status = ustr ''ABSENT'' then fail_unknown LeaderReleaseError d
               else (case record of
                       None \<Rightarrow> fail_unknown LeaderBackendError d
                     | Some r \<Rightarrow>
                         if status \<noteq> ustr ''PRESENT'' then fail_unknown LeaderBackendError d
                         else if lr_owner_token r \<noteq> owner_token
                         then (Inl (if scoped then LeaderLeaseLostError else LeaderReleaseError), d\<lparr>hd_state := LOST\<rparr>)
                         else (Inr False, d))
           | _ \<Rightarrow> fail_unknown LeaderBackendError d))"

definition enter_block :: "unit block" where
  "enter_block d =
     (case raise_if_unknown d of
        Inl e \<Rightarrow> (Inl e, d)
      | Inr _ \<Rightarrow> if hd_state d \<noteq> ACQUIRED then (Inl LeaderLeaseLostError, d) else (Inr (), d\<lparr>hd_state := ENTERED\<rparr>))"

text \<open>A renewal thread that does not stop in time.\<close>

definition stuck_block :: "unit block" where
  "stuck_block d =
     (case raise_if_unknown d of Inl e \<Rightarrow> (Inl e, d) | Inr _ \<Rightarrow> fail_unknown LeaderBackendError d)"

definition renew_loop_failed :: "unit block" where
  "renew_loop_failed d =
     (Inr (), if hd_state d \<noteq> UNKNOWN then d\<lparr>hd_state := UNKNOWN, hd_failure := Some LeaderBackendError\<rparr> else d)"

section \<open>Operations of the handle\<close>

definition lease_renew :: "'s redis_lease \<Rightarrow> pyobj option \<Rightarrow> ('s, leader_exn, renew_outcome) act" where
  "lease_renew self lease_time =
     act_bind (with_lock self check_over) (\<lambda>over.
     if over then return NotHeld
     else
       act_bind (lift (duration_milliseconds
           (case lease_time of None \<Rightarrow> OTimedelta (lo_lease_time (rl_options self)) | Some d \<Rightarrow> d))) (\<lambda>ttl_ms.
       act_bind
         (guarded
           (act_bind (run_script (rl_commands self) RenewScript [rl_lease_key self]
                       [record_to_bytes (rl_record self), dec ttl_ms]) (\<lambda>raw.
            lift (parse_status_response raw [ustr ''RENEWED'', ustr ''NOT_HELD'', ustr ''CORRUPT'']))))
         (\<lambda>status. with_lock self (renew_finish status))))"

definition lease_is_held :: "'s redis_lease \<Rightarrow> ('s, leader_exn, bool) act" where
  "lease_is_held self =
     act_bind (with_lock self check_over) (\<lambda>over.
     if over then return False
     else
       act_bind
         (guarded
           (act_bind (run_script (rl_commands self) ProbeScript [rl_lease_key self]
                       [record_to_bytes (rl_record self)]) (\<lambda>raw.
            lift (parse_status_response raw [ustr ''HELD'', ustr ''NOT_HELD'', ustr ''CORRUPT'']))))
         (\<lambda>status. with_lock self (held_finish status)))"

definition lease_assert_held :: "'s redis_lease \<Rightarrow> ('s, leader_exn, unit) act" where
  "lease_assert_held self =
     act_bind (lease_is_held self) (\<lambda>held. if \<not> held then raise LeaderLeaseLostError else return ())"

definition remaining_ms :: "int \<Rightarrow> int \<Rightarrow> int" where
  "remaining_ms minimum_ns elapsed_ns =
     (let remaining_ns = minimum_ns - elapsed_ns
      in if remaining_ns \<le> 0 then 0 else (remaining_ns + 999999) div 1000000)"

definition remaining_minimum_ms :: "'s redis_lease \<Rightarrow> ('s, leader_exn, int) act" where
  "remaining_minimum_ms self =
     act_bind (rl_monotonic_ns self) (\<lambda>now.
     return (remaining_ms (duration_nanoseconds (lo_min_lease_time (rl_options self))) (now - rl_acquired_ns self)))"

definition dispatch_release :: "'s redis_lease \<Rightarrow> ('s, leader_exn, pystr) act" where
  "dispatch_release self =
     act_bind (remaining_minimum_ms self) (\<lambda>remaining.
     act_bind (run_script (rl_commands self) ReleaseScript [rl_lease_key self]
                 [record_to_bytes (rl_record self), dec remaining]) (\<lambda>raw.
     lift (parse_status_response raw
       [ustr ''DELETED'', ustr ''MIN_TTL_APPLIED'', ustr ''NOT_HELD'', ustr ''CORRUPT''])))"

definition reconcile_release :: "'s redis_lease \<Rightarrow> bool \<Rightarrow> ('s, leader_exn, unit) act" where
  "reconcile_release self scoped =
     act_bind
       (guarded (act_bind (run_reconcile (rl_commands self) (rl_lease_key self)) (\<lambda>raw.
                 lift (parse_reconcile_response raw))))
       (\<lambda>outcome.
     act_bind (with_lock self (reconcile_check scoped (lr_owner_token (rl_record self)) outcome)) (\<lambda>finished.
     if finished then return ()
     else act_bind (guarded (dispatch_release self)) (\<lambda>status.
          with_lock self (release_finish scoped LeaderReleaseError status))))"

definition lease_release_scoped :: "'s redis_lease \<Rightarrow> bool \<Rightarrow> ('s, leader_exn, unit) act" where
  "lease_release_scoped self scoped =
     act_bind (with_lock self (\<lambda>d. (finish_terminal_release scoped d, d))) (\<lambda>finished.
     if finished then return ()
     else act_bind (guarded (dispatch_release self)) (\<lambda>status.
          if status = Uncertain_outcome then reconcile_release self scoped
          else with_lock self (release_finish scoped LeaderBackendError status)))"

definition worker_budget :: "'s redis_lease \<Rightarrow> pyfloat" where
  "worker_budget self = float_add (tg_renew (rl_timing self)) (round_double (1 / 10))"

definition join_worker :: "'s redis_lease \<Rightarrow> ('s, leader_exn, unit) act" where
  "join_worker self =
     act_bind (with_lock self (\<lambda>d. (Inr (hd_worker d), d))) (\<lambda>worker.
     case worker of
       None \<Rightarrow> return ()
     | Some th \<Rightarrow>
         act_then (wd_join (rl_world self) th (worker_budget self))
         (act_bind (wd_is_alive (rl_world self) th) (\<lambda>alive.
          act_then (if alive then with_lock self stuck_block else return ())
            (with_lock self (\<lambda>d. (Inr (), d\<lparr>hd_worker := None\<rparr>))))))"

definition set_stop :: "'s redis_lease \<Rightarrow> ('s, leader_exn, unit) act" where
  "set_stop self =
     modify (\<lambda>s. wd_put (rl_world self) (rl_ref self) ((lease_data self s)\<lparr>hd_stop_event := True\<rparr>) s)"

definition stop_worker :: "'s redis_lease \<Rightarrow> ('s, leader_exn, unit) act" where
  "stop_worker self =
     act_bind (with_lock self (\<lambda>d. (Inr (hd_worker d), d))) (\<lambda>worker.
     if worker = None then return ()
     else
       act_then (set_stop self)
       (act_bind (wd_ready_wait (rl_world self) (rl_ref self) (worker_budget self)) (\<lambda>ready.
        act_then (if ready then return () else with_lock self stuck_block) (join_worker self))))"

definition lease_release :: "'s redis_lease \<Rightarrow> ('s, leader_exn, unit) act" where
  "lease_release self = act_then (stop_worker self) (lease_release_scoped self False)"

text \<open>Code under \<open>try ... except LeaderError as error\<close>, with the error as a value.\<close>

definition lifecycle :: "('s, leader_exn, unit) act \<Rightarrow> ('s, leader_exn, leader_exn option) act" where
  "lifecycle m =
     try_else m (\<lambda>e. if is_leader_error e then return (Some e) else raise e) (\<lambda>_. return None)"

definition start_failed :: "'s redis_lease \<Rightarrow> nat \<Rightarrow> leader_exn \<Rightarrow> ('s, leader_exn, unit) act" where
  "start_failed self th start_failure =
     act_bind (wd_is_alive (rl_world self) th) (\<lambda>started.
     act_then (with_lock self (\<lambda>d. (Inr (),
         if started then d\<lparr>hd_worker_ready := True\<rparr> else d\<lparr>hd_worker_ready := True, hd_worker := None\<rparr>)))
     (act_bind (lifecycle (act_then (if started then stop_worker self else return ()) (lease_release_scoped self True)))
       (\<lambda>lifecycle_failure.
         if is_interrupt start_failure then raise start_failure
         else case lifecycle_failure of Some e \<Rightarrow> raise e | None \<Rightarrow> raise LeaderBackendError)))"

definition start_worker :: "'s redis_lease \<Rightarrow> ('s, leader_exn, unit) act" where
  "start_worker self =
     act_bind (wd_thread (rl_world self)) (\<lambda>th.
     act_then (with_lock self (\<lambda>d. (Inr (), d\<lparr>hd_worker := Some th, hd_worker_ready := False\<rparr>)))
     (act_bind (try_else (wd_start (rl_world self) th) (\<lambda>e. return (Some e)) (\<lambda>_. return None)) (\<lambda>start_failure.
      case start_failure of
        Some e \<Rightarrow> start_failed self th e
      | None \<Rightarrow>
          act_bind (with_lock self (\<lambda>d. (Inr (lease_over d \<or> hd_state d = UNKNOWN), d\<lparr>hd_worker_ready := True\<rparr>))) (\<lambda>terminal.
          if terminal
          then act_then (stop_worker self)
               (act_then (with_lock self (\<lambda>d. (raise_if_unknown d, d))) (raise LeaderLeaseLostError))
          else return ()))))"

definition lease_enter :: "'s redis_lease \<Rightarrow> ('s, leader_exn, unit) act" where
  "lease_enter self =
     act_then (with_lock self enter_block)
     (if lo_auto_renew (rl_options self)
      then act_bind (lease_renew self None) (\<lambda>outcome.
           case outcome of
             Renewed _ \<Rightarrow> start_worker self
           | NotHeld \<Rightarrow> raise LeaderLeaseLostError
           | RenewBackendFailure cause \<Rightarrow> raise cause)
      else act_bind (lease_is_held self) (\<lambda>held. if \<not> held then raise LeaderLeaseLostError else return ()))"

text \<open>\<open>__exit__\<close>; the note that is added to an interrupt is not part of the model.\<close>

definition lease_exit :: "'s redis_lease \<Rightarrow> leader_exn option \<Rightarrow> ('s, leader_exn, unit) act" where
  "lease_exit self exc =
     act_bind (lifecycle (act_then (stop_worker self) (lease_release_scoped self True))) (\<lambda>failure.
     case failure of
       None \<Rightarrow> return ()
     | Some lifecycle_failure \<Rightarrow>
         (case exc of
            None \<Rightarrow> raise lifecycle_failure
          | Some e \<Rightarrow>
              if is_interrupt e then return ()
              else if is_exception e then raise (leader_execution_error e lifecycle_failure)
              else raise lifecycle_failure))"

text \<open>The renewal thread.\<close>

definition renew_once :: "'s redis_lease \<Rightarrow> ('s, leader_exn, bool) act" where
  "renew_once self =
     try_else (lease_renew self None)
       (\<lambda>_. act_then (with_lock self renew_loop_failed) (act_then (set_stop self) (return True)))
       (\<lambda>outcome. case outcome of Renewed _ \<Rightarrow> return False | _ \<Rightarrow> act_then (set_stop self) (return True))"

partial_function (option) renew_loop ::
  "'s redis_lease \<Rightarrow> pyfloat \<Rightarrow> 's \<Rightarrow> ((leader_exn + unit) \<times> 's) option" where
  "renew_loop self seconds s =
     act_bind (wd_stop_wait (rl_world self) (rl_ref self) seconds) (\<lambda>stopped.
       if stopped then return ()
       else act_bind (renew_once self) (\<lambda>finished. if finished then return () else renew_loop self seconds)) s"

definition renew_thread :: "'s redis_lease \<Rightarrow> ('s, leader_exn, unit) act" where
  "renew_thread self =
     (case lo_renew_interval (rl_options self) of
        None \<Rightarrow> raise AssertionError
      | Some interval \<Rightarrow> renew_loop self (total_seconds interval))"

section \<open>The lock\<close>

record 's redis_lock =
  dl_commands :: "'s commands"
  dl_prefix :: pystr
  dl_timing :: timing
  dl_monotonic_ns :: "('s, leader_exn, int) act"
  dl_sleep :: "pyfloat \<Rightarrow> ('s, leader_exn, unit) act"
  dl_jitter :: "('s, leader_exn, pyobj) act"
  dl_token_factory :: "('s, leader_exn, pystr) act"
  dl_sha256 :: "pystr \<Rightarrow> pystr"
  dl_world :: "'s world"

text \<open>The constructor; the checks of the client object, which give the time budget, are a parameter.\<close>

definition redis_lock_init ::
  "'s commands \<Rightarrow> pyobj \<Rightarrow> leader_exn + timing \<Rightarrow> ('s, leader_exn, int) act \<Rightarrow> (pyfloat \<Rightarrow> ('s, leader_exn, unit) act)
   \<Rightarrow> ('s, leader_exn, pyobj) act \<Rightarrow> ('s, leader_exn, pystr) act \<Rightarrow> (pystr \<Rightarrow> pystr) \<Rightarrow> 's world
   \<Rightarrow> leader_exn + 's redis_lock" where
  "redis_lock_init client prefix validated_client monotonic_ns sleep jitter token_urlsafe sha256 world =
     ebind (validated_prefix prefix) (\<lambda>p.
     ebind validated_client (\<lambda>tg.
     Inr \<lparr>dl_commands = client, dl_prefix = p, dl_timing = tg, dl_monotonic_ns = monotonic_ns, dl_sleep = sleep,
          dl_jitter = jitter, dl_token_factory = act_bind token_urlsafe (\<lambda>t. lift (new_owner_token t)),
          dl_sha256 = sha256, dl_world = world\<rparr>))"

text \<open>\<open>datetime\<close> arithmetic raises \<open>OverflowError\<close> after the year 9999.\<close>

definition dt_add :: "int \<Rightarrow> timedelta \<Rightarrow> leader_exn + int" where
  "dt_add t d = (if t + td_us d > 253402300799999999 then Inl (OtherException 2) else Inr (t + td_us d))"

definition new_handle ::
  "'s redis_lock \<Rightarrow> pybytes \<Rightarrow> pystr \<Rightarrow> int \<Rightarrow> leader_options \<Rightarrow> int \<Rightarrow> ('s, leader_exn, 's redis_lease) act" where
  "new_handle self lease_key owner_token fencing_token options acquired_ns =
     act_bind (wd_utcnow (dl_world self)) (\<lambda>elected_at.
     act_bind (lift (dt_add elected_at (lo_lease_time options))) (\<lambda>lease_until.
     act_bind (lift (fenced_leader_lease_new (OStr (dec fencing_token))
         (case lo_node_id options of None \<Rightarrow> ONone | Some n \<Rightarrow> OStr n)
         (ODatetime \<lparr>dt_us = elected_at, dt_tz = Timezone 0\<rparr>) (ODatetime \<lparr>dt_us = lease_until, dt_tz = Timezone 0\<rparr>)
         (OInt fencing_token))) (\<lambda>lease.
     act_bind (lift (lease_record_new owner_token fencing_token)) (\<lambda>rec.
     act_bind (gets (wd_fresh (dl_world self))) (\<lambda>ref.
     act_then (modify (wd_put (dl_world self) ref handle_init))
       (return \<lparr>rl_commands = dl_commands self, rl_lease = lease, rl_lease_key = lease_key, rl_record = rec,
                rl_options = options, rl_monotonic_ns = dl_monotonic_ns self, rl_acquired_ns = acquired_ns,
                rl_timing = dl_timing self, rl_world = dl_world self, rl_ref = ref\<rparr>))))))"

definition reconcile_acquire ::
  "'s redis_lock \<Rightarrow> pybytes \<Rightarrow> pystr \<Rightarrow> leader_options \<Rightarrow> int \<Rightarrow> ('s, leader_exn, 's redis_lease) act" where
  "reconcile_acquire self lease_key owner_token options acquired_ns =
     act_bind
       (guarded (act_bind (run_reconcile (dl_commands self) lease_key) (\<lambda>raw. lift (parse_reconcile_response raw))))
       (\<lambda>outcome.
     case outcome of
       Returned (status, Some rec) \<Rightarrow>
         if status \<noteq> ustr ''PRESENT'' \<or> lr_owner_token rec \<noteq> owner_token then raise LeaderBackendError
         else new_handle self lease_key owner_token (lr_fencing_token rec) options acquired_ns
     | _ \<Rightarrow> raise LeaderBackendError)"

definition call_acquire ::
  "'s redis_lock \<Rightarrow> redis_keys \<Rightarrow> pystr \<Rightarrow> int \<Rightarrow> ('s, leader_exn, (pystr \<times> int option) call) act" where
  "call_acquire self keys owner_token ttl_ms =
     guarded
       (act_bind (lift (validated_script_args owner_token ttl_ms)) (\<lambda>(owner, ttl).
        act_bind (run_script (dl_commands self) AcquireScript [rk_lease keys, rk_fence keys, rk_history keys] [owner, ttl])
          (\<lambda>raw. lift (parse_acquire_response raw))))"

definition jitter_delay :: "pyobj \<Rightarrow> leader_exn + pyfloat" where
  "jitter_delay delay =
     (case delay of
        OFloat f \<Rightarrow>
          if float_le (round_double (4 / 100)) f \<and> float_le f (round_double (6 / 100)) then Inr f
          else Inl (RuntimeError ''Redis acquisition jitter is invalid'')
      | _ \<Rightarrow> Inl (RuntimeError ''Redis acquisition jitter is invalid''))"

text \<open>The end of a contended pass: sleep, or give up (\<open>True\<close>).\<close>

definition contended_wait :: "'s redis_lock \<Rightarrow> int \<Rightarrow> ('s, leader_exn, bool) act" where
  "contended_wait self deadline =
     act_bind (dl_monotonic_ns self) (\<lambda>now.
     if deadline - now \<le> 0 then return True
     else
       act_bind (dl_jitter self) (\<lambda>delay.
       act_bind (lift (jitter_delay delay)) (\<lambda>d.
       act_then (dl_sleep self (float_min d (round_double (of_int (deadline - now) / 1000000000)))) (return False))))"

text \<open>One pass of the loop: \<open>Some r\<close> returns \<open>r\<close>, \<open>None\<close> goes round.\<close>

definition acquire_pass ::
  "'s redis_lock \<Rightarrow> redis_keys \<Rightarrow> pystr \<Rightarrow> int \<Rightarrow> leader_options \<Rightarrow> int \<Rightarrow> bool
   \<Rightarrow> ('s, leader_exn, 's redis_lease option option) act" where
  "acquire_pass self keys owner_token ttl_ms options deadline attempted =
     act_bind (dl_monotonic_ns self) (\<lambda>acquired_ns.
     if attempted \<and> acquired_ns \<ge> deadline then return (Some None)
     else
       act_bind (call_acquire self keys owner_token ttl_ms) (\<lambda>outcome.
       case outcome of
         Uncertain_outcome \<Rightarrow>
           act_bind (reconcile_acquire self (rk_lease keys) owner_token options acquired_ns) (\<lambda>h. return (Some (Some h)))
       | Backend_failed \<Rightarrow> raise LeaderBackendError
       | Returned (status, fence) \<Rightarrow>
           (case (status = ustr ''ACQUIRED'', fence) of
              (True, Some fencing_token) \<Rightarrow>
                act_bind (new_handle self (rk_lease keys) owner_token fencing_token options acquired_ns)
                  (\<lambda>h. return (Some (Some h)))
            | _ \<Rightarrow>
                if status \<noteq> ustr ''CONTENDED'' then raise LeaderBackendError
                else act_bind (contended_wait self deadline) (\<lambda>finished. return (if finished then Some None else None)))))"

partial_function (option) acquire_loop ::
  "'s redis_lock \<Rightarrow> redis_keys \<Rightarrow> pystr \<Rightarrow> int \<Rightarrow> leader_options \<Rightarrow> int \<Rightarrow> bool \<Rightarrow> 's
   \<Rightarrow> ((leader_exn + 's redis_lease option) \<times> 's) option" where
  "acquire_loop self keys owner_token ttl_ms options deadline attempted s =
     act_bind (acquire_pass self keys owner_token ttl_ms options deadline attempted) (\<lambda>r.
       if Option.is_none r then acquire_loop self keys owner_token ttl_ms options deadline True
       else return (the r)) s"

definition try_acquire ::
  "'s redis_lock \<Rightarrow> pyobj \<Rightarrow> leader_options \<Rightarrow> ('s, leader_exn, 's redis_lease option) act" where
  "try_acquire self lock_name options =
     act_bind (lift (validated_redis_options options (dl_timing self))) (\<lambda>options.
     act_bind (lift (redis_keys_of (dl_sha256 self) lock_name (OStr (dl_prefix self)))) (\<lambda>keys.
     act_bind (dl_token_factory self) (\<lambda>owner_token.
     act_bind (lift (duration_milliseconds (OTimedelta (lo_lease_time options)))) (\<lambda>ttl_ms.
     act_bind (dl_monotonic_ns self) (\<lambda>started_ns.
     acquire_loop self keys owner_token ttl_ms options (started_ns + duration_nanoseconds (lo_wait_time options)) False)))))"

section \<open>The elector\<close>

text \<open>Leaving the \<open>with\<close> block after the action, whose outcome is known.\<close>

definition elector_finish ::
  "'s redis_lease \<Rightarrow> leader_exn + 'v \<Rightarrow> ('s, leader_exn, ('v, fenced_leader_lease) leader_run_result) act" where
  "elector_finish handle outcome =
     try_else (lease_exit handle None)
       (\<lambda>e. if is_leader_error e
            then (case outcome of Inl action_error \<Rightarrow> raise (leader_execution_error action_error e) | Inr _ \<Rightarrow> raise e)
            else raise e)
       (\<lambda>_. case outcome of
              Inl action_error \<Rightarrow> lift (action_failed action_error (rl_lease handle))
            | Inr x \<Rightarrow> return (Elected x (rl_lease handle)))"

definition run_if_leader_result ::
  "'s redis_lock \<Rightarrow> pyobj \<Rightarrow> (fenced_leader_lease \<Rightarrow> ('s, leader_exn, 'v) act) \<Rightarrow> leader_options
   \<Rightarrow> ('s, leader_exn, ('v, fenced_leader_lease) leader_run_result) act" where
  "run_if_leader_result lock lock_name action options =
     act_bind (try_acquire lock lock_name options) (\<lambda>h.
     case h of
       None \<Rightarrow> return Skipped
     | Some handle \<Rightarrow>
         act_then (lease_enter handle)
         (try_else (action (rl_lease handle))
           (\<lambda>e. if is_exception e then elector_finish handle (Inl e)
                else act_then (lease_exit handle (Some e)) (raise e))
           (\<lambda>x. elector_finish handle (Inr x))))"

definition run_if_leader ::
  "'s redis_lock \<Rightarrow> pyobj \<Rightarrow> (fenced_leader_lease \<Rightarrow> ('s, leader_exn, 'v) act) \<Rightarrow> leader_options
   \<Rightarrow> ('s, leader_exn, 'v option) act" where
  "run_if_leader lock lock_name action options =
     act_bind (run_if_leader_result lock lock_name action options) (\<lambda>result.
     case result of
       Skipped \<Rightarrow> return None
     | ActionFailed cause _ \<Rightarrow> raise cause
     | Elected x _ \<Rightarrow> return (Some x))"

section \<open>The state machine\<close>

text \<open>One lock block of some thread.\<close>

inductive handle_step :: "handle_data \<Rightarrow> handle_data \<Rightarrow> bool" where
  renew: "renew_finish status d = (r, d') \<Longrightarrow> handle_step d d'"
| held: "held_finish status d = (r, d') \<Longrightarrow> handle_step d d'"
| release: "uncertain \<in> {LeaderReleaseError, LeaderBackendError} \<Longrightarrow>
    release_finish scoped uncertain status d = (r, d') \<Longrightarrow> handle_step d d'"
| reconcile: "reconcile_check scoped owner outcome d = (r, d') \<Longrightarrow> handle_step d d'"
| enter: "enter_block d = (r, d') \<Longrightarrow> handle_step d d'"
| stuck: "stuck_block d = (r, d') \<Longrightarrow> handle_step d d'"
| loop_failed: "renew_loop_failed d = (r, d') \<Longrightarrow> handle_step d d'"
| thread: "handle_step d (d\<lparr>hd_worker := w, hd_worker_ready := b, hd_stop_event := c\<rparr>)"

fun state_rank :: "lease_state \<Rightarrow> nat" where
  "state_rank ACQUIRED = 0"
| "state_rank ENTERED = 1"
| "state_rank LOST = 2"
| "state_rank RELEASED = 2"
| "state_rank UNKNOWN = 3"

definition handle_ok :: "handle_data \<Rightarrow> bool" where
  "handle_ok d \<longleftrightarrow> (hd_state d = UNKNOWN \<longrightarrow> hd_failure d \<in> {Some LeaderBackendError, Some LeaderReleaseError})"

lemmas block_defs = renew_finish_def held_finish_def release_finish_def unless_over_def reconcile_check_def
  enter_block_def stuck_block_def renew_loop_failed_def finish_release_status_def finish_terminal_release_def
  fail_unknown_def raise_if_unknown_def lease_over_def

lemma handle_step_rank:
  assumes "handle_step d d'"
  shows "d' = d \<or> state_rank (hd_state d) < state_rank (hd_state d')
    \<or> hd_state d' = hd_state d \<and> hd_failure d' = hd_failure d"
  using assms
  by (cases rule: handle_step.cases; cases "hd_state d")
    (auto simp: block_defs split: if_splits option.splits sum.splits bool.splits call.splits)

lemma handle_step_ok: "handle_ok d \<Longrightarrow> handle_step d d' \<Longrightarrow> handle_ok d'"
  by (cases rule: handle_step.cases, assumption)
    (auto simp: handle_ok_def block_defs split: if_splits option.splits sum.splits bool.splits call.splits)

interpretation hs: transition_invariant handle_step handle_ok
  by unfold_locales (rule handle_step_ok)

lemma rank_stays:
  assumes "handle_step\<^sup>*\<^sup>* d d'"
  shows "state_rank (hd_state d) < state_rank (hd_state d') \<or> hd_state d' = hd_state d \<and> hd_failure d' = hd_failure d"
  using assms
proof (induction rule: rtranclp_induct)
  case (step y z)
  then show ?case using handle_step_rank [of y z] by auto
qed simp

section \<open>Triples for the operations\<close>

definition heap_ok :: "'s world \<Rightarrow> bool" where
  "heap_ok w \<longleftrightarrow> (\<forall>r d s. wd_get w r (wd_put w r d s) = d)"

lemma hoare_with_lock:
  assumes "heap_ok (rl_world self)"
    and "\<And>d r d'. f d = (r, d') \<Longrightarrow> case r of Inl e \<Rightarrow> True | Inr x \<Rightarrow> Q x d'"
  shows "hoare b (\<lambda>_. True) (with_lock self f) (\<lambda>x s. Q x (lease_data self s)) (\<lambda>_ _. True)"
  using assms
  by (intro hoareI) (auto simp: with_lock_def heap_ok_def split: prod.splits, fastforce)

lemma hoare_any: "hoare False P m (\<lambda>_ _. True) (\<lambda>_ _. True)"
  by (rule hoareI) simp_all

lemma hoare_after: "(\<And>x. hoare False (\<lambda>_. True) (f x) Q E) \<Longrightarrow> (\<And>e s. E e s) \<Longrightarrow> hoare False (\<lambda>_. True) (act_bind m f) Q E"
  by (rule hoare_bind [where R = "\<lambda>_ _. True"]) (auto intro: hoare_weaken [OF hoare_any])

abbreviation released :: "'s redis_lease \<Rightarrow> 's \<Rightarrow> bool" where
  "released self s \<equiv> hd_state (lease_data self s) = RELEASED"

abbreviation of_lock :: "'s redis_lock \<Rightarrow> 's redis_lease \<Rightarrow> bool" where
  "of_lock self h \<equiv> rl_world h = dl_world self \<and> rl_commands h = dl_commands self
     \<and> rl_monotonic_ns h = dl_monotonic_ns self"

text \<open>
  The releases that Redis has confirmed are a history variable: \<open>confirmed s\<close> is a set of lease keys and
  records. \<open>confirming\<close> says how it is kept: when a release script comes back with \<open>DELETED\<close> or
  \<open>MIN_TTL_APPLIED\<close> its key and record are in the set. \<open>backed\<close> is the property of a handle that is to
  be shown: it is in the state \<open>RELEASED\<close> only if its release was confirmed. Other threads run inside
  every call of foreign code; they are assumed to keep it for each handle, as the lock blocks do.
\<close>

definition backed :: "('s \<Rightarrow> (pybytes \<times> pybytes) set) \<Rightarrow> 's redis_lease \<Rightarrow> 's \<Rightarrow> bool" where
  "backed confirmed h s \<longleftrightarrow>
     (released h s \<longrightarrow> (rl_lease_key h, record_to_bytes (rl_record h)) \<in> confirmed s)"

abbreviation release_statuses :: "pystr list" where
  "release_statuses \<equiv> [ustr ''DELETED'', ustr ''MIN_TTL_APPLIED'', ustr ''NOT_HELD'', ustr ''CORRUPT'']"

definition records_releases ::
  "('s \<Rightarrow> (pybytes \<times> pybytes) set) \<Rightarrow> (script \<Rightarrow> pybytes list \<Rightarrow> pybytes list \<Rightarrow> ('s, leader_exn, rreply) act) \<Rightarrow> bool"
where
  "records_releases confirmed run \<longleftrightarrow>
     (\<forall>key rec ttl s raw s' st. run ReleaseScript [key] [rec, ttl] s = Some (Inr raw, s') \<longrightarrow>
        parse_status_response raw release_statuses = Inr st \<longrightarrow>
        st = ustr ''DELETED'' \<or> st = ustr ''MIN_TTL_APPLIED'' \<longrightarrow> (key, rec) \<in> confirmed s')"

definition confirming :: "'s redis_lock \<Rightarrow> ('s \<Rightarrow> (pybytes \<times> pybytes) set) \<Rightarrow> bool" where
  "confirming lock confirmed \<longleftrightarrow>
     heap_ok (dl_world lock)
     \<and> (\<forall>r d s. confirmed (wd_put (dl_world lock) r d s) = confirmed s)
     \<and> records_releases confirmed (cm_evalsha (dl_commands lock))
     \<and> records_releases confirmed (cm_eval (dl_commands lock))
     \<and> (\<forall>h. of_lock lock h \<longrightarrow>
          (\<forall>sc k a. keeps False (backed confirmed h) (cm_evalsha (dl_commands lock) sc k a)
                  \<and> keeps False (backed confirmed h) (cm_eval (dl_commands lock) sc k a))
          \<and> keeps False (backed confirmed h) (dl_monotonic_ns lock)
          \<and> keeps False (backed confirmed h) (wd_thread (dl_world lock))
          \<and> (\<forall>n t. keeps False (backed confirmed h) (wd_start (dl_world lock) n)
                \<and> keeps False (backed confirmed h) (wd_is_alive (dl_world lock) n)
                \<and> keeps False (backed confirmed h) (wd_join (dl_world lock) n t)
                \<and> keeps False (backed confirmed h) (wd_ready_wait (dl_world lock) n t)))"

lemma confirmingD:
  assumes "confirming lock confirmed"
  shows "heap_ok (dl_world lock)" "confirmed (wd_put (dl_world lock) r d s) = confirmed s"
    "records_releases confirmed (cm_evalsha (dl_commands lock))" "records_releases confirmed (cm_eval (dl_commands lock))"
    "of_lock lock h \<Longrightarrow> keeps False (backed confirmed h) (cm_evalsha (dl_commands lock) sc k a)"
    "of_lock lock h \<Longrightarrow> keeps False (backed confirmed h) (cm_eval (dl_commands lock) sc k a)"
    "of_lock lock h \<Longrightarrow> keeps False (backed confirmed h) (dl_monotonic_ns lock)"
    "of_lock lock h \<Longrightarrow> keeps False (backed confirmed h) (wd_thread (dl_world lock))"
    "of_lock lock h \<Longrightarrow> keeps False (backed confirmed h) (wd_start (dl_world lock) n)"
    "of_lock lock h \<Longrightarrow> keeps False (backed confirmed h) (wd_is_alive (dl_world lock) n)"
    "of_lock lock h \<Longrightarrow> keeps False (backed confirmed h) (wd_join (dl_world lock) n t)"
    "of_lock lock h \<Longrightarrow> keeps False (backed confirmed h) (wd_ready_wait (dl_world lock) n t)"
  using assms unfolding confirming_def by blast+

text \<open>A handle of the lock, with a history of the confirmed releases.\<close>

definition release_env :: "('s \<Rightarrow> (pybytes \<times> pybytes) set) \<Rightarrow> 's redis_lease \<Rightarrow> bool" where
  "release_env confirmed h \<longleftrightarrow> (\<exists>lock. of_lock lock h \<and> confirming lock confirmed)"

lemma release_envD:
  assumes "release_env confirmed h"
  shows "heap_ok (rl_world h)" "confirmed (wd_put (rl_world h) r d s) = confirmed s"
    "records_releases confirmed (cm_evalsha (rl_commands h))" "records_releases confirmed (cm_eval (rl_commands h))"
    "keeps False (backed confirmed h) (cm_evalsha (rl_commands h) sc k a)"
    "keeps False (backed confirmed h) (cm_eval (rl_commands h) sc k a)"
    "keeps False (backed confirmed h) (rl_monotonic_ns h)" "keeps False (backed confirmed h) (wd_thread (rl_world h))"
    "keeps False (backed confirmed h) (wd_start (rl_world h) n)" "keeps False (backed confirmed h) (wd_is_alive (rl_world h) n)"
    "keeps False (backed confirmed h) (wd_join (rl_world h) n t)"
    "keeps False (backed confirmed h) (wd_ready_wait (rl_world h) n t)"
  using assms confirmingD unfolding release_env_def by metis+

text \<open>A lock block that releases nothing, and what the operations of a handle are made of.\<close>

definition releases_nothing :: "(handle_data \<Rightarrow> 'r \<times> handle_data) \<Rightarrow> bool" where
  "releases_nothing f \<longleftrightarrow> (\<forall>d. hd_state (snd (f d)) = RELEASED \<longrightarrow> hd_state d = RELEASED)"

lemma keeps_with_lock:
  assumes "release_env confirmed h" and "releases_nothing f"
  shows "keeps False (backed confirmed h) (with_lock h f)"
proof (rule keepsI)
  fix s r s'
  assume "backed confirmed h s" and run: "with_lock h f s = Some (r, s')"
  moreover have "s' = wd_put (rl_world h) (rl_ref h) (snd (f (lease_data h s))) s"
    using run by (auto simp: with_lock_def split: prod.splits)
  ultimately show "backed confirmed h s'"
    using assms(2) release_envD(1,2) [OF assms(1)] unfolding backed_def releases_nothing_def heap_ok_def by metis
qed simp

lemma releases_nothing_blocks [simp]:
  "releases_nothing check_over" "releases_nothing (renew_finish st)" "releases_nothing (held_finish st)"
  "releases_nothing enter_block" "releases_nothing stuck_block" "releases_nothing renew_loop_failed"
  "releases_nothing (reconcile_check scoped owner outcome)"
  by (auto simp: releases_nothing_def check_over_def block_defs
      split: if_splits option.splits sum.splits bool.splits call.splits)

lemma releases_nothing_simple [simp]:
  "releases_nothing (\<lambda>d. (f d, d))" "releases_nothing (\<lambda>d. (f d, d\<lparr>hd_worker := w\<rparr>))"
  "releases_nothing (\<lambda>d. (f d, d\<lparr>hd_worker := w, hd_worker_ready := b\<rparr>))"
  "releases_nothing (\<lambda>d. (f d, d\<lparr>hd_worker_ready := b\<rparr>))"
  "releases_nothing (\<lambda>d. (f d, if c then d\<lparr>hd_worker_ready := b\<rparr> else d\<lparr>hd_worker_ready := b', hd_worker := w\<rparr>))"
  by (auto simp: releases_nothing_def)

lemma keeps_set_stop: "release_env confirmed h \<Longrightarrow> keeps False (backed confirmed h) (set_stop h)"
  by (rule keepsI)
    (auto simp: set_stop_def act_simps backed_def release_envD(2) release_envD(1) [unfolded heap_ok_def])

lemma keeps_guarded: "keeps b I m \<Longrightarrow> keeps b I (guarded m)"
  unfolding guarded_def by (intro hoare_rules)

lemma keeps_run_script:
  assumes "release_env confirmed h"
  shows "keeps False (backed confirmed h) (run_script (rl_commands h) sc k a)"
    "keeps False (backed confirmed h) (run_reconcile (rl_commands h) key)"
  unfolding run_script_def run_reconcile_def by (intro hoare_rules release_envD [OF assms])+

lemmas handle_rules = hoare_rules keeps_with_lock keeps_guarded keeps_run_script keeps_set_stop

lemma keeps_handle_ops:
  assumes env: "release_env confirmed h"
  shows "keeps False (backed confirmed h) (lease_renew h lease_time)"
    "keeps False (backed confirmed h) (lease_is_held h)"
    "keeps False (backed confirmed h) (join_worker h)"
    "keeps False (backed confirmed h) (stop_worker h)"
proof -
  show "keeps False (backed confirmed h) (lease_renew h lease_time)"
    unfolding lease_renew_def by (intro handle_rules env) simp_all
  show "keeps False (backed confirmed h) (lease_is_held h)"
    unfolding lease_is_held_def by (intro handle_rules env) simp_all
  show join: "keeps False (backed confirmed h) (join_worker h)"
    unfolding join_worker_def by (intro handle_rules env release_envD [OF env]) simp_all
  show "keeps False (backed confirmed h) (stop_worker h)"
    unfolding stop_worker_def by (intro handle_rules env release_envD [OF env] join) simp_all
qed

text \<open>A release: the status that Redis returns is in the history when the last lock block sees it.\<close>

definition release_seen :: "('s \<Rightarrow> (pybytes \<times> pybytes) set) \<Rightarrow> 's redis_lease \<Rightarrow> pystr call \<Rightarrow> 's \<Rightarrow> bool" where
  "release_seen confirmed h st s \<longleftrightarrow>
     backed confirmed h s
     \<and> (st = Returned (ustr ''DELETED'') \<or> st = Returned (ustr ''MIN_TTL_APPLIED'') \<longrightarrow>
          (rl_lease_key h, record_to_bytes (rl_record h)) \<in> confirmed s)"

lemma hoare_release_script:
  assumes env: "release_env confirmed h"
  shows "hoare False (backed confirmed h)
    (act_bind (run_script (rl_commands h) ReleaseScript [rl_lease_key h] [record_to_bytes (rl_record h), ttl])
       (\<lambda>raw. lift (parse_status_response raw release_statuses)))
    (\<lambda>st. release_seen confirmed h (Returned st)) (\<lambda>_. backed confirmed h)"
proof -
  let ?args = "[record_to_bytes (rl_record h), ttl]"
  let ?R = "\<lambda>raw s. backed confirmed h s \<and> (\<forall>st. parse_status_response raw release_statuses = Inr st \<longrightarrow>
      st = ustr ''DELETED'' \<or> st = ustr ''MIN_TTL_APPLIED'' \<longrightarrow>
      (rl_lease_key h, record_to_bytes (rl_record h)) \<in> confirmed s)"
  have one: "hoare False (backed confirmed h) (run ReleaseScript [rl_lease_key h] ?args) ?R (\<lambda>_. backed confirmed h)"
    if "records_releases confirmed run" "keeps False (backed confirmed h) (run ReleaseScript [rl_lease_key h] ?args)"
    for run
  proof (rule hoareI)
    fix s raw s'
    assume "backed confirmed h s" "run ReleaseScript [rl_lease_key h] ?args s = Some (Inr raw, s')"
    then show "?R raw s'" using that(1) keepsD [OF that(2)] unfolding records_releases_def by blast
  qed (use keepsD [OF that(2)] in auto)
  have "hoare False (backed confirmed h) (run_script (rl_commands h) ReleaseScript [rl_lease_key h] ?args) ?R
      (\<lambda>_. backed confirmed h)"
    unfolding run_script_def
    by (rule hoare_then [OF keeps_hoare [OF keeps_lift]],
        rule hoare_try_except [OF one [OF release_envD(3,5) [OF env]]],
        rule hoare_if [OF one [OF release_envD(4,6) [OF env]] hoare_raise])
  then show ?thesis
    by (rule hoare_bind) (auto simp: hoare_def act_simps release_seen_def split: sum.split)
qed

lemma hoare_dispatch_release:
  assumes env: "release_env confirmed h"
  shows "hoare False (backed confirmed h) (guarded (dispatch_release h)) (release_seen confirmed h) (\<lambda>_. backed confirmed h)"
proof -
  have "keeps False (backed confirmed h) (remaining_minimum_ms h)"
    unfolding remaining_minimum_ms_def by (intro hoare_rules release_envD [OF env])
  then have "hoare False (backed confirmed h) (dispatch_release h) (\<lambda>st. release_seen confirmed h (Returned st))
      (\<lambda>_. backed confirmed h)"
    unfolding dispatch_release_def by (rule hoare_bind [OF keeps_hoare hoare_release_script [OF env]])
  then show ?thesis
    unfolding guarded_def by (rule hoare_try_else) (auto simp: hoare_def act_simps release_seen_def)
qed

lemma hoare_release_finish:
  assumes env: "release_env confirmed h"
  shows "hoare False (release_seen confirmed h st) (with_lock h (release_finish scoped u st))
    (\<lambda>_ s. released h s \<and> backed confirmed h s) (\<lambda>_ _. True)"
proof (rule hoareI)
  fix s x s'
  assume seen: "release_seen confirmed h st s" and run: "with_lock h (release_finish scoped u st) s = Some (Inr x, s')"
  obtain d' where d': "release_finish scoped u st (lease_data h s) = (Inr x, d')"
    "s' = wd_put (rl_world h) (rl_ref h) d' s"
    using run by (auto simp: with_lock_def split: prod.splits)
  have "hd_state d' = RELEASED \<and> (st = Returned (ustr ''DELETED'') \<or> st = Returned (ustr ''MIN_TTL_APPLIED'')
      \<or> released h s)"
    using d'(1) by (auto simp: block_defs split: if_splits option.splits sum.splits bool.splits call.splits)
  then show "released h s' \<and> backed confirmed h s'"
    using seen d'(2) release_envD(1) [OF env, unfolded heap_ok_def] release_envD(2) [OF env]
    unfolding release_seen_def backed_def by metis
qed simp_all

text \<open>A release that returns has left the handle released, and confirmed, whatever other threads did.\<close>

abbreviation closed_handle :: "('s \<Rightarrow> (pybytes \<times> pybytes) set) \<Rightarrow> 's redis_lease \<Rightarrow> 's \<Rightarrow> bool" where
  "closed_handle confirmed h s \<equiv> released h s \<and> backed confirmed h s"

lemma finish_terminal_true: "finish_terminal_release scoped d = Inr True \<Longrightarrow> hd_state d = RELEASED"
  by (auto simp: finish_terminal_release_def split: if_splits)

lemma hoare_terminal_check:
  assumes env: "release_env confirmed h" and "releases_nothing f"
    and true: "\<And>d d'. f d = (Inr True, d') \<Longrightarrow> hd_state d' = RELEASED"
  shows "hoare False (backed confirmed h) (with_lock h f)
    (\<lambda>finished s. backed confirmed h s \<and> (finished \<longrightarrow> released h s)) (\<lambda>_ _. True)"
proof (rule hoareI)
  fix s finished s'
  assume "backed confirmed h s" and run: "with_lock h f s = Some (Inr finished, s')"
  then have "backed confirmed h s'" by (rule keepsD [OF keeps_with_lock [OF env assms(2)]])
  moreover have "released h s'" if fin: finished
  proof -
    obtain d' where d': "f (lease_data h s) = (Inr True, d')" "s' = wd_put (rl_world h) (rl_ref h) d' s"
      using run fin by (auto simp: with_lock_def split: prod.splits)
    then show ?thesis using true [OF d'(1)] release_envD(1) [OF env, unfolded heap_ok_def] by simp
  qed
  ultimately show "backed confirmed h s' \<and> (finished \<longrightarrow> released h s')" by blast
qed simp_all

lemma hoare_if_finished:
  assumes "hoare False (backed confirmed h) m (\<lambda>_. closed_handle confirmed h) (\<lambda>_ _. True)"
  shows "hoare False (\<lambda>s. backed confirmed h s \<and> (finished \<longrightarrow> released h s)) (if finished then return () else m)
    (\<lambda>_. closed_handle confirmed h) (\<lambda>_ _. True)"
  using assms hoare_return [of False "\<lambda>_. closed_handle confirmed h" "()" "\<lambda>_ _. True"] by (cases finished) (auto elim: hoare_pre)

lemma hoare_finish_by:
  assumes env: "release_env confirmed h"
  shows "hoare False (backed confirmed h)
    (act_bind (guarded (dispatch_release h)) (\<lambda>status. with_lock h (release_finish scoped u status)))
    (\<lambda>_. closed_handle confirmed h) (\<lambda>_ _. True)"
  by (rule hoare_bind [OF hoare_weaken [OF hoare_dispatch_release [OF env]] hoare_release_finish [OF env]]) simp_all

lemma hoare_reconcile_release:
  assumes env: "release_env confirmed h"
  shows "hoare False (backed confirmed h) (reconcile_release h scoped) (\<lambda>_. closed_handle confirmed h) (\<lambda>_ _. True)"
proof -
  have ask: "keeps False (backed confirmed h) (guarded (act_bind (run_reconcile (rl_commands h) (rl_lease_key h))
      (\<lambda>raw. lift (parse_reconcile_response raw))))"
    by (intro handle_rules env)
  have check: "hoare False (backed confirmed h) (with_lock h (reconcile_check scoped own oc))
      (\<lambda>finished s. backed confirmed h s \<and> (finished \<longrightarrow> released h s)) (\<lambda>_ _. True)" for own oc
    by (rule hoare_terminal_check [OF env])
      (auto simp: reconcile_check_def fail_unknown_def dest: finish_terminal_true
        split: if_splits option.splits sum.splits bool.splits call.splits)
  show ?thesis
    unfolding reconcile_release_def
    by (rule hoare_bind [OF hoare_weaken [OF keeps_hoare [OF ask]]
          hoare_bind [OF check hoare_if_finished [OF hoare_finish_by [OF env]]]]) simp_all
qed

lemma hoare_release_scoped:
  assumes env: "release_env confirmed h"
  shows "hoare False (backed confirmed h) (lease_release_scoped h scoped) (\<lambda>_. closed_handle confirmed h) (\<lambda>_ _. True)"
proof -
  have first: "hoare False (backed confirmed h) (with_lock h (\<lambda>d. (finish_terminal_release scoped d, d)))
      (\<lambda>finished s. backed confirmed h s \<and> (finished \<longrightarrow> released h s)) (\<lambda>_ _. True)"
    by (rule hoare_terminal_check [OF env]) (auto dest: finish_terminal_true)
  have second: "hoare False (release_seen confirmed h st)
      (if st = Uncertain_outcome then reconcile_release h scoped
       else with_lock h (release_finish scoped LeaderBackendError st)) (\<lambda>_. closed_handle confirmed h) (\<lambda>_ _. True)" for st
    by (rule hoare_if [OF hoare_pre [OF hoare_reconcile_release [OF env]] hoare_release_finish [OF env]])
      (simp add: release_seen_def)
  show ?thesis
    unfolding lease_release_scoped_def
    by (rule hoare_bind [OF first hoare_if_finished
          [OF hoare_bind [OF hoare_weaken [OF hoare_dispatch_release [OF env]] second]]]) simp_all
qed

lemma hoare_lifecycle:
  assumes "hoare False I m (\<lambda>_. P) (\<lambda>_ _. True)"
  shows "hoare False I (lifecycle m) (\<lambda>r s. r = None \<longrightarrow> P s) (\<lambda>_ _. True)"
  unfolding lifecycle_def
  by (rule hoare_try_else [OF assms]) (auto intro: hoare_pre [OF hoare_return] hoare_raise simp: hoare_def act_simps)

lemma hoare_exit_none:
  assumes env: "release_env confirmed h"
  shows "hoare False (backed confirmed h) (lease_exit h None) (\<lambda>_. closed_handle confirmed h) (\<lambda>_ _. True)"
proof -
  have rel: "hoare False (backed confirmed h) (act_then (stop_worker h) (lease_release_scoped h True))
      (\<lambda>_. closed_handle confirmed h) (\<lambda>_ _. True)"
    by (rule hoare_then [OF hoare_weaken [OF keeps_hoare [OF keeps_handle_ops(4) [OF env]]] hoare_release_scoped [OF env]])
      simp_all
  show ?thesis
    unfolding lease_exit_def
    by (rule hoare_bind [OF hoare_lifecycle [OF rel]]) (auto simp: hoare_def act_simps split: option.split)
qed

text \<open>Entering the scope. When the renewal thread does not start, the scope is left by an exception.\<close>

lemma hoare_start_worker:
  assumes env: "release_env confirmed h"
  shows "hoare False (backed confirmed h) (start_worker h) (\<lambda>_. backed confirmed h) (\<lambda>_ _. True)"
proof -
  let ?I = "backed confirmed h" and ?E = "\<lambda>_ :: leader_exn. \<lambda>_ :: 'a. True"
  let ?begun = "act_bind (with_lock h (\<lambda>d. (Inr (lease_over d \<or> hd_state d = UNKNOWN), d\<lparr>hd_worker_ready := True\<rparr>)))
      (\<lambda>terminal. if terminal
          then act_then (stop_worker h) (act_then (with_lock h (\<lambda>d. (raise_if_unknown d, d))) (raise LeaderLeaseLostError))
          else return ())"
  have fails: "hoare False (\<lambda>_. True) (start_failed h th e) Q ?E" for th e and Q :: "unit \<Rightarrow> _"
    unfolding start_failed_def act_then_def
    by (rule hoare_after, rule hoare_after, rule hoare_after) (auto simp: hoare_def act_simps split: option.split)
  have begun: "keeps False ?I ?begun"
    by (intro handle_rules env keeps_handle_ops [OF env]) simp_all
  have rest: "hoare False ?I (case f of Some e \<Rightarrow> start_failed h th e | None \<Rightarrow> ?begun) (\<lambda>_. ?I) ?E" for f th
    using hoare_pre [OF fails] hoare_weaken [OF keeps_hoare [OF begun], where E' = "?E"] by (cases f) auto
  have start: "keeps False ?I (try_else (wd_start (rl_world h) th) (\<lambda>e. return (Some e)) (\<lambda>_. return None))" for th
    by (intro hoare_rules release_envD [OF env])
  have noted: "keeps False ?I (with_lock h (\<lambda>d. (Inr (), d\<lparr>hd_worker := Some th, hd_worker_ready := False\<rparr>)))" for th
    by (rule keeps_with_lock [OF env]) simp
  note loose = hoare_weaken [OF keeps_hoare, where E' = "?E"]
  show ?thesis
    unfolding start_worker_def
    by (rule hoare_bind [OF loose [OF release_envD(8) [OF env]]
          hoare_then [OF loose [OF noted] hoare_bind [OF loose [OF start] rest]]]) (assumption | rule TrueI)+
qed

lemma hoare_enter:
  assumes env: "release_env confirmed h"
  shows "hoare False (backed confirmed h) (lease_enter h) (\<lambda>_. backed confirmed h) (\<lambda>_ _. True)"
proof -
  have loose: "hoare False (backed confirmed h) m (\<lambda>_. backed confirmed h) (\<lambda>_ _. True)"
    if "keeps False (backed confirmed h) m" for m :: "('a, leader_exn, 'z) act"
    by (rule hoare_weaken [OF keeps_hoare [OF that]]) simp_all
  have renewal: "hoare False (backed confirmed h) (case oc of Renewed _ \<Rightarrow> start_worker h
       | NotHeld \<Rightarrow> raise LeaderLeaseLostError | RenewBackendFailure cause \<Rightarrow> raise cause)
      (\<lambda>_. backed confirmed h) (\<lambda>_ _. True)" for oc
    using hoare_start_worker [OF env] by (cases oc) (auto simp: hoare_def act_simps)
  have held: "keeps False (backed confirmed h) (act_bind (lease_is_held h)
      (\<lambda>held. if \<not> held then raise LeaderLeaseLostError else return ()))"
    by (intro handle_rules keeps_handle_ops [OF env])
  have block: "keeps False (backed confirmed h) (with_lock h enter_block)"
    by (rule keeps_with_lock [OF env]) simp
  show ?thesis
    unfolding lease_enter_def
    by (rule hoare_then [OF loose [OF block] hoare_if [OF
          hoare_bind [OF loose [OF keeps_handle_ops(1) [OF env]] renewal] loose [OF held]]])
qed

section \<open>What an acquisition returns\<close>

definition new_of :: "'s redis_lock \<Rightarrow> 's redis_lease \<Rightarrow> 's \<Rightarrow> bool" where
  "new_of self h s \<longleftrightarrow> of_lock self h \<and> hd_state (lease_data h s) = ACQUIRED"

lemma hoare_raise_any: "hoare b P (raise e) Q (\<lambda>_ _. True)"
  by (simp add: hoare_def act_simps)

lemma hoare_new_handle:
  assumes "heap_ok (dl_world self)"
  shows "hoare False (\<lambda>_. True) (new_handle self k w f options t) (new_of self) (\<lambda>_ _. True)"
  unfolding new_handle_def
  by (rule hoare_after)+
    (use assms in \<open>auto simp: hoare_def act_simps new_of_def heap_ok_def handle_init_def\<close>)

lemma hoare_acquire_pass:
  assumes heap: "heap_ok (dl_world self)"
  shows "hoare False (\<lambda>_. True) (acquire_pass self keys w ttl options deadline attempted)
     (\<lambda>r s. \<forall>h. r = Some (Some h) \<longrightarrow> new_of self h s) (\<lambda>_ _. True)"
proof -
  have some: "hoare False (\<lambda>_. True) m (new_of self) (\<lambda>_ _. True) \<Longrightarrow>
      hoare False (\<lambda>_. True) (act_bind m (\<lambda>h. return (Some (Some h))))
        (\<lambda>r s. \<forall>h. r = Some (Some h) \<longrightarrow> new_of self h s) (\<lambda>_ _. True)" for m
    by (rule hoare_bind, assumption) (simp add: hoare_def act_simps)
  have rec: "hoare False (\<lambda>_. True) (reconcile_acquire self k w options t) (new_of self) (\<lambda>_ _. True)" for k t
    unfolding reconcile_acquire_def
    by (rule hoare_after) (auto intro: hoare_new_handle [OF heap] hoare_raise_any split: call.split option.split)
  have wait: "hoare False (\<lambda>_. True) (act_bind (contended_wait self deadline)
      (\<lambda>finished. return (if finished then Some None else None)))
        (\<lambda>r s. \<forall>h. r = Some (Some h) \<longrightarrow> new_of self h s) (\<lambda>_ _. True)"
    by (rule hoare_after) (auto simp: hoare_def act_simps)
  show ?thesis
    unfolding acquire_pass_def
    by (rule hoare_after, rule hoare_if, simp add: hoare_def act_simps, rule hoare_after)
      (auto intro: some rec wait hoare_new_handle [OF heap] hoare_raise_any split: call.split option.split bool.split)
qed

lemma hoare_acquire_loop:
  assumes heap: "heap_ok (dl_world self)"
  shows "hoare False (\<lambda>_. True) (acquire_loop self keys w ttl options deadline attempted)
     (\<lambda>r s. \<forall>h. r = Some h \<longrightarrow> new_of self h s) (\<lambda>_ _. True)"
proof (rule hoare_partialI)
  fix s y
  assume "acquire_loop self keys w ttl options deadline attempted s = Some y"
  then show "case fst y of Inl _ \<Rightarrow> True | Inr r \<Rightarrow> \<forall>h. r = Some h \<longrightarrow> new_of self h (snd y)"
    using heap
  proof (induction rule: acquire_loop.raw_induct [rotated, consumes 1])
    case (1 f self keys w ttl options deadline attempted s y)
    have IH: "hoare False (\<lambda>_. True) (f self keys w ttl options deadline True)
        (\<lambda>r s. \<forall>h. r = Some h \<longrightarrow> new_of self h s) (\<lambda>_ _. True)"
      using 1(1,3) by (intro hoare_partialI) blast
    have "hoare False (\<lambda>s. \<forall>h. r = Some (Some h) \<longrightarrow> new_of self h s)
        (if Option.is_none r then f self keys w ttl options deadline True else return (the r))
        (\<lambda>r s. \<forall>h. r = Some h \<longrightarrow> new_of self h s) (\<lambda>_ _. True)" for r
      using hoare_pre [OF IH] by (cases r) (auto simp: hoare_def act_simps)
    from hoare_partialD [OF hoare_bind [OF hoare_acquire_pass [OF 1(3)] this] 1(2)] show ?case by simp
  qed
qed

lemma hoare_try_acquire:
  assumes heap: "heap_ok (dl_world self)"
  shows "hoare False (\<lambda>_. True) (try_acquire self name options) (\<lambda>r s. \<forall>h. r = Some h \<longrightarrow> new_of self h s) (\<lambda>_ _. True)"
  unfolding try_acquire_def
  by (rule hoare_after, rule hoare_after, rule hoare_after, rule hoare_after, rule hoare_after,
      rule hoare_acquire_loop [OF heap]) simp_all

section \<open>What the elector returns\<close>

text \<open>A result that reports the lease of \<open>h\<close>.\<close>

definition reports :: "fenced_leader_lease \<Rightarrow> ('v, fenced_leader_lease) leader_run_result \<Rightarrow> bool" where
  "reports l result \<longleftrightarrow>
     (case result of Skipped \<Rightarrow> False | Elected _ l' \<Rightarrow> l' = l | ActionFailed e l' \<Rightarrow> l' = l \<and> is_exception e)"

lemma hoare_elector_finish:
  assumes env: "release_env confirmed h"
  shows "hoare False (backed confirmed h) (elector_finish h oc)
    (\<lambda>r s. reports (rl_lease h) r \<and> closed_handle confirmed h s) (\<lambda>_ _. True)"
proof -
  have k: "hoare False (closed_handle confirmed h) (case oc of
        Inl action_error \<Rightarrow> lift (action_failed action_error (rl_lease h))
      | Inr x \<Rightarrow> return (Elected x (rl_lease h))) (\<lambda>r s. reports (rl_lease h) r \<and> closed_handle confirmed h s) (\<lambda>_ _. True)"
    by (cases oc) (auto simp: hoare_def act_simps reports_def action_failed_def)
  have e: "hoare False (\<lambda>_. True) (if is_leader_error e
            then (case oc of Inl action_error \<Rightarrow> raise (leader_execution_error action_error e) | Inr _ \<Rightarrow> raise e)
            else raise e) (\<lambda>r s. reports (rl_lease h) r \<and> closed_handle confirmed h s) (\<lambda>_ _. True)" for e
    by (cases oc) (auto simp: hoare_def act_simps)
  show ?thesis
    unfolding elector_finish_def by (rule hoare_try_else [OF hoare_exit_none [OF env] e k])
qed

lemma hoare_elected:
  assumes env: "release_env confirmed h" and action: "keeps False (backed confirmed h) (action (rl_lease h))"
  shows "hoare False (backed confirmed h)
    (act_then (lease_enter h) (try_else (action (rl_lease h))
           (\<lambda>e. if is_exception e then elector_finish h (Inl e) else act_then (lease_exit h (Some e)) (raise e))
           (\<lambda>x. elector_finish h (Inr x))))
    (\<lambda>r s. reports (rl_lease h) r \<and> closed_handle confirmed h s) (\<lambda>_ _. True)"
proof -
  have other: "hoare False (backed confirmed h) (act_then (lease_exit h (Some e)) (raise e)) Q (\<lambda>_ _. True)"
    for e and Q :: "('b, fenced_leader_lease) leader_run_result \<Rightarrow> _"
    unfolding act_then_def by (rule hoare_pre [OF hoare_after]) (simp_all add: hoare_def act_simps)
  show ?thesis
    by (rule hoare_then [OF hoare_enter [OF env] hoare_try_else [OF keeps_hoare [OF action]
          hoare_if [OF hoare_elector_finish [OF env] other] hoare_elector_finish [OF env]]])
qed

lemma new_of_env: "confirming lock confirmed \<Longrightarrow> new_of lock h s \<Longrightarrow> release_env confirmed h \<and> backed confirmed h s"
  by (auto simp: new_of_def release_env_def backed_def)

section \<open>The acquisition loop ends\<close>

text \<open>\<open>timed m\<close>: \<open>m\<close> ends and the clock does not go back. \<open>acquire_env\<close>: everything that the loop calls is
  so, and a sleep that returns has advanced the clock.\<close>

definition timed :: "('s \<Rightarrow> int) \<Rightarrow> ('s, leader_exn, 'a) act \<Rightarrow> bool" where
  "timed clk m \<longleftrightarrow> (\<forall>c. keeps True (\<lambda>s. c \<le> clk s) m)"

definition acquire_env :: "'s redis_lock \<Rightarrow> ('s \<Rightarrow> int) \<Rightarrow> bool" where
  "acquire_env self clk \<longleftrightarrow>
     (\<forall>s. \<exists>s'. dl_monotonic_ns self s = Some (Inr (clk s), s') \<and> clk s \<le> clk s')
     \<and> (\<forall>sc k a. timed clk (cm_evalsha (dl_commands self) sc k a) \<and> timed clk (cm_eval (dl_commands self) sc k a))
     \<and> timed clk (dl_jitter self) \<and> timed clk (dl_token_factory self) \<and> timed clk (wd_utcnow (dl_world self))
     \<and> (\<forall>r d s. clk (wd_put (dl_world self) r d s) = clk s)
     \<and> (\<forall>t s. \<exists>r s'. dl_sleep self t s = Some (r, s') \<and> clk s < clk s')"

lemma acquire_envD:
  assumes "acquire_env self clk"
  shows "\<exists>s'. dl_monotonic_ns self s = Some (Inr (clk s), s') \<and> clk s \<le> clk s'"
    "timed clk (cm_evalsha (dl_commands self) sc k a)" "timed clk (cm_eval (dl_commands self) sc k a)"
    "timed clk (dl_jitter self)" "timed clk (dl_token_factory self)" "timed clk (wd_utcnow (dl_world self))"
    "clk (wd_put (dl_world self) r d s) = clk s" "\<exists>r s'. dl_sleep self t s = Some (r, s') \<and> clk s < clk s'"
  using assms unfolding acquire_env_def by blast+

lemma timed_basic: "timed clk (return x)" "timed clk (raise e)" "timed clk (lift r)" "timed clk (gets f)"
  by (simp_all add: timed_def hoare_rules)

lemma timed_bind: "timed clk m \<Longrightarrow> (\<And>x. timed clk (g x)) \<Longrightarrow> timed clk (act_bind m g)"
  by (simp add: timed_def keeps_bind)

lemma timed_then: "timed clk m \<Longrightarrow> timed clk m' \<Longrightarrow> timed clk (act_then m m')"
  by (simp add: timed_def keeps_then)

lemma timed_try: "timed clk m \<Longrightarrow> (\<And>e. timed clk (h e)) \<Longrightarrow> (\<And>x. timed clk (k x)) \<Longrightarrow> timed clk (try_else m h k)"
  by (simp add: timed_def keeps_try_else)

lemma timed_except: "timed clk m \<Longrightarrow> (\<And>e. timed clk (h e)) \<Longrightarrow> timed clk (try_except m h)"
  by (simp add: timed_def keeps_try_except)

lemma timed_if: "(c \<Longrightarrow> timed clk m) \<Longrightarrow> (\<not> c \<Longrightarrow> timed clk m') \<Longrightarrow> timed clk (if c then m else m')"
  by simp

lemma timed_modify: "(\<And>s. clk (u s) = clk s) \<Longrightarrow> timed clk (modify u)"
  by (simp add: timed_def keeps_def hoare_def act_simps)

lemmas timed_rules = timed_basic timed_bind timed_then timed_try timed_except timed_if timed_modify

lemma timedD: "timed clk m \<Longrightarrow> \<exists>r s'. m s = Some (r, s') \<and> clk s \<le> clk s'"
  using keeps_ends [of "\<lambda>s'. clk s \<le> clk s'" m s] keepsD [of True "\<lambda>s'. clk s \<le> clk s'" m s]
  unfolding timed_def by blast

lemma timed_guarded: "timed clk m \<Longrightarrow> timed clk (guarded m)"
  unfolding guarded_def by (intro timed_rules)

lemma timed_run_script:
  "acquire_env self clk \<Longrightarrow> timed clk (run_script (dl_commands self) sc k a)"
  "acquire_env self clk \<Longrightarrow> timed clk (run_reconcile (dl_commands self) key)"
  unfolding run_script_def run_reconcile_def by (intro timed_rules acquire_envD; assumption)+

lemma timed_new_handle:
  assumes "acquire_env self clk"
  shows "timed clk (new_handle self k w f options t)"
  unfolding new_handle_def by (intro timed_rules acquire_envD [OF assms])

lemma timed_reconcile:
  assumes "acquire_env self clk"
  shows "timed clk (reconcile_acquire self k w options t)"
  unfolding reconcile_acquire_def
  by (intro timed_rules timed_guarded timed_run_script [OF assms])
    (auto split: call.split option.split intro!: timed_rules timed_new_handle [OF assms])

lemma timed_call_acquire:
  assumes "acquire_env self clk"
  shows "timed clk (call_acquire self keys w ttl)"
  unfolding call_acquire_def
  by (intro timed_guarded timed_rules) (auto split: prod.split intro!: timed_rules timed_run_script [OF assms])

lemma contended_wait_progress:
  assumes env: "acquire_env self clk"
  shows "\<exists>r s'. contended_wait self deadline s = Some (r, s')
    \<and> (r = Inr False \<longrightarrow> clk s < deadline \<and> clk s < clk s')"
proof -
  obtain s1 where s1: "dl_monotonic_ns self s = Some (Inr (clk s), s1)" "clk s \<le> clk s1"
    using acquire_envD(1) [OF env] by blast
  obtain r2 s2 where s2: "dl_jitter self s1 = Some (r2, s2)" "clk s1 \<le> clk s2"
    using timedD [OF acquire_envD(4) [OF env]] by blast
  show ?thesis
  proof (cases r2)
    case (Inl e)
    then show ?thesis using s1 s2 by (simp add: contended_wait_def act_simps)
  next
    case (Inr delay)
    show ?thesis
    proof (cases "jitter_delay delay")
      case (Inl e)
      then show ?thesis using s1 s2 Inr by (simp add: contended_wait_def act_simps)
    next
      case d: (Inr d)
      let ?t = "float_min d (round_double (of_int (deadline - clk s) / 1000000000))"
      obtain r3 s3 where "dl_sleep self ?t s2 = Some (r3, s3)" "clk s2 < clk s3"
        using acquire_envD(8) [OF env] by blast
      then show ?thesis
        using s1 s2 Inr d by (cases r3) (auto simp: contended_wait_def act_simps)
    qed
  qed
qed

lemma acquire_pass_progress:
  assumes env: "acquire_env self clk"
  shows "\<exists>r s'. acquire_pass self keys w ttl options deadline attempted s = Some (r, s')
    \<and> (r = Inr None \<longrightarrow> clk s < deadline \<and> clk s < clk s')"
proof -
  obtain s1 where s1: "dl_monotonic_ns self s = Some (Inr (clk s), s1)" "clk s \<le> clk s1"
    using acquire_envD(1) [OF env] by blast
  obtain r2 s2 where s2: "call_acquire self keys w ttl s1 = Some (r2, s2)" "clk s1 \<le> clk s2"
    using timedD [OF timed_call_acquire [OF env]] by blast
  have nh: "\<exists>r s'. act_bind m (\<lambda>h. return (Some (Some h))) s2 = Some (r, s') \<and> r \<noteq> Inr None"
    if "timed clk m" for m :: "('a, leader_exn, 'a redis_lease) act"
    using timedD [OF that, of s2] by (auto simp: act_simps split: sum.split)
  have ne: "ustr ''CONTENDED'' \<noteq> ustr ''ACQUIRED''" by (simp add: ustr_def)
  let ?wait = "act_bind (contended_wait self deadline) (\<lambda>finished. return (if finished then Some None else None))"
  have wait: "\<exists>r s'. ?wait s2 = Some (r, s') \<and> (r = Inr None \<longrightarrow> clk s < deadline \<and> clk s < clk s')"
  proof -
    obtain r3 s3 where "contended_wait self deadline s2 = Some (r3, s3)"
      "r3 = Inr False \<longrightarrow> clk s2 < deadline \<and> clk s2 < clk s3"
      using contended_wait_progress [OF env] by blast
    then show ?thesis using s1(2) s2(2) by (cases r3) (auto simp: act_simps)
  qed
  show ?thesis
  proof (cases "attempted \<and> clk s \<ge> deadline")
    case True
    then show ?thesis using s1 by (auto simp: acquire_pass_def act_simps)
  next
    case False
    show ?thesis
    proof (cases r2)
      case (Inl e)
      then show ?thesis using s1 s2 False by (simp add: acquire_pass_def act_simps)
    next
      case (Inr oc)
      show ?thesis
      proof (cases oc)
        case (Returned p)
        obtain st f where p: "p = (st, f)" by (cases p)
        show ?thesis
        proof (cases "st = ustr ''ACQUIRED'' \<and> f \<noteq> None")
          case True
          then obtain n where "f = Some n" by auto
          then show ?thesis
            using nh [OF timed_new_handle [OF env]] s1 s2 False Inr Returned p True
            by (simp add: acquire_pass_def act_bind_run) metis
        next
          case no: False
          show ?thesis
          proof (cases "st = ustr ''CONTENDED''")
            case True
            then have "acquire_pass self keys w ttl options deadline attempted s = ?wait s2"
              using s1 s2 False Inr Returned p
              by (cases f) (auto simp: acquire_pass_def act_bind_run ne)
            then show ?thesis using wait by simp
          next
            case False
            then show ?thesis
              using s1 s2 \<open>\<not> (attempted \<and> deadline \<le> clk s)\<close> Inr Returned p no
              by (cases f; cases "st = ustr ''ACQUIRED''") (auto simp: acquire_pass_def act_simps)
          qed
        qed
      next
        case Uncertain_outcome
        then show ?thesis
          using nh [OF timed_reconcile [OF env]] s1 s2 False Inr
          by (simp add: acquire_pass_def act_bind_run) metis
      next
        case Backend_failed
        then show ?thesis using s1 s2 False Inr by (simp add: acquire_pass_def act_simps)
      qed
    qed
  qed
qed

lemma acquire_loop_ends:
  assumes env: "acquire_env self clk"
  shows "acquire_loop self keys w ttl options deadline attempted s \<noteq> None"
proof (induction "nat (deadline - clk s)" arbitrary: s attempted rule: less_induct)
  case less
  obtain r s' where p: "acquire_pass self keys w ttl options deadline attempted s = Some (r, s')"
    "r = Inr None \<longrightarrow> clk s < deadline \<and> clk s < clk s'"
    using acquire_pass_progress [OF env] by blast
  then have "r = Inr None \<Longrightarrow> acquire_loop self keys w ttl options deadline True s' \<noteq> None"
    by (intro less) linarith
  then show ?case
    using p(1) by (subst acquire_loop.simps) (auto simp: act_simps Option.is_none_def split: sum.split)
qed

text \<open>Everything before the loop.\<close>

lemma try_acquire_ends_aux:
  assumes env: "acquire_env self clk"
  shows "try_acquire self name options s \<noteq> None"
proof -
  obtain r1 s1 where s1: "dl_token_factory self s = Some (r1, s1)" using timedD [OF acquire_envD(5) [OF env]] by blast
  obtain s2 where s2: "dl_monotonic_ns self s1 = Some (Inr (clk s1), s2)" using acquire_envD(1) [OF env] by blast
  show ?thesis
    using s1 s2 acquire_loop_ends [OF env]
    by (auto simp: try_acquire_def act_simps split: sum.split)
qed

section \<open>Properties\<close>

text \<open>C10: the states of a handle only move forward. In any interleaving of the lock blocks of the
  operations, of the scope and of the renewal thread, a handle that was lost or released is never
  acquired or entered again and does not change from lost to released or back; once its state is
  unknown it stays unknown, with the same recorded failure, which is always there to be raised again.\<close>

theorem handle_states_forward:
  assumes "handle_step\<^sup>*\<^sup>* handle_init d" and "handle_step\<^sup>*\<^sup>* d d'"
  shows "(hd_state d' = hd_state d \<and> hd_failure d' = hd_failure d \<or> state_rank (hd_state d) < state_rank (hd_state d'))
    \<and> (hd_state d = UNKNOWN \<longrightarrow> hd_state d' = UNKNOWN \<and> hd_failure d' = hd_failure d)
    \<and> (hd_state d' = UNKNOWN \<longrightarrow> raise_if_unknown d' \<in> {Inl LeaderBackendError, Inl LeaderReleaseError})"
proof -
  have "handle_ok handle_init" by (simp add: handle_ok_def handle_init_def)
  then have "handle_ok d'" using hs.run_inv assms by (meson rtranclp_trans)
  then have "hd_state d' = UNKNOWN \<longrightarrow> raise_if_unknown d' \<in> {Inl LeaderBackendError, Inl LeaderReleaseError}"
    by (auto simp: handle_ok_def raise_if_unknown_def)
  moreover have "state_rank (hd_state d') \<le> 3" by (cases "hd_state d'") simp_all
  ultimately show ?thesis using rank_stays [OF assms(2)] by auto
qed

theorem handle_states_forward_witness:
  "let d = snd (release_finish False LeaderBackendError (Returned (ustr ''DELETED'')) handle_init)
   in hd_state d = RELEASED \<and> hd_state (snd (enter_block d)) \<noteq> ENTERED"
proof -
  let ?d = "snd (release_finish False LeaderBackendError (Returned (ustr ''DELETED'')) handle_init)"
  let ?e = "snd (enter_block ?d)"
  have st: "hd_state ?d = RELEASED" by (simp add: block_defs handle_init_def)
  have "handle_step handle_init ?d"
    by (rule handle_step.release [of LeaderBackendError]) (simp, rule prod.collapse [symmetric])
  moreover have "handle_step ?d ?e" by (rule handle_step.enter) (rule prod.collapse [symmetric])
  ultimately have "hd_state ?e = hd_state ?d \<or> state_rank (hd_state ?d) < state_rank (hd_state ?e)"
    using handle_states_forward [of ?d ?e] by blast
  then show ?thesis using st by (auto simp: Let_def)
qed

text \<open>C8: a result of the elector is proven. If \<open>run_if_leader_result\<close> returns \<open>Elected\<close> or
  \<open>ActionFailed\<close>, it reports the lease of the handle \<open>h\<close> that its own \<open>try_acquire\<close> returned, the state of
  \<open>h\<close> is \<open>RELEASED\<close>, and Redis has confirmed the release of the very key and record of \<open>h\<close>, with
  \<open>DELETED\<close> or \<open>MIN_TTL_APPLIED\<close>: the lease was still the caller's own when the scope was left. It returns
  \<open>Skipped\<close> only if nothing was acquired; in all other cases it raises. Nothing is assumed of what Redis
  replies, of the action's result and of when calls fail. \<open>confirmed\<close> is the history of Redis's
  confirmations; what runs inside foreign calls, other threads and the action among them, moves a handle
  to \<open>RELEASED\<close> only with a confirmation too.\<close>

theorem elector_result_proven:
  assumes "confirming lock confirmed"
    and "\<And>h. of_lock lock h \<Longrightarrow> keeps False (backed confirmed h) (action (rl_lease h))"
    and "run_if_leader_result lock name action options s = Some (Inr r, s')"
  shows "\<exists>acquired s1. try_acquire lock name options s = Some (Inr acquired, s1)
    \<and> (case acquired of
         None \<Rightarrow> r = Skipped \<and> s' = s1
       | Some h \<Rightarrow> reports (rl_lease h) r \<and> hd_state (lease_data h s') = RELEASED
           \<and> (rl_lease_key h, record_to_bytes (rl_record h)) \<in> confirmed s')"
proof -
  obtain acquired s1 where first: "try_acquire lock name options s = Some (Inr acquired, s1)"
    and rest: "(case acquired of None \<Rightarrow> return Skipped | Some h \<Rightarrow>
      act_then (lease_enter h) (try_else (action (rl_lease h))
           (\<lambda>e. if is_exception e then elector_finish h (Inl e) else act_then (lease_exit h (Some e)) (raise e))
           (\<lambda>x. elector_finish h (Inr x)))) s1 = Some (Inr r, s')"
    using assms(3) unfolding run_if_leader_result_def act_bind_run
    by (auto split: option.split_asm sum.split_asm)
  have new: "\<forall>h. acquired = Some h \<longrightarrow> new_of lock h s1"
    using hoare_returnD [OF hoare_try_acquire [OF confirmingD(1) [OF assms(1)]] TrueI first] .
  show ?thesis
  proof (cases acquired)
    case None
    then show ?thesis using first rest by (simp add: act_simps)
  next
    case (Some h)
    with new have h: "release_env confirmed h" "backed confirmed h s1" "of_lock lock h"
      using new_of_env [OF assms(1)] by (auto simp: new_of_def)
    have "reports (rl_lease h) r \<and> closed_handle confirmed h s'"
      by (rule hoare_returnD [OF hoare_elected [where action = action, OF h(1) assms(2) [OF h(3)]] h(2)])
        (use rest Some in simp)
    then show ?thesis using first Some by (simp add: backed_def)
  qed
qed

text \<open>The arithmetic of the minimum lease time. The milliseconds for which a release asks Redis to keep
  the lease are 0 exactly when the minimum time has passed; otherwise they cover the rest of it, rounded up
  by less than a millisecond, and a release of the abstract lock with them leaves it with the holder.\<close>

theorem release_keeps_minimum:
  "(remaining_ms m e = 0 \<longleftrightarrow> m \<le> e) \<and> 0 \<le> remaining_ms m e
   \<and> (e < m \<longrightarrow> m \<le> e + remaining_ms m e * 1000000 \<and> e + (remaining_ms m e - 1) * 1000000 < m
        \<and> (abs_holds w f a \<longrightarrow>
             la_holder (snd (abs_release w f (remaining_ms m e) a)) = Some (w, f, remaining_ms m e)))"
proof (cases "m \<le> e")
  case True
  then show ?thesis by (simp add: remaining_ms_def)
next
  case False
  define n where "n = m - e"
  have n: "0 < n" "remaining_ms m e = (n + 999999) div 1000000"
    using False by (simp_all add: remaining_ms_def n_def)
  define r where "r = (n + 999999) mod 1000000"
  define q where "q = remaining_ms m e * 1000000"
  have "n + 999999 = q + r" "0 \<le> r" "r < 1000000"
    by (simp_all add: n(2) r_def q_def)
  then have q: "n \<le> q" "q - 1000000 < n" "0 < q" using n(1) by - linarith+
  have "0 < remaining_ms m e" using q(3) by (simp add: q_def zero_less_mult_iff)
  moreover have "m \<le> e + remaining_ms m e * 1000000" "e + (remaining_ms m e - 1) * 1000000 < m"
    using q(1,2) by (simp_all add: n_def q_def left_diff_distrib)
  ultimately show ?thesis using False by (simp add: abs_release_def)
qed

theorem release_keeps_minimum_witness:
  "5000000 \<le> 1200000 + remaining_ms 5000000 1200000 * 1000000 \<and> remaining_ms 5000000 1200000 = 4"
  using release_keeps_minimum [of 5000000 1200000 "[]" 0 "\<lparr>la_last = 0, la_holder = None\<rparr>"]
  by (simp add: remaining_ms_def)

text \<open>C20: an acquisition always comes to an end. If everything it calls ends, the clock does not go back
  and a sleep advances it, \<open>try_acquire\<close> returns or raises, however long the lock is contended.\<close>

theorem try_acquire_ends:
  assumes "acquire_env self clk"
  shows "\<exists>r s'. try_acquire self name options s = Some (r, s')"
  using try_acquire_ends_aux [OF assms] by auto

end
