(* ===== verification/Redis_Acquire.thy ===== *)
theory Redis_Acquire
  imports Redis_Lock
begin

text \<open>An acquisition end to end (\<open>_lock.py\<close>, \<open>_scripts.py\<close> and the abstract lock together), and a
  concrete program: a state that holds a key space with its script cache, the handles and a clock, in which
  an acquisition, a scope and an election run to the end. The theorems of the lock are applied there.\<close>

section \<open>An acquisition, end to end\<close>

lemma redis_keys_distinct:
  assumes "redis_keys_of sha name prefix = Inr keys"
  shows "distinct [rk_lease keys, rk_fence keys, rk_history keys]"
    "[] \<notin> {rk_lease keys, rk_fence keys, rk_history keys}"
proof -
  obtain t where "keys = \<lparr>rk_lease = t @ ustr '':lease'', rk_fence = t @ ustr '':fence'', rk_history = t @ ustr '':history''\<rparr>"
    using assms by (cases name) (auto simp: redis_keys_of_def Let_def split: if_splits option.splits)
  then show "distinct [rk_lease keys, rk_fence keys, rk_history keys]"
    "[] \<notin> {rk_lease keys, rk_fence keys, rk_history keys}"
    by (simp_all add: ustr_def)
qed

text \<open>What the acquisition calls besides Redis: it returns, and leaves the server alone.\<close>

definition calm :: "'s redis_lock \<Rightarrow> ('s \<Rightarrow> 'r) \<Rightarrow> timedelta \<Rightarrow> pystr \<Rightarrow> bool" where
  "calm self srv lease_time w \<longleftrightarrow>
     (\<forall>s. \<exists>t s'. dl_monotonic_ns self s = Some (Inr t, s') \<and> srv s' = srv s)
     \<and> (\<forall>s. \<exists>s'. dl_token_factory self s = Some (Inr w, s') \<and> srv s' = srv s)
     \<and> (\<forall>s. \<exists>t s'. wd_utcnow (dl_world self) s = Some (Inr t, s') \<and> srv s' = srv s
          \<and> t + td_us lease_time \<le> 253402300799999999)
     \<and> (\<forall>r d s. srv (wd_put (dl_world self) r d s) = srv s)"

lemma new_handle_run:
  assumes calm: "calm self srv (lo_lease_time options) w" and heap: "heap_ok (dl_world self)"
    and w: "is_owner_token w" and f: "0 < f" "f \<le> max_redis_integer"
  shows "\<exists>h s'. new_handle self k w f options t s = Some (Inr h, s') \<and> srv s' = srv s
    \<and> rl_record h = \<lparr>lr_owner_token = w, lr_fencing_token = f\<rparr> \<and> fll_fencing_token (rl_lease h) = f
    \<and> rl_lease_key h = k \<and> hd_state (lease_data h s') = ACQUIRED"
proof -
  obtain u s1 where u: "wd_utcnow (dl_world self) s = Some (Inr u, s1)" "srv s1 = srv s"
    "u + td_us (lo_lease_time options) \<le> 253402300799999999"
    using calm unfolding calm_def by blast
  have put: "srv (wd_put (dl_world self) r d s) = srv s" "wd_get (dl_world self) r (wd_put (dl_world self) r d s) = d" for r d s
    using calm heap by (simp_all add: calm_def heap_ok_def)
  have node: "optional require_exact_str (case lo_node_id options of None \<Rightarrow> ONone | Some n \<Rightarrow> OStr n) ''node_id''
      = Inr (lo_node_id options)"
    by (cases "lo_node_id options") (simp_all add: optional_def require_exact_str_def)
  have "\<exists>l. fenced_leader_lease_new (OStr (dec f)) (case lo_node_id options of None \<Rightarrow> ONone | Some n \<Rightarrow> OStr n)
         (ODatetime \<lparr>dt_us = u, dt_tz = Timezone 0\<rparr>)
         (ODatetime \<lparr>dt_us = u + td_us (lo_lease_time options), dt_tz = Timezone 0\<rparr>) (OInt f) = Inr l
      \<and> fll_fencing_token l = f"
    using f(1) node
    by (simp add: fenced_leader_lease_new_def leader_lease_new_def require_exact_str_def
        require_optional_utc_datetime_def leader_lease.defs fenced_leader_lease.defs)
  then show ?thesis
    using u put w f
    by (auto simp: new_handle_def act_simps dt_add_def lease_record_new_def handle_init_def)
qed

lemma call_acquire_run:
  assumes serving: "serving (dl_commands self) R srv put" and laws: "redis_laws R rv"
    and keys: "redis_keys_of sha name prefix = Inr keys"
    and v: "lock_view (rk_lease keys) (rk_fence keys) (rk_history keys) a (rv (srv s))"
    and free: "la_holder a = None" "la_last a < max_redis_integer"
    and w: "is_owner_token w" "0 < n" "n \<le> max_redis_integer"
  shows "\<exists>r s'. call_acquire self keys w n s = Some (Inr r, s')
    \<and> (r = Returned (ustr ''ACQUIRED'', Some (la_last a + 1))
         \<and> lock_view (rk_lease keys) (rk_fence keys) (rk_history keys) (snd (abs_acquire w n a)) (rv (srv s'))
       \<or> r = Backend_failed \<and> \<not> accepts_ttl R rv n
         \<and> lock_view (rk_lease keys) (rk_fence keys) (rk_history keys) (a\<lparr>la_last := la_last a + 1\<rparr>) (rv (srv s')))"
proof -
  let ?k1 = "rk_lease keys" and ?k2 = "rk_fence keys" and ?k3 = "rk_history keys" and ?x = "abs_acquire w n a"
  note d = redis_keys_distinct [OF keys]
  let ?failed = "if accepts_ttl R rv n then no_lock else a\<lparr>la_last := la_last a + 1\<rparr>"
  have sim: "simulates rv ?k1 ?k2 ?k3 (server_eval R AcquireScript [?k1, ?k2, ?k3] [w, dec n]) (srv s) ?x ?failed"
    using acquire_runs [OF laws v d(1) w(1,2), of no_lock] free(1) by (simp add: server_eval_def)
  have disp: "validate_dispatch AcquireScript [?k1, ?k2, ?k3] [w, dec n] = Inr ()"
    using d(2) by (intro dispatch_acquire w) auto
  have args: "validated_script_args w n = Inr (w, dec n)"
    using w by (simp add: validated_script_args_def max_redis_integer_def)
  have x: "fst ?x = [ustr ''ACQUIRED'', dec (la_last a + 1)]" using free by (simp add: abs_acquire_def)
  have last: "0 \<le> la_last a + 1" using lock_viewD(3) [OF v] by simp
  let ?act = "act_bind (run_script (dl_commands self) AcquireScript [?k1, ?k2, ?k3] [w, dec n])
      (\<lambda>raw. lift (parse_acquire_response raw))"
  have run: "run_script (dl_commands self) AcquireScript [?k1, ?k2, ?k3] [w, dec n] s
      = on_server srv put (server_eval R AcquireScript [?k1, ?k2, ?k3] [w, dec n]) s"
    by (rule run_script_serving [OF serving disp])
  have parse: "parse_acquire_response (RParts (map PBytes (fst ?x))) = Inr (ustr ''ACQUIRED'', Some (la_last a + 1))"
    using parse_acquire_abs [OF lock_viewD(3,4) [OF v], of w n] last by (simp add: x acquire_status_def)
  have srv: "srv (put t s) = t" for t s using serving by (simp add: serving_def)
  obtain r t where r: "server_eval R AcquireScript [?k1, ?k2, ?k3] [w, dec n] (srv s) = Some (r, t)"
    "case r of Inr y \<Rightarrow> y = fst ?x \<and> lock_view ?k1 ?k2 ?k3 (snd ?x) (rv t)
     | Inl _ \<Rightarrow> lock_view ?k1 ?k2 ?k3 ?failed (rv t)"
    using sim unfolding simulates_def by blast
  show ?thesis
  proof (cases r)
    case (Inl e)
    then have "\<not> accepts_ttl R rv n" "lock_view ?k1 ?k2 ?k3 (a\<lparr>la_last := la_last a + 1\<rparr>) (rv t)"
      using r(2) by (simp_all add: no_lock_view split: if_splits)
    then show ?thesis
      using r(1) Inl srv by (simp add: call_acquire_def guarded_def act_simps args run on_server_def)
  next
    case (Inr bs)
    then show ?thesis
      using r srv parse by (simp add: call_acquire_def guarded_def act_simps args run on_server_def)
  qed
qed

text \<open>C23: acquisition end to end. Against a server that runs the scripts and a free lock with a fence
  left, \<open>try_acquire\<close> returns a handle, at the first attempt, if Redis accepts the lease time as a time to
  live: the handle carries the next fence, in the lease observation as well as in the record it will
  present to Redis, it is in its initial state, and the server has the caller's token as the holder for
  the whole lease time. If Redis does not accept it the outcome is \<open>LeaderBackendError\<close>; then a fence has
  been used up and nobody holds the lock.\<close>

theorem acquire_end_to_end:
  assumes "serving (dl_commands self) R srv put" "redis_laws R rv" "heap_ok (dl_world self)"
    and "validated_redis_options options (dl_timing self) = Inr opts"
    and "redis_keys_of (dl_sha256 self) name (OStr (dl_prefix self)) = Inr keys"
    and "duration_milliseconds (OTimedelta (lo_lease_time opts)) = Inr n" "n \<le> max_redis_integer"
    and "calm self srv (lo_lease_time opts) w" "is_owner_token w"
    and "lock_view (rk_lease keys) (rk_fence keys) (rk_history keys) a (rv (srv s))"
    and "la_holder a = None" "la_last a < max_redis_integer"
  shows "\<exists>r s'. try_acquire self name options s = Some (r, s')
    \<and> (case r of
         Inr (Some h) \<Rightarrow>
           rl_record h = \<lparr>lr_owner_token = w, lr_fencing_token = la_last a + 1\<rparr>
           \<and> fll_fencing_token (rl_lease h) = la_last a + 1 \<and> rl_lease_key h = rk_lease keys
           \<and> hd_state (lease_data h s') = ACQUIRED
           \<and> lock_view (rk_lease keys) (rk_fence keys) (rk_history keys)
               \<lparr>la_last = la_last a + 1, la_holder = Some (w, la_last a + 1, n)\<rparr> (rv (srv s'))
       | Inr None \<Rightarrow> False
       | Inl e \<Rightarrow> e = LeaderBackendError \<and> \<not> accepts_ttl R rv n
           \<and> lock_view (rk_lease keys) (rk_fence keys) (rk_history keys) (a\<lparr>la_last := la_last a + 1\<rparr>) (rv (srv s')))"
proof -
  have n: "0 < n" using assms(6) by (auto simp: duration_milliseconds_def Let_def split: if_splits)
  have env: "\<exists>t s'. dl_monotonic_ns self s = Some (Inr t, s') \<and> srv s' = srv s"
    "\<exists>s'. dl_token_factory self s = Some (Inr w, s') \<and> srv s' = srv s" for s
    using assms(8) unfolding calm_def by blast+
  obtain s1 where s1: "dl_token_factory self s = Some (Inr w, s1)" "srv s1 = srv s" using env(2) by blast
  obtain t2 s2 where s2: "dl_monotonic_ns self s1 = Some (Inr t2, s2)" "srv s2 = srv s1" using env(1) by blast
  obtain t3 s3 where s3: "dl_monotonic_ns self s2 = Some (Inr t3, s3)" "srv s3 = srv s2" using env(1) by blast
  let ?dl = "t2 + duration_nanoseconds (lo_wait_time opts)"
  let ?loop = "acquire_loop self keys w n opts ?dl False"
  have start: "try_acquire self name options s = ?loop s2"
    using s1 s2 assms(4-6) by (simp add: try_acquire_def act_simps)
  have v: "lock_view (rk_lease keys) (rk_fence keys) (rk_history keys) a (rv (srv s3))"
    using assms(10) s1 s2 s3 by simp
  obtain r s4 where r: "call_acquire self keys w n s3 = Some (Inr r, s4)"
    and alt: "r = Returned (ustr ''ACQUIRED'', Some (la_last a + 1))
         \<and> lock_view (rk_lease keys) (rk_fence keys) (rk_history keys) (snd (abs_acquire w n a)) (rv (srv s4))
       \<or> r = Backend_failed \<and> \<not> accepts_ttl R rv n
         \<and> lock_view (rk_lease keys) (rk_fence keys) (rk_history keys) (a\<lparr>la_last := la_last a + 1\<rparr>) (rv (srv s4))"
    using call_acquire_run [OF assms(1,2,5) v assms(11,12,9) n assms(7)] by blast
  from alt show ?thesis
  proof (elim disjE conjE)
    assume fail: "r = Backend_failed" "\<not> accepts_ttl R rv n"
      "lock_view (rk_lease keys) (rk_fence keys) (rk_history keys) (a\<lparr>la_last := la_last a + 1\<rparr>) (rv (srv s4))"
    have "?loop s2 = Some (Inl LeaderBackendError, s4)"
      using s3 r fail(1) by (subst acquire_loop.simps) (simp add: acquire_pass_def act_simps)
    then show ?thesis using start fail(2,3) by simp
  next
    assume ok: "r = Returned (ustr ''ACQUIRED'', Some (la_last a + 1))"
      "lock_view (rk_lease keys) (rk_fence keys) (rk_history keys) (snd (abs_acquire w n a)) (rv (srv s4))"
    obtain h s5 where h: "new_handle self (rk_lease keys) w (la_last a + 1) opts t3 s4 = Some (Inr h, s5)" "srv s5 = srv s4"
      "rl_record h = \<lparr>lr_owner_token = w, lr_fencing_token = la_last a + 1\<rparr>" "fll_fencing_token (rl_lease h) = la_last a + 1"
      "rl_lease_key h = rk_lease keys" "hd_state (lease_data h s5) = ACQUIRED"
      using new_handle_run [OF assms(8,3,9), of "la_last a + 1"] assms(12) lock_viewD(3) [OF v] by force
    have "?loop s2 = Some (Inr (Some h), s5)"
      using s3 r ok(1) h(1) by (subst acquire_loop.simps) (simp add: acquire_pass_def act_simps)
    moreover have "snd (abs_acquire w n a) = \<lparr>la_last = la_last a + 1, la_holder = Some (w, la_last a + 1, n)\<rparr>"
      using assms(11,12) by (simp add: abs_acquire_def)
    ultimately show ?thesis using start ok(2) h by simp
  qed
qed

section \<open>A concrete program\<close>

text \<open>A server with a history: the leases that were deleted or given another time to live, as pairs of
  their key and value.\<close>

type_synonym logged = "rview \<times> (pybytes \<times> pybytes) list"

definition on_view :: "(rview, leader_exn, 'a) act \<Rightarrow> (logged, leader_exn, 'a) act" where
  "on_view m = (\<lambda>(v, l). case m v of None \<Rightarrow> None | Some (r, v') \<Rightarrow> Some (r, (v', l)))"

definition noting :: "pybytes \<Rightarrow> (rview, leader_exn, 'a) act \<Rightarrow> (logged, leader_exn, 'a) act" where
  "noting k m = (\<lambda>(v, l). case m v of None \<Rightarrow> None
     | Some (r, v') \<Rightarrow> Some (r, (v', case v k of Some (RStr x, _) \<Rightarrow> (k, x) # l | _ \<Rightarrow> l)))"

definition logged_redis :: "logged redis" where
  "logged_redis = \<lparr>
     rd_type = (\<lambda>k. on_view (rd_type kv_redis k)), rd_pttl = (\<lambda>k. on_view (rd_pttl kv_redis k)),
     rd_get = (\<lambda>k. on_view (rd_get kv_redis k)), rd_set = (\<lambda>k x. on_view (rd_set kv_redis k x)),
     rd_set_px = (\<lambda>k x t. on_view (rd_set_px kv_redis k x t)), rd_incr = (\<lambda>k. on_view (rd_incr kv_redis k)),
     rd_pexpire = (\<lambda>k t. noting k (rd_pexpire kv_redis k t)), rd_del = (\<lambda>k. noting k (rd_del kv_redis k))\<rparr>"

lemma logged_laws: "redis_laws logged_redis fst"
  unfolding redis_laws_def logged_redis_def on_view_def noting_def kv_redis_def returns_def returns_or_fails_def
  by (auto split: option.split prod.split)

lemma logged_accepts: "0 < n \<Longrightarrow> accepts_ttl logged_redis fst n"
  unfolding accepts_ttl_def logged_redis_def on_view_def noting_def kv_redis_def returns_def
  by (auto split: option.split prod.split)

text \<open>The state holds the server with its script cache, a heap of handles and a clock in nanoseconds.\<close>

record demo =
  dm_server :: "logged \<times> script set"
  dm_heap :: "nat \<Rightarrow> handle_data"
  dm_next :: nat
  dm_clock :: int

definition demo_world :: "demo world" where
  "demo_world = \<lparr>wd_get = (\<lambda>r s. dm_heap s r),
     wd_put = (\<lambda>r d s. s\<lparr>dm_heap := (dm_heap s)(r := d), dm_next := max (dm_next s) (Suc r)\<rparr>),
     wd_fresh = dm_next, wd_thread = return 0, wd_start = (\<lambda>_. return ()), wd_is_alive = (\<lambda>_. return False),
     wd_join = (\<lambda>_ _. return ()), wd_ready_wait = (\<lambda>_ _. return True), wd_stop_wait = (\<lambda>_ _. return True),
     wd_utcnow = return 0\<rparr>"

definition lift_server :: "(logged \<times> script set, leader_exn, 'a) act \<Rightarrow> (demo, leader_exn, 'a) act" where
  "lift_server m = (\<lambda>s. case m (dm_server s) of None \<Rightarrow> None | Some (r, v) \<Rightarrow> Some (r, s\<lparr>dm_server := v\<rparr>))"

definition demo_lock :: "demo redis_lock" where
  "demo_lock = \<lparr>dl_commands = \<lparr>cm_evalsha = (\<lambda>sc k a. lift_server (cm_evalsha (server_commands logged_redis) sc k a)),
                              cm_eval = (\<lambda>sc k a. lift_server (cm_eval (server_commands logged_redis) sc k a))\<rparr>,
     dl_prefix = ustr ''p'',
     dl_timing = \<lparr>tg_handshake_round_trips = 0, tg_connect = Finite 1, tg_command = Finite 1, tg_script = Finite 1,
        tg_acquire = Finite 1, tg_probe = Finite 1, tg_renew = Finite 1, tg_release = Finite 1\<rparr>,
     dl_monotonic_ns = gets dm_clock, dl_sleep = (\<lambda>_. modify (\<lambda>s. s\<lparr>dm_clock := dm_clock s + 1\<rparr>)),
     dl_jitter = return (OFloat (round_double (5 / 100))), dl_token_factory = return (replicate 32 65),
     dl_sha256 = (\<lambda>_. ustr ''0''), dl_world = demo_world\<rparr>"

definition demo_options :: leader_options where
  "demo_options = \<lparr>lo_wait_time = timedelta_of_us 0, lo_lease_time = timedelta_of_us 2000, lo_node_id = None,
     lo_min_lease_time = timedelta_of_us 0, lo_auto_renew = False, lo_renew_interval = None\<rparr>"

definition demo_start :: demo where
  "demo_start = \<lparr>dm_server = ((Map.empty, []), {}), dm_heap = (\<lambda>_. handle_init), dm_next = 0, dm_clock = 0\<rparr>"

lemma demo_heap_ok: "heap_ok (dl_world demo_lock)"
  by (simp add: heap_ok_def demo_lock_def demo_world_def)

lemma logged_total:
  "keeps True (\<lambda>_. True) (rd_type logged_redis k)" "keeps True (\<lambda>_. True) (rd_pttl logged_redis k)"
  "keeps True (\<lambda>_. True) (rd_get logged_redis k)" "keeps True (\<lambda>_. True) (rd_set logged_redis k x)"
  "keeps True (\<lambda>_. True) (rd_set_px logged_redis k x t)" "keeps True (\<lambda>_. True) (rd_incr logged_redis k)"
  "keeps True (\<lambda>_. True) (rd_pexpire logged_redis k t)" "keeps True (\<lambda>_. True) (rd_del logged_redis k)"
  by (rule keepsI; auto simp: logged_redis_def on_view_def noting_def kv_redis_def
      split: option.splits prod.splits rvalue.splits)+

lemma lua_string_total: "keeps True (\<lambda>_. True) (lua_string v)"
  unfolding lua_string_def by (intro hoare_rules)

lemmas total_rules = hoare_rules logged_total lua_string_total

lemma read_lease_total:
  "(\<And>c. keeps True (\<lambda>_. True) (go c)) \<Longrightarrow> keeps True (\<lambda>_. True) (read_lease logged_redis k absent go)"
  unfolding read_lease_def reply_def by (intro total_rules)

lemma acquire_script_total: "keeps True (\<lambda>_. True) (acquire_script logged_redis k1 k2 k3 w t)"
  unfolding acquire_script_def acquire_history_def acquire_previous_def acquire_contended_def acquire_take_def reply_def
  by (intro total_rules) (auto split: option.split prod.split intro!: total_rules)

lemma server_total: "keeps True (\<lambda>_. True) (server_eval logged_redis sc k a)"
  unfolding server_eval_def renew_script_def probe_script_def reconcile_script_def release_script_def reply_def
  by (cases sc) (auto intro!: total_rules read_lease_total acquire_script_total)

lemma demo_commands_timed:
  "timed dm_clock (cm_eval (dl_commands demo_lock) sc k a)" "timed dm_clock (cm_evalsha (dl_commands demo_lock) sc k a)"
proof -
  have "\<exists>r v'. cm_eval (server_commands logged_redis) sc k a v = Some (r, v')" for v
  proof -
    obtain r v' where "server_eval logged_redis sc k a (fst v) = Some (r, v')"
      using keeps_ends [OF server_total, where s = "fst v"] by blast
    then show ?thesis by (cases r) (simp_all add: server_commands_def on_server_def)
  qed
  moreover from this have "\<exists>r v'. cm_evalsha (server_commands logged_redis) sc k a v = Some (r, v')" for v
    by (cases v) (simp add: server_commands_def)
  moreover have "timed dm_clock (lift_server m)" if tot: "\<And>v. \<exists>r v'. m v = Some (r, v')"
    for m :: "(logged \<times> script set, leader_exn, rreply) act"
    unfolding timed_def
  proof (intro allI keepsI)
    fix c and s :: demo
    obtain r v' where "m (dm_server s) = Some (r, v')" using tot by blast
    then show "c \<le> dm_clock s \<Longrightarrow> lift_server m s = None \<Longrightarrow> \<not> True"
      "c \<le> dm_clock s \<Longrightarrow> lift_server m s = Some (q, s') \<Longrightarrow> c \<le> dm_clock s'" for q s'
      by (auto simp: lift_server_def)
  qed
  ultimately show "timed dm_clock (cm_eval (dl_commands demo_lock) sc k a)"
    "timed dm_clock (cm_evalsha (dl_commands demo_lock) sc k a)"
    by (simp_all add: demo_lock_def)
qed

lemma demo_env: "acquire_env demo_lock dm_clock"
  unfolding acquire_env_def using demo_commands_timed
  by (auto simp: demo_world_def act_simps timed_basic demo_lock_def)

theorem try_acquire_ends_witness:
  "\<exists>r s'. try_acquire demo_lock (OStr (ustr ''job'')) demo_options demo_start = Some (r, s')"
  by (rule try_acquire_ends [OF demo_env])

definition demo_key :: "string \<Rightarrow> pystr" where
  "demo_key suffix = ustr (''p:{0}:'' @ suffix)"

lemma demo_keys:
  "redis_keys_of (dl_sha256 demo_lock) (OStr (ustr ''job'')) (OStr (dl_prefix demo_lock)) =
     Inr \<lparr>rk_lease = demo_key ''lease'', rk_fence = demo_key ''fence'', rk_history = demo_key ''history''\<rparr>"
  by (simp add: redis_keys_of_def demo_lock_def validated_prefix_def ustr_def prefix_char_def owner_char_def
      is_digit_def strip_def is_space_def utf8_length_def demo_key_def Let_def)

lemma demo_key_simps [simp]:
  "demo_key ''lease'' \<noteq> demo_key ''fence''" "demo_key ''lease'' \<noteq> demo_key ''history''"
  "demo_key ''fence'' \<noteq> demo_key ''history''" "demo_key ''fence'' \<noteq> demo_key ''lease''"
  "demo_key ''history'' \<noteq> demo_key ''lease''" "demo_key ''history'' \<noteq> demo_key ''fence''"
  "demo_key k \<noteq> []" "[] \<noteq> demo_key k"
  by (simp_all add: demo_key_def ustr_def)

abbreviation "demo_owner \<equiv> replicate 32 (65::nat)"

lemma demo_owner: "is_owner_token demo_owner"
  by (simp add: is_owner_token_def owner_char_def list_all_iff)

lemma demo_serving: "serving (dl_commands demo_lock) logged_redis (\<lambda>s. fst (dm_server s))
    (\<lambda>v s. s\<lparr>dm_server := (v, snd (dm_server s))\<rparr>)"
  by (auto simp: serving_def demo_lock_def lift_server_def server_commands_def on_server_def Let_def
      split: option.split sum.split)

abbreviation "demo_rec \<equiv> \<lparr>lr_owner_token = demo_owner, lr_fencing_token = 1\<rparr>"

abbreviation "demo_redis_keys \<equiv>
  \<lparr>rk_lease = demo_key ''lease'', rk_fence = demo_key ''fence'', rk_history = demo_key ''history''\<rparr>"

lemma demo_rec_ok: "lease_record_ok demo_rec"
  using demo_owner by (simp add: lease_record_ok_def max_redis_integer_def)

definition demo_view :: logged where
  "demo_view = ([demo_key ''history'' \<mapsto> (RStr (ustr ''v1''), None), demo_key ''fence'' \<mapsto> (RStr (dec 1), None),
     demo_key ''lease'' \<mapsto> (RStr (record_to_bytes demo_rec), Some 2)], [])"

lemma demo_acquire_script:
  "acquire_script logged_redis (demo_key ''lease'') (demo_key ''fence'') (demo_key ''history'') demo_owner (dec 2) (Map.empty, [])
     = Some (Inr [ustr ''ACQUIRED'', dec 1], demo_view)"
proof -
  have "acquire_script logged_redis (demo_key ''lease'') (demo_key ''fence'') (demo_key ''history'') demo_owner (dec 2) (Map.empty, [])
      = acquire_take logged_redis (demo_key ''lease'') (demo_key ''fence'') (demo_key ''history'') (ustr ''none'') None
          demo_owner (dec 2) (Map.empty, [])"
    using acquire_script_run [where rv = fst and s = "(Map.empty, [])", OF logged_laws
        lock_view_empty [of "fst (Map.empty, [])" "demo_key ''lease''" "demo_key ''fence''" "demo_key ''history''"]] by simp
  moreover have "valid_fence (dec 1)" by (simp add: valid_fence_iff max_redis_integer_def)
  ultimately show ?thesis
    by (simp add: acquire_take_def act_simps logged_redis_def on_view_def kv_redis_def lua_string_def demo_view_def
        record_to_bytes_def)
qed

lemma demo_lock_view:
  "lock_view (demo_key ''lease'') (demo_key ''fence'') (demo_key ''history'')
     \<lparr>la_last = 1, la_holder = Some (demo_owner, 1, 2)\<rparr> (fst demo_view)"
  using demo_owner by (simp add: lock_view_def demo_view_def abs_record_def max_redis_integer_def)

lemmas demo_dispatch = dispatch_acquire [OF demo_owner] dispatch_record [OF demo_rec_ok]

lemma demo_call:
  assumes "dm_server s = ((Map.empty, []), {})"
  shows "call_acquire demo_lock demo_redis_keys demo_owner 2 s =
    Some (Inr (Returned (ustr ''ACQUIRED'', Some 1)), s\<lparr>dm_server := (demo_view, {})\<rparr>)"
proof -
  have args: "validated_script_args demo_owner 2 = Inr (demo_owner, dec 2)"
    using demo_owner by (simp add: validated_script_args_def)
  have disp: "validate_dispatch AcquireScript [demo_key ''lease'', demo_key ''fence'', demo_key ''history''] [demo_owner, dec 2] = Inr ()"
    by (rule demo_dispatch) (simp_all add: max_redis_integer_def)
  have "canonical_positive_decimal (dec 1)" by (simp add: max_redis_integer_def)
  then have p: "parse_acquire_response (RParts (map PBytes [ustr ''ACQUIRED'', dec 1])) = Inr (ustr ''ACQUIRED'', Some 1)"
    by (simp add: parse_acquire_response_def response_parts_def)
  show ?thesis
    using p by (simp add: call_acquire_def guarded_def act_simps args run_script_serving [OF demo_serving disp] on_server_def
        server_eval_def demo_acquire_script assms)
qed

definition demo_handle :: "demo redis_lease" where
  "demo_handle = \<lparr>rl_commands = dl_commands demo_lock,
     rl_lease = \<lparr>ll_audit_leader_id = dec 1, ll_node_id = None, ll_elected_at = Some \<lparr>dt_us = 0, dt_tz = Timezone 0\<rparr>,
        ll_lease_until = Some \<lparr>dt_us = 2000, dt_tz = Timezone 0\<rparr>, fll_fencing_token = 1\<rparr>,
     rl_lease_key = demo_key ''lease'', rl_record = demo_rec, rl_options = demo_options,
     rl_monotonic_ns = gets dm_clock, rl_acquired_ns = 0, rl_timing = dl_timing demo_lock, rl_world = demo_world,
     rl_ref = 0\<rparr>"

definition demo_held :: demo where
  "demo_held = \<lparr>dm_server = (demo_view, {}), dm_heap = (\<lambda>_. handle_init), dm_next = 1, dm_clock = 0\<rparr>"

lemma demo_duration: "duration_milliseconds (OTimedelta (timedelta_of_us 2000)) = Inr 2"
  by (subst duration_milliseconds_eq) simp_all

lemma demo_acquire:
  "try_acquire demo_lock (OStr (ustr ''job'')) demo_options demo_start = Some (Inr (Some demo_handle), demo_held)"
proof -
  have opts: "validated_redis_options demo_options tg = Inr demo_options" for tg
    by (simp add: validated_redis_options_def demo_options_def)
  have w: "lease_record_new demo_owner 1 = Inr demo_rec"
    using demo_owner by (simp add: lease_record_new_def max_redis_integer_def)
  have env: "dl_monotonic_ns demo_lock = gets dm_clock" "dl_token_factory demo_lock = return demo_owner"
    "dl_world demo_lock = demo_world" by (simp_all add: demo_lock_def)
  have handle: "new_handle demo_lock (demo_key ''lease'') demo_owner 1 demo_options 0
      (demo_start\<lparr>dm_server := (demo_view, {})\<rparr>) = Some (Inr demo_handle, demo_held)"
    using w
    by (simp add: new_handle_def act_simps env demo_world_def dt_add_def fenced_leader_lease_new_def
        leader_lease_new_def require_exact_str_def require_optional_utc_datetime_def optional_def
        leader_lease.defs fenced_leader_lease.defs demo_options_def demo_start_def demo_handle_def demo_held_def
        demo_lock_def fun_upd_idem)
  have call: "call_acquire demo_lock demo_redis_keys demo_owner 2 demo_start =
      Some (Inr (Returned (ustr ''ACQUIRED'', Some 1)), demo_start\<lparr>dm_server := (demo_view, {})\<rparr>)"
    by (rule demo_call) (simp add: demo_start_def)
  have clk: "dm_clock demo_start = 0" by (simp add: demo_start_def)
  have lease: "lo_lease_time demo_options = timedelta_of_us 2000" by (simp add: demo_options_def)
  have pass: "acquire_pass demo_lock demo_redis_keys demo_owner 2 demo_options dl False demo_start
      = Some (Inr (Some (Some demo_handle)), demo_held)" for dl
    using handle call clk by (simp add: acquire_pass_def act_simps env)
  have "acquire_loop demo_lock demo_redis_keys demo_owner 2 demo_options dl False demo_start
      = Some (Inr (Some demo_handle), demo_held)" for dl
    by (subst acquire_loop.simps) (simp add: act_simps pass)
  then show ?thesis
    by (simp add: try_acquire_def act_simps opts demo_keys env lease demo_duration)
qed

definition demo_at :: "logged \<Rightarrow> lease_state \<Rightarrow> demo" where
  "demo_at v st = \<lparr>dm_server = (v, {}), dm_heap = (\<lambda>_. handle_init)(0 := handle_init\<lparr>hd_state := st\<rparr>),
     dm_next = 1, dm_clock = 0\<rparr>"

lemma demo_at_clock: "dm_clock (demo_at v st) = 0"
  by (simp add: demo_at_def)

lemma demo_held_at: "demo_held = demo_at demo_view ACQUIRED"
  by (simp add: demo_held_def demo_at_def handle_init_def fun_eq_iff)

text \<open>A lock block of the demo handle.\<close>

lemma demo_block:
  "with_lock demo_handle f (demo_at v st) =
     (case f (handle_init\<lparr>hd_state := st\<rparr>) of (r, d) \<Rightarrow>
        Some (r, \<lparr>dm_server = (v, {}), dm_heap = (\<lambda>_. handle_init)(0 := d), dm_next = 1, dm_clock = 0\<rparr>))"
  by (simp add: with_lock_def demo_handle_def demo_world_def demo_at_def split: prod.split)

lemma demo_same: "\<lparr>dm_server = (v, {}), dm_heap = (\<lambda>_. handle_init)(0 := handle_init\<lparr>hd_state := st\<rparr>),
     dm_next = 1, dm_clock = 0\<rparr> = demo_at v st"
  by (simp add: demo_at_def)

lemma demo_script:
  assumes "validate_dispatch sc k a = Inr ()" "server_eval logged_redis sc k a v = Some (Inr bs, v')"
  shows "run_script (rl_commands demo_handle) sc k a (demo_at v st) = Some (Inr (RParts (map PBytes bs)), demo_at v' st)"
  using run_script_serving [OF demo_serving assms(1), of "demo_at v st"] assms(2)
  by (simp add: on_server_def demo_handle_def demo_at_def)

lemma demo_probe: "lease_is_held demo_handle (demo_at demo_view ENTERED) = Some (Inr True, demo_at demo_view ENTERED)"
proof -
  have hr: "rl_lease_key demo_handle = demo_key ''lease''" "rl_record demo_handle = demo_rec"
    by (simp_all add: demo_handle_def)
  have "probe_script logged_redis (demo_key ''lease'') (abs_record demo_owner 1) demo_view
      = Some (Inr [ustr ''HELD''], demo_view)"
    using probe_run [where rv = fst, OF logged_laws demo_lock_view demo_owner, of 1]
    by (simp add: abs_holds_def max_redis_integer_def)
  then have ev: "server_eval logged_redis ProbeScript [demo_key ''lease''] [record_to_bytes demo_rec] demo_view
      = Some (Inr [ustr ''HELD''], demo_view)"
    by (simp add: server_eval_def abs_record_def)
  have disp: "validate_dispatch ProbeScript [demo_key ''lease''] [record_to_bytes demo_rec] = Inr ()"
    by (rule demo_dispatch) simp
  have p: "parse_status_response (RParts (map PBytes [ustr ''HELD''])) [ustr ''HELD'', ustr ''NOT_HELD'', ustr ''CORRUPT'']
      = Inr (ustr ''HELD'')"
    by (simp add: parse_status_response_def response_parts_def is_ascii_def ustr_def)
  show ?thesis
    using p by (simp add: lease_is_held_def guarded_def act_simps demo_block check_over_def held_finish_def
        raise_if_unknown_def lease_over_def handle_init_def demo_same [unfolded handle_init_def, simplified]
        demo_script [OF disp ev] hr)
qed

lemma demo_enter: "lease_enter demo_handle demo_held = Some (Inr (), demo_at demo_view ENTERED)"
proof -
  have "with_lock demo_handle enter_block demo_held = Some (Inr (), demo_at demo_view ENTERED)"
    unfolding demo_held_at demo_block
    by (simp add: enter_block_def raise_if_unknown_def handle_init_def demo_same [unfolded handle_init_def, simplified])
  moreover have "\<not> lo_auto_renew (rl_options demo_handle)" by (simp add: demo_handle_def demo_options_def)
  ultimately show ?thesis by (simp add: lease_enter_def act_simps demo_probe)
qed

lemma demo_release:
  "\<exists>v. lease_release_scoped demo_handle True (demo_at demo_view ENTERED) = Some (Inr (), demo_at v RELEASED)"
proof -
  have hr: "rl_lease_key demo_handle = demo_key ''lease''" "rl_record demo_handle = demo_rec"
    by (simp_all add: demo_handle_def)
  obtain v where v: "server_eval logged_redis ReleaseScript [demo_key ''lease''] [record_to_bytes demo_rec, dec 0] demo_view
      = Some (Inr [ustr ''DELETED''], v)"
  proof -
    have "release_script logged_redis (demo_key ''lease'') (abs_record demo_owner 1) (dec 0) demo_view =
        act_then (rd_del logged_redis (demo_key ''lease'')) (reply ''DELETED'') demo_view"
      using read_own_lease [where rv = fst, OF logged_laws demo_lock_view demo_owner, of 1]
      by (simp add: release_script_def abs_holds_def max_redis_integer_def dec_zero)
    then show ?thesis using that by (simp add: server_eval_def abs_record_def act_simps reply_def logged_redis_def noting_def kv_redis_def split_beta
          split: option.split)
  qed
  have disp: "validate_dispatch ReleaseScript [demo_key ''lease''] [record_to_bytes demo_rec, dec 0] = Inr ()"
    by (rule demo_dispatch) (simp_all add: max_redis_integer_def)
  have min: "remaining_minimum_ms demo_handle s = Some (Inr 0, s)" if "dm_clock s = 0" for s
    using that by (simp add: remaining_minimum_ms_def act_simps demo_handle_def demo_options_def duration_nanoseconds_eq
        remaining_ms_def)
  have p: "parse_status_response (RParts (map PBytes [ustr ''DELETED'']))
       [ustr ''DELETED'', ustr ''MIN_TTL_APPLIED'', ustr ''NOT_HELD'', ustr ''CORRUPT''] = Inr (ustr ''DELETED'')"
    by (simp add: parse_status_response_def response_parts_def is_ascii_def ustr_def)
  have "dispatch_release demo_handle (demo_at demo_view ENTERED) = Some (Inr (ustr ''DELETED''), demo_at v ENTERED)"
    using p min [OF demo_at_clock]
    by (simp add: dispatch_release_def act_simps demo_script [OF disp v] hr)
  then have "lease_release_scoped demo_handle True (demo_at demo_view ENTERED) = Some (Inr (), demo_at v RELEASED)"
    by (simp add: lease_release_scoped_def guarded_def act_simps demo_block block_defs handle_init_def
        demo_same [unfolded handle_init_def, simplified])
  then show ?thesis by blast
qed

lemma demo_run:
  "\<exists>s'. run_if_leader_result demo_lock (OStr (ustr ''job'')) (\<lambda>_. return (5::nat)) demo_options demo_start
     = Some (Inr (Elected 5 (rl_lease demo_handle)), s')"
proof -
  have stop: "stop_worker demo_handle (demo_at demo_view ENTERED) = Some (Inr (), demo_at demo_view ENTERED)"
    by (simp add: stop_worker_def act_simps demo_block handle_init_def demo_same [unfolded handle_init_def, simplified])
  obtain v where "lease_release_scoped demo_handle True (demo_at demo_view ENTERED) = Some (Inr (), demo_at v RELEASED)"
    using demo_release by blast
  then have "lease_exit demo_handle None (demo_at demo_view ENTERED) = Some (Inr (), demo_at v RELEASED)"
    using stop by (simp add: lease_exit_def lifecycle_def act_simps)
  then show ?thesis
    by (simp add: run_if_leader_result_def act_simps demo_acquire demo_enter elector_finish_def)
qed

text \<open>The history of the server is one of confirmed releases, and nothing else in the program
  touches the handles.\<close>

definition demo_confirmed :: "demo \<Rightarrow> (pybytes \<times> pybytes) set" where
  "demo_confirmed s = set (snd (fst (dm_server s)))"

lemma logged_release:
  assumes "release_script logged_redis k rec ttl s = Some (Inr bs, s')"
    and "bs = [ustr ''DELETED''] \<or> bs = [ustr ''MIN_TTL_APPLIED'']"
  shows "(k, rec) \<in> set (snd s')"
proof -
  have ne: "ustr ''NOT_HELD'' \<noteq> ustr ''DELETED''" "ustr ''NOT_HELD'' \<noteq> ustr ''MIN_TTL_APPLIED''"
    "ustr ''CORRUPT'' \<noteq> ustr ''DELETED''" "ustr ''CORRUPT'' \<noteq> ustr ''MIN_TTL_APPLIED''"
    by (simp_all add: ustr_def)
  obtain v l where s: "s = (v, l)" by (cases s)
  show ?thesis
    using assms ne unfolding s release_script_def read_lease_def reply_def
    by (auto simp: act_simps lua_string_def logged_redis_def on_view_def noting_def kv_redis_def
        split: if_splits option.splits prod.splits rvalue.splits)
qed

lemma logged_grows:
  "keeps False (\<lambda>s. x \<in> set (snd s)) (rd_type logged_redis k)" "keeps False (\<lambda>s. x \<in> set (snd s)) (rd_pttl logged_redis k)"
  "keeps False (\<lambda>s. x \<in> set (snd s)) (rd_get logged_redis k)" "keeps False (\<lambda>s. x \<in> set (snd s)) (rd_set logged_redis k y)"
  "keeps False (\<lambda>s. x \<in> set (snd s)) (rd_set_px logged_redis k y t)" "keeps False (\<lambda>s. x \<in> set (snd s)) (rd_incr logged_redis k)"
  "keeps False (\<lambda>s. x \<in> set (snd s)) (rd_pexpire logged_redis k t)" "keeps False (\<lambda>s. x \<in> set (snd s)) (rd_del logged_redis k)"
  by (rule keepsI; auto simp: logged_redis_def on_view_def noting_def kv_redis_def
      split: option.splits prod.splits rvalue.splits)+

lemma lua_string_keeps: "keeps b I (lua_string v)"
  unfolding lua_string_def by (intro hoare_rules)

lemmas grow_rules = hoare_rules logged_grows lua_string_keeps

lemma read_lease_grows:
  "(\<And>c. keeps False (\<lambda>s. x \<in> set (snd s)) (go c)) \<Longrightarrow> keeps False (\<lambda>s. x \<in> set (snd s)) (read_lease logged_redis k absent go)"
  unfolding read_lease_def reply_def by (intro grow_rules)

lemma acquire_script_grows: "keeps False (\<lambda>s. x \<in> set (snd s)) (acquire_script logged_redis k1 k2 k3 w t)"
  unfolding acquire_script_def acquire_history_def acquire_previous_def acquire_contended_def acquire_take_def reply_def
  by (intro grow_rules) (auto split: option.split prod.split intro!: grow_rules)

lemma server_grows: "keeps False (\<lambda>s. x \<in> set (snd s)) (server_eval logged_redis sc k a)"
  unfolding server_eval_def renew_script_def probe_script_def reconcile_script_def release_script_def reply_def
  by (cases sc) (auto intro!: grow_rules read_lease_grows acquire_script_grows)

lemma demo_eval: "cm_eval (dl_commands demo_lock) sc k a s = Some (r, s') \<Longrightarrow>
  \<exists>q v'. server_eval logged_redis sc k a (fst (dm_server s)) = Some (q, v')
    \<and> s' = s\<lparr>dm_server := (v', snd (dm_server s))\<rparr>
    \<and> (case q of Inl e \<Rightarrow> r = Inl (OtherException 3) | Inr bs \<Rightarrow> r = Inr (RParts (map PBytes bs)))"
  by (auto simp: demo_lock_def lift_server_def server_commands_def Let_def on_server_def
      split: option.split_asm prod.split_asm sum.split_asm)

lemma demo_evalsha: "cm_evalsha (dl_commands demo_lock) sc k a s = cm_eval (dl_commands demo_lock) sc k a s
  \<or> cm_evalsha (dl_commands demo_lock) sc k a s = Some (Inl NoScriptError, s)"
  by (auto simp: demo_lock_def lift_server_def server_commands_def Let_def)

lemma demo_keeps_backed:
  "keeps False (backed demo_confirmed h) (cm_eval (dl_commands demo_lock) sc k a)"
  "keeps False (backed demo_confirmed h) (cm_evalsha (dl_commands demo_lock) sc k a)"
  if "rl_world h = demo_world"
proof -
  have backed: "backed demo_confirmed h s'"
    if b: "backed demo_confirmed h s" and run: "cm_eval (dl_commands demo_lock) sc k a s = Some (r, s')" for s r s'
  proof -
    obtain q v' where v': "server_eval logged_redis sc k a (fst (dm_server s)) = Some (q, v')"
      "s' = s\<lparr>dm_server := (v', snd (dm_server s))\<rparr>"
      using demo_eval [OF run] by blast
    have "x \<in> demo_confirmed s \<Longrightarrow> x \<in> demo_confirmed s'" for x
      using keepsD [OF server_grows _ v'(1), of x] by (simp add: demo_confirmed_def v'(2))
    moreover have "lease_data h s' = lease_data h s" using \<open>rl_world h = demo_world\<close> by (simp add: v'(2) demo_world_def)
    ultimately show ?thesis using b by (auto simp: backed_def)
  qed
  then show "keeps False (backed demo_confirmed h) (cm_eval (dl_commands demo_lock) sc k a)"
    by (intro keepsI) auto
  then show "keeps False (backed demo_confirmed h) (cm_evalsha (dl_commands demo_lock) sc k a)"
    using demo_evalsha by (intro keepsI) (auto, metis keepsD option.inject prod.inject)
qed

lemma demo_records_releases:
  "records_releases demo_confirmed (cm_eval (dl_commands demo_lock))"
  "records_releases demo_confirmed (cm_evalsha (dl_commands demo_lock))"
proof -
  show eval: "records_releases demo_confirmed (cm_eval (dl_commands demo_lock))"
    unfolding records_releases_def
  proof (intro allI impI)
    fix key rec ttl and s :: demo and raw s' st
    assume run: "cm_eval (dl_commands demo_lock) ReleaseScript [key] [rec, ttl] s = Some (Inr raw, s')"
      and p: "parse_status_response raw release_statuses = Inr st"
      and st: "st = ustr ''DELETED'' \<or> st = ustr ''MIN_TTL_APPLIED''"
    from demo_eval [OF run] obtain q v' where "release_script logged_redis key rec ttl (fst (dm_server s)) = Some (q, v')"
      "s' = s\<lparr>dm_server := (v', snd (dm_server s))\<rparr>"
      "case q of Inl e \<Rightarrow> (Inr raw :: leader_exn + rreply) = Inl (OtherException 3)
       | Inr bs \<Rightarrow> (Inr raw :: leader_exn + rreply) = Inr (RParts (map PBytes bs))"
      by (auto simp: server_eval_def)
    then obtain bs where v': "release_script logged_redis key rec ttl (fst (dm_server s)) = Some (Inr bs, v')"
      "s' = s\<lparr>dm_server := (v', snd (dm_server s))\<rparr>" "raw = RParts (map PBytes bs)"
      by (cases q) auto
    have "part_bytes (map PBytes bs) = Inr bs" by (induction bs) simp_all
    then have "bs = [st]"
      using p v'(3) by (cases bs) (auto simp: parse_status_response_def response_parts_def split: if_splits)
    then show "(key, rec) \<in> demo_confirmed s'"
      using logged_release [OF v'(1)] st by (simp add: demo_confirmed_def v'(2))
  qed
  then show "records_releases demo_confirmed (cm_evalsha (dl_commands demo_lock))"
    using demo_evalsha unfolding records_releases_def by (metis Inl_Inr_False option.inject prod.inject)
qed

lemma demo_confirming: "confirming demo_lock demo_confirmed"
proof -
  have w: "dl_world demo_lock = demo_world" "dl_monotonic_ns demo_lock = gets dm_clock"
    by (simp_all add: demo_lock_def)
  have put: "demo_confirmed (wd_put demo_world r d s) = demo_confirmed s" for r d s
    by (simp add: demo_world_def demo_confirmed_def)
  show ?thesis
    unfolding confirming_def
    using demo_heap_ok demo_records_releases demo_keeps_backed put
    by (auto simp: w) (auto simp: demo_world_def intro!: hoare_rules)
qed

theorem elector_result_proven_witness:
  "\<exists>s'. run_if_leader_result demo_lock (OStr (ustr ''job'')) (\<lambda>_. return (5::nat)) demo_options demo_start
      = Some (Inr (Elected 5 (rl_lease demo_handle)), s')
    \<and> hd_state (lease_data demo_handle s') = RELEASED
    \<and> (demo_key ''lease'', record_to_bytes demo_rec) \<in> demo_confirmed s'"
proof -
  obtain s' where run: "run_if_leader_result demo_lock (OStr (ustr ''job'')) (\<lambda>_. return (5::nat)) demo_options demo_start
     = Some (Inr (Elected 5 (rl_lease demo_handle)), s')"
    using demo_run by blast
  have "keeps False (backed demo_confirmed h) (return (5::nat))" for h by (rule hoare_rules)
  from elector_result_proven [OF demo_confirming this run]
  have "hd_state (lease_data demo_handle s') = RELEASED
    \<and> (rl_lease_key demo_handle, record_to_bytes (rl_record demo_handle)) \<in> demo_confirmed s'"
    by (auto simp: demo_acquire)
  with run show ?thesis by (auto simp: demo_handle_def)
qed

lemma demo_calm: "calm demo_lock (\<lambda>s. fst (dm_server s)) (lo_lease_time demo_options) demo_owner"
  by (simp add: calm_def demo_lock_def demo_world_def act_simps demo_options_def)

theorem acquire_end_to_end_witness:
  "\<exists>h s'. try_acquire demo_lock (OStr (ustr ''job'')) demo_options demo_start = Some (Inr (Some h), s')
     \<and> fll_fencing_token (rl_lease h) = 1
     \<and> lock_view (demo_key ''lease'') (demo_key ''fence'') (demo_key ''history'')
         \<lparr>la_last = 1, la_holder = Some (demo_owner, 1, 2)\<rparr> (fst (fst (dm_server s')))"
proof -
  let ?a = "\<lparr>la_last = 0, la_holder = None\<rparr>"
  have opts: "validated_redis_options demo_options (dl_timing demo_lock) = Inr demo_options"
    by (simp add: validated_redis_options_def demo_options_def)
  have dur: "duration_milliseconds (OTimedelta (lo_lease_time demo_options)) = Inr 2"
    using demo_duration by (simp add: demo_options_def)
  have v: "lock_view (rk_lease demo_redis_keys) (rk_fence demo_redis_keys) (rk_history demo_redis_keys) ?a
      (fst (fst (dm_server demo_start)))"
    by (simp add: lock_view_def demo_start_def)
  have "\<exists>r s'. try_acquire demo_lock (OStr (ustr ''job'')) demo_options demo_start = Some (r, s')
    \<and> (case r of
         Inr (Some h) \<Rightarrow>
           rl_record h = \<lparr>lr_owner_token = demo_owner, lr_fencing_token = la_last ?a + 1\<rparr>
           \<and> fll_fencing_token (rl_lease h) = la_last ?a + 1 \<and> rl_lease_key h = rk_lease demo_redis_keys
           \<and> hd_state (lease_data h s') = ACQUIRED
           \<and> lock_view (rk_lease demo_redis_keys) (rk_fence demo_redis_keys) (rk_history demo_redis_keys)
               \<lparr>la_last = la_last ?a + 1, la_holder = Some (demo_owner, la_last ?a + 1, 2)\<rparr> (fst (fst (dm_server s')))
       | Inr None \<Rightarrow> False
       | Inl e \<Rightarrow> e = LeaderBackendError \<and> \<not> accepts_ttl logged_redis fst 2
           \<and> lock_view (rk_lease demo_redis_keys) (rk_fence demo_redis_keys) (rk_history demo_redis_keys)
               (?a\<lparr>la_last := la_last ?a + 1\<rparr>) (fst (fst (dm_server s'))))"
    by (rule acquire_end_to_end [where rv = fst and srv = "\<lambda>s. fst (dm_server s)",
          OF demo_serving logged_laws demo_heap_ok opts demo_keys dur _ demo_calm demo_owner v])
      (simp_all add: max_redis_integer_def)
  then obtain r s' where run: "try_acquire demo_lock (OStr (ustr ''job'')) demo_options demo_start = Some (r, s')"
    and r: "case r of
         Inr (Some h) \<Rightarrow>
           rl_record h = \<lparr>lr_owner_token = demo_owner, lr_fencing_token = la_last ?a + 1\<rparr>
           \<and> fll_fencing_token (rl_lease h) = la_last ?a + 1 \<and> rl_lease_key h = rk_lease demo_redis_keys
           \<and> hd_state (lease_data h s') = ACQUIRED
           \<and> lock_view (rk_lease demo_redis_keys) (rk_fence demo_redis_keys) (rk_history demo_redis_keys)
               \<lparr>la_last = la_last ?a + 1, la_holder = Some (demo_owner, la_last ?a + 1, 2)\<rparr> (fst (fst (dm_server s')))
       | Inr None \<Rightarrow> False
       | Inl e \<Rightarrow> e = LeaderBackendError \<and> \<not> accepts_ttl logged_redis fst 2
           \<and> lock_view (rk_lease demo_redis_keys) (rk_fence demo_redis_keys) (rk_history demo_redis_keys)
               (?a\<lparr>la_last := la_last ?a + 1\<rparr>) (fst (fst (dm_server s')))" by blast
  with logged_accepts [of 2] obtain h where "r = Inr (Some h)"
    by (cases r) (auto split: option.split_asm)
  with run r show ?thesis by simp
qed

end
