(* ===== verification/Id_Core.thy ===== *)
theory Id_Core
  imports Prelude "HOL-Library.List_Lexorder"
begin

unbundle bit_operations_syntax

text \<open>
  \<open>bluetape.id\<close>: the shared part of the identifier generators (\<open>_errors\<close>, \<open>_entropy\<close>) and the
  contract of a monotonic generator.

  A generator object has a state \<open>'g\<close> that only the block under its lock touches. \<open>id_step\<close> runs any
  number of threads on one object: a thread first calls the two callbacks outside the lock (their
  results are its observation), and commits it later in one atomic step, whatever the others did in
  between. Code points are compared in their order (\<open>HOL-Library.List_Lexorder\<close>), as Python
  compares strings.
\<close>

section \<open>Errors and callbacks\<close>

datatype id_exn =
    TypeError string
  | ValueError string
  | InvalidIDError string
  | IDOverflowError string
  | CallbackError nat

definition max_timestamp :: int where
  "max_timestamp = push_bit 48 1 - 1"

definition unix_time_ms :: "int \<Rightarrow> int" where
  "unix_time_ms time_ns = time_ns div 1000000"

definition require_callback :: "'f callback \<Rightarrow> string \<Rightarrow> id_exn + 'f" where
  "require_callback value name =
     (case value of Callable f \<Rightarrow> Inr f | NotCallable \<Rightarrow> Inl (TypeError (name @ '' must be callable'')))"

definition read_timestamp :: "('w, id_exn, pyval) act \<Rightarrow> ('w, id_exn, int) act" where
  "read_timestamp clock =
     act_bind clock (\<lambda>value.
       case value of
         PyInt n \<Rightarrow>
           if 0 \<le> n \<and> n \<le> max_timestamp then return n
           else raise (IDOverflowError ''clock result exceeds the 48-bit timestamp range'')
       | _ \<Rightarrow> raise (TypeError ''clock result must be an integer''))"

definition read_entropy :: "(int \<Rightarrow> ('w, id_exn, pyval) act) \<Rightarrow> ('w, id_exn, pybytes) act" where
  "read_entropy random_bytes =
     act_bind (random_bytes 10) (\<lambda>value.
       case value of
         PyBytes b \<Rightarrow>
           if length b = 10 then return b
           else raise (InvalidIDError ''entropy result must contain exactly 10 bytes'')
       | _ \<Rightarrow> raise (TypeError ''entropy result must be bytes''))"

text \<open>\<open>int.from_bytes(b, "big")\<close>.\<close>

definition int_from_bytes :: "pybytes \<Rightarrow> int" where
  "int_from_bytes b = foldl (\<lambda>a x. 256 * a + int x) 0 b"

text \<open>What an observation that passed the two checks satisfies.\<close>

definition observation_ok :: "int \<times> pybytes \<Rightarrow> bool" where
  "observation_ok ob \<longleftrightarrow>
     0 \<le> fst ob \<and> fst ob \<le> max_timestamp \<and> length (snd ob) = 10 \<and> bytes_ok (snd ob)"

text \<open>A block under the generator's lock.\<close>

definition locked :: "('g \<Rightarrow> ('e + 'a) \<times> 'g) \<Rightarrow> ('g \<times> 'w, 'e, 'a) act" where
  "locked f = (\<lambda>(g, w). let (r, g') = f g in Some (r, (g', w)))"

section \<open>Threads on one generator\<close>

record ('t, 'ob, 'g, 'i) id_run =
  ir_gen :: 'g
  ir_pending :: "'t \<Rightarrow> 'ob option"
  ir_issued :: "'i list"

inductive id_step ::
  "('ob \<Rightarrow> 'g \<Rightarrow> ('e + 'i) \<times> 'g) \<Rightarrow> ('ob \<Rightarrow> bool) \<Rightarrow>
   ('t, 'ob, 'g, 'i) id_run \<Rightarrow> ('t, 'ob, 'g, 'i) id_run \<Rightarrow> bool"
  for commit :: "'ob \<Rightarrow> 'g \<Rightarrow> ('e + 'i) \<times> 'g" and ok :: "'ob \<Rightarrow> bool" where
  observe: "ir_pending s t = None \<Longrightarrow> ok ob \<Longrightarrow>
     id_step commit ok s (s\<lparr>ir_pending := (ir_pending s)(t \<mapsto> ob)\<rparr>)"
| issue: "ir_pending s t = Some ob \<Longrightarrow> commit ob (ir_gen s) = (Inr i, g) \<Longrightarrow>
     id_step commit ok s
       (s\<lparr>ir_gen := g, ir_pending := (ir_pending s)(t := None), ir_issued := ir_issued s @ [i]\<rparr>)"
| refuse: "ir_pending s t = Some ob \<Longrightarrow> commit ob (ir_gen s) = (Inl e, g) \<Longrightarrow>
     id_step commit ok s (s\<lparr>ir_gen := g, ir_pending := (ir_pending s)(t := None)\<rparr>)"

definition id_start :: "'g \<Rightarrow> ('t, 'ob, 'g, 'i) id_run" where
  "id_start g = \<lparr>ir_gen = g, ir_pending = (\<lambda>_. None), ir_issued = []\<rparr>"

lemma id_run_step:
  "(id_step commit ok)\<^sup>*\<^sup>* s s' \<Longrightarrow> id_step commit ok s' s'' \<Longrightarrow> (id_step commit ok)\<^sup>*\<^sup>* s s''"
  by (rule rtranclp.rtrancl_into_rtrancl)

text \<open>The run of a single thread that makes one call after the other.\<close>

primrec id_calls :: "('ob \<Rightarrow> 'g \<Rightarrow> ('e + 'i) \<times> 'g) \<Rightarrow> 'ob list \<Rightarrow> 'g \<Rightarrow> 'i list \<Rightarrow> 'g \<times> 'i list" where
  "id_calls commit [] g issued = (g, issued)"
| "id_calls commit (ob # obs) g issued =
     (case commit ob g of
        (Inl e, g') \<Rightarrow> id_calls commit obs g' issued
      | (Inr i, g') \<Rightarrow> id_calls commit obs g' (issued @ [i]))"

lemma id_calls_run:
  fixes t :: 't
  assumes "\<forall>ob\<in>set obs. ok ob"
  shows "(id_step commit ok)\<^sup>*\<^sup>*
     \<lparr>ir_gen = g, ir_pending = (\<lambda>_ :: 't. None), ir_issued = issued\<rparr>
     \<lparr>ir_gen = fst (id_calls commit obs g issued), ir_pending = (\<lambda>_. None),
      ir_issued = snd (id_calls commit obs g issued)\<rparr>"
  using assms
proof (induction obs arbitrary: g issued)
  case (Cons ob obs)
  let ?s = "\<lparr>ir_gen = g, ir_pending = (\<lambda>_ :: 't. None), ir_issued = issued\<rparr>"
  obtain r g' where c: "commit ob g = (r, g')" by (cases "commit ob g")
  let ?issued = "case r of Inl e \<Rightarrow> issued | Inr i \<Rightarrow> issued @ [i]"
  let ?s' = "\<lparr>ir_gen = g', ir_pending = (\<lambda>_ :: 't. None), ir_issued = ?issued\<rparr>"
  have "id_step commit ok ?s (?s\<lparr>ir_pending := (ir_pending ?s)(t \<mapsto> ob)\<rparr>)"
    using Cons.prems by (intro id_step.observe) simp_all
  moreover have "id_step commit ok (?s\<lparr>ir_pending := (ir_pending ?s)(t \<mapsto> ob)\<rparr>) ?s'"
    using id_step.issue [of "?s\<lparr>ir_pending := (ir_pending ?s)(t \<mapsto> ob)\<rparr>" t ob commit _ g' ok]
      id_step.refuse [of "?s\<lparr>ir_pending := (ir_pending ?s)(t \<mapsto> ob)\<rparr>" t ob commit _ g' ok] c
    by (cases r) simp_all
  moreover have "(id_step commit ok)\<^sup>*\<^sup>* ?s'
      \<lparr>ir_gen = fst (id_calls commit (ob # obs) g issued), ir_pending = (\<lambda>_. None),
       ir_issued = snd (id_calls commit (ob # obs) g issued)\<rparr>"
    using Cons.IH [of g' ?issued] Cons.prems by (cases r) (simp_all add: c)
  ultimately show ?case by (meson converse_rtranclp_into_rtranclp)
qed simp

section \<open>The contract of a monotonic generator\<close>

text \<open>\<open>before g k\<close>: the generator in state \<open>g\<close> may have issued an identifier that sorts as \<open>k\<close>. A
  commit returns an identifier above all of them, or raises and changes nothing.\<close>

locale monotonic_generator =
  fixes commit :: "'ob \<Rightarrow> 'g \<Rightarrow> ('e + 'i) \<times> 'g"
    and ok :: "'ob \<Rightarrow> bool"
    and fresh :: 'g
    and gen_ok :: "'g \<Rightarrow> bool"
    and key :: "'i \<Rightarrow> 'k :: linorder"
    and before :: "'g \<Rightarrow> 'k \<Rightarrow> bool"
    and id_ok :: "'i \<Rightarrow> bool"
  assumes fresh_ok: "gen_ok fresh"
    and commit_fails: "commit ob g = (Inl e, g') \<Longrightarrow> g' = g"
    and commit_ok: "gen_ok g \<Longrightarrow> ok ob \<Longrightarrow> commit ob g = (Inr i, g') \<Longrightarrow> gen_ok g' \<and> id_ok i"
    and commit_above: "gen_ok g \<Longrightarrow> ok ob \<Longrightarrow> commit ob g = (Inr i, g') \<Longrightarrow> before g k \<Longrightarrow> k < key i"
    and commit_grows: "gen_ok g \<Longrightarrow> ok ob \<Longrightarrow> commit ob g = (Inr i, g') \<Longrightarrow>
      before g k \<or> k = key i \<Longrightarrow> before g' k"
begin

definition run_ok :: "('t, 'ob, 'g, 'i) id_run \<Rightarrow> bool" where
  "run_ok s \<longleftrightarrow>
     gen_ok (ir_gen s) \<and> (\<forall>t ob. ir_pending s t = Some ob \<longrightarrow> ok ob)
     \<and> (\<forall>i\<in>set (ir_issued s). id_ok i \<and> before (ir_gen s) (key i))
     \<and> sorted_wrt (\<lambda>i j. key i < key j) (ir_issued s)"

lemma start_ok: "run_ok (id_start fresh)"
  by (simp add: run_ok_def id_start_def fresh_ok)

lemma step_ok: "id_step commit ok s s' \<Longrightarrow> run_ok s \<Longrightarrow> run_ok s'"
proof (induction rule: id_step.induct)
  case (issue s t ob i g)
  then have "gen_ok (ir_gen s)" "ok ob" by (auto simp: run_ok_def)
  note laws = commit_ok [OF this issue(2)] commit_above [OF this issue(2)] commit_grows [OF this issue(2)]
  then show ?case using issue by (auto simp: run_ok_def sorted_wrt_append)
qed (auto simp: run_ok_def dest: commit_fails)

lemma reachable_ok: "(id_step commit ok)\<^sup>*\<^sup>* (id_start fresh) s \<Longrightarrow> run_ok s"
  by (induction rule: rtranclp_induct) (auto intro: start_ok step_ok)

text \<open>Under every interleaving of the threads, identifiers are issued in increasing order.\<close>

lemma issued_increasing:
  "(id_step commit ok)\<^sup>*\<^sup>* (id_start fresh) s \<Longrightarrow> sorted_wrt (\<lambda>i j. key i < key j) (ir_issued s)"
  using reachable_ok by (auto simp: run_ok_def)

lemma issued_ok: "(id_step commit ok)\<^sup>*\<^sup>* (id_start fresh) s \<Longrightarrow> i \<in> set (ir_issued s) \<Longrightarrow> id_ok i"
  using reachable_ok by (auto simp: run_ok_def)

end

section \<open>Bytes and bits\<close>

lemma int_from_bytes_append [simp]: "int_from_bytes (b @ [x]) = 256 * int_from_bytes b + int x"
  by (simp add: int_from_bytes_def)

lemma int_from_bytes_Nil [simp]: "int_from_bytes [] = 0"
  by (simp add: int_from_bytes_def)

lemma int_from_bytes_bounds:
  "bytes_ok b \<Longrightarrow> 0 \<le> int_from_bytes b \<and> int_from_bytes b < 256 ^ length b"
  by (induction b rule: rev_induct) (auto simp: bytes_ok_def)

text \<open>A field below \<open>2 ^ n\<close> added under shifted bits: the bitwise or of the code is a sum.\<close>

lemma or_shift:
  assumes "0 \<le> (b::int)" "b < 2 ^ n"
  shows "push_bit n a OR b = 2 ^ n * a + b"
proof -
  have "push_bit n a AND b = 0"
  proof (rule bit_eqI)
    fix k
    have "\<not> bit b k" if "n \<le> k"
      using assms that by (simp add: bit_iff_odd)
        (metis div_pos_pos_trivial even_zero less_le_trans one_le_numeral power_increasing)
    then show "bit (push_bit n a AND b) k \<longleftrightarrow> bit 0 k"
      by (auto simp: bit_simps not_le)
  qed
  then show ?thesis
    by (simp add: disjunctive_add_eq_or [symmetric] push_bit_eq_mult mult.commute)
qed

lemma locked_run: "locked f (g, w) = Some (fst (f g), (snd (f g), w))"
  by (simp add: locked_def Let_def split: prod.split)

text \<open>The interpreter's promise about \<open>bytes\<close> objects, for a callback.\<close>

definition returns_bytes :: "(int \<Rightarrow> ('w, id_exn, pyval) act) \<Rightarrow> bool" where
  "returns_bytes f \<longleftrightarrow> (\<forall>n w b w'. f n w = Some (Inr (PyBytes b), w') \<longrightarrow> bytes_ok b)"

lemma read_timestamp_ok:
  "read_timestamp clock w = Some (Inr n, w') \<Longrightarrow> 0 \<le> n \<and> n \<le> max_timestamp"
  by (auto simp: read_timestamp_def act_simps split: option.splits sum.splits pyval.splits if_splits)

lemma read_entropy_ok:
  "read_entropy f w = Some (Inr b, w') \<Longrightarrow> returns_bytes f \<Longrightarrow> length b = 10 \<and> bytes_ok b"
  unfolding returns_bytes_def
  by (auto simp: read_entropy_def act_simps split: option.splits sum.splits pyval.splits if_splits) blast

lemma observation_okI:
  "read_timestamp clock w = Some (Inr n, w1) \<Longrightarrow> read_entropy f w1 = Some (Inr b, w2) \<Longrightarrow>
   returns_bytes f \<Longrightarrow> observation_ok (n, b)"
  by (auto simp: observation_ok_def dest: read_timestamp_ok read_entropy_ok)

text \<open>A call of one thread is an observation and a commit, so that \<open>id_step\<close> has every behaviour of
  the code.\<close>

lemma id_call_commits:
  assumes "act_bind (on_world (read_timestamp clock)) (\<lambda>observed_ms.
      act_bind (on_world (read_entropy random_bytes)) (\<lambda>entropy.
        locked (commit (observed_ms, entropy)))) (g, w) = Some (r, (g', w'))"
    and "returns_bytes random_bytes"
  shows "(\<exists>e. r = Inl e \<and> g' = g) \<or> (\<exists>ob. observation_ok ob \<and> commit ob g = (r, g'))"
proof (cases "read_timestamp clock w")
  case None
  then show ?thesis using assms(1) by (simp add: act_bind_run on_world_run)
next
  case (Some x)
  then show ?thesis
    using assms(1) observation_okI [OF _ _ assms(2)]
    by (cases x) (auto simp: act_bind_run on_world_run locked_run split: option.splits sum.splits, blast+)
qed

end
