(* ===== verification/Ulid.thy ===== *)
theory Ulid
  imports Id_Core
begin

unbundle bit_operations_syntax

text \<open>
  \<open>bluetape.id._ulid\<close>: the ULID text format, the random generator and the monotonic generator.

  The text is shown to be a bijection with the 128-bit values that keeps their order, so that the
  order of the issued texts is the order of (timestamp, randomness); the monotonic generator is an
  instance of \<open>monotonic_generator\<close>.
\<close>

section \<open>Text\<close>

definition ulid_alphabet :: pystr where
  "ulid_alphabet = ustr ''0123456789ABCDEFGHJKMNPQRSTVWXYZ''"

definition ulid_decode_table :: "nat \<Rightarrow> nat option" where
  "ulid_decode_table = map_of (zip ulid_alphabet [0..<32])"

definition max_randomness :: int where
  "max_randomness = push_bit 80 1 - 1"

definition ulid_length :: nat where
  "ulid_length = 26"

definition ulid_encode_step :: "nat \<Rightarrow> int \<times> pystr \<Rightarrow> int \<times> pystr" where
  "ulid_encode_step index = (\<lambda>(value, output).
     (drop_bit 5 value, output[index := ulid_alphabet ! nat (value AND 31)]))"

definition ulid_encode :: "int \<Rightarrow> int \<Rightarrow> pystr" where
  "ulid_encode timestamp randomness =
     snd (fold ulid_encode_step (rev [0..<ulid_length])
            (push_bit 80 timestamp OR randomness, replicate ulid_length 48))"

fun ulid_decode_loop :: "int \<Rightarrow> pystr \<Rightarrow> id_exn + int" where
  "ulid_decode_loop decoded [] = Inr decoded"
| "ulid_decode_loop decoded (character # value) =
     (case ulid_decode_table character of
        None \<Rightarrow> Inl (InvalidIDError ''value must be a canonical ULID'')
      | Some digit \<Rightarrow> ulid_decode_loop (push_bit 5 decoded OR int digit) value)"

definition ulid_decode :: "pystr \<Rightarrow> id_exn + int" where
  "ulid_decode value =
     ebind (ulid_decode_loop 0 value) (\<lambda>decoded.
       if decoded \<ge> push_bit 128 1 then Inl (InvalidIDError ''value exceeds the canonical ULID range'')
       else Inr decoded)"

definition parse_ulid :: "pyval \<Rightarrow> id_exn + pystr" where
  "parse_ulid value =
     (case value of
        PyStr s \<Rightarrow>
          if length s \<noteq> ulid_length then Inl (InvalidIDError ''value must contain exactly 26 ULID characters'')
          else ebind (ulid_decode s) (\<lambda>_. Inr s)
      | _ \<Rightarrow> Inl (TypeError ''value must be a string''))"

definition ulid_timestamp_ms :: "pyval \<Rightarrow> id_exn + int" where
  "ulid_timestamp_ms value =
     ebind (parse_ulid value) (\<lambda>s. ebind (ulid_decode s) (\<lambda>n. Inr (drop_bit 80 n)))"

section \<open>Generators\<close>

text \<open>The two callbacks that a generator object keeps.\<close>

record 'w id_callbacks =
  ic_clock :: "('w, id_exn, pyval) act"
  ic_random_bytes :: "int \<Rightarrow> ('w, id_exn, pyval) act"

definition ulid_generator_init ::
  "('w, id_exn, pyval) act callback \<Rightarrow> (int \<Rightarrow> ('w, id_exn, pyval) act) callback \<Rightarrow> id_exn + 'w id_callbacks" where
  "ulid_generator_init clock random_bytes =
     ebind (require_callback clock ''clock'') (\<lambda>c.
     ebind (require_callback random_bytes ''random_bytes'') (\<lambda>r.
       Inr \<lparr>ic_clock = c, ic_random_bytes = r\<rparr>))"

definition ulid_new :: "'w id_callbacks \<Rightarrow> ('w, id_exn, pystr) act" where
  "ulid_new gen =
     act_bind (read_timestamp (ic_clock gen)) (\<lambda>timestamp.
     act_bind (read_entropy (ic_random_bytes gen)) (\<lambda>entropy.
       return (ulid_encode timestamp (int_from_bytes entropy))))"

record ulid_state =
  us_last_ms :: "int option"
  us_randomness :: int

definition monotonic_ulid_init ::
  "('w, id_exn, pyval) act callback \<Rightarrow> (int \<Rightarrow> ('w, id_exn, pyval) act) callback
   \<Rightarrow> id_exn + 'w id_callbacks \<times> ulid_state" where
  "monotonic_ulid_init clock random_bytes =
     ebind (require_callback clock ''clock'') (\<lambda>c.
     ebind (require_callback random_bytes ''random_bytes'') (\<lambda>r.
       Inr (\<lparr>ic_clock = c, ic_random_bytes = r\<rparr>, \<lparr>us_last_ms = None, us_randomness = 0\<rparr>)))"

text \<open>The block under the lock.\<close>

definition ulid_commit :: "int \<times> pybytes \<Rightarrow> ulid_state \<Rightarrow> (id_exn + pystr) \<times> ulid_state" where
  "ulid_commit ob g =
     (let (observed_ms, entropy) = ob;
          fresh_randomness = int_from_bytes entropy;
          advance = (case us_last_ms g of None \<Rightarrow> True | Some last_ms \<Rightarrow> observed_ms > last_ms)
      in if advance
         then (Inr (ulid_encode observed_ms fresh_randomness),
               g\<lparr>us_last_ms := Some observed_ms, us_randomness := fresh_randomness\<rparr>)
         else if us_randomness g = max_randomness
         then (Inl (IDOverflowError ''monotonic ULID randomness is exhausted''), g)
         else let logical_ms = the (us_last_ms g); randomness = us_randomness g + 1
              in (Inr (ulid_encode logical_ms randomness),
                  g\<lparr>us_last_ms := Some logical_ms, us_randomness := randomness\<rparr>))"

definition monotonic_ulid_new :: "'w id_callbacks \<Rightarrow> (ulid_state \<times> 'w, id_exn, pystr) act" where
  "monotonic_ulid_new gen =
     act_bind (on_world (read_timestamp (ic_clock gen))) (\<lambda>observed_ms.
     act_bind (on_world (read_entropy (ic_random_bytes gen))) (\<lambda>entropy.
       locked (ulid_commit (observed_ms, entropy))))"

section \<open>The digits\<close>

definition ulid_digit :: "int \<Rightarrow> nat" where
  "ulid_digit d = ulid_alphabet ! nat d"

primrec ulid_digits :: "nat \<Rightarrow> int \<Rightarrow> pystr" where
  "ulid_digits 0 v = []"
| "ulid_digits (Suc n) v = ulid_digits n (v div 32) @ [ulid_digit (v mod 32)]"

lemma and_31: "(v::int) AND 31 = v mod 32"
  using take_bit_eq_mask [of 5 v] by (simp add: take_bit_eq_mod mask_eq_exp_minus_1)

lemma length_ulid_digits [simp]: "length (ulid_digits n v) = n"
  by (induction n arbitrary: v) auto

lemma ulid_encode_step_run:
  "ulid_encode_step n (v, out) = (v div 32, out[n := ulid_digit (v mod 32)])"
  by (simp add: ulid_encode_step_def drop_bit_eq_div and_31 ulid_digit_def)

lemma ulid_encode_loop:
  "n \<le> length out \<Longrightarrow>
   snd (fold ulid_encode_step (rev [0..<n]) (v, out)) = ulid_digits n v @ drop n out"
proof (induction n arbitrary: v out)
  case (Suc n)
  then have "snd (fold ulid_encode_step (rev [0..<Suc n]) (v, out)) =
      ulid_digits n (v div 32) @ drop n (out[n := ulid_digit (v mod 32)])"
    by (simp add: ulid_encode_step_run)
  also have "drop n (out[n := c]) = c # drop (Suc n) out" for c
    using Suc.prems by (simp add: drop_update_swap Cons_nth_drop_Suc [symmetric])
  finally show ?case by simp
qed simp

lemma ulid_encode_digits: "ulid_encode ts r = ulid_digits 26 (push_bit 80 ts OR r)"
  by (simp add: ulid_encode_def ulid_length_def ulid_encode_loop)

lemma ulid_table_digit: "n < 32 \<Longrightarrow> ulid_decode_table (ulid_alphabet ! n) = Some n"
proof -
  have "\<forall>n\<in>set [0..<32]. ulid_decode_table (ulid_alphabet ! n) = Some n"
    by (simp add: ulid_decode_table_def ulid_alphabet_def ustr_def upt_rec)
  then show "n < 32 \<Longrightarrow> ulid_decode_table (ulid_alphabet ! n) = Some n" by simp
qed

lemma ulid_table_inverse:
  assumes "ulid_decode_table c = Some d"
  shows "d < 32" "ulid_alphabet ! d = c"
proof -
  have len: "length ulid_alphabet = 32" by (simp add: ulid_alphabet_def ustr_def)
  have "(c, d) \<in> set (zip ulid_alphabet [0..<32])"
    using assms by (simp add: ulid_decode_table_def map_of_SomeD)
  then obtain k where "k < 32" "c = ulid_alphabet ! k" "d = [0..<32] ! k"
    by (auto simp: in_set_zip len)
  then show "d < 32" "ulid_alphabet ! d = c" by (simp_all del: upt_rec_numeral)
qed

lemma or_digit: "0 \<le> d \<Longrightarrow> d < 32 \<Longrightarrow> push_bit 5 a OR d = 32 * a + (d::int)"
  using or_shift [of d 5 a] by simp

lemma ulid_decode_loop_append:
  "ulid_decode_loop a (s @ t) = ebind (ulid_decode_loop a s) (\<lambda>b. ulid_decode_loop b t)"
  by (induction s arbitrary: a) (auto split: option.split)

lemma ulid_decode_digits: "0 \<le> v \<Longrightarrow> v < 32 ^ n \<Longrightarrow> ulid_decode_loop 0 (ulid_digits n v) = Inr v"
proof (induction n arbitrary: v)
  case (Suc n)
  have "v div 32 < 32 ^ n" using Suc.prems by (simp add: div_less_iff_less_mult mult.commute)
  then have "ulid_decode_loop 0 (ulid_digits n (v div 32)) = Inr (v div 32)" using Suc by simp
  moreover have "ulid_decode_table (ulid_digit (v mod 32)) = Some (nat (v mod 32))"
    by (simp add: ulid_digit_def ulid_table_digit nat_less_iff)
  ultimately show ?case by (simp add: ulid_decode_loop_append or_digit)
qed simp

lemma ulid_decode_inverse:
  "ulid_decode_loop 0 s = Inr v \<Longrightarrow> 0 \<le> v \<and> v < 32 ^ length s \<and> s = ulid_digits (length s) v"
proof (induction s arbitrary: v rule: rev_induct)
  case (snoc c s)
  then obtain u d where u: "ulid_decode_loop 0 s = Inr u" and d: "ulid_decode_table c = Some d"
    and v: "v = 32 * u + int d"
    by (auto simp: ulid_decode_loop_append or_digit ulid_table_inverse split: option.splits)
  have "v div 32 = u" "v mod 32 = int d" using ulid_table_inverse(1) [OF d] by (simp_all add: v)
  then show ?case
    using snoc.IH [OF u] ulid_table_inverse [OF d] by (auto simp: v ulid_digit_def)
qed simp

text \<open>Digits of the same number sort as the numbers.\<close>

lemma less_append_same: "(t :: 'a :: order list) < u \<Longrightarrow> s @ t < s @ u"
  by (induction s) (auto simp: Cons_less_Cons)

lemma less_append_prefix: "length s = length u \<Longrightarrow> (s :: 'a :: order list) < u \<Longrightarrow> s @ t < u @ t'"
  by (induction s u rule: list_induct2) (auto simp: Cons_less_Cons)

lemma ulid_digit_mono: "0 \<le> d \<Longrightarrow> d < e \<Longrightarrow> e < 32 \<Longrightarrow> ulid_digit d < ulid_digit e"
proof -
  have "sorted_wrt (<) ulid_alphabet" by (simp add: ulid_alphabet_def ustr_def)
  moreover have "length ulid_alphabet = 32" by (simp add: ulid_alphabet_def ustr_def)
  ultimately show "0 \<le> d \<Longrightarrow> d < e \<Longrightarrow> e < 32 \<Longrightarrow> ?thesis"
    by (simp add: ulid_digit_def sorted_wrt_iff_nth_less nat_less_iff)
qed

lemma ulid_digits_mono: "0 \<le> v \<Longrightarrow> v < w \<Longrightarrow> w < 32 ^ n \<Longrightarrow> ulid_digits n v < ulid_digits n w"
proof (induction n arbitrary: v w)
  case (Suc n)
  have w: "w div 32 < 32 ^ n" using Suc.prems by (simp add: div_less_iff_less_mult mult.commute)
  have "v div 32 \<le> w div 32" using Suc.prems(2) by (simp add: zdiv_mono1)
  moreover have "v mod 32 < w mod 32" if "v div 32 = w div 32"
    using mult_div_mod_eq [of 32 v] mult_div_mod_eq [of 32 w] that Suc.prems(2) by linarith
  ultimately have "v div 32 < w div 32 \<or> v div 32 = w div 32 \<and> v mod 32 < w mod 32" by linarith
  then consider "v div 32 < w div 32" | "v div 32 = w div 32" "v mod 32 < w mod 32" by blast
  then show ?case
  proof cases
    case 1
    with Suc w show ?thesis by (simp add: less_append_prefix)
  next
    case 2
    then show ?thesis using ulid_digit_mono [of "v mod 32" "w mod 32"] by (simp add: less_append_same)
  qed
qed simp

section \<open>The format\<close>

definition ulid_range :: "int \<Rightarrow> int \<Rightarrow> bool" where
  "ulid_range timestamp randomness \<longleftrightarrow>
     0 \<le> timestamp \<and> timestamp \<le> max_timestamp \<and> 0 \<le> randomness \<and> randomness \<le> max_randomness"

lemma max_bounds: "max_timestamp = 2 ^ 48 - 1" "max_randomness = 2 ^ 80 - 1"
  by (simp_all add: max_timestamp_def max_randomness_def)

lemma ulid_value: "ulid_range ts r \<Longrightarrow> push_bit 80 ts OR r = 2 ^ 80 * ts + r"
  by (rule or_shift) (auto simp: ulid_range_def max_bounds)

lemma ulid_value_bounds: "ulid_range ts r \<Longrightarrow> 0 \<le> 2 ^ 80 * ts + r \<and> 2 ^ 80 * ts + r < 2 ^ 128"
  by (auto simp: ulid_range_def max_bounds)

lemma ulid_encode_value: "ulid_range ts r \<Longrightarrow> ulid_encode ts r = ulid_digits 26 (2 ^ 80 * ts + r)"
  by (simp only: ulid_encode_digits ulid_value)

lemma ulid_decode_encode: "ulid_range ts r \<Longrightarrow> ulid_decode (ulid_encode ts r) = Inr (2 ^ 80 * ts + r)"
  using ulid_value_bounds [of ts r] ulid_decode_digits [of "2 ^ 80 * ts + r" 26]
  by (simp add: ulid_decode_def ulid_encode_value)

lemma parse_ulid_encode: "ulid_range ts r \<Longrightarrow> parse_ulid (PyStr (ulid_encode ts r)) = Inr (ulid_encode ts r)"
  by (simp add: parse_ulid_def ulid_length_def ulid_decode_encode) (simp add: ulid_encode_value)

lemma ulid_encode_timestamp: "ulid_range ts r \<Longrightarrow> ulid_timestamp_ms (PyStr (ulid_encode ts r)) = Inr ts"
  by (simp add: ulid_timestamp_ms_def parse_ulid_encode ulid_decode_encode)
    (auto simp: drop_bit_eq_div ulid_range_def max_bounds)

text \<open>Every accepted text is one that \<open>ulid_encode\<close> writes.\<close>

lemma parse_ulid_canonical:
  assumes "parse_ulid value = Inr s"
  obtains ts r where "value = PyStr s" "ulid_range ts r" "s = ulid_encode ts r"
proof -
  have s: "value = PyStr s" "length s = 26" and "\<exists>v. ulid_decode s = Inr v"
    using assms by (auto simp: parse_ulid_def ulid_length_def split: pyval.splits if_splits)
  then obtain v where v: "ulid_decode_loop 0 s = Inr v" "v < 2 ^ 128"
    by (auto simp: ulid_decode_def split: if_splits)
  have inv: "0 \<le> v" "s = ulid_digits 26 v" using ulid_decode_inverse [OF v(1)] s by auto
  have "v div 2 ^ 80 < 2 ^ 48" using v(2) by (simp add: div_less_iff_less_mult)
  then have "ulid_range (v div 2 ^ 80) (v mod 2 ^ 80)"
    using inv(1) by (auto simp: ulid_range_def max_bounds pos_imp_zdiv_nonneg_iff)
  moreover from this have "s = ulid_encode (v div 2 ^ 80) (v mod 2 ^ 80)"
    by (simp add: ulid_encode_value inv(2))
  ultimately show ?thesis using that s by blast
qed

lemma ulid_encode_mono:
  assumes "ulid_range ts r" "ulid_range ts' r'" "ts < ts' \<or> ts = ts' \<and> r < r'"
  shows "ulid_encode ts r < ulid_encode ts' r'"
proof -
  have "2 ^ 80 * ts + r < 2 ^ 80 * ts' + r'"
    using assms by (auto simp: ulid_range_def max_bounds)
  then show ?thesis
    using assms ulid_value_bounds [of ts r] ulid_value_bounds [of ts' r']
    by (simp add: ulid_encode_value ulid_digits_mono)
qed

section \<open>The generators\<close>

definition ulid_fresh :: ulid_state where
  "ulid_fresh = \<lparr>us_last_ms = None, us_randomness = 0\<rparr>"

definition ulid_state_ok :: "ulid_state \<Rightarrow> bool" where
  "ulid_state_ok g \<longleftrightarrow> (case us_last_ms g of None \<Rightarrow> True | Some ms \<Rightarrow> ulid_range ms (us_randomness g))"

definition ulid_before :: "ulid_state \<Rightarrow> pystr \<Rightarrow> bool" where
  "ulid_before g k \<longleftrightarrow> (\<exists>ms. us_last_ms g = Some ms \<and> k \<le> ulid_encode ms (us_randomness g))"

lemma fresh_range: "observation_ok ob \<Longrightarrow> ulid_range (fst ob) (int_from_bytes (snd ob))"
  using int_from_bytes_bounds [of "snd ob"]
  by (auto simp: observation_ok_def ulid_range_def max_bounds)

text \<open>What one commit does, by cases.\<close>

lemma ulid_commit_cases:
  assumes "ulid_commit ob g = (r, g')" "ulid_state_ok g" "observation_ok ob"
  obtains
    (exhausted) ms where "us_last_ms g = Some ms" "fst ob \<le> ms" "us_randomness g = max_randomness"
      "r = Inl (IDOverflowError ''monotonic ULID randomness is exhausted'')" "g' = g"
  | (issued) ms x where "ulid_range ms x" "r = Inr (ulid_encode ms x)"
      "g' = \<lparr>us_last_ms = Some ms, us_randomness = x\<rparr>"
      "\<And>last. us_last_ms g = Some last \<Longrightarrow> last < ms \<or> last = ms \<and> us_randomness g < x"
proof -
  have new: thesis if "ulid_commit ob g = (Inr (ulid_encode (fst ob) (int_from_bytes (snd ob))),
      g\<lparr>us_last_ms := Some (fst ob), us_randomness := int_from_bytes (snd ob)\<rparr>)"
    and "\<And>last. us_last_ms g = Some last \<Longrightarrow> last < fst ob"
    using assms that fresh_range by (intro issued [of "fst ob" "int_from_bytes (snd ob)"]) auto
  show thesis
  proof (cases "us_last_ms g")
    case None
    then show ?thesis by (intro new) (simp_all add: ulid_commit_def split_beta Let_def)
  next
    case (Some ms)
    have range: "ulid_range ms (us_randomness g)" using assms(2) Some by (simp add: ulid_state_ok_def)
    show ?thesis
    proof (cases "ms < fst ob")
      case True
      with Some show ?thesis by (intro new) (simp_all add: ulid_commit_def split_beta Let_def)
    next
      case False
      then have run: "ulid_commit ob g =
          (if us_randomness g = max_randomness
           then (Inl (IDOverflowError ''monotonic ULID randomness is exhausted''), g)
           else (Inr (ulid_encode ms (us_randomness g + 1)),
                 g\<lparr>us_last_ms := Some ms, us_randomness := us_randomness g + 1\<rparr>))"
        using Some by (simp add: ulid_commit_def split_beta Let_def)
      show ?thesis
      proof (cases "us_randomness g = max_randomness")
        case True
        with False assms(1) Some run show ?thesis by (intro exhausted [of ms]) simp_all
      next
        case max: False
        then have "ulid_range ms (us_randomness g + 1)" using range by (simp add: ulid_range_def)
        with max assms(1) Some run show ?thesis by (intro issued [of ms "us_randomness g + 1"]) auto
      qed
    qed
  qed
qed

interpretation ulid: monotonic_generator ulid_commit observation_ok ulid_fresh ulid_state_ok
  "\<lambda>i. i" ulid_before "\<lambda>i. parse_ulid (PyStr i) = Inr i"
proof (unfold_locales, goal_cases)
  case 1
  show ?case by (simp add: ulid_state_ok_def ulid_fresh_def)
next
  case (2 ob g e g')
  then show ?case by (auto simp: ulid_commit_def Let_def split: prod.splits if_splits)
next
  case (3 g ob i g')
  from 3(3) 3(1,2) show ?case
    by (cases rule: ulid_commit_cases) (auto simp: ulid_state_ok_def parse_ulid_encode)
next
  case (4 g ob i g' k)
  from 4(3) 4(1,2) show ?case
  proof (cases rule: ulid_commit_cases)
    case (issued ms x)
    obtain last where last: "us_last_ms g = Some last" "k \<le> ulid_encode last (us_randomness g)"
      using 4(4) by (auto simp: ulid_before_def)
    have "ulid_encode last (us_randomness g) < ulid_encode ms x"
      using issued last 4(1) by (auto intro!: ulid_encode_mono simp: ulid_state_ok_def)
    with last issued show ?thesis by simp
  qed simp
next
  case (5 g ob i g' k)
  from 5(3) 5(1,2) show ?case
  proof (cases rule: ulid_commit_cases)
    case (issued ms x)
    have "ulid_encode last (us_randomness g) < ulid_encode ms x" if "us_last_ms g = Some last" for last
      using issued that 5(1) by (auto intro!: ulid_encode_mono simp: ulid_state_ok_def)
    then show ?thesis using 5(4) issued by (auto simp: ulid_before_def)
  qed simp
qed

text \<open>A call of one thread is an observation and a commit.\<close>

lemma ulid_call_commits:
  assumes "monotonic_ulid_new gen (g, w) = Some (r, (g', w'))" "returns_bytes (ic_random_bytes gen)"
  shows "(\<exists>e. r = Inl e \<and> g' = g) \<or> (\<exists>ob. observation_ok ob \<and> ulid_commit ob g = (r, g'))"
  using assms unfolding monotonic_ulid_new_def by (rule id_call_commits)

section \<open>Properties\<close>

text \<open>
  C39: parse_ulid accepts exactly the texts that the generators write for a 48-bit timestamp and 80
  random bits, returns them unchanged, and ulid_timestamp_ms gives the timestamp back.
\<close>

theorem ulid_roundtrip:
  "(\<forall>ts r. ulid_range ts r \<longrightarrow>
      parse_ulid (PyStr (ulid_encode ts r)) = Inr (ulid_encode ts r)
      \<and> ulid_timestamp_ms (PyStr (ulid_encode ts r)) = Inr ts)
   \<and> (\<forall>value s. parse_ulid value = Inr s \<longrightarrow>
      value = PyStr s \<and> (\<exists>ts r. ulid_range ts r \<and> s = ulid_encode ts r))"
  using parse_ulid_canonical by (simp add: parse_ulid_encode ulid_encode_timestamp) metis

lemma ulid_roundtrip_witness:
  "ulid_range 1469918176385 7 \<and> ulid_encode 1469918176385 7 = ustr ''01ARYZ6S410000000000000007''
   \<and> parse_ulid (PyStr (ulid_encode 1469918176385 7)) = Inr (ulid_encode 1469918176385 7)
   \<and> ulid_timestamp_ms (PyStr (ulid_encode 1469918176385 7)) = Inr 1469918176385"
proof -
  have range: "ulid_range 1469918176385 7" by (simp add: ulid_range_def max_bounds)
  moreover have "ulid_encode 1469918176385 7 = ustr ''01ARYZ6S410000000000000007''" by code_simp
  ultimately show ?thesis using ulid_roundtrip by blast
qed

text \<open>
  C27: whatever the clocks of the threads show and however the threads interleave between reading
  them and taking the lock, a monotonic generator issues valid ULIDs in increasing text order.
\<close>

theorem ulid_monotonic:
  "(id_step ulid_commit observation_ok)\<^sup>*\<^sup>* (id_start ulid_fresh) s \<Longrightarrow>
   sorted_wrt (<) (ir_issued s) \<and> (\<forall>i\<in>set (ir_issued s). parse_ulid (PyStr i) = Inr i)"
  by (blast intro: ulid.issued_increasing ulid.issued_ok)

text \<open>Two threads observe a clock that then runs backwards; the later observation is committed
  first.\<close>

definition ulid_demo :: "(nat, int \<times> pybytes, ulid_state, pystr) id_run" where
  "ulid_demo =
     (let a = (1000, replicate 10 0); b = (999, replicate 10 255);
          s = (id_start ulid_fresh)\<lparr>ir_pending := (\<lambda>_. None)(0 \<mapsto> a, 1 \<mapsto> b)\<rparr>;
          (i, g) = ulid_commit a (ir_gen s);
          (j, h) = ulid_commit b g
      in s\<lparr>ir_gen := h, ir_pending := (\<lambda>_. None), ir_issued := [projr i, projr j]\<rparr>)"

lemma ulid_monotonic_witness:
  "(id_step ulid_commit observation_ok)\<^sup>*\<^sup>* (id_start ulid_fresh) ulid_demo
   \<and> length (ir_issued ulid_demo) = 2 \<and> sorted_wrt (<) (ir_issued ulid_demo)"
proof -
  let ?a = "(1000 :: int, replicate 10 0 :: pybytes)" and ?b = "(999 :: int, replicate 10 255 :: pybytes)"
  define s0 :: "(nat, int \<times> pybytes, ulid_state, pystr) id_run" where "s0 = id_start ulid_fresh"
  define s1 where "s1 = s0\<lparr>ir_pending := (ir_pending s0)(0 \<mapsto> ?a)\<rparr>"
  define s2 where "s2 = s1\<lparr>ir_pending := (ir_pending s1)(1 \<mapsto> ?b)\<rparr>"
  define i where "i = ulid_encode 1000 0"
  define g where "g = \<lparr>us_last_ms = Some 1000, us_randomness = 0\<rparr>"
  define s3 where "s3 = s2\<lparr>ir_gen := g, ir_pending := (ir_pending s2)(0 := None), ir_issued := ir_issued s2 @ [i]\<rparr>"
  define j where "j = ulid_encode 1000 1"
  define h where "h = \<lparr>us_last_ms = Some 1000, us_randomness = 1\<rparr>"
  define s4 where "s4 = s3\<lparr>ir_gen := h, ir_pending := (ir_pending s3)(1 := None), ir_issued := ir_issued s3 @ [j]\<rparr>"
  have a: "ulid_commit ?a ulid_fresh = (Inr i, g)"
    by (simp add: ulid_commit_def ulid_fresh_def i_def g_def Let_def int_from_bytes_def numeral_eq_Suc)
  have b: "ulid_commit ?b g = (Inr j, h)"
    by (simp add: ulid_commit_def g_def h_def j_def Let_def max_bounds)
  have ok: "observation_ok ?a" "observation_ok ?b"
    by (simp_all add: observation_ok_def max_bounds bytes_ok_def list_all_iff)
  have r1: "id_step ulid_commit observation_ok s0 s1"
    unfolding s1_def by (rule id_step.observe) (simp_all add: s0_def id_start_def ok)
  have r2: "id_step ulid_commit observation_ok s1 s2"
    unfolding s2_def by (rule id_step.observe) (simp_all add: s0_def id_start_def s1_def ok)
  have r3: "id_step ulid_commit observation_ok s2 s3"
    unfolding s3_def by (rule id_step.issue [of _ _ ?a]) (simp_all add: s0_def id_start_def s1_def s2_def a)
  have r4: "id_step ulid_commit observation_ok s3 s4"
    unfolding s4_def by (rule id_step.issue [of _ _ ?b]) (simp_all add: s0_def id_start_def s1_def s2_def s3_def b)
  have run: "(id_step ulid_commit observation_ok)\<^sup>*\<^sup>* (id_start ulid_fresh) s4"
    unfolding s0_def [symmetric]
    by (rule id_run_step [OF id_run_step [OF id_run_step [OF id_run_step [OF _ r1] r2] r3] r4]) simp
  moreover have "sorted_wrt (<) (ir_issued s4)" using ulid_monotonic [OF run] by blast
  moreover have "length (ir_issued s4) = 2" by (simp add: s4_def s3_def s2_def s1_def s0_def id_start_def)
  moreover have "s4 = ulid_demo"
    by (auto simp: ulid_demo_def Let_def split_beta s1_def s2_def s3_def s4_def s0_def id_start_def a b)
  ultimately show ?thesis by simp
qed

end
