(* ===== verification/Uuid7.thy ===== *)
theory Uuid7
  imports Ulid
begin

unbundle bit_operations_syntax

text \<open>
  \<open>bluetape.id._uuid\<close>: the monotonic UUIDv7 generator and the timestamp of a UUIDv7, with what they
  use of Python's \<open>uuid.UUID\<close> (range, version, variant, text and the liberal parser of texts) and of
  \<open>int(s, 16)\<close>. A UUID is its 128-bit integer. What Python takes from the Unicode database for texts
  that are not ASCII is a parameter (\<open>unicode_db\<close>).
\<close>

section \<open>Values of \<open>uuid.UUID\<close>\<close>

datatype uuid_variant = Reserved_NCS | RFC_4122 | Reserved_Microsoft | Reserved_Future

definition uuid_of_int :: "int \<Rightarrow> id_exn + int" where
  "uuid_of_int n =
     (if 0 \<le> n \<and> n < push_bit 128 1 then Inr n
      else Inl (ValueError ''int is out of range (need a 128-bit value)''))"

definition uuid_variant :: "int \<Rightarrow> uuid_variant" where
  "uuid_variant n =
     (if n AND push_bit 48 0x8000 = 0 then Reserved_NCS
      else if n AND push_bit 48 0x4000 = 0 then RFC_4122
      else if n AND push_bit 48 0x2000 = 0 then Reserved_Microsoft
      else Reserved_Future)"

definition uuid_version :: "int \<Rightarrow> int option" where
  "uuid_version n = (if uuid_variant n = RFC_4122 then Some (drop_bit 76 n AND 0xf) else None)"

definition hex_char :: "int \<Rightarrow> nat" where
  "hex_char d = nat (if d < 10 then 48 + d else 87 + d)"

primrec hex_digits :: "nat \<Rightarrow> int \<Rightarrow> pystr" where
  "hex_digits 0 v = []"
| "hex_digits (Suc n) v = hex_digits n (v div 16) @ [hex_char (v mod 16)]"

text \<open>\<open>str(u)\<close>: the text \<open>"%032x"\<close> in groups of 8, 4, 4, 4 and 12.\<close>

definition uuid_str :: "int \<Rightarrow> pystr" where
  "uuid_str n =
     (let h = hex_digits 32 n
      in take 8 h @ 45 # take 4 (drop 8 h) @ 45 # take 4 (drop 12 h) @ 45 # take 4 (drop 16 h)
         @ 45 # drop 20 h)"

section \<open>Parsing\<close>

text \<open>\<open>s.replace(sub, "")\<close> for a text \<open>sub\<close> that is not empty, and \<open>s.strip(chars)\<close>.\<close>

function remove_text :: "pystr \<Rightarrow> pystr \<Rightarrow> pystr" where
  "remove_text sub [] = []"
| "remove_text sub (c # s) =
     (if sub \<noteq> [] \<and> take (length sub) (c # s) = sub then remove_text sub (drop (length sub - 1) s)
      else c # remove_text sub s)"
  by pat_completeness auto
termination
  by (relation "measure (\<lambda>(_, s). length s)") auto

definition strip_chars :: "pystr \<Rightarrow> pystr \<Rightarrow> pystr" where
  "strip_chars chars s =
     rev (dropWhile (\<lambda>c. c \<in> set chars) (rev (dropWhile (\<lambda>c. c \<in> set chars) s)))"

record unicode_db =
  ud_lower :: "pystr \<Rightarrow> pystr"
  ud_decimal :: "pystr \<Rightarrow> pystr"

definition str_lower :: "unicode_db \<Rightarrow> pystr \<Rightarrow> pystr" where
  "str_lower db s =
     (if list_all (\<lambda>c. c < 128) s then map (\<lambda>c. if 65 \<le> c \<and> c \<le> 90 then c + 32 else c) s
      else ud_lower db s)"

text \<open>\<open>int(s, 16)\<close>: white space around, a sign, the prefix \<open>0x\<close>, and single underscores between
  digits and after the prefix. Texts that are not ASCII are translated first.\<close>

definition c_space :: "nat \<Rightarrow> bool" where
  "c_space c \<longleftrightarrow> 9 \<le> c \<and> c \<le> 13 \<or> c = 32"

definition hex_value :: "nat \<Rightarrow> int option" where
  "hex_value c =
     (if 48 \<le> c \<and> c \<le> 57 then Some (int c - 48)
      else if 97 \<le> c \<and> c \<le> 102 then Some (int c - 87)
      else if 65 \<le> c \<and> c \<le> 70 then Some (int c - 55) else None)"

text \<open>\<open>after\<close>: the last character was a digit, so that an underscore may follow.\<close>

fun hex_loop :: "bool \<Rightarrow> int \<Rightarrow> pystr \<Rightarrow> int option" where
  "hex_loop after acc [] = (if after then Some acc else None)"
| "hex_loop after acc (c # s) =
     (if c = 95 then (if after then hex_loop False acc s else None)
      else case hex_value c of
        Some d \<Rightarrow> hex_loop True (16 * acc + d) s
      | None \<Rightarrow> if after \<and> list_all c_space (c # s) then Some acc else None)"

definition starts :: "nat \<Rightarrow> pystr \<Rightarrow> bool" where
  "starts c s \<longleftrightarrow> s \<noteq> [] \<and> hd s = c"

definition hex_prefix :: "pystr \<Rightarrow> pystr" where
  "hex_prefix s =
     (if starts 48 s \<and> (starts 120 (tl s) \<or> starts 88 (tl s))
      then let t = tl (tl s) in if starts 95 t then tl t else t
      else s)"

definition int_base16 :: "unicode_db \<Rightarrow> pystr \<Rightarrow> id_exn + int" where
  "int_base16 db s =
     (let t = (if list_all (\<lambda>c. c < 128) s then s else ud_decimal db s);
          u = dropWhile c_space t;
          v = (if starts 45 u \<or> starts 43 u then tl u else u)
      in case hex_loop False 0 (hex_prefix v) of
           None \<Rightarrow> Inl (ValueError ''invalid literal for int() with base 16'')
         | Some n \<Rightarrow> Inr (if starts 45 u then - n else n))"

text \<open>\<open>uuid.UUID(s)\<close>.\<close>

definition uuid_of_str :: "unicode_db \<Rightarrow> pystr \<Rightarrow> id_exn + int" where
  "uuid_of_str db s =
     (let h = remove_text (ustr ''uuid:'') (remove_text (ustr ''urn:'') s);
          h = remove_text (ustr ''-'') (strip_chars (ustr ''{}'') h)
      in if length h \<noteq> 32 then Inl (ValueError ''badly formed hexadecimal UUID string'')
         else ebind (int_base16 db h) uuid_of_int)"

text \<open>The argument of \<open>uuid7_timestamp_ms\<close>.\<close>

datatype uuid_arg = UuidStr pystr | UuidObject int | UuidOther

definition canonical_uuid_error :: id_exn where
  "canonical_uuid_error = InvalidIDError ''value must be a canonical lowercase UUIDv7 string''"

definition uuid7_timestamp_ms :: "unicode_db \<Rightarrow> uuid_arg \<Rightarrow> id_exn + int" where
  "uuid7_timestamp_ms db value =
     ebind
       (case value of
          UuidStr s \<Rightarrow>
            if length s \<noteq> 36 \<or> s \<noteq> str_lower db s then Inl canonical_uuid_error
            else (case uuid_of_str db s of
                    Inl (ValueError _) \<Rightarrow> Inl canonical_uuid_error
                  | Inl e \<Rightarrow> Inl e
                  | Inr parsed \<Rightarrow> if uuid_str parsed \<noteq> s then Inl canonical_uuid_error else Inr parsed)
        | UuidObject n \<Rightarrow> Inr n
        | UuidOther \<Rightarrow> Inl (TypeError ''value must be a UUID or canonical UUID string''))
       (\<lambda>parsed.
          if uuid_version parsed \<noteq> Some 7 \<or> uuid_variant parsed \<noteq> RFC_4122
          then Inl (InvalidIDError ''value must be an RFC UUIDv7'')
          else Inr (drop_bit 80 parsed))"

section \<open>Generators\<close>

text \<open>\<open>uuid.uuid4()\<close>; the 16 bytes of \<open>os.urandom\<close> are the argument.\<close>

definition uuid4 :: "pybytes \<Rightarrow> id_exn + int" where
  "uuid4 random =
     (let n = int_from_bytes random;
          n = n AND NOT (push_bit 48 0xc000);
          n = n OR push_bit 48 0x8000;
          n = n AND NOT (push_bit 64 0xf000);
          n = n OR push_bit 76 4
      in uuid_of_int n)"

definition rand_a_mask :: int where
  "rand_a_mask = push_bit 12 1 - 1"

definition rand_b_mask :: int where
  "rand_b_mask = push_bit 62 1 - 1"

record uuid7_state =
  u7_last_ms :: "int option"
  u7_counter :: int

definition uuid7_init ::
  "('w, id_exn, pyval) act callback \<Rightarrow> (int \<Rightarrow> ('w, id_exn, pyval) act) callback
   \<Rightarrow> id_exn + 'w id_callbacks \<times> uuid7_state" where
  "uuid7_init clock random_bytes =
     ebind (require_callback clock ''clock'') (\<lambda>c.
     ebind (require_callback random_bytes ''random_bytes'') (\<lambda>r.
       Inr (\<lparr>ic_clock = c, ic_random_bytes = r\<rparr>, \<lparr>u7_last_ms = None, u7_counter = 0\<rparr>)))"

text \<open>What is computed before the lock is taken, and the block under the lock.\<close>

definition uuid7_seed :: "pybytes \<Rightarrow> int" where
  "uuid7_seed entropy = int_from_bytes (take 2 entropy) AND rand_a_mask"

definition uuid7_random_bits :: "pybytes \<Rightarrow> int" where
  "uuid7_random_bits entropy = int_from_bytes (drop 2 entropy) AND rand_b_mask"

definition uuid7_value :: "int \<Rightarrow> int \<Rightarrow> int \<Rightarrow> int" where
  "uuid7_value logical_ms counter random_bits =
     (((push_bit 80 logical_ms OR push_bit 76 7) OR push_bit 64 counter) OR push_bit 62 2) OR random_bits"

definition uuid7_commit :: "int \<times> pybytes \<Rightarrow> uuid7_state \<Rightarrow> (id_exn + int) \<times> uuid7_state" where
  "uuid7_commit ob g =
     (let (observed_ms, entropy) = ob;
          seed = uuid7_seed entropy;
          random_bits = uuid7_random_bits entropy;
          advance = (case u7_last_ms g of None \<Rightarrow> True | Some last_ms \<Rightarrow> observed_ms > last_ms);
          store = (\<lambda>logical_ms counter.
            case uuid_of_int (uuid7_value logical_ms counter random_bits) of
              Inl e \<Rightarrow> (Inl e, g)
            | Inr value \<Rightarrow> (Inr value, g\<lparr>u7_last_ms := Some logical_ms, u7_counter := counter\<rparr>))
      in if advance then store observed_ms seed
         else if u7_counter g < rand_a_mask then store (the (u7_last_ms g)) (u7_counter g + 1)
         else let logical_ms = the (u7_last_ms g) + 1
              in if logical_ms > max_timestamp
                 then (Inl (IDOverflowError ''UUIDv7 timestamp range is exhausted''), g)
                 else store logical_ms seed)"

definition uuid7_new :: "'w id_callbacks \<Rightarrow> (uuid7_state \<times> 'w, id_exn, int) act" where
  "uuid7_new gen =
     act_bind (on_world (read_timestamp (ic_clock gen))) (\<lambda>observed_ms.
     act_bind (on_world (read_entropy (ic_random_bytes gen))) (\<lambda>entropy.
       locked (uuid7_commit (observed_ms, entropy))))"

section \<open>Fields of a value\<close>

definition uuid7_range :: "int \<Rightarrow> int \<Rightarrow> int \<Rightarrow> bool" where
  "uuid7_range ms counter r \<longleftrightarrow>
     0 \<le> ms \<and> ms \<le> max_timestamp \<and> 0 \<le> counter \<and> counter \<le> rand_a_mask \<and> 0 \<le> r \<and> r \<le> rand_b_mask"

lemma mask_bounds: "rand_a_mask = 2 ^ 12 - 1" "rand_b_mask = 2 ^ 62 - 1"
  by (simp_all add: rand_a_mask_def rand_b_mask_def)

lemma uuid7_value_sum:
  assumes "uuid7_range ms c r"
  shows "uuid7_value ms c r = 2 ^ 80 * ms + 7 * 2 ^ 76 + 2 ^ 64 * c + 2 ^ 63 + r"
proof -
  have "push_bit 80 ms OR push_bit 76 7 = push_bit 64 (2 ^ 16 * ms + 7 * 2 ^ 12)"
    using or_shift [of "push_bit 76 7" 80 ms] by (simp add: push_bit_eq_mult)
  moreover have "push_bit 64 (2 ^ 16 * ms + 7 * 2 ^ 12) OR push_bit 64 c
      = push_bit 64 (2 ^ 16 * ms + 7 * 2 ^ 12 + c)"
  proof -
    have "push_bit 12 (2 ^ 4 * ms + 7) OR c = 2 ^ 12 * (2 ^ 4 * ms + 7) + c"
      using assms by (intro or_shift) (auto simp: uuid7_range_def mask_bounds)
    then show ?thesis
      by (simp only: push_bit_or [symmetric]) (simp add: push_bit_eq_mult algebra_simps)
  qed
  moreover have "push_bit 64 (2 ^ 16 * ms + 7 * 2 ^ 12 + c) OR push_bit 62 2
      = push_bit 62 (4 * (2 ^ 16 * ms + 7 * 2 ^ 12 + c) + 2)"
    using or_shift [of "push_bit 62 2" 64 "2 ^ 16 * ms + 7 * 2 ^ 12 + c"]
    by (simp add: push_bit_eq_mult algebra_simps)
  moreover have "push_bit 62 (4 * (2 ^ 16 * ms + 7 * 2 ^ 12 + c) + 2) OR r
      = 2 ^ 62 * (4 * (2 ^ 16 * ms + 7 * 2 ^ 12 + c) + 2) + r"
    using assms by (intro or_shift) (auto simp: uuid7_range_def mask_bounds)
  ultimately show ?thesis by (simp add: uuid7_value_def)
qed

lemma uuid7_value_bounds: "uuid7_range ms c r \<Longrightarrow> 0 \<le> uuid7_value ms c r \<and> uuid7_value ms c r < 2 ^ 128"
  by (simp add: uuid7_value_sum) (auto simp: uuid7_range_def mask_bounds max_bounds)

lemma uuid7_value_of_int: "uuid7_range ms c r \<Longrightarrow> uuid_of_int (uuid7_value ms c r) = Inr (uuid7_value ms c r)"
  using uuid7_value_bounds by (simp add: uuid_of_int_def)

lemma uuid_variant_bits:
  "uuid_variant n = RFC_4122 \<longleftrightarrow> odd (n div 2 ^ 63) \<and> even (n div 2 ^ 62)"
  using and_exp_eq_0_iff_not_bit [of n 63] and_exp_eq_0_iff_not_bit [of n 62]
  by (simp add: uuid_variant_def bit_iff_odd)

lemma uuid7_value_fields:
  assumes "uuid7_range ms c r"
  shows "uuid_version (uuid7_value ms c r) = Some 7" "uuid_variant (uuid7_value ms c r) = RFC_4122"
    "drop_bit 80 (uuid7_value ms c r) = ms"
proof -
  have r: "0 \<le> r" "r < 2 ^ 62" and c: "0 \<le> c" "c < 2 ^ 12"
    using assms by (auto simp: uuid7_range_def mask_bounds)
  let ?v = "uuid7_value ms c r"
  note v = uuid7_value_sum [OF assms]
  have "?v div 2 ^ 62 = 2 ^ 18 * ms + 7 * 2 ^ 14 + 4 * c + 2" using r by (simp add: v)
  moreover have "?v div 2 ^ 63 = 2 ^ 17 * ms + 7 * 2 ^ 13 + 2 * c + 1" using r by (simp add: v)
  ultimately show var: "uuid_variant ?v = RFC_4122" by (simp add: uuid_variant_bits)
  have "?v div 2 ^ 76 = 16 * ms + 7" using r c by (simp add: v)
  moreover have "(16 * ms + 7) AND 15 = 7"
    using take_bit_eq_mask [of 4 "16 * ms + 7"] by (simp add: take_bit_eq_mod mask_eq_exp_minus_1)
  ultimately show "uuid_version ?v = Some 7" by (simp add: uuid_version_def var drop_bit_eq_div)
  show "drop_bit 80 ?v = ms" using r c by (simp add: v drop_bit_eq_div)
qed

section \<open>Text of a value\<close>

lemma length_hex_digits [simp]: "length (hex_digits n v) = n"
  by (induction n arbitrary: v) auto

lemma hex_char_range: "0 \<le> d \<Longrightarrow> d < 16 \<Longrightarrow> 48 \<le> hex_char d \<and> hex_char d \<le> 57 \<or> 97 \<le> hex_char d \<and> hex_char d \<le> 102"
  by (auto simp: hex_char_def)

lemma hex_value_char: "0 \<le> d \<Longrightarrow> d < 16 \<Longrightarrow> hex_value (hex_char d) = Some d"
  by (auto simp: hex_value_def hex_char_def)

definition hex_text :: "pystr \<Rightarrow> bool" where
  "hex_text s \<longleftrightarrow> (\<forall>c\<in>set s. 48 \<le> c \<and> c \<le> 57 \<or> 97 \<le> c \<and> c \<le> 102)"

lemma hex_digits_text: "hex_text (hex_digits n v)"
  using hex_char_range by (induction n arbitrary: v) (auto simp: hex_text_def)

lemma hex_loop_digits:
  "0 \<le> v \<Longrightarrow> v < 16 ^ n \<Longrightarrow> 0 < n \<or> after \<Longrightarrow>
   hex_loop after acc (hex_digits n v @ s) = hex_loop True (16 ^ n * acc + v) s"
proof (induction n arbitrary: v s)
  case 0
  then have "v = 0" "after" by simp_all
  then show ?case by simp
next
  case (Suc n)
  have bound: "v div 16 < 16 ^ n" using Suc.prems by (simp add: div_less_iff_less_mult mult.commute)
  have char: "hex_char (v mod 16) \<noteq> 95" using hex_char_range [of "v mod 16"] by auto
  have step: "hex_loop b a (hex_char (v mod 16) # s) = hex_loop True (16 * a + v mod 16) s" for a b
    using char by (simp add: hex_value_char)
  show ?case
  proof (cases "0 < n \<or> after")
    case True
    then show ?thesis
      using Suc.IH [of "v div 16" "hex_char (v mod 16) # s"] Suc.prems(1) bound step
      by (simp add: algebra_simps)
  next
    case False
    moreover have "v mod 16 = v" using False Suc.prems by simp
    ultimately show ?thesis using step [of after acc] by (simp del: hex_loop.simps)
  qed
qed

text \<open>Nothing that the parser removes occurs in digits and dashes.\<close>

lemma remove_text_absent: "c \<in> set sub \<Longrightarrow> c \<notin> set s \<Longrightarrow> remove_text sub s = s"
proof (induction sub s rule: remove_text.induct)
  case (2 sub x s)
  have "take (length sub) (x # s) \<noteq> sub"
    using 2(3,4) by (metis in_set_takeD)
  then show ?case using 2 by auto
qed simp

lemma remove_char: "remove_text [c] s = filter (\<lambda>x. x \<noteq> c) s"
  by (induction s) auto

lemma dropWhile_none: "\<forall>c\<in>set s. \<not> P c \<Longrightarrow> dropWhile P s = s"
  by (cases s) auto

lemma strip_chars_absent: "\<forall>c\<in>set s. c \<notin> set chars \<Longrightarrow> strip_chars chars s = s"
  by (simp add: strip_chars_def dropWhile_none)

lemma set_uuid_str: "set (uuid_str n) \<subseteq> insert 45 (set (hex_digits 32 n))"
  by (auto simp: uuid_str_def Let_def dest: in_set_takeD in_set_dropD)

lemma uuid_str_chars: "c \<in> set (uuid_str n) \<Longrightarrow> c = 45 \<or> 48 \<le> c \<and> c \<le> 57 \<or> 97 \<le> c \<and> c \<le> 102"
  using set_uuid_str hex_digits_text unfolding hex_text_def by blast

lemma length_uuid_str [simp]: "length (uuid_str n) = 36"
  by (simp add: uuid_str_def Let_def)

lemma uuid_str_lower: "str_lower db (uuid_str n) = uuid_str n"
proof -
  have "c < 128 \<and> \<not> (65 \<le> c \<and> c \<le> 90)" if "c \<in> set (uuid_str n)" for c
    using uuid_str_chars [OF that] by auto
  then show ?thesis by (auto simp: str_lower_def list_all_iff intro!: map_idI)
qed

lemma filter_uuid_str: "filter (\<lambda>x. x \<noteq> 45) (uuid_str n) = hex_digits 32 n"
proof -
  define h where "h = hex_digits 32 n"
  have "x \<noteq> 45" if "x \<in> set h" for x using hex_digits_text [of 32 n] that by (auto simp: h_def hex_text_def)
  then have "filter (\<lambda>x. x \<noteq> 45) t = t" if "set t \<subseteq> set h" for t
    using that by (auto simp: filter_id_conv)
  moreover have "set (take i (drop k h)) \<subseteq> set h" for i k by (meson in_set_takeD in_set_dropD subsetI)
  ultimately have "filter (\<lambda>x. x \<noteq> 45) (uuid_str n) =
      take 8 h @ take 4 (drop 8 h) @ take 4 (drop 12 h) @ take 4 (drop 16 h) @ drop 20 h"
    by (simp add: uuid_str_def Let_def h_def [symmetric] set_take_subset set_drop_subset)
  also have "\<dots> = h"
    using append_take_drop_id [of 4 "drop 16 h"] append_take_drop_id [of 4 "drop 12 h"]
      append_take_drop_id [of 4 "drop 8 h"] append_take_drop_id [of 8 h]
    by simp
  finally show ?thesis by (simp add: h_def)
qed

lemma int_base16_digits:
  assumes "0 \<le> n" "n < 16 ^ m" "0 < m"
  shows "int_base16 db (hex_digits m n) = Inr n"
proof -
  let ?h = "hex_digits m n"
  have chars: "c < 128 \<and> \<not> c_space c \<and> c \<noteq> 45 \<and> c \<noteq> 43 \<and> c \<noteq> 120 \<and> c \<noteq> 88" if "c \<in> set ?h" for c
    using hex_digits_text [of m n] that by (auto simp: hex_text_def c_space_def)
  have ne: "?h \<noteq> []" using assms(3) by (metis length_hex_digits length_greater_0_conv)
  have "hd ?h \<in> set ?h" using ne by simp
  then have "dropWhile c_space ?h = ?h" using chars by (simp add: dropWhile_eq_self_iff)
  moreover have "\<not> starts 45 ?h" "\<not> starts 43 ?h"
    using \<open>hd ?h \<in> set ?h\<close> chars by (auto simp: starts_def)
  moreover have "hex_prefix ?h = ?h"
    using chars list.set_sel(2) [OF ne] by (auto simp: hex_prefix_def starts_def dest: hd_in_set)
  moreover have "hex_loop False 0 ?h = Some n"
    using hex_loop_digits [of n m False 0 "[]"] assms by simp
  ultimately show ?thesis using chars by (simp add: int_base16_def Let_def list_all_iff)
qed

lemma uuid_of_str_str: "0 \<le> n \<Longrightarrow> n < 2 ^ 128 \<Longrightarrow> uuid_of_str db (uuid_str n) = Inr n"
proof -
  assume n: "0 \<le> n" "n < 2 ^ 128"
  have absent: "c \<notin> set (uuid_str n)" if "c = 117 \<or> c = 123 \<or> c = 125" for c
    using uuid_str_chars [of c n] that by auto
  have "remove_text (ustr ''urn:'') (uuid_str n) = uuid_str n"
    "remove_text (ustr ''uuid:'') (uuid_str n) = uuid_str n"
    by (rule remove_text_absent [of 117]; simp add: ustr_def absent)+
  moreover have "strip_chars (ustr ''{}'') (uuid_str n) = uuid_str n"
    using absent by (intro strip_chars_absent) (auto simp: ustr_def)
  moreover have "remove_text (ustr ''-'') (uuid_str n) = hex_digits 32 n"
    using remove_char [of 45 "uuid_str n"] by (simp add: ustr_def filter_uuid_str)
  moreover have "int_base16 db (hex_digits 32 n) = Inr n" using n by (intro int_base16_digits) auto
  ultimately show ?thesis using n by (simp add: uuid_of_str_def Let_def uuid_of_int_def)
qed

lemma uuid_of_str_range: "uuid_of_str db s = Inr n \<Longrightarrow> 0 \<le> n \<and> n < 2 ^ 128"
  by (auto simp: uuid_of_str_def Let_def uuid_of_int_def split: if_splits)

section \<open>The monotonic generator\<close>

definition uuid7_fresh :: uuid7_state where
  "uuid7_fresh = \<lparr>u7_last_ms = None, u7_counter = 0\<rparr>"

definition uuid7_state_ok :: "uuid7_state \<Rightarrow> bool" where
  "uuid7_state_ok g \<longleftrightarrow>
     (case u7_last_ms g of
        None \<Rightarrow> True
      | Some ms \<Rightarrow> 0 \<le> ms \<and> ms \<le> max_timestamp \<and> 0 \<le> u7_counter g \<and> u7_counter g \<le> rand_a_mask)"

text \<open>An identifier with the stored timestamp and counter may have any random bits, so that what may
  have been issued lies below the next counter value.\<close>

definition uuid7_before :: "uuid7_state \<Rightarrow> int \<Rightarrow> bool" where
  "uuid7_before g k \<longleftrightarrow>
     (\<exists>ms. u7_last_ms g = Some ms \<and> k < 2 ^ 80 * ms + 7 * 2 ^ 76 + 2 ^ 64 * (u7_counter g + 1))"

definition is_uuid7 :: "int \<Rightarrow> bool" where
  "is_uuid7 n \<longleftrightarrow> uuid_of_int n = Inr n \<and> uuid_version n = Some 7 \<and> uuid_variant n = RFC_4122"

lemma uuid7_value_is: "uuid7_range ms c r \<Longrightarrow> is_uuid7 (uuid7_value ms c r)"
  by (simp add: is_uuid7_def uuid7_value_of_int uuid7_value_fields)

lemma uuid7_parts:
  "0 \<le> uuid7_seed entropy \<and> uuid7_seed entropy \<le> rand_a_mask"
  "0 \<le> uuid7_random_bits entropy \<and> uuid7_random_bits entropy \<le> rand_b_mask"
  using mask_eq_exp_minus_1 [where 'a = int] take_bit_nonnegative take_bit_int_less_exp
  by (simp_all add: uuid7_seed_def uuid7_random_bits_def mask_bounds
      take_bit_eq_mask [of 12, symmetric, simplified mask_eq_exp_minus_1, simplified]
      take_bit_eq_mask [of 62, symmetric, simplified mask_eq_exp_minus_1, simplified])

text \<open>What one commit does, by cases.\<close>

lemma uuid7_commit_cases:
  assumes "uuid7_commit ob g = (r, g')" "uuid7_state_ok g" "observation_ok ob"
  obtains
    (exhausted) "u7_last_ms g = Some max_timestamp" "u7_counter g = rand_a_mask"
      "r = Inl (IDOverflowError ''UUIDv7 timestamp range is exhausted'')" "g' = g"
  | (issued) ms c x where "uuid7_range ms c x" "r = Inr (uuid7_value ms c x)"
      "g' = \<lparr>u7_last_ms = Some ms, u7_counter = c\<rparr>"
      "\<And>last. u7_last_ms g = Some last \<Longrightarrow> last < ms \<or> last = ms \<and> u7_counter g < c"
proof -
  let ?seed = "uuid7_seed (snd ob)" and ?x = "uuid7_random_bits (snd ob)"
  have new: thesis if "0 \<le> ms" "ms \<le> max_timestamp" "0 \<le> c" "c \<le> rand_a_mask"
    and "uuid7_commit ob g =
      (case uuid_of_int (uuid7_value ms c ?x) of
         Inl e \<Rightarrow> (Inl e, g) | Inr value \<Rightarrow> (Inr value, g\<lparr>u7_last_ms := Some ms, u7_counter := c\<rparr>))"
    and "\<And>last. u7_last_ms g = Some last \<Longrightarrow> last < ms \<or> last = ms \<and> u7_counter g < c" for ms c
  proof -
    have "uuid7_range ms c ?x" using that uuid7_parts(2) [of "snd ob"] by (simp add: uuid7_range_def)
    then show thesis using assms(1) that(5,6) uuid7_value_of_int by (intro issued [of ms c ?x]) auto
  qed
  have obs: "0 \<le> fst ob" "fst ob \<le> max_timestamp" using assms(3) by (simp_all add: observation_ok_def)
  note seed = uuid7_parts(1) [of "snd ob"]
  show thesis
  proof (cases "u7_last_ms g")
    case None
    then show ?thesis
      using obs seed by (intro new [of "fst ob" ?seed]) (simp_all add: uuid7_commit_def split_beta Let_def)
  next
    case (Some ms)
    have ok: "0 \<le> ms" "ms \<le> max_timestamp" "0 \<le> u7_counter g" "u7_counter g \<le> rand_a_mask"
      using assms(2) Some by (simp_all add: uuid7_state_ok_def)
    consider "ms < fst ob" | "\<not> ms < fst ob" "u7_counter g < rand_a_mask"
      | "\<not> ms < fst ob" "u7_counter g = rand_a_mask" "ms < max_timestamp"
      | "\<not> ms < fst ob" "u7_counter g = rand_a_mask" "ms = max_timestamp"
      using ok by linarith
    then show ?thesis
    proof cases
      case 1
      then show ?thesis
        using Some obs seed by (intro new [of "fst ob" ?seed]) (simp_all add: uuid7_commit_def split_beta Let_def)
    next
      case 2
      then show ?thesis
        using Some ok by (intro new [of ms "u7_counter g + 1"]) (simp_all add: uuid7_commit_def split_beta Let_def split: sum.split)
    next
      case 3
      then show ?thesis
        using Some ok seed by (intro new [of "ms + 1" ?seed]) (simp_all add: uuid7_commit_def split_beta Let_def split: sum.split)
    next
      case 4
      then show ?thesis
        using Some assms(1) by (intro exhausted) (simp_all add: uuid7_commit_def split_beta Let_def)
    qed
  qed
qed

lemma uuid7_value_above:
  assumes "uuid7_range ms c x" "prev < ms \<or> prev = ms \<and> counter < c" "0 \<le> counter" "counter \<le> rand_a_mask"
  shows "2 ^ 80 * prev + 7 * 2 ^ 76 + 2 ^ 64 * (counter + 1) \<le> uuid7_value ms c x"
  using assms unfolding uuid7_value_sum [OF assms(1)] by (auto simp: uuid7_range_def mask_bounds)

lemma uuid7_value_below: "uuid7_range ms c x \<Longrightarrow> uuid7_value ms c x < 2 ^ 80 * ms + 7 * 2 ^ 76 + 2 ^ 64 * (c + 1)"
  unfolding uuid7_value_sum by (auto simp: uuid7_value_sum uuid7_range_def mask_bounds)

interpretation uuid7: monotonic_generator uuid7_commit observation_ok uuid7_fresh uuid7_state_ok
  "\<lambda>i. i" uuid7_before is_uuid7
proof (unfold_locales, goal_cases)
  case 1
  show ?case by (simp add: uuid7_state_ok_def uuid7_fresh_def)
next
  case (2 ob g e g')
  then show ?case by (auto simp: uuid7_commit_def Let_def split: prod.splits if_splits sum.splits)
next
  case (3 g ob i g')
  from 3(3) 3(1,2) show ?case
    by (cases rule: uuid7_commit_cases) (auto simp: uuid7_state_ok_def uuid7_value_is uuid7_range_def)
next
  case (4 g ob i g' k)
  from 4(3) 4(1,2) show ?case
  proof (cases rule: uuid7_commit_cases)
    case (issued ms c x)
    obtain last where last: "u7_last_ms g = Some last"
      "k < 2 ^ 80 * last + 7 * 2 ^ 76 + 2 ^ 64 * (u7_counter g + 1)"
      using 4(4) by (auto simp: uuid7_before_def)
    have "2 ^ 80 * last + 7 * 2 ^ 76 + 2 ^ 64 * (u7_counter g + 1) \<le> uuid7_value ms c x"
      using issued(4) [OF last(1)] 4(1) last(1)
      by (intro uuid7_value_above [OF issued(1)]) (auto simp: uuid7_state_ok_def)
    with last issued(2) show ?thesis by simp
  qed simp
next
  case (5 g ob i g' k)
  from 5(3) 5(1,2) show ?case
  proof (cases rule: uuid7_commit_cases)
    case (issued ms c x)
    have "2 ^ 80 * last + 7 * 2 ^ 76 + 2 ^ 64 * (u7_counter g + 1) \<le> uuid7_value ms c x"
      if "u7_last_ms g = Some last" for last
      using issued(4) [OF that] 5(1) that
      by (intro uuid7_value_above [OF issued(1)]) (auto simp: uuid7_state_ok_def)
    then show ?thesis
      using 5(4) issued(2,3) uuid7_value_below [OF issued(1)] by (fastforce simp: uuid7_before_def)
  qed simp
qed

text \<open>A call of one thread is an observation and a commit.\<close>

lemma uuid7_call_commits:
  assumes "uuid7_new gen (g, w) = Some (r, (g', w'))" "returns_bytes (ic_random_bytes gen)"
  shows "(\<exists>e. r = Inl e \<and> g' = g) \<or> (\<exists>ob. observation_ok ob \<and> uuid7_commit ob g = (r, g'))"
  using assms unfolding uuid7_new_def by (rule id_call_commits)

lemma uuid7_timestamp_str:
  assumes "is_uuid7 n"
  shows "uuid7_timestamp_ms db (UuidStr (uuid_str n)) = Inr (n div 2 ^ 80)"
    "uuid7_timestamp_ms db (UuidObject n) = Inr (n div 2 ^ 80)"
proof -
  have n: "0 \<le> n" "n < 2 ^ 128" using assms by (auto simp: is_uuid7_def uuid_of_int_def split: if_splits)
  show "uuid7_timestamp_ms db (UuidStr (uuid_str n)) = Inr (n div 2 ^ 80)"
    "uuid7_timestamp_ms db (UuidObject n) = Inr (n div 2 ^ 80)"
    using assms uuid_of_str_str [OF n, of db] uuid_str_lower [of db n]
    by (simp_all add: uuid7_timestamp_ms_def is_uuid7_def drop_bit_eq_div)
qed

lemma uuid7_timestamp_canonical:
  assumes "uuid7_timestamp_ms db (UuidStr s) = Inr t"
  shows "\<exists>n. is_uuid7 n \<and> s = uuid_str n \<and> t = n div 2 ^ 80"
proof -
  obtain n where n: "uuid_of_str db s = Inr n" "uuid_str n = s" "uuid_version n = Some 7"
    "uuid_variant n = RFC_4122" "t = n div 2 ^ 80"
    using assms by (auto simp: uuid7_timestamp_ms_def drop_bit_eq_div split: if_splits sum.splits id_exn.splits)
  then have "is_uuid7 n" using uuid_of_str_range [OF n(1)] by (simp add: is_uuid7_def uuid_of_int_def)
  with n show ?thesis by blast
qed

section \<open>Random UUIDs\<close>

lemma uuid4_ok:
  assumes "length random = 16" "bytes_ok random"
  shows "\<exists>n. uuid4 random = Inr n \<and> uuid_version n = Some 4 \<and> uuid_variant n = RFC_4122"
proof -
  define m where "m = int_from_bytes random"
  define n where "n = (((m AND NOT (push_bit 48 0xc000)) OR push_bit 48 0x8000) AND NOT (push_bit 64 0xf000)) OR push_bit 76 4"
  have m: "0 \<le> m" "m < 2 ^ 128" using int_from_bytes_bounds [OF assms(2)] assms(1) by (simp_all add: m_def)
  have and_bound: "0 \<le> x AND y \<and> x AND y < 2 ^ 128" if "0 \<le> x" "x < 2 ^ 128" for x y :: int
    using AND_upper1 [OF that(1), of y] that by simp
  have or_bound: "0 \<le> x OR y \<and> x OR y < 2 ^ 128" if "0 \<le> x \<and> x < 2 ^ 128" "0 \<le> y" "y < 2 ^ 128" for x y :: int
    using OR_upper [of x 128 y] that by simp
  have "0 \<le> n \<and> n < 2 ^ 128"
    unfolding n_def using m by (intro or_bound and_bound conjunct1 [OF or_bound] conjunct2 [OF or_bound]) simp_all
  then have "uuid4 random = Inr n"
    by (simp add: uuid4_def Let_def n_def m_def uuid_of_int_def)
  moreover have "bit n 63" "\<not> bit n 62"
    by (simp_all add: n_def bit_simps)
  then have "uuid_variant n = RFC_4122" by (simp add: uuid_variant_bits bit_iff_odd)
  moreover have "drop_bit 76 n AND 15 = 4"
  proof (rule bit_eqI)
    fix k :: nat
    have "k < 4 \<Longrightarrow> k = 0 \<or> k = 1 \<or> k = 2 \<or> k = 3" by auto
    moreover have "\<not> bit (4 :: int) k \<and> \<not> bit (15 :: int) k" if "\<not> k < 4"
    proof -
      have "(2 :: int) ^ 4 \<le> 2 ^ k" using that by (intro power_increasing) simp_all
      then show ?thesis by (simp add: bit_iff_odd)
    qed
    ultimately show "bit (drop_bit 76 n AND 15) k = bit (4 :: int) k"
      by (cases "k < 4") (auto simp: n_def bit_simps)
  qed
  ultimately show ?thesis by (simp add: uuid_version_def)
qed
section \<open>Properties\<close>

text \<open>
  C29: whatever the clocks show and however the threads interleave, the generator issues RFC 9562
  version 7 UUIDs of 128 bits, each greater than all those issued before, also across the overflow of
  the 12-bit counter into the next millisecond.
\<close>

theorem uuid7_monotonic:
  "(id_step uuid7_commit observation_ok)\<^sup>*\<^sup>* (id_start uuid7_fresh) s \<Longrightarrow>
   sorted_wrt (<) (ir_issued s) \<and> (\<forall>n\<in>set (ir_issued s). is_uuid7 n)"
  by (blast intro: uuid7.issued_increasing uuid7.issued_ok)

lemma uuid7_monotonic_witness:
  "snd (id_calls uuid7_commit [(5, replicate 10 255), (3, replicate 10 255)] uuid7_fresh [])
     = [0x57FFFBFFFFFFFFFFFFFFF, 0x67FFFBFFFFFFFFFFFFFFF]
   \<and> sorted_wrt (<) (snd (id_calls uuid7_commit [(5, replicate 10 255), (3, replicate 10 255)] uuid7_fresh []))"
  (is "snd ?run = _ \<and> _")
proof -
  have "\<forall>ob\<in>set [(5, replicate 10 255), (3, replicate 10 255)]. observation_ok ob"
    by (simp add: observation_ok_def max_bounds bytes_ok_def list_all_iff)
  from id_calls_run [OF this, where 't = nat and commit = uuid7_commit and g = uuid7_fresh and issued = "[]"]
  have "sorted_wrt (<) (snd ?run)"
    using uuid7_monotonic [of "\<lparr>ir_gen = fst ?run, ir_pending = (\<lambda>_ :: nat. None), ir_issued = snd ?run\<rparr>"]
    by (simp add: id_start_def)
  moreover have "snd ?run = [0x57FFFBFFFFFFFFFFFFFFF, 0x67FFFBFFFFFFFFFFFFFFF]" by code_simp
  ultimately show ?thesis by simp
qed

text \<open>
  uuid7_timestamp_ms gives back the timestamp a UUIDv7 was made with, from the object or from its
  text, and accepts a text only if it is the canonical text of a UUIDv7: upper case, braces, prefixes,
  underscores, white space and non-ASCII digits, all of which Python's parser takes, are refused.
\<close>

theorem uuid7_timestamp_roundtrip:
  "(\<forall>ms c r. uuid7_range ms c r \<longrightarrow>
      uuid7_timestamp_ms db (UuidObject (uuid7_value ms c r)) = Inr ms
      \<and> uuid7_timestamp_ms db (UuidStr (uuid_str (uuid7_value ms c r))) = Inr ms)
   \<and> (\<forall>s t. uuid7_timestamp_ms db (UuidStr s) = Inr t \<longrightarrow>
      (\<exists>n. is_uuid7 n \<and> s = uuid_str n \<and> t = n div 2 ^ 80))"
  using uuid7_timestamp_canonical uuid7_value_is uuid7_value_fields(3)
  by (simp add: uuid7_timestamp_str drop_bit_eq_div)

lemma uuid7_timestamp_roundtrip_witness:
  "uuid7_range 1645557742000 0xCC3 0x18C4DC0C0C07398F
   \<and> uuid_str (uuid7_value 1645557742000 0xCC3 0x18C4DC0C0C07398F) = ustr ''017f22e2-79b0-7cc3-98c4-dc0c0c07398f''
   \<and> uuid7_timestamp_ms \<lparr>ud_lower = id, ud_decimal = id\<rparr> (UuidStr (ustr ''017f22e2-79b0-7cc3-98c4-dc0c0c07398f''))
       = Inr 1645557742000"
proof -
  have range: "uuid7_range 1645557742000 0xCC3 0x18C4DC0C0C07398F"
    by (simp add: uuid7_range_def max_bounds mask_bounds)
  moreover have "uuid_str (uuid7_value 1645557742000 0xCC3 0x18C4DC0C0C07398F)
      = ustr ''017f22e2-79b0-7cc3-98c4-dc0c0c07398f''"
    by code_simp
  ultimately show ?thesis using uuid7_timestamp_roundtrip by metis
qed

end
