(* ===== verification/Codec.thy ===== *)
theory Codec
  imports Prelude
begin

unbundle bit_operations_syntax

text \<open>
  \<open>bluetape.codec\<close>: URL-safe Base64 and hexadecimal text, with what they use of Python's \<open>base64\<close> and
  \<open>binascii\<close>: \<open>b64_encode\<close> writes groups of three bytes, \<open>a2b_base64\<close> is the strict loop of
  \<open>binascii\<close>, character by character with its position in the group and its state of padding.

  Both decoders invert their encoders; the Base64 decoder accepts nothing else, the hexadecimal one
  accepts either case.
\<close>

section \<open>The library\<close>

datatype codec_exn = TypeError string | CodecError string | BinasciiError string | UnicodeEncodeError

definition b64_alphabet :: pystr where
  "b64_alphabet = ustr ''ABCDEFGHIJKLMNOPQRSTUVWXYZabcdefghijklmnopqrstuvwxyz0123456789+/''"

definition b64_char :: "nat \<Rightarrow> nat" where
  "b64_char n = b64_alphabet ! n"

fun b64_encode :: "pybytes \<Rightarrow> pystr" where
  "b64_encode [] = []"
| "b64_encode [a] = [b64_char (a div 4), b64_char (a mod 4 * 16), 61, 61]"
| "b64_encode [a, b] = [b64_char (a div 4), b64_char (a mod 4 * 16 + b div 16), b64_char (b mod 16 * 4), 61]"
| "b64_encode (a # b # c # data) =
     b64_char (a div 4) # b64_char (a mod 4 * 16 + b div 16) # b64_char (b mod 16 * 4 + c div 64)
     # b64_char (c mod 64) # b64_encode data"

definition translate :: "(nat \<times> nat) list \<Rightarrow> pystr \<Rightarrow> pystr" where
  "translate table s = map (\<lambda>c. case map_of table c of None \<Rightarrow> c | Some d \<Rightarrow> d) s"

text \<open>\<open>+\<close> and \<open>/\<close> are 43 and 47, \<open>-\<close> and \<open>_\<close> are 45 and 95, \<open>=\<close> is 61.\<close>

definition urlsafe_b64encode :: "pybytes \<Rightarrow> pystr" where
  "urlsafe_b64encode data = translate [(43, 45), (47, 95)] (b64_encode data)"

definition b64_table :: "nat \<Rightarrow> nat option" where
  "b64_table = map_of (zip b64_alphabet [0..<64])"

text \<open>The strict loop: \<open>quad\<close> is the position in the group, \<open>left\<close> the bits that are left over, \<open>pads\<close>
  the padding since the last character of data, and \<open>padding\<close> says that padding has been seen.\<close>

fun a2b_loop :: "nat \<Rightarrow> nat \<Rightarrow> nat \<Rightarrow> bool \<Rightarrow> pybytes \<Rightarrow> codec_exn + pybytes" where
  "a2b_loop quad left pads padding [] =
     (if quad = 0 then Inr [] else Inl (BinasciiError ''Incorrect padding''))"
| "a2b_loop quad left pads padding (ch # rest) =
     (if ch = 61
      then if 2 \<le> quad \<and> 4 \<le> quad + pads + 1
           then if rest \<noteq> [] then Inl (BinasciiError ''Excess data after padding'') else Inr []
           else a2b_loop quad left (if 2 \<le> quad then pads + 1 else pads) True rest
      else case b64_table ch of
        None \<Rightarrow> Inl (BinasciiError ''Only base64 data is allowed'')
      | Some v \<Rightarrow>
          if padding then Inl (BinasciiError ''Discontinuous padding not allowed'')
          else if quad = 0 then a2b_loop 1 v 0 padding rest
          else if quad = 1
          then ebind (a2b_loop 2 (v mod 16) 0 padding rest) (\<lambda>out. Inr ((left * 4 + v div 16) # out))
          else if quad = 2
          then ebind (a2b_loop 3 (v mod 4) 0 padding rest) (\<lambda>out. Inr ((left * 16 + v div 4) # out))
          else ebind (a2b_loop 0 0 0 padding rest) (\<lambda>out. Inr ((left * 64 + v) # out)))"

definition a2b_base64 :: "pybytes \<Rightarrow> codec_exn + pybytes" where
  "a2b_base64 data =
     (if data \<noteq> [] \<and> hd data = 61 then Inl (BinasciiError ''Leading padding not allowed'')
      else a2b_loop 0 0 0 False data)"

definition encode_ascii :: "pystr \<Rightarrow> codec_exn + pybytes" where
  "encode_ascii s = (if list_all (\<lambda>c. c < 128) s then Inr s else Inl UnicodeEncodeError)"

definition rstrip_pad :: "pystr \<Rightarrow> pystr" where
  "rstrip_pad s = rev (dropWhile (\<lambda>c. c = 61) (rev s))"

section \<open>URL-safe Base64\<close>

definition base64url_encode :: "pybytes \<Rightarrow> bool \<Rightarrow> pystr" where
  "base64url_encode data padded =
     (let encoded = urlsafe_b64encode data in if padded then encoded else rstrip_pad encoded)"

definition base64url_alphabet :: "nat set" where
  "base64url_alphabet = set (ustr ''ABCDEFGHIJKLMNOPQRSTUVWXYZabcdefghijklmnopqrstuvwxyz0123456789-_'')"

text \<open>\<open>value.find("=")\<close> splits the text before the first \<open>=\<close>.\<close>

definition base64url_split :: "pystr \<Rightarrow> bool \<Rightarrow> codec_exn + pystr \<times> pystr" where
  "base64url_split value padded =
     (if padded
      then if length value mod 4 \<noteq> 0 then Inl (CodecError ''invalid padded URL-safe Base64'')
           else let alphabet = takeWhile (\<lambda>c. c \<noteq> 61) value; padding = dropWhile (\<lambda>c. c \<noteq> 61) value
                in if 2 < length padding \<or> padding \<noteq> replicate (length padding) 61
                   then Inl (CodecError ''invalid padded URL-safe Base64'')
                   else Inr (alphabet, value)
      else if 61 \<in> set value \<or> length value mod 4 = 1
           then Inl (CodecError ''invalid unpadded URL-safe Base64'')
           else Inr (value, value @ replicate (nat (- int (length value) mod 4)) 61))"

definition base64url_decode :: "pyval \<Rightarrow> bool \<Rightarrow> codec_exn + pybytes" where
  "base64url_decode value padded =
     (case value of
        PyStr s \<Rightarrow>
          ebind (base64url_split s padded) (\<lambda>(alphabet, normalized).
            if \<not> list_all (\<lambda>c. c \<in> base64url_alphabet) alphabet
            then Inl (CodecError ''invalid URL-safe Base64'')
            else
              ebind
                (case ebind (encode_ascii normalized) (\<lambda>b. a2b_base64 (translate [(45, 43), (95, 47)] b)) of
                   Inl UnicodeEncodeError \<Rightarrow> Inl (CodecError ''invalid URL-safe Base64'')
                 | Inl (BinasciiError _) \<Rightarrow> Inl (CodecError ''invalid URL-safe Base64'')
                 | r \<Rightarrow> r)
                (\<lambda>decoded.
                   if base64url_encode decoded padded \<noteq> s
                   then Inl (CodecError ''non-canonical URL-safe Base64'')
                   else Inr decoded))
      | _ \<Rightarrow> Inl (TypeError ''value must be a string''))"

section \<open>Hexadecimal text\<close>

definition hex_digit :: "nat \<Rightarrow> nat" where
  "hex_digit d = (if d < 10 then 48 + d else 87 + d)"

definition hex_encode :: "pybytes \<Rightarrow> pystr" where
  "hex_encode data = concat (map (\<lambda>b. [hex_digit (b div 16), hex_digit (b mod 16)]) data)"

definition hex_alphabet :: "nat set" where
  "hex_alphabet = set (ustr ''0123456789abcdefABCDEF'')"

definition hex_digit_value :: "nat \<Rightarrow> nat" where
  "hex_digit_value c = (if c \<le> 57 then c - 48 else if c \<le> 70 then c - 55 else c - 87)"

text \<open>\<open>bytes.fromhex\<close> on a text of hexadecimal digits only.\<close>

fun bytes_fromhex :: "pystr \<Rightarrow> pybytes" where
  "bytes_fromhex (h # l # s) = (16 * hex_digit_value h + hex_digit_value l) # bytes_fromhex s"
| "bytes_fromhex _ = []"

definition hex_decode :: "pyval \<Rightarrow> codec_exn + pybytes" where
  "hex_decode value =
     (case value of
        PyStr s \<Rightarrow>
          if length s mod 2 \<noteq> 0 \<or> \<not> list_all (\<lambda>c. c \<in> hex_alphabet) s
          then Inl (CodecError ''invalid hexadecimal text'')
          else Inr (bytes_fromhex s)
      | _ \<Rightarrow> Inl (TypeError ''value must be a string''))"

section \<open>The Base64 alphabet\<close>

lemma b64_alphabet_facts:
  "length b64_alphabet = 64" "distinct b64_alphabet"
  "\<forall>c\<in>set b64_alphabet. c \<noteq> 61 \<and> c < 128 \<and> c \<noteq> 45 \<and> c \<noteq> 95"
  by (simp_all add: b64_alphabet_def ustr_def)

lemma b64_table_char: "n < 64 \<Longrightarrow> b64_table (b64_char n) = Some n"
  using map_of_zip_nth [of b64_alphabet "[0..<64]" n] b64_alphabet_facts
  by (simp add: b64_table_def b64_char_def del: upt_rec_numeral)

lemma b64_char_facts:
  assumes "n < 64"
  shows "b64_char n \<noteq> 61" "b64_char n < 128" "b64_char n \<noteq> 45" "b64_char n \<noteq> 95"
  using b64_alphabet_facts assms nth_mem [of n b64_alphabet] by (auto simp: b64_char_def simp del: nth_mem)

lemma b64_char_mem: "n < 64 \<Longrightarrow> b64_char n \<in> set b64_alphabet"
  using b64_alphabet_facts(1) by (simp add: b64_char_def)

lemma b64_table_range: "b64_table c = Some v \<Longrightarrow> v < 64"
  by (auto simp: b64_table_def dest!: map_of_SomeD dest: set_zip_rightD)

section \<open>The strict loop reads what the encoder writes\<close>

lemma high_part: "(b :: nat) < 16 * k \<Longrightarrow> 0 < k \<Longrightarrow> b div 16 < k"
  by (simp add: div_less_iff_less_mult mult.commute)

lemma b64_groups:
  assumes "a < 256" "b < 256" "c < (256 :: nat)"
  shows "a div 4 < 64" "a mod 4 * 16 < 64" "a mod 4 * 16 + b div 16 < 64" "b mod 16 * 4 < 64"
    "b mod 16 * 4 + c div 64 < 64"
    "(a mod 4 * 16 + b div 16) div 16 = a mod 4" "(a mod 4 * 16 + b div 16) mod 16 = b div 16"
    "(b mod 16 * 4 + c div 64) div 4 = b mod 16" "(b mod 16 * 4 + c div 64) mod 4 = c div 64"
proof -
  have "b div 16 < 16" "c div 64 < 4" "a mod 4 < 4" "b mod 16 < 16" using assms by auto
  then show "a mod 4 * 16 + b div 16 < 64" "b mod 16 * 4 + c div 64 < 64"
    "(a mod 4 * 16 + b div 16) div 16 = a mod 4" "(a mod 4 * 16 + b div 16) mod 16 = b div 16"
    "(b mod 16 * 4 + c div 64) div 4 = b mod 16" "(b mod 16 * 4 + c div 64) mod 4 = c div 64"
    by (simp_all del: mod_less_divisor)
qed (use assms in auto)

lemma a2b_char:
  "n < 64 \<Longrightarrow> a2b_loop quad left pads False (b64_char n # rest) =
     (if quad = 0 then a2b_loop 1 n 0 False rest
      else if quad = 1 then ebind (a2b_loop 2 (n mod 16) 0 False rest) (\<lambda>out. Inr ((left * 4 + n div 16) # out))
      else if quad = 2 then ebind (a2b_loop 3 (n mod 4) 0 False rest) (\<lambda>out. Inr ((left * 16 + n div 4) # out))
      else ebind (a2b_loop 0 0 0 False rest) (\<lambda>out. Inr ((left * 64 + n) # out)))"
  by (simp add: b64_table_char b64_char_facts)

lemma a2b_pads:
  "a2b_loop 2 left 0 False [61, 61] = Inr []" "a2b_loop 3 left 0 False [61] = Inr []"
  by simp_all

lemma a2b_encode: "bytes_ok data \<Longrightarrow> a2b_loop 0 0 0 False (b64_encode data) = Inr data"
proof (induction data rule: b64_encode.induct)
  case (2 a)
  then have a: "a < 256" by (simp add: bytes_ok_def)
  show ?case using b64_groups [OF a, of 0 0] by (simp add: a2b_char a2b_pads del: a2b_loop.simps(2))
next
  case (3 a b)
  then have ab: "a < 256" "b < 256" by (simp_all add: bytes_ok_def)
  show ?case using b64_groups [OF ab, of 0] by (simp add: a2b_char a2b_pads del: a2b_loop.simps(2))
next
  case (4 a b c data)
  then have abc: "a < 256" "b < 256" "c < 256" and IH: "a2b_loop 0 0 0 False (b64_encode data) = Inr data"
    by (simp_all add: bytes_ok_def)
  show ?case using b64_groups [OF abc] by (simp add: a2b_char IH del: a2b_loop.simps(2))
qed (simp add: bytes_ok_def)

lemma two_pads: "replicate 2 x = [x, x]"
  by (simp add: numeral_2_eq_2)

lemma pads_nat: "nat (- int l mod 4) = (4 - l mod 4) mod 4"
proof -
  have "int l mod 4 = int (l mod 4)" by (simp add: zmod_int)
  then show ?thesis by (simp add: zmod_zminus1_eq_if nat_diff_distrib)
qed

lemma mod_4_cases: "l mod 4 = 0 \<or> l mod 4 = 1 \<or> l mod 4 = 2 \<or> l mod 4 = (3 :: nat)"
proof -
  have "l mod 4 < 4" by simp
  then show ?thesis by (simp only: less_Suc_eq numeral_eq_Suc pred_numeral_simps BitM.simps) auto
qed

lemma pad_count: "l mod 4 \<noteq> 1 \<Longrightarrow> nat (- int l mod 4) \<le> 2"
  using mod_4_cases [of l] unfolding pads_nat by auto

lemma pad_fills: "(l + nat (- int l mod 4)) mod 4 = 0"
  using mod_4_cases [of l] mod_add_left_eq [of l 4 "(4 - l mod 4) mod 4"] unfolding pads_nat by auto

text \<open>Characters of the alphabet, then at most two pads that fill the last group.\<close>

lemma b64_encode_shape:
  "bytes_ok data \<Longrightarrow> \<exists>body. set body \<subseteq> set b64_alphabet \<and> length body mod 4 \<noteq> 1
     \<and> b64_encode data = body @ replicate (nat (- int (length body) mod 4)) 61"
proof (induction data rule: b64_encode.induct)
  case 1
  show ?case by (intro exI [of _ "[]"]) simp
next
  case (2 a)
  then have "a < 256" by (simp add: bytes_ok_def)
  then show ?case using b64_groups [of a 0 0] b64_char_mem
    by (intro exI [of _ "[b64_char (a div 4), b64_char (a mod 4 * 16)]"]) (simp add: two_pads)
next
  case (3 a b)
  then have "a < 256" "b < 256" by (simp_all add: bytes_ok_def)
  then show ?case using b64_groups [of a b 0] b64_char_mem
    by (intro exI [of _ "[b64_char (a div 4), b64_char (a mod 4 * 16 + b div 16), b64_char (b mod 16 * 4)]"]) simp
next
  case (4 a b c data)
  then have abc: "a < 256" "b < 256" "c < 256" and "bytes_ok data" by (simp_all add: bytes_ok_def)
  with 4 obtain body where body: "set body \<subseteq> set b64_alphabet" "length body mod 4 \<noteq> 1"
    "b64_encode data = body @ replicate (nat (- int (length body) mod 4)) 61" by blast
  have "(4 + length body) mod 4 = length body mod 4" "- (4 + int (length body)) mod 4 = - int (length body) mod 4"
    by presburger+
  then show ?case using b64_groups [OF abc] b64_char_mem body
    by (intro exI [of _ "b64_char (a div 4) # b64_char (a mod 4 * 16 + b div 16)
        # b64_char (b mod 16 * 4 + c div 64) # b64_char (c mod 64) # body"]) simp
qed

section \<open>Translation and padding\<close>

lemma translate_append [simp]: "translate t (s @ u) = translate t s @ translate t u"
  by (simp add: translate_def)

lemma length_translate [simp]: "length (translate t s) = length s"
  by (simp add: translate_def)

lemma translate_pads [simp]:
  "translate [(43, 45), (47, 95)] (replicate n 61) = replicate n 61"
  "translate [(45, 43), (95, 47)] (replicate n 61) = replicate n 61"
  by (simp_all add: translate_def)

definition to_urlsafe :: "nat \<Rightarrow> nat" where
  "to_urlsafe c = (if c = 43 then 45 else if c = 47 then 95 else c)"

definition from_urlsafe :: "nat \<Rightarrow> nat" where
  "from_urlsafe c = (if c = 45 then 43 else if c = 95 then 47 else c)"

lemma translate_urlsafe:
  "translate [(43, 45), (47, 95)] s = map to_urlsafe s"
  "translate [(45, 43), (95, 47)] s = map from_urlsafe s"
  by (auto simp: translate_def to_urlsafe_def from_urlsafe_def)

lemma urlsafe_chars:
  "\<forall>c\<in>set b64_alphabet. to_urlsafe c \<in> base64url_alphabet \<and> to_urlsafe c \<noteq> 61 \<and> to_urlsafe c < 128
     \<and> from_urlsafe (to_urlsafe c) = c"
  by (simp add: b64_alphabet_def base64url_alphabet_def ustr_def to_urlsafe_def from_urlsafe_def)

lemma urlsafe_body:
  assumes "set body \<subseteq> set b64_alphabet"
  shows "map from_urlsafe (map to_urlsafe body) = body"
    "c \<in> set (map to_urlsafe body) \<Longrightarrow> c \<in> base64url_alphabet \<and> c \<noteq> 61 \<and> c < 128"
  using urlsafe_chars assms by (auto simp: comp_def intro!: map_idI)

lemma urlsafe_pads [simp]: "to_urlsafe 61 = 61" "from_urlsafe 61 = 61"
  by (simp_all add: to_urlsafe_def from_urlsafe_def)

text \<open>What the two splits make of an encoded text.\<close>

lemma rstrip_pads: "61 \<notin> set body \<Longrightarrow> rstrip_pad (body @ replicate n 61) = body"
proof -
  assume body: "61 \<notin> set body"
  have "dropWhile (\<lambda>c. c = 61) (replicate n 61 @ rev body) = rev body"
    by (induction n) (use body in \<open>cases "rev body"; auto dest: arg_cong [of _ _ set]\<close>)+
  then show ?thesis by (simp add: rstrip_pad_def)
qed

lemma base64url_encode_shape:
  assumes "bytes_ok data"
  obtains body where "set body \<subseteq> set b64_alphabet"
    "b64_encode data = body @ replicate (nat (- int (length body) mod 4)) 61"
    "length body mod 4 \<noteq> 1"
    "base64url_encode data True = map to_urlsafe body @ replicate (nat (- int (length body) mod 4)) 61"
    "base64url_encode data False = map to_urlsafe body"
proof -
  obtain body where body: "set body \<subseteq> set b64_alphabet" "length body mod 4 \<noteq> 1"
    "b64_encode data = body @ replicate (nat (- int (length body) mod 4)) 61"
    using b64_encode_shape [OF assms] by blast
  have "61 \<notin> set (map to_urlsafe body)" using urlsafe_body(2) [OF body(1)] by blast
  then show ?thesis
    using body that [of body]
    by (simp add: base64url_encode_def urlsafe_b64encode_def translate_urlsafe rstrip_pads Let_def)
qed

lemma split_encoded:
  assumes "bytes_ok data"
  shows "\<exists>alphabet normalized. base64url_split (base64url_encode data padded) padded = Inr (alphabet, normalized)
     \<and> (\<forall>c\<in>set alphabet. c \<in> base64url_alphabet) \<and> (\<forall>c\<in>set normalized. c < 128)
     \<and> map from_urlsafe normalized = b64_encode data"
proof -
  obtain body where body: "set body \<subseteq> set b64_alphabet"
    "b64_encode data = body @ replicate (nat (- int (length body) mod 4)) 61"
    "length body mod 4 \<noteq> 1"
    "base64url_encode data True = map to_urlsafe body @ replicate (nat (- int (length body) mod 4)) 61"
    "base64url_encode data False = map to_urlsafe body"
    using base64url_encode_shape [OF assms] .
  let ?u = "map to_urlsafe body" and ?k = "nat (- int (length body) mod 4)"
  note chars = urlsafe_body(2) [OF body(1)]
  have "61 \<notin> set ?u" using chars by blast
  then have take: "takeWhile (\<lambda>c. c \<noteq> 61) (?u @ replicate ?k 61) = ?u"
    "dropWhile (\<lambda>c. c \<noteq> 61) (?u @ replicate ?k 61) = replicate ?k 61"
    by (subst takeWhile_append2 dropWhile_append2; auto simp: takeWhile_eq_Nil_iff dropWhile_eq_self_iff hd_replicate; fail)+
  have k: "?k \<le> 2" "(length body + ?k) mod 4 = 0"
    by (rule pad_count, rule body(3), rule pad_fills)
  have "base64url_split (base64url_encode data padded) padded = Inr (?u, ?u @ replicate ?k 61)"
  proof (cases padded)
    case True
    then show ?thesis using k take by (simp add: base64url_split_def body(4) Let_def)
  next
    case False
    then show ?thesis using body(3) \<open>61 \<notin> set ?u\<close> by (simp add: base64url_split_def body(5))
  qed
  moreover have "map from_urlsafe (?u @ replicate ?k 61) = b64_encode data"
    using urlsafe_body(1) [OF body(1)] by (simp add: body(2))
  moreover have "\<forall>c\<in>set ?u. c \<in> base64url_alphabet" "\<forall>c\<in>set (?u @ replicate ?k 61). c < 128"
    using chars by auto
  ultimately show ?thesis by blast
qed

lemma encode_first: "b64_encode data \<noteq> [] \<Longrightarrow> bytes_ok data \<Longrightarrow> hd (b64_encode data) \<noteq> 61"
  by (cases data rule: b64_encode.cases) (auto simp: bytes_ok_def b64_char_facts)

lemma base64url_decode_encode:
  assumes "bytes_ok data"
  shows "base64url_decode (PyStr (base64url_encode data padded)) padded = Inr data"
proof -
  obtain alphabet normalized where
    "base64url_split (base64url_encode data padded) padded = Inr (alphabet, normalized)"
    "\<forall>c\<in>set alphabet. c \<in> base64url_alphabet" "\<forall>c\<in>set normalized. c < 128"
    "map from_urlsafe normalized = b64_encode data"
    using split_encoded [OF assms, of padded] by blast
  moreover from this have "normalized = [] \<longleftrightarrow> b64_encode data = []" by (metis map_is_Nil_conv)
  ultimately show ?thesis
    using encode_first [of data] a2b_encode [OF assms] assms
    by (cases "b64_encode data = []") (simp_all add: base64url_decode_def encode_ascii_def list_all_iff translate_urlsafe a2b_base64_def)
qed

section \<open>What the decoder accepts\<close>

lemma a2b_loop_bytes:
  "a2b_loop quad left pads padding s = Inr out \<Longrightarrow> quad \<le> 3 \<Longrightarrow>
   (quad = 1 \<longrightarrow> left < 64) \<Longrightarrow> (quad = 2 \<longrightarrow> left < 16) \<Longrightarrow> (quad = 3 \<longrightarrow> left < 4) \<Longrightarrow> bytes_ok out"
proof (induction quad left pads padding s arbitrary: out rule: a2b_loop.induct)
  case (2 quad left pads padding ch rest)
  show ?case
  proof (cases "ch = 61")
    case True
    then show ?thesis using 2 by (auto simp: bytes_ok_def split: if_splits)
  next
    case False
    with 2(6) obtain v where v: "b64_table ch = Some v" and np: "\<not> padding"
      by (auto split: option.splits if_splits)
    have v64: "v < 64" using b64_table_range [OF v] .
    then have parts: "v div 16 < 4" "v div 4 < 16" "v mod 16 < 16" "v mod 4 < 4" by auto
    consider "quad = 0" | "quad = 1" | "quad = 2" | "quad = 3" using 2(7) by linarith
    then show ?thesis
    proof cases
      case 1
      then show ?thesis using 2(2) [OF False v np 1] 2(6) False v np v64 by simp
    next
      case q: 2
      then obtain rest_out where "a2b_loop 2 (v mod 16) 0 padding rest = Inr rest_out"
        "out = (left * 4 + v div 16) # rest_out"
        using 2(6) False v np by auto
      then show ?thesis using 2(3) [OF False v np] q 2(8) parts by (simp add: bytes_ok_def)
    next
      case q: 3
      then obtain rest_out where "a2b_loop 3 (v mod 4) 0 padding rest = Inr rest_out"
        "out = (left * 16 + v div 4) # rest_out"
        using 2(6) False v np by auto
      then show ?thesis using 2(4) [OF False v np] q 2(9) parts by (simp add: bytes_ok_def)
    next
      case q: 4
      then obtain rest_out where "a2b_loop 0 0 0 padding rest = Inr rest_out"
        "out = (left * 64 + v) # rest_out"
        using 2(6) False v np by auto
      then show ?thesis using 2(5) [OF False v np] q 2(10) v64 by (simp add: bytes_ok_def)
    qed
  qed
qed (auto simp: bytes_ok_def split: if_splits)

lemma a2b_base64_bytes: "a2b_base64 s = Inr out \<Longrightarrow> bytes_ok out"
  using a2b_loop_bytes [of 0 0 0 False s out] by (simp add: a2b_base64_def split: if_splits)

definition only_binascii :: "codec_exn + 'a \<Rightarrow> bool" where
  "only_binascii r \<longleftrightarrow> (case r of Inl (BinasciiError _) \<Rightarrow> True | Inl _ \<Rightarrow> False | Inr _ \<Rightarrow> True)"

lemma only_binascii_simps [simp]:
  "only_binascii (Inl (BinasciiError m))" "only_binascii (Inr x)"
  "only_binascii (ebind r (\<lambda>out. Inr (f out))) \<longleftrightarrow> only_binascii r"
  by (auto simp: only_binascii_def split: sum.split codec_exn.split)

lemma a2b_loop_only: "only_binascii (a2b_loop quad left pads padding s)"
proof (induction quad left pads padding s rule: a2b_loop.induct)
  case (2 quad left pads padding ch rest)
  then show ?case by (simp split: option.split)
qed simp

lemma a2b_loop_error: "a2b_loop quad left pads padding s = Inl e \<Longrightarrow> \<exists>m. e = BinasciiError m"
  using a2b_loop_only [of quad left pads padding s]
  by (cases e) (simp_all add: only_binascii_def)

lemma base64url_decode_accepts:
  assumes "base64url_decode value padded = Inr data"
  shows "bytes_ok data \<and> value = PyStr (base64url_encode data padded)"
proof -
  obtain s normalized where "value = PyStr s" and s: "base64url_encode data padded = s"
    and "a2b_base64 (translate [(45, 43), (95, 47)] normalized) = Inr data"
    using assms
    by (auto simp: base64url_decode_def encode_ascii_def split: pyval.splits if_splits sum.splits codec_exn.splits)
  then show ?thesis using a2b_base64_bytes by auto
qed

lemma base64url_split_error: "base64url_split s padded = Inl e \<Longrightarrow> \<exists>m. e = CodecError m"
  by (auto simp: base64url_split_def Let_def split: if_splits)

lemma base64url_decode_error:
  assumes "base64url_decode (PyStr s) padded = Inl e"
  shows "\<exists>m. e = CodecError m"
proof -
  have "\<exists>m. x = BinasciiError m \<or> x = UnicodeEncodeError"
    if "ebind (encode_ascii normalized) (\<lambda>b. a2b_base64 (translate t b)) = Inl x" for normalized t x
    using that a2b_loop_error
    by (auto simp: ebind_eq_Inl encode_ascii_def a2b_base64_def split: if_splits)
  then show ?thesis
    using assms base64url_split_error
    by (auto simp: base64url_decode_def ebind_eq_Inl split: if_splits sum.splits codec_exn.splits) fastforce+
qed

section \<open>Hexadecimal digits\<close>

lemma hex_digit_facts: "d < 16 \<Longrightarrow> hex_digit_value (hex_digit d) = d \<and> hex_digit d \<in> hex_alphabet"
proof -
  have "list_all (\<lambda>d. hex_digit_value (hex_digit d) = d \<and> hex_digit d \<in> hex_alphabet) [0..<16]"
    by code_simp
  then show "d < 16 \<Longrightarrow> ?thesis" by (simp add: list_all_iff del: upt_rec_numeral)
qed

definition ascii_lower :: "nat \<Rightarrow> nat" where
  "ascii_lower c = (if 65 \<le> c \<and> c \<le> 90 then c + 32 else c)"

lemma hex_alphabet_facts:
  "c \<in> hex_alphabet \<Longrightarrow> hex_digit_value c < 16 \<and> hex_digit (hex_digit_value c) = ascii_lower c"
  by (auto simp: hex_alphabet_def ustr_def hex_digit_value_def hex_digit_def ascii_lower_def)

lemma hex_decode_encode: "bytes_ok data \<Longrightarrow> hex_decode (PyStr (hex_encode data)) = Inr data"
proof -
  assume "bytes_ok data"
  then have "length (hex_encode data) mod 2 = 0 \<and> list_all (\<lambda>c. c \<in> hex_alphabet) (hex_encode data)
      \<and> bytes_fromhex (hex_encode data) = data"
    by (induction data) (auto simp: hex_encode_def bytes_ok_def hex_digit_facts div_less_iff_less_mult)
  then show ?thesis by (simp add: hex_decode_def)
qed

lemma hex_encode_fromhex:
  "length s mod 2 = 0 \<Longrightarrow> list_all (\<lambda>c. c \<in> hex_alphabet) s \<Longrightarrow>
   bytes_ok (bytes_fromhex s) \<and> hex_encode (bytes_fromhex s) = map ascii_lower s"
proof (induction s rule: bytes_fromhex.induct)
  case (1 h l s)
  then have "hex_digit_value h < 16" "hex_digit_value l < 16"
    "hex_digit (hex_digit_value h) = ascii_lower h" "hex_digit (hex_digit_value l) = ascii_lower l"
    using hex_alphabet_facts [of h] hex_alphabet_facts [of l] by auto
  with 1 show ?case by (auto simp: hex_encode_def bytes_ok_def)
qed (auto simp: hex_encode_def bytes_ok_def)

theorem hex_roundtrip:
  "(\<forall>data. bytes_ok data \<longrightarrow> hex_decode (PyStr (hex_encode data)) = Inr data)
   \<and> (\<forall>value data. hex_decode value = Inr data \<longrightarrow>
        bytes_ok data \<and> (\<exists>s. value = PyStr s \<and> hex_encode data = map ascii_lower s))"
proof (intro conjI allI impI)
  fix v data
  assume "hex_decode v = Inr data"
  then obtain s where "v = PyStr s" "length s mod 2 = 0" "list_all (\<lambda>c. c \<in> hex_alphabet) s"
    "data = bytes_fromhex s"
    by (auto simp: hex_decode_def split: pyval.splits if_splits)
  then show "bytes_ok data" "\<exists>s. v = PyStr s \<and> hex_encode data = map ascii_lower s"
    using hex_encode_fromhex by auto
qed (simp add: hex_decode_encode)

section \<open>Properties\<close>

text \<open>
  URL-safe Base64, padded or not, is a bijection: the decoder gives every byte string back from
  its encoding, accepts no other text, and raises only \<open>CodecError\<close> for a text that it refuses.
\<close>

theorem base64url_bijection:
  "(\<forall>data. bytes_ok data \<longrightarrow> base64url_decode (PyStr (base64url_encode data padded)) padded = Inr data)
   \<and> (\<forall>value data. base64url_decode value padded = Inr data \<longrightarrow>
        bytes_ok data \<and> value = PyStr (base64url_encode data padded))
   \<and> (\<forall>s e. base64url_decode (PyStr s) padded = Inl e \<longrightarrow> (\<exists>m. e = CodecError m))"
  using base64url_decode_encode base64url_decode_accepts base64url_decode_error by blast

lemma base64url_bijection_witness:
  "base64url_encode [251, 255] False = ustr ''-_8''
   \<and> base64url_decode (PyStr (ustr ''-_8'')) False = Inr [251, 255]
   \<and> (\<exists>m. base64url_decode (PyStr (ustr ''-_9'')) False = Inl (CodecError m))"
proof -
  have enc: "base64url_encode [251, 255] False = ustr ''-_8''"
    by (simp add: base64url_encode_def urlsafe_b64encode_def translate_urlsafe to_urlsafe_def b64_char_def
        b64_alphabet_def ustr_def rstrip_pad_def Let_def)
  moreover have "base64url_decode (PyStr (base64url_encode [251, 255] False)) False = Inr [251, 255]"
    using base64url_bijection [of False] by (simp add: bytes_ok_def)
  moreover have "\<exists>e. base64url_decode (PyStr (ustr ''-_9'')) False = Inl e"
  proof (cases "base64url_decode (PyStr (ustr ''-_9'')) False")
    case (Inr data)
    moreover have "base64url_decode (PyStr (ustr ''-_9'')) False \<noteq> Inr data" by code_simp
    ultimately show ?thesis by blast
  qed blast
  then have "\<exists>m. base64url_decode (PyStr (ustr ''-_9'')) False = Inl (CodecError m)"
    using base64url_bijection [of False] by blast
  ultimately show ?thesis by simp
qed

end
