(* ===== verification/Collections.thy ===== *)
theory Collections
  imports Prelude
begin

text \<open>
  \<open>bluetape.collections\<close>: eager helpers on sequences.

  The iterable is the list of its items; a callback is effectful code that may raise (\<open>act\<close>), so that
  the order and the number of its calls are part of the model. A dict is the list of its items in
  insertion order (\<open>dict_get\<close>, \<open>dict_put\<close>).

  Every helper with a key or predicate is shown equal to its reference: call the callback on the items
  in order, stop at the first exception, and compute the result from the list of what it returned.
\<close>

section \<open>Model\<close>

datatype coll_exn = TypeError string | ValueError string | CallbackError nat

definition coll_require_callable :: "'f callback \<Rightarrow> string \<Rightarrow> coll_exn + 'f" where
  "coll_require_callable value name =
     (case value of Callable f \<Rightarrow> Inr f | NotCallable \<Rightarrow> Inl (TypeError (name @ '' must be callable'')))"

text \<open>\<open>d.get(k)\<close> and \<open>d[k] = v\<close>.\<close>

definition dict_get :: "('k \<times> 'v) list \<Rightarrow> 'k \<Rightarrow> 'v option" where
  "dict_get d k = map_of d k"

fun dict_put :: "('k \<times> 'v) list \<Rightarrow> 'k \<Rightarrow> 'v \<Rightarrow> ('k \<times> 'v) list" where
  "dict_put [] k v = [(k, v)]"
| "dict_put ((k', v') # d) k v = (if k' = k then (k', v) # d else (k', v') # dict_put d k v)"

fun chunked_loop :: "nat \<Rightarrow> 'a list list \<Rightarrow> 'a list \<Rightarrow> 'a list \<Rightarrow> 'a list list" where
  "chunked_loop sz chunks current [] = (if current \<noteq> [] then chunks @ [current] else chunks)"
| "chunked_loop sz chunks current (item # rest) =
     (let current' = current @ [item]
      in if length current' = sz then chunked_loop sz (chunks @ [current']) [] rest
         else chunked_loop sz chunks current' rest)"

definition chunked :: "'a list \<Rightarrow> pyval \<Rightarrow> coll_exn + 'a list list" where
  "chunked iterable sz =
     (case sz of
        PyInt n \<Rightarrow>
          if n \<le> 0 then Inl (ValueError ''size must be greater than 0'')
          else Inr (chunked_loop (nat n) [] [] iterable)
      | _ \<Rightarrow> Inl (TypeError ''size must be an integer''))"

fun chunk_by_loop :: "('a \<Rightarrow> ('s, coll_exn, bool) act) \<Rightarrow> 'a list list \<Rightarrow> 'a list \<Rightarrow> ('s, coll_exn, 'a list list) act" where
  "chunk_by_loop split chunks [] = return chunks"
| "chunk_by_loop split chunks (item # rest) =
     (if chunks \<noteq> []
      then act_bind (split item) (\<lambda>b.
             if b then chunk_by_loop split (chunks @ [[item]]) rest
             else chunk_by_loop split (butlast chunks @ [last chunks @ [item]]) rest)
      else chunk_by_loop split (chunks @ [[item]]) rest)"

definition chunk_by :: "'a list \<Rightarrow> ('a \<Rightarrow> ('s, coll_exn, bool) act) callback \<Rightarrow> ('s, coll_exn, 'a list list) act" where
  "chunk_by iterable starts_new =
     act_bind (lift (coll_require_callable starts_new ''starts_new'')) (\<lambda>split. chunk_by_loop split [] iterable)"

fun distinct_loop :: "'a set \<Rightarrow> 'a list \<Rightarrow> 'a list \<Rightarrow> 'a list" where
  "distinct_loop seen result [] = result"
| "distinct_loop seen result (item # rest) =
     (if item \<notin> seen then distinct_loop (insert item seen) (result @ [item]) rest
      else distinct_loop seen result rest)"

definition distinct_items :: "'a list \<Rightarrow> 'a list" where
  "distinct_items iterable = distinct_loop {} [] iterable"

fun distinct_by_loop ::
  "('a \<Rightarrow> ('s, coll_exn, 'k) act) \<Rightarrow> 'k set \<Rightarrow> 'a list \<Rightarrow> 'a list \<Rightarrow> ('s, coll_exn, 'a list) act" where
  "distinct_by_loop key_fn seen result [] = return result"
| "distinct_by_loop key_fn seen result (item # rest) =
     act_bind (key_fn item) (\<lambda>derived.
       if derived \<notin> seen then distinct_by_loop key_fn (insert derived seen) (result @ [item]) rest
       else distinct_by_loop key_fn seen result rest)"

definition distinct_by :: "'a list \<Rightarrow> ('a \<Rightarrow> ('s, coll_exn, 'k) act) callback \<Rightarrow> ('s, coll_exn, 'a list) act" where
  "distinct_by iterable key =
     act_bind (lift (coll_require_callable key ''key'')) (\<lambda>key_fn. distinct_by_loop key_fn {} [] iterable)"

text \<open>The bucket of a group is one list object, appended to through the dict.\<close>

definition group_add :: "('k \<times> 'a list) list \<Rightarrow> 'k \<Rightarrow> 'a \<Rightarrow> ('k \<times> 'a list) list" where
  "group_add groups derived item =
     (case dict_get groups derived of
        None \<Rightarrow> dict_put groups derived [item]
      | Some bucket \<Rightarrow> dict_put groups derived (bucket @ [item]))"

fun group_by_loop ::
  "('a \<Rightarrow> ('s, coll_exn, 'k) act) \<Rightarrow> ('k \<times> 'a list) list \<Rightarrow> 'a list \<Rightarrow> ('s, coll_exn, ('k \<times> 'a list) list) act" where
  "group_by_loop key_fn groups [] = return groups"
| "group_by_loop key_fn groups (item # rest) =
     act_bind (key_fn item) (\<lambda>derived. group_by_loop key_fn (group_add groups derived item) rest)"

definition group_by ::
  "'a list \<Rightarrow> ('a \<Rightarrow> ('s, coll_exn, 'k) act) callback \<Rightarrow> ('s, coll_exn, ('k \<times> 'a list) list) act" where
  "group_by iterable key =
     act_bind (lift (coll_require_callable key ''key'')) (\<lambda>key_fn. group_by_loop key_fn [] iterable)"

definition count_add :: "('k \<times> int) list \<Rightarrow> 'k \<Rightarrow> ('k \<times> int) list" where
  "count_add counts derived =
     dict_put counts derived ((case dict_get counts derived of None \<Rightarrow> 0 | Some n \<Rightarrow> n) + 1)"

fun count_by_loop ::
  "('a \<Rightarrow> ('s, coll_exn, 'k) act) \<Rightarrow> ('k \<times> int) list \<Rightarrow> 'a list \<Rightarrow> ('s, coll_exn, ('k \<times> int) list) act" where
  "count_by_loop key_fn counts [] = return counts"
| "count_by_loop key_fn counts (item # rest) =
     act_bind (key_fn item) (\<lambda>derived. count_by_loop key_fn (count_add counts derived) rest)"

definition count_by ::
  "'a list \<Rightarrow> ('a \<Rightarrow> ('s, coll_exn, 'k) act) callback \<Rightarrow> ('s, coll_exn, ('k \<times> int) list) act" where
  "count_by iterable key =
     act_bind (lift (coll_require_callable key ''key'')) (\<lambda>key_fn. count_by_loop key_fn [] iterable)"

fun partition_loop ::
  "('a \<Rightarrow> ('s, coll_exn, bool) act) \<Rightarrow> 'a list \<Rightarrow> 'a list \<Rightarrow> 'a list \<Rightarrow> ('s, coll_exn, 'a list \<times> 'a list) act" where
  "partition_loop predicate_fn matches misses [] = return (matches, misses)"
| "partition_loop predicate_fn matches misses (item # rest) =
     act_bind (predicate_fn item) (\<lambda>b.
       if b then partition_loop predicate_fn (matches @ [item]) misses rest
       else partition_loop predicate_fn matches (misses @ [item]) rest)"

definition partition_items ::
  "'a list \<Rightarrow> ('a \<Rightarrow> ('s, coll_exn, bool) act) callback \<Rightarrow> ('s, coll_exn, 'a list \<times> 'a list) act" where
  "partition_items iterable predicate =
     act_bind (lift (coll_require_callable predicate ''predicate'')) (\<lambda>predicate_fn.
       partition_loop predicate_fn [] [] iterable)"

fun map_loop :: "('a \<Rightarrow> ('s, coll_exn, 'b) act) \<Rightarrow> 'a list \<Rightarrow> ('s, coll_exn, 'b list) act" where
  "map_loop mapper_fn [] = return []"
| "map_loop mapper_fn (item # rest) =
     act_bind (mapper_fn item) (\<lambda>x. act_bind (map_loop mapper_fn rest) (\<lambda>xs. return (x # xs)))"

definition map_or_raise :: "'a list \<Rightarrow> ('a \<Rightarrow> ('s, coll_exn, 'b) act) callback \<Rightarrow> ('s, coll_exn, 'b list) act" where
  "map_or_raise iterable mapper =
     act_bind (lift (coll_require_callable mapper ''mapper'')) (\<lambda>mapper_fn. map_loop mapper_fn iterable)"

fun filter_loop :: "('a \<Rightarrow> ('s, coll_exn, bool) act) \<Rightarrow> 'a list \<Rightarrow> ('s, coll_exn, 'a list) act" where
  "filter_loop predicate_fn [] = return []"
| "filter_loop predicate_fn (item # rest) =
     act_bind (predicate_fn item) (\<lambda>b.
       act_bind (filter_loop predicate_fn rest) (\<lambda>xs. return (if b then item # xs else xs)))"

definition filter_or_raise :: "'a list \<Rightarrow> ('a \<Rightarrow> ('s, coll_exn, bool) act) callback \<Rightarrow> ('s, coll_exn, 'a list) act" where
  "filter_or_raise iterable predicate =
     act_bind (lift (coll_require_callable predicate ''predicate'')) (\<lambda>predicate_fn. filter_loop predicate_fn iterable)"

section \<open>Chunks\<close>

text \<open>What a list of chunks of a given size is.\<close>

definition chunks_of :: "nat \<Rightarrow> 'a list \<Rightarrow> 'a list list \<Rightarrow> bool" where
  "chunks_of sz xs chunks \<longleftrightarrow>
     concat chunks = xs \<and> (\<forall>c\<in>set (butlast chunks). length c = sz)
     \<and> (chunks \<noteq> [] \<longrightarrow> 0 < length (last chunks) \<and> length (last chunks) \<le> sz)"

lemma chunked_loop_ok:
  assumes "length current < sz" "\<forall>c\<in>set chunks. length c = sz"
  shows "chunks_of sz (concat chunks @ current @ xs) (chunked_loop sz chunks current xs)"
  using assms
proof (induction sz chunks current xs rule: chunked_loop.induct)
  case (1 sz chunks current)
  show ?case
  proof (cases "current = []")
    case True
    moreover have "last chunks \<noteq> []" if "chunks \<noteq> []" using 1 last_in_set [OF that] by force
    ultimately show ?thesis using 1 last_in_set [of chunks] by (auto simp: chunks_of_def dest: in_set_butlastD)
  qed (use 1 in \<open>auto simp: chunks_of_def\<close>)
next
  case (2 sz chunks current item rest)
  then show ?case by (cases "length (current @ [item]) = sz") (auto simp: Let_def)
qed

section \<open>The callback is called on the items in order\<close>

text \<open>The references: what a helper computes from the items, each with what the callback returned for
  it.\<close>

definition keys_in_order :: "('a \<times> 'k) list \<Rightarrow> 'k list" where
  "keys_in_order xs = distinct_items (map snd xs)"

definition items_with :: "('a \<times> 'k) list \<Rightarrow> 'k \<Rightarrow> 'a list" where
  "items_with xs k = map fst (filter (\<lambda>x. snd x = k) xs)"

lemma lift_bind: "act_bind (lift (Inr x)) f = f x"
  by (rule ext) (simp add: act_simps)

lemma call_step:
  "act_bind (act_bind (f x) (\<lambda>y. act_bind (map_loop f xs) (\<lambda>ys. return (y # ys)))) (\<lambda>ys. return (g ys))
     = act_bind (f x) (\<lambda>y. act_bind (map_loop f xs) (\<lambda>ys. return (g (y # ys))))"
  by (rule ext) (simp add: act_simps split: option.split sum.split)

lemma group_by_calls:
  "group_by_loop f groups xs =
     act_bind (map_loop f xs) (\<lambda>ks. return (fold (\<lambda>(x, k) g. group_add g k x) (zip xs ks) groups))"
  by (induction f groups xs rule: group_by_loop.induct)
    (simp_all add: call_step, auto simp: act_simps fun_eq_iff split: option.split sum.split)

lemma count_by_calls:
  "count_by_loop f counts xs =
     act_bind (map_loop f xs) (\<lambda>ks. return (fold (\<lambda>(x, k) c. count_add c k) (zip xs ks) counts))"
  by (induction f counts xs rule: count_by_loop.induct)
    (simp_all add: call_step, auto simp: act_simps fun_eq_iff split: option.split sum.split)

definition distinct_add :: "'k set \<times> 'a list \<Rightarrow> 'a \<times> 'k \<Rightarrow> 'k set \<times> 'a list" where
  "distinct_add acc x = (if snd x \<in> fst acc then acc else (insert (snd x) (fst acc), snd acc @ [fst x]))"

lemma distinct_by_calls:
  "distinct_by_loop f seen result xs =
     act_bind (map_loop f xs) (\<lambda>ks. return (snd (fold (\<lambda>x acc. distinct_add acc x) (zip xs ks) (seen, result))))"
  by (induction f seen result xs rule: distinct_by_loop.induct)
    (simp_all add: call_step, auto simp: act_simps fun_eq_iff distinct_add_def split: option.split sum.split)

lemma partition_calls:
  "partition_loop f matches misses xs =
     act_bind (map_loop f xs) (\<lambda>bs. return (matches @ items_with (zip xs bs) True, misses @ items_with (zip xs bs) False))"
  by (induction f matches misses xs rule: partition_loop.induct)
    (simp_all add: call_step, auto simp: act_simps fun_eq_iff items_with_def split: option.split sum.split)

lemma filter_calls:
  "filter_loop f xs = act_bind (map_loop f xs) (\<lambda>bs. return (items_with (zip xs bs) True))"
  by (induction f xs rule: filter_loop.induct)
    (simp_all add: call_step, auto simp: act_simps fun_eq_iff items_with_def split: option.split sum.split)

section \<open>The results\<close>

lemma distinct_loop_append:
  "distinct_loop seen result (xs @ ys) = distinct_loop (seen \<union> set xs) (distinct_loop seen result xs) ys"
  by (induction seen result xs rule: distinct_loop.induct) (auto simp: insert_absorb)

lemma distinct_items_snoc:
  "distinct_items (xs @ [x]) = (if x \<in> set xs then distinct_items xs else distinct_items xs @ [x])"
  by (simp add: distinct_items_def distinct_loop_append)

lemma distinct_items_Nil [simp]: "distinct_items [] = []"
  by (simp add: distinct_items_def)

lemma distinct_items_remdups: "distinct_items xs = rev (remdups (rev xs))"
  by (induction xs rule: rev_induct) (simp_all add: distinct_items_snoc)

lemma set_distinct_items [simp]: "set (distinct_items xs) = set xs" "distinct (distinct_items xs)"
  by (simp_all add: distinct_items_remdups)

lemma keys_snoc:
  "keys_in_order (zs @ [z]) = (if snd z \<in> snd ` set zs then keys_in_order zs else keys_in_order zs @ [snd z])"
  by (simp add: keys_in_order_def distinct_items_snoc)

lemma keys_Nil [simp]: "keys_in_order [] = []"
  by (simp add: keys_in_order_def)

lemma set_keys [simp]: "set (keys_in_order zs) = snd ` set zs" "distinct (keys_in_order zs)"
  by (simp_all add: keys_in_order_def)

lemma items_snoc: "items_with (zs @ [z]) k = items_with zs k @ (if snd z = k then [fst z] else [])"
  by (simp add: items_with_def)

lemma items_empty: "items_with zs k = [] \<longleftrightarrow> k \<notin> snd ` set zs"
  by (auto simp: items_with_def filter_empty_conv)

lemma dict_get_map: "dict_get (map (\<lambda>k. (k, F k)) ks) k = (if k \<in> set ks then Some (F k) else None)"
  by (induction ks) (auto simp: dict_get_def)

lemma dict_put_map:
  "distinct ks \<Longrightarrow> dict_put (map (\<lambda>k. (k, F k)) ks) k v =
     map (\<lambda>k'. (k', if k' = k then v else F k')) (if k \<in> set ks then ks else ks @ [k])"
  by (induction ks) auto

lemma group_result:
  "fold (\<lambda>(x, k) g. group_add g k x) zs [] = map (\<lambda>k. (k, items_with zs k)) (keys_in_order zs)"
proof (induction zs rule: rev_induct)
  case (snoc z zs)
  let ?d = "map (\<lambda>k. (k, items_with zs k)) (keys_in_order zs)"
  have "group_add ?d (snd z) (fst z) = map (\<lambda>k. (k, items_with (zs @ [z]) k)) (keys_in_order (zs @ [z]))"
    using items_empty [of zs "snd z"]
    by (auto simp: group_add_def dict_get_map dict_put_map keys_snoc items_snoc)
  with snoc show ?case by (simp add: split_beta)
qed simp

lemma count_result:
  "fold (\<lambda>(x, k) c. count_add c k) zs [] = map (\<lambda>k. (k, int (length (items_with zs k)))) (keys_in_order zs)"
proof (induction zs rule: rev_induct)
  case (snoc z zs)
  let ?d = "map (\<lambda>k. (k, int (length (items_with zs k)))) (keys_in_order zs)"
  have "count_add ?d (snd z) = map (\<lambda>k. (k, int (length (items_with (zs @ [z]) k)))) (keys_in_order (zs @ [z]))"
    using items_empty [of zs "snd z"]
    by (auto simp: count_add_def dict_get_map dict_put_map keys_snoc items_snoc)
  with snoc show ?case by (simp add: split_beta)
qed simp

lemma distinct_result:
  "fold (\<lambda>x acc. distinct_add acc x) zs ({}, []) =
     (snd ` set zs, map (\<lambda>k. hd (items_with zs k)) (keys_in_order zs))"
proof (induction zs rule: rev_induct)
  case (snoc z zs)
  have "hd (items_with (zs @ [z]) k) = hd (items_with zs k)" if "k \<in> snd ` set zs" for k
    using that items_empty [of zs k] by (auto simp: items_snoc hd_append)
  moreover have "hd (items_with (zs @ [z]) (snd z)) = fst z" if "snd z \<notin> snd ` set zs"
    using that items_empty [of zs "snd z"] by (simp add: items_snoc)
  ultimately show ?case using snoc by (auto simp: distinct_add_def keys_snoc insert_absorb)
qed simp

section \<open>Properties\<close>

text \<open>
  a key function is called on the items in order, once each, up to the first that raises, whose
  exception is the outcome; the keys of the result are in first-seen order, each with its items in
  their order (group_by), with their number (count_by), or with the first of them (distinct_by).
\<close>

theorem keyed_helpers:
  "group_by xs (Callable f) = act_bind (map_or_raise xs (Callable f)) (\<lambda>ks. let zs = zip xs ks in
     return (map (\<lambda>k. (k, items_with zs k)) (keys_in_order zs)))
   \<and> count_by xs (Callable f) = act_bind (map_or_raise xs (Callable f)) (\<lambda>ks. let zs = zip xs ks in
     return (map (\<lambda>k. (k, int (length (items_with zs k)))) (keys_in_order zs)))
   \<and> distinct_by xs (Callable f) = act_bind (map_or_raise xs (Callable f)) (\<lambda>ks. let zs = zip xs ks in
     return (map (\<lambda>k. hd (items_with zs k)) (keys_in_order zs)))"
  unfolding group_by_def count_by_def distinct_by_def map_or_raise_def coll_require_callable_def
  by (simp add: group_by_calls count_by_calls distinct_by_calls group_result count_result distinct_result
      lift_bind Let_def)

text \<open>
  partition and filter_or_raise call the predicate on the items in order, once each, up to the
  first exception, and split the items by its answers without reordering them.
\<close>

theorem split_helpers:
  "partition_items xs (Callable f) = act_bind (map_or_raise xs (Callable f)) (\<lambda>bs.
     return (map fst (filter snd (zip xs bs)), map fst (filter (\<lambda>x. \<not> snd x) (zip xs bs))))
   \<and> filter_or_raise xs (Callable f) = act_bind (map_or_raise xs (Callable f)) (\<lambda>bs.
     return (map fst (filter snd (zip xs bs))))"
  unfolding partition_items_def filter_or_raise_def map_or_raise_def coll_require_callable_def
  by (simp add: partition_calls filter_calls items_with_def lift_bind)

text \<open>
  chunked cuts the input, in order and without loss, into chunks of exactly the given size, only
  the last of which may be shorter and none of which is empty; a size that is no positive int is
  refused.
\<close>

theorem chunked_spec:
  "(\<forall>n. 0 < n \<longrightarrow> (\<exists>chunks. chunked xs (PyInt n) = Inr chunks \<and> chunks_of (nat n) xs chunks))
   \<and> (\<forall>size chunks. chunked xs size = Inr chunks \<longrightarrow> (\<exists>n. size = PyInt n \<and> 0 < n))"
  using chunked_loop_ok [of "[]" "nat n" "[]" xs for n]
  by (auto simp: chunked_def split: pyval.splits if_splits)

lemma chunked_spec_witness:
  "chunked [1, 2, 3, 4, 5 :: nat] (PyInt 2) = Inr [[1, 2], [3, 4], [5]]
   \<and> (\<exists>chunks. chunked [1, 2, 3, 4, 5 :: nat] (PyInt 2) = Inr chunks \<and> chunks_of 2 [1, 2, 3, 4, 5] chunks)"
proof -
  have "\<exists>chunks. chunked [1, 2, 3, 4, 5 :: nat] (PyInt 2) = Inr chunks \<and> chunks_of (nat 2) [1, 2, 3, 4, 5] chunks"
    using chunked_spec [of "[1, 2, 3, 4, 5 :: nat]"] by (metis zero_less_numeral)
  then show ?thesis by (simp add: chunked_def Let_def)
qed

end
