(* ===== verification/Utf8.thy ===== *)
theory Utf8
  imports Prelude
begin

text \<open>
  \<open>str.encode("utf-8")\<close> and \<open>bytes.decode("utf-8")\<close>, as the binary formats of the Redis packages use them.
  The decoder is strict: it takes the shortest form only and no surrogates. Both are inverse to each
  other on the texts without lone surrogates.
\<close>

definition surrogate :: "nat \<Rightarrow> bool" where
  "surrogate c \<longleftrightarrow> 55296 \<le> c \<and> c \<le> 57343"

text \<open>What every \<open>str\<close> satisfies.\<close>

definition str_ok :: "pystr \<Rightarrow> bool" where
  "str_ok s \<longleftrightarrow> list_all (\<lambda>c. c < 1114112) s"

definition utf8_char :: "nat \<Rightarrow> pybytes" where
  "utf8_char c =
     (if c < 128 then [c]
      else if c < 2048 then [192 + c div 64, 128 + c mod 64]
      else if c < 65536 then [224 + c div 4096, 128 + c div 64 mod 64, 128 + c mod 64]
      else [240 + c div 262144, 128 + c div 4096 mod 64, 128 + c div 64 mod 64, 128 + c mod 64])"

text \<open>\<open>None\<close> stands for the \<open>UnicodeEncodeError\<close>.\<close>

definition utf8_encode :: "pystr \<Rightarrow> pybytes option" where
  "utf8_encode s =
     (if list_all (\<lambda>c. \<not> surrogate c) s then Some (concat (map utf8_char s)) else None)"

definition cont :: "nat \<Rightarrow> bool" where
  "cont b \<longleftrightarrow> 128 \<le> b \<and> b < 192"

text \<open>One character and the bytes behind it; \<open>None\<close> stands for the \<open>UnicodeDecodeError\<close>.\<close>

definition utf8_next :: "pybytes \<Rightarrow> (nat \<times> pybytes) option" where
  "utf8_next bs =
     (case bs of
        [] \<Rightarrow> None
      | a # r \<Rightarrow>
          if a < 128 then Some (a, r)
          else if 194 \<le> a \<and> a < 224
          then (case r of
                  b # r' \<Rightarrow> if cont b then Some ((a - 192) * 64 + (b - 128), r') else None
                | _ \<Rightarrow> None)
          else if 224 \<le> a \<and> a < 240
          then (case r of
                  b # c # r' \<Rightarrow>
                    if cont b \<and> cont c \<and> (a = 224 \<longrightarrow> 160 \<le> b) \<and> (a = 237 \<longrightarrow> b < 160)
                    then Some ((a - 224) * 4096 + (b - 128) * 64 + (c - 128), r') else None
                | _ \<Rightarrow> None)
          else if 240 \<le> a \<and> a < 245
          then (case r of
                  b # c # d # r' \<Rightarrow>
                    if cont b \<and> cont c \<and> cont d \<and> (a = 240 \<longrightarrow> 144 \<le> b) \<and> (a = 244 \<longrightarrow> b < 144)
                    then Some ((a - 240) * 262144 + (b - 128) * 4096 + (c - 128) * 64 + (d - 128), r')
                    else None
                | _ \<Rightarrow> None)
          else None)"

lemma utf8_next_shorter: "utf8_next bs = Some (c, r) \<Longrightarrow> length r < length bs"
  by (auto simp: utf8_next_def split: list.splits if_splits)

function utf8_decode :: "pybytes \<Rightarrow> pystr option" where
  "utf8_decode bs =
     (if bs = [] then Some []
      else case utf8_next bs of
        None \<Rightarrow> None
      | Some (c, r) \<Rightarrow> (case utf8_decode r of None \<Rightarrow> None | Some s \<Rightarrow> Some (c # s)))"
  by pat_completeness auto
termination
  by (relation "measure length") (auto dest: utf8_next_shorter)

declare utf8_decode.simps [simp del]

section \<open>One character\<close>

definition char_ok :: "nat \<Rightarrow> bool" where
  "char_ok c \<longleftrightarrow> c < 1114112 \<and> \<not> surrogate c"

text \<open>The groups of six bits of a code point, as unknowns of linear facts.\<close>

lemma six_bits:
  obtains w x y z :: nat
  where "c mod 64 = z" "c div 64 mod 64 = y" "c div 4096 mod 64 = x" "c div 262144 = w"
    "c div 4096 = 64 * w + x" "c div 64 = 64 * (64 * w + x) + y" "c = 64 * (64 * (64 * w + x) + y) + z"
    "x < 64" "y < 64" "z < 64"
proof -
  have "c div 64 div 64 = c div 4096" "c div 4096 div 64 = c div 262144"
    by (simp_all add: div_mult2_eq [symmetric])
  then show thesis
    using that [of "c mod 64" "c div 64 mod 64" "c div 4096 mod 64" "c div 262144"]
      mult_div_mod_eq [of 64 c] mult_div_mod_eq [of 64 "c div 64"] mult_div_mod_eq [of 64 "c div 4096"]
    by simp
qed

lemma utf8_next_char: "char_ok c \<Longrightarrow> utf8_next (utf8_char c @ r) = Some (c, r)"
proof -
  assume ok: "char_ok c"
  obtain w x y z where bits: "c mod 64 = z" "c div 64 mod 64 = y" "c div 4096 mod 64 = x" "c div 262144 = w"
    "c div 4096 = 64 * w + x" "c div 64 = 64 * (64 * w + x) + y" and c: "c = 64 * (64 * (64 * w + x) + y) + z"
    and b: "x < 64" "y < 64" "z < 64"
    using six_bits .
  consider "c < 128" | "128 \<le> c" "c < 2048" | "2048 \<le> c" "c < 65536" | "65536 \<le> c" by linarith
  then show ?thesis
  proof cases
    case 2
    then have "w = 0" using c by (cases w) simp_all
    moreover from this have "x = 0" using c 2 by (cases x) simp_all
    ultimately have "w = 0" "x = 0" "2 \<le> y" "y < 32" using c 2 b by simp_all
    with 2 b show ?thesis by (simp add: utf8_char_def bits utf8_next_def cont_def) (simp add: c)
  next
    case 3
    then have "w = 0" using c by (cases w) simp_all
    moreover from this have "x < 16" "x = 0 \<longrightarrow> 32 \<le> y" using c 3 b by simp_all
    moreover have "x = 13 \<longrightarrow> y < 32" using ok c b \<open>w = 0\<close> by (auto simp: char_ok_def surrogate_def)
    ultimately show ?thesis using 3 b by (simp add: utf8_char_def bits(1-5) utf8_next_def cont_def) (simp add: c)
  next
    case 4
    then have "w < 5" "w = 0 \<longrightarrow> 16 \<le> x" "w = 4 \<longrightarrow> x < 16" using c ok b by (simp_all add: char_ok_def)
    then show ?thesis using 4 b by (simp add: utf8_char_def bits(1-4) utf8_next_def cont_def) (simp add: c)
  qed (simp add: utf8_char_def utf8_next_def)
qed

lemma low_bits: "z < 64 \<Longrightarrow> (64 * m + z) mod 64 = z \<and> (64 * m + z) div 64 = (m :: nat)"
  by simp

lemma join_bits:
  assumes "c = 64 * (64 * m + y) + z" "y < 64" "z < (64 :: nat)"
  shows "c mod 64 = z" "c div 64 = 64 * m + y" "c div 64 mod 64 = y" "c div 4096 = m"
proof -
  show z: "c mod 64 = z" "c div 64 = 64 * m + y"
    using low_bits [OF assms(3), of "64 * m + y"] unfolding assms(1) by blast+
  show "c div 64 mod 64 = y" using low_bits [OF assms(2), of m] unfolding z(2) by blast
  have "c div 4096 = c div 64 div 64" by (simp add: div_mult2_eq [symmetric])
  then show "c div 4096 = m" using low_bits [OF assms(2), of m] unfolding z(2) by simp
qed

lemma utf8_next_inverse:
  assumes "utf8_next bs = Some (c, r)"
  shows "char_ok c" "bs = utf8_char c @ r" "bytes_ok (utf8_char c)"
proof -
  have "char_ok c \<and> bs = utf8_char c @ r \<and> bytes_ok (utf8_char c)"
  proof (cases bs)
    case Nil
    with assms show ?thesis by (simp add: utf8_next_def)
  next
    case (Cons a t)
    consider (one) "a < 128" | (two) "\<not> a < 128" "194 \<le> a" "a < 224" | (three) "224 \<le> a" "a < 240"
      | (four) "240 \<le> a" "a < 245"
      using assms Cons by (auto simp: utf8_next_def split: if_splits)
    then show ?thesis
    proof cases
      case one
      with assms Cons show ?thesis
        by (auto simp: utf8_next_def utf8_char_def char_ok_def surrogate_def bytes_ok_def)
    next
      case two
      then obtain z where t: "t = (128 + z) # r" "z < 64" and c: "c = (a - 192) * 64 + z"
        using assms Cons
        by (auto simp: utf8_next_def cont_def split: list.splits if_splits) (metis add_diff_inverse_nat not_less)
      obtain y where a: "a = 192 + y" "2 \<le> y" "y < 32" using two le_Suc_ex [of 192 a] by auto
      show ?thesis using t c a by (simp add: Cons utf8_char_def char_ok_def surrogate_def bytes_ok_def)
    next
      case three
      then obtain b d where t: "t = b # d # r" "cont b" "cont d" "a = 224 \<longrightarrow> 160 \<le> b" "a = 237 \<longrightarrow> b < 160"
        and c: "c = (a - 224) * 4096 + (b - 128) * 64 + (d - 128)"
        using assms Cons by (auto simp: utf8_next_def split: list.splits if_splits)
      obtain x where a: "a = 224 + x" "x < 16" using three le_Suc_ex [of 224 a] by auto
      obtain y where b: "b = 128 + y" "y < 64" using t(2) le_Suc_ex [of 128 b] by (auto simp: cont_def)
      obtain z where d: "d = 128 + z" "z < 64" using t(3) le_Suc_ex [of 128 d] by (auto simp: cont_def)
      have "c = 64 * (64 * x + y) + z" using c a b d by simp
      moreover note join_bits [OF this b(2) d(2)]
      moreover have "x = 0 \<longrightarrow> 32 \<le> y" "x = 13 \<longrightarrow> y < 32" using t a b by simp_all
      moreover have "\<not> surrogate c"
      proof -
        consider "x < 13" | "x = 13" | "14 \<le> x" by linarith
        then show ?thesis
          using \<open>c = 64 * (64 * x + y) + z\<close> \<open>x = 13 \<longrightarrow> y < 32\<close> b d by cases (simp_all add: surrogate_def)
      qed
      ultimately show ?thesis using a b d t(1)
        by (cases "x = 0") (auto simp: Cons utf8_char_def char_ok_def bytes_ok_def)
    next
      case four
      then obtain b d e where t: "t = b # d # e # r" "cont b" "cont d" "cont e" "a = 240 \<longrightarrow> 144 \<le> b" "a = 244 \<longrightarrow> b < 144"
        and c: "c = (a - 240) * 262144 + (b - 128) * 4096 + (d - 128) * 64 + (e - 128)"
        using assms Cons by (auto simp: utf8_next_def split: list.splits if_splits)
      obtain w where a: "a = 240 + w" "w < 5" using four le_Suc_ex [of 240 a] by auto
      obtain x where b: "b = 128 + x" "x < 64" using t(2) le_Suc_ex [of 128 b] by (auto simp: cont_def)
      obtain y where d: "d = 128 + y" "y < 64" using t(3) le_Suc_ex [of 128 d] by (auto simp: cont_def)
      obtain z where e: "e = 128 + z" "z < 64" using t(4) le_Suc_ex [of 128 e] by (auto simp: cont_def)
      have "c = 64 * (64 * (64 * w + x) + y) + z" using c a b d e by simp
      moreover note low = join_bits [OF this d(2) e(2)]
      moreover have "c div 4096 mod 64 = x" "c div 262144 = w"
        using low_bits [OF b(2), of w] div_mult2_eq [of c 4096 64] by (simp_all add: low(4))
      moreover have "w = 0 \<longrightarrow> 16 \<le> x" "w = 4 \<longrightarrow> x < 16" using t a b by simp_all
      ultimately show ?thesis using a b d e t(1)
        by (cases "w = 0") (auto simp: Cons utf8_char_def char_ok_def surrogate_def bytes_ok_def)
    qed
  qed
  then show "char_ok c" "bs = utf8_char c @ r" "bytes_ok (utf8_char c)" by simp_all
qed

section \<open>Texts\<close>

lemma utf8_char_nonempty [simp]: "utf8_char c \<noteq> []"
  by (simp add: utf8_char_def)

lemma utf8_decode_Nil [simp]: "utf8_decode [] = Some []"
  by (simp add: utf8_decode.simps)

lemma utf8_decode_char: "char_ok c \<Longrightarrow> utf8_decode (utf8_char c @ r) = map_option ((#) c) (utf8_decode r)"
  by (subst utf8_decode.simps) (simp add: utf8_next_char split: option.split)

lemma utf8_decode_encode: "str_ok s \<Longrightarrow> utf8_encode s = Some b \<Longrightarrow> utf8_decode b = Some s"
proof (induction s arbitrary: b)
  case (Cons c s)
  then have "char_ok c" "b = utf8_char c @ concat (map utf8_char s)" "utf8_encode s = Some (concat (map utf8_char s))"
    by (auto simp: utf8_encode_def str_ok_def char_ok_def split: if_splits)
  with Cons show ?case by (simp add: utf8_decode_char str_ok_def)
qed (simp add: utf8_encode_def)

lemma utf8_encode_decode: "utf8_decode b = Some s \<Longrightarrow> utf8_encode s = Some b \<and> str_ok s \<and> bytes_ok b"
proof (induction b arbitrary: s rule: utf8_decode.induct)
  case (1 b)
  show ?case
  proof (cases "b = []")
    case True
    with 1 show ?thesis by (simp add: utf8_encode_def str_ok_def bytes_ok_def)
  next
    case False
    then obtain c r t where n: "utf8_next b = Some (c, r)" "utf8_decode r = Some t" "s = c # t"
      using 1(2) by (auto simp: utf8_decode.simps [of b] split: option.splits)
    then show ?thesis
      using 1(1) [OF False n(1) refl] utf8_next_inverse [OF n(1)]
      by (auto simp: utf8_encode_def str_ok_def char_ok_def bytes_ok_def split: if_splits)
  qed
qed

text \<open>ASCII text encodes to itself.\<close>

lemma utf8_encode_ascii: "list_all (\<lambda>c. c < 128) s \<Longrightarrow> utf8_encode s = Some s"
  by (induction s) (auto simp: utf8_encode_def utf8_char_def surrogate_def split: if_splits)

lemma utf8_encode_length: "map_option length (utf8_encode s) = utf8_length s"
proof -
  have "length (concat (map utf8_char s)) = sum_list (map utf8_len1 s)"
    by (induction s) (auto simp: utf8_char_def)
  then show ?thesis by (simp add: utf8_encode_def utf8_length_def surrogate_def)
qed

end
