(* ===== verification/Redis_Contracts.thy ===== *)
theory Redis_Contracts
  imports Utf8
begin

text \<open>
  \<open>bluetape.cache.redis._contracts\<close>: the values, settings, events and failures of the Redis result
  providers, with the payload metadata of \<open>bluetape.serde._contracts\<close> that an envelope carries.

  A frozen dataclass is a record, and its constructor with \<open>__post_init__\<close> a function from dynamically
  typed arguments (\<open>pyval\<close>; an argument of a class of the package is \<open>None\<close> when it is of another
  type). Numeric settings are kept as the float they are compared as: an int setting is at most 3600,
  which a float holds exactly.
\<close>

section \<open>Failures\<close>

datatype envelope_code =
    INVALID_INPUT | ENCODED_SIZE_LIMIT | MALFORMED_ENVELOPE | UNSUPPORTED_VERSION
  | UNSUPPORTED_FORMAT | UNKNOWN_ALGORITHM | COMPRESSION_FAILURE | PAYLOAD_CODEC_FAILURE

datatype redis_operation =
    OP_CREATE | OP_GET | OP_SET | OP_SET_IF_ABSENT | OP_DELETE | OP_DELETE_IF_VALUE
  | OP_COORDINATION_SNAPSHOT | OP_PUBLISH_IF_VALUE | OP_CLOSE

datatype redis_outcome = RO_SUCCESS | RO_FAILURE | RO_CANCELLED

datatype redis_code = RC_CLOSED | RC_INVALID_INPUT | RC_CONNECTION | RC_TIMEOUT | RC_PROVIDER_FAILURE | RC_INVALID_RESPONSE

datatype flight_outcome = LOADED | RESULT_REUSED | LEASE_LOST | FO_TIMEOUT | FO_FAILURE | FO_CANCELLED

datatype flight_code =
    ATTEMPTS_EXHAUSTED | POLLS_EXHAUSTED | DEADLINE_EXCEEDED | INVALID_ARTIFACT | FC_PROVIDER_FAILURE
  | ENVELOPE_FAILURE | LOADER_FAILURE

text \<open>What the package raises, and what it tells apart in what it catches: the errors of \<open>redis-py\<close>,
  other exceptions, and what is no \<open>Exception\<close>. \<open>ProviderClosedError\<close> is the provider error with the
  code \<open>RC_CLOSED\<close>.\<close>

datatype rc_exn =
    TypeError string
  | ValueError string
  | UnicodeError
  | OverflowError
  | StructError
  | InvalidMetadataError
  | EnvelopeSizeError envelope_code
  | EnvelopeEncodeError envelope_code
  | EnvelopeDecodeError envelope_code
  | RedisProviderError redis_operation redis_code
  | CoordinationError flight_code
  | CoordinationTimeoutError flight_code
  | RedisTimeoutError nat
  | RedisConnectionError nat
  | OtherException nat
  | Interrupt nat

fun is_exception :: "rc_exn \<Rightarrow> bool" where
  "is_exception (Interrupt _) = False"
| "is_exception _ = True"

text \<open>\<open>isinstance(e, EnvelopeError)\<close>, \<open>isinstance(e, (TypeError, ValueError))\<close> and
  \<open>isinstance(e, RedisCoordinationError)\<close>.\<close>

fun is_envelope_error :: "rc_exn \<Rightarrow> bool" where
  "is_envelope_error (EnvelopeSizeError _) = True"
| "is_envelope_error (EnvelopeEncodeError _) = True"
| "is_envelope_error (EnvelopeDecodeError _) = True"
| "is_envelope_error _ = False"

fun is_type_or_value_error :: "rc_exn \<Rightarrow> bool" where
  "is_type_or_value_error (TypeError _) = True"
| "is_type_or_value_error (ValueError _) = True"
| "is_type_or_value_error UnicodeError = True"
| "is_type_or_value_error InvalidMetadataError = True"
| "is_type_or_value_error e = is_envelope_error e"

fun is_coordination_error :: "rc_exn \<Rightarrow> bool" where
  "is_coordination_error (CoordinationError _) = True"
| "is_coordination_error (CoordinationTimeoutError _) = True"
| "is_coordination_error _ = False"

definition provider_closed_error :: "redis_operation \<Rightarrow> rc_exn" where
  "provider_closed_error operation = RedisProviderError operation RC_CLOSED"

definition coordination_timeout_error :: "flight_code \<Rightarrow> rc_exn" where
  "coordination_timeout_error code =
     (if code \<notin> {ATTEMPTS_EXHAUSTED, POLLS_EXHAUSTED, DEADLINE_EXCEEDED}
      then ValueError ''timeout error requires a timeout code''
      else CoordinationTimeoutError code)"

section \<open>Checks\<close>

definition default_max_encoded_size :: int where
  "default_max_encoded_size = 16 * 1024 * 1024"

definition max_coordination_marker_size :: int where
  "max_coordination_marker_size = 138"

definition max_coordination_duration :: rat where
  "max_coordination_duration = 3600"

definition min_poll_interval :: pyfloat where
  "min_poll_interval = round_double (1 / 1000)"

definition max_poll_budget :: int where
  "max_poll_budget = 10000"

definition alphanumeric :: "nat \<Rightarrow> bool" where
  "alphanumeric c \<longleftrightarrow> 48 \<le> c \<and> c \<le> 57 \<or> 97 \<le> c \<and> c \<le> 122"

definition token_character :: "nat \<Rightarrow> bool" where
  "token_character c \<longleftrightarrow> alphanumeric c \<or> 65 \<le> c \<and> c \<le> 90 \<or> c \<in> set (ustr ''._~-'')"

definition algorithm_character :: "nat \<Rightarrow> bool" where
  "algorithm_character c \<longleftrightarrow> alphanumeric c \<or> c \<in> set (ustr ''-_.'')"

definition format_character :: "nat \<Rightarrow> bool" where
  "format_character c \<longleftrightarrow> alphanumeric c \<or> c \<in> set (ustr ''-_./'')"

definition validate_owner_token :: "pyval \<Rightarrow> rc_exn + pystr" where
  "validate_owner_token token =
     (case token of
        PyStr s \<Rightarrow>
          if \<not> (1 \<le> length s \<and> length s \<le> 128) \<or> list_ex (\<lambda>c. \<not> token_character c) s
          then Inl (ValueError ''owner token must be 1..128 allowed ASCII characters'')
          else Inr s
      | _ \<Rightarrow> Inl (TypeError ''owner_token must be an exact str''))"

definition validate_algorithm :: "pyval \<Rightarrow> rc_exn + pystr" where
  "validate_algorithm algorithm =
     (case algorithm of
        PyStr s \<Rightarrow>
          if \<not> (1 \<le> length s \<and> length s \<le> 64) \<or> list_ex (\<lambda>c. \<not> algorithm_character c) s
          then Inl (ValueError ''compression algorithm must be 1..64 allowed ASCII characters'')
          else Inr s
      | _ \<Rightarrow> Inl (TypeError ''compression_algorithm must be an exact str''))"

section \<open>Metadata and envelopes\<close>

datatype trust_profile = UNTRUSTED | TRUSTED_INTERNAL

fun trust_value :: "trust_profile \<Rightarrow> pystr" where
  "trust_value UNTRUSTED = ustr ''untrusted''"
| "trust_value TRUSTED_INTERNAL = ustr ''trusted_internal''"

definition trust_profile_of :: "pystr \<Rightarrow> rc_exn + trust_profile" where
  "trust_profile_of value =
     (if value = trust_value UNTRUSTED then Inr UNTRUSTED
      else if value = trust_value TRUSTED_INTERNAL then Inr TRUSTED_INTERNAL
      else Inl (ValueError ''not a valid TrustProfile''))"

record payload_metadata =
  pm_format :: pystr
  pm_version :: int
  pm_content_type :: "pystr option"
  pm_trust_profile :: trust_profile

definition payload_metadata_new ::
  "pyval \<Rightarrow> pyval \<Rightarrow> pyval \<Rightarrow> trust_profile option \<Rightarrow> rc_exn + payload_metadata" where
  "payload_metadata_new format_value version content_type profile =
     (case format_value of
        PyStr f \<Rightarrow>
          (case version of
             PyInt n \<Rightarrow>
               ebind
                 (case content_type of
                    PyNone \<Rightarrow> Inr None
                  | PyStr c \<Rightarrow> Inr (Some c)
                  | _ \<Rightarrow> Inl (TypeError ''content_type must be an exact str or None''))
                 (\<lambda>content.
                    case profile of
                      None \<Rightarrow> Inl (TypeError ''trust_profile must be an exact TrustProfile'')
                    | Some t \<Rightarrow>
                        if \<not> (1 \<le> length f \<and> length f \<le> 64) \<or> \<not> list_all format_character f \<or> n \<le> 0
                        then Inl InvalidMetadataError
                        else Inr \<lparr>pm_format = f, pm_version = n, pm_content_type = content, pm_trust_profile = t\<rparr>)
           | _ \<Rightarrow> Inl (TypeError ''version must be an exact int''))
      | _ \<Rightarrow> Inl (TypeError ''format must be an exact str''))"

record serialized_payload =
  sp_metadata :: payload_metadata
  sp_data :: pybytes

definition serialized_payload_new :: "payload_metadata option \<Rightarrow> pyval \<Rightarrow> rc_exn + serialized_payload" where
  "serialized_payload_new metadata data =
     (case metadata of
        None \<Rightarrow> Inl (TypeError ''metadata must be an exact PayloadMetadata'')
      | Some m \<Rightarrow>
          (case data of
             PyBytes b \<Rightarrow> Inr \<lparr>sp_metadata = m, sp_data = b\<rparr>
           | _ \<Rightarrow> Inl (TypeError ''data must be exact bytes'')))"

record result_envelope =
  re_version :: int
  re_owner_token :: pystr
  re_metadata :: payload_metadata
  re_compression_algorithm :: pystr
  re_payload :: pybytes

definition result_envelope_new ::
  "pyval \<Rightarrow> pyval \<Rightarrow> payload_metadata option \<Rightarrow> pyval \<Rightarrow> pyval \<Rightarrow> rc_exn + result_envelope" where
  "result_envelope_new version owner_token metadata algorithm payload =
     (case version of
        PyInt n \<Rightarrow>
          if n \<le> 0 then Inl (ValueError ''version must be positive'')
          else ebind (validate_owner_token owner_token) (\<lambda>owner.
            case metadata of
              None \<Rightarrow> Inl (TypeError ''metadata must be an exact PayloadMetadata'')
            | Some m \<Rightarrow>
                ebind (validate_algorithm algorithm) (\<lambda>a.
                  case payload of
                    PyBytes b \<Rightarrow>
                      Inr \<lparr>re_version = n, re_owner_token = owner, re_metadata = m,
                           re_compression_algorithm = a, re_payload = b\<rparr>
                  | _ \<Rightarrow> Inl (TypeError ''payload must be exact bytes'')))
      | _ \<Rightarrow> Inl (TypeError ''version must be an exact int''))"

text \<open>What every value of these classes satisfies, with what Python guarantees of \<open>str\<close> and \<open>bytes\<close>.\<close>

definition metadata_ok :: "payload_metadata \<Rightarrow> bool" where
  "metadata_ok m \<longleftrightarrow>
     1 \<le> length (pm_format m) \<and> length (pm_format m) \<le> 64 \<and> list_all format_character (pm_format m)
     \<and> 0 < pm_version m \<and> (\<forall>c. pm_content_type m = Some c \<longrightarrow> str_ok c)"

definition owner_token_ok :: "pystr \<Rightarrow> bool" where
  "owner_token_ok s \<longleftrightarrow> 1 \<le> length s \<and> length s \<le> 128 \<and> list_all token_character s"

definition algorithm_ok :: "pystr \<Rightarrow> bool" where
  "algorithm_ok s \<longleftrightarrow> 1 \<le> length s \<and> length s \<le> 64 \<and> list_all algorithm_character s"

definition envelope_ok :: "result_envelope \<Rightarrow> bool" where
  "envelope_ok e \<longleftrightarrow>
     0 < re_version e \<and> owner_token_ok (re_owner_token e) \<and> metadata_ok (re_metadata e)
     \<and> algorithm_ok (re_compression_algorithm e) \<and> bytes_ok (re_payload e)"

section \<open>Settings\<close>

definition rc_finite_positive :: "pyval \<Rightarrow> string \<Rightarrow> rc_exn + pyfloat" where
  "rc_finite_positive value field =
     ebind
       (case value of
          PyInt n \<Rightarrow> (case float_of_int n of None \<Rightarrow> Inl OverflowError | Some f \<Rightarrow> Inr f)
        | PyFloat f \<Rightarrow> Inr f
        | _ \<Rightarrow> Inl (TypeError (field @ '' must be a real number'')))
       (\<lambda>result.
          if \<not> isfinite result \<or> float_le result (Finite 0)
          then Inl (ValueError (field @ '' must be finite and positive''))
          else Inr result)"

record command_policy =
  cp_connect_timeout :: pyfloat
  cp_socket_timeout :: pyfloat
  cp_max_retries :: int

definition command_policy_new :: "pyval \<Rightarrow> pyval \<Rightarrow> pyval \<Rightarrow> rc_exn + command_policy" where
  "command_policy_new connect_timeout socket_timeout max_retries =
     ebind (rc_finite_positive connect_timeout ''connect_timeout'') (\<lambda>c.
     ebind (rc_finite_positive socket_timeout ''socket_timeout'') (\<lambda>s.
       case max_retries of
         PyInt n \<Rightarrow>
           if n \<noteq> 0 then Inl (ValueError ''max_retries must be zero'')
           else Inr \<lparr>cp_connect_timeout = c, cp_socket_timeout = s, cp_max_retries = n\<rparr>
       | _ \<Rightarrow> Inl (TypeError ''max_retries must be an exact int'')))"

definition max_command_time :: "command_policy \<Rightarrow> pyfloat" where
  "max_command_time p = float_add (cp_connect_timeout p) (cp_socket_timeout p)"

record coordination_snapshot =
  cs_marker :: "pybytes option"
  cs_result :: "pybytes option"
  cs_marker_oversized :: bool
  cs_result_oversized :: bool

record load_options =
  ro_namespace :: pystr
  ro_lease_ttl :: pyfloat
  ro_result_ttl :: pyfloat
  ro_poll_interval :: pyfloat
  ro_max_poll_interval :: pyfloat
  ro_wait_timeout :: pyfloat
  ro_max_attempts :: int
  ro_max_polls :: int
  ro_redis_io_timeout :: pyfloat

record load_option_args =
  oa_namespace :: pyval
  oa_lease_ttl :: pyval
  oa_result_ttl :: pyval
  oa_poll_interval :: pyval
  oa_max_poll_interval :: pyval
  oa_wait_timeout :: pyval
  oa_max_attempts :: pyval
  oa_max_polls :: pyval
  oa_redis_io_timeout :: pyval

definition validate_namespace :: "pyval \<Rightarrow> rc_exn + pystr" where
  "validate_namespace value =
     (case value of
        PyStr ns \<Rightarrow>
          (case utf8_encode ns of
             None \<Rightarrow> Inl UnicodeError
           | Some encoded \<Rightarrow>
               if ns = [] \<or> ns \<noteq> strip ns \<or> list_ex (\<lambda>c. c < 32 \<or> c = 127) ns
                  \<or> \<not> (1 \<le> length encoded \<and> length encoded \<le> 256)
               then Inl (ValueError ''namespace must be 1..256 UTF-8 bytes'')
               else Inr ns)
      | _ \<Rightarrow> Inl (TypeError ''namespace must be an exact str''))"

definition validate_count :: "string \<Rightarrow> pyval \<Rightarrow> int \<Rightarrow> rc_exn + int" where
  "validate_count field value maximum =
     (case value of
        PyInt n \<Rightarrow>
          if \<not> (1 \<le> n \<and> n \<le> maximum) then Inl (ValueError (field @ '' is outside its supported range'')) else Inr n
      | _ \<Rightarrow> Inl (TypeError (field @ '' must be an exact int'')))"

definition load_options_new :: "load_option_args \<Rightarrow> rc_exn + load_options" where
  "load_options_new a =
     ebind (validate_namespace (oa_namespace a)) (\<lambda>namespace.
     ebind (rc_finite_positive (oa_lease_ttl a) ''lease_ttl'') (\<lambda>lease_ttl.
     ebind (rc_finite_positive (oa_result_ttl a) ''result_ttl'') (\<lambda>result_ttl.
     ebind (rc_finite_positive (oa_poll_interval a) ''poll_interval'') (\<lambda>poll_interval.
     ebind (rc_finite_positive (oa_max_poll_interval a) ''max_poll_interval'') (\<lambda>max_poll_interval.
     ebind (rc_finite_positive (oa_wait_timeout a) ''wait_timeout'') (\<lambda>wait_timeout.
     ebind (rc_finite_positive (oa_redis_io_timeout a) ''redis_io_timeout'') (\<lambda>redis_io_timeout.
       if list_ex (\<lambda>f. float_lt (Finite max_coordination_duration) f)
            [lease_ttl, result_ttl, poll_interval, max_poll_interval, wait_timeout, redis_io_timeout]
       then Inl (ValueError ''coordination durations must not exceed 3600 seconds'')
       else if float_lt poll_interval min_poll_interval then Inl (ValueError ''poll_interval is below the minimum'')
       else if float_lt max_poll_interval poll_interval
       then Inl (ValueError ''poll_interval must not exceed max_poll_interval'')
       else if float_lt wait_timeout max_poll_interval
       then Inl (ValueError ''max_poll_interval must not exceed wait_timeout'')
       else if float_lt result_ttl max_poll_interval
       then Inl (ValueError ''max_poll_interval must not exceed result_ttl'')
       else
         ebind (validate_count ''max_attempts'' (oa_max_attempts a) 100) (\<lambda>max_attempts.
         ebind (validate_count ''max_polls'' (oa_max_polls a) max_poll_budget) (\<lambda>max_polls.
           Inr \<lparr>ro_namespace = namespace, ro_lease_ttl = lease_ttl, ro_result_ttl = result_ttl,
                ro_poll_interval = poll_interval, ro_max_poll_interval = max_poll_interval,
                ro_wait_timeout = wait_timeout, ro_max_attempts = max_attempts, ro_max_polls = max_polls,
                ro_redis_io_timeout = redis_io_timeout\<rparr>)))))))))"

section \<open>Events\<close>

datatype redis_mode = SYNC | ASYNC

record redis_event =
  ev_mode :: redis_mode
  ev_operation :: redis_operation
  ev_outcome :: redis_outcome
  ev_error_code :: "redis_code option"
  ev_elapsed_ns :: int

text \<open>The checks that a typed caller can fail: the elapsed time.\<close>

definition redis_event_new ::
  "redis_mode \<Rightarrow> redis_operation \<Rightarrow> redis_outcome \<Rightarrow> redis_code option \<Rightarrow> int \<Rightarrow> rc_exn + redis_event" where
  "redis_event_new mode operation outcome error_code elapsed_ns =
     (if elapsed_ns < 0 then Inl (ValueError ''elapsed_ns must be non-negative'')
      else Inr \<lparr>ev_mode = mode, ev_operation = operation, ev_outcome = outcome, ev_error_code = error_code,
                ev_elapsed_ns = elapsed_ns\<rparr>)"

record coordination_event =
  ce_mode :: redis_mode
  ce_outcome :: flight_outcome
  ce_error_code :: "flight_code option"
  ce_attempts :: int
  ce_polls :: int
  ce_cleanup_failed :: bool
  ce_elapsed_ns :: int

definition coordination_event_new ::
  "redis_mode \<Rightarrow> flight_outcome \<Rightarrow> flight_code option \<Rightarrow> int \<Rightarrow> int \<Rightarrow> bool \<Rightarrow> int
   \<Rightarrow> rc_exn + coordination_event" where
  "coordination_event_new mode outcome error_code attempts polls cleanup_failed elapsed_ns =
     (if attempts < 0 then Inl (ValueError ''attempts must be non-negative'')
      else if polls < 0 then Inl (ValueError ''polls must be non-negative'')
      else if elapsed_ns < 0 then Inl (ValueError ''elapsed_ns must be non-negative'')
      else Inr \<lparr>ce_mode = mode, ce_outcome = outcome, ce_error_code = error_code, ce_attempts = attempts,
                ce_polls = polls, ce_cleanup_failed = cleanup_failed, ce_elapsed_ns = elapsed_ns\<rparr>)"

section \<open>What the constructors guarantee\<close>

lemma validate_owner_token_ok:
  "validate_owner_token t = Inr s \<longleftrightarrow> t = PyStr s \<and> owner_token_ok s"
  by (auto simp: validate_owner_token_def owner_token_ok_def list_all_iff list_ex_iff split: pyval.splits)

lemma validate_algorithm_ok: "validate_algorithm t = Inr s \<longleftrightarrow> t = PyStr s \<and> algorithm_ok s"
  by (auto simp: validate_algorithm_def algorithm_ok_def list_all_iff list_ex_iff split: pyval.splits)

lemma rc_finite_positive_ok: "rc_finite_positive v n = Inr f \<Longrightarrow> \<exists>x>0. f = Finite x"
  by (cases f) (auto simp: rc_finite_positive_def not_le split: if_splits)

definition load_options_ok :: "load_options \<Rightarrow> bool" where
  "load_options_ok opts \<longleftrightarrow>
     ro_namespace opts \<noteq> [] \<and> utf8_encode (ro_namespace opts) \<noteq> None
     \<and> (\<exists>lease result poll max_poll wait io.
          ro_lease_ttl opts = Finite lease \<and> ro_result_ttl opts = Finite result \<and> ro_poll_interval opts = Finite poll
          \<and> ro_max_poll_interval opts = Finite max_poll \<and> ro_wait_timeout opts = Finite wait
          \<and> ro_redis_io_timeout opts = Finite io
          \<and> 0 < lease \<and> 0 < result \<and> 0 < poll \<and> poll \<le> max_poll \<and> max_poll \<le> wait \<and> max_poll \<le> result \<and> 0 < io
          \<and> lease \<le> 3600 \<and> result \<le> 3600 \<and> wait \<le> 3600 \<and> io \<le> 3600)
     \<and> 1 \<le> ro_max_attempts opts \<and> ro_max_attempts opts \<le> 100
     \<and> 1 \<le> ro_max_polls opts \<and> ro_max_polls opts \<le> 10000"

lemma validate_count_ok: "validate_count f v m = Inr n \<longleftrightarrow> v = PyInt n \<and> 1 \<le> n \<and> n \<le> m"
  by (auto simp: validate_count_def split: pyval.splits)

lemma load_options_new_ok:
  assumes "load_options_new a = Inr opts"
  shows "load_options_ok opts"
proof -
  from assms obtain ns lease result poll max_poll wait io
    where ns: "validate_namespace (oa_namespace a) = Inr ns"
    and f: "rc_finite_positive (oa_lease_ttl a) ''lease_ttl'' = Inr lease"
      "rc_finite_positive (oa_result_ttl a) ''result_ttl'' = Inr result"
      "rc_finite_positive (oa_poll_interval a) ''poll_interval'' = Inr poll"
      "rc_finite_positive (oa_max_poll_interval a) ''max_poll_interval'' = Inr max_poll"
      "rc_finite_positive (oa_wait_timeout a) ''wait_timeout'' = Inr wait"
      "rc_finite_positive (oa_redis_io_timeout a) ''redis_io_timeout'' = Inr io"
    by (auto simp: load_options_new_def)
  obtain l r p m w i where fin: "lease = Finite l" "0 < l" "result = Finite r" "0 < r" "poll = Finite p" "0 < p"
    "max_poll = Finite m" "0 < m" "wait = Finite w" "0 < w" "io = Finite i" "0 < i"
    using f [THEN rc_finite_positive_ok] by metis
  have ns_ok: "ns \<noteq> [] \<and> utf8_encode ns \<noteq> None"
    using ns by (auto simp: validate_namespace_def split: pyval.splits option.splits if_splits)
  show ?thesis
    using assms ns_ok unfolding load_options_new_def
    by (auto simp: ns f fin load_options_ok_def not_less max_coordination_duration_def max_poll_budget_def
        validate_count_ok split: if_splits)
qed

end
