(* ===== verification/Result_Scripts.thy ===== *)
theory Result_Scripts
  imports Redis_Contracts Redis_Server
begin

text \<open>
  The three Lua scripts of \<open>bluetape.cache.redis._provider\<close>, as they run on the Redis server.

  The commands that the scripts and the provider use are a parameter (\<open>result_redis\<close>), with their documented
  behaviour as \<open>result_laws\<close> over a view of the key space. A script runs atomically; a command on a key of
  another type fails, and \<open>SET\<close> may fail (memory, range), which aborts the script without undoing what it
  did. An integer argument travels as its decimal text, which the script reads back; the model passes
  the integer.
\<close>

section \<open>Redis commands\<close>

record 'r result_redis =
  rr_get :: "pybytes \<Rightarrow> ('r, rc_exn, pybytes option) act"
  rr_exists :: "pybytes \<Rightarrow> ('r, rc_exn, int) act"
  rr_strlen :: "pybytes \<Rightarrow> ('r, rc_exn, int) act"
  rr_getrange :: "pybytes \<Rightarrow> int \<Rightarrow> int \<Rightarrow> ('r, rc_exn, pybytes) act"
  rr_set_px :: "pybytes \<Rightarrow> pybytes \<Rightarrow> int \<Rightarrow> ('r, rc_exn, unit) act"
  rr_set_nx_px :: "pybytes \<Rightarrow> pybytes \<Rightarrow> int \<Rightarrow> ('r, rc_exn, bool) act"
  rr_del :: "pybytes \<Rightarrow> ('r, rc_exn, int) act"

text \<open>\<open>holds v k x\<close>: the key is the string \<open>x\<close>; \<open>string_or_none v k\<close>: what a key of the package is.\<close>

definition holds :: "rview \<Rightarrow> pybytes \<Rightarrow> pybytes \<Rightarrow> bool" where
  "holds v k x \<longleftrightarrow> (\<exists>t. v k = Some (RStr x, t))"

definition string_at :: "rview \<Rightarrow> pybytes \<Rightarrow> pybytes option" where
  "string_at v k = (case v k of Some (RStr x, _) \<Rightarrow> Some x | _ \<Rightarrow> None)"

definition string_or_none :: "rview \<Rightarrow> pybytes \<Rightarrow> bool" where
  "string_or_none v k \<longleftrightarrow> (\<forall>x t. v k = Some (x, t) \<longrightarrow> (\<exists>b. x = RStr b))"

definition text_of :: "pybytes option \<Rightarrow> pybytes" where
  "text_of v = (case v of None \<Rightarrow> [] | Some x \<Rightarrow> x)"

text \<open>\<open>answers\<close>: a command that replies \<open>x\<close> and leaves the view \<open>v\<close>.\<close>

definition answers :: "('r \<Rightarrow> rview) \<Rightarrow> ('r, rc_exn, 'a) act \<Rightarrow> 'r \<Rightarrow> 'a \<Rightarrow> rview \<Rightarrow> bool" where
  "answers rv m s x v \<longleftrightarrow> (\<exists>s'. m s = Some (Inr x, s') \<and> rv s' = v)"

definition answers_or_fails :: "('r \<Rightarrow> rview) \<Rightarrow> ('r, rc_exn, 'a) act \<Rightarrow> 'r \<Rightarrow> 'a \<Rightarrow> rview \<Rightarrow> bool" where
  "answers_or_fails rv m s x v \<longleftrightarrow> answers rv m s x v \<or> (\<exists>e s'. m s = Some (Inl e, s') \<and> rv s' = rv s)"

definition result_laws :: "'r result_redis \<Rightarrow> ('r \<Rightarrow> rview) \<Rightarrow> bool" where
  "result_laws R rv \<longleftrightarrow>
     (\<forall>s k. string_or_none (rv s) k \<longrightarrow> answers rv (rr_get R k) s (string_at (rv s) k) (rv s))
     \<and> (\<forall>s k. answers rv (rr_exists R k) s (if rv s k = None then 0 else 1) (rv s))
     \<and> (\<forall>s k. string_or_none (rv s) k \<longrightarrow>
          answers rv (rr_strlen R k) s (int (length (text_of (string_at (rv s) k)))) (rv s))
     \<and> (\<forall>s k n. string_or_none (rv s) k \<longrightarrow> 0 \<le> n \<longrightarrow>
          answers rv (rr_getrange R k 0 n) s (take (nat (n + 1)) (text_of (string_at (rv s) k))) (rv s))
     \<and> (\<forall>s k x t. 0 < t \<longrightarrow> answers_or_fails rv (rr_set_px R k x t) s () ((rv s)(k \<mapsto> (RStr x, Some t))))
     \<and> (\<forall>s k x t. rv s k = None \<longrightarrow> 0 < t \<longrightarrow>
          answers_or_fails rv (rr_set_nx_px R k x t) s True ((rv s)(k \<mapsto> (RStr x, Some t))))
     \<and> (\<forall>s k x t. rv s k \<noteq> None \<longrightarrow> 0 < t \<longrightarrow> answers_or_fails rv (rr_set_nx_px R k x t) s False (rv s))
     \<and> (\<forall>s k. answers rv (rr_del R k) s (if rv s k = None then 0 else 1) ((rv s)(k := None)))"

section \<open>The scripts\<close>

definition compare_and_delete_script :: "'r result_redis \<Rightarrow> pybytes \<Rightarrow> pybytes \<Rightarrow> ('r, rc_exn, int) act" where
  "compare_and_delete_script R k1 expected =
     act_bind (rr_get R k1) (\<lambda>current. if current = Some expected then rr_del R k1 else return 0)"

definition active_prefix :: pybytes where
  "active_prefix = ustr ''active:''"

text \<open>\<open>string.sub(s, 1, n)\<close> for \<open>n \<ge> 0\<close>.\<close>

definition lua_prefix :: "int \<Rightarrow> pybytes \<Rightarrow> pybytes" where
  "lua_prefix n s = take (nat n) s"

definition coordination_snapshot_script ::
  "'r result_redis \<Rightarrow> pybytes \<Rightarrow> pybytes \<Rightarrow> int \<Rightarrow> int \<Rightarrow> ('r, rc_exn, pyval list) act" where
  "coordination_snapshot_script R k1 k2 marker_limit result_limit =
     act_bind (rr_exists R k1) (\<lambda>marker_exists.
     act_bind (rr_strlen R k1) (\<lambda>marker_length.
     let marker_read_limit = (if marker_limit < 7 then 7 else marker_limit)
     in act_bind (rr_getrange R k1 0 (marker_read_limit - 1)) (\<lambda>marker_probe.
        let marker_value = lua_prefix marker_limit marker_probe
        in if lua_prefix 7 marker_probe = active_prefix
           then return [PyInt marker_exists, PyInt marker_length, PyBytes marker_value, PyInt 0, PyInt 0, PyBytes []]
           else
             act_bind (rr_exists R k2) (\<lambda>result_exists.
             act_bind (rr_strlen R k2) (\<lambda>result_length.
             act_bind (rr_getrange R k2 0 (result_limit - 1)) (\<lambda>result_value.
               return [PyInt marker_exists, PyInt marker_length, PyBytes marker_value,
                       PyInt result_exists, PyInt result_length, PyBytes result_value]))))))"

definition publish_if_value_script ::
  "'r result_redis \<Rightarrow> pybytes \<Rightarrow> pybytes \<Rightarrow> pybytes \<Rightarrow> pybytes \<Rightarrow> int \<Rightarrow> pybytes \<Rightarrow> ('r, rc_exn, int) act" where
  "publish_if_value_script R k1 k2 expected result ttl completion =
     act_bind (rr_get R k1) (\<lambda>current.
       if current = Some expected
       then act_then (rr_set_px R k2 result ttl) (act_then (rr_set_px R k1 completion ttl) (return 1))
       else return 0)"

section \<open>What the scripts do to the key space\<close>

lemma result_lawsD:
  assumes "result_laws R rv"
  shows "string_or_none (rv s) k \<Longrightarrow> answers rv (rr_get R k) s (string_at (rv s) k) (rv s)"
    "answers rv (rr_exists R k) s (if rv s k = None then 0 else 1) (rv s)"
    "string_or_none (rv s) k \<Longrightarrow> answers rv (rr_strlen R k) s (int (length (text_of (string_at (rv s) k)))) (rv s)"
    "string_or_none (rv s) k \<Longrightarrow> 0 \<le> n \<Longrightarrow>
       answers rv (rr_getrange R k 0 n) s (take (nat (n + 1)) (text_of (string_at (rv s) k))) (rv s)"
    "0 < t \<Longrightarrow> answers_or_fails rv (rr_set_px R k x t) s () ((rv s)(k \<mapsto> (RStr x, Some t)))"
    "rv s k = None \<Longrightarrow> 0 < t \<Longrightarrow>
       answers_or_fails rv (rr_set_nx_px R k x t) s True ((rv s)(k \<mapsto> (RStr x, Some t)))"
    "rv s k \<noteq> None \<Longrightarrow> 0 < t \<Longrightarrow> answers_or_fails rv (rr_set_nx_px R k x t) s False (rv s)"
    "answers rv (rr_del R k) s (if rv s k = None then 0 else 1) ((rv s)(k := None))"
  using assms by (simp_all add: result_laws_def)

lemma string_at_eq: "string_at v k = Some x \<longleftrightarrow> holds v k x"
  by (auto simp: string_at_def holds_def split: option.splits rvalue.splits)

lemma holds_facts: "holds v k x \<Longrightarrow> string_or_none v k" "holds v k x \<Longrightarrow> v k \<noteq> None"
  by (auto simp: holds_def string_or_none_def)

lemma answers_bind:
  "answers rv m s x v \<Longrightarrow> (\<And>s'. rv s' = v \<Longrightarrow> answers rv (f x) s' y v') \<Longrightarrow> answers rv (act_bind m f) s y v'"
  unfolding answers_def by (fastforce simp: act_simps)

lemma answers_return: "answers rv (return x) s y v \<longleftrightarrow> x = y \<and> v = rv s"
  by (auto simp: answers_def act_simps)

theorem compare_and_delete_exact:
  assumes "result_laws R rv" "string_or_none (rv s) k"
  shows "answers rv (compare_and_delete_script R k x) s (if holds (rv s) k x then 1 else 0)
           (if holds (rv s) k x then (rv s)(k := None) else rv s)"
proof -
  note laws = result_lawsD [OF assms(1)]
  have "answers rv (if string_at (rv s) k = Some x then rr_del R k else return 0) s'
      (if holds (rv s) k x then 1 else 0) (if holds (rv s) k x then (rv s)(k := None) else rv s)"
    if "rv s' = rv s" for s'
    using laws(8) [of k s'] that holds_facts(2) [of "rv s" k x] by (auto simp: string_at_eq answers_return)
  then show ?thesis
    unfolding compare_and_delete_script_def by (rule answers_bind [OF laws(1) [OF assms(2)]])
qed

text \<open>The snapshot: what the provider makes of the two keys. While the marker is that of an active owner,
  the result is not looked at.\<close>

definition clipped :: "int \<Rightarrow> pybytes option \<Rightarrow> pybytes option \<times> bool" where
  "clipped n v = (map_option (take (nat n)) v, (case v of None \<Rightarrow> False | Some x \<Rightarrow> n < int (length x)))"

definition is_active :: "pybytes option \<Rightarrow> bool" where
  "is_active v \<longleftrightarrow> (case v of None \<Rightarrow> False | Some x \<Rightarrow> take 7 x = active_prefix)"

definition abs_snapshot :: "int \<Rightarrow> int \<Rightarrow> pybytes option \<Rightarrow> pybytes option \<Rightarrow> coordination_snapshot" where
  "abs_snapshot marker_limit result_limit marker result =
     (let r = (if is_active marker then None else result)
      in \<lparr>cs_marker = fst (clipped marker_limit marker), cs_result = fst (clipped result_limit r),
          cs_marker_oversized = snd (clipped marker_limit marker), cs_result_oversized = snd (clipped result_limit r)\<rparr>)"

text \<open>What the script replies for a key that holds \<open>v\<close>: whether it exists, its length, and a prefix.\<close>

definition snapshot_triple :: "int \<Rightarrow> pybytes option \<Rightarrow> pyval list" where
  "snapshot_triple n v =
     [PyInt (if v = None then 0 else 1), PyInt (int (length (text_of v))), PyBytes (take (nat n) (text_of v))]"

lemma snapshot_script_exact:
  assumes "result_laws R rv" "string_or_none (rv s) k1" "string_or_none (rv s) k2"
    and "1 \<le> marker_limit" "1 \<le> result_limit"
  defines "marker \<equiv> string_at (rv s) k1" and "result \<equiv> string_at (rv s) k2"
  shows "answers rv (coordination_snapshot_script R k1 k2 marker_limit result_limit) s
     (snapshot_triple marker_limit marker @ snapshot_triple result_limit (if is_active marker then None else result)) (rv s)"
proof -
  note laws = result_lawsD [OF assms(1)]
  let ?n = "if marker_limit < 7 then 7 else marker_limit"
  have none: "(rv s k = None) \<longleftrightarrow> string_at (rv s) k = None" if "string_or_none (rv s) k" for k
    using that by (auto simp: string_at_def string_or_none_def split: option.splits rvalue.splits)
  have probe: "lua_prefix marker_limit (take (nat ?n) b) = take (nat marker_limit) b"
    "lua_prefix 7 (take (nat ?n) b) = take 7 b" for b
    using assms(4) by (auto simp: lua_prefix_def min_def)
  have active: "take 7 (text_of marker) = active_prefix \<longleftrightarrow> is_active marker"
    by (auto simp: is_active_def text_of_def active_prefix_def ustr_def split: option.split)
  have ex: "answers rv (rr_exists R k) s' (if string_at (rv s) k = None then 0 else 1) (rv s)"
    if "rv s' = rv s" "string_or_none (rv s) k" for s' k using laws(2) [of k s'] that none by simp
  have len: "answers rv (rr_strlen R k) s' (int (length (text_of (string_at (rv s) k)))) (rv s)"
    if "rv s' = rv s" "string_or_none (rv s) k" for s' k using laws(3) [of s' k] that by simp
  have range: "answers rv (rr_getrange R k 0 (n - 1)) s' (take (nat n) (text_of (string_at (rv s) k))) (rv s)"
    if "rv s' = rv s" "string_or_none (rv s) k" "1 \<le> n" for s' k n using laws(4) [of s' k "n - 1"] that by simp
  have both: "answers rv (act_bind (rr_exists R k2) (\<lambda>e. act_bind (rr_strlen R k2) (\<lambda>l.
        act_bind (rr_getrange R k2 0 (result_limit - 1)) (\<lambda>v. return [x, y, z, PyInt e, PyInt l, PyBytes v])))) s'
      ([x, y, z] @ snapshot_triple result_limit result) (rv s)" if "rv s' = rv s" for x y z s'
  proof (rule answers_bind [OF ex [OF that assms(3)]], rule answers_bind [OF len [OF _ assms(3)]], assumption,
      rule answers_bind [OF range [OF _ assms(3) assms(5)]], assumption)
    fix s3
    assume "rv s3 = rv s"
    then show "answers rv (return [x, y, z, PyInt (if string_at (rv s) k2 = None then 0 else 1),
          PyInt (int (length (text_of (string_at (rv s) k2)))), PyBytes (take (nat result_limit) (text_of (string_at (rv s) k2)))])
        s3 ([x, y, z] @ snapshot_triple result_limit result) (rv s)"
      by (simp add: answers_return snapshot_triple_def result_def)
  qed
  show ?thesis
    unfolding coordination_snapshot_script_def Let_def
  proof (rule answers_bind [OF ex [OF refl assms(2)]], rule answers_bind [OF len [OF _ assms(2)]], assumption,
      rule answers_bind [OF range [OF _ assms(2)]], assumption)
    fix s3
    assume s3: "rv s3 = rv s"
    let ?a = "PyInt (if string_at (rv s) k1 = None then 0 else 1)" and ?b = "PyInt (int (length (text_of (string_at (rv s) k1))))"
      and ?c = "PyBytes (take (nat marker_limit) (text_of (string_at (rv s) k1)))"
    have "[?a, ?b, ?c] = snapshot_triple marker_limit marker" by (simp add: snapshot_triple_def marker_def)
    then show "answers rv
        (if lua_prefix 7 (take (nat ?n) (text_of (string_at (rv s) k1))) = active_prefix
         then return [?a, ?b, PyBytes (lua_prefix marker_limit (take (nat ?n) (text_of (string_at (rv s) k1)))), PyInt 0, PyInt 0, PyBytes []]
         else act_bind (rr_exists R k2) (\<lambda>result_exists. act_bind (rr_strlen R k2) (\<lambda>result_length.
           act_bind (rr_getrange R k2 0 (result_limit - 1)) (\<lambda>result_value.
             return [?a, ?b, PyBytes (lua_prefix marker_limit (take (nat ?n) (text_of (string_at (rv s) k1)))),
                     PyInt result_exists, PyInt result_length, PyBytes result_value]))))
        s3 (snapshot_triple marker_limit marker @ snapshot_triple result_limit (if is_active marker then None else result)) (rv s)"
      unfolding probe marker_def [symmetric] active
      using both [OF s3, of ?a ?b ?c] s3
      by (cases "is_active marker") (simp_all add: answers_return snapshot_triple_def text_of_def marker_def)
  qed simp
qed

text \<open>A publication: it replies 1 after both keys were set, or 0 and nothing happened, or it fails without
  the marker having changed.\<close>

theorem publish_exact:
  assumes laws: "result_laws R rv" and k: "string_or_none (rv s) k1" "k1 \<noteq> k2" and t: "0 < t"
  shows "if holds (rv s) k1 x
     then answers rv (publish_if_value_script R k1 k2 x r t c) s 1
            ((rv s)(k2 \<mapsto> (RStr r, Some t), k1 \<mapsto> (RStr c, Some t)))
          \<or> (\<exists>e s'. publish_if_value_script R k1 k2 x r t c s = Some (Inl e, s')
               \<and> (rv s' = rv s \<or> rv s' = (rv s)(k2 \<mapsto> (RStr r, Some t))))
     else answers rv (publish_if_value_script R k1 k2 x r t c) s 0 (rv s)"
proof -
  note d = result_lawsD [OF laws]
  obtain s1 where g: "rr_get R k1 s = Some (Inr (string_at (rv s) k1), s1)" "rv s1 = rv s"
    using d(1) [OF k(1)] unfolding answers_def by blast
  show ?thesis
  proof (cases "holds (rv s) k1 x")
    case False
    then show ?thesis
      using g by (auto simp: publish_if_value_script_def answers_def act_simps string_at_eq)
  next
    case True
    from d(5) [OF t, of k2 r s1] consider
      (fails) e s2 where "rr_set_px R k2 r t s1 = Some (Inl e, s2)" "rv s2 = rv s"
    | (sets) s2 where "rr_set_px R k2 r t s1 = Some (Inr (), s2)" "rv s2 = (rv s)(k2 \<mapsto> (RStr r, Some t))"
      unfolding answers_or_fails_def answers_def g(2) by blast
    then show ?thesis
    proof cases
      case fails
      then show ?thesis
        using True g by (auto simp: publish_if_value_script_def act_simps string_at_eq)
    next
      case sets
      from d(5) [OF t, of k1 c s2] consider
        (fails) e s3 where "rr_set_px R k1 c t s2 = Some (Inl e, s3)" "rv s3 = rv s2"
      | (sets) s3 where "rr_set_px R k1 c t s2 = Some (Inr (), s3)" "rv s3 = (rv s2)(k1 \<mapsto> (RStr c, Some t))"
        unfolding answers_or_fails_def answers_def by blast
      then show ?thesis
        using True g sets by cases (auto simp: publish_if_value_script_def act_simps string_at_eq answers_def)
    qed
  qed
qed

end
