(* ===== verification/Redis_Provider.thy ===== *)
theory Redis_Provider
  imports Result_Scripts
begin

text \<open>
  \<open>bluetape.cache.redis._provider\<close>: the synchronous provider of byte operations.

  The client object of \<open>redis-py\<close> is a parameter (\<open>redis_client\<close>, over the program state \<open>'w\<close>); what it
  returns is inspected by the provider and is a \<open>pyval\<close>, or a list of them for a script. The provider's
  data lives in the state, where \<open>pv_get\<close> and \<open>pv_put\<close> reach it; a block under the condition's lock is
  one step (\<open>provider_admit\<close>, \<open>provider_release\<close>, \<open>close_begin\<close>, \<open>close_finish\<close>), and other threads run
  in the client's methods, in observers and in \<open>pv_wait\<close>, the condition's \<open>wait\<close>. \<open>pv_now\<close> reads the
  performance counter.
\<close>

section \<open>Clients\<close>

datatype result_script = CompareAndDelete | CoordinationSnapshot | PublishIfValue

datatype script_arg = ArgBytes pybytes | ArgInt int

datatype response = RespList "pyval list" | RespVal pyval

record 'w redis_client =
  rl_get :: "pystr \<Rightarrow> ('w, rc_exn, pyval) act"
  rl_set :: "pystr \<Rightarrow> pybytes \<Rightarrow> bool \<Rightarrow> int \<Rightarrow> ('w, rc_exn, pyval) act"
  rl_delete :: "pystr \<Rightarrow> ('w, rc_exn, pyval) act"
  rl_eval :: "result_script \<Rightarrow> pystr list \<Rightarrow> script_arg list \<Rightarrow> ('w, rc_exn, response) act"
  rl_close :: "('w, rc_exn, unit) act"

text \<open>What the provider looks at in a client: whether its pool has a \<open>timeout\<close>, and the pool's options,
  if they are a mapping. A value of an option may be a list, tuple or set of so many items.\<close>

datatype option_value = OptValue pyval | OptCollection nat

record client_info =
  ci_pool_timeout :: bool
  ci_kwargs :: "(pystr \<times> option_value) list option"

section \<open>Checks\<close>

definition validate_key :: "pyval \<Rightarrow> rc_exn + pystr" where
  "validate_key key =
     (case key of
        PyStr k \<Rightarrow>
          if k = [] \<or> k \<noteq> strip k \<or> list_ex (\<lambda>c. is_space c \<or> c < 32 \<or> c = 127) k
          then Inl (ValueError ''key must be non-blank without whitespace or control characters'')
          else Inr k
      | _ \<Rightarrow> Inl (TypeError ''key must be an exact str''))"

definition validate_value :: "pyval \<Rightarrow> string \<Rightarrow> rc_exn + pybytes" where
  "validate_value v field =
     (case v of PyBytes b \<Rightarrow> Inr b | _ \<Rightarrow> Inl (TypeError (field @ '' must be exact bytes'')))"

text \<open>\<open>math.ceil(ttl * 1000)\<close>: of an infinite product it raises \<open>OverflowError\<close>.\<close>

definition checked_milliseconds :: "int \<Rightarrow> rc_exn + int" where
  "checked_milliseconds milliseconds =
     (if milliseconds > 0x7FFFFFFFFFFFFFFF then Inl (ValueError ''ttl is outside the supported Redis range'')
      else Inr milliseconds)"

definition ttl_milliseconds :: "pyval \<Rightarrow> rc_exn + int" where
  "ttl_milliseconds ttl =
     (case ttl of
        PyInt n \<Rightarrow>
          (case float_of_int n of
             None \<Rightarrow> Inl OverflowError
           | Some _ \<Rightarrow>
               if n \<le> 0 then Inl (ValueError ''ttl must be finite and positive'') else checked_milliseconds (n * 1000))
      | PyFloat f \<Rightarrow>
          if \<not> isfinite f \<or> float_le f (Finite 0) then Inl (ValueError ''ttl must be finite and positive'')
          else (case float_mul f (Finite 1000) of
                  Finite x \<Rightarrow> checked_milliseconds \<lceil>x\<rceil>
                | _ \<Rightarrow> Inl OverflowError)
      | _ \<Rightarrow> Inl (TypeError ''ttl must be a real number''))"

fun error_code :: "rc_exn \<Rightarrow> redis_code" where
  "error_code (RedisTimeoutError _) = RC_TIMEOUT"
| "error_code (RedisConnectionError _) = RC_CONNECTION"
| "error_code _ = RC_PROVIDER_FAILURE"

definition wrapped_error :: "redis_operation \<Rightarrow> redis_code \<Rightarrow> rc_exn" where
  "wrapped_error operation code = RedisProviderError operation code"

definition opt :: "string \<Rightarrow> (pystr \<times> option_value) list \<Rightarrow> option_value option" where
  "opt name options = map_of options (ustr name)"

definition validate_binary_client :: "client_info \<Rightarrow> rc_exn + unit" where
  "validate_binary_client info =
     (case ci_kwargs info of
        Some options \<Rightarrow>
          if opt ''decode_responses'' options = Some (OptValue (PyBool True))
          then Inl (ValueError ''decode_responses=True is incompatible with the binary provider'')
          else Inr ()
      | None \<Rightarrow> Inr ())"

definition timeout_value :: "option_value option \<Rightarrow> pyval" where
  "timeout_value v = (case v of None \<Rightarrow> PyNone | Some (OptValue x) \<Rightarrow> x | Some (OptCollection _) \<Rightarrow> PyOther)"

definition discover_command_policy :: "client_info \<Rightarrow> rc_exn + command_policy option" where
  "discover_command_policy info =
     (if ci_pool_timeout info then Inr None
      else case ci_kwargs info of
        None \<Rightarrow> Inr None
      | Some options \<Rightarrow>
          if opt ''retry_on_timeout'' options \<notin> {None, Some (OptValue (PyBool False))} then Inr None
          else if opt ''retry_on_error'' options \<notin> {None, Some (OptValue PyNone), Some (OptCollection 0)} then Inr None
          else if opt ''retry'' options \<notin> {None, Some (OptValue PyNone)} then Inr None
          else
            (case command_policy_new (timeout_value (opt ''socket_connect_timeout'' options))
                    (timeout_value (opt ''socket_timeout'' options)) (PyInt 0) of
               Inr policy \<Rightarrow> Inr (Some policy)
             | Inl e \<Rightarrow> if is_type_or_value_error e then Inr None else Inl e))"

definition validate_size_limit :: "pyval \<Rightarrow> string \<Rightarrow> int \<Rightarrow> rc_exn + int" where
  "validate_size_limit v field maximum =
     (case v of
        PyInt n \<Rightarrow>
          if \<not> (1 \<le> n \<and> n \<le> maximum) then Inl (ValueError (field @ '' is outside its supported range'')) else Inr n
      | _ \<Rightarrow> Inl (TypeError (field @ '' must be an exact int'')))"

definition snapshot_part ::
  "pyval \<Rightarrow> pyval \<Rightarrow> pyval \<Rightarrow> int \<Rightarrow> redis_operation \<Rightarrow> rc_exn + pybytes option \<times> bool" where
  "snapshot_part there len v maximum operation =
     (let failure = Inl (RedisProviderError operation RC_INVALID_RESPONSE)
      in if there \<noteq> PyInt 0 \<and> there \<noteq> PyInt 1 then failure
         else case len of
           PyInt n \<Rightarrow>
             if n < 0 then failure
             else (case v of
               PyBytes b \<Rightarrow>
                 if there = PyInt 0
                 then (if n \<noteq> 0 \<or> b \<noteq> [] then failure else Inr (None, False))
                 else
                   let oversized = n > maximum; expected_size = (if oversized then maximum else n)
                   in if int (length b) \<noteq> expected_size then failure else Inr (Some b, oversized)
             | _ \<Rightarrow> failure)
         | _ \<Rightarrow> failure)"

definition decode_snapshot :: "response \<Rightarrow> int \<Rightarrow> int \<Rightarrow> rc_exn + coordination_snapshot" where
  "decode_snapshot response max_marker_size max_result_size =
     (let operation = OP_COORDINATION_SNAPSHOT
      in case response of
        RespList [a, b, c, d, e, f] \<Rightarrow>
          ebind (snapshot_part a b c max_marker_size operation) (\<lambda>(marker, marker_oversized).
          ebind (snapshot_part d e f max_result_size operation) (\<lambda>(result, result_oversized).
            Inr \<lparr>cs_marker = marker, cs_result = result, cs_marker_oversized = marker_oversized,
                 cs_result_oversized = result_oversized\<rparr>))
      | _ \<Rightarrow> Inl (RedisProviderError operation RC_INVALID_RESPONSE))"

definition deleted :: "response \<Rightarrow> redis_operation \<Rightarrow> rc_exn + bool" where
  "deleted response operation =
     (if response \<noteq> RespVal (PyInt 0) \<and> response \<noteq> RespVal (PyInt 1)
      then Inl (RedisProviderError operation RC_INVALID_RESPONSE)
      else Inr (response = RespVal (PyInt 1)))"

section \<open>Providers\<close>

datatype provider_state = OPEN | CLOSING | CLOSED

record provider_data =
  pd_state :: provider_state
  pd_active :: int
  pd_terminal :: "rc_exn option"

record 'w provider =
  pv_client :: "'w redis_client"
  pv_observer :: "(redis_event \<Rightarrow> ('w, rc_exn, unit) act) option"
  pv_policy :: "command_policy option"
  pv_owned :: bool
  pv_get :: "'w \<Rightarrow> provider_data"
  pv_put :: "provider_data \<Rightarrow> 'w \<Rightarrow> 'w"
  pv_now :: "'w \<Rightarrow> int"
  pv_wait :: "('w, rc_exn, unit) act"

definition provider_fresh :: provider_data where
  "provider_fresh = \<lparr>pd_state = OPEN, pd_active = 0, pd_terminal = None\<rparr>"

definition provider_init ::
  "('w \<Rightarrow> provider_data) \<Rightarrow> (provider_data \<Rightarrow> 'w \<Rightarrow> 'w) \<Rightarrow> ('w \<Rightarrow> int) \<Rightarrow> ('w, rc_exn, unit) act
   \<Rightarrow> 'w redis_client \<times> client_info \<Rightarrow> (redis_event \<Rightarrow> ('w, rc_exn, unit) act) option
   \<Rightarrow> ('w, rc_exn, 'w provider) act" where
  "provider_init get_data put_data now wait_fn client observer =
     act_then (lift (validate_binary_client (snd client)))
     (act_bind (lift (discover_command_policy (snd client))) (\<lambda>policy.
      act_then (modify (put_data provider_fresh))
        (return \<lparr>pv_client = fst client, pv_observer = observer, pv_policy = policy, pv_owned = False,
                 pv_get = get_data, pv_put = put_data, pv_now = now, pv_wait = wait_fn\<rparr>)))"

definition provider_emit_to ::
  "(redis_event \<Rightarrow> ('w, rc_exn, unit) act) option \<Rightarrow> redis_event \<Rightarrow> ('w, rc_exn, unit) act" where
  "provider_emit_to observer event =
     (case observer of
        None \<Rightarrow> return ()
      | Some f \<Rightarrow> try_except (f event) (\<lambda>e. if is_exception e then return () else raise e))"

text \<open>Building an event at the time \<open>now\<close> and handing it to the observer.\<close>

definition emit_event ::
  "('w \<Rightarrow> int) \<Rightarrow> (redis_event \<Rightarrow> ('w, rc_exn, unit) act) option \<Rightarrow> redis_operation \<Rightarrow> redis_outcome
   \<Rightarrow> redis_code option \<Rightarrow> int \<Rightarrow> ('w, rc_exn, unit) act" where
  "emit_event now observer operation outcome code started =
     act_bind (gets now) (\<lambda>finished.
     act_bind (lift (redis_event_new SYNC operation outcome code (finished - started)))
       (provider_emit_to observer))"

definition provider_emit ::
  "'w provider \<Rightarrow> redis_operation \<Rightarrow> redis_outcome \<Rightarrow> redis_code option \<Rightarrow> int \<Rightarrow> ('w, rc_exn, unit) act" where
  "provider_emit self = emit_event (pv_now self) (pv_observer self)"

definition provider_from_url ::
  "('w \<Rightarrow> provider_data) \<Rightarrow> (provider_data \<Rightarrow> 'w \<Rightarrow> 'w) \<Rightarrow> ('w \<Rightarrow> int) \<Rightarrow> ('w, rc_exn, unit) act
   \<Rightarrow> (pystr \<Rightarrow> (pystr \<times> option_value) list \<Rightarrow> ('w, rc_exn, 'w redis_client \<times> client_info) act)
   \<Rightarrow> pyval \<Rightarrow> (redis_event \<Rightarrow> ('w, rc_exn, unit) act) option \<Rightarrow> (pystr \<times> option_value) list
   \<Rightarrow> ('w, rc_exn, 'w provider) act" where
  "provider_from_url get_data put_data now wait_fn redis_from_url url observer redis_options =
     act_bind (gets now) (\<lambda>started.
       case url of
         PyStr u \<Rightarrow>
           if u = [] \<or> u \<noteq> strip u
           then raise (ValueError ''url must be non-blank without surrounding whitespace'')
           else if opt ''connection_pool'' redis_options \<noteq> None
           then raise (TypeError ''connection_pool cannot be supplied to from_url'')
           else if opt ''decode_responses'' redis_options = Some (OptValue (PyBool True))
           then raise (ValueError ''decode_responses=True is incompatible with the binary provider'')
           else
             (let options = (ustr ''decode_responses'', OptValue (PyBool False)) # redis_options
              in act_bind
                (try_except (redis_from_url u options) (\<lambda>cause.
                   if is_exception cause
                   then act_then (emit_event now observer OP_CREATE RO_FAILURE (Some (error_code cause)) started)
                          (raise (wrapped_error OP_CREATE (error_code cause)))
                   else raise cause))
                (\<lambda>client.
                   act_bind (provider_init get_data put_data now wait_fn client observer) (\<lambda>provider.
                   act_then (emit_event now observer OP_CREATE RO_SUCCESS None started)
                     (return (provider\<lparr>pv_owned := True\<rparr>)))))
       | _ \<Rightarrow> raise (TypeError ''url must be an exact str''))"

section \<open>Blocks under the lock\<close>

definition provider_block ::
  "'w provider \<Rightarrow> (provider_data \<Rightarrow> (rc_exn + 'a) \<times> provider_data) \<Rightarrow> ('w, rc_exn, 'a) act" where
  "provider_block self f = (\<lambda>s. let (r, d) = f (pv_get self s) in Some (r, pv_put self d s))"

definition provider_admit :: "redis_operation \<Rightarrow> provider_data \<Rightarrow> (rc_exn + unit) \<times> provider_data" where
  "provider_admit operation d =
     (if pd_state d \<noteq> OPEN then (Inl (provider_closed_error operation), d)
      else (Inr (), d\<lparr>pd_active := pd_active d + 1\<rparr>))"

definition provider_release :: "provider_data \<Rightarrow> (rc_exn + unit) \<times> provider_data" where
  "provider_release d = (Inr (), d\<lparr>pd_active := pd_active d - 1\<rparr>)"

text \<open>The first step of \<open>close\<close> up to a \<open>wait\<close>: the state that it found.\<close>

definition close_begin :: "provider_data \<Rightarrow> (rc_exn + provider_state) \<times> provider_data" where
  "close_begin d = (Inr (pd_state d), if pd_state d = OPEN then d\<lparr>pd_state := CLOSING\<rparr> else d)"

definition close_finish :: "rc_exn option \<Rightarrow> provider_data \<Rightarrow> (rc_exn + unit) \<times> provider_data" where
  "close_finish terminal d = (Inr (), d\<lparr>pd_terminal := terminal, pd_state := CLOSED\<rparr>)"

section \<open>Operations\<close>

definition provider_execute ::
  "'w provider \<Rightarrow> redis_operation \<Rightarrow> ('w, rc_exn, 'a) act \<Rightarrow> ('w, rc_exn, 'a) act" where
  "provider_execute self operation action =
     act_bind (gets (pv_now self)) (\<lambda>started.
     act_then
       (try_except (provider_block self (provider_admit operation)) (\<lambda>e.
          act_then (provider_emit self operation RO_FAILURE (Some RC_CLOSED) started) (raise e)))
       (try_else action
         (\<lambda>error.
            act_then (provider_block self provider_release)
              (case error of
                 RedisProviderError _ code \<Rightarrow>
                   act_then (provider_emit self operation RO_FAILURE (Some code) started) (raise error)
               | _ \<Rightarrow>
                   if is_type_or_value_error error
                   then act_then (provider_emit self operation RO_FAILURE (Some RC_INVALID_INPUT) started) (raise error)
                   else if is_exception error
                   then act_then (provider_emit self operation RO_FAILURE (Some (error_code error)) started)
                          (raise (wrapped_error operation (error_code error)))
                   else raise error))
         (\<lambda>result.
            act_then (provider_block self provider_release)
            (act_then (provider_emit self operation RO_SUCCESS None started) (return result)))))"

definition provider_get :: "'w provider \<Rightarrow> pyval \<Rightarrow> ('w, rc_exn, pybytes option) act" where
  "provider_get self key =
     provider_execute self OP_GET
       (act_bind (lift (validate_key key)) (\<lambda>k.
        act_bind (rl_get (pv_client self) k) (\<lambda>response.
          case response of
            PyNone \<Rightarrow> return None
          | PyBytes b \<Rightarrow> return (Some b)
          | _ \<Rightarrow> raise (RedisProviderError OP_GET RC_INVALID_RESPONSE))))"

definition provider_set :: "'w provider \<Rightarrow> pyval \<Rightarrow> pyval \<Rightarrow> pyval \<Rightarrow> ('w, rc_exn, unit) act" where
  "provider_set self key v ttl =
     provider_execute self OP_SET
       (act_bind (lift (validate_key key)) (\<lambda>k.
        act_bind (lift (validate_value v ''value'')) (\<lambda>b.
        act_bind (lift (ttl_milliseconds ttl)) (\<lambda>milliseconds.
        act_bind (rl_set (pv_client self) k b False milliseconds) (\<lambda>response.
          if response \<noteq> PyBool True then raise (RedisProviderError OP_SET RC_INVALID_RESPONSE) else return ())))))"

definition provider_set_if_absent :: "'w provider \<Rightarrow> pyval \<Rightarrow> pyval \<Rightarrow> pyval \<Rightarrow> ('w, rc_exn, bool) act" where
  "provider_set_if_absent self key v ttl =
     provider_execute self OP_SET_IF_ABSENT
       (act_bind (lift (validate_key key)) (\<lambda>k.
        act_bind (lift (validate_value v ''value'')) (\<lambda>b.
        act_bind (lift (ttl_milliseconds ttl)) (\<lambda>milliseconds.
        act_bind (rl_set (pv_client self) k b True milliseconds) (\<lambda>response.
          if response = PyBool True then return True
          else if response = PyNone then return False
          else raise (RedisProviderError OP_SET_IF_ABSENT RC_INVALID_RESPONSE))))))"

definition provider_delete :: "'w provider \<Rightarrow> pyval \<Rightarrow> ('w, rc_exn, bool) act" where
  "provider_delete self key =
     provider_execute self OP_DELETE
       (act_bind (lift (validate_key key)) (\<lambda>k.
        act_bind (rl_delete (pv_client self) k) (\<lambda>response. lift (deleted (RespVal response) OP_DELETE))))"

definition provider_delete_if_value :: "'w provider \<Rightarrow> pyval \<Rightarrow> pyval \<Rightarrow> ('w, rc_exn, bool) act" where
  "provider_delete_if_value self key expected_value =
     provider_execute self OP_DELETE_IF_VALUE
       (act_bind (lift (validate_key key)) (\<lambda>k.
        act_bind (lift (validate_value expected_value ''expected_value'')) (\<lambda>x.
        act_bind (rl_eval (pv_client self) CompareAndDelete [k] [ArgBytes x]) (\<lambda>response.
          lift (deleted response OP_DELETE_IF_VALUE)))))"

definition provider_snapshot ::
  "'w provider \<Rightarrow> pyval \<Rightarrow> pyval \<Rightarrow> pyval \<Rightarrow> pyval \<Rightarrow> ('w, rc_exn, coordination_snapshot) act" where
  "provider_snapshot self marker_key result_key max_marker_size max_result_size =
     provider_execute self OP_COORDINATION_SNAPSHOT
       (act_bind (lift (validate_key marker_key)) (\<lambda>k1.
        act_bind (lift (validate_key result_key)) (\<lambda>k2.
          if k1 = k2 then raise (ValueError ''marker_key and result_key must be distinct'')
          else
            act_bind (lift (validate_size_limit max_marker_size ''max_marker_size'' max_coordination_marker_size)) (\<lambda>m.
            act_bind (lift (validate_size_limit max_result_size ''max_result_size'' default_max_encoded_size)) (\<lambda>n.
            act_bind (rl_eval (pv_client self) CoordinationSnapshot [k1, k2] [ArgInt m, ArgInt n]) (\<lambda>response.
              lift (decode_snapshot response m n)))))))"

definition provider_publish ::
  "'w provider \<Rightarrow> pyval \<Rightarrow> pyval \<Rightarrow> pyval \<Rightarrow> pyval \<Rightarrow> pyval \<Rightarrow> pyval \<Rightarrow> ('w, rc_exn, bool) act" where
  "provider_publish self condition_key expected_value result_key result_value completion_value ttl =
     provider_execute self OP_PUBLISH_IF_VALUE
       (act_bind (lift (validate_key condition_key)) (\<lambda>k1.
        act_bind (lift (validate_key result_key)) (\<lambda>k2.
          if k1 = k2 then raise (ValueError ''condition_key and result_key must be distinct'')
          else
            act_bind (lift (validate_value expected_value ''expected_value'')) (\<lambda>x.
            act_bind (lift (validate_value result_value ''result_value'')) (\<lambda>r.
            act_bind (lift (validate_value completion_value ''completion_value'')) (\<lambda>c.
            act_bind (lift (ttl_milliseconds ttl)) (\<lambda>milliseconds.
            act_bind (rl_eval (pv_client self) PublishIfValue [k1, k2] [ArgBytes x, ArgBytes r, ArgInt milliseconds, ArgBytes c])
              (\<lambda>response. lift (deleted response OP_PUBLISH_IF_VALUE)))))))))"

section \<open>Closing\<close>

text \<open>\<open>while self._active: wait()\<close> and \<open>while self._state != "closed": wait()\<close>.\<close>

partial_function (option) drain_loop :: "'w provider \<Rightarrow> 'w \<Rightarrow> ((rc_exn + unit) \<times> 'w) option" where
  "drain_loop self s =
     act_bind (gets (\<lambda>s. pd_active (pv_get self s))) (\<lambda>active.
       if active = 0 then return () else act_then (pv_wait self) (drain_loop self)) s"

partial_function (option) follow_loop :: "'w provider \<Rightarrow> 'w \<Rightarrow> ((rc_exn + unit) \<times> 'w) option" where
  "follow_loop self s =
     act_bind (gets (\<lambda>s. pd_state (pv_get self s))) (\<lambda>state.
       if state = CLOSED then return () else act_then (pv_wait self) (follow_loop self)) s"

text \<open>The part under the lock: whether this call is the leader, and the terminal error.\<close>

definition close_enter :: "'w provider \<Rightarrow> ('w, rc_exn, bool \<times> rc_exn option) act" where
  "close_enter self =
     act_bind (provider_block self close_begin) (\<lambda>found.
       case found of
         CLOSED \<Rightarrow> return (False, None)
       | CLOSING \<Rightarrow>
           act_then (follow_loop self)
             (act_bind (gets (\<lambda>s. pd_terminal (pv_get self s))) (\<lambda>terminal. return (False, terminal)))
       | OPEN \<Rightarrow> act_then (drain_loop self) (return (True, None)))"

definition close_leader :: "'w provider \<Rightarrow> ('w, rc_exn, rc_exn option) act" where
  "close_leader self =
     act_bind
       (try_except
         (if pv_owned self then act_then (rl_close (pv_client self)) (return None) else return None)
         (\<lambda>cause.
            if is_exception cause then return (Some (wrapped_error OP_CLOSE (error_code cause)))
            else act_then (provider_block self (close_finish None)) (raise cause)))
       (\<lambda>terminal. act_then (provider_block self (close_finish terminal)) (return terminal))"

fun code_of :: "rc_exn \<Rightarrow> redis_code option" where
  "code_of (RedisProviderError _ code) = Some code"
| "code_of _ = None"

definition provider_close :: "'w provider \<Rightarrow> ('w, rc_exn, unit) act" where
  "provider_close self =
     act_bind (gets (pv_now self)) (\<lambda>started.
     act_bind (close_enter self) (\<lambda>(leader, terminal).
     act_bind (if leader then close_leader self else return terminal) (\<lambda>terminal.
       case terminal of
         None \<Rightarrow> provider_emit self OP_CLOSE RO_SUCCESS None started
       | Some e \<Rightarrow> act_then (provider_emit self OP_CLOSE RO_FAILURE (code_of e) started) (raise e))))"

definition provider_enter :: "'w provider \<Rightarrow> ('w, rc_exn, unit) act" where
  "provider_enter self =
     provider_block self (\<lambda>d. (if pd_state d \<noteq> OPEN then Inl (provider_closed_error OP_GET) else Inr (), d))"

definition provider_exit :: "'w provider \<Rightarrow> ('w, rc_exn, unit) act" where
  "provider_exit self = provider_close self"

section \<open>Every interleaving of operations with a close\<close>

text \<open>The threads on one provider: \<open>pr_calls\<close> operations are between their admission and their release,
  and at most one thread is the leader of the close. \<open>Stuck\<close>: an interrupt ended its wait.\<close>

datatype leader_phase = NoLeader | Draining | ClosingClient | Finished | Stuck

record provider_run =
  pr_data :: provider_data
  pr_calls :: nat
  pr_leader :: leader_phase

inductive provider_step :: "provider_run \<Rightarrow> provider_run \<Rightarrow> bool" where
  admitted: "provider_admit operation (pr_data x) = (Inr (), d) \<Longrightarrow>
    provider_step x (x\<lparr>pr_data := d, pr_calls := pr_calls x + 1\<rparr>)"
| released: "0 < pr_calls x \<Longrightarrow> provider_release (pr_data x) = (Inr (), d) \<Longrightarrow>
    provider_step x (x\<lparr>pr_data := d, pr_calls := pr_calls x - 1\<rparr>)"
| close_leads: "close_begin (pr_data x) = (Inr OPEN, d) \<Longrightarrow>
    provider_step x (x\<lparr>pr_data := d, pr_leader := Draining\<rparr>)"
| close_follows: "close_begin (pr_data x) = (Inr found, d) \<Longrightarrow> found \<noteq> OPEN \<Longrightarrow>
    provider_step x (x\<lparr>pr_data := d\<rparr>)"
| interrupted: "pr_leader x = Draining \<Longrightarrow> provider_step x (x\<lparr>pr_leader := Stuck\<rparr>)"
| drained: "pr_leader x = Draining \<Longrightarrow> pd_active (pr_data x) = 0 \<Longrightarrow>
    provider_step x (x\<lparr>pr_leader := ClosingClient\<rparr>)"
| finished: "pr_leader x = ClosingClient \<Longrightarrow> close_finish terminal (pr_data x) = (Inr (), d) \<Longrightarrow>
    provider_step x (x\<lparr>pr_data := d, pr_leader := Finished\<rparr>)"

definition provider_run_start :: provider_run where
  "provider_run_start = \<lparr>pr_data = provider_fresh, pr_calls = 0, pr_leader = NoLeader\<rparr>"

definition provider_run_inv :: "provider_run \<Rightarrow> bool" where
  "provider_run_inv x \<longleftrightarrow>
     pd_active (pr_data x) = int (pr_calls x)
     \<and> (pr_leader x = NoLeader) = (pd_state (pr_data x) = OPEN)
     \<and> (pr_leader x = Finished) = (pd_state (pr_data x) = CLOSED)
     \<and> (pr_leader x \<in> {ClosingClient, Finished} \<longrightarrow> pr_calls x = 0)"

lemma provider_step_inv:
  assumes "provider_run_inv x" "provider_step x y"
  shows "provider_run_inv y"
  using assms(2,1)
  by cases (auto simp: provider_run_inv_def provider_admit_def provider_release_def close_begin_def close_finish_def
      split: if_splits)

interpretation provider_runs: transition_invariant provider_step provider_run_inv
  by unfold_locales (rule provider_step_inv)

lemma provider_start_inv: "provider_run_inv provider_run_start"
  by (simp add: provider_run_inv_def provider_run_start_def provider_fresh_def)

text \<open>A provider that is not open any more never is again.\<close>

lemma provider_stays_shut:
  assumes "provider_step\<^sup>*\<^sup>* x y" "pd_state (pr_data x) \<noteq> OPEN"
  shows "pd_state (pr_data y) \<noteq> OPEN"
  using assms
proof (induction rule: rtranclp_induct)
  case (step y z)
  from step(2) step.IH [OF step(4)] show ?case
    by cases (auto simp: provider_admit_def provider_release_def close_begin_def close_finish_def split: if_splits)
qed simp

text \<open>
  C5: the client is closed only after the last admitted operation is over, and nothing is admitted
  afterwards. In every interleaving of operations, closes and interrupts the provider's counter is the
  number of operations in progress; while the client is being closed, and from then on, it is zero; and
  once a close has begun every operation is refused with the closed error.
\<close>

theorem provider_drains:
  assumes "provider_step\<^sup>*\<^sup>* provider_run_start x" "provider_step\<^sup>*\<^sup>* x y"
  shows "pd_active (pr_data x) = int (pr_calls x)
     \<and> (pr_leader x \<in> {ClosingClient, Finished} \<longrightarrow> pr_calls y = 0)
     \<and> (pr_leader x \<noteq> NoLeader \<longrightarrow> provider_admit operation (pr_data y) = (Inl (provider_closed_error operation), pr_data y))"
proof -
  have x: "provider_run_inv x" by (rule provider_runs.run_inv [OF assms(1) provider_start_inv])
  have shut: "pr_leader x \<noteq> NoLeader \<Longrightarrow> pd_state (pr_data y) \<noteq> OPEN"
    using provider_stays_shut [OF assms(2)] x by (simp add: provider_run_inv_def)
  have "pr_calls y = 0 \<and> pr_leader y \<in> {ClosingClient, Finished}" if "pr_leader x \<in> {ClosingClient, Finished}"
    using assms(2)
  proof (induction rule: rtranclp_induct)
    case (step u v)
    have "provider_run_inv u" by (rule provider_runs.run_inv [OF step(1) x])
    with step(2,3) show ?case
      by cases (auto simp: provider_run_inv_def provider_admit_def provider_release_def close_begin_def close_finish_def
          split: if_splits)
  qed (use x that in \<open>auto simp: provider_run_inv_def\<close>)
  with x shut show ?thesis by (auto simp: provider_run_inv_def provider_admit_def)
qed

lemma provider_drains_witness:
  "\<exists>x. provider_step\<^sup>*\<^sup>* provider_run_start x \<and> pr_leader x = Finished
     \<and> provider_admit OP_GET (pr_data x) = (Inl (RedisProviderError OP_GET RC_CLOSED), pr_data x)"
proof -
  let ?d = "\<lparr>pd_state = OPEN, pd_active = 1, pd_terminal = None\<rparr>"
  let ?x1 = "\<lparr>pr_data = ?d, pr_calls = 1, pr_leader = NoLeader\<rparr>"
  let ?x2 = "\<lparr>pr_data = ?d\<lparr>pd_state := CLOSING\<rparr>, pr_calls = 1, pr_leader = Draining\<rparr>"
  let ?x3 = "?x2\<lparr>pr_data := ?d\<lparr>pd_state := CLOSING, pd_active := 0\<rparr>, pr_calls := 0\<rparr>"
  let ?x4 = "?x3\<lparr>pr_leader := ClosingClient\<rparr>"
  let ?x5 = "?x4\<lparr>pr_data := ?d\<lparr>pd_state := CLOSED, pd_active := 0\<rparr>, pr_leader := Finished\<rparr>"
  have "provider_step provider_run_start ?x1"
    using provider_step.admitted [of OP_GET provider_run_start ?d]
    by (simp add: provider_run_start_def provider_fresh_def provider_admit_def)
  moreover have "provider_step ?x1 ?x2"
    using provider_step.close_leads [of ?x1 "?d\<lparr>pd_state := CLOSING\<rparr>"] by (simp add: close_begin_def)
  moreover have "provider_step ?x2 ?x3"
    using provider_step.released [of ?x2 "?d\<lparr>pd_state := CLOSING, pd_active := 0\<rparr>"] by (simp add: provider_release_def)
  moreover have "provider_step ?x3 ?x4" using provider_step.drained [of ?x3] by simp
  moreover have "provider_step ?x4 ?x5"
    using provider_step.finished [of ?x4 None "?d\<lparr>pd_state := CLOSED, pd_active := 0\<rparr>"] by (simp add: close_finish_def)
  ultimately have run: "provider_step\<^sup>*\<^sup>* provider_run_start ?x5" by (meson converse_rtranclp_into_rtranclp rtranclp.rtrancl_refl)
  from provider_drains [OF run rtranclp.rtrancl_refl, of OP_GET] run show ?thesis
    by (intro exI [of _ ?x5]) (simp add: provider_closed_error_def)
qed

section \<open>Operations give their admission back\<close>

text \<open>\<open>oth s\<close> is the number of operations of other threads in progress, \<open>k\<close> that of the thread under
  consideration.\<close>

definition pv_holds :: "'w provider \<Rightarrow> ('w \<Rightarrow> int) \<Rightarrow> int \<Rightarrow> 'w \<Rightarrow> bool" where
  "pv_holds self oth k s \<longleftrightarrow> pd_active (pv_get self s) = k + oth s \<and> 0 \<le> k \<and> 0 \<le> oth s"

text \<open>The client and the observer return or raise, and leave the counter to the threads that own the
  admissions.\<close>

definition pv_env :: "bool \<Rightarrow> 'w provider \<Rightarrow> ('w \<Rightarrow> int) \<Rightarrow> bool" where
  "pv_env b self oth \<longleftrightarrow>
     (\<forall>d s. pv_get self (pv_put self d s) = d \<and> oth (pv_put self d s) = oth s)
     \<and> (\<forall>k f ev. pv_observer self = Some f \<longrightarrow> keeps b (pv_holds self oth k) (f ev))
     \<and> (\<forall>k x. keeps b (pv_holds self oth k) (rl_get (pv_client self) x))
     \<and> (\<forall>k x v nx t. keeps b (pv_holds self oth k) (rl_set (pv_client self) x v nx t))
     \<and> (\<forall>k x. keeps b (pv_holds self oth k) (rl_delete (pv_client self) x))
     \<and> (\<forall>k f ks as. keeps b (pv_holds self oth k) (rl_eval (pv_client self) f ks as))"

lemma pv_envD:
  assumes "pv_env b self oth"
  shows "pv_get self (pv_put self d s) = d" "oth (pv_put self d s) = oth s"
    "pv_observer self = Some f \<Longrightarrow> keeps b (pv_holds self oth k) (f ev)"
    "keeps b (pv_holds self oth k) (rl_get (pv_client self) x)"
    "keeps b (pv_holds self oth k) (rl_set (pv_client self) x v nx t)"
    "keeps b (pv_holds self oth k) (rl_delete (pv_client self) x)"
    "keeps b (pv_holds self oth k) (rl_eval (pv_client self) fn ks as)"
  using assms by (simp_all add: pv_env_def)

text \<open>What a caller of the provider has to expect.\<close>

definition public_error :: "rc_exn \<Rightarrow> bool" where
  "public_error e \<longleftrightarrow> (\<exists>operation code. e = RedisProviderError operation code) \<or> is_type_or_value_error e \<or> \<not> is_exception e"

definition operation_sound :: "bool \<Rightarrow> 'w provider \<Rightarrow> ('w \<Rightarrow> int) \<Rightarrow> int \<Rightarrow> ('w, rc_exn, 'a) act \<Rightarrow> bool" where
  "operation_sound b self oth k m \<longleftrightarrow>
     hoare b (pv_holds self oth k) m (\<lambda>_. pv_holds self oth k) (\<lambda>e s. public_error e \<and> pv_holds self oth k s)"

lemma public_errors [simp]:
  "public_error (RedisProviderError op c)" "public_error (ValueError m)" "public_error (wrapped_error op c)"
  "public_error (provider_closed_error op)"
  by (simp_all add: public_error_def wrapped_error_def provider_closed_error_def)

lemma hoare_gets_any: "hoare b P (gets f) (\<lambda>_. P) E"
  by (simp add: hoare_def act_simps)

lemma hoare_provider_emit:
  assumes "pv_env b self oth"
  shows "hoare b (pv_holds self oth k) (provider_emit self op oc c t) (\<lambda>_. pv_holds self oth k)
     (\<lambda>e s. public_error e \<and> pv_holds self oth k s)"
proof -
  have to: "hoare b (pv_holds self oth k) (provider_emit_to (pv_observer self) ev) (\<lambda>_. pv_holds self oth k)
     (\<lambda>e s. public_error e \<and> pv_holds self oth k s)" for ev
  proof (cases "pv_observer self")
    case None
    then show ?thesis by (simp add: provider_emit_to_def hoare_def act_simps)
  next
    case (Some f)
    have "hoare b (pv_holds self oth k) (if is_exception e then return () else raise e) (\<lambda>_. pv_holds self oth k)
        (\<lambda>e s. public_error e \<and> pv_holds self oth k s)" for e
      by (auto simp: hoare_def act_simps public_error_def)
    then show ?thesis
      unfolding provider_emit_to_def Some option.case
      by (rule hoare_try_except [OF keeps_hoare [OF pv_envD(3) [OF assms Some]]])
  qed
  have "hoare b (pv_holds self oth k) (lift (redis_event_new SYNC op oc c (n - t))) (\<lambda>_. pv_holds self oth k)
      (\<lambda>e s. public_error e \<and> pv_holds self oth k s)" for n
    by (rule hoare_pre [OF hoare_lift]) (simp add: redis_event_new_def)
  from hoare_bind [OF this to] show ?thesis
    unfolding provider_emit_def emit_event_def by (rule hoare_bind [OF hoare_gets_any])
qed

lemma hoare_provider_release:
  assumes "pv_env b self oth" "0 \<le> k"
  shows "hoare b (pv_holds self oth (k + 1)) (provider_block self provider_release) (\<lambda>_. pv_holds self oth k) E"
  using assms(2) by (auto simp: hoare_def provider_block_def provider_release_def pv_holds_def pv_envD [OF assms(1)])

lemma execute_sound:
  assumes env: "pv_env b self oth" and k: "0 \<le> k" and action: "keeps b (pv_holds self oth (k + 1)) action"
  shows "operation_sound b self oth k (provider_execute self operation action)"
proof -
  let ?H = "pv_holds self oth k" and ?E = "\<lambda>e s. public_error e \<and> pv_holds self oth k s"
  note emit = hoare_provider_emit [OF env, of k] and rel = hoare_provider_release [OF env k]
  have then_raise: "hoare b ?H (act_then (provider_emit self operation oc c t) (raise e)) Q ?E" if "public_error e" for oc c t e Q
    using that by (intro hoare_then [OF emit] hoare_pre [OF hoare_raise]) simp
  have admit: "hoare b ?H (provider_block self (provider_admit operation)) (\<lambda>_. pv_holds self oth (k + 1))
      (\<lambda>e s. e = provider_closed_error operation \<and> ?H s)"
    using k by (auto simp: hoare_def provider_block_def provider_admit_def pv_holds_def pv_envD [OF env] Let_def)
  have refused: "hoare b (\<lambda>s. e = provider_closed_error operation \<and> ?H s)
      (act_then (provider_emit self operation RO_FAILURE (Some RC_CLOSED) t) (raise e)) Q ?E" for e t Q
    by (rule hoare_conj_pre) (simp add: then_raise)
  have fails: "hoare b (pv_holds self oth (k + 1)) (act_then (provider_block self provider_release)
      (case error of
         RedisProviderError _ code \<Rightarrow> act_then (provider_emit self operation RO_FAILURE (Some code) t) (raise error)
       | _ \<Rightarrow>
           if is_type_or_value_error error
           then act_then (provider_emit self operation RO_FAILURE (Some RC_INVALID_INPUT) t) (raise error)
           else if is_exception error
           then act_then (provider_emit self operation RO_FAILURE (Some (error_code error)) t)
                  (raise (wrapped_error operation (error_code error)))
           else raise error)) Q ?E" for error t Q
  proof (rule hoare_then [OF rel])
    have "hoare b ?H (raise error) Q ?E" if "\<not> is_exception error"
      using that by (intro hoare_pre [OF hoare_raise]) (simp add: public_error_def)
    then show "hoare b ?H (case error of
         RedisProviderError _ code \<Rightarrow> act_then (provider_emit self operation RO_FAILURE (Some code) t) (raise error)
       | _ \<Rightarrow>
           if is_type_or_value_error error
           then act_then (provider_emit self operation RO_FAILURE (Some RC_INVALID_INPUT) t) (raise error)
           else if is_exception error
           then act_then (provider_emit self operation RO_FAILURE (Some (error_code error)) t)
                  (raise (wrapped_error operation (error_code error)))
           else raise error) Q ?E"
      by (cases error) (simp_all add: then_raise public_error_def [of "TypeError _"] public_error_def [of UnicodeError]
          public_error_def [of InvalidMetadataError] public_error_def [of "EnvelopeSizeError _"]
          public_error_def [of "EnvelopeEncodeError _"] public_error_def [of "EnvelopeDecodeError _"])
  qed
  have succeeds: "hoare b (pv_holds self oth (k + 1)) (act_then (provider_block self provider_release)
      (act_then (provider_emit self operation RO_SUCCESS None t) (return x))) (\<lambda>_. ?H) ?E" for t x
    by (intro hoare_then [OF rel] hoare_then [OF emit] hoare_return)
  show ?thesis
    unfolding operation_sound_def provider_execute_def
    by (rule hoare_bind [OF hoare_gets_any], rule hoare_then [OF hoare_try_except [OF admit refused]],
        rule hoare_try_else [OF keeps_hoare [OF action] fails succeeds])
qed

lemma keeps_case_pyval [hoare_rules]:
  "keeps b I m1 \<Longrightarrow> (\<And>x. keeps b I (m2 x)) \<Longrightarrow> (\<And>x. keeps b I (m3 x)) \<Longrightarrow> (\<And>x. keeps b I (m4 x)) \<Longrightarrow> (\<And>x. keeps b I (m5 x))
   \<Longrightarrow> (\<And>x. keeps b I (m6 x)) \<Longrightarrow> keeps b I m7 \<Longrightarrow>
   keeps b I (case v of PyNone \<Rightarrow> m1 | PyBool x \<Rightarrow> m2 x | PyInt x \<Rightarrow> m3 x | PyFloat x \<Rightarrow> m4 x | PyStr x \<Rightarrow> m5 x
      | PyBytes x \<Rightarrow> m6 x | PyOther \<Rightarrow> m7)"
  by (cases v) simp_all

text \<open>
  C19: an operation of the provider always ends if the client's methods do, gives its admission back on every
  path, whatever the client returns or raises and whatever other threads do in between, so that a close
  is never kept waiting by an operation that is over; and it raises only what the package documents: a
  provider error, a \<open>TypeError\<close> or \<open>ValueError\<close>, or what is no \<open>Exception\<close>. No error of the client escapes.
\<close>

theorem provider_operations_sound:
  assumes "pv_env b self oth" "0 \<le> k"
  shows "operation_sound b self oth k (provider_get self x)
    \<and> operation_sound b self oth k (provider_set self x v t)
    \<and> operation_sound b self oth k (provider_set_if_absent self x v t)
    \<and> operation_sound b self oth k (provider_delete self x)
    \<and> operation_sound b self oth k (provider_delete_if_value self x v)
    \<and> operation_sound b self oth k (provider_snapshot self x y m n)
    \<and> operation_sound b self oth k (provider_publish self x v y r c t)"
  unfolding provider_get_def provider_set_def provider_set_if_absent_def provider_delete_def provider_delete_if_value_def
    provider_snapshot_def provider_publish_def
  by (intro conjI execute_sound [OF assms] hoare_rules pv_envD(4-7) [OF assms(1)])

section \<open>Provider, client and server together\<close>

definition result_server_eval ::
  "'r result_redis \<Rightarrow> result_script \<Rightarrow> pybytes list \<Rightarrow> script_arg list \<Rightarrow> ('r, rc_exn, response) act" where
  "result_server_eval R script keys args =
     (case (script, keys, args) of
        (CompareAndDelete, [k1], [ArgBytes x]) \<Rightarrow>
          act_bind (compare_and_delete_script R k1 x) (\<lambda>n. return (RespVal (PyInt n)))
      | (CoordinationSnapshot, [k1, k2], [ArgInt m, ArgInt n]) \<Rightarrow>
          act_bind (coordination_snapshot_script R k1 k2 m n) (\<lambda>parts. return (RespList parts))
      | (PublishIfValue, [k1, k2], [ArgBytes x, ArgBytes r, ArgInt t, ArgBytes c]) \<Rightarrow>
          act_bind (publish_if_value_script R k1 k2 x r t c) (\<lambda>n. return (RespVal (PyInt n)))
      | _ \<Rightarrow> raise (OtherException 0))"

text \<open>Running something on the server, which is one part of the state; an error there comes back as a
  \<open>ResponseError\<close>.\<close>

definition on_result_server ::
  "('w \<Rightarrow> 'r) \<Rightarrow> ('r \<Rightarrow> 'w \<Rightarrow> 'w) \<Rightarrow> ('r, rc_exn, 'a) act \<Rightarrow> ('a \<Rightarrow> 'b) \<Rightarrow> ('w, rc_exn, 'b) act" where
  "on_result_server srv put m f = (\<lambda>s.
     case m (srv s) of None \<Rightarrow> None
     | Some (Inl e, r) \<Rightarrow> Some (Inl (OtherException 1), put r s)
     | Some (Inr x, r) \<Rightarrow> Some (Inr (f x), put r s))"

definition bytes_or_none :: "pybytes option \<Rightarrow> pyval" where
  "bytes_or_none v = (case v of None \<Rightarrow> PyNone | Some b \<Rightarrow> PyBytes b)"

text \<open>The client reaches a server that runs the commands and scripts; keys are sent in UTF-8.\<close>

definition result_serving :: "'w redis_client \<Rightarrow> 'r result_redis \<Rightarrow> ('w \<Rightarrow> 'r) \<Rightarrow> ('r \<Rightarrow> 'w \<Rightarrow> 'w) \<Rightarrow> bool" where
  "result_serving client R srv put \<longleftrightarrow>
     (\<forall>k kb. utf8_encode k = Some kb \<longrightarrow>
        rl_get client k = on_result_server srv put (rr_get R kb) bytes_or_none
        \<and> (\<forall>v t. rl_set client k v False t = on_result_server srv put (rr_set_px R kb v t) (\<lambda>_. PyBool True))
        \<and> (\<forall>v t. rl_set client k v True t =
             on_result_server srv put (rr_set_nx_px R kb v t) (\<lambda>done. if done then PyBool True else PyNone))
        \<and> rl_delete client k = on_result_server srv put (rr_del R kb) PyInt)
     \<and> (\<forall>script ks kbs args. map utf8_encode ks = map Some kbs \<longrightarrow>
          rl_eval client script ks args = on_result_server srv put (result_server_eval R script kbs args) (\<lambda>x. x))"

text \<open>The provider's data, the server and the clock are separate parts of the state; the observer changes
  neither of the first two, and it may fail.\<close>

definition provider_quiet :: "'w provider \<Rightarrow> ('w \<Rightarrow> 'r) \<Rightarrow> ('r \<Rightarrow> 'w \<Rightarrow> 'w) \<Rightarrow> bool" where
  "provider_quiet self srv put \<longleftrightarrow>
     (\<forall>d s. pv_get self (pv_put self d s) = d \<and> srv (pv_put self d s) = srv s \<and> pv_now self (pv_put self d s) = pv_now self s)
     \<and> (\<forall>r s. srv (put r s) = r \<and> pv_get self (put r s) = pv_get self s \<and> pv_now self s \<le> pv_now self (put r s))
     \<and> (\<forall>f ev s. pv_observer self = Some f \<longrightarrow>
          (\<exists>r s'. f ev s = Some (r, s') \<and> srv s' = srv s \<and> pv_get self s' = pv_get self s \<and> (\<forall>e. r = Inl e \<longrightarrow> is_exception e)))"

lemma quietD:
  assumes "provider_quiet self srv put"
  shows "pv_get self (pv_put self d s) = d" "srv (pv_put self d s) = srv s" "pv_now self (pv_put self d s) = pv_now self s"
    "srv (put r s) = r" "pv_get self (put r s) = pv_get self s" "pv_now self s \<le> pv_now self (put r s)"
  using assms unfolding provider_quiet_def by blast+

lemma emit_quiet:
  assumes "provider_quiet self srv put" "t \<le> pv_now self s"
  shows "\<exists>s'. provider_emit self op oc c t s = Some (Inr (), s') \<and> srv s' = srv s \<and> pv_get self s' = pv_get self s"
proof (cases "pv_observer self")
  case None
  then show ?thesis using assms(2) by (simp add: provider_emit_def emit_event_def act_simps redis_event_new_def provider_emit_to_def)
next
  case (Some f)
  obtain ev where ev: "redis_event_new SYNC op oc c (pv_now self s - t) = Inr ev"
    using assms(2) by (simp add: redis_event_new_def)
  obtain r s' where f: "f ev s = Some (r, s')" "srv s' = srv s" "pv_get self s' = pv_get self s" "\<forall>e. r = Inl e \<longrightarrow> is_exception e"
    using assms(1) Some unfolding provider_quiet_def by blast
  then show ?thesis
    by (cases r) (simp_all add: provider_emit_def emit_event_def act_simps ev provider_emit_to_def Some)
qed

text \<open>What \<open>_execute\<close> makes of the outcome of an action.\<close>

definition provider_result :: "redis_operation \<Rightarrow> rc_exn + 'a \<Rightarrow> rc_exn + 'a" where
  "provider_result operation r =
     (case r of
        Inl (RedisProviderError op code) \<Rightarrow> r
      | Inl e \<Rightarrow> if is_type_or_value_error e \<or> \<not> is_exception e then r else Inl (wrapped_error operation (error_code e))
      | Inr x \<Rightarrow> r)"

lemma execute_open:
  fixes r :: "rc_exn + 'a"
  assumes quiet: "provider_quiet self srv put" and "open": "pd_state (pv_get self s) = OPEN"
    and run: "action (pv_put self ((pv_get self s)\<lparr>pd_active := pd_active (pv_get self s) + 1\<rparr>) s) = Some (r, s2)"
    and s2: "pv_get self s2 = (pv_get self s)\<lparr>pd_active := pd_active (pv_get self s) + 1\<rparr>" "pv_now self s \<le> pv_now self s2"
  shows "\<exists>s'. provider_execute self op action s = Some (provider_result op r, s')
     \<and> srv s' = srv s2 \<and> pv_get self s' = pv_get self s"
proof -
  let ?s1 = "pv_put self ((pv_get self s)\<lparr>pd_active := pd_active (pv_get self s) + 1\<rparr>) s"
  let ?s3 = "pv_put self (pv_get self s) s2"
  note q = quietD [OF quiet]
  have admit: "provider_block self (provider_admit op) s = Some (Inr (), ?s1)"
    by (simp add: provider_block_def provider_admit_def "open")
  have release: "provider_block self provider_release s2 = Some (Inr (), ?s3)"
    by (simp add: provider_block_def provider_release_def s2(1))
  have s3: "srv ?s3 = srv s2" "pv_get self ?s3 = pv_get self s" "pv_now self s \<le> pv_now self ?s3"
    by (simp_all add: q s2(2))
  from emit_quiet [OF quiet s3(3)] obtain s4 where
    e4: "provider_emit self op oc c (pv_now self s) ?s3 = Some (Inr (), s4 oc c)" "srv (s4 oc c) = srv s2"
      "pv_get self (s4 oc c) = pv_get self s" for oc c
    using s3 by metis
  note steps = provider_execute_def act_simps admit run release provider_result_def e4
  show ?thesis
  proof (cases r)
    case (Inr x)
    then show ?thesis using e4(2,3) by (simp add: steps)
  next
    case (Inl e)
    then show ?thesis using e4(2,3) s3 by (cases e) (simp_all add: steps)
  qed
qed

text \<open>\<open>provides\<close>: a call that returns \<open>x\<close> and leaves the view \<open>v\<close>; \<open>provides_or_fails\<close>: it may fail instead, with
  a provider error and without any effect on the server.\<close>

definition provides ::
  "'w provider \<Rightarrow> ('w \<Rightarrow> rview) \<Rightarrow> ('w, rc_exn, 'a) act \<Rightarrow> 'w \<Rightarrow> 'a \<Rightarrow> rview \<Rightarrow> bool" where
  "provides self vw m s x v \<longleftrightarrow> (\<exists>s'. m s = Some (Inr x, s') \<and> vw s' = v \<and> pv_get self s' = pv_get self s)"

definition fails_with ::
  "'w provider \<Rightarrow> ('w \<Rightarrow> rview) \<Rightarrow> ('w, rc_exn, 'a) act \<Rightarrow> 'w \<Rightarrow> redis_operation \<Rightarrow> rview \<Rightarrow> bool" where
  "fails_with self vw m s operation v \<longleftrightarrow>
     (\<exists>s'. m s = Some (Inl (RedisProviderError operation RC_PROVIDER_FAILURE), s') \<and> vw s' = v \<and> pv_get self s' = pv_get self s)"

text \<open>An action of the provider that is one call of the client.\<close>

lemma execute_call:
  assumes quiet: "provider_quiet self srv put" and "open": "pd_state (pv_get self s) = OPEN"
    and action: "\<And>s1. action s1 = act_bind (on_result_server srv put m f) (\<lambda>x. lift (g x)) s1"
  shows "answers rv m (srv s) x v \<Longrightarrow> g (f x) = Inr y \<Longrightarrow>
      provides self (rv \<circ> srv) (provider_execute self op action) s y v"
    "m (srv s) = Some (Inl e, r) \<Longrightarrow> fails_with self (rv \<circ> srv) (provider_execute self op action) s op (rv r)"
proof -
  note q = quietD [OF quiet]
  let ?s1 = "pv_put self ((pv_get self s)\<lparr>pd_active := pd_active (pv_get self s) + 1\<rparr>) s"
  have s2: "pv_get self (put r ?s1) = (pv_get self s)\<lparr>pd_active := pd_active (pv_get self s) + 1\<rparr>"
    "pv_now self s \<le> pv_now self (put r ?s1)" for r
    using q(6) [of ?s1 r] by (simp_all add: q)
  note go = execute_open [where op = op and action = action, OF quiet "open" _ s2]
  show "provides self (rv \<circ> srv) (provider_execute self op action) s y v" if a: "answers rv m (srv s) x v" "g (f x) = Inr y"
  proof -
    obtain r where r: "m (srv s) = Some (Inr x, r)" "rv r = v" using a(1) unfolding answers_def by blast
    have "action ?s1 = Some (Inr y, put r ?s1)" by (simp add: action act_simps on_result_server_def q r(1) a(2))
    from go [OF this] show ?thesis using r(2) by (auto simp: provides_def provider_result_def q)
  qed
  show "fails_with self (rv \<circ> srv) (provider_execute self op action) s op (rv r)" if a: "m (srv s) = Some (Inl e, r)"
  proof -
    have "action ?s1 = Some (Inl (OtherException 1), put r ?s1)" by (simp add: action act_simps on_result_server_def q a)
    from go [OF this] show ?thesis by (auto simp: fails_with_def provider_result_def wrapped_error_def q)
  qed
qed

text \<open>A key that passes the check, with its bytes.\<close>

definition key_ok :: "pystr \<Rightarrow> pybytes \<Rightarrow> bool" where
  "key_ok k kb \<longleftrightarrow> validate_key (PyStr k) = Inr k \<and> utf8_encode k = Some kb"

lemma servingD:
  assumes "result_serving client R srv put" "utf8_encode k = Some kb"
  shows "rl_get client k = on_result_server srv put (rr_get R kb) bytes_or_none"
    "rl_set client k v False t = on_result_server srv put (rr_set_px R kb v t) (\<lambda>_. PyBool True)"
    "rl_set client k v True t =
       on_result_server srv put (rr_set_nx_px R kb v t) (\<lambda>done. if done then PyBool True else PyNone)"
    "rl_delete client k = on_result_server srv put (rr_del R kb) PyInt"
    "rl_eval client script [k] args = on_result_server srv put (result_server_eval R script [kb] args) (\<lambda>x. x)"
    "utf8_encode k2 = Some kb2 \<Longrightarrow>
       rl_eval client script [k, k2] args = on_result_server srv put (result_server_eval R script [kb, kb2] args) (\<lambda>x. x)"
proof -
  have one: "rl_get client k = on_result_server srv put (rr_get R kb) bytes_or_none
        \<and> (\<forall>v t. rl_set client k v False t = on_result_server srv put (rr_set_px R kb v t) (\<lambda>_. PyBool True))
        \<and> (\<forall>v t. rl_set client k v True t =
             on_result_server srv put (rr_set_nx_px R kb v t) (\<lambda>done. if done then PyBool True else PyNone))
        \<and> rl_delete client k = on_result_server srv put (rr_del R kb) PyInt"
    and many: "\<And>ks kbs. map utf8_encode ks = map Some kbs \<Longrightarrow>
      rl_eval client script ks args = on_result_server srv put (result_server_eval R script kbs args) (\<lambda>x. x)"
    using assms unfolding result_serving_def by blast+
  show "rl_get client k = on_result_server srv put (rr_get R kb) bytes_or_none"
    "rl_set client k v False t = on_result_server srv put (rr_set_px R kb v t) (\<lambda>_. PyBool True)"
    "rl_set client k v True t =
       on_result_server srv put (rr_set_nx_px R kb v t) (\<lambda>done. if done then PyBool True else PyNone)"
    "rl_delete client k = on_result_server srv put (rr_del R kb) PyInt"
    using one by blast+
  show "rl_eval client script [k] args = on_result_server srv put (result_server_eval R script [kb] args) (\<lambda>x. x)"
    by (rule many) (simp add: assms(2))
  show "utf8_encode k2 = Some kb2 \<Longrightarrow>
       rl_eval client script [k, k2] args = on_result_server srv put (result_server_eval R script [kb, kb2] args) (\<lambda>x. x)"
    by (rule many) (simp add: assms(2))
qed

lemma bind_lift_cases: "act_bind (lift (Inr x)) f = f x"
  by (simp add: fun_eq_iff act_simps)

lemma snapshot_part_triple:
  assumes "1 \<le> n"
  shows "snapshot_part (PyInt (if v = None then 0 else 1)) (PyInt (int (length (text_of v)))) (PyBytes (take (nat n) (text_of v))) n op
     = Inr (clipped n v)"
proof (cases v)
  case (Some b)
  have "int (length (take (nat n) b)) = (if n < int (length b) then n else int (length b))" using assms by auto
  then show ?thesis using Some by (simp add: snapshot_part_def clipped_def text_of_def Let_def)
qed (simp add: snapshot_part_def clipped_def text_of_def Let_def)

lemma decode_snapshot_triples:
  assumes "1 \<le> m" "1 \<le> n"
  shows "decode_snapshot (RespList (snapshot_triple m a @ snapshot_triple n (if is_active a then None else b))) m n
     = Inr (abs_snapshot m n a b)"
  using snapshot_part_triple [OF assms(1), of a] snapshot_part_triple [OF assms(2), of "if is_active a then None else b"]
  by (simp add: decode_snapshot_def snapshot_triple_def abs_snapshot_def Let_def split_beta)

lemma provider_get_on_server:
  assumes "result_serving (pv_client self) R srv put" "provider_quiet self srv put" "pd_state (pv_get self s) = OPEN"
    and "result_laws R rv" "key_ok k kb" "string_or_none (rv (srv s)) kb"
  shows "provides self (rv \<circ> srv) (provider_get self (PyStr k)) s (string_at (rv (srv s)) kb) (rv (srv s))"
proof -
  let ?g = "\<lambda>response. case response of PyNone \<Rightarrow> Inr None | PyBytes b \<Rightarrow> Inr (Some b)
      | _ \<Rightarrow> Inl (RedisProviderError OP_GET RC_INVALID_RESPONSE)"
  have k: "validate_key (PyStr k) = Inr k" "utf8_encode k = Some kb" using assms(5) by (simp_all add: key_ok_def)
  show ?thesis
    unfolding provider_get_def k(1) bind_lift_cases servingD(1) [OF assms(1) k(2)]
  proof (rule execute_call(1) [where g = ?g, OF assms(2,3) _ result_lawsD(1) [OF assms(4,6)]])
    show "act_bind (on_result_server srv put (rr_get R kb) bytes_or_none)
        (\<lambda>response. case response of PyNone \<Rightarrow> return None | PyBytes b \<Rightarrow> return (Some b)
          | _ \<Rightarrow> raise (RedisProviderError OP_GET RC_INVALID_RESPONSE)) s1
      = act_bind (on_result_server srv put (rr_get R kb) bytes_or_none) (\<lambda>x. lift (?g x)) s1" for s1
      by (auto simp: act_simps split: option.split sum.split pyval.split)
    show "?g (bytes_or_none (string_at (rv (srv s)) kb)) = Inr (string_at (rv (srv s)) kb)"
      by (cases "string_at (rv (srv s)) kb") (simp_all add: bytes_or_none_def)
  qed
qed

lemma provider_set_if_absent_on_server:
  assumes "result_serving (pv_client self) R srv put" "provider_quiet self srv put" "pd_state (pv_get self s) = OPEN"
    and "result_laws R rv" "key_ok k kb" "ttl_milliseconds t = Inr n" "0 < n"
  defines "v \<equiv> rv (srv s)"
  shows "provides self (rv \<circ> srv) (provider_set_if_absent self (PyStr k) (PyBytes x) t) s (v kb = None)
           (if v kb = None then v(kb \<mapsto> (RStr x, Some n)) else v)
     \<or> fails_with self (rv \<circ> srv) (provider_set_if_absent self (PyStr k) (PyBytes x) t) s OP_SET_IF_ABSENT v"
proof -
  let ?g = "\<lambda>response. if response = PyBool True then Inr True else if response = PyNone then Inr False
      else Inl (RedisProviderError OP_SET_IF_ABSENT RC_INVALID_RESPONSE)"
  have k: "validate_key (PyStr k) = Inr k" "utf8_encode k = Some kb" using assms(5) by (simp_all add: key_ok_def)
  have x: "validate_value (PyBytes x) f = Inr x" for f by (simp add: validate_value_def)
  let ?m = "rr_set_nx_px R kb x n"
  have "answers_or_fails rv ?m (srv s) (v kb = None) (if v kb = None then v(kb \<mapsto> (RStr x, Some n)) else v)"
    using result_lawsD(6,7) [OF assms(4), of "srv s" kb n x] assms(7) by (cases "rv (srv s) kb") (simp_all add: v_def)
  then consider (answers) "answers rv ?m (srv s) (v kb = None) (if v kb = None then v(kb \<mapsto> (RStr x, Some n)) else v)"
    | (fails) e r where "?m (srv s) = Some (Inl e, r)" "rv r = v"
    unfolding answers_or_fails_def v_def by blast
  then show ?thesis
  proof cases
    case answers
    have "provides self (rv \<circ> srv) (provider_set_if_absent self (PyStr k) (PyBytes x) t) s (v kb = None)
           (if v kb = None then v(kb \<mapsto> (RStr x, Some n)) else v)"
      unfolding provider_set_if_absent_def k(1) x assms(6) bind_lift_cases servingD(3) [OF assms(1) k(2)]
      by (rule execute_call(1) [where g = ?g, OF assms(2,3) _ answers])
        (auto simp: act_simps split: option.split sum.split if_splits)
    then show ?thesis ..
  next
    case fails
    have "fails_with self (rv \<circ> srv) (provider_set_if_absent self (PyStr k) (PyBytes x) t) s OP_SET_IF_ABSENT (rv r)"
      unfolding provider_set_if_absent_def k(1) x assms(6) bind_lift_cases servingD(3) [OF assms(1) k(2)]
      by (rule execute_call(2) [where g = ?g and m = ?m and srv = srv and s = s, OF assms(2,3) _ fails(1)])
        (auto simp: act_simps split: option.split sum.split)
    then show ?thesis using fails(2) by simp
  qed
qed

text \<open>The two scripts that answer 0 or 1.\<close>

lemma deleted_01: "deleted (RespVal (PyInt (if b then 1 else 0))) op = Inr b" "deleted (RespVal (PyInt 0)) op = Inr False"
    "deleted (RespVal (PyInt 1)) op = Inr True"
  by (simp_all add: deleted_def)

lemma provider_delete_if_value_on_server:
  assumes "result_serving (pv_client self) R srv put" "provider_quiet self srv put" "pd_state (pv_get self s) = OPEN"
    and "result_laws R rv" "key_ok k kb" "string_or_none (rv (srv s)) kb"
  defines "v \<equiv> rv (srv s)"
  shows "provides self (rv \<circ> srv) (provider_delete_if_value self (PyStr k) (PyBytes x)) s (holds v kb x)
     (if holds v kb x then v(kb := None) else v)"
proof -
  have k: "validate_key (PyStr k) = Inr k" "utf8_encode k = Some kb" using assms(5) by (simp_all add: key_ok_def)
  have x: "validate_value (PyBytes x) f = Inr x" for f by (simp add: validate_value_def)
  have a: "answers rv (result_server_eval R CompareAndDelete [kb] [ArgBytes x]) (srv s)
      (RespVal (PyInt (if holds v kb x then 1 else 0))) (if holds v kb x then v(kb := None) else v)"
    unfolding result_server_eval_def v_def
    by (simp only: prod.case result_script.case list.case script_arg.case)
      (rule answers_bind [OF compare_and_delete_exact [OF assms(4,6)]], simp add: answers_return)
  show ?thesis
    unfolding provider_delete_if_value_def k(1) x bind_lift_cases servingD(5) [OF assms(1) k(2)]
    by (rule execute_call(1) [where g = "\<lambda>r. deleted r OP_DELETE_IF_VALUE", OF assms(2,3) _ a])
      (rule refl, rule deleted_01)
qed

lemma provider_snapshot_on_server:
  assumes "result_serving (pv_client self) R srv put" "provider_quiet self srv put" "pd_state (pv_get self s) = OPEN"
    and "result_laws R rv" "key_ok k1 kb1" "key_ok k2 kb2" "k1 \<noteq> k2"
    and "string_or_none (rv (srv s)) kb1" "string_or_none (rv (srv s)) kb2"
    and "1 \<le> m" "m \<le> max_coordination_marker_size" "1 \<le> n" "n \<le> default_max_encoded_size"
  defines "v \<equiv> rv (srv s)"
  shows "provides self (rv \<circ> srv) (provider_snapshot self (PyStr k1) (PyStr k2) (PyInt m) (PyInt n)) s
     (abs_snapshot m n (string_at v kb1) (string_at v kb2)) v"
proof -
  have k: "validate_key (PyStr k1) = Inr k1" "utf8_encode k1 = Some kb1" "validate_key (PyStr k2) = Inr k2" "utf8_encode k2 = Some kb2"
    using assms(5,6) by (simp_all add: key_ok_def)
  have limits: "validate_size_limit (PyInt m) f max_coordination_marker_size = Inr m"
    "validate_size_limit (PyInt n) f default_max_encoded_size = Inr n" for f
    using assms(10-13) by (simp_all add: validate_size_limit_def)
  have a: "answers rv (result_server_eval R CoordinationSnapshot [kb1, kb2] [ArgInt m, ArgInt n]) (srv s)
      (RespList (snapshot_triple m (string_at v kb1)
         @ snapshot_triple n (if is_active (string_at v kb1) then None else string_at v kb2))) v"
    unfolding result_server_eval_def v_def
    by (simp only: prod.case result_script.case list.case script_arg.case)
      (rule answers_bind [OF snapshot_script_exact [OF assms(4,8,9,10,12)]], simp add: answers_return)
  show ?thesis
    unfolding provider_snapshot_def k limits bind_lift_cases if_not_P [OF assms(7)] servingD(6) [OF assms(1) k(2,4)]
    by (rule execute_call(1) [where g = "\<lambda>r. decode_snapshot r m n", OF assms(2,3) _ a])
      (rule refl, rule decode_snapshot_triples [OF assms(10,12)])
qed

lemma provider_publish_on_server:
  fixes self :: "'w provider" and x r c :: pybytes
  defines "call \<equiv> \<lambda>k1 k2 t. provider_publish self (PyStr k1) (PyBytes x) (PyStr k2) (PyBytes r) (PyBytes c) t"
  assumes "result_serving (pv_client self) R srv put" "provider_quiet self srv put" "pd_state (pv_get self s) = OPEN"
    and "result_laws R rv" "key_ok k1 kb1" "key_ok k2 kb2" "k1 \<noteq> k2" "kb1 \<noteq> kb2"
    and "string_or_none (rv (srv s)) kb1" "ttl_milliseconds t = Inr n" "0 < n"
  defines "v \<equiv> rv (srv s)"
  shows "if holds v kb1 x
     then provides self (rv \<circ> srv) (call k1 k2 t) s True (v(kb2 \<mapsto> (RStr r, Some n), kb1 \<mapsto> (RStr c, Some n)))
          \<or> (\<exists>v'\<in>{v, v(kb2 \<mapsto> (RStr r, Some n))}. fails_with self (rv \<circ> srv) (call k1 k2 t) s OP_PUBLISH_IF_VALUE v')
     else provides self (rv \<circ> srv) (call k1 k2 t) s False v"
proof -
  have k: "validate_key (PyStr k1) = Inr k1" "utf8_encode k1 = Some kb1" "validate_key (PyStr k2) = Inr k2" "utf8_encode k2 = Some kb2"
    using assms(6,7) by (simp_all add: key_ok_def)
  have x: "validate_value (PyBytes b) f = Inr b" for f b by (simp add: validate_value_def)
  let ?s = "publish_if_value_script R kb1 kb2 x r n c"
    and ?m = "result_server_eval R PublishIfValue [kb1, kb2] [ArgBytes x, ArgBytes r, ArgInt n, ArgBytes c]"
  have m: "?m = act_bind ?s (\<lambda>n. return (RespVal (PyInt n)))" by (simp add: result_server_eval_def)
  have go: "call k1 k2 t = provider_execute self OP_PUBLISH_IF_VALUE
      (act_bind (on_result_server srv put ?m (\<lambda>x. x)) (\<lambda>response. lift (deleted response OP_PUBLISH_IF_VALUE)))"
    unfolding call_def provider_publish_def k x assms(11) bind_lift_cases if_not_P [OF assms(8)] servingD(6) [OF assms(2) k(2,4)] ..
  note run = execute_call [where g = "\<lambda>r. deleted r OP_PUBLISH_IF_VALUE" and op = OP_PUBLISH_IF_VALUE and m = ?m
      and f = "\<lambda>x. x", OF assms(3,4) refl]
  have one: "answers rv ?s (srv s) i v' \<Longrightarrow> i = 0 \<or> i = 1 \<Longrightarrow> provides self (rv \<circ> srv) (call k1 k2 t) s (i = 1) v'" for i v'
  proof -
    assume i: "answers rv ?s (srv s) i v'" "i = 0 \<or> i = 1"
    have "answers rv ?m (srv s) (RespVal (PyInt i)) v'"
      unfolding m by (rule answers_bind [OF i(1)]) (simp add: answers_return)
    then show ?thesis
      unfolding go using i(2) by (intro run(1)) (auto simp: deleted_01)
  qed
  show ?thesis
  proof (cases "holds v kb1 x")
    case False
    then have "answers rv ?s (srv s) 0 v"
      using publish_exact [OF assms(5,10,9,12), of x r c] by (simp add: v_def)
    from one [OF this] False show ?thesis by simp
  next
    case True
    then consider (answers) "answers rv ?s (srv s) 1 (v(kb2 \<mapsto> (RStr r, Some n), kb1 \<mapsto> (RStr c, Some n)))"
      | (fails) e s' where "?s (srv s) = Some (Inl e, s')" "rv s' = v \<or> rv s' = v(kb2 \<mapsto> (RStr r, Some n))"
      using publish_exact [OF assms(5,10,9,12), of x r c] unfolding v_def by auto
    then show ?thesis
    proof cases
      case answers
      from one [OF this] True show ?thesis by simp
    next
      case fails
      have "?m (srv s) = Some (Inl e, s')" by (simp add: m act_simps fails(1))
      from run(2) [OF this] have "fails_with self (rv \<circ> srv) (call k1 k2 t) s OP_PUBLISH_IF_VALUE (rv s')" unfolding go .
      with fails(2) True show ?thesis by auto
    qed
  qed
qed

text \<open>
  C12: the operations of the coordination are atomic and exact. Over a connection to a server that runs the
  documented commands and the three scripts, an open provider implements the abstract operations on the key
  space: a key is taken only when it is absent; a compare-and-delete deletes exactly the expected value; a
  snapshot is the abstract one, with both values cut to their limits and the result left out while an owner
  is active; and a publication sets both keys or reports that ownership was lost. The provider's own
  checks of the replies never get in the way, and a failure leaves the marker as it was.
\<close>

theorem provider_refines_key_space:
  assumes "result_serving (pv_client self) R srv put" "provider_quiet self srv put" "pd_state (pv_get self s) = OPEN"
    and "result_laws R rv" "key_ok k1 kb1" "key_ok k2 kb2" "k1 \<noteq> k2" "kb1 \<noteq> kb2"
    and "string_or_none (rv (srv s)) kb1" "string_or_none (rv (srv s)) kb2" "ttl_milliseconds t = Inr n" "0 < n"
    and "1 \<le> m" "m \<le> max_coordination_marker_size" "1 \<le> l" "l \<le> default_max_encoded_size"
  shows "let v = rv (srv s); vw = rv \<circ> srv;
      acquire = provider_set_if_absent self (PyStr k1) (PyBytes x) t;
      publish = provider_publish self (PyStr k1) (PyBytes x) (PyStr k2) (PyBytes r) (PyBytes c) t
    in (provides self vw acquire s (v kb1 = None) (if v kb1 = None then v(kb1 \<mapsto> (RStr x, Some n)) else v)
          \<or> fails_with self vw acquire s OP_SET_IF_ABSENT v)
     \<and> provides self vw (provider_delete_if_value self (PyStr k1) (PyBytes x)) s (holds v kb1 x)
          (if holds v kb1 x then v(kb1 := None) else v)
     \<and> provides self vw (provider_snapshot self (PyStr k1) (PyStr k2) (PyInt m) (PyInt l)) s
          (abs_snapshot m l (string_at v kb1) (string_at v kb2)) v
     \<and> (if holds v kb1 x
        then provides self vw publish s True (v(kb2 \<mapsto> (RStr r, Some n), kb1 \<mapsto> (RStr c, Some n)))
             \<or> fails_with self vw publish s OP_PUBLISH_IF_VALUE v
             \<or> fails_with self vw publish s OP_PUBLISH_IF_VALUE (v(kb2 \<mapsto> (RStr r, Some n)))
        else provides self vw publish s False v)"
  unfolding Let_def
proof (intro conjI)
  show "if holds (rv (srv s)) kb1 x
    then provides self (rv \<circ> srv) (provider_publish self (PyStr k1) (PyBytes x) (PyStr k2) (PyBytes r) (PyBytes c) t) s True
           ((rv (srv s))(kb2 \<mapsto> (RStr r, Some n), kb1 \<mapsto> (RStr c, Some n)))
         \<or> fails_with self (rv \<circ> srv) (provider_publish self (PyStr k1) (PyBytes x) (PyStr k2) (PyBytes r) (PyBytes c) t) s
              OP_PUBLISH_IF_VALUE (rv (srv s))
         \<or> fails_with self (rv \<circ> srv) (provider_publish self (PyStr k1) (PyBytes x) (PyStr k2) (PyBytes r) (PyBytes c) t) s
              OP_PUBLISH_IF_VALUE ((rv (srv s))(kb2 \<mapsto> (RStr r, Some n)))
    else provides self (rv \<circ> srv) (provider_publish self (PyStr k1) (PyBytes x) (PyStr k2) (PyBytes r) (PyBytes c) t) s False (rv (srv s))"
    using provider_publish_on_server [OF assms(1-9,11,12), of x r c] by (simp only: bex_simps simp_thms split: if_split)
qed (rule provider_set_if_absent_on_server [OF assms(1-5,11,12)] provider_delete_if_value_on_server [OF assms(1-5,9)]
    provider_snapshot_on_server [OF assms(1-7,9,10,13-16)])+

section \<open>A concrete provider\<close>

text \<open>The key space itself as the server, and the client of such a server.\<close>

definition kv_result :: "rview result_redis" where
  "kv_result =
     \<lparr>rr_get = (\<lambda>k v. Some (if string_or_none v k then Inr (string_at v k) else Inl (OtherException 0), v)),
      rr_exists = (\<lambda>k v. Some (Inr (if v k = None then 0 else 1), v)),
      rr_strlen = (\<lambda>k v. Some (Inr (int (length (text_of (string_at v k)))), v)),
      rr_getrange = (\<lambda>k a b v. Some (Inr (take (nat (b + 1)) (text_of (string_at v k))), v)),
      rr_set_px = (\<lambda>k x t v. Some (Inr (), v(k \<mapsto> (RStr x, Some t)))),
      rr_set_nx_px = (\<lambda>k x t v. Some (if v k = None then (Inr True, v(k \<mapsto> (RStr x, Some t))) else (Inr False, v))),
      rr_del = (\<lambda>k v. Some (Inr (if v k = None then 0 else 1), v(k := None)))\<rparr>"

lemma kv_result_laws: "result_laws kv_result (\<lambda>v. v)"
  by (auto simp: result_laws_def kv_result_def answers_def answers_or_fails_def)

definition server_client :: "('w \<Rightarrow> 'r) \<Rightarrow> ('r \<Rightarrow> 'w \<Rightarrow> 'w) \<Rightarrow> 'r result_redis \<Rightarrow> 'w redis_client" where
  "server_client srv put R =
     (let on = (\<lambda>k. the (utf8_encode k))
      in \<lparr>rl_get = (\<lambda>k. on_result_server srv put (rr_get R (on k)) bytes_or_none),
          rl_set = (\<lambda>k v nx t. if nx then on_result_server srv put (rr_set_nx_px R (on k) v t) (\<lambda>done. if done then PyBool True else PyNone)
            else on_result_server srv put (rr_set_px R (on k) v t) (\<lambda>_. PyBool True)),
          rl_delete = (\<lambda>k. on_result_server srv put (rr_del R (on k)) PyInt),
          rl_eval = (\<lambda>script ks args. on_result_server srv put (result_server_eval R script (map on ks) args) (\<lambda>x. x)),
          rl_close = return ()\<rparr>)"

lemma server_client_serving: "result_serving (server_client srv put R) R srv put"
proof -
  have the: "map (\<lambda>k. the (utf8_encode k)) ks = kbs" if "map utf8_encode ks = map Some kbs" for ks kbs
    using arg_cong [OF that, of "map the"] by (simp add: comp_def)
  show ?thesis by (simp add: result_serving_def server_client_def Let_def the)
qed

text \<open>A state with a server, a provider and a clock.\<close>

record provider_world =
  pw_server :: rview
  pw_data :: provider_data
  pw_ns :: int

definition demo_provider :: "'z provider_world_scheme provider" where
  "demo_provider =
     \<lparr>pv_client = server_client pw_server (\<lambda>v. pw_server_update (\<lambda>_. v)) kv_result,
      pv_observer = None, pv_policy = None, pv_owned = True,
      pv_get = pw_data, pv_put = (\<lambda>d. pw_data_update (\<lambda>_. d)), pv_now = pw_ns, pv_wait = return ()\<rparr>"

lemma demo_provider_serving:
  "result_serving (pv_client demo_provider) kv_result pw_server (\<lambda>v. pw_server_update (\<lambda>_. v))"
  by (simp add: demo_provider_def server_client_serving)

lemma demo_provider_quiet: "provider_quiet demo_provider pw_server (\<lambda>v. pw_server_update (\<lambda>_. v))"
  by (simp add: provider_quiet_def demo_provider_def)

definition demo_pw :: provider_world where
  "demo_pw = \<lparr>pw_server = Map.empty, pw_data = provider_fresh, pw_ns = 0\<rparr>"

lemma demo_key_ok: "key_ok (ustr ''k1'') (ustr ''k1'')" "key_ok (ustr ''k2'') (ustr ''k2'')"
  by (simp_all add: key_ok_def validate_key_def strip_def is_space_def ustr_def utf8_encode_def utf8_char_def surrogate_def)

lemma provider_refines_key_space_witness:
  "provides demo_provider pw_server (provider_delete_if_value demo_provider (PyStr (ustr ''k1'')) (PyBytes [1])) demo_pw False Map.empty
   \<and> provides demo_provider pw_server
       (provider_snapshot demo_provider (PyStr (ustr ''k1'')) (PyStr (ustr ''k2'')) (PyInt 138) (PyInt 1000)) demo_pw
       \<lparr>cs_marker = None, cs_result = None, cs_marker_oversized = False, cs_result_oversized = False\<rparr> Map.empty"
proof -
  have "pd_state (pv_get demo_provider demo_pw) = OPEN" "string_or_none (pw_server demo_pw) k" for k
    by (simp_all add: demo_provider_def demo_pw_def provider_fresh_def string_or_none_def)
  moreover have "ttl_milliseconds (PyInt 5) = Inr 5000"
    using round_double_of_int [of 5] by (simp add: ttl_milliseconds_def float_of_int_def checked_milliseconds_def)
  moreover have "ustr ''k1'' \<noteq> ustr ''k2''" by (simp add: ustr_def)
  ultimately have "let v = pw_server demo_pw; vw = (\<lambda>v. v) \<circ> pw_server;
      acquire = provider_set_if_absent demo_provider (PyStr (ustr ''k1'')) (PyBytes [1]) (PyInt 5);
      publish = provider_publish demo_provider (PyStr (ustr ''k1'')) (PyBytes [1]) (PyStr (ustr ''k2'')) (PyBytes [2]) (PyBytes [3]) (PyInt 5)
    in (provides demo_provider vw acquire demo_pw (v (ustr ''k1'') = None)
            (if v (ustr ''k1'') = None then v(ustr ''k1'' \<mapsto> (RStr [1], Some 5000)) else v)
          \<or> fails_with demo_provider vw acquire demo_pw OP_SET_IF_ABSENT v)
     \<and> provides demo_provider vw (provider_delete_if_value demo_provider (PyStr (ustr ''k1'')) (PyBytes [1])) demo_pw
          (holds v (ustr ''k1'') [1]) (if holds v (ustr ''k1'') [1] then v(ustr ''k1'' := None) else v)
     \<and> provides demo_provider vw (provider_snapshot demo_provider (PyStr (ustr ''k1'')) (PyStr (ustr ''k2'')) (PyInt 138) (PyInt 1000)) demo_pw
          (abs_snapshot 138 1000 (string_at v (ustr ''k1'')) (string_at v (ustr ''k2''))) v
     \<and> (if holds v (ustr ''k1'') [1]
        then provides demo_provider vw publish demo_pw True (v(ustr ''k2'' \<mapsto> (RStr [2], Some 5000), ustr ''k1'' \<mapsto> (RStr [3], Some 5000)))
             \<or> fails_with demo_provider vw publish demo_pw OP_PUBLISH_IF_VALUE v
             \<or> fails_with demo_provider vw publish demo_pw OP_PUBLISH_IF_VALUE (v(ustr ''k2'' \<mapsto> (RStr [2], Some 5000)))
        else provides demo_provider vw publish demo_pw False v)"
    using provider_refines_key_space [OF demo_provider_serving demo_provider_quiet _ kv_result_laws demo_key_ok, of demo_pw
        "PyInt 5" 5000 138 1000 "[1]" "[2]" "[3]"]
    by (simp add: max_coordination_marker_size_def default_max_encoded_size_def)
  then show ?thesis
    by (simp add: demo_pw_def holds_def string_at_def abs_snapshot_def clipped_def is_active_def comp_def Let_def)
qed

lemma demo_provider_env: "pv_env True demo_provider (\<lambda>_. 0)"
proof -
  have kv: "\<exists>r v'. rr_get kv_result k v = Some (r, v')" "\<exists>r v'. rr_exists kv_result k v = Some (r, v')"
    "\<exists>r v'. rr_strlen kv_result k v = Some (r, v')" "\<exists>r v'. rr_getrange kv_result k a b v = Some (r, v')"
    "\<exists>r v'. rr_set_px kv_result k x t v = Some (r, v')" "\<exists>r v'. rr_set_nx_px kv_result k x t v = Some (r, v')"
    "\<exists>r v'. rr_del kv_result k v = Some (r, v')" for k v a b x t
    by (simp_all add: kv_result_def)
  have total: "keeps True (\<lambda>_. True) m \<longleftrightarrow> (\<forall>v. m v \<noteq> None)" for m :: "(rview, rc_exn, 'x) act"
    by (auto simp: keeps_def hoare_def split: option.splits sum.splits)
  have kvk: "keeps True (\<lambda>_. True) (rr_get kv_result k)" "keeps True (\<lambda>_. True) (rr_exists kv_result k)"
    "keeps True (\<lambda>_. True) (rr_strlen kv_result k)" "keeps True (\<lambda>_. True) (rr_getrange kv_result k a b)"
    "keeps True (\<lambda>_. True) (rr_set_px kv_result k x t)" "keeps True (\<lambda>_. True) (rr_set_nx_px kv_result k x t)"
    "keeps True (\<lambda>_. True) (rr_del kv_result k)" for k a b x t
    by (simp_all add: total kv_result_def)
  have on: "keeps True (pv_holds demo_provider (\<lambda>_. 0) k) (on_result_server pw_server (\<lambda>v. pw_server_update (\<lambda>_. v)) m f)"
    if m: "keeps True (\<lambda>_. True) m" for k f and m :: "(rview, rc_exn, 'x) act"
    unfolding keeps_def hoare_def
  proof (intro allI impI)
    fix s :: "'z provider_world_scheme"
    assume "pv_holds demo_provider (\<lambda>_. 0) k s"
    moreover obtain r v where "m (pw_server s) = Some (r, v)" using keeps_ends [OF m, of "pw_server s"] by blast
    ultimately show "case on_result_server pw_server (\<lambda>v. pw_server_update (\<lambda>_. v)) m f s of None \<Rightarrow> \<not> True
      | Some (r, s') \<Rightarrow> (case r of Inl e \<Rightarrow> pv_holds demo_provider (\<lambda>_. 0) k s' | Inr x \<Rightarrow> pv_holds demo_provider (\<lambda>_. 0) k s')"
      by (cases r) (simp_all add: on_result_server_def pv_holds_def demo_provider_def)
  qed
  have eval: "keeps True (\<lambda>_. True) (result_server_eval kv_result script ks args)" for script ks args
    unfolding result_server_eval_def compare_and_delete_script_def coordination_snapshot_script_def publish_if_value_script_def Let_def
    by (auto split: result_script.split list.split script_arg.split intro!: hoare_rules kvk)
  show ?thesis
    unfolding pv_env_def
    by (intro conjI allI impI)
      (auto simp: demo_provider_def server_client_def Let_def intro: on [unfolded demo_provider_def server_client_def Let_def] kvk eval)
qed

lemma provider_operations_sound_witness:
  "operation_sound True (demo_provider :: provider_world provider) (\<lambda>_. 0) 0 (provider_get demo_provider (PyStr (ustr ''k1'')))
   \<and> operation_sound True (demo_provider :: provider_world provider) (\<lambda>_. 0) 0
       (provider_set demo_provider PyNone PyNone (PyFloat PosInf))"
  using provider_operations_sound [OF demo_provider_env, of 0 "PyStr (ustr ''k1'')"]
    provider_operations_sound [OF demo_provider_env, of 0 PyNone PyNone "PyFloat PosInf"] by blast

section \<open>Two deviations\<close>

text \<open>A wait that only wakes up to the same data never ends.\<close>

lemma follow_loop_waits:
  assumes "follow_loop self u = Some y" "pd_state (pv_get self u) = CLOSING" "pd_active (pv_get self u) = 0"
    and "\<And>s1. pd_state (pv_get self s1) = CLOSING \<Longrightarrow> pd_active (pv_get self s1) = 0 \<Longrightarrow>
      pv_wait self s1 = None \<or> (\<exists>s2. pv_wait self s1 = Some (Inr (), s2) \<and> pv_get self s2 = pv_get self s1)"
  shows False
  using assms
proof (induction rule: follow_loop.raw_induct [rotated, consumes 1])
  case (1 f self u y)
  have "pv_wait self u = None \<or> (\<exists>s2. pv_wait self u = Some (Inr (), s2) \<and> pv_get self s2 = pv_get self u)"
    by (rule 1(5)) (rule 1(3), rule 1(4))
  moreover have "act_then (pv_wait self) (f self) u = Some y" using 1(2,3) by (simp add: act_simps)
  ultimately obtain s2 where s2: "pv_get self s2 = pv_get self u" "f self s2 = Some y" by (auto simp: act_simps)
  show ?case by (rule 1(1) [OF s2(2) _ _ 1(5)]) (simp_all only: s2(1) 1(3,4))
qed

text \<open>
  an interrupt in the wait of a closing thread locks every later close out. If the condition's \<open>wait\<close>
  raises while \<open>close\<close> drains the operations (a \<open>KeyboardInterrupt\<close> of the main thread), the provider is left
  in the state \<open>CLOSING\<close> with no thread that will finish the close: every operation is refused from then
  on, and another \<open>close\<close> waits forever, also after the last operation has ended, when nothing but waiting
  threads is left to change the state.
\<close>

theorem interrupted_close_locks_out:
  assumes data: "\<And>d s. pv_get self (pv_put self d s) = d"
    and s: "pd_state (pv_get self s) = OPEN" "pd_active (pv_get self s) \<noteq> 0"
    and interrupt: "\<And>s1. pv_get self s1 = (pv_get self s)\<lparr>pd_state := CLOSING\<rparr> \<Longrightarrow>
      \<exists>s2. pv_wait self s1 = Some (Inl (Interrupt n), s2) \<and> pv_get self s2 = pv_get self s1"
    and waits: "\<And>s1. pd_state (pv_get self s1) = CLOSING \<Longrightarrow> pd_active (pv_get self s1) = 0 \<Longrightarrow>
      pv_wait self s1 = None \<or> (\<exists>s2. pv_wait self s1 = Some (Inr (), s2) \<and> pv_get self s2 = pv_get self s1)"
  shows "(\<exists>s'. provider_close self s = Some (Inl (Interrupt n), s') \<and> pd_state (pv_get self s') = CLOSING)
     \<and> (\<forall>s'. pd_state (pv_get self s') = CLOSING \<longrightarrow> pd_active (pv_get self s') = 0 \<longrightarrow> provider_close self s' = None)"
proof (intro conjI allI impI)
  let ?s1 = "pv_put self ((pv_get self s)\<lparr>pd_state := CLOSING\<rparr>) s"
  have s1: "pv_get self ?s1 = (pv_get self s)\<lparr>pd_state := CLOSING\<rparr>" by (simp add: data)
  from interrupt [OF s1] obtain s2 where w: "pv_wait self ?s1 = Some (Inl (Interrupt n), s2)" "pv_get self s2 = pv_get self ?s1" by blast
  have began: "provider_block self close_begin s = Some (Inr OPEN, ?s1)"
    by (simp add: provider_block_def close_begin_def s(1))
  have "drain_loop self ?s1 = Some (Inl (Interrupt n), s2)"
    using s(2) by (subst drain_loop.simps) (simp add: act_simps s1 w(1))
  then have "provider_close self s = Some (Inl (Interrupt n), s2)"
    by (simp add: provider_close_def close_enter_def act_simps began)
  then show "\<exists>s'. provider_close self s = Some (Inl (Interrupt n), s') \<and> pd_state (pv_get self s') = CLOSING"
    using w(2) s1 by auto
next
  fix s'
  assume s': "pd_state (pv_get self s') = CLOSING" "pd_active (pv_get self s') = 0"
  let ?s1 = "pv_put self (pv_get self s') s'"
  have "provider_block self close_begin s' = Some (Inr CLOSING, ?s1)"
    by (simp add: provider_block_def close_begin_def s'(1))
  moreover have "follow_loop self ?s1 = None"
  proof (rule ccontr)
    assume "follow_loop self ?s1 \<noteq> None"
    then obtain y where "follow_loop self ?s1 = Some y" by blast
    then show False by (rule follow_loop_waits) (simp_all only: data s', rule waits)
  qed
  ultimately show "provider_close self s' = None" by (simp add: provider_close_def close_enter_def act_simps)
qed

text \<open>The main thread closes while one operation runs, and the wait is interrupted.\<close>

definition stuck_provider :: "provider_data provider" where
  "stuck_provider =
     \<lparr>pv_client = \<lparr>rl_get = (\<lambda>_. return PyNone), rl_set = (\<lambda>_ _ _ _. return (PyBool True)), rl_delete = (\<lambda>_. return (PyInt 0)),
        rl_eval = (\<lambda>_ _ _. return (RespVal (PyInt 0))), rl_close = return ()\<rparr>,
      pv_observer = None, pv_policy = None, pv_owned = True, pv_get = (\<lambda>d. d), pv_put = (\<lambda>d _. d), pv_now = (\<lambda>_. 0),
      pv_wait = (\<lambda>d. if pd_active d = 0 then None else Some (Inl (Interrupt 2), d))\<rparr>"

lemma interrupted_close_locks_out_witness:
  "(\<exists>d. provider_close stuck_provider \<lparr>pd_state = OPEN, pd_active = 1, pd_terminal = None\<rparr> = Some (Inl (Interrupt 2), d)
      \<and> pd_state d = CLOSING)
   \<and> provider_close stuck_provider \<lparr>pd_state = CLOSING, pd_active = 0, pd_terminal = None\<rparr> = None"
  using interrupted_close_locks_out [of stuck_provider "\<lparr>pd_state = OPEN, pd_active = 1, pd_terminal = None\<rparr>" 2]
  by (simp add: stuck_provider_def)

lemma bit_length_shift: "0 < c \<Longrightarrow> bit_length (2 ^ m * c) = int m + bit_length c"
proof (induction m)
  case (Suc m)
  then show ?case by (subst bit_length.simps) (simp add: mult.assoc mult_le_0_iff)
qed simp

lemma round_double_exact:
  assumes "x \<noteq> 0" "x = of_int j * float_quantum x"
  shows "round_double x = (if x \<ge> 2 ^ 1024 then PosInf else if x \<le> - (2 ^ 1024) then NegInf else Finite x)"
proof -
  have "x / float_quantum x = of_int j" using assms(2) float_quantum_pos [of x] by (simp add: field_simps)
  then have "of_int (round_half_even (x / float_quantum x)) * float_quantum x = x"
    using assms(2) by (simp only: round_half_even_of_int)
  then show ?thesis using assms(1) by (simp only: round_double_def Let_def if_False)
qed

lemma round_double_overflow: "round_double (2 ^ 1020 * 1000) = PosInf"
proof -
  let ?n = "2 ^ 1023 * 125 :: int" and ?x = "2 ^ 1020 * 1000 :: rat"
  have x: "?x = of_int ?n" by simp
  have "bit_length 125 = 7" by (simp add: bit_length.simps)
  then have "bit_length ?n = 1030" unfolding bit_length_shift [of 125 1023, OF zero_less_numeral] by simp
  then have "floor_log2 (of_int ?n) = 1029" using floor_log2_of_int [of ?n] by simp
  moreover have "\<bar>?x\<bar> = of_int ?n" by simp
  ultimately have q: "float_quantum ?x = 2 ^ 977" by (simp only: float_quantum_def) (simp add: power_int_def)
  have "?x = of_int (2 ^ 46 * 125) * float_quantum ?x" unfolding q by simp
  from round_double_exact [OF _ this] show ?thesis by simp
qed

text \<open>
  a time to live that is too large is not always refused as invalid. A value whose number of
  milliseconds exceeds the range of Redis is a \<open>ValueError\<close>, but where the product in floats overflows
  the provider reports a failure of Redis, which it has not asked.
\<close>

theorem huge_ttl_blames_redis:
  assumes "provider_quiet self srv put" "pd_state (pv_get self s) = OPEN" "validate_key (PyStr k) = Inr k"
  shows "(\<exists>s'. provider_set self (PyStr k) (PyBytes x) (PyFloat (Finite (2 ^ 1020))) s =
        Some (Inl (RedisProviderError OP_SET RC_PROVIDER_FAILURE), s') \<and> srv s' = srv s)
     \<and> (\<exists>s' m. provider_set self (PyStr k) (PyBytes x) (PyFloat (Finite (2 ^ 60))) s = Some (Inl (ValueError m), s') \<and> srv s' = srv s)"
proof -
  note q = quietD [OF assms(1)]
  let ?s1 = "pv_put self ((pv_get self s)\<lparr>pd_active := pd_active (pv_get self s) + 1\<rparr>) s"
  have x: "validate_value (PyBytes x) f = Inr x" for f by (simp add: validate_value_def)
  have raises: "\<exists>s'. provider_set self (PyStr k) (PyBytes x) t s = Some (provider_result OP_SET (Inl e), s') \<and> srv s' = srv s"
    if "ttl_milliseconds t = Inl e" for t e
  proof -
    let ?a = "act_bind (lift (ttl_milliseconds t)) (\<lambda>milliseconds.
        act_bind (rl_set (pv_client self) k x False milliseconds) (\<lambda>response.
          if response \<noteq> PyBool True then raise (RedisProviderError OP_SET RC_INVALID_RESPONSE) else return ()))"
    have "?a ?s1 = Some (Inl e, ?s1)" by (simp add: act_simps that)
    from execute_open [where action = ?a and op = OP_SET, OF assms(1,2) this q(1) eq_refl [OF q(3) [symmetric]]]
    have "\<exists>s'. provider_execute self OP_SET ?a s = Some (provider_result OP_SET (Inl e), s') \<and> srv s' = srv s"
      unfolding q by blast
    then show ?thesis unfolding provider_set_def assms(3) x bind_lift_cases .
  qed
  have "ttl_milliseconds (PyFloat (Finite (2 ^ 1020))) = Inl OverflowError"
    using round_double_overflow by (simp add: ttl_milliseconds_def mult.commute)
  moreover have "ttl_milliseconds (PyFloat (Finite (2 ^ 60))) = Inl (ValueError ''ttl is outside the supported Redis range'')" by code_simp
  moreover have "provider_result OP_SET (Inl OverflowError :: rc_exn + unit) = Inl (RedisProviderError OP_SET RC_PROVIDER_FAILURE)"
    "provider_result OP_SET (Inl (ValueError m) :: rc_exn + unit) = Inl (ValueError m)" for m
    by (simp_all add: provider_result_def wrapped_error_def)
  ultimately show ?thesis using raises by metis
qed

lemma huge_ttl_blames_redis_witness:
  "\<exists>s'. provider_set demo_provider (PyStr (ustr ''k1'')) (PyBytes [1]) (PyFloat (Finite (2 ^ 1020))) demo_pw =
        Some (Inl (RedisProviderError OP_SET RC_PROVIDER_FAILURE), s') \<and> pw_server s' = Map.empty"
proof -
  have "pd_state (pv_get demo_provider demo_pw) = OPEN" by (simp add: demo_provider_def demo_pw_def provider_fresh_def)
  moreover have "pw_server demo_pw = Map.empty" by (simp add: demo_pw_def)
  moreover have "validate_key (PyStr (ustr ''k1'')) = Inr (ustr ''k1'')" using demo_key_ok by (simp add: key_ok_def)
  ultimately show ?thesis using conjunct1 [OF huge_ttl_blames_redis [OF demo_provider_quiet, of demo_pw "ustr ''k1''" "[1]"]] by simp
qed

end
