(* ===== verification/Binary_Format.thy ===== *)
theory Binary_Format
  imports Redis_Contracts
begin

text \<open>
  \<open>bluetape.cache.redis._formats\<close>: the binary envelope format, with what it uses of \<open>struct\<close> (\<open>"!I"\<close>)
  and of the codecs \<open>ascii\<close> and \<open>utf-8\<close>. The decoder walks over the data with a cursor, as the code does;
  \<open>reads\<close> says what lies between two positions of the cursor.

  The format is shown to be a bijection between envelopes of version 1 and the byte strings that the
  decoder accepts.
\<close>

section \<open>The library\<close>

text \<open>\<open>struct.Struct("!I")\<close>.\<close>

definition u32_bytes :: "int \<Rightarrow> pybytes" where
  "u32_bytes n = map nat [n div 16777216, n div 65536 mod 256, n div 256 mod 256, n mod 256]"

definition u32_pack :: "int \<Rightarrow> rc_exn + pybytes" where
  "u32_pack n = (if 0 \<le> n \<and> n < 2 ^ 32 then Inr (u32_bytes n) else Inl StructError)"

definition u32_unpack :: "pybytes \<Rightarrow> int" where
  "u32_unpack b = foldl (\<lambda>a x. 256 * a + int x) 0 b"

datatype text_encoding = ASCII | UTF8

definition encode_with :: "text_encoding \<Rightarrow> pystr \<Rightarrow> pybytes option" where
  "encode_with enc s =
     (case enc of
        ASCII \<Rightarrow> if list_all (\<lambda>c. c < 128) s then Some s else None
      | UTF8 \<Rightarrow> utf8_encode s)"

definition decode_with :: "text_encoding \<Rightarrow> pybytes \<Rightarrow> pystr option" where
  "decode_with enc b =
     (case enc of
        ASCII \<Rightarrow> if list_all (\<lambda>c. c < 128) b then Some b else None
      | UTF8 \<Rightarrow> utf8_decode b)"

section \<open>Helpers\<close>

definition bin_magic :: pybytes where
  "bin_magic = ustr ''BTRE''"

definition bin_version :: int where
  "bin_version = 1"

definition null_length :: int where
  "null_length = 0xFFFFFFFF"

definition max_content_type_size :: int where
  "max_content_type_size = 1024"

definition max_u32_value :: int where
  "max_u32_value = null_length - 1"

definition malformed :: rc_exn where
  "malformed = EnvelopeDecodeError MALFORMED_ENVELOPE"

definition validate_max_encoded_size :: "pyval \<Rightarrow> rc_exn + int" where
  "validate_max_encoded_size value =
     (case value of
        PyInt n \<Rightarrow>
          if \<not> (1 \<le> n \<and> n \<le> max_u32_value)
          then Inl (ValueError ''max_encoded_size is outside the supported range'') else Inr n
      | _ \<Rightarrow> Inl (TypeError ''max_encoded_size must be an exact int''))"

definition encoded_text :: "pystr \<Rightarrow> string \<Rightarrow> text_encoding \<Rightarrow> int \<Rightarrow> rc_exn + pybytes" where
  "encoded_text value field encoding maximum =
     (case encode_with encoding value of
        None \<Rightarrow> Inl (ValueError (field @ '' must use its encoding''))
      | Some encoded \<Rightarrow>
          if int (length encoded) > maximum then Inl (ValueError (field @ '' exceeds its encoded size limit''))
          else Inr encoded)"

definition take_bytes :: "pybytes \<Rightarrow> nat \<Rightarrow> int \<Rightarrow> rc_exn + pybytes \<times> nat" where
  "take_bytes data cursor sz =
     (if sz < 0 \<or> sz > int (length data) - int cursor then Inl malformed
      else let stop = cursor + nat sz in Inr (take (nat sz) (drop cursor data), stop))"

definition read_u32 :: "pybytes \<Rightarrow> nat \<Rightarrow> rc_exn + int \<times> nat" where
  "read_u32 data cursor =
     ebind (take_bytes data cursor 4) (\<lambda>(raw, cursor). Inr (u32_unpack raw, cursor))"

definition read_required_text :: "pybytes \<Rightarrow> nat \<Rightarrow> text_encoding \<Rightarrow> int \<Rightarrow> rc_exn + pystr \<times> nat" where
  "read_required_text data cursor encoding maximum =
     ebind (read_u32 data cursor) (\<lambda>(sz, cursor).
       if \<not> (1 \<le> sz \<and> sz \<le> maximum) then Inl malformed
       else ebind (take_bytes data cursor sz) (\<lambda>(raw, cursor).
         case decode_with encoding raw of
           None \<Rightarrow> Inl malformed
         | Some s \<Rightarrow> Inr (s, cursor)))"

definition ensure_bound :: "int \<Rightarrow> int \<Rightarrow> rc_exn + unit" where
  "ensure_bound sz maximum = (if sz > maximum then Inl (EnvelopeSizeError ENCODED_SIZE_LIMIT) else Inr ())"

section \<open>Encoding\<close>

text \<open>\<open>output.append(n)\<close> of a bytearray.\<close>

definition byte_append :: "int \<Rightarrow> rc_exn + pybytes" where
  "byte_append n = (if 0 \<le> n \<and> n < 256 then Inr [nat n] else Inl (ValueError ''byte must be in range(0, 256)''))"

text \<open>A field with its length in front.\<close>

definition sized :: "pybytes \<Rightarrow> rc_exn + pybytes" where
  "sized field = ebind (u32_pack (int (length field))) (\<lambda>n. Inr (n @ field))"

definition binary_encode :: "int \<Rightarrow> result_envelope option \<Rightarrow> rc_exn + pybytes" where
  "binary_encode max_encoded_size argument =
     (case argument of
        None \<Rightarrow> Inl (TypeError ''envelope must be an exact ResultEnvelope'')
      | Some envelope \<Rightarrow>
          ebind (encoded_text (re_owner_token envelope) ''owner token'' ASCII 128) (\<lambda>owner.
          ebind (encoded_text (pm_format (re_metadata envelope)) ''serde format'' ASCII 64) (\<lambda>serde_format.
          ebind (case pm_content_type (re_metadata envelope) of
                   None \<Rightarrow> Inr None
                 | Some c \<Rightarrow> ebind (encoded_text c ''content type'' UTF8 max_content_type_size) (\<lambda>b. Inr (Some b)))
            (\<lambda>content_type.
          ebind (encoded_text (trust_value (pm_trust_profile (re_metadata envelope))) ''trust profile'' ASCII 64) (\<lambda>trust.
          ebind (encoded_text (re_compression_algorithm envelope) ''compression algorithm'' ASCII 64) (\<lambda>algorithm.
            let fields = [owner, serde_format, trust, algorithm, re_payload envelope]
            in if list_ex (\<lambda>f. int (length f) > max_u32_value) fields
               then Inl (EnvelopeSizeError ENCODED_SIZE_LIMIT)
               else
                 let sz = 5 + 7 * 4 + sum_list (map (\<lambda>f. int (length f)) fields)
                          + (case content_type of None \<Rightarrow> 0 | Some c \<Rightarrow> int (length c))
                 in ebind (ensure_bound sz max_encoded_size) (\<lambda>_.
                    ebind (byte_append (re_version envelope)) (\<lambda>version.
                    ebind (sized owner) (\<lambda>owner_field.
                    ebind (sized serde_format) (\<lambda>format_field.
                    ebind (u32_pack (pm_version (re_metadata envelope))) (\<lambda>version_field.
                    ebind (case content_type of None \<Rightarrow> u32_pack null_length | Some c \<Rightarrow> sized c) (\<lambda>content_field.
                    ebind (sized trust) (\<lambda>trust_field.
                    ebind (sized algorithm) (\<lambda>algorithm_field.
                    ebind (sized (re_payload envelope)) (\<lambda>payload_field.
                      let encoded = bin_magic @ version @ owner_field @ format_field @ version_field @ content_field
                                    @ trust_field @ algorithm_field @ payload_field
                      in ebind (ensure_bound (int (length encoded)) max_encoded_size) (\<lambda>_. Inr encoded))))))))))))))))"

section \<open>Decoding\<close>

definition read_content_type :: "pybytes \<Rightarrow> nat \<Rightarrow> rc_exn + pystr option \<times> nat" where
  "read_content_type data cursor =
     ebind (read_u32 data cursor) (\<lambda>(content_size, cursor).
       if content_size = null_length then Inr (None, cursor)
       else if content_size > max_content_type_size then Inl malformed
       else ebind (take_bytes data cursor content_size) (\<lambda>(raw_content, cursor).
         case utf8_decode raw_content of
           None \<Rightarrow> Inl malformed
         | Some c \<Rightarrow> Inr (Some c, cursor)))"

definition binary_body :: "pybytes \<Rightarrow> rc_exn + result_envelope" where
  "binary_body data =
     ebind (take_bytes data 0 4) (\<lambda>(magic, cursor).
       if magic \<noteq> bin_magic then Inl malformed
       else ebind (take_bytes data cursor 1) (\<lambda>(version_bytes, cursor).
         let version = int (hd version_bytes)
         in if version \<noteq> bin_version then Inl (EnvelopeDecodeError UNSUPPORTED_VERSION)
            else
              ebind (read_required_text data cursor ASCII 128) (\<lambda>(owner, cursor).
              ebind (read_required_text data cursor ASCII 64) (\<lambda>(serde_format, cursor).
              ebind (read_u32 data cursor) (\<lambda>(serde_version, cursor).
              ebind (read_content_type data cursor) (\<lambda>(content_type, cursor).
              ebind (read_required_text data cursor ASCII 64) (\<lambda>(trust, cursor).
              ebind (read_required_text data cursor ASCII 64) (\<lambda>(algorithm, cursor).
              ebind (read_u32 data cursor) (\<lambda>(payload_size, cursor).
              ebind (take_bytes data cursor payload_size) (\<lambda>(payload, cursor).
                if cursor \<noteq> length data then Inl malformed
                else
                  ebind (trust_profile_of trust) (\<lambda>profile.
                  ebind (payload_metadata_new (PyStr serde_format) (PyInt serde_version)
                           (case content_type of None \<Rightarrow> PyNone | Some c \<Rightarrow> PyStr c) (Some profile)) (\<lambda>metadata.
                    result_envelope_new (PyInt version) (PyStr owner) (Some metadata) (PyStr algorithm)
                      (PyBytes payload)))))))))))))"

text \<open>The \<open>except\<close> clauses.\<close>

definition as_malformed :: "rc_exn + 'a \<Rightarrow> rc_exn + 'a" where
  "as_malformed r =
     (case r of
        Inl (EnvelopeDecodeError c) \<Rightarrow> Inl (EnvelopeDecodeError c)
      | Inl e \<Rightarrow> if is_type_or_value_error e \<or> e = StructError then Inl malformed else Inl e
      | Inr x \<Rightarrow> Inr x)"

definition binary_decode :: "int \<Rightarrow> pyval \<Rightarrow> rc_exn + result_envelope" where
  "binary_decode max_encoded_size argument =
     (case argument of
        PyBytes data \<Rightarrow>
          ebind (ensure_bound (int (length data)) max_encoded_size) (\<lambda>_. as_malformed (binary_body data))
      | _ \<Rightarrow> Inl (TypeError ''data must be exact bytes''))"

section \<open>The layout\<close>

text \<open>What an envelope looks like in bytes, and which envelopes fit.\<close>

definition field_layout :: "pybytes \<Rightarrow> pybytes" where
  "field_layout b = u32_bytes (int (length b)) @ b"

definition content_layout :: "pystr option \<Rightarrow> pybytes" where
  "content_layout content =
     (case content of None \<Rightarrow> u32_bytes null_length | Some c \<Rightarrow> field_layout (the (utf8_encode c)))"

definition binary_layout :: "result_envelope \<Rightarrow> pybytes" where
  "binary_layout e =
     (let m = re_metadata e
      in bin_magic @ [nat (re_version e)] @ field_layout (re_owner_token e) @ field_layout (pm_format m)
         @ u32_bytes (pm_version m) @ content_layout (pm_content_type m) @ field_layout (trust_value (pm_trust_profile m))
         @ field_layout (re_compression_algorithm e) @ field_layout (re_payload e))"

definition content_fits :: "pystr option \<Rightarrow> bool" where
  "content_fits content \<longleftrightarrow> (\<forall>c. content = Some c \<longrightarrow> (\<exists>b. utf8_encode c = Some b \<and> length b \<le> 1024))"

definition envelope_fits :: "result_envelope \<Rightarrow> bool" where
  "envelope_fits e \<longleftrightarrow>
     content_fits (pm_content_type (re_metadata e)) \<and> re_version e < 256 \<and> pm_version (re_metadata e) < 2 ^ 32"

lemma length_u32 [simp]: "length (u32_bytes n) = 4"
  by (simp add: u32_bytes_def)

lemma length_field_layout [simp]: "length (field_layout b) = 4 + length b"
  by (simp add: field_layout_def)

lemma characters_ascii:
  "owner_token_ok s \<Longrightarrow> list_all (\<lambda>c. c < 128) s" "algorithm_ok s \<Longrightarrow> list_all (\<lambda>c. c < 128) s"
  "list_all format_character s \<Longrightarrow> list_all (\<lambda>c. c < 128) s"
  by (auto simp: owner_token_ok_def algorithm_ok_def token_character_def algorithm_character_def
      format_character_def alphanumeric_def ustr_def list_all_iff)

lemma encoded_ascii:
  "list_all (\<lambda>c. c < 128) s \<Longrightarrow> int (length s) \<le> n \<Longrightarrow> encoded_text s f ASCII n = Inr s"
  by (simp add: encoded_text_def encode_with_def)

lemma trust_value_ascii:
  "list_all (\<lambda>c. c < 128) (trust_value t)" "1 \<le> length (trust_value t)" "length (trust_value t) \<le> 64"
  by (cases t; simp add: ustr_def)+

lemma encoded_content:
  "(case content of None \<Rightarrow> Inr None | Some c \<Rightarrow> ebind (encoded_text c f UTF8 max_content_type_size) (\<lambda>b. Inr (Some b))) = Inr r \<longleftrightarrow>
   content_fits content \<and> r = map_option (\<lambda>c. the (utf8_encode c)) content"
  by (auto simp: encoded_text_def encode_with_def content_fits_def max_content_type_size_def split: option.splits)

lemma sized_ok: "sized f = Inr r \<longleftrightarrow> int (length f) < 2 ^ 32 \<and> r = field_layout f"
  by (auto simp: sized_def u32_pack_def field_layout_def)

lemma max_u32: "max_u32_value = 4294967294"
  by (simp add: max_u32_value_def null_length_def)

lemma content_field:
  assumes "content_fits content"
  shows "(case content of None \<Rightarrow> u32_pack null_length | Some c \<Rightarrow> (sized \<circ> (\<lambda>c. the (utf8_encode c))) c)
      = Inr (content_layout content)"
    "(case content of None \<Rightarrow> 0 | Some c \<Rightarrow> ((\<lambda>c. int (length c)) \<circ> (\<lambda>c. the (utf8_encode c))) c)
      = int (length (content_layout content)) - 4"
  using assms
  by (auto simp: content_layout_def content_fits_def sized_ok u32_pack_def null_length_def split: option.split)

lemma binary_encode_layout:
  assumes "envelope_ok e" "max_size \<le> max_u32_value"
  shows "binary_encode max_size (Some e) = Inr d \<longleftrightarrow>
     envelope_fits e \<and> int (length (binary_layout e)) \<le> max_size \<and> d = binary_layout e"
proof -
  have texts: "encoded_text (re_owner_token e) f ASCII 128 = Inr (re_owner_token e)"
    "encoded_text (pm_format (re_metadata e)) f ASCII 64 = Inr (pm_format (re_metadata e))"
    "encoded_text (trust_value t) f ASCII 64 = Inr (trust_value t)"
    "encoded_text (re_compression_algorithm e) f ASCII 64 = Inr (re_compression_algorithm e)" for f t
    using assms characters_ascii trust_value_ascii
    by (auto intro!: encoded_ascii simp: envelope_ok_def metadata_ok_def owner_token_ok_def algorithm_ok_def)
  have small: "int (length (re_owner_token e)) \<le> 128" "int (length (pm_format (re_metadata e))) \<le> 64"
    "int (length (trust_value (pm_trust_profile (re_metadata e)))) \<le> 64"
    "int (length (re_compression_algorithm e)) \<le> 64" "0 < re_version e" "0 < pm_version (re_metadata e)"
    using assms(1) trust_value_ascii(3) [of "pm_trust_profile (re_metadata e)"]
    by (auto simp: envelope_ok_def metadata_ok_def owner_token_ok_def algorithm_ok_def)
  show ?thesis
  proof (cases "content_fits (pm_content_type (re_metadata e))")
    case True
    then show ?thesis
      unfolding binary_encode_def option.case texts ebind_simps ebind_eq_Inr encoded_content
      using small assms(2)
      by (auto simp: Let_def ensure_bound_def byte_append_def sized_ok u32_pack_def binary_layout_def
          content_field envelope_fits_def max_u32 bin_magic_def ustr_def)
  next
    case False
    then show ?thesis
      unfolding binary_encode_def option.case texts ebind_simps ebind_eq_Inr encoded_content
      by (auto simp: envelope_fits_def)
  qed
qed

section \<open>The cursor\<close>

text \<open>Between the positions \<open>c\<close> and \<open>c'\<close> lie the bytes \<open>b\<close>.\<close>

definition reads :: "pybytes \<Rightarrow> nat \<Rightarrow> pybytes \<Rightarrow> nat \<Rightarrow> bool" where
  "reads data c b c' \<longleftrightarrow> c' = c + length b \<and> c' \<le> length data \<and> take (length b) (drop c data) = b"

lemma reads_end: "reads data c b c' \<Longrightarrow> c' \<le> length data"
  by (simp add: reads_def)

lemma reads_bytes: "reads data c b c' \<Longrightarrow> bytes_ok data \<Longrightarrow> bytes_ok b"
  unfolding reads_def bytes_ok_def list_all_iff by (metis in_set_dropD in_set_takeD)

lemma reads_append: "reads data c (a @ b) c' \<longleftrightarrow> (\<exists>m. reads data c a m \<and> reads data m b c')"
  by (auto simp: reads_def take_add add.commute add.left_commute)

lemma reads_Cons: "reads data c (x # b) c' \<longleftrightarrow> (\<exists>m. reads data c [x] m \<and> reads data m b c')"
  using reads_append [of data c "[x]" b c'] by simp

lemma reads_all: "reads data 0 b (length data) \<longleftrightarrow> b = data"
  by (auto simp: reads_def)

lemma take_bytes_reads:
  "c \<le> length data \<Longrightarrow> take_bytes data c sz = Inr (b, c') \<longleftrightarrow> reads data c b c' \<and> int (length b) = sz"
  by (auto simp: take_bytes_def reads_def Let_def min_def)

lemma horner:
  "n = q1 * 256 + r0 \<Longrightarrow> q1 = q2 * 256 + r1 \<Longrightarrow> q2 = q3 * 256 + r2 \<Longrightarrow>
   16777216 * q3 + 65536 * r2 + 256 * r1 + r0 = (n :: int)"
  by simp

lemma unpack4:
  "0 \<le> a \<Longrightarrow> 0 \<le> b \<Longrightarrow> 0 \<le> c \<Longrightarrow> 0 \<le> d \<Longrightarrow>
   u32_unpack (map nat [a, b, c, d]) = 16777216 * a + 65536 * b + 256 * c + d"
  by (simp add: u32_unpack_def)

lemma u32_unpack_bytes:
  assumes "bytes_ok b" "length b = 4"
  shows "u32_unpack b = n \<longleftrightarrow> 0 \<le> n \<and> n < 2 ^ 32 \<and> b = u32_bytes n"
proof -
  obtain x y z w where b: "b = [x, y, z, w]" using assms(2) by (auto simp: length_Suc_conv numeral_eq_Suc)
  then have lt: "x < 256" "y < 256" "z < 256" "w < 256" using assms(1) by (simp_all add: bytes_ok_def)
  have u: "u32_unpack b = 256 * (256 * (256 * int x + int y) + int z) + int w" by (simp add: b u32_unpack_def)
  have low: "(256 * m + int k) mod 256 = int k" "(256 * m + int k) div 256 = m" if "k < 256" for m k
    using that by simp_all
  have "u32_bytes (u32_unpack b) = b"
  proof -
    have d: "u32_unpack b div 256 = 256 * (256 * int x + int y) + int z" "u32_unpack b mod 256 = int w"
      unfolding u by (rule low [OF lt(4)])+
    have d2: "u32_unpack b div 65536 = 256 * int x + int y" "u32_unpack b div 256 mod 256 = int z"
      using low [OF lt(3), of "256 * int x + int y"] zdiv_zmult2_eq [of 256 "u32_unpack b" 256] by (simp_all add: d)
    have e: "u32_unpack b div 16777216 = int x" "u32_unpack b div 65536 mod 256 = int y"
      using low [OF lt(2), of "int x"] zdiv_zmult2_eq [of 256 "u32_unpack b" 65536] by (simp_all add: d2)
    show ?thesis unfolding u32_bytes_def e d2(2) d(2) list.map nat_int by (rule b [symmetric])
  qed
  moreover have "0 \<le> u32_unpack b \<and> u32_unpack b < 2 ^ 32" using lt by (simp add: u)
  moreover have "u32_unpack (u32_bytes n) = n" if "0 \<le> n" "n < 2 ^ 32"
  proof -
    have h: "n = n div 256 * 256 + n mod 256" "n div 256 = n div 65536 * 256 + n div 256 mod 256"
      "n div 65536 = n div 16777216 * 256 + n div 65536 mod 256"
      using zdiv_zmult2_eq [of 256 n 256] zdiv_zmult2_eq [of 256 n 65536]
        mult_div_mod_eq [of 256 "n div 256"] mult_div_mod_eq [of 256 "n div 65536"] by simp_all
    have "16777216 * (n div 16777216) + 65536 * (n div 65536 mod 256) + 256 * (n div 256 mod 256) + n mod 256 = n"
      by (rule horner [OF h])
    moreover have "u32_unpack (u32_bytes n) =
        16777216 * (n div 16777216) + 65536 * (n div 65536 mod 256) + 256 * (n div 256 mod 256) + n mod 256"
      unfolding u32_bytes_def using that(1)
      by (intro unpack4) (simp_all only: pos_imp_zdiv_nonneg_iff pos_mod_sign zero_less_numeral)
    ultimately show ?thesis by (rule trans [rotated])
  qed
  ultimately show ?thesis by metis
qed

lemma read_u32_reads:
  assumes "bytes_ok data" "c \<le> length data"
  shows "read_u32 data c = Inr (n, c') \<longleftrightarrow> 0 \<le> n \<and> n < 2 ^ 32 \<and> reads data c (u32_bytes n) c'"
proof -
  have "u32_unpack raw = n \<longleftrightarrow> 0 \<le> n \<and> n < 2 ^ 32 \<and> raw = u32_bytes n"
    if "reads data c raw c'" "length raw = 4" for raw
    using u32_unpack_bytes [OF reads_bytes [OF that(1) assms(1)] that(2)] .
  moreover have "read_u32 data c = Inr (n, c') \<longleftrightarrow> (\<exists>raw. reads data c raw c' \<and> length raw = 4 \<and> u32_unpack raw = n)"
    by (auto simp: read_u32_def take_bytes_reads [OF assms(2)])
  ultimately show ?thesis by (metis length_u32)
qed

lemma read_text_reads:
  assumes "bytes_ok data" "c \<le> length data" "maximum < 2 ^ 32"
  shows "read_required_text data c ASCII maximum = Inr (s, c') \<longleftrightarrow>
     list_all (\<lambda>x. x < 128) s \<and> 1 \<le> length s \<and> int (length s) \<le> maximum \<and> reads data c (field_layout s) c'"
proof -
  have "read_required_text data c ASCII maximum = Inr (s, c') \<longleftrightarrow>
     (\<exists>n m. read_u32 data c = Inr (n, m) \<and> 1 \<le> n \<and> n \<le> maximum \<and> take_bytes data m n = Inr (s, c')
        \<and> list_all (\<lambda>x. x < 128) s)"
    by (auto simp: read_required_text_def decode_with_def split: if_splits option.splits)
  also have "\<dots> \<longleftrightarrow> (\<exists>n m. 0 \<le> n \<and> n < 2 ^ 32 \<and> reads data c (u32_bytes n) m \<and> 1 \<le> n \<and> n \<le> maximum
      \<and> reads data m s c' \<and> int (length s) = n \<and> list_all (\<lambda>x. x < 128) s)"
    unfolding read_u32_reads [OF assms(1,2)] using take_bytes_reads reads_end by blast
  also have "\<dots> \<longleftrightarrow> (\<exists>m. int (length s) < 2 ^ 32 \<and> reads data c (u32_bytes (int (length s))) m \<and> 1 \<le> length s
      \<and> int (length s) \<le> maximum \<and> reads data m s c' \<and> list_all (\<lambda>x. x < 128) s)"
    (is "?l \<longleftrightarrow> ?r")
  proof
    assume ?r
    then obtain m where "int (length s) < 2 ^ 32" "reads data c (u32_bytes (int (length s))) m" "1 \<le> length s"
      "int (length s) \<le> maximum" "reads data m s c'" "list_all (\<lambda>x. x < 128) s" by blast
    then show ?l by (intro exI [of _ "int (length s)"] exI [of _ m]) simp
  qed force
  finally show ?thesis
    using assms(3) by (auto simp: field_layout_def reads_append)
qed

lemma utf8_decode_iff: "bytes_ok b \<Longrightarrow> utf8_decode b = Some s \<longleftrightarrow> str_ok s \<and> utf8_encode s = Some b"
  using utf8_decode_encode utf8_encode_decode by blast

lemma read_content_reads:
  assumes "bytes_ok data" "c \<le> length data"
  shows "read_content_type data c = Inr (content, c') \<longleftrightarrow>
     content_fits content \<and> (\<forall>s. content = Some s \<longrightarrow> str_ok s) \<and> reads data c (content_layout content) c'"
proof (cases content)
  case None
  have "read_content_type data c = Inr (content, c') \<longleftrightarrow> read_u32 data c = Inr (null_length, c')"
    by (auto simp: read_content_type_def None split: option.splits if_splits)
  then show ?thesis
    by (simp add: None read_u32_reads [OF assms] content_fits_def content_layout_def null_length_def)
next
  case (Some s)
  have "read_content_type data c = Inr (content, c') \<longleftrightarrow>
     (\<exists>n m b. read_u32 data c = Inr (n, m) \<and> n \<le> 1024 \<and> take_bytes data m n = Inr (b, c') \<and> utf8_decode b = Some s)"
    (is "_ \<longleftrightarrow> ?r")
  proof
    assume ?r
    then obtain n m b where "read_u32 data c = Inr (n, m)" "n \<le> 1024" "take_bytes data m n = Inr (b, c')" "utf8_decode b = Some s"
      by blast
    then show "read_content_type data c = Inr (content, c')"
      by (simp add: read_content_type_def Some null_length_def max_content_type_size_def)
  qed (auto simp: read_content_type_def Some null_length_def max_content_type_size_def split: option.splits if_splits)
  also have "\<dots> \<longleftrightarrow> (\<exists>n m b. 0 \<le> n \<and> n < 2 ^ 32 \<and> reads data c (u32_bytes n) m \<and> n \<le> 1024 \<and> reads data m b c'
      \<and> int (length b) = n \<and> utf8_decode b = Some s)"
    unfolding read_u32_reads [OF assms] using take_bytes_reads reads_end by blast
  also have "\<dots> \<longleftrightarrow> (\<exists>n m b. 0 \<le> n \<and> n < 2 ^ 32 \<and> reads data c (u32_bytes n) m \<and> n \<le> 1024 \<and> reads data m b c'
      \<and> int (length b) = n \<and> str_ok s \<and> utf8_encode s = Some b)"
    using utf8_decode_iff reads_bytes assms(1) by blast
  also have "\<dots> \<longleftrightarrow> (\<exists>m b. reads data c (u32_bytes (int (length b))) m \<and> length b \<le> 1024 \<and> reads data m b c'
      \<and> str_ok s \<and> utf8_encode s = Some b)"
    (is "?l \<longleftrightarrow> ?r")
  proof
    assume ?r
    then obtain m b where "reads data c (u32_bytes (int (length b))) m" "length b \<le> 1024" "reads data m b c'"
      "str_ok s" "utf8_encode s = Some b" by blast
    then show ?l by (intro exI [of _ "int (length b)"] exI [of _ m] exI [of _ b]) simp
  qed force
  finally show ?thesis
    by (auto simp: Some content_fits_def content_layout_def field_layout_def reads_append)
qed

section \<open>The decoder reads what the encoder writes\<close>

lemma metadata_new_iff:
  "payload_metadata_new (PyStr f) (PyInt n) (case content of None \<Rightarrow> PyNone | Some c \<Rightarrow> PyStr c) (Some t) = Inr m \<longleftrightarrow>
     1 \<le> length f \<and> length f \<le> 64 \<and> list_all format_character f \<and> 0 < n
     \<and> m = \<lparr>pm_format = f, pm_version = n, pm_content_type = content, pm_trust_profile = t\<rparr>"
  by (auto simp: payload_metadata_new_def split: option.splits)

lemma envelope_new_iff:
  "result_envelope_new (PyInt n) (PyStr owner) (Some m) (PyStr a) (PyBytes b) = Inr e \<longleftrightarrow>
     0 < n \<and> owner_token_ok owner \<and> algorithm_ok a
     \<and> e = \<lparr>re_version = n, re_owner_token = owner, re_metadata = m, re_compression_algorithm = a, re_payload = b\<rparr>"
  by (auto simp: result_envelope_new_def validate_owner_token_ok validate_algorithm_ok)

lemma trust_profile_of_iff: "trust_profile_of v = Inr t \<longleftrightarrow> v = trust_value t"
  by (cases t) (auto simp: trust_profile_of_def ustr_def)

definition decodable :: "result_envelope \<Rightarrow> bool" where
  "decodable e \<longleftrightarrow> envelope_ok e \<and> re_version e = 1 \<and> envelope_fits e \<and> int (length (re_payload e)) < 2 ^ 32"

lemma read_payload_reads:
  assumes "bytes_ok data" "c \<le> length data"
  shows "(\<exists>n m. read_u32 data c = Inr (n, m) \<and> take_bytes data m n = Inr (b, c')) \<longleftrightarrow>
     int (length b) < 2 ^ 32 \<and> reads data c (field_layout b) c'"
proof -
  have "(\<exists>n m. read_u32 data c = Inr (n, m) \<and> take_bytes data m n = Inr (b, c')) \<longleftrightarrow>
      (\<exists>n m. 0 \<le> n \<and> n < 2 ^ 32 \<and> reads data c (u32_bytes n) m \<and> reads data m b c' \<and> int (length b) = n)"
    unfolding read_u32_reads [OF assms] using take_bytes_reads reads_end by blast
  also have "\<dots> \<longleftrightarrow> (\<exists>m. int (length b) < 2 ^ 32 \<and> reads data c (u32_bytes (int (length b))) m \<and> reads data m b c')"
    (is "?l \<longleftrightarrow> ?r")
  proof
    assume ?r
    then obtain m where "int (length b) < 2 ^ 32" "reads data c (u32_bytes (int (length b))) m" "reads data m b c'"
      by blast
    then show ?l by (intro exI [of _ "int (length b)"] exI [of _ m]) simp
  qed force
  finally show ?thesis by (auto simp: field_layout_def reads_append)
qed

lemma binary_body_sound:
  assumes data: "bytes_ok data" and body: "binary_body data = Inr e"
  shows "decodable e \<and> binary_layout e = data"
proof -
  from body obtain c1 c2 c3 c4 c5 c6 c7 c8 c9 c10 vb owner fmt sv content trust alg n payload t m
    where r1: "take_bytes data 0 4 = Inr (bin_magic, c1)" and r2: "take_bytes data c1 1 = Inr (vb, c2)" "int (hd vb) = 1"
    and r3: "read_required_text data c2 ASCII 128 = Inr (owner, c3)"
    and r4: "read_required_text data c3 ASCII 64 = Inr (fmt, c4)"
    and r5: "read_u32 data c4 = Inr (sv, c5)"
    and r6: "read_content_type data c5 = Inr (content, c6)"
    and r7: "read_required_text data c6 ASCII 64 = Inr (trust, c7)"
    and r8: "read_required_text data c7 ASCII 64 = Inr (alg, c8)"
    and r9: "read_u32 data c8 = Inr (n, c9)" "take_bytes data c9 n = Inr (payload, length data)"
    and new: "trust_profile_of trust = Inr t"
      "payload_metadata_new (PyStr fmt) (PyInt sv) (case content of None \<Rightarrow> PyNone | Some c \<Rightarrow> PyStr c) (Some t) = Inr m"
      "result_envelope_new (PyInt 1) (PyStr owner) (Some m) (PyStr alg) (PyBytes payload) = Inr e"
    by (auto simp: binary_body_def bin_version_def Let_def split: if_splits prod.splits)
  have s1: "reads data 0 bin_magic c1" using r1 by (simp add: take_bytes_reads)
  have s2: "reads data c1 [1] c2"
  proof -
    have "reads data c1 vb c2" "length vb = 1" using r2 reads_end [OF s1] by (simp_all add: take_bytes_reads)
    then show ?thesis using r2(2) by (cases vb) auto
  qed
  have s3: "reads data c2 (field_layout owner) c3"
    using r3 reads_end [OF s2] by (simp add: read_text_reads [OF data])
  have s4: "reads data c3 (field_layout fmt) c4"
    using r4 reads_end [OF s3] by (simp add: read_text_reads [OF data])
  have s5: "reads data c4 (u32_bytes sv) c5" "sv < 2 ^ 32"
    using r5 reads_end [OF s4] by (simp_all add: read_u32_reads [OF data])
  have s6: "reads data c5 (content_layout content) c6" "content_fits content" "\<forall>s. content = Some s \<longrightarrow> str_ok s"
    using r6 reads_end [OF s5(1)] by (simp_all add: read_content_reads [OF data])
  have s7: "reads data c6 (field_layout trust) c7"
    using r7 reads_end [OF s6(1)] by (simp add: read_text_reads [OF data])
  have s8: "reads data c7 (field_layout alg) c8"
    using r8 reads_end [OF s7] by (simp add: read_text_reads [OF data])
  have s9: "int (length payload) < 2 ^ 32" "reads data c8 (field_layout payload) (length data)"
    using r9 read_payload_reads [OF data reads_end [OF s8]] by blast+
  have e: "e = \<lparr>re_version = 1, re_owner_token = owner, re_metadata = m, re_compression_algorithm = alg, re_payload = payload\<rparr>"
    "owner_token_ok owner" "algorithm_ok alg"
    and m: "m = \<lparr>pm_format = fmt, pm_version = sv, pm_content_type = content, pm_trust_profile = t\<rparr>"
    "1 \<le> length fmt" "length fmt \<le> 64" "list_all format_character fmt" "0 < sv" and t: "trust = trust_value t"
    using new by (auto simp: metadata_new_iff envelope_new_iff trust_profile_of_iff)
  have "reads data 0 (binary_layout e) (length data)"
    unfolding binary_layout_def e m t [symmetric] Let_def using s1 s2 s3 s4 s5(1) s6(1) s7 s8 s9(2)
    by (auto simp: reads_append t [symmetric] simp del: append_Cons append_Nil intro!: exI)
  moreover have "bytes_ok payload"
    using reads_bytes [OF s9(2) data] by (simp add: field_layout_def bytes_ok_def)
  ultimately show ?thesis
    using e m s5(2) s6(2,3) s9(1)
    by (simp add: reads_all decodable_def envelope_ok_def metadata_ok_def envelope_fits_def)
qed

lemma bytes_ok_append [simp]: "bytes_ok (a @ b) \<longleftrightarrow> bytes_ok a \<and> bytes_ok b"
  by (simp add: bytes_ok_def)

lemma bytes_ok_u32: "0 \<le> n \<Longrightarrow> n < 2 ^ 32 \<Longrightarrow> bytes_ok (u32_bytes n)"
  by (simp add: u32_bytes_def bytes_ok_def nat_less_iff pos_imp_zdiv_nonneg_iff div_less_iff_less_mult)

lemma bytes_ok_field: "bytes_ok b \<Longrightarrow> int (length b) < 2 ^ 32 \<Longrightarrow> bytes_ok (field_layout b)"
  by (simp add: field_layout_def bytes_ok_u32)

lemma bytes_ok_ascii: "list_all (\<lambda>c. c < 128) b \<Longrightarrow> bytes_ok b"
  by (auto simp: bytes_ok_def list_all_iff)

lemma bytes_ok_content:
  assumes "content_fits content" "\<forall>s. content = Some s \<longrightarrow> str_ok s"
  shows "bytes_ok (content_layout content)"
proof (cases content)
  case None
  then show ?thesis by (simp add: content_layout_def bytes_ok_u32 null_length_def)
next
  case (Some s)
  then obtain b where "utf8_encode s = Some b" "length b \<le> 1024" "str_ok s"
    using assms by (auto simp: content_fits_def)
  moreover from this have "bytes_ok b" using utf8_encode_decode utf8_decode_encode by blast
  ultimately show ?thesis by (simp add: Some content_layout_def bytes_ok_field)
qed

lemma bytes_ok_text: "list_all (\<lambda>c. c < 128) b \<Longrightarrow> length b \<le> 128 \<Longrightarrow> bytes_ok (field_layout b)"
  by (intro bytes_ok_field bytes_ok_ascii) auto

lemma bytes_ok_layout:
  assumes "decodable e"
  shows "bytes_ok (binary_layout e)"
proof -
  let ?m = "re_metadata e"
  have ok: "owner_token_ok (re_owner_token e)" "algorithm_ok (re_compression_algorithm e)" "metadata_ok ?m"
    "content_fits (pm_content_type ?m)" "pm_version ?m < 2 ^ 32" "re_version e = 1"
    "int (length (re_payload e)) < 2 ^ 32" "bytes_ok (re_payload e)"
    using assms by (simp_all add: decodable_def envelope_ok_def envelope_fits_def)
  have "bytes_ok (field_layout (re_owner_token e))" "bytes_ok (field_layout (re_compression_algorithm e))"
    "bytes_ok (field_layout (pm_format ?m))" "bytes_ok (field_layout (trust_value (pm_trust_profile ?m)))"
    using ok(1-3) characters_ascii trust_value_ascii [of "pm_trust_profile ?m"]
    by (auto intro!: bytes_ok_text simp: owner_token_ok_def algorithm_ok_def metadata_ok_def)
  moreover have "bytes_ok (field_layout (re_payload e))" using ok by (simp add: bytes_ok_field)
  moreover have "bytes_ok (content_layout (pm_content_type ?m))" using ok by (simp add: bytes_ok_content metadata_ok_def)
  moreover have "bytes_ok (u32_bytes (pm_version ?m))" using ok by (simp add: bytes_ok_u32 metadata_ok_def)
  moreover have "bytes_ok bin_magic" "bytes_ok [nat (re_version e)]" using ok by (simp_all add: bytes_ok_def bin_magic_def ustr_def)
  ultimately show ?thesis unfolding binary_layout_def Let_def bytes_ok_append by blast
qed

lemma reads_splitE:
  assumes "reads data c (a @ b) c'"
  obtains m where "reads data c a m" "reads data m b c'"
  using assms by (auto simp: reads_append)

lemma binary_body_complete:
  assumes dec: "decodable e"
  shows "binary_body (binary_layout e) = Inr e"
proof -
  let ?m = "re_metadata e" and ?data = "binary_layout e"
  let ?trust = "trust_value (pm_trust_profile ?m)"
  have data: "bytes_ok ?data" by (rule bytes_ok_layout [OF dec])
  have ok: "owner_token_ok (re_owner_token e)" "algorithm_ok (re_compression_algorithm e)" "metadata_ok ?m"
    "content_fits (pm_content_type ?m)" "pm_version ?m < 2 ^ 32" "re_version e = 1"
    "int (length (re_payload e)) < 2 ^ 32"
    using dec by (simp_all add: decodable_def envelope_ok_def envelope_fits_def)
  have all: "reads ?data 0 (bin_magic @ [1] @ field_layout (re_owner_token e) @ field_layout (pm_format ?m)
         @ u32_bytes (pm_version ?m) @ content_layout (pm_content_type ?m) @ field_layout ?trust
         @ field_layout (re_compression_algorithm e) @ field_layout (re_payload e)) (length ?data)"
    by (simp only: reads_all) (simp add: binary_layout_def ok(6) Let_def)
  obtain c1 c2 c3 c4 c5 c6 c7 c8
    where s1: "reads ?data 0 bin_magic c1" and s2: "reads ?data c1 [1] c2"
    and s3: "reads ?data c2 (field_layout (re_owner_token e)) c3" and s4: "reads ?data c3 (field_layout (pm_format ?m)) c4"
    and s5: "reads ?data c4 (u32_bytes (pm_version ?m)) c5" and s6: "reads ?data c5 (content_layout (pm_content_type ?m)) c6"
    and s7: "reads ?data c6 (field_layout ?trust) c7" and s8: "reads ?data c7 (field_layout (re_compression_algorithm e)) c8"
    and s9: "reads ?data c8 (field_layout (re_payload e)) (length ?data)"
    using all by (elim reads_splitE)
  note ends = s1 [THEN reads_end] s2 [THEN reads_end] s3 [THEN reads_end] s4 [THEN reads_end] s5 [THEN reads_end]
    s6 [THEN reads_end] s7 [THEN reads_end] s8 [THEN reads_end]
  have "take_bytes ?data 0 4 = Inr (bin_magic, c1)" "take_bytes ?data c1 1 = Inr ([1], c2)"
    using s1 s2 ends by (simp_all add: take_bytes_reads bin_magic_def ustr_def)
  moreover have "read_required_text ?data c2 ASCII 128 = Inr (re_owner_token e, c3)"
    "read_required_text ?data c3 ASCII 64 = Inr (pm_format ?m, c4)"
    "read_required_text ?data c6 ASCII 64 = Inr (?trust, c7)"
    "read_required_text ?data c7 ASCII 64 = Inr (re_compression_algorithm e, c8)"
    using s3 s4 s7 s8 ends ok characters_ascii trust_value_ascii [of "pm_trust_profile ?m"]
    by (simp_all add: read_text_reads [OF data] owner_token_ok_def algorithm_ok_def metadata_ok_def)
  moreover have "read_u32 ?data c4 = Inr (pm_version ?m, c5)"
    using s5 ends ok by (simp add: read_u32_reads [OF data] metadata_ok_def)
  moreover have "read_content_type ?data c5 = Inr (pm_content_type ?m, c6)"
    using s6 ends ok by (simp add: read_content_reads [OF data] metadata_ok_def)
  moreover obtain n c9 where "read_u32 ?data c8 = Inr (n, c9)" "take_bytes ?data c9 n = Inr (re_payload e, length ?data)"
    using read_payload_reads [OF data ends(8)] s9 ok(7) by blast
  moreover have "trust_profile_of ?trust = Inr (pm_trust_profile ?m)" by (simp add: trust_profile_of_iff)
  moreover have "payload_metadata_new (PyStr (pm_format ?m)) (PyInt (pm_version ?m))
      (case pm_content_type ?m of None \<Rightarrow> PyNone | Some c \<Rightarrow> PyStr c) (Some (pm_trust_profile ?m)) = Inr ?m"
    using ok(3) by (simp add: metadata_new_iff metadata_ok_def)
  moreover have "result_envelope_new (PyInt 1) (PyStr (re_owner_token e)) (Some ?m) (PyStr (re_compression_algorithm e))
      (PyBytes (re_payload e)) = Inr e"
    using ok by (simp add: envelope_new_iff)
  ultimately show ?thesis by (simp add: binary_body_def bin_version_def Let_def)
qed

section \<open>Errors of the decoder\<close>

definition decode_failure :: "rc_exn \<Rightarrow> bool" where
  "decode_failure e \<longleftrightarrow> e = malformed \<or> e = EnvelopeDecodeError UNSUPPORTED_VERSION"

lemma take_bytes_error: "take_bytes data c n = Inl e \<Longrightarrow> e = malformed"
  by (auto simp: take_bytes_def Let_def split: if_splits)

lemma read_u32_error: "read_u32 data c = Inl e \<Longrightarrow> e = malformed"
  by (auto simp: read_u32_def ebind_eq_Inl dest: take_bytes_error)

lemma read_text_error: "read_required_text data c enc m = Inl e \<Longrightarrow> e = malformed"
  by (auto simp: read_required_text_def ebind_eq_Inl dest: take_bytes_error read_u32_error split: if_splits option.splits)

lemma read_content_error: "read_content_type data c = Inl e \<Longrightarrow> e = malformed"
  by (auto simp: read_content_type_def ebind_eq_Inl dest: take_bytes_error read_u32_error split: if_splits option.splits)

definition constructor_error :: "rc_exn \<Rightarrow> bool" where
  "constructor_error e \<longleftrightarrow> is_type_or_value_error e \<and> \<not> is_envelope_error e"

lemma constructor_errors:
  "trust_profile_of v = Inl e \<Longrightarrow> constructor_error e"
  "payload_metadata_new f n c t = Inl e \<Longrightarrow> constructor_error e"
  "result_envelope_new n' owner m a b = Inl e \<Longrightarrow> constructor_error e"
  by (auto simp: constructor_error_def trust_profile_of_def payload_metadata_new_def result_envelope_new_def validate_owner_token_def
      validate_algorithm_def ebind_eq_Inl split: if_splits pyval.splits option.splits)

lemma binary_body_error:
  assumes "binary_body data = Inl e"
  shows "decode_failure e \<or> constructor_error e"
  using assms unfolding binary_body_def ebind_eq_Inl
  by (auto simp: ebind_eq_Inl Let_def decode_failure_def split: if_splits
      dest: take_bytes_error read_u32_error read_text_error read_content_error constructor_errors)

lemma binary_decode_error:
  assumes "binary_decode max_size (PyBytes data) = Inl e"
  shows "e = EnvelopeSizeError ENCODED_SIZE_LIMIT \<and> max_size < int (length data) \<or> decode_failure e \<and> int (length data) \<le> max_size"
proof (cases "int (length data) > max_size")
  case True
  with assms show ?thesis by (simp add: binary_decode_def ensure_bound_def)
next
  case False
  then obtain e' where "binary_body data = Inl e'" "as_malformed (Inl e' :: rc_exn + result_envelope) = Inl e"
    using assms by (cases "binary_body data") (auto simp: binary_decode_def ensure_bound_def as_malformed_def)
  then show ?thesis
    using binary_body_error [of data e'] False
    by (cases e') (auto simp: as_malformed_def decode_failure_def malformed_def constructor_error_def)
qed

lemma binary_envelope_read:
  assumes "max_size \<le> max_u32_value" and e: "envelope_ok e" "re_version e = 1"
    and enc: "binary_encode max_size (Some e) = Inr data"
  shows "bytes_ok data \<and> binary_decode max_size (PyBytes data) = Inr e"
proof -
  have d: "envelope_fits e" "int (length (binary_layout e)) \<le> max_size" "data = binary_layout e"
    using binary_encode_layout [OF e(1) assms(1)] enc by blast+
  moreover have "length (re_payload e) \<le> length (binary_layout e)" by (simp add: binary_layout_def Let_def)
  ultimately have "decodable e" using e assms(1) by (simp add: decodable_def max_u32)
  then show ?thesis
    using d(2,3) by (simp add: bytes_ok_layout binary_decode_def ensure_bound_def binary_body_complete as_malformed_def)
qed

lemma binary_envelope_written:
  assumes "max_size \<le> max_u32_value" and data: "bytes_ok data" and dec: "binary_decode max_size (PyBytes data) = Inr e"
  shows "envelope_ok e \<and> re_version e = 1 \<and> binary_encode max_size (Some e) = Inr data"
proof -
  have "int (length data) \<le> max_size" "binary_body data = Inr e"
    using dec by (auto simp: binary_decode_def ensure_bound_def as_malformed_def split: if_splits sum.splits rc_exn.splits)
  moreover from this have "decodable e" "binary_layout e = data" using binary_body_sound [OF data] by blast+
  ultimately show ?thesis using binary_encode_layout [of e max_size data] assms(1) by (auto simp: decodable_def)
qed

section \<open>Properties\<close>

text \<open>
  C24: the binary format is a bijection: what the encoder writes for an envelope of version 1 is decoded
  to that envelope, and a byte string that the decoder accepts is a valid envelope and the only encoding
  of it, so that no two byte strings stand for the same result.
\<close>

theorem binary_envelope_bijection:
  assumes "max_size \<le> max_u32_value"
  shows "(\<forall>e data. envelope_ok e \<longrightarrow> re_version e = 1 \<longrightarrow> binary_encode max_size (Some e) = Inr data \<longrightarrow>
        bytes_ok data \<and> binary_decode max_size (PyBytes data) = Inr e)
     \<and> (\<forall>data e. bytes_ok data \<longrightarrow> binary_decode max_size (PyBytes data) = Inr e \<longrightarrow>
        envelope_ok e \<and> re_version e = 1 \<and> binary_encode max_size (Some e) = Inr data)"
  using binary_envelope_read [OF assms] binary_envelope_written [OF assms] by blast

definition demo_envelope :: result_envelope where
  "demo_envelope =
     \<lparr>re_version = 1, re_owner_token = ustr ''o1'',
      re_metadata = \<lparr>pm_format = ustr ''json'', pm_version = 1, pm_content_type = Some [233], pm_trust_profile = UNTRUSTED\<rparr>,
      re_compression_algorithm = ustr ''identity'', re_payload = [255, 0]\<rparr>"

definition demo_envelope_bytes :: pybytes where
  "demo_envelope_bytes =
    [66, 84, 82, 69, 1, 0, 0, 0, 2, 111, 49, 0, 0, 0, 4, 106, 115, 111, 110, 0, 0, 0, 1, 0, 0, 0, 2, 195,
     169, 0, 0, 0, 9, 117, 110, 116, 114, 117, 115, 116, 101, 100, 0, 0, 0, 8, 105, 100, 101, 110, 116,
     105, 116, 121, 0, 0, 0, 2, 255, 0]"

lemma demo_envelope_ok: "envelope_ok demo_envelope"
  by (simp add: envelope_ok_def demo_envelope_def owner_token_ok_def metadata_ok_def algorithm_ok_def
      token_character_def algorithm_character_def format_character_def alphanumeric_def ustr_def bytes_ok_def str_ok_def)

lemma binary_envelope_bijection_witness:
  "binary_encode 1000 (Some demo_envelope) = Inr demo_envelope_bytes
   \<and> binary_decode 1000 (PyBytes demo_envelope_bytes) = Inr demo_envelope"
proof -
  have layout: "binary_layout demo_envelope = demo_envelope_bytes"
    by (simp add: binary_layout_def field_layout_def content_layout_def u32_bytes_def utf8_encode_def utf8_char_def
        surrogate_def demo_envelope_def demo_envelope_bytes_def bin_magic_def ustr_def)
  have max: "(1000 :: int) \<le> max_u32_value" by (simp add: max_u32)
  have "envelope_fits demo_envelope" "int (length demo_envelope_bytes) \<le> 1000"
    by (simp_all add: envelope_fits_def content_fits_def utf8_encode_def utf8_char_def surrogate_def
        demo_envelope_def demo_envelope_bytes_def)
  then have enc: "binary_encode 1000 (Some demo_envelope) = Inr demo_envelope_bytes"
    using binary_encode_layout [OF demo_envelope_ok max] layout by simp
  have v: "re_version demo_envelope = 1" by (simp add: demo_envelope_def)
  have "binary_decode 1000 (PyBytes demo_envelope_bytes) = Inr demo_envelope"
    using conjunct1 [OF binary_envelope_bijection [OF max]] enc v demo_envelope_ok by blast
  with enc show ?thesis by blast
qed

text \<open>
  whatever the bytes, the binary decoder fails only as documented: with the size error if they are
  longer than the bound, before it looks at them, and otherwise with a decode error for a malformed
  envelope or an unsupported version; no error of the struct, text or metadata layers escapes.
\<close>

theorem binary_decode_failures:
  "binary_decode max_size (PyBytes data) = Inl e \<Longrightarrow>
     max_size < int (length data) \<and> e = EnvelopeSizeError ENCODED_SIZE_LIMIT
     \<or> int (length data) \<le> max_size
       \<and> (e = EnvelopeDecodeError MALFORMED_ENVELOPE \<or> e = EnvelopeDecodeError UNSUPPORTED_VERSION)"
  using binary_decode_error [of max_size data e] by (auto simp: decode_failure_def malformed_def)

lemma binary_decode_failures_witness:
  "\<exists>e. binary_decode 100 (PyBytes (ustr ''BTRE'' @ [2])) = Inl e
     \<and> (e = EnvelopeDecodeError MALFORMED_ENVELOPE \<or> e = EnvelopeDecodeError UNSUPPORTED_VERSION)"
proof -
  have "binary_decode 100 (PyBytes (ustr ''BTRE'' @ [2])) = Inl (EnvelopeDecodeError UNSUPPORTED_VERSION)" by code_simp
  from binary_decode_failures [OF this] this show ?thesis by (simp add: ustr_def)
qed

end
