(* ===== verification/Envelope_Codec.thy ===== *)
theory Envelope_Codec
  imports Binary_Format
begin

text \<open>
  \<open>bluetape.cache.redis._envelope\<close>: the codec that composes a payload codec, an envelope format and
  compressors, all three of the caller.

  Their methods are effectful code over the caller's state \<open>'w\<close> (\<open>act\<close>). What a method returns is
  inspected by the codec: \<open>pyval\<close> where bytes are expected, \<open>None\<close> where an instance of a class of the
  package is expected and something else comes back. The fields of an envelope that a foreign format
  returns are checked again, so they are \<open>pyval\<close>s (\<open>envelope_object\<close>).
\<close>

section \<open>Collaborators\<close>

record 'w compressor =
  cm_algorithm :: "('w, rc_exn, pyval) act"
  cm_compress :: "pybytes \<Rightarrow> ('w, rc_exn, pyval) act"
  cm_decompress :: "pybytes \<Rightarrow> ('w, rc_exn, pyval) act"

record ('w, 'v) payload_codec =
  pc_encode :: "'v \<Rightarrow> ('w, rc_exn, serialized_payload option) act"
  pc_decode :: "serialized_payload \<Rightarrow> ('w, rc_exn, 'v) act"

record envelope_object =
  eo_version :: pyval
  eo_owner_token :: pyval
  eo_metadata :: "payload_metadata option"
  eo_compression_algorithm :: pyval
  eo_payload :: pyval

text \<open>\<open>ef_bound\<close>: the size limit of one of the two built-in formats.\<close>

record 'w envelope_format =
  ef_bound :: "int option"
  ef_encode :: "result_envelope \<Rightarrow> ('w, rc_exn, pyval) act"
  ef_decode :: "pybytes \<Rightarrow> ('w, rc_exn, envelope_object option) act"

definition envelope_fields :: "result_envelope \<Rightarrow> envelope_object" where
  "envelope_fields e =
     \<lparr>eo_version = PyInt (re_version e), eo_owner_token = PyStr (re_owner_token e), eo_metadata = Some (re_metadata e),
      eo_compression_algorithm = PyStr (re_compression_algorithm e), eo_payload = PyBytes (re_payload e)\<rparr>"

definition binary_format :: "int \<Rightarrow> 'w envelope_format" where
  "binary_format max_encoded_size =
     \<lparr>ef_bound = Some max_encoded_size,
      ef_encode = (\<lambda>e. lift (ebind (binary_encode max_encoded_size (Some e)) (\<lambda>b. Inr (PyBytes b)))),
      ef_decode = (\<lambda>data. lift (ebind (binary_decode max_encoded_size (PyBytes data)) (\<lambda>e. Inr (Some (envelope_fields e)))))\<rparr>"

section \<open>The reader registry\<close>

definition algorithm_for :: "'w compressor \<Rightarrow> ('w, rc_exn, pystr) act" where
  "algorithm_for compressor =
     act_bind
       (try_except (cm_algorithm compressor) (\<lambda>e.
          if is_exception e then raise (ValueError ''compressor algorithm cannot be read'') else raise e))
       (\<lambda>algorithm. act_bind (lift (validate_algorithm algorithm)) (\<lambda>a.
          if a = ustr ''identity'' then raise (ValueError ''compressor algorithm identity is reserved'')
          else return a))"

fun build_readers :: "(pystr \<times> 'w compressor) list \<Rightarrow> 'w compressor list \<Rightarrow> ('w, rc_exn, (pystr \<times> 'w compressor) list) act" where
  "build_readers registry [] = return registry"
| "build_readers registry (compressor # rest) =
     act_bind (algorithm_for compressor) (\<lambda>algorithm.
       if map_of registry algorithm \<noteq> None then raise (ValueError ''compressor algorithm must be unique'')
       else build_readers (registry @ [(algorithm, compressor)]) rest)"

definition build_reader_registry ::
  "'w compressor option \<Rightarrow> 'w compressor list \<Rightarrow> ('w, rc_exn, (pystr \<times> 'w compressor) list) act" where
  "build_reader_registry writer readers =
     build_readers [] ((case writer of None \<Rightarrow> [] | Some c \<Rightarrow> [c]) @ readers)"

section \<open>The codec\<close>

record ('w, 'v) envelope_codec =
  ec_payload_codec :: "('w, 'v) payload_codec"
  ec_format :: "'w envelope_format"
  ec_compressor :: "'w compressor option"
  ec_decompressors :: "'w compressor list"
  ec_max_encoded_size :: int
  ec_readers :: "(pystr \<times> 'w compressor) list"

text \<open>The decompressors are \<open>None\<close> if they are not iterable.\<close>

definition envelope_codec_init ::
  "('w, 'v) payload_codec \<Rightarrow> 'w envelope_format \<Rightarrow> 'w compressor option \<Rightarrow> 'w compressor list option \<Rightarrow> pyval
   \<Rightarrow> ('w, rc_exn, ('w, 'v) envelope_codec) act" where
  "envelope_codec_init codec fmt compressor decompressors max_encoded_size =
     act_bind (lift (validate_max_encoded_size max_encoded_size)) (\<lambda>bound.
       case decompressors of
         None \<Rightarrow> raise (TypeError ''decompressors must be iterable'')
       | Some readers \<Rightarrow>
           if (\<exists>b. ef_bound fmt = Some b \<and> b < bound)
           then raise (ValueError ''built-in format bound must cover codec bound'')
           else act_bind (build_reader_registry compressor readers) (\<lambda>registry.
             return \<lparr>ec_payload_codec = codec, ec_format = fmt, ec_compressor = compressor,
                     ec_decompressors = readers, ec_max_encoded_size = bound, ec_readers = registry\<rparr>))"

text \<open>\<open>except EnvelopeError: raise\<close>, \<open>except Exception\<close>: another error instead.\<close>

definition wrap_failure :: "('w, rc_exn, 'a) act \<Rightarrow> rc_exn \<Rightarrow> ('w, rc_exn, 'a) act" where
  "wrap_failure m failure =
     try_except m (\<lambda>e.
       if is_envelope_error e then raise e else if is_exception e then raise failure else raise e)"

definition wrap_any :: "('w, rc_exn, 'a) act \<Rightarrow> rc_exn \<Rightarrow> ('w, rc_exn, 'a) act" where
  "wrap_any m failure = try_except m (\<lambda>e. if is_exception e then raise failure else raise e)"

text \<open>A result that has to be exact bytes.\<close>

definition exact_bytes :: "pyval \<Rightarrow> rc_exn \<Rightarrow> ('w, rc_exn, pybytes) act" where
  "exact_bytes value failure = (case value of PyBytes b \<Rightarrow> return b | _ \<Rightarrow> raise failure)"

definition compress_payload :: "('w, 'v) envelope_codec \<Rightarrow> pybytes \<Rightarrow> ('w, rc_exn, pystr \<times> pybytes) act" where
  "compress_payload self data =
     (case ec_compressor self of
        None \<Rightarrow> return (ustr ''identity'', data)
      | Some compressor \<Rightarrow>
          act_bind (algorithm_for compressor) (\<lambda>algorithm.
          act_bind (wrap_any (cm_compress compressor data) (EnvelopeEncodeError COMPRESSION_FAILURE)) (\<lambda>payload.
          act_bind (exact_bytes payload (EnvelopeEncodeError COMPRESSION_FAILURE)) (\<lambda>b.
            return (algorithm, b)))))"

definition codec_encode :: "('w, 'v) envelope_codec \<Rightarrow> pyval \<Rightarrow> 'v \<Rightarrow> ('w, rc_exn, pybytes) act" where
  "codec_encode self owner_token value =
     act_bind (lift (validate_owner_token owner_token)) (\<lambda>_.
     act_bind (wrap_failure (pc_encode (ec_payload_codec self) value) (EnvelopeEncodeError PAYLOAD_CODEC_FAILURE)) (\<lambda>serialized.
       case serialized of
         None \<Rightarrow> raise (EnvelopeEncodeError PAYLOAD_CODEC_FAILURE)
       | Some sp \<Rightarrow>
           act_bind (compress_payload self (sp_data sp)) (\<lambda>(algorithm, payload).
           act_bind (lift (result_envelope_new (PyInt 1) owner_token (Some (sp_metadata sp)) (PyStr algorithm) (PyBytes payload)))
             (\<lambda>envelope.
           act_bind (wrap_failure (ef_encode (ec_format self) envelope) (EnvelopeEncodeError UNSUPPORTED_FORMAT)) (\<lambda>encoded.
           act_bind (exact_bytes encoded (EnvelopeEncodeError UNSUPPORTED_FORMAT)) (\<lambda>b.
             if int (length b) > ec_max_encoded_size self then raise (EnvelopeSizeError ENCODED_SIZE_LIMIT)
             else return b))))))"

definition validated_envelope :: "envelope_object option \<Rightarrow> rc_exn + result_envelope" where
  "validated_envelope value =
     (case value of
        None \<Rightarrow> Inl (EnvelopeDecodeError UNSUPPORTED_FORMAT)
      | Some x \<Rightarrow>
          (case result_envelope_new (eo_version x) (eo_owner_token x) (eo_metadata x)
                  (eo_compression_algorithm x) (eo_payload x) of
             Inr e \<Rightarrow> Inr e
           | Inl e \<Rightarrow> if is_type_or_value_error e then Inl malformed else Inl e))"

definition decompress_payload :: "('w, 'v) envelope_codec \<Rightarrow> result_envelope \<Rightarrow> ('w, rc_exn, pybytes) act" where
  "decompress_payload self envelope =
     (if re_compression_algorithm envelope = ustr ''identity'' then return (re_payload envelope)
      else case map_of (ec_readers self) (re_compression_algorithm envelope) of
        None \<Rightarrow> raise (EnvelopeDecodeError UNKNOWN_ALGORITHM)
      | Some reader \<Rightarrow>
          act_bind (wrap_any (cm_decompress reader (re_payload envelope)) (EnvelopeDecodeError COMPRESSION_FAILURE)) (\<lambda>logical.
            exact_bytes logical (EnvelopeDecodeError COMPRESSION_FAILURE)))"

text \<open>\<open>Some v\<close> is \<open>ResultEnvelopeMatch(value=v)\<close>.\<close>

definition decode_matching :: "('w, 'v) envelope_codec \<Rightarrow> pyval \<Rightarrow> pyval \<Rightarrow> ('w, rc_exn, 'v option) act" where
  "decode_matching self argument expected_owner_token =
     (case argument of
        PyBytes data \<Rightarrow>
          act_bind (lift (validate_owner_token expected_owner_token)) (\<lambda>expected.
            if int (length data) > ec_max_encoded_size self then raise (EnvelopeSizeError ENCODED_SIZE_LIMIT)
            else
              act_bind (wrap_failure (ef_decode (ec_format self) data) (EnvelopeDecodeError UNSUPPORTED_FORMAT)) (\<lambda>x.
              act_bind (lift (validated_envelope x)) (\<lambda>envelope.
                if re_version envelope \<noteq> 1 then raise (EnvelopeDecodeError UNSUPPORTED_VERSION)
                else if re_owner_token envelope \<noteq> expected then return None
                else
                  act_bind (decompress_payload self envelope) (\<lambda>logical.
                  act_bind (lift (serialized_payload_new (Some (re_metadata envelope)) (PyBytes logical))) (\<lambda>serialized.
                  act_bind (wrap_failure (pc_decode (ec_payload_codec self) serialized)
                              (EnvelopeDecodeError PAYLOAD_CODEC_FAILURE)) (\<lambda>value.
                    return (Some value)))))))
      | _ \<Rightarrow> raise (TypeError ''data must be exact bytes''))"

text \<open>\<open>decode\<close>: a value that is \<open>None\<close> cannot be told from a mismatch; \<open>'v option\<close> is what it returns.\<close>

definition codec_decode :: "('w, 'v) envelope_codec \<Rightarrow> pyval \<Rightarrow> pyval \<Rightarrow> ('w, rc_exn, 'v option) act" where
  "codec_decode self argument expected_owner_token = decode_matching self argument expected_owner_token"

section \<open>Failures of the collaborators\<close>

text \<open>What a call of the codec may raise once its arguments are valid: an error of the package, or what
  is no \<open>Exception\<close>.\<close>

definition contained :: "rc_exn \<Rightarrow> bool" where
  "contained e \<longleftrightarrow> is_envelope_error e \<or> \<not> is_exception e"

definition contains :: "('w, rc_exn, 'a) act \<Rightarrow> bool" where
  "contains m \<longleftrightarrow> (\<forall>s e s'. m s = Some (Inl e, s') \<longrightarrow> contained e)"

lemma contains_return [intro]: "contains (return x)"
  by (simp add: contains_def act_simps)

lemma contains_raise [intro]: "contained e \<Longrightarrow> contains (raise e)"
  by (simp add: contains_def act_simps)

lemma contains_lift [intro]: "(\<And>e. r = Inl e \<Longrightarrow> contained e) \<Longrightarrow> contains (lift r)"
  by (simp add: contains_def act_simps)

lemma contains_bind [intro]: "contains m \<Longrightarrow> (\<And>x. contains (f x)) \<Longrightarrow> contains (act_bind m f)"
  unfolding contains_def by (auto simp: act_simps split: option.splits sum.splits)

lemma contains_wrap [intro]:
  "is_envelope_error failure \<Longrightarrow> contains (wrap_failure m failure)" "is_envelope_error failure \<Longrightarrow> contains (wrap_any m failure)"
  by (auto simp: contains_def wrap_failure_def wrap_any_def act_simps contained_def split: option.splits sum.splits if_splits)

lemma contains_if [intro]: "(c \<Longrightarrow> contains m) \<Longrightarrow> (\<not> c \<Longrightarrow> contains m') \<Longrightarrow> contains (if c then m else m')"
  by simp

lemma contained_simps [simp]:
  "contained (EnvelopeSizeError c)" "contained (EnvelopeEncodeError c)" "contained (EnvelopeDecodeError c)"
  "contained malformed"
  by (simp_all add: contained_def malformed_def)

lemma contains_exact_bytes [intro]: "contained e \<Longrightarrow> contains (exact_bytes v e)"
  by (cases v) (auto simp: exact_bytes_def)

lemma contains_decompress: "contains (decompress_payload self e)"
  unfolding decompress_payload_def
  by (auto split: option.split intro!: contains_bind [OF contains_wrap(2) contains_exact_bytes])

lemma validated_envelope_error: "validated_envelope x = Inl e \<Longrightarrow> contained e"
  using constructor_errors(3) [of "eo_version (the x)"]
  by (auto simp: validated_envelope_def constructor_error_def split: option.splits sum.splits if_splits)

text \<open>What a matching decode has seen.\<close>

lemma decode_matching_some:
  assumes "decode_matching self (PyBytes data) (PyStr expected) w = Some (Inr (Some v), w')"
  shows "\<exists>x w1 w2 e. ef_decode (ec_format self) data w = Some (Inr x, w1) \<and> validated_envelope x = Inr e
     \<and> re_version e = 1 \<and> re_owner_token e = expected \<and> int (length data) \<le> ec_max_encoded_size self
     \<and> (\<exists>logical. decompress_payload self e w1 = Some (Inr logical, w2)
          \<and> pc_decode (ec_payload_codec self) \<lparr>sp_metadata = re_metadata e, sp_data = logical\<rparr> w2 = Some (Inr v, w'))"
  using assms unfolding decode_matching_def
  by (auto simp: act_simps wrap_failure_def validate_owner_token_ok serialized_payload_new_def
      split: option.splits sum.splits if_splits)

lemma decode_matching_contained:
  assumes "owner_token_ok expected"
  shows "contains (decode_matching self (PyBytes data) (PyStr expected))"
proof -
  have "validate_owner_token (PyStr expected) = Inr expected" using assms by (simp add: validate_owner_token_ok)
  then show ?thesis
    unfolding decode_matching_def pyval.case
    by (intro contains_bind contains_lift contains_if contains_raise contains_return contains_wrap contains_decompress)
      (auto simp: serialized_payload_new_def dest: validated_envelope_error)
qed

section \<open>The registry has the writer\<close>

lemma build_readers_keeps:
  "build_readers registry cs w = Some (Inr r, w') \<Longrightarrow> map_of registry a = Some c \<Longrightarrow> map_of r a = Some c"
proof (induction registry cs arbitrary: w rule: build_readers.induct)
  case (2 registry compressor rest)
  from 2(2) obtain b w1 where "algorithm_for compressor w = Some (Inr b, w1)" "map_of registry b = None"
    "build_readers (registry @ [(b, compressor)]) rest w1 = Some (Inr r, w')"
    by (auto simp: act_simps split: option.splits sum.splits if_splits)
  with 2 show ?case by (auto simp: map_add_def split: option.splits)
qed (simp add: act_simps)

text \<open>A compressor whose algorithm does not change and whose decompression inverts its compression.\<close>

definition compressor_laws :: "'w compressor \<Rightarrow> pystr \<Rightarrow> bool" where
  "compressor_laws c a \<longleftrightarrow>
     (\<forall>w. \<exists>w'. cm_algorithm c w = Some (Inr (PyStr a), w'))
     \<and> (\<forall>d w z w'. cm_compress c d w = Some (Inr (PyBytes z), w') \<longrightarrow>
          bytes_ok z \<and> (\<forall>u. \<exists>u'. cm_decompress c z u = Some (Inr (PyBytes d), u')))"

text \<open>A payload codec that reads what it writes.\<close>

definition payload_codec_laws :: "('w, 'v) payload_codec \<Rightarrow> bool" where
  "payload_codec_laws p \<longleftrightarrow>
     (\<forall>v w sp w'. pc_encode p v w = Some (Inr (Some sp), w') \<longrightarrow>
        metadata_ok (sp_metadata sp) \<and> bytes_ok (sp_data sp) \<and> (\<forall>u. \<exists>u'. pc_decode p sp u = Some (Inr v, u')))"

lemma algorithm_for_law:
  assumes "compressor_laws c a"
  shows "algorithm_for c w = Some (Inr b, w') \<Longrightarrow> b = a \<and> algorithm_ok a \<and> a \<noteq> ustr ''identity''"
proof -
  obtain w1 where "cm_algorithm c w = Some (Inr (PyStr a), w1)"
    using assms unfolding compressor_laws_def by blast
  then show "algorithm_for c w = Some (Inr b, w') \<Longrightarrow> b = a \<and> algorithm_ok a \<and> a \<noteq> ustr ''identity''"
    by (cases "validate_algorithm (PyStr a)")
      (auto simp: algorithm_for_def act_simps validate_algorithm_ok split: if_splits)
qed

lemma init_fields:
  assumes "envelope_codec_init codec fmt writer decs bound w = Some (Inr self, w')"
  shows "ec_payload_codec self = codec" "ec_format self = fmt" "ec_compressor self = writer"
    "bound = PyInt (ec_max_encoded_size self)" "\<And>b. ef_bound fmt = Some b \<Longrightarrow> ec_max_encoded_size self \<le> b"
    "writer = Some c \<Longrightarrow> compressor_laws c a \<Longrightarrow> map_of (ec_readers self) a = Some c"
proof -
  from assms obtain readers n w1 where r: "build_reader_registry writer readers w = Some (Inr (ec_readers self), w1)"
    and b: "validate_max_encoded_size bound = Inr n" "\<not> (\<exists>b. ef_bound fmt = Some b \<and> b < n)"
    and self: "ec_payload_codec self = codec" "ec_format self = fmt" "ec_compressor self = writer" "ec_max_encoded_size self = n"
    by (auto simp: envelope_codec_init_def act_simps split: option.splits sum.splits if_splits)
  then show "ec_payload_codec self = codec" "ec_format self = fmt" "ec_compressor self = writer"
    "bound = PyInt (ec_max_encoded_size self)" "\<And>b. ef_bound fmt = Some b \<Longrightarrow> ec_max_encoded_size self \<le> b"
    by (auto simp: validate_max_encoded_size_def not_less split: pyval.splits if_splits)
  assume c: "writer = Some c" "compressor_laws c a"
  then obtain w2 where "build_readers [(a, c)] readers w2 = Some (Inr (ec_readers self), w1)"
    using r algorithm_for_law [OF c(2)]
    by (auto simp: build_reader_registry_def act_simps split: option.splits sum.splits)
  then show "map_of (ec_readers self) a = Some c" by (rule build_readers_keeps) simp
qed

section \<open>Properties\<close>

text \<open>
  C40: a value is handed out only for the requested owner. The codec returns a value only from data that
  is the envelope of that owner token, and for the envelope of another owner it reports the mismatch
  without running a decompressor or the payload codec.
\<close>

theorem codec_owner_match:
  assumes "ec_format self = binary_format m" "owner_token_ok expected"
  shows "(\<forall>w v w'. decode_matching self (PyBytes data) (PyStr expected) w = Some (Inr (Some v), w') \<longrightarrow>
        (\<exists>e. binary_decode m (PyBytes data) = Inr e \<and> re_owner_token e = expected))
     \<and> (\<forall>e w. binary_decode m (PyBytes data) = Inr e \<longrightarrow> envelope_ok e \<longrightarrow> re_version e = 1 \<longrightarrow>
        int (length data) \<le> ec_max_encoded_size self \<longrightarrow> re_owner_token e \<noteq> expected \<longrightarrow>
        decode_matching self (PyBytes data) (PyStr expected) w = Some (Inr None, w))"
proof (intro conjI allI impI)
  fix w v w'
  assume "decode_matching self (PyBytes data) (PyStr expected) w = Some (Inr (Some v), w')"
  from decode_matching_some [OF this] obtain x w1 e
    where x: "ef_decode (binary_format m) data w = Some (Inr x, w1)" "validated_envelope x = Inr e" "re_owner_token e = expected"
    unfolding assms(1) by blast
  then obtain e' where e': "binary_decode m (PyBytes data) = Inr e'" "x = Some (envelope_fields e')"
    by (auto simp: binary_format_def act_simps)
  moreover have "re_owner_token e' = re_owner_token e"
    using x(2) unfolding e'(2)
    by (auto simp: validated_envelope_def envelope_fields_def envelope_new_iff split: sum.splits if_splits)
  ultimately show "\<exists>e. binary_decode m (PyBytes data) = Inr e \<and> re_owner_token e = expected" using x(3) by auto
next
  fix e w
  assume e: "binary_decode m (PyBytes data) = Inr e" "envelope_ok e" "re_version e = 1"
    and fits: "int (length data) \<le> ec_max_encoded_size self" and other: "re_owner_token e \<noteq> expected"
  have "validate_owner_token (PyStr expected) = Inr expected" using assms(2) by (simp add: validate_owner_token_ok)
  moreover have "validated_envelope (Some (envelope_fields e)) = Inr e"
    using e(2) by (simp add: validated_envelope_def envelope_fields_def envelope_ok_def
        iffD2 [OF envelope_new_iff [of "re_version e" _ _ _ _ e]])
  moreover have "ef_decode (ec_format self) data w = Some (Inr (Some (envelope_fields e)), w)"
    by (simp add: assms(1) binary_format_def e(1) act_simps)
  ultimately show "decode_matching self (PyBytes data) (PyStr expected) w = Some (Inr None, w)"
    using fits other e(3) by (simp add: decode_matching_def act_simps wrap_failure_def)
qed

text \<open>A run of the encoder, step by step.\<close>

lemma codec_encode_some:
  assumes "codec_encode self (PyStr owner) value w = Some (Inr data, w')" "ec_format self = binary_format m"
  shows "\<exists>sp algorithm payload w1 w3. pc_encode (ec_payload_codec self) value w = Some (Inr (Some sp), w1)
     \<and> compress_payload self (sp_data sp) w1 = Some (Inr (algorithm, payload), w3)
     \<and> owner_token_ok owner \<and> algorithm_ok algorithm
     \<and> binary_encode m (Some \<lparr>re_version = 1, re_owner_token = owner, re_metadata = sp_metadata sp,
          re_compression_algorithm = algorithm, re_payload = payload\<rparr>) = Inr data
     \<and> int (length data) \<le> ec_max_encoded_size self"
  using assms(1) unfolding codec_encode_def assms(2) binary_format_def
  by (auto simp: act_simps wrap_failure_def validate_owner_token_ok envelope_new_iff exact_bytes_def
      split: option.splits sum.splits if_splits pyval.splits)

lemma identity_ok: "algorithm_ok (ustr ''identity'')"
  by (simp add: algorithm_ok_def algorithm_character_def alphanumeric_def ustr_def)

lemma compress_inverse:
  assumes "compress_payload self d w = Some (Inr (algorithm, payload), w')" "bytes_ok d"
    and writer: "\<And>c. ec_compressor self = Some c \<Longrightarrow> compressor_laws c a \<and> map_of (ec_readers self) a = Some c"
  shows "bytes_ok payload \<and> (\<forall>u. \<exists>u'. decompress_payload self
      \<lparr>re_version = 1, re_owner_token = owner, re_metadata = md, re_compression_algorithm = algorithm, re_payload = payload\<rparr> u
      = Some (Inr d, u'))"
proof (cases "ec_compressor self")
  case None
  with assms show ?thesis by (auto simp: compress_payload_def decompress_payload_def act_simps)
next
  case (Some c)
  with writer have c: "compressor_laws c a" "map_of (ec_readers self) a = Some c" by blast+
  from assms(1) Some obtain w1 w2 where alg: "algorithm_for c w = Some (Inr algorithm, w1)"
    and z: "cm_compress c d w1 = Some (Inr (PyBytes payload), w2)"
    by (auto simp: compress_payload_def act_simps wrap_any_def exact_bytes_def
        split: option.splits sum.splits if_splits pyval.splits)
  have "bytes_ok payload \<and> (\<forall>u. \<exists>u'. cm_decompress c payload u = Some (Inr (PyBytes d), u'))"
    using c(1) z unfolding compressor_laws_def by blast
  moreover have "algorithm = a" "a \<noteq> ustr ''identity''" using algorithm_for_law [OF c(1) alg] by simp_all
  moreover have "\<exists>u'. decompress_payload self
      \<lparr>re_version = 1, re_owner_token = owner, re_metadata = md, re_compression_algorithm = algorithm, re_payload = payload\<rparr> u
      = Some (Inr d, u')" if "\<exists>u'. cm_decompress c payload u = Some (Inr (PyBytes d), u')" "algorithm = a" "a \<noteq> ustr ''identity''" for u
  proof -
    from that(1) obtain u' where "cm_decompress c payload u = Some (Inr (PyBytes d), u')" by blast
    with that(2,3) c(2) show ?thesis
      by (simp add: decompress_payload_def act_simps wrap_any_def exact_bytes_def)
  qed
  ultimately show ?thesis by blast
qed

lemma encoded_reads_back:
  assumes "envelope_codec_init codec (binary_format m) writer readers bound w0 = Some (Inr self, w0')"
    and "m \<le> max_u32_value" "payload_codec_laws codec" "\<forall>c. writer = Some c \<longrightarrow> compressor_laws c a"
    and "codec_encode self (PyStr owner) value w = Some (Inr data, w')"
  shows "\<exists>u'. decode_matching self (PyBytes data) (PyStr owner) u = Some (Inr (Some value), u')"
proof -
  note init = init_fields [OF assms(1)]
  obtain sp algorithm payload w1 w3 where sp: "pc_encode codec value w = Some (Inr (Some sp), w1)"
    and cp: "compress_payload self (sp_data sp) w1 = Some (Inr (algorithm, payload), w3)"
    and ok: "owner_token_ok owner" "algorithm_ok algorithm" and len: "int (length data) \<le> ec_max_encoded_size self"
    and enc: "binary_encode m (Some \<lparr>re_version = 1, re_owner_token = owner, re_metadata = sp_metadata sp,
          re_compression_algorithm = algorithm, re_payload = payload\<rparr>) = Inr data"
    using codec_encode_some [OF assms(5) init(2)] unfolding init(1) by blast
  let ?e = "\<lparr>re_version = 1, re_owner_token = owner, re_metadata = sp_metadata sp,
          re_compression_algorithm = algorithm, re_payload = payload\<rparr>"
  have law: "metadata_ok (sp_metadata sp)" "bytes_ok (sp_data sp)" "\<forall>u. \<exists>u'. pc_decode codec sp u = Some (Inr value, u')"
    using assms(3) sp unfolding payload_codec_laws_def by blast+
  have inverse: "bytes_ok payload" "\<forall>u. \<exists>u'. decompress_payload self ?e u = Some (Inr (sp_data sp), u')"
    using compress_inverse [OF cp law(2), of a owner "sp_metadata sp"] init(3,6) assms(4) by auto
  have "envelope_ok ?e" using ok law(1) inverse(1) by (simp add: envelope_ok_def)
  then have dec: "binary_decode m (PyBytes data) = Inr ?e"
    using binary_envelope_read [OF assms(2)] enc by simp
  have "validate_owner_token (PyStr owner) = Inr owner" using ok by (simp add: validate_owner_token_ok)
  moreover have "validated_envelope (Some (envelope_fields ?e)) = Inr ?e"
    using ok by (simp add: validated_envelope_def envelope_fields_def iffD2 [OF envelope_new_iff [of 1 _ _ _ _ ?e]])
  moreover have "ef_decode (ec_format self) data u = Some (Inr (Some (envelope_fields ?e)), u)"
    by (simp add: init(2) binary_format_def dec act_simps)
  moreover obtain u1 where "decompress_payload self ?e u = Some (Inr (sp_data sp), u1)" using inverse(2) by blast
  moreover obtain u2 where "pc_decode codec \<lparr>sp_metadata = sp_metadata sp, sp_data = sp_data sp\<rparr> u1 = Some (Inr value, u2)"
    using law(3) by (cases sp) auto
  ultimately show ?thesis
    using len by (simp add: decode_matching_def act_simps wrap_failure_def serialized_payload_new_def init(1))
qed

text \<open>
  C15: end to end, a result that one process encodes under an owner token is what any process with the
  same codec reads back under that token, through the payload codec, the compression, the envelope and
  its bytes, whatever happens to the state in between.
\<close>

theorem codec_roundtrip:
  assumes "envelope_codec_init codec (binary_format m) writer readers bound w0 = Some (Inr self, w0')"
    and "m \<le> max_u32_value" "payload_codec_laws codec" "\<forall>c. writer = Some c \<longrightarrow> compressor_laws c a"
    and "codec_encode self (PyStr owner) value w = Some (Inr data, w')"
  shows "\<exists>u'. decode_matching self (PyBytes data) (PyStr owner) u = Some (Inr (Some value), u')"
  by (rule encoded_reads_back [OF assms])

section \<open>A concrete codec\<close>

text \<open>Values are byte strings; the compressor puts a byte in front.\<close>

definition demo_metadata :: payload_metadata where
  "demo_metadata = \<lparr>pm_format = ustr ''json'', pm_version = 1, pm_content_type = None, pm_trust_profile = UNTRUSTED\<rparr>"

definition demo_payload_codec :: "('w, pybytes) payload_codec" where
  "demo_payload_codec =
     \<lparr>pc_encode = (\<lambda>v. if bytes_ok v then return (Some \<lparr>sp_metadata = demo_metadata, sp_data = v\<rparr>) else raise UnicodeError),
      pc_decode = (\<lambda>sp. return (sp_data sp))\<rparr>"

definition demo_compressor :: "'w compressor" where
  "demo_compressor =
     \<lparr>cm_algorithm = return (PyStr (ustr ''pad'')),
      cm_compress = (\<lambda>d. if bytes_ok d then return (PyBytes (0 # d)) else raise (OtherException 0)),
      cm_decompress = (\<lambda>z. return (PyBytes (drop 1 z)))\<rparr>"

definition demo_codec :: "('w, pybytes) envelope_codec" where
  "demo_codec =
     \<lparr>ec_payload_codec = demo_payload_codec, ec_format = binary_format 1000, ec_compressor = Some demo_compressor,
      ec_decompressors = [], ec_max_encoded_size = 1000, ec_readers = [(ustr ''pad'', demo_compressor)]\<rparr>"

definition demo_padded :: result_envelope where
  "demo_padded =
     \<lparr>re_version = 1, re_owner_token = ustr ''o1'', re_metadata = demo_metadata,
      re_compression_algorithm = ustr ''pad'', re_payload = [0, 255, 7]\<rparr>"

lemma demo_laws: "payload_codec_laws demo_payload_codec" "compressor_laws demo_compressor (ustr ''pad'')"
  by (auto simp: payload_codec_laws_def demo_payload_codec_def act_simps compressor_laws_def demo_compressor_def
      demo_metadata_def metadata_ok_def format_character_def alphanumeric_def ustr_def bytes_ok_def split: if_splits)

lemma demo_codec_init:
  "envelope_codec_init demo_payload_codec (binary_format 1000) (Some demo_compressor) (Some []) (PyInt 1000) s =
     Some (Inr demo_codec, s)"
  by (simp add: envelope_codec_init_def validate_max_encoded_size_def null_length_def max_u32_value_def act_simps binary_format_def
      build_reader_registry_def algorithm_for_def demo_compressor_def validate_algorithm_def algorithm_character_def
      alphanumeric_def ustr_def demo_codec_def default_max_encoded_size_def)

lemma demo_padded_facts:
  "envelope_ok demo_padded" "envelope_fits demo_padded" "int (length (binary_layout demo_padded)) \<le> 1000"
  by (simp_all add: envelope_ok_def demo_padded_def demo_metadata_def owner_token_ok_def metadata_ok_def algorithm_ok_def
      token_character_def algorithm_character_def format_character_def alphanumeric_def ustr_def bytes_ok_def
      envelope_fits_def content_fits_def binary_layout_def field_layout_def content_layout_def bin_magic_def)

lemma demo_padded_binary:
  "binary_encode 1000 (Some demo_padded) = Inr (binary_layout demo_padded)"
  "binary_decode 1000 (PyBytes (binary_layout demo_padded)) = Inr demo_padded"
proof -
  have max: "(1000 :: int) \<le> max_u32_value" by (simp add: max_u32)
  show enc: "binary_encode 1000 (Some demo_padded) = Inr (binary_layout demo_padded)"
    using binary_encode_layout [OF demo_padded_facts(1) max] demo_padded_facts by simp
  show "binary_decode 1000 (PyBytes (binary_layout demo_padded)) = Inr demo_padded"
    using binary_envelope_read [OF max demo_padded_facts(1) _ enc] by (simp add: demo_padded_def)
qed

lemma demo_codec_fields:
  "ec_payload_codec demo_codec = demo_payload_codec" "ec_format demo_codec = binary_format 1000" "ec_max_encoded_size demo_codec = 1000"
  by (simp_all add: demo_codec_def)

lemma demo_codec_encode:
  "codec_encode demo_codec (PyStr (ustr ''o1'')) [255, 7] s = Some (Inr (binary_layout demo_padded), s)"
proof -
  have "validate_owner_token (PyStr (ustr ''o1'')) = Inr (ustr ''o1'')"
    by (simp add: validate_owner_token_def token_character_def alphanumeric_def ustr_def)
  moreover have "compress_payload demo_codec [255, 7] s = Some (Inr (ustr ''pad'', [0, 255, 7]), s)"
    by (simp add: compress_payload_def demo_codec_def algorithm_for_def demo_compressor_def act_simps validate_algorithm_def
        algorithm_character_def alphanumeric_def ustr_def wrap_any_def exact_bytes_def bytes_ok_def)
  moreover have "result_envelope_new (PyInt 1) (PyStr (ustr ''o1'')) (Some demo_metadata) (PyStr (ustr ''pad'')) (PyBytes [0, 255, 7])
      = Inr demo_padded"
    using demo_padded_facts(1) by (simp add: envelope_new_iff demo_padded_def envelope_ok_def)
  moreover have "pc_encode demo_payload_codec [255, 7] s = Some (Inr (Some \<lparr>sp_metadata = demo_metadata, sp_data = [255, 7]\<rparr>), s)"
    by (simp add: demo_payload_codec_def bytes_ok_def act_simps)
  ultimately show ?thesis
    using demo_padded_binary(1) demo_padded_facts(3)
    by (simp add: demo_codec_fields codec_encode_def act_simps wrap_failure_def binary_format_def exact_bytes_def)
qed

lemma codec_owner_match_witness:
  "decode_matching demo_codec (PyBytes (binary_layout demo_padded)) (PyStr (ustr ''o2'')) () = Some (Inr None, ())"
proof -
  have "ec_format (demo_codec :: (unit, pybytes) envelope_codec) = binary_format 1000" "owner_token_ok (ustr ''o2'')"
    by (simp_all add: demo_codec_def owner_token_ok_def token_character_def alphanumeric_def ustr_def)
  from conjunct2 [OF codec_owner_match [OF this, of "binary_layout demo_padded"]] demo_padded_binary(2) demo_padded_facts
  show ?thesis by (simp add: demo_padded_def demo_codec_def ustr_def)
qed

lemma codec_roundtrip_witness:
  "\<exists>u'. codec_encode demo_codec (PyStr (ustr ''o1'')) [255, 7] () = Some (Inr (binary_layout demo_padded), ())
     \<and> decode_matching demo_codec (PyBytes (binary_layout demo_padded)) (PyStr (ustr ''o1'')) () = Some (Inr (Some [255, 7]), u')"
  using codec_roundtrip [OF demo_codec_init _ demo_laws(1) _ demo_codec_encode, of "ustr ''pad''" "()"]
  by (simp add: max_u32 demo_laws demo_codec_encode)

end
