(* ===== verification/Coordination.thy ===== *)
theory Coordination
  imports Redis_Provider Envelope_Codec
begin

text \<open>
  \<open>bluetape.cache.redis._coordination\<close>: loads that several processes coordinate through Redis.

  A flight's counters (\<open>flight_state\<close>) are a local object of one call; its code runs on the pair of them and
  the program state \<open>'w\<close>, and code of others runs on \<open>'w\<close> alone (\<open>on_world\<close>). Clocks, sleeping, jitter and
  the token generator are parameters, and so are SHA-256 and the logarithm of the C library. The local
  cache is reached through its \<open>get_or_load\<close> (theory \<open>Sync_Cache\<close>).
\<close>

section \<open>Data\<close>

record flight_state =
  fs_started_ns :: int
  fs_attempts :: int
  fs_polls :: int
  fs_cleanup_failed :: bool

record ('w, 'v) coordinator =
  co_get_or_load :: "pystr \<Rightarrow> (pystr \<Rightarrow> ('w, rc_exn, 'v) act) \<Rightarrow> pyval \<Rightarrow> ('w, rc_exn, 'v) act"
  co_provider :: "'w provider"
  co_codec :: "('w, 'v) envelope_codec"
  co_options :: load_options
  co_observer :: "(coordination_event \<Rightarrow> ('w, rc_exn, unit) act) option"
  co_namespace_id :: pystr
  co_clock :: "('w, rc_exn, pyfloat) act"
  co_now :: "'w \<Rightarrow> int"
  co_sleep :: "pyfloat \<Rightarrow> ('w, rc_exn, unit) act"
  co_jitter :: "('w, rc_exn, pyfloat) act"
  co_token :: "('w, rc_exn, pystr) act"
  co_sha256 :: "pybytes \<Rightarrow> pystr"
  co_log2 :: "pyfloat \<Rightarrow> pyfloat"

definition fresh_flight :: "int \<Rightarrow> flight_state" where
  "fresh_flight started_ns = \<lparr>fs_started_ns = started_ns, fs_attempts = 0, fs_polls = 0, fs_cleanup_failed = False\<rparr>"

definition validate_logical_key :: "pyval \<Rightarrow> rc_exn + pystr" where
  "validate_logical_key key =
     (case key of
        PyStr k \<Rightarrow>
          (case utf8_encode k of
             None \<Rightarrow> Inl UnicodeError
           | Some encoded \<Rightarrow>
               if int (length encoded) > 4096 then Inl (ValueError ''key must not exceed 4096 UTF-8 bytes'') else Inr k)
      | _ \<Rightarrow> Inl (TypeError ''key must be an exact str''))"

definition coordination_keys :: "(pybytes \<Rightarrow> pystr) \<Rightarrow> pystr \<Rightarrow> pystr \<Rightarrow> rc_exn + pystr \<times> pystr" where
  "coordination_keys sha256 namespace_id logical_key =
     (case utf8_encode logical_key of
        None \<Rightarrow> Inl UnicodeError
      | Some encoded \<Rightarrow>
          let key_id = sha256 encoded;
              slot = ustr ''{'' @ namespace_id @ ustr '':'' @ key_id @ ustr ''}'';
              prefix = ustr ''bluetape:cache:coord:'' @ namespace_id @ ustr '':'' @ slot
          in Inr (prefix @ ustr '':lease'', prefix @ ustr '':result''))"

definition invalid_artifact :: rc_exn where
  "invalid_artifact = CoordinationError INVALID_ARTIFACT"

text \<open>The parts of a marker, \<open>text.split(":", 1)\<close>.\<close>

definition parse_marker :: "pybytes \<Rightarrow> rc_exn + pystr \<times> pystr" where
  "parse_marker marker =
     (if \<not> list_all (\<lambda>c. c < 128) marker \<or> 58 \<notin> set marker then Inl invalid_artifact
      else
        let state = takeWhile (\<lambda>c. c \<noteq> 58) marker; token = tl (dropWhile (\<lambda>c. c \<noteq> 58) marker)
        in if state \<notin> {ustr ''active'', ustr ''completed''} then Inl invalid_artifact
           else (case validate_owner_token (PyStr token) of
                   Inl _ \<Rightarrow> Inl invalid_artifact
                 | Inr t \<Rightarrow> Inr (state, t)))"

text \<open>Division of floats, for the positive settings that it is used on, and \<open>math.ceil\<close>.\<close>

fun float_div :: "pyfloat \<Rightarrow> pyfloat \<Rightarrow> pyfloat" where
  "float_div (Finite a) (Finite b) = round_double (a / b)"
| "float_div _ _ = NaN"

fun float_ceil :: "pyfloat \<Rightarrow> rc_exn + int" where
  "float_ceil (Finite x) = Inr \<lceil>x\<rceil>"
| "float_ceil NaN = Inl (ValueError ''cannot convert float NaN to integer'')"
| "float_ceil _ = Inl OverflowError"

definition poll_delay :: "(pyfloat \<Rightarrow> pyfloat) \<Rightarrow> load_options \<Rightarrow> int \<Rightarrow> pyfloat \<Rightarrow> rc_exn + pyfloat" where
  "poll_delay log2 options polls remaining =
     ebind (float_ceil (log2 (float_div (ro_max_poll_interval options) (ro_poll_interval options)))) (\<lambda>max_exponent.
       let exponent = min (polls - 1) max_exponent
       in Inr (float_min
                (float_min (float_mul (ro_poll_interval options) (round_double (2 powi exponent))) (ro_max_poll_interval options))
                remaining))"

section \<open>The coordinator\<close>

definition coordinator_init :: "bool \<Rightarrow> ('w, 'v) coordinator \<Rightarrow> rc_exn + ('w, 'v) coordinator" where
  "coordinator_init observer_ok self =
     (if \<not> observer_ok then Inl (TypeError ''observer must provide on_event'')
      else case pv_policy (co_provider self) of
        None \<Rightarrow> Inl (ValueError ''provider must expose a bounded no-retry policy'')
      | Some policy \<Rightarrow>
          if float_lt (ro_redis_io_timeout (co_options self)) (max_command_time policy)
          then Inl (ValueError ''provider command policy exceeds redis_io_timeout'')
          else (case utf8_encode (ro_namespace (co_options self)) of
                  None \<Rightarrow> Inl UnicodeError
                | Some encoded \<Rightarrow> Inr (self\<lparr>co_namespace_id := co_sha256 self encoded\<rparr>)))"

definition coordination_emit ::
  "('w, 'v) coordinator \<Rightarrow> flight_outcome \<Rightarrow> flight_code option \<Rightarrow> (flight_state \<times> 'w, rc_exn, unit) act" where
  "coordination_emit self outcome code =
     (case co_observer self of
        None \<Rightarrow> return ()
      | Some f \<Rightarrow>
          act_bind (gets (\<lambda>(st, w). (st, co_now self w))) (\<lambda>(st, now).
          act_bind (lift (coordination_event_new SYNC outcome code (fs_attempts st) (fs_polls st)
                           (fs_cleanup_failed st) (max 0 (now - fs_started_ns st)))) (\<lambda>event.
            try_except (on_world (f event)) (\<lambda>e. if is_exception e then return () else raise e))))"

text \<open>\<open>try: self._cleanup(...) except BaseException: state.cleanup_failed = True\<close>.\<close>

definition flight_cleanup ::
  "('w, 'v) coordinator \<Rightarrow> pystr \<Rightarrow> pybytes \<Rightarrow> (flight_state \<times> 'w, rc_exn, unit) act" where
  "flight_cleanup self lease_key active_marker =
     try_except
       (act_bind (on_world (provider_delete_if_value (co_provider self) (PyStr lease_key) (PyBytes active_marker)))
         (\<lambda>_. return ()))
       (\<lambda>_. modify (\<lambda>(st, w). (st\<lparr>fs_cleanup_failed := True\<rparr>, w)))"

definition check_deadline :: "('w, 'v) coordinator \<Rightarrow> pyfloat \<Rightarrow> (flight_state \<times> 'w, rc_exn, unit) act" where
  "check_deadline self deadline =
     act_bind (on_world (co_clock self)) (\<lambda>now.
       if float_le deadline now then raise (coordination_timeout_error DEADLINE_EXCEEDED) else return ())"

definition run_owner ::
  "('w, 'v) coordinator \<Rightarrow> pystr \<Rightarrow> (pystr \<Rightarrow> ('w, rc_exn, 'v) act) \<Rightarrow> pystr \<Rightarrow> pystr \<Rightarrow> pybytes \<Rightarrow> pybytes \<Rightarrow> pyfloat
   \<Rightarrow> (flight_state \<times> 'w, rc_exn, 'v \<times> flight_outcome) act" where
  "run_owner self key loader lease_key result_key active_marker completion_marker lease_deadline =
     try_except
       (act_bind (on_world (loader key)) (\<lambda>v.
        act_bind (on_world (co_clock self)) (\<lambda>now.
          if float_le lease_deadline now then return (v, LEASE_LOST)
          else
            act_bind (on_world (codec_encode (co_codec self) (PyStr (drop 7 active_marker)) v)) (\<lambda>encoded.
            act_bind (on_world (co_clock self)) (\<lambda>now.
              if float_le lease_deadline now then return (v, LEASE_LOST)
              else
                act_bind (on_world (provider_publish (co_provider self) (PyStr lease_key) (PyBytes active_marker)
                    (PyStr result_key) (PyBytes encoded) (PyBytes completion_marker)
                    (PyFloat (ro_result_ttl (co_options self))))) (\<lambda>published.
                  return (v, if \<not> published then LEASE_LOST else LOADED)))))))
       (\<lambda>primary. act_then (flight_cleanup self lease_key active_marker) (raise primary))"

text \<open>A value found in the snapshot, if it is that of a completed flight.\<close>

definition reuse_result ::
  "('w, 'v) coordinator \<Rightarrow> coordination_snapshot \<Rightarrow> pystr \<Rightarrow> pystr \<Rightarrow> ('w, rc_exn, 'v option) act" where
  "reuse_result self snapshot marker_state marker_token =
     (if marker_state = ustr ''completed''
      then (case cs_result snapshot of
              None \<Rightarrow> raise invalid_artifact
            | Some result \<Rightarrow> decode_matching (co_codec self) (PyBytes result) (PyStr marker_token))
      else return None)"

text \<open>One look at the keys: \<open>Found\<close> a value, the lease is \<open>Vacant\<close> (\<open>break\<close>), or \<open>Poll\<close> again.\<close>

datatype 'v look = Found (found_value: 'v) | is_vacant: Vacant | is_poll: Poll

definition poll_look ::
  "('w, 'v) coordinator \<Rightarrow> pyfloat \<Rightarrow> pystr \<Rightarrow> pystr \<Rightarrow> (flight_state \<times> 'w, rc_exn, 'v look) act" where
  "poll_look self deadline lease_key result_key =
     act_then (check_deadline self deadline)
     (act_bind (on_world (provider_snapshot (co_provider self) (PyStr lease_key) (PyStr result_key)
         (PyInt max_coordination_marker_size) (PyInt (ec_max_encoded_size (co_codec self))))) (\<lambda>snapshot.
      act_then (check_deadline self deadline)
      (if cs_marker_oversized snapshot \<or> cs_result_oversized snapshot then raise invalid_artifact
       else case cs_marker snapshot of
         None \<Rightarrow> return Vacant
       | Some marker \<Rightarrow>
           act_bind (lift (parse_marker marker)) (\<lambda>(marker_state, marker_token).
           act_bind (on_world (reuse_result self snapshot marker_state marker_token)) (\<lambda>found.
             return (case found of Some v \<Rightarrow> Found v | None \<Rightarrow> Poll))))))"

definition poll_pause :: "('w, 'v) coordinator \<Rightarrow> pyfloat \<Rightarrow> (flight_state \<times> 'w, rc_exn, unit) act" where
  "poll_pause self deadline =
     act_then (modify (\<lambda>(st, w). (st\<lparr>fs_polls := fs_polls st + 1\<rparr>, w)))
     (act_bind (gets (\<lambda>(st, w). fs_polls st)) (\<lambda>polls.
        if polls \<ge> ro_max_polls (co_options self) then raise (coordination_timeout_error POLLS_EXHAUSTED)
        else
          act_bind (on_world (co_clock self)) (\<lambda>now.
          let remaining = float_sub deadline now
          in if float_le remaining (Finite 0) then raise (coordination_timeout_error DEADLINE_EXCEEDED)
             else
               act_bind (lift (poll_delay (co_log2 self) (co_options self) polls remaining)) (\<lambda>cap.
               act_bind (on_world (co_jitter self)) (\<lambda>jitter.
                 on_world (co_sleep self (float_mul cap jitter)))))))"

text \<open>The inner loop: \<open>None\<close> is its \<open>break\<close>.\<close>

partial_function (option) poll_loop ::
  "('w, 'v) coordinator \<Rightarrow> pyfloat \<Rightarrow> pystr \<Rightarrow> pystr \<Rightarrow> flight_state \<times> 'w
   \<Rightarrow> ((rc_exn + 'v option) \<times> flight_state \<times> 'w) option" where
  "poll_loop self deadline lease_key result_key s =
     act_bind (poll_look self deadline lease_key result_key) (\<lambda>look.
       if is_vacant look then return None
       else if is_poll look then act_then (poll_pause self deadline) (poll_loop self deadline lease_key result_key)
       else return (Some (found_value look))) s"

text \<open>One attempt to take the lease: the outcome of the load if it was taken, \<open>None\<close> if another owner has it.\<close>

definition flight_attempt ::
  "('w, 'v) coordinator \<Rightarrow> pystr \<Rightarrow> (pystr \<Rightarrow> ('w, rc_exn, 'v) act) \<Rightarrow> pyfloat \<Rightarrow> pystr \<Rightarrow> pystr
   \<Rightarrow> (flight_state \<times> 'w, rc_exn, ('v \<times> flight_outcome) option) act" where
  "flight_attempt self key loader deadline lease_key result_key =
     act_then (check_deadline self deadline)
     (act_bind (gets (\<lambda>(st, w). fs_attempts st)) (\<lambda>attempts.
      if attempts \<ge> ro_max_attempts (co_options self) then raise (coordination_timeout_error ATTEMPTS_EXHAUSTED)
      else
        act_bind (on_world (co_token self)) (\<lambda>generated.
        act_bind (lift (validate_owner_token (PyStr generated))) (\<lambda>token.
        let active_marker = ustr ''active:'' @ token; completion_marker = ustr ''completed:'' @ token
        in
          act_then (check_deadline self deadline)
          (act_then (modify (\<lambda>(st, w). (st\<lparr>fs_attempts := fs_attempts st + 1\<rparr>, w)))
          (act_bind (on_world (provider_set_if_absent (co_provider self) (PyStr lease_key) (PyBytes active_marker)
              (PyFloat (ro_lease_ttl (co_options self))))) (\<lambda>acquired.
             if acquired
             then
               act_bind (on_world (co_clock self)) (\<lambda>now.
                 if float_le deadline now
                 then act_then (flight_cleanup self lease_key active_marker) (raise (coordination_timeout_error DEADLINE_EXCEEDED))
                 else
                   act_bind (on_world (co_clock self)) (\<lambda>now.
                   act_bind (run_owner self key loader lease_key result_key active_marker completion_marker
                       (float_add now (ro_lease_ttl (co_options self)))) (\<lambda>r. return (Some r))))
             else act_then (check_deadline self deadline) (return None))))))))"

partial_function (option) run_flight ::
  "('w, 'v) coordinator \<Rightarrow> pystr \<Rightarrow> (pystr \<Rightarrow> ('w, rc_exn, 'v) act) \<Rightarrow> pyfloat \<Rightarrow> pystr \<Rightarrow> pystr \<Rightarrow> flight_state \<times> 'w
   \<Rightarrow> ((rc_exn + 'v \<times> flight_outcome) \<times> flight_state \<times> 'w) option" where
  "run_flight self key loader deadline lease_key result_key s =
     act_bind (flight_attempt self key loader deadline lease_key result_key) (\<lambda>owned.
       if owned \<noteq> None then return (the owned)
       else
         act_bind (poll_loop self deadline lease_key result_key) (\<lambda>reused.
           if reused \<noteq> None then return (the reused, RESULT_REUSED)
           else run_flight self key loader deadline lease_key result_key)) s"

text \<open>Which event a failure is reported as.\<close>

fun flight_failure :: "rc_exn \<Rightarrow> flight_outcome \<times> flight_code" where
  "flight_failure (CoordinationTimeoutError code) = (FO_TIMEOUT, code)"
| "flight_failure (CoordinationError code) = (FO_FAILURE, code)"
| "flight_failure (RedisProviderError _ _) = (FO_FAILURE, FC_PROVIDER_FAILURE)"
| "flight_failure e = (FO_FAILURE, if is_envelope_error e then ENVELOPE_FAILURE else LOADER_FAILURE)"

text \<open>Code with a flight of its own.\<close>

definition with_flight :: "flight_state \<Rightarrow> (flight_state \<times> 'w, rc_exn, 'a) act \<Rightarrow> ('w, rc_exn, 'a) act" where
  "with_flight st m = (\<lambda>w. map_option (\<lambda>(r, s'). (r, snd s')) (m (st, w)))"

definition distributed_load ::
  "('w, 'v) coordinator \<Rightarrow> pystr \<Rightarrow> (pystr \<Rightarrow> ('w, rc_exn, 'v) act) \<Rightarrow> ('w, rc_exn, 'v) act" where
  "distributed_load self key loader =
     act_bind (gets (co_now self)) (\<lambda>started_ns.
     act_bind (co_clock self) (\<lambda>now.
     let deadline = float_add now (ro_wait_timeout (co_options self))
     in act_bind (lift (coordination_keys (co_sha256 self) (co_namespace_id self) key)) (\<lambda>(lease_key, result_key).
        with_flight (fresh_flight started_ns)
          (try_else (run_flight self key loader deadline lease_key result_key)
            (\<lambda>error. act_then (case flight_failure error of (outcome, code) \<Rightarrow> coordination_emit self outcome (Some code))
                        (raise error))
            (\<lambda>(v, outcome). act_then (coordination_emit self outcome None) (return v))))))"

definition coordinated_get_or_load ::
  "('w, 'v) coordinator \<Rightarrow> pyval \<Rightarrow> (pystr \<Rightarrow> ('w, rc_exn, 'v) act) callback \<Rightarrow> pyval \<Rightarrow> ('w, rc_exn, 'v) act" where
  "coordinated_get_or_load self key loader ttl =
     act_bind (lift (validate_logical_key key)) (\<lambda>k.
       case loader of
         NotCallable \<Rightarrow> raise (TypeError ''loader must be callable'')
       | Callable f \<Rightarrow> co_get_or_load self k (\<lambda>logical_key. distributed_load self logical_key f) ttl)"

section \<open>Flights end within their budgets\<close>

text \<open>What a flight needs of its environment: everything it calls returns or raises, and \<open>cnt\<close>, the number
  of runs of the loader, is only changed by the loader. For the provider's operations this is what
  \<open>provider_operations_sound\<close> shows.\<close>

definition flight_env :: "('w, 'v) coordinator \<Rightarrow> (pystr \<Rightarrow> ('w, rc_exn, 'v) act) \<Rightarrow> ('w \<Rightarrow> nat) \<Rightarrow> bool" where
  "flight_env self loader cnt \<longleftrightarrow>
     (\<forall>n. keeps True (\<lambda>w. cnt w = n) (co_clock self) \<and> keeps True (\<lambda>w. cnt w = n) (co_jitter self)
        \<and> keeps True (\<lambda>w. cnt w = n) (co_token self) \<and> (\<forall>t. keeps True (\<lambda>w. cnt w = n) (co_sleep self t))
        \<and> (\<forall>k v t. keeps True (\<lambda>w. cnt w = n) (provider_set_if_absent (co_provider self) k v t))
        \<and> (\<forall>k v. keeps True (\<lambda>w. cnt w = n) (provider_delete_if_value (co_provider self) k v))
        \<and> (\<forall>k k' m m'. keeps True (\<lambda>w. cnt w = n) (provider_snapshot (co_provider self) k k' m m'))
        \<and> (\<forall>k x k' r c t. keeps True (\<lambda>w. cnt w = n) (provider_publish (co_provider self) k x k' r c t))
        \<and> (\<forall>o' v. keeps True (\<lambda>w. cnt w = n) (codec_encode (co_codec self) o' v))
        \<and> (\<forall>d o'. keeps True (\<lambda>w. cnt w = n) (decode_matching (co_codec self) d o'))
        \<and> (\<forall>k. hoare True (\<lambda>w. cnt w = n) (loader k) (\<lambda>_ w. cnt w = n + 1) (\<lambda>_ w. cnt w = n + 1)))"

lemma flight_envD:
  assumes "flight_env self loader cnt"
  shows "keeps True (\<lambda>w. cnt w = n) (co_clock self)" "keeps True (\<lambda>w. cnt w = n) (co_jitter self)"
    "keeps True (\<lambda>w. cnt w = n) (co_token self)" "keeps True (\<lambda>w. cnt w = n) (co_sleep self t)"
    "keeps True (\<lambda>w. cnt w = n) (provider_set_if_absent (co_provider self) k v t')"
    "keeps True (\<lambda>w. cnt w = n) (provider_delete_if_value (co_provider self) k v)"
    "keeps True (\<lambda>w. cnt w = n) (provider_snapshot (co_provider self) k k' m m')"
    "keeps True (\<lambda>w. cnt w = n) (provider_publish (co_provider self) k x k' r c t')"
    "keeps True (\<lambda>w. cnt w = n) (codec_encode (co_codec self) o' y)"
    "keeps True (\<lambda>w. cnt w = n) (decode_matching (co_codec self) d o')"
    "hoare True (\<lambda>w. cnt w = n) (loader key) (\<lambda>_ w. cnt w = n + 1) (\<lambda>_ w. cnt w = n + 1)"
  using assms unfolding flight_env_def by simp_all

text \<open>The counters of a flight and the number of runs of the loader.\<close>

definition at_flight :: "('w \<Rightarrow> nat) \<Rightarrow> nat \<Rightarrow> int \<Rightarrow> int \<Rightarrow> flight_state \<times> 'w \<Rightarrow> bool" where
  "at_flight cnt n a p s \<longleftrightarrow> fs_attempts (fst s) = a \<and> fs_polls (fst s) = p \<and> cnt (snd s) = n"

lemma hoare_on_world:
  assumes "hoare b (\<lambda>w. cnt w = n) m (\<lambda>_ w. cnt w = n') (\<lambda>_ w. cnt w = n'')"
  shows "hoare b (at_flight cnt n a p) (on_world m) (\<lambda>_. at_flight cnt n' a p) (\<lambda>_. at_flight cnt n'' a p)"
proof (rule hoareI)
  fix s
  assume "at_flight cnt n a p s" "on_world m s = None"
  then show "\<not> b" using hoare_noneD [OF assms, of "snd s"]
    by (cases s) (auto simp: at_flight_def on_world_run split: option.splits)
next
  fix s e s'
  assume "at_flight cnt n a p s" "on_world m s = Some (Inl e, s')"
  then show "at_flight cnt n'' a p s'" using hoare_raiseD [OF assms, of "snd s" e "snd s'"]
    by (cases s) (auto simp: at_flight_def on_world_run split: option.splits)
next
  fix s x s'
  assume "at_flight cnt n a p s" "on_world m s = Some (Inr x, s')"
  then show "at_flight cnt n' a p s'" using hoare_returnD [OF assms, of "snd s" x "snd s'"]
    by (cases s) (auto simp: at_flight_def on_world_run split: option.splits)
qed

lemma keeps_on_world: "keeps b (\<lambda>w. cnt w = n) m \<Longrightarrow> keeps b (at_flight cnt n a p) (on_world m)"
  unfolding keeps_def by (rule hoare_on_world)

lemma hoare_any_pre: "keeps b P m \<Longrightarrow> (\<And>s. P' s \<Longrightarrow> P s) \<Longrightarrow> hoare b P' m (\<lambda>_. P) (\<lambda>_. P)"
  unfolding keeps_def by (rule hoare_pre)

lemma keeps_check_deadline:
  assumes env: "flight_env self loader cnt"
  shows "keeps True (at_flight cnt n a p) (check_deadline self deadline)"
  unfolding check_deadline_def by (intro hoare_rules flight_envD(1-10) [OF env, THEN keeps_on_world])

lemma keeps_flight_cleanup:
  assumes env: "flight_env self loader cnt"
  shows "keeps True (at_flight cnt n a p) (flight_cleanup self lease_key active_marker)"
  unfolding flight_cleanup_def
  by (intro hoare_rules flight_envD(1-10) [OF env, THEN keeps_on_world]) (auto simp: keeps_def hoare_def act_simps at_flight_def split: prod.splits)

lemma keeps_reuse:
  assumes env: "flight_env self loader cnt"
  shows "keeps True (\<lambda>w. cnt w = n) (reuse_result self snapshot st token)"
  unfolding reuse_result_def by (intro hoare_rules flight_envD(10) [OF env])

lemma keeps_poll_look:
  assumes env: "flight_env self loader cnt"
  shows "keeps True (at_flight cnt n a p) (poll_look self deadline lease_key result_key)"
  unfolding poll_look_def
  by (intro hoare_rules flight_envD(1-10) [OF env, THEN keeps_on_world] keeps_check_deadline [OF env] keeps_reuse [OF env, THEN keeps_on_world])
    (auto intro!: hoare_rules keeps_reuse [OF env, THEN keeps_on_world] split: prod.splits)

lemma hoare_poll_pause:
  assumes env: "flight_env self loader cnt"
  shows "hoare True (at_flight cnt n a p) (poll_pause self deadline)
     (\<lambda>_ s. at_flight cnt n a (p + 1) s \<and> p + 1 < ro_max_polls (co_options self)) (\<lambda>_. at_flight cnt n a (p + 1))"
proof -
  let ?Q = "\<lambda>_ s. at_flight cnt n a (p + 1) s \<and> p + 1 < ro_max_polls (co_options self)" and ?E = "\<lambda>_. at_flight cnt n a (p + 1)"
  have count: "hoare True (at_flight cnt n a p) (modify (\<lambda>(st, w). (st\<lparr>fs_polls := fs_polls st + 1\<rparr>, w))) (\<lambda>_. at_flight cnt n a (p + 1)) ?E"
    by (auto simp: hoare_def act_simps at_flight_def split: prod.splits)
  have read: "hoare True (at_flight cnt n a (p + 1)) (gets (\<lambda>(st, w). fs_polls st)) (\<lambda>q s. q = p + 1 \<and> at_flight cnt n a (p + 1) s) ?E"
    by (auto simp: hoare_def act_simps at_flight_def split: prod.splits)
  have pause: "keeps True (at_flight cnt n a (p + 1)) (act_bind (on_world (co_clock self)) (\<lambda>now.
      let remaining = float_sub deadline now
      in if float_le remaining (Finite 0) then raise (coordination_timeout_error DEADLINE_EXCEEDED)
         else
           act_bind (lift (poll_delay (co_log2 self) (co_options self) q remaining)) (\<lambda>cap.
           act_bind (on_world (co_jitter self)) (\<lambda>jitter. on_world (co_sleep self (float_mul cap jitter))))))" for q
    unfolding Let_def by (intro hoare_rules flight_envD(1-10) [OF env, THEN keeps_on_world])
  have "hoare True (\<lambda>s. q = p + 1 \<and> at_flight cnt n a (p + 1) s) (if q \<ge> ro_max_polls (co_options self) then raise (coordination_timeout_error POLLS_EXHAUSTED)
      else act_bind (on_world (co_clock self)) (\<lambda>now.
        let remaining = float_sub deadline now
        in if float_le remaining (Finite 0) then raise (coordination_timeout_error DEADLINE_EXCEEDED)
           else
             act_bind (lift (poll_delay (co_log2 self) (co_options self) q remaining)) (\<lambda>cap.
             act_bind (on_world (co_jitter self)) (\<lambda>jitter. on_world (co_sleep self (float_mul cap jitter)))))) ?Q ?E" for q
  proof (rule hoare_conj_pre, rule hoare_if)
    assume "\<not> ro_max_polls (co_options self) \<le> q" "q = p + 1"
    then show "hoare True (at_flight cnt n a (p + 1)) (act_bind (on_world (co_clock self)) (\<lambda>now.
        let remaining = float_sub deadline now
        in if float_le remaining (Finite 0) then raise (coordination_timeout_error DEADLINE_EXCEEDED)
           else
             act_bind (lift (poll_delay (co_log2 self) (co_options self) q remaining)) (\<lambda>cap.
             act_bind (on_world (co_jitter self)) (\<lambda>jitter. on_world (co_sleep self (float_mul cap jitter)))))) ?Q ?E"
      by (intro hoare_weaken [OF keeps_hoare [OF pause]]) auto
  qed (rule hoare_raise)
  then show ?thesis unfolding poll_pause_def by (intro hoare_then [OF count] hoare_bind [OF read])
qed

text \<open>The inner loop ends: every round counts a poll, and the last one that is allowed raises.\<close>

definition polls_ok :: "('w, 'v) coordinator \<Rightarrow> ('w \<Rightarrow> nat) \<Rightarrow> nat \<Rightarrow> int \<Rightarrow> flight_state \<times> 'w \<Rightarrow> bool" where
  "polls_ok self cnt n a s \<longleftrightarrow>
     fs_attempts (fst s) = a \<and> fs_polls (fst s) \<le> ro_max_polls (co_options self) \<and> cnt (snd s) = n"

lemma polls_ok_at: "at_flight cnt n a p s \<Longrightarrow> p \<le> ro_max_polls (co_options self) \<Longrightarrow> polls_ok self cnt n a s"
  by (simp add: at_flight_def polls_ok_def)

lemma poll_loop_total:
  assumes env: "flight_env self loader cnt"
  shows "p < ro_max_polls (co_options self) \<Longrightarrow>
    hoare True (at_flight cnt n a p) (poll_loop self deadline lease_key result_key)
      (\<lambda>_ s. \<exists>q<ro_max_polls (co_options self). at_flight cnt n a q s) (\<lambda>_. polls_ok self cnt n a)"
proof (induction "nat (ro_max_polls (co_options self) - p)" arbitrary: p rule: less_induct)
  case less
  let ?I = "at_flight cnt n a p" and ?E = "\<lambda>_. polls_ok self cnt n a"
    and ?Q = "\<lambda>_ s. \<exists>q<ro_max_polls (co_options self). at_flight cnt n a q s"
  have look: "hoare True ?I (poll_look self deadline lease_key result_key) (\<lambda>_. ?I) ?E"
    using keeps_poll_look [OF env] unfolding keeps_def by (rule hoare_weaken) (use less.prems in \<open>auto intro: polls_ok_at\<close>)
  have pause: "hoare True ?I (poll_pause self deadline) (\<lambda>_ s. p + 1 < ro_max_polls (co_options self) \<and> at_flight cnt n a (p + 1) s) ?E"
    using hoare_poll_pause [OF env] by (rule hoare_weaken) (use less.prems in \<open>auto intro: polls_ok_at\<close>)
  have again: "hoare True (\<lambda>s. p + 1 < ro_max_polls (co_options self) \<and> at_flight cnt n a (p + 1) s)
      (poll_loop self deadline lease_key result_key) ?Q ?E"
    by (rule hoare_conj_pre, rule less.hyps) (use less.prems in simp_all)
  have ok: "hoare True ?I (return x) ?Q ?E" for x :: "'b option"
    using less.prems by (intro hoare_pre [OF hoare_return]) blast
  have "hoare True ?I (act_bind (poll_look self deadline lease_key result_key) (\<lambda>look.
       if is_vacant look then return None
       else if is_poll look then act_then (poll_pause self deadline) (poll_loop self deadline lease_key result_key)
       else return (Some (found_value look)))) ?Q ?E"
    by (intro hoare_bind [OF look] hoare_if ok hoare_then [OF pause again])
  then show ?case unfolding hoare_def by (subst (asm) poll_loop.simps [symmetric])
qed

text \<open>An attempt counts itself and runs the loader at most once, and only if it took the lease.\<close>

lemma run_owner_total:
  assumes env: "flight_env self loader cnt"
  shows "hoare True (at_flight cnt n a p) (run_owner self key loader lease_key result_key active_marker completion_marker lease_deadline)
     (\<lambda>r s. snd r \<noteq> RESULT_REUSED \<and> at_flight cnt (n + 1) a p s) (\<lambda>_. at_flight cnt (n + 1) a p)"
proof -
  let ?I = "at_flight cnt (n + 1) a p" and ?Q = "\<lambda>r s. snd r \<noteq> RESULT_REUSED \<and> at_flight cnt (n + 1) a p s"
  note rules = flight_envD(1-10) [OF env, THEN keeps_on_world]
  have ok: "hoare True ?I (return (v, oc)) ?Q (\<lambda>_. ?I)" if "oc \<noteq> RESULT_REUSED" for v and oc
    using that by (intro hoare_pre [OF hoare_return]) simp
  have body: "hoare True ?I (act_bind (on_world (co_clock self)) (\<lambda>now.
          if float_le lease_deadline now then return (v, LEASE_LOST)
          else
            act_bind (on_world (codec_encode (co_codec self) (PyStr (drop 7 active_marker)) v)) (\<lambda>encoded.
            act_bind (on_world (co_clock self)) (\<lambda>now.
              if float_le lease_deadline now then return (v, LEASE_LOST)
              else
                act_bind (on_world (provider_publish (co_provider self) (PyStr lease_key) (PyBytes active_marker)
                    (PyStr result_key) (PyBytes encoded) (PyBytes completion_marker)
                    (PyFloat (ro_result_ttl (co_options self))))) (\<lambda>published.
                  return (v, if \<not> published then LEASE_LOST else LOADED)))))) ?Q (\<lambda>_. ?I)" for v
    by (intro hoare_bind [OF keeps_hoare [OF rules(1)]] hoare_bind [OF keeps_hoare [OF rules(9)]]
        hoare_bind [OF keeps_hoare [OF rules(8)]] hoare_if ok) simp_all
  have load: "hoare True (at_flight cnt n a p) (on_world (loader key)) (\<lambda>_. ?I) (\<lambda>_. ?I)"
    by (rule hoare_on_world [OF flight_envD(11) [OF env]])
  have fails: "hoare True ?I (act_then (flight_cleanup self lease_key active_marker) (raise e)) ?Q (\<lambda>_. ?I)" for e
    by (intro hoare_then [OF keeps_hoare [OF keeps_flight_cleanup [OF env]]] hoare_raise)
  show ?thesis
    unfolding run_owner_def by (intro hoare_try_except [OF hoare_bind [OF load body] fails])
qed

text \<open>After an attempt: not taken, or the load is over.\<close>

definition attempted :: "('w \<Rightarrow> nat) \<Rightarrow> nat \<Rightarrow> int \<Rightarrow> int \<Rightarrow> flight_state \<times> 'w \<Rightarrow> bool" where
  "attempted cnt n a p s \<longleftrightarrow> (\<exists>n'\<in>{n, n + 1}. at_flight cnt n' a p s)"

lemma attemptedI: "at_flight cnt n a p s \<Longrightarrow> attempted cnt n a p s" "at_flight cnt (n + 1) a p s \<Longrightarrow> attempted cnt n a p s"
  by (auto simp: attempted_def)

lemma flight_attempt_total:
  fixes self :: "('w, 'v) coordinator"
  assumes env: "flight_env self loader cnt"
  shows "hoare True (at_flight cnt n a p) (flight_attempt self key loader deadline lease_key result_key)
     (\<lambda>r s. a < ro_max_attempts (co_options self)
        \<and> (if r = None then at_flight cnt n (a + 1) p s else snd (the r) \<noteq> RESULT_REUSED \<and> at_flight cnt (n + 1) (a + 1) p s))
     (\<lambda>_ s. at_flight cnt n a p s \<or> a < ro_max_attempts (co_options self) \<and> attempted cnt n (a + 1) p s)"
    (is "hoare True ?I _ ?Q ?E")
proof -
  note rules = flight_envD(1-10) [OF env, THEN keeps_on_world]
  let ?J = "at_flight cnt n (a + 1) p"
  have first: "keeps True ?I m \<Longrightarrow> hoare True ?I m (\<lambda>_. ?I) ?E" for m :: "(flight_state \<times> 'w, rc_exn, 'x) act"
    unfolding keeps_def by (erule hoare_weaken) auto
  have deadline: "hoare True ?I (check_deadline self deadline) (\<lambda>_. ?I) ?E" by (rule first [OF keeps_check_deadline [OF env]])
  show ?thesis
  proof (cases "a < ro_max_attempts (co_options self)")
    case False
    have "hoare True (\<lambda>s. q = a \<and> ?I s) (if q \<ge> ro_max_attempts (co_options self) then raise (coordination_timeout_error ATTEMPTS_EXHAUSTED)
        else m) ?Q ?E" for q m
      by (rule hoare_conj_pre) (use False in \<open>auto intro!: hoare_pre [OF hoare_raise]\<close>)
    moreover have "hoare True ?I (gets (\<lambda>(st, w). fs_attempts st)) (\<lambda>q s. q = a \<and> ?I s) ?E"
      by (auto simp: hoare_def act_simps at_flight_def split: prod.splits)
    ultimately show ?thesis unfolding flight_attempt_def by (intro hoare_then [OF deadline] hoare_bind)
  next
    case True
    have late: "hoare True P m Q' F \<Longrightarrow> (\<And>e s. F e s \<Longrightarrow> attempted cnt n (a + 1) p s) \<Longrightarrow> hoare True P m Q' ?E"
      for P Q' F and m :: "(flight_state \<times> 'w, rc_exn, 'x) act"
      using True by (erule_tac hoare_weaken) auto
    have later: "keeps True ?J m \<Longrightarrow> hoare True ?J m (\<lambda>_. ?J) ?E" for m :: "(flight_state \<times> 'w, rc_exn, 'x) act"
      unfolding keeps_def by (erule late) (rule attemptedI)
    have raise_late: "hoare True ?J (raise e) Q' ?E" for e and Q' :: "'x \<Rightarrow> _"
      by (rule late [OF hoare_raise]) (rule attemptedI)
    have won: "hoare True ?J (act_bind (on_world (co_clock self)) (\<lambda>now.
                 if float_le deadline now
                 then act_then (flight_cleanup self lease_key am) (raise (coordination_timeout_error DEADLINE_EXCEEDED))
                 else
                   act_bind (on_world (co_clock self)) (\<lambda>now.
                   act_bind (run_owner self key loader lease_key result_key am cm
                       (float_add now (ro_lease_ttl (co_options self)))) (\<lambda>r. return (Some r))))) ?Q ?E" for am cm
    proof (intro hoare_bind [OF later [OF rules(1)]] hoare_if hoare_then [OF later [OF keeps_flight_cleanup [OF env]]] raise_late)
      fix now
      have ret: "hoare True (\<lambda>s. snd r \<noteq> RESULT_REUSED \<and> at_flight cnt (n + 1) (a + 1) p s) (return (Some r)) ?Q ?E" for r
        using True by (intro hoare_pre [OF hoare_return]) simp
      show "hoare True ?J (act_bind (run_owner self key loader lease_key result_key am cm
                       (float_add now (ro_lease_ttl (co_options self)))) (\<lambda>r. return (Some r))) ?Q ?E"
        by (rule hoare_bind [OF late [OF run_owner_total [OF env]] ret]) (rule attemptedI)
    qed
    have lost: "hoare True ?J (act_then (check_deadline self deadline) (return None)) ?Q ?E"
      by (intro hoare_then [OF later [OF keeps_check_deadline [OF env]]] hoare_pre [OF hoare_return]) (use True in simp)
    have counted: "hoare True ?I (modify (\<lambda>(st, w). (st\<lparr>fs_attempts := fs_attempts st + 1\<rparr>, w))) (\<lambda>_. ?J) ?E"
      by (auto simp: hoare_def act_simps at_flight_def split: prod.splits)
    have go: "hoare True (\<lambda>s. q = a \<and> ?I s) (if q \<ge> ro_max_attempts (co_options self) then raise (coordination_timeout_error ATTEMPTS_EXHAUSTED)
      else
        act_bind (on_world (co_token self)) (\<lambda>generated.
        act_bind (lift (validate_owner_token (PyStr generated))) (\<lambda>token.
        let active_marker = ustr ''active:'' @ token; completion_marker = ustr ''completed:'' @ token
        in
          act_then (check_deadline self deadline)
          (act_then (modify (\<lambda>(st, w). (st\<lparr>fs_attempts := fs_attempts st + 1\<rparr>, w)))
          (act_bind (on_world (provider_set_if_absent (co_provider self) (PyStr lease_key) (PyBytes active_marker)
              (PyFloat (ro_lease_ttl (co_options self))))) (\<lambda>acquired.
             if acquired
             then
               act_bind (on_world (co_clock self)) (\<lambda>now.
                 if float_le deadline now
                 then act_then (flight_cleanup self lease_key active_marker) (raise (coordination_timeout_error DEADLINE_EXCEEDED))
                 else
                   act_bind (on_world (co_clock self)) (\<lambda>now.
                   act_bind (run_owner self key loader lease_key result_key active_marker completion_marker
                       (float_add now (ro_lease_ttl (co_options self)))) (\<lambda>r. return (Some r))))
             else act_then (check_deadline self deadline) (return None))))))) ?Q ?E" for q
      unfolding Let_def
      by (rule hoare_conj_pre, rule hoare_if, use True in simp,
          intro hoare_bind [OF first [OF rules(3)]] hoare_bind [OF first [OF keeps_lift]] hoare_then [OF deadline]
            hoare_then [OF counted] hoare_bind [OF later [OF rules(5)]] hoare_if [OF won lost])
    have "hoare True ?I (gets (\<lambda>(st, w). fs_attempts st)) (\<lambda>q s. q = a \<and> ?I s) ?E"
      by (auto simp: hoare_def act_simps at_flight_def split: prod.splits)
    then show ?thesis unfolding flight_attempt_def by (intro hoare_then [OF deadline] hoare_bind [OF _ go])
  qed
qed

text \<open>What a flight may leave behind: its counters within the budgets, and at most one run of the loader.\<close>

definition within_budget :: "('w, 'v) coordinator \<Rightarrow> ('w \<Rightarrow> nat) \<Rightarrow> nat \<Rightarrow> flight_state \<times> 'w \<Rightarrow> bool" where
  "within_budget self cnt n s \<longleftrightarrow>
     fs_attempts (fst s) \<le> ro_max_attempts (co_options self) \<and> fs_polls (fst s) \<le> ro_max_polls (co_options self)
     \<and> (cnt (snd s) = n \<or> cnt (snd s) = n + 1)"

definition flight_done :: "('w, 'v) coordinator \<Rightarrow> ('w \<Rightarrow> nat) \<Rightarrow> nat \<Rightarrow> 'v \<times> flight_outcome \<Rightarrow> flight_state \<times> 'w \<Rightarrow> bool" where
  "flight_done self cnt n r s \<longleftrightarrow>
     within_budget self cnt n s \<and> cnt (snd s) = (if snd r = RESULT_REUSED then n else n + 1)"

lemma run_flight_total:
  assumes env: "flight_env self loader cnt"
  shows "a \<le> ro_max_attempts (co_options self) \<Longrightarrow> p < ro_max_polls (co_options self) \<Longrightarrow>
    hoare True (at_flight cnt n a p) (run_flight self key loader deadline lease_key result_key)
      (flight_done self cnt n) (\<lambda>_. within_budget self cnt n)"
proof (induction "nat (ro_max_attempts (co_options self) - a)" arbitrary: a p rule: less_induct)
  case less
  let ?E = "\<lambda>_. within_budget self cnt n" and ?Q = "flight_done self cnt n"
    and ?A = "\<lambda>r s. a < ro_max_attempts (co_options self)
        \<and> (if r = None then at_flight cnt n (a + 1) p s else snd (the r) \<noteq> RESULT_REUSED \<and> at_flight cnt (n + 1) (a + 1) p s)"
  have attempt: "hoare True (at_flight cnt n a p) (flight_attempt self key loader deadline lease_key result_key) ?A ?E"
    using flight_attempt_total [OF env] by (rule hoare_weaken)
      (use less.prems in \<open>auto simp: within_budget_def attempted_def at_flight_def\<close>)
  have poll: "hoare True (at_flight cnt n (a + 1) p) (poll_loop self deadline lease_key result_key)
      (\<lambda>_ s. \<exists>q<ro_max_polls (co_options self). at_flight cnt n (a + 1) q s) ?E" if "a < ro_max_attempts (co_options self)"
    using poll_loop_total [OF env less.prems(2)] by (rule hoare_weaken)
      (use that in \<open>auto simp: within_budget_def polls_ok_def\<close>)
  have again: "hoare True (\<lambda>s. \<exists>q<ro_max_polls (co_options self). at_flight cnt n (a + 1) q s)
      (run_flight self key loader deadline lease_key result_key) ?Q ?E" if "a < ro_max_attempts (co_options self)"
  proof -
    have "hoare True (at_flight cnt n (a + 1) q) (run_flight self key loader deadline lease_key result_key) ?Q ?E"
      if "q < ro_max_polls (co_options self)" for q
      by (rule less.hyps) (use that \<open>a < ro_max_attempts (co_options self)\<close> in simp_all)
    then show ?thesis unfolding hoare_def by blast
  qed
  have "hoare True (?A owned) (if owned \<noteq> None then return (the owned)
       else
         act_bind (poll_loop self deadline lease_key result_key) (\<lambda>reused.
           if reused \<noteq> None then return (the reused, RESULT_REUSED)
           else run_flight self key loader deadline lease_key result_key)) ?Q ?E" for owned
  proof (cases owned)
    case (Some r)
    then show ?thesis
      using less.prems(2)
      by (simp, intro hoare_pre [OF hoare_return]) (auto simp: flight_done_def within_budget_def at_flight_def)
  next
    case None
    have reuse: "hoare True (\<lambda>s. \<exists>q<ro_max_polls (co_options self). at_flight cnt n (a + 1) q s)
        (return (v, RESULT_REUSED)) ?Q ?E" if "a < ro_max_attempts (co_options self)" for v
      using that by (intro hoare_pre [OF hoare_return]) (auto simp: flight_done_def within_budget_def at_flight_def)
    have "hoare True (\<lambda>s. a < ro_max_attempts (co_options self) \<and> at_flight cnt n (a + 1) p s)
        (act_bind (poll_loop self deadline lease_key result_key) (\<lambda>reused.
           if reused \<noteq> None then return (the reused, RESULT_REUSED)
           else run_flight self key loader deadline lease_key result_key)) ?Q ?E"
      by (rule hoare_conj_pre, rule hoare_bind [OF poll], assumption, rule hoare_if, rule reuse, assumption, rule again)
    then show ?thesis by (simp add: None)
  qed
  from hoare_bind [OF attempt this] show ?case unfolding hoare_def by (subst (asm) run_flight.simps [symmetric])
qed

section \<open>Properties\<close>

text \<open>
  C4: a coordinated load ends within its budgets, whatever other processes do: after at most \<open>max_attempts\<close>
  attempts at the lease and \<open>max_polls\<close> looks at the keys it returns or raises, if what it calls does. The
  loader runs at most once; exactly once if the value is reported as loaded (also where the lease was
  lost meanwhile), and not at all if a result of another owner is reused.
\<close>

theorem flight_within_budget:
  assumes "flight_env self loader cnt" "1 \<le> ro_max_attempts (co_options self)" "1 \<le> ro_max_polls (co_options self)"
  shows "\<exists>r st w'. run_flight self key loader deadline lease_key result_key (fresh_flight started, w) = Some (r, (st, w'))
     \<and> fs_attempts st \<le> ro_max_attempts (co_options self) \<and> fs_polls st \<le> ro_max_polls (co_options self)
     \<and> cnt w' \<in> {cnt w, cnt w + 1}
     \<and> (\<forall>v oc. r = Inr (v, oc) \<longrightarrow> cnt w' = (if oc = RESULT_REUSED then cnt w else cnt w + 1))"
proof -
  have start: "at_flight cnt (cnt w) 0 0 (fresh_flight started, w)" by (simp add: at_flight_def fresh_flight_def)
  have "hoare True (at_flight cnt (cnt w) 0 0) (run_flight self key loader deadline lease_key result_key)
      (flight_done self cnt (cnt w)) (\<lambda>_. within_budget self cnt (cnt w))"
    using assms by (intro run_flight_total) simp_all
  from hoare_endsD [OF this start] hoare_raiseD [OF this start] hoare_returnD [OF this start]
  obtain r s' where run: "run_flight self key loader deadline lease_key result_key (fresh_flight started, w) = Some (r, s')"
    and e: "\<And>e. r = Inl e \<Longrightarrow> within_budget self cnt (cnt w) s'" and v: "\<And>x. r = Inr x \<Longrightarrow> flight_done self cnt (cnt w) x s'"
    by blast
  show ?thesis
  proof (intro exI conjI)
    show "run_flight self key loader deadline lease_key result_key (fresh_flight started, w) = Some (r, (fst s', snd s'))"
      using run by simp
    have "within_budget self cnt (cnt w) s'" using e v by (cases r) (auto simp: flight_done_def)
    then show "fs_attempts (fst s') \<le> ro_max_attempts (co_options self)" "fs_polls (fst s') \<le> ro_max_polls (co_options self)"
      "cnt (snd s') \<in> {cnt w, cnt w + 1}"
      by (auto simp: within_budget_def)
    show "\<forall>v oc. r = Inr (v, oc) \<longrightarrow> cnt (snd s') = (if oc = RESULT_REUSED then cnt w else cnt w + 1)"
      using v by (auto simp: flight_done_def)
  qed
qed

section \<open>A concrete environment\<close>

text \<open>What the parts of a coordinator have to keep for its operations to keep it.\<close>

lemma provider_keeps:
  assumes put: "\<And>d s. I (pv_put p d s) = I s" and observer: "\<And>f ev. pv_observer p = Some f \<Longrightarrow> keeps b I (f ev)"
    and client: "\<And>x v nx t. keeps b I (rl_set (pv_client p) x v nx t)" "\<And>f ks as. keeps b I (rl_eval (pv_client p) f ks as)"
  shows "keeps b I (provider_set_if_absent p (k :: pyval) v t)" "keeps b I (provider_delete_if_value p k v)"
    "keeps b I (provider_snapshot p k k' m m')" "keeps b I (provider_publish p k x k' r c t)"
proof -
  have block: "keeps b I (provider_block p f)" for f :: "provider_data \<Rightarrow> (rc_exn + 'c) \<times> provider_data"
    by (auto simp: keeps_def hoare_def provider_block_def put split: prod.splits sum.splits)
  have emit: "keeps b I (provider_emit p op oc c t)" for op oc c t
  proof (cases "pv_observer p")
    case (Some f)
    then show ?thesis
      unfolding provider_emit_def emit_event_def provider_emit_to_def by (simp, intro hoare_rules observer [OF Some])
  qed (simp add: provider_emit_def emit_event_def provider_emit_to_def [abs_def], intro hoare_rules)
  have fails: "keeps b I (case error of RedisProviderError _ code \<Rightarrow> act_then (provider_emit p op RO_FAILURE (Some code) t) (raise error)
       | _ \<Rightarrow>
           if is_type_or_value_error error
           then act_then (provider_emit p op RO_FAILURE (Some RC_INVALID_INPUT) t) (raise error)
           else if is_exception error
           then act_then (provider_emit p op RO_FAILURE (Some (error_code error)) t) (raise (wrapped_error op (error_code error)))
           else raise error)" for error op t
    by (cases error) (auto intro!: hoare_rules emit)
  have execute: "keeps b I action \<Longrightarrow> keeps b I (provider_execute p op action)" for op and action :: "('a, rc_exn, 'c) act"
    unfolding provider_execute_def by (intro hoare_rules block emit fails)
  show "keeps b I (provider_set_if_absent p k v t)" "keeps b I (provider_delete_if_value p k v)"
    "keeps b I (provider_snapshot p k k' m m')" "keeps b I (provider_publish p k x k' r c t)"
    unfolding provider_set_if_absent_def provider_delete_if_value_def provider_snapshot_def provider_publish_def
    by (intro execute hoare_rules client)+
qed

lemma codec_keeps:
  fixes self :: "('w, 'v) envelope_codec"
  assumes "\<And>x. keeps b I (pc_encode (ec_payload_codec self) x)" "\<And>x. keeps b I (pc_decode (ec_payload_codec self) x)"
    and "\<And>x. keeps b I (ef_encode (ec_format self) x)" "\<And>x. keeps b I (ef_decode (ec_format self) x)"
    and "\<And>c. ec_compressor self = Some c \<Longrightarrow> keeps b I (cm_algorithm c)"
      "\<And>c x. ec_compressor self = Some c \<Longrightarrow> keeps b I (cm_compress c x)"
      "\<And>a c x. map_of (ec_readers self) a = Some c \<Longrightarrow> keeps b I (cm_decompress c x)"
  shows "keeps b I (codec_encode self t v)" "keeps b I (decode_matching self d t)"
proof -
  have wrap: "keeps b I m \<Longrightarrow> keeps b I (wrap_failure m e)" "keeps b I m \<Longrightarrow> keeps b I (wrap_any m e)"
    for m :: "('w, rc_exn, 'c) act" and e
    unfolding wrap_failure_def wrap_any_def by (intro hoare_rules, assumption)+
  have exact: "keeps b I (exact_bytes v e)" for v e unfolding exact_bytes_def by (intro hoare_rules)
  show "keeps b I (codec_encode self t v)"
    unfolding codec_encode_def compress_payload_def algorithm_for_def
    by (auto intro!: hoare_rules wrap exact assms split: prod.splits)
  show "keeps b I (decode_matching self d t)"
    unfolding decode_matching_def decompress_payload_def
    by (auto intro!: hoare_rules wrap exact assms split: prod.splits)
qed

text \<open>A state with a server, a provider, a clock that ticks when it is read, and a count of the loader's runs.\<close>

record flight_world = provider_world +
  fw_clock :: int
  fw_loads :: nat

definition demo_options :: load_options where
  "demo_options =
     \<lparr>ro_namespace = ustr ''ns'', ro_lease_ttl = Finite 10, ro_result_ttl = Finite 20,
      ro_poll_interval = Finite (1 / 4), ro_max_poll_interval = Finite 1, ro_wait_timeout = Finite 5,
      ro_max_attempts = 3, ro_max_polls = 4, ro_redis_io_timeout = Finite 1\<rparr>"

definition demo_coordinator :: "pystr \<Rightarrow> (flight_world, pybytes) coordinator" where
  "demo_coordinator token =
     \<lparr>co_get_or_load = (\<lambda>k loader _. loader k), co_provider = demo_provider, co_codec = demo_codec, co_options = demo_options,
      co_observer = None, co_namespace_id = ustr ''n1'',
      co_clock = (\<lambda>w. Some (Inr (Finite (of_int (fw_clock w))), w\<lparr>fw_clock := fw_clock w + 1\<rparr>)),
      co_now = fw_clock, co_sleep = (\<lambda>_. return ()), co_jitter = return (Finite (1 / 2)), co_token = return token,
      co_sha256 = (\<lambda>_. ustr ''d1''), co_log2 = (\<lambda>_. Finite 2)\<rparr>"

definition demo_loader :: "pystr \<Rightarrow> (flight_world, rc_exn, pybytes) act" where
  "demo_loader k = (\<lambda>w. Some (Inr [255, 7], w\<lparr>fw_loads := fw_loads w + 1\<rparr>))"

lemma demo_on_server:
  assumes "\<And>v. m v \<noteq> None"
  shows "keeps True (\<lambda>w. fw_loads w = n) (on_result_server pw_server (\<lambda>v. pw_server_update (\<lambda>_. v)) m f)"
proof (rule keepsI)
  fix w
  obtain r v where "m (pw_server w) = Some (r, v)" using assms [of "pw_server w"] by fast
  then show "on_result_server pw_server (\<lambda>v. pw_server_update (\<lambda>_. v)) m f w = None \<Longrightarrow> \<not> True"
    by (cases r) (simp_all add: on_result_server_def)
qed (auto simp: on_result_server_def split: option.splits sum.splits)

lemma demo_codec_keeps: "keeps b I (codec_encode demo_codec t v)" "keeps b I (decode_matching demo_codec d t)"
  by (rule codec_keeps; auto simp: demo_codec_def demo_payload_codec_def demo_compressor_def binary_format_def
      split: if_splits intro!: hoare_rules)+

lemma demo_flight_env: "flight_env (demo_coordinator token) demo_loader fw_loads"
proof -
  have eval: "result_server_eval kv_result script ks args v \<noteq> None" for script ks args v
    unfolding result_server_eval_def compare_and_delete_script_def coordination_snapshot_script_def publish_if_value_script_def Let_def
    by (auto simp: act_simps kv_result_def split: result_script.split list.split script_arg.split)
  have total: "rr_set_px kv_result k x t v \<noteq> None" "rr_set_nx_px kv_result k x t v \<noteq> None" for k x t v
    by (simp_all add: kv_result_def)
  note ops = provider_keeps [where I = "\<lambda>w. fw_loads w = n" and p = demo_provider and b = True for n]
  have client: "keeps True (\<lambda>w. fw_loads w = n) (rl_set (pv_client demo_provider) x v nx t)"
    "keeps True (\<lambda>w. fw_loads w = n) (rl_eval (pv_client demo_provider) f ks as)" for n x v nx t f ks as
    by (simp_all add: demo_provider_def server_client_def Let_def demo_on_server eval total)
  have put: "fw_loads (pv_put demo_provider d s) = fw_loads s" "pv_observer demo_provider = None" for d s
    by (simp_all add: demo_provider_def)
  show ?thesis
    unfolding flight_env_def demo_coordinator_def
    by (simp add: demo_codec_keeps, intro conjI allI ops client)
      (simp_all add: put keeps_def hoare_def act_simps demo_loader_def)
qed

lemma flight_within_budget_witness:
  "\<exists>r st w'. run_flight (demo_coordinator (ustr ''o1'')) (ustr ''k'') demo_loader (Finite 5) (ustr ''k1'') (ustr ''k2'')
       (fresh_flight 0, \<lparr>pw_server = Map.empty, pw_data = provider_fresh, pw_ns = 0, fw_clock = 0, fw_loads = 0\<rparr>) = Some (r, (st, w'))
     \<and> fs_attempts st \<le> 3 \<and> fs_polls st \<le> 4 \<and> fw_loads w' \<in> {0, 1}"
  using flight_within_budget [OF demo_flight_env, of "ustr ''o1''" "ustr ''k''" "Finite 5" "ustr ''k1''" "ustr ''k2''" 0
      "\<lparr>pw_server = Map.empty, pw_data = provider_fresh, pw_ns = 0, fw_clock = 0, fw_loads = 0\<rparr>"]
  by (auto simp: demo_coordinator_def demo_options_def)

end
