(* ===== verification/Coordination_Runs.thy ===== *)
theory Coordination_Runs
  imports Coordination
begin

text \<open>
  Coordinators of several processes that share one lease key and one result key: a step relation over the
  operations of their providers, in any interleaving and with expiry at any time, and what a coordinator
  may rely on when it reuses a result. \<open>srv\<close> is the server in the state of the whole system, \<open>rv\<close> the view of
  its keys.
\<close>

section \<open>What the operations do to the two keys\<close>

text \<open>A closed provider refuses an operation and leaves the server alone.\<close>

lemma execute_refused:
  assumes "provider_quiet self srv put" "pd_state (pv_get self s) \<noteq> OPEN"
  shows "\<exists>e s'. provider_execute self op action s = Some (Inl e, s') \<and> srv s' = srv s"
proof -
  note q = quietD [OF assms(1)]
  let ?s1 = "pv_put self (pv_get self s) s"
  have "provider_block self (provider_admit op) s = Some (Inl (provider_closed_error op), ?s1)"
    by (simp add: provider_block_def provider_admit_def assms(2))
  moreover have "pv_now self s \<le> pv_now self ?s1" by (simp add: q)
  from emit_quiet [OF assms(1) this] obtain s2 where
    "provider_emit self op RO_FAILURE (Some RC_CLOSED) (pv_now self s) ?s1 = Some (Inr (), s2)" "srv s2 = srv s"
    by (metis q(2))
  ultimately show ?thesis by (simp add: provider_execute_def act_simps)
qed

text \<open>A coordinator that works on the server with valid settings.\<close>

definition shares ::
  "'r result_redis \<Rightarrow> ('w \<Rightarrow> 'r) \<Rightarrow> ('r \<Rightarrow> 'w \<Rightarrow> 'w) \<Rightarrow> ('w, 'v) envelope_codec \<Rightarrow> ('w, 'v) coordinator \<Rightarrow> bool" where
  "shares R srv put codec self \<longleftrightarrow>
     result_serving (pv_client (co_provider self)) R srv put \<and> provider_quiet (co_provider self) srv put
     \<and> co_codec self = codec \<and> 1 \<le> ec_max_encoded_size codec \<and> ec_max_encoded_size codec \<le> default_max_encoded_size
     \<and> (\<exists>n. 0 < n \<and> ttl_milliseconds (PyFloat (ro_lease_ttl (co_options self))) = Inr n)
     \<and> (\<exists>n. 0 < n \<and> ttl_milliseconds (PyFloat (ro_result_ttl (co_options self))) = Inr n)"

text \<open>The server's laws and the two keys.\<close>

definition two_keys :: "'r result_redis \<Rightarrow> ('r \<Rightarrow> rview) \<Rightarrow> pystr \<Rightarrow> pystr \<Rightarrow> pybytes \<Rightarrow> pybytes \<Rightarrow> bool" where
  "two_keys R rv lk rk kb1 kb2 \<longleftrightarrow> result_laws R rv \<and> key_ok lk kb1 \<and> key_ok rk kb2 \<and> lk \<noteq> rk \<and> kb1 \<noteq> kb2"

lemma sharesD:
  assumes "shares R srv put codec self"
  shows "result_serving (pv_client (co_provider self)) R srv put" "provider_quiet (co_provider self) srv put"
    "co_codec self = codec" "1 \<le> ec_max_encoded_size codec" "ec_max_encoded_size codec \<le> default_max_encoded_size"
  using assms by (simp_all add: shares_def)

lemma two_keysD:
  assumes "two_keys R rv lk rk kb1 kb2"
  shows "result_laws R rv" "key_ok lk kb1" "key_ok rk kb2" "lk \<noteq> rk" "kb1 \<noteq> kb2"
  using assms by (simp_all add: two_keys_def)

lemma acquire_effect:
  assumes c: "shares R srv put codec self" and keys: "two_keys R rv lk rk kb1 kb2"
    and run: "provider_set_if_absent (co_provider self) (PyStr lk) (PyBytes x) (PyFloat (ro_lease_ttl (co_options self))) w = Some (r, w')"
  shows "rv (srv w') = rv (srv w) \<or> rv (srv w) kb1 = None \<and> (\<exists>n. rv (srv w') = (rv (srv w))(kb1 \<mapsto> (RStr x, n)))"
proof (cases "pd_state (pv_get (co_provider self) w) = OPEN")
  case True
  obtain n where n: "0 < n" "ttl_milliseconds (PyFloat (ro_lease_ttl (co_options self))) = Inr n" using c by (auto simp: shares_def)
  from provider_set_if_absent_on_server [OF sharesD(1,2) [OF c] True two_keysD(1,2) [OF keys] n(2,1), of x] show ?thesis
    by (auto simp: provides_def fails_with_def run split: if_splits)
next
  case False
  from execute_refused [OF sharesD(2) [OF c] this] obtain e s' where
    "provider_set_if_absent (co_provider self) (PyStr lk) (PyBytes x) (PyFloat (ro_lease_ttl (co_options self))) w = Some (Inl e, s')"
    "srv s' = srv w" unfolding provider_set_if_absent_def by blast
  with run show ?thesis by simp
qed

lemma delete_effect:
  assumes c: "shares R srv put codec self" and keys: "two_keys R rv lk rk kb1 kb2" and s: "string_or_none (rv (srv w)) kb1"
    and run: "provider_delete_if_value (co_provider self) (PyStr lk) (PyBytes x) w = Some (r, w')"
  shows "rv (srv w') \<in> {rv (srv w), (rv (srv w))(kb1 := None)}"
proof (cases "pd_state (pv_get (co_provider self) w) = OPEN")
  case True
  from provider_delete_if_value_on_server [OF sharesD(1,2) [OF c] True two_keysD(1,2) [OF keys] s, of x] show ?thesis
    by (auto simp: provides_def run split: if_splits)
next
  case False
  from execute_refused [OF sharesD(2) [OF c] this] obtain e s' where
    "provider_delete_if_value (co_provider self) (PyStr lk) (PyBytes x) w = Some (Inl e, s')" "srv s' = srv w"
    unfolding provider_delete_if_value_def by blast
  with run show ?thesis by simp
qed

lemma publish_effect:
  assumes c: "shares R srv put codec self" and keys: "two_keys R rv lk rk kb1 kb2" and s: "string_or_none (rv (srv w)) kb1"
    and run: "provider_publish (co_provider self) (PyStr lk) (PyBytes x) (PyStr rk) (PyBytes y) (PyBytes z)
        (PyFloat (ro_result_ttl (co_options self))) w = Some (r, w')"
  shows "rv (srv w') = rv (srv w)
     \<or> holds (rv (srv w)) kb1 x \<and> (\<exists>n. rv (srv w') = (rv (srv w))(kb2 \<mapsto> (RStr y, n))
          \<or> r = Inr True \<and> rv (srv w') = (rv (srv w))(kb2 \<mapsto> (RStr y, n), kb1 \<mapsto> (RStr z, n)))"
proof (cases "pd_state (pv_get (co_provider self) w) = OPEN")
  case True
  obtain n where n: "0 < n" "ttl_milliseconds (PyFloat (ro_result_ttl (co_options self))) = Inr n" using c by (auto simp: shares_def)
  from provider_publish_on_server [OF sharesD(1,2) [OF c] True two_keysD(1-5) [OF keys] s n(2,1), of x y z] show ?thesis
    by (auto simp: provides_def fails_with_def run split: if_splits)
next
  case False
  from execute_refused [OF sharesD(2) [OF c] this] obtain e s' where
    "provider_publish (co_provider self) (PyStr lk) (PyBytes x) (PyStr rk) (PyBytes y) (PyBytes z)
        (PyFloat (ro_result_ttl (co_options self))) w = Some (Inl e, s')" "srv s' = srv w"
    unfolding provider_publish_def by blast
  with run show ?thesis by simp
qed

lemma snapshot_effect:
  assumes c: "shares R srv put codec self" and keys: "two_keys R rv lk rk kb1 kb2"
    and s: "string_or_none (rv (srv w)) kb1" "string_or_none (rv (srv w)) kb2"
    and run: "provider_snapshot (co_provider self) (PyStr lk) (PyStr rk) (PyInt max_coordination_marker_size)
        (PyInt (ec_max_encoded_size codec)) w = Some (r, w')"
  shows "rv (srv w') = rv (srv w) \<and> (\<forall>sn. r = Inr sn \<longrightarrow>
     sn = abs_snapshot max_coordination_marker_size (ec_max_encoded_size codec) (string_at (rv (srv w)) kb1) (string_at (rv (srv w)) kb2))"
proof (cases "pd_state (pv_get (co_provider self) w) = OPEN")
  case True
  have "1 \<le> max_coordination_marker_size" by (simp add: max_coordination_marker_size_def)
  from provider_snapshot_on_server [OF sharesD(1,2) [OF c] True two_keysD(1-4) [OF keys] s this order_refl sharesD(4,5) [OF c]]
  show ?thesis by (auto simp: provides_def run)
next
  case False
  from execute_refused [OF sharesD(2) [OF c] this] obtain e s' where
    "provider_snapshot (co_provider self) (PyStr lk) (PyStr rk) (PyInt max_coordination_marker_size)
        (PyInt (ec_max_encoded_size codec)) w = Some (Inl e, s')" "srv s' = srv w"
    unfolding provider_snapshot_def by blast
  with run show ?thesis by auto
qed

section \<open>Interleavings\<close>

definition active_marker :: "pystr \<Rightarrow> pybytes" where
  "active_marker t = ustr ''active:'' @ t"

definition completed_marker :: "pystr \<Rightarrow> pybytes" where
  "completed_marker t = ustr ''completed:'' @ t"

text \<open>A state of the system, and what was published so far, with the owner's token. A step is
  one operation of a coordinator's provider, whatever it returns, or anything else that happens in the
  system (time passes, loaders run, callers come and go), which lets keys expire but does not write them.\<close>

inductive coord_step ::
  "(nat \<Rightarrow> ('w, 'v) coordinator) \<Rightarrow> ('w \<Rightarrow> rview) \<Rightarrow> pystr \<Rightarrow> pystr \<Rightarrow> pybytes set
   \<Rightarrow> 'w \<times> (pystr \<times> 'v) list \<Rightarrow> 'w \<times> (pystr \<times> 'v) list \<Rightarrow> bool"
  for C vw lk rk ks where
  acquires: "provider_set_if_absent (co_provider (C i)) (PyStr lk) (PyBytes (active_marker t))
      (PyFloat (ro_lease_ttl (co_options (C i)))) w = Some (r, w') \<Longrightarrow> coord_step C vw lk rk ks (w, h) (w', h)"
| publishes: "codec_encode (co_codec (C i)) (PyStr t) v u = Some (Inr data, u') \<Longrightarrow>
    provider_publish (co_provider (C i)) (PyStr lk) (PyBytes (active_marker t)) (PyStr rk) (PyBytes data)
      (PyBytes (completed_marker t)) (PyFloat (ro_result_ttl (co_options (C i)))) w = Some (r, w') \<Longrightarrow>
    coord_step C vw lk rk ks (w, h) (w', if r = Inr True then (t, v) # h else h)"
| cleans_up: "provider_delete_if_value (co_provider (C i)) (PyStr lk) (PyBytes (active_marker t)) w = Some (r, w') \<Longrightarrow>
    coord_step C vw lk rk ks (w, h) (w', h)"
| looks: "provider_snapshot (co_provider (C i)) (PyStr lk) (PyStr rk) (PyInt max_coordination_marker_size)
      (PyInt (ec_max_encoded_size (co_codec (C i)))) w = Some (r, w') \<Longrightarrow> coord_step C vw lk rk ks (w, h) (w', h)"
| elapses: "\<forall>k\<in>ks. vw w' k = None \<or> map_option fst (vw w' k) = map_option fst (vw w k) \<Longrightarrow>
    coord_step C vw lk rk ks (w, h) (w', h)"

text \<open>A completed marker stands beside the result of its own owner, or beside none.\<close>

definition encodes :: "('w, 'v) envelope_codec \<Rightarrow> pystr \<Rightarrow> 'v \<Rightarrow> pybytes \<Rightarrow> bool" where
  "encodes codec t v data \<longleftrightarrow> (\<exists>u u'. codec_encode codec (PyStr t) v u = Some (Inr data, u'))"

definition coord_inv :: "('w, 'v) envelope_codec \<Rightarrow> ('w \<Rightarrow> rview) \<Rightarrow> pybytes \<Rightarrow> pybytes \<Rightarrow> 'w \<times> (pystr \<times> 'v) list \<Rightarrow> bool" where
  "coord_inv codec vw kb1 kb2 = (\<lambda>(w, h).
     string_or_none (vw w) kb1 \<and> string_or_none (vw w) kb2
     \<and> (\<forall>t. holds (vw w) kb1 (completed_marker t) \<longrightarrow>
          vw w kb2 = None \<or> (\<exists>v data. (t, v) \<in> set h \<and> encodes codec t v data \<and> holds (vw w) kb2 data)))"

lemma markers [simp]: "active_marker t \<noteq> completed_marker t'" "completed_marker t' \<noteq> active_marker t"
  "completed_marker t = completed_marker t' \<longleftrightarrow> t = t'"
  by (simp_all add: active_marker_def completed_marker_def ustr_def)

lemma coord_invI:
  assumes "string_or_none (vw w) kb1" "string_or_none (vw w) kb2"
    and "\<And>t. holds (vw w) kb1 (completed_marker t) \<Longrightarrow>
      vw w kb2 = None \<or> (\<exists>v data. (t, v) \<in> set h \<and> encodes codec t v data \<and> holds (vw w) kb2 data)"
  shows "coord_inv codec vw kb1 kb2 (w, h)"
  using assms by (simp add: coord_inv_def)

lemma coord_inv_step:
  fixes C :: "nat \<Rightarrow> ('w, 'v) coordinator"
  assumes c: "\<And>i. shares R srv put codec (C i)" and keys: "two_keys R rv lk rk kb1 kb2"
    and inv: "coord_inv codec (rv \<circ> srv) kb1 kb2 x" and step: "coord_step C (rv \<circ> srv) lk rk {kb1, kb2} x y"
  shows "coord_inv codec (rv \<circ> srv) kb1 kb2 y"
proof -
  have ne: "kb1 \<noteq> kb2" "kb2 \<noteq> kb1" using keys by (auto simp: two_keys_def)
  have strings: "string_or_none (rv (srv w)) kb1" "string_or_none (rv (srv w)) kb2"
    and old: "holds (rv (srv w)) kb1 (completed_marker t) \<Longrightarrow> rv (srv w) kb2 = None
      \<or> (\<exists>v data. (t, v) \<in> set h \<and> encodes codec t v data \<and> holds (rv (srv w)) kb2 data)" if "x = (w, h)" for w h t
    using inv that by (auto simp: coord_inv_def)
  show ?thesis
    using step
  proof cases
    case (acquires i t w r w' h)
    from acquire_effect [OF c keys acquires(3)] show ?thesis
      unfolding acquires(2) using strings [OF acquires(1)] old [OF acquires(1)] ne
      by (intro coord_invI) (auto simp: string_or_none_def holds_def, blast+)
  next
    case (publishes i t v u data u' w r w' h)
    have "encodes codec t v data" using publishes(3) sharesD(3) [OF c] by (auto simp: encodes_def)
    with publish_effect [OF c keys strings(1) [OF publishes(1)] publishes(4)] show ?thesis
      unfolding publishes(2) using strings [OF publishes(1)] old [OF publishes(1)] ne
      by (intro coord_invI) (auto simp: string_or_none_def holds_def, blast+)
  next
    case (cleans_up i t w r w' h)
    from delete_effect [OF c keys strings(1) [OF cleans_up(1)] cleans_up(3)] show ?thesis
      unfolding cleans_up(2) using strings [OF cleans_up(1)] old [OF cleans_up(1)] ne
      by (intro coord_invI) (auto simp: string_or_none_def holds_def, blast+)
  next
    case (looks i w r w' h)
    from snapshot_effect [OF c keys strings [OF looks(1)]] looks(3) have "rv (srv w') = rv (srv w)"
      unfolding sharesD(3) [OF c] by blast
    then show ?thesis unfolding looks(2) using strings [OF looks(1)] old [OF looks(1)] by (intro coord_invI) simp_all
  next
    case (elapses w' w h)
    then have e: "rv (srv w') k = None \<or> map_option fst (rv (srv w') k) = map_option fst (rv (srv w) k)" if "k \<in> {kb1, kb2}" for k
      using that by auto
    have came: "holds (rv (srv w')) k d \<Longrightarrow> holds (rv (srv w)) k d"
      and stays: "holds (rv (srv w)) k d \<Longrightarrow> rv (srv w') k = None \<or> holds (rv (srv w')) k d"
      and kind: "string_or_none (rv (srv w)) k \<Longrightarrow> string_or_none (rv (srv w')) k" if "k \<in> {kb1, kb2}" for k d
      using e [OF that] by (cases "rv (srv w) k"; cases "rv (srv w') k"; auto simp: holds_def string_or_none_def)+
    have gone: "rv (srv w) kb2 = None \<Longrightarrow> rv (srv w') kb2 = None" using e [of kb2] by auto
    show ?thesis
      unfolding elapses(2)
    proof (rule coord_invI)
      show "string_or_none ((rv \<circ> srv) w') kb1" "string_or_none ((rv \<circ> srv) w') kb2"
        using kind strings [OF elapses(1)] by simp_all
      fix t
      assume "holds ((rv \<circ> srv) w') kb1 (completed_marker t)"
      then have "holds (rv (srv w)) kb1 (completed_marker t)" using came by simp
      from old [OF elapses(1) this] show "(rv \<circ> srv) w' kb2 = None
          \<or> (\<exists>v data. (t, v) \<in> set h \<and> encodes codec t v data \<and> holds ((rv \<circ> srv) w') kb2 data)"
      proof
        assume "\<exists>v data. (t, v) \<in> set h \<and> encodes codec t v data \<and> holds (rv (srv w)) kb2 data"
        then obtain v data where v: "(t, v) \<in> set h" "encodes codec t v data" "holds (rv (srv w)) kb2 data" by blast
        with stays [of kb2 data] show ?thesis by auto
      qed (simp add: gone)
    qed
  qed
qed

section \<open>What a coordinator reuses\<close>

lemma parse_completed:
  assumes "parse_marker m = Inr (ustr ''completed'', t)"
  shows "m = completed_marker t"
proof -
  have m: "58 \<in> set m" "takeWhile (\<lambda>c. c \<noteq> 58) m = ustr ''completed''" "tl (dropWhile (\<lambda>c. c \<noteq> 58) m) = t"
    using assms by (auto simp: parse_marker_def validate_owner_token_def Let_def split: if_splits sum.splits)
  then have "dropWhile (\<lambda>c. c \<noteq> 58) m \<noteq> []" by auto
  moreover from this have "hd (dropWhile (\<lambda>c. c \<noteq> 58) m) = 58" using hd_dropWhile by fast
  ultimately have "dropWhile (\<lambda>c. c \<noteq> 58) m = 58 # t" using m(3) by (metis list.collapse)
  then have "m = ustr ''completed'' @ 58 # t" using m(2) takeWhile_dropWhile_id [of "\<lambda>c. c \<noteq> 58" m] by metis
  then show ?thesis by (simp add: completed_marker_def ustr_def)
qed

lemma clipped_whole: "\<not> snd (clipped n v) \<Longrightarrow> 0 \<le> n \<Longrightarrow> fst (clipped n v) = v"
  by (cases v) (simp_all add: clipped_def)

text \<open>Where a value that is found comes from.\<close>

lemma bind_returned:
  "act_bind m f s = Some (Inr x, s') \<longleftrightarrow> (\<exists>y s1. m s = Some (Inr y, s1) \<and> f y s1 = Some (Inr x, s'))"
  "act_then m m' s = Some (Inr x, s') \<longleftrightarrow> (\<exists>y s1. m s = Some (Inr y, s1) \<and> m' s1 = Some (Inr x, s'))"
  by (auto simp: act_simps split: option.splits sum.splits)

lemma on_world_returned: "on_world m (st, w) = Some (Inr x, s') \<longleftrightarrow> (\<exists>w'. m w = Some (Inr x, w') \<and> s' = (st, w'))"
  by (auto simp: on_world_run split: option.splits)

lemma check_deadline_returned:
  "check_deadline self deadline (st, w) = Some (Inr u, s') \<Longrightarrow> \<exists>now w'. co_clock self w = Some (Inr now, w') \<and> s' = (st, w')"
  by (auto simp: check_deadline_def bind_returned on_world_returned return_run raise_run split: if_splits)

lemma reuse_found:
  assumes "reuse_result self snapshot state t w = Some (Inr (Some x), w')"
  shows "state = ustr ''completed''
    \<and> (\<exists>data. cs_result snapshot = Some data \<and> decode_matching (co_codec self) (PyBytes data) (PyStr t) w = Some (Inr (Some x), w'))"
  using assms by (auto simp: reuse_result_def act_simps split: if_splits option.splits)

lemma poll_look_found:
  assumes "poll_look self deadline lk rk (st, w) = Some (Inr (Found x), s')"
  obtains now w1 snapshot w2 marker t data w3 w4 where
    "co_clock self w = Some (Inr now, w1)"
    "provider_snapshot (co_provider self) (PyStr lk) (PyStr rk) (PyInt max_coordination_marker_size)
       (PyInt (ec_max_encoded_size (co_codec self))) w1 = Some (Inr snapshot, w2)"
    "\<not> cs_marker_oversized snapshot" "\<not> cs_result_oversized snapshot"
    "cs_marker snapshot = Some marker" "parse_marker marker = Inr (ustr ''completed'', t)" "cs_result snapshot = Some data"
    "decode_matching (co_codec self) (PyBytes data) (PyStr t) w3 = Some (Inr (Some x), w4)"
proof -
  from assms obtain s1 snapshot s2 s3 where
    1: "check_deadline self deadline (st, w) = Some (Inr (), s1)"
    and 2: "on_world (provider_snapshot (co_provider self) (PyStr lk) (PyStr rk) (PyInt max_coordination_marker_size)
       (PyInt (ec_max_encoded_size (co_codec self)))) s1 = Some (Inr snapshot, s2)"
    and 3: "check_deadline self deadline s2 = Some (Inr (), s3)"
    and rest: "(if cs_marker_oversized snapshot \<or> cs_result_oversized snapshot then raise invalid_artifact
       else case cs_marker snapshot of
         None \<Rightarrow> return Vacant
       | Some marker \<Rightarrow>
           act_bind (lift (parse_marker marker)) (\<lambda>(marker_state, marker_token).
           act_bind (on_world (reuse_result self snapshot marker_state marker_token)) (\<lambda>found.
             return (case found of Some v \<Rightarrow> Found v | None \<Rightarrow> Poll)))) s3 = Some (Inr (Found x), s')"
    unfolding poll_look_def bind_returned by auto
  have sizes: "\<not> cs_marker_oversized snapshot" "\<not> cs_result_oversized snapshot" using rest by (auto simp: raise_run split: if_splits)
  obtain marker where marker: "cs_marker snapshot = Some marker"
    using rest sizes by (cases "cs_marker snapshot") (simp_all add: return_run)
  obtain state t where p: "parse_marker marker = Inr (state, t)"
    using rest sizes marker by (cases "parse_marker marker") (auto simp: bind_returned lift_run)
  have "act_bind (on_world (reuse_result self snapshot state t))
      (\<lambda>found. return (case found of Some v \<Rightarrow> Found v | None \<Rightarrow> Poll)) s3 = Some (Inr (Found x), s')"
    using rest by (simp add: sizes marker p bind_lift_cases)
  then obtain found s4 where "on_world (reuse_result self snapshot state t) s3 = Some (Inr found, s4)"
    "(case found of Some v \<Rightarrow> Found v | None \<Rightarrow> Poll) = Found x"
    unfolding bind_returned return_run by blast
  then have 4: "on_world (reuse_result self snapshot state t) s3 = Some (Inr (Some x), s4)" by (cases found) simp_all
  obtain now w1 where w1: "co_clock self w = Some (Inr now, w1)" "s1 = (st, w1)" using check_deadline_returned [OF 1] by blast
  obtain w2 where w2: "provider_snapshot (co_provider self) (PyStr lk) (PyStr rk) (PyInt max_coordination_marker_size)
       (PyInt (ec_max_encoded_size (co_codec self))) w1 = Some (Inr snapshot, w2)" "s2 = (st, w2)"
    using 2 unfolding w1(2) on_world_returned by blast
  obtain w3 where w3: "s3 = (st, w3)" using check_deadline_returned [OF 3 [unfolded w2(2)]] by blast
  obtain w4 where "reuse_result self snapshot state t w3 = Some (Inr (Some x), w4)"
    using 4 unfolding w3 on_world_returned by blast
  from reuse_found [OF this] obtain data where st: "state = ustr ''completed''" and d: "cs_result snapshot = Some data"
    "decode_matching (co_codec self) (PyBytes data) (PyStr t) w3 = Some (Inr (Some x), w4)" by blast
  show ?thesis by (rule that [OF w1(1) w2(1) sizes marker p [unfolded st] d])
qed

text \<open>
  C6: a coordinator never hands out a wrong result of somebody else. Whatever the interleaving of the
  processes' operations with each other and with the expiry of the keys, and whichever of them fail, a value
  that a coordinator finds in Redis is one that an owner of the lease published under its own token, with
  success, and it comes out of the payload codec, the compression and the envelope as it went in; the marker
  beside it is the one that this owner left.
\<close>

theorem reused_value_was_published:
  fixes C :: "nat \<Rightarrow> ('w, 'v) coordinator" and srv :: "'w \<Rightarrow> 'r"
  assumes c: "\<And>i. shares R srv put codec (C i)" and keys: "two_keys R rv lk rk kb1 kb2"
    and codec: "envelope_codec_init pc (binary_format m) writer readers bound v0 = Some (Inr codec, v0')"
      "m \<le> max_u32_value" "payload_codec_laws pc" "\<forall>z. writer = Some z \<longrightarrow> compressor_laws z a"
    and start: "rv (srv w0) kb1 = None" "rv (srv w0) kb2 = None"
    and clock: "\<And>w h r w'. co_clock (C i) w = Some (r, w') \<Longrightarrow> \<exists>h'. (coord_step C (rv \<circ> srv) lk rk {kb1, kb2})\<^sup>*\<^sup>* (w, h) (w', h')"
    and reach: "(coord_step C (rv \<circ> srv) lk rk {kb1, kb2})\<^sup>*\<^sup>* (w0, []) (w, h)"
    and found: "poll_look (C i) deadline lk rk (st, w) = Some (Inr (Found x), s')"
  shows "\<exists>w' h' t. (coord_step C (rv \<circ> srv) lk rk {kb1, kb2})\<^sup>*\<^sup>* (w, h) (w', h')
     \<and> (t, x) \<in> set h' \<and> holds (rv (srv w')) kb1 (completed_marker t)"
proof -
  let ?vw = "rv \<circ> srv" and ?n = max_coordination_marker_size and ?m = "ec_max_encoded_size codec"
  have runs: "transition_invariant (coord_step C ?vw lk rk {kb1, kb2}) (coord_inv codec ?vw kb1 kb2)"
    by unfold_locales (rule coord_inv_step [OF c keys])
  note co = sharesD [OF c [of i]]
  from poll_look_found [OF found] obtain now w1 snapshot w2 marker t data w3 w4 where
    tick: "co_clock (C i) w = Some (Inr now, w1)"
    and look: "provider_snapshot (co_provider (C i)) (PyStr lk) (PyStr rk) (PyInt ?n) (PyInt ?m) w1 = Some (Inr snapshot, w2)"
    and sizes: "\<not> cs_marker_oversized snapshot" "\<not> cs_result_oversized snapshot"
    and marker: "cs_marker snapshot = Some marker" "parse_marker marker = Inr (ustr ''completed'', t)"
    and data: "cs_result snapshot = Some data" "decode_matching codec (PyBytes data) (PyStr t) w3 = Some (Inr (Some x), w4)"
    unfolding co(3) .
  obtain h1 where h1: "(coord_step C ?vw lk rk {kb1, kb2})\<^sup>*\<^sup>* (w, h) (w1, h1)" using clock [OF tick] by blast
  have "coord_inv codec ?vw kb1 kb2 (w0, [])" using start by (auto simp: coord_inv_def string_or_none_def holds_def)
  with transition_invariant.run_inv [OF runs rtranclp_trans [OF reach h1]]
  have strings: "string_or_none (rv (srv w1)) kb1" "string_or_none (rv (srv w1)) kb2"
    and inv: "holds (rv (srv w1)) kb1 (completed_marker t) \<Longrightarrow> rv (srv w1) kb2 = None
      \<or> (\<exists>v b. (t, v) \<in> set h1 \<and> encodes codec t v b \<and> holds (rv (srv w1)) kb2 b)"
    by (simp_all add: coord_inv_def)
  have sn: "snapshot = abs_snapshot ?n ?m (string_at (rv (srv w1)) kb1) (string_at (rv (srv w1)) kb2)"
    using snapshot_effect [OF c keys strings look] by blast
  have "string_at (rv (srv w1)) kb1 = Some marker"
    using sizes(1) marker(1) clipped_whole [of ?n "string_at (rv (srv w1)) kb1"]
    by (simp add: sn abs_snapshot_def Let_def max_coordination_marker_size_def)
  then have lease: "holds (rv (srv w1)) kb1 (completed_marker t)"
    using parse_completed [OF marker(2)] by (simp add: string_at_eq)
  moreover have "holds (rv (srv w1)) kb2 data"
    using sizes(2) data(1) clipped_whole [of ?m "if is_active (string_at (rv (srv w1)) kb1) then None else string_at (rv (srv w1)) kb2"] co(4)
    by (auto simp: sn abs_snapshot_def Let_def string_at_eq split: if_splits)
  ultimately obtain v where v: "(t, v) \<in> set h1" "encodes codec t v data"
    using inv by (auto simp: holds_def)
  then obtain u u' where "codec_encode codec (PyStr t) v u = Some (Inr data, u')" unfolding encodes_def by blast
  from encoded_reads_back [OF codec this, of w3] data(2) have "x = v" by auto
  with v(1) h1 lease show ?thesis by blast
qed

text \<open>One process acquires the lease and publishes, and another one finds the value.\<close>

definition fw_start :: flight_world where
  "fw_start = \<lparr>pw_server = Map.empty, pw_data = provider_fresh, pw_ns = 0, fw_clock = 0, fw_loads = 0\<rparr>"

definition fw_with :: "rview \<Rightarrow> flight_world" where
  "fw_with v = fw_start\<lparr>pw_server := v\<rparr>"

definition fw_coordinators :: "nat \<Rightarrow> (flight_world, pybytes) coordinator" where
  "fw_coordinators i = demo_coordinator (if i = 0 then ustr ''o1'' else ustr ''o2'')"

lemma fw_ttls: "ttl_milliseconds (PyFloat (Finite 10)) = Inr 10000" "ttl_milliseconds (PyFloat (Finite 20)) = Inr 20000"
  using round_double_of_int [of 10000] round_double_of_int [of 20000] by (simp_all add: ttl_milliseconds_def checked_milliseconds_def)

lemma fw_fields:
  "co_provider (fw_coordinators i) = demo_provider" "co_codec (fw_coordinators i) = demo_codec"
  "co_options (fw_coordinators i) = demo_options" "ro_lease_ttl demo_options = Finite 10" "ro_result_ttl demo_options = Finite 20"
  "co_clock (fw_coordinators i) w = Some (Inr (Finite (of_int (fw_clock w))), w\<lparr>fw_clock := fw_clock w + 1\<rparr>)"
  by (simp_all add: fw_coordinators_def demo_coordinator_def demo_options_def)

lemma fw_shares: "shares kv_result pw_server (\<lambda>v. pw_server_update (\<lambda>_. v)) demo_codec (fw_coordinators i)"
  unfolding shares_def fw_fields fw_ttls
  by (intro conjI demo_provider_serving demo_provider_quiet refl exI)
    (simp_all add: demo_codec_fields default_max_encoded_size_def)

lemma fw_two_keys: "two_keys kv_result (\<lambda>v. v) (ustr ''k1'') (ustr ''k2'') (ustr ''k1'') (ustr ''k2'')"
proof -
  have "ustr ''k1'' \<noteq> ustr ''k2''" by (simp add: ustr_def)
  then show ?thesis unfolding two_keys_def by (intro conjI kv_result_laws demo_key_ok)
qed

lemma fw_ustr: "ustr ''k1'' \<noteq> ustr ''k2''" "ustr ''k2'' \<noteq> ustr ''k1''"
  by (simp_all add: ustr_def)

lemma fw_keys: "validate_key (PyStr (ustr ''k1'')) = Inr (ustr ''k1'')" "validate_key (PyStr (ustr ''k2'')) = Inr (ustr ''k2'')"
  "utf8_encode (ustr ''k1'') = Some (ustr ''k1'')" "utf8_encode (ustr ''k2'') = Some (ustr ''k2'')"
  using demo_key_ok by (simp_all add: key_ok_def)

lemma fw_execute:
  assumes "action (w\<lparr>pw_data := provider_fresh\<lparr>pd_active := 1\<rparr>\<rparr>) = Some (Inr x, w')" "pw_data w = provider_fresh"
    "pw_ns w' = pw_ns w" "pw_data w' = provider_fresh\<lparr>pd_active := 1\<rparr>"
  shows "provider_execute demo_provider op action w = Some (Inr x, w'\<lparr>pw_data := provider_fresh\<rparr>)"
  using assms
  by (simp add: provider_execute_def act_simps provider_block_def provider_admit_def provider_release_def demo_provider_def
      provider_fresh_def provider_emit_def emit_event_def provider_emit_to_def redis_event_new_def)

lemmas fw_client = servingD(3) [OF demo_provider_serving fw_keys(3)]
  servingD(6) [OF demo_provider_serving fw_keys(3) fw_keys(4)]

lemma fw_acquire:
  "provider_set_if_absent demo_provider (PyStr (ustr ''k1'')) (PyBytes x) (PyFloat (Finite 10)) (fw_with Map.empty)
     = Some (Inr True, fw_with [ustr ''k1'' \<mapsto> (RStr x, Some 10000)])"
  unfolding provider_set_if_absent_def
  by (rule fw_execute [where w' = "fw_with [ustr ''k1'' \<mapsto> (RStr x, Some 10000)]\<lparr>pw_data := provider_fresh\<lparr>pd_active := 1\<rparr>\<rparr>", THEN trans])
    (simp_all add: act_simps fw_keys fw_ttls validate_value_def fw_client on_result_server_def
      kv_result_def fw_with_def fw_start_def)

lemma fw_publish:
  "provider_publish demo_provider (PyStr (ustr ''k1'')) (PyBytes x) (PyStr (ustr ''k2'')) (PyBytes y) (PyBytes z)
       (PyFloat (Finite 20)) (fw_with [ustr ''k1'' \<mapsto> (RStr x, t)])
     = Some (Inr True, fw_with [ustr ''k2'' \<mapsto> (RStr y, Some 20000), ustr ''k1'' \<mapsto> (RStr z, Some 20000)])"
  unfolding provider_publish_def
  by (rule fw_execute [where w' = "fw_with [ustr ''k2'' \<mapsto> (RStr y, Some 20000), ustr ''k1'' \<mapsto> (RStr z, Some 20000)]
        \<lparr>pw_data := provider_fresh\<lparr>pd_active := 1\<rparr>\<rparr>", THEN trans])
    (simp_all add: act_simps fw_keys fw_ttls fw_ustr validate_value_def fw_client on_result_server_def
      result_server_eval_def publish_if_value_script_def string_or_none_def string_at_def deleted_def
      kv_result_def fw_with_def fw_start_def fun_upd_twist)

lemma fw_look:
  assumes "length x \<le> 138" "take 7 x \<noteq> active_prefix" "length y \<le> 1000"
  shows "provider_snapshot demo_provider (PyStr (ustr ''k1'')) (PyStr (ustr ''k2'')) (PyInt 138) (PyInt 1000)
       ((fw_with [ustr ''k2'' \<mapsto> (RStr y, t), ustr ''k1'' \<mapsto> (RStr x, t)])\<lparr>fw_clock := n\<rparr>)
     = Some (Inr \<lparr>cs_marker = Some x, cs_result = Some y, cs_marker_oversized = False, cs_result_oversized = False\<rparr>,
         (fw_with [ustr ''k2'' \<mapsto> (RStr y, t), ustr ''k1'' \<mapsto> (RStr x, t)])\<lparr>fw_clock := n\<rparr>)"
  unfolding provider_snapshot_def
  by (rule fw_execute [where w' = "fw_with [ustr ''k2'' \<mapsto> (RStr y, t), ustr ''k1'' \<mapsto> (RStr x, t)]
        \<lparr>pw_data := provider_fresh\<lparr>pd_active := 1\<rparr>, fw_clock := n\<rparr>", THEN trans])
    (simp_all add: act_simps fw_keys fw_ustr validate_size_limit_def fw_client on_result_server_def
      result_server_eval_def coordination_snapshot_script_def string_or_none_def string_at_def decode_snapshot_def snapshot_part_def
      kv_result_def fw_with_def fw_start_def text_of_def lua_prefix_def max_coordination_marker_size_def
      default_max_encoded_size_def Let_def assms not_less)

text \<open>The state after the publication, and its two keys.\<close>

definition fw_published :: flight_world where
  "fw_published = fw_with [ustr ''k2'' \<mapsto> (RStr (binary_layout demo_padded), Some 20000),
     ustr ''k1'' \<mapsto> (RStr (completed_marker (ustr ''o1'')), Some 20000)]"

lemma fw_reach:
  "(coord_step fw_coordinators ((\<lambda>v. v) \<circ> pw_server) (ustr ''k1'') (ustr ''k2'') {ustr ''k1'', ustr ''k2''})\<^sup>*\<^sup>*
     (fw_start, []) (fw_published, [(ustr ''o1'', [255, 7])])"
proof -
  let ?step = "coord_step fw_coordinators ((\<lambda>v. v) \<circ> pw_server) (ustr ''k1'') (ustr ''k2'') {ustr ''k1'', ustr ''k2''}"
  have "fw_start = fw_with Map.empty" by (simp add: fw_with_def fw_start_def)
  then have "?step (fw_start, []) (fw_with [ustr ''k1'' \<mapsto> (RStr (active_marker (ustr ''o1'')), Some 10000)], [])"
    using acquires [of fw_coordinators 0, unfolded fw_fields, OF fw_acquire] by simp
  moreover have "?step (fw_with [ustr ''k1'' \<mapsto> (RStr (active_marker (ustr ''o1'')), Some 10000)], [])
      (fw_published, if Inr True = (Inr True :: rc_exn + bool) then [(ustr ''o1'', [255, 7])] else [])"
    by (rule publishes [of fw_coordinators 0, where data = "binary_layout demo_padded"])
      (simp_all add: fw_fields demo_codec_encode fw_publish fw_published_def)
  ultimately show ?thesis by (simp add: converse_rtranclp_into_rtranclp)
qed

lemma fw_found:
  "\<exists>s'. poll_look (fw_coordinators 1) (Finite 5) (ustr ''k1'') (ustr ''k2'') (fresh_flight 0, fw_published) = Some (Inr (Found [255, 7]), s')"
proof -
  let ?m = "completed_marker (ustr ''o1'')"
  have m: "length ?m \<le> 138" "take 7 ?m \<noteq> active_prefix" "length (binary_layout demo_padded) \<le> 1000"
    using demo_padded_facts(3) by (simp_all add: completed_marker_def active_prefix_def ustr_def)
  have parse: "parse_marker ?m = Inr (ustr ''completed'', ustr ''o1'')"
    by (simp add: parse_marker_def completed_marker_def ustr_def validate_owner_token_def token_character_def alphanumeric_def Let_def)
  obtain s' where "decode_matching demo_codec (PyBytes (binary_layout demo_padded)) (PyStr (ustr ''o1''))
      (fw_published\<lparr>fw_clock := 2\<rparr>) = Some (Inr (Some [255, 7]), s')"
    using encoded_reads_back [OF demo_codec_init _ demo_laws(1) _ demo_codec_encode, of "ustr ''pad''" "fw_published\<lparr>fw_clock := 2\<rparr>"]
    by (simp add: max_u32 demo_laws) blast
  moreover have "fw_clock fw_published = 0" by (simp add: fw_published_def fw_with_def fw_start_def)
  ultimately show ?thesis
    using fw_look [OF m, where t = "Some 20000" and n = 1]
    by (simp add: poll_look_def check_deadline_def act_simps on_world_run fw_fields demo_codec_fields max_coordination_marker_size_def
        parse reuse_result_def fw_published_def [symmetric])
qed

lemma reused_value_was_published_witness:
  "(\<exists>s'. poll_look (fw_coordinators 1) (Finite 5) (ustr ''k1'') (ustr ''k2'') (fresh_flight 0, fw_published) = Some (Inr (Found [255, 7]), s'))
   \<and> (\<exists>w' h' t. (coord_step fw_coordinators ((\<lambda>v. v) \<circ> pw_server) (ustr ''k1'') (ustr ''k2'') {ustr ''k1'', ustr ''k2''})\<^sup>*\<^sup>*
          (fw_published, [(ustr ''o1'', [255, 7])]) (w', h')
        \<and> (t, [255, 7]) \<in> set h' \<and> holds (pw_server w') (ustr ''k1'') (completed_marker t))"
proof -
  obtain s' where found: "poll_look (fw_coordinators 1) (Finite 5) (ustr ''k1'') (ustr ''k2'') (fresh_flight 0, fw_published)
      = Some (Inr (Found [255, 7]), s')" using fw_found by blast
  have tick: "\<exists>h'. (coord_step fw_coordinators ((\<lambda>v. v) \<circ> pw_server) (ustr ''k1'') (ustr ''k2'') {ustr ''k1'', ustr ''k2''})\<^sup>*\<^sup>*
      (w, h) (w', h')" if "co_clock (fw_coordinators 1) w = Some (r, w')" for w h r w'
    using that by (intro exI [of _ h] r_into_rtranclp elapses) (auto simp: fw_fields)
  have empty: "pw_server fw_start k = None" for k by (simp add: fw_start_def)
  have "(1000 :: int) \<le> max_u32_value" "\<forall>z. Some demo_compressor = Some z \<longrightarrow> compressor_laws z (ustr ''pad'')"
    by (simp_all add: max_u32 demo_laws)
  from reused_value_was_published [OF fw_shares fw_two_keys demo_codec_init this(1) demo_laws(1) this(2) empty empty tick fw_reach found]
  show ?thesis using found by auto
qed

section \<open>A deviation\<close>

text \<open>
  a codec may be configured with a bound above 16 MiB, up to 4 GiB, and the coordinator accepts it: its
  constructor does not look at the codec's bound. But the bound is what a waiter passes to the provider, which refuses
  it, so that every load that finds the lease taken fails with a \<open>ValueError\<close>, whatever the keys hold.
\<close>

theorem large_codec_fails_waiters:
  assumes "provider_quiet (co_provider self) srv put" "pd_state (pv_get (co_provider self) w) = OPEN"
    and "key_ok lk kb1" "key_ok rk kb2" "lk \<noteq> rk" "default_max_encoded_size < ec_max_encoded_size codec"
  shows "coordinator_init b (self\<lparr>co_codec := codec\<rparr>)
       = map_sum id (\<lambda>c. c\<lparr>co_codec := codec\<rparr>) (coordinator_init b self)"
    and "\<exists>m w'. provider_snapshot (co_provider self) (PyStr lk) (PyStr rk) (PyInt max_coordination_marker_size)
       (PyInt (ec_max_encoded_size codec)) w = Some (Inl (ValueError m), w') \<and> srv w' = srv w"
proof -
  show "coordinator_init b (self\<lparr>co_codec := codec\<rparr>) = map_sum id (\<lambda>c. c\<lparr>co_codec := codec\<rparr>) (coordinator_init b self)"
    by (simp add: coordinator_init_def split: option.split)
  let ?p = "co_provider self"
  note q = quietD [OF assms(1)]
  let ?s1 = "pv_put ?p ((pv_get ?p w)\<lparr>pd_active := pd_active (pv_get ?p w) + 1\<rparr>) w"
  have k: "validate_key (PyStr lk) = Inr lk" "validate_key (PyStr rk) = Inr rk" using assms(3,4) by (simp_all add: key_ok_def)
  have limits: "validate_size_limit (PyInt max_coordination_marker_size) f max_coordination_marker_size = Inr max_coordination_marker_size"
    "\<exists>m. validate_size_limit (PyInt (ec_max_encoded_size codec)) f default_max_encoded_size = Inl (ValueError m)" for f
    using assms(6) by (simp_all add: validate_size_limit_def max_coordination_marker_size_def)
  then obtain m where m: "validate_size_limit (PyInt (ec_max_encoded_size codec)) ''max_result_size'' default_max_encoded_size
      = Inl (ValueError m)" by blast
  let ?a = "act_bind (lift (validate_size_limit (PyInt (ec_max_encoded_size codec)) ''max_result_size'' default_max_encoded_size)) (\<lambda>n.
      act_bind (rl_eval (pv_client ?p) CoordinationSnapshot [lk, rk] [ArgInt max_coordination_marker_size, ArgInt n]) (\<lambda>response.
        lift (decode_snapshot response max_coordination_marker_size n)))"
  have "?a ?s1 = Some (Inl (ValueError m), ?s1)" by (simp add: m act_simps)
  from execute_open [where action = ?a and op = OP_COORDINATION_SNAPSHOT, OF assms(1,2) this q(1) eq_refl [OF q(3) [symmetric]]]
  have "\<exists>w'. provider_execute ?p OP_COORDINATION_SNAPSHOT ?a w = Some (Inl (ValueError m), w') \<and> srv w' = srv w"
    by (auto simp: provider_result_def q)
  moreover have "provider_snapshot ?p (PyStr lk) (PyStr rk) (PyInt max_coordination_marker_size) (PyInt (ec_max_encoded_size codec))
      = provider_execute ?p OP_COORDINATION_SNAPSHOT ?a"
    unfolding provider_snapshot_def k bind_lift_cases if_not_P [OF assms(5)] limits(1) ..
  ultimately show "\<exists>m w'. provider_snapshot ?p (PyStr lk) (PyStr rk) (PyInt max_coordination_marker_size)
       (PyInt (ec_max_encoded_size codec)) w = Some (Inl (ValueError m), w') \<and> srv w' = srv w"
    by metis
qed

end
