(* ===== verification/Json.thy ===== *)
theory Json
  imports Utf8
begin

text \<open>
  Python's \<open>json\<close>, as \<open>bluetape.serde._json\<close>, \<open>bluetape.cache.redis._formats\<close> and
  \<open>bluetape.jwt._provider\<close> use it: \<open>JSONDecoder\<close> with the hooks that reject duplicate keys, constants, infinite
  floats and long integers, and \<open>JSONEncoder.iterencode\<close>.

  A text is a list of code points. Parsing gives the value and the rest of the text, or the first error. The
  recursion has fuel for twice the length of the text (enough: \<open>parse_enough\<close>), and a second count for the interpreter's limit on nested
  containers, at which it raises \<open>RecursionError\<close>. The main fact is \<open>parse_text\<close>: what is printed is read back.
\<close>

section \<open>Values\<close>

datatype json =
    JsNull
  | JsBool bool
  | JsInt int
  | JsFloat pyfloat
  | JsStr pystr
  | JsArr "json list"
  | JsObj "(pystr \<times> json) list"

datatype json_error = JDuplicate | JNonFinite | JDigits | JSyntax | JRecursion

text \<open>The hooks: the limit of nested containers, the limit of digits of an integer, whether an infinite float and whether the
  constants \<open>NaN\<close> and \<open>Infinity\<close> are refused.\<close>

record json_hooks =
  jh_depth :: nat
  jh_digits :: nat
  jh_finite :: bool
  jh_constants :: bool

section \<open>Strings\<close>

fun hex_value :: "nat \<Rightarrow> nat option" where
  "hex_value c =
     (if 48 \<le> c \<and> c \<le> 57 then Some (c - 48)
      else if 97 \<le> c \<and> c \<le> 102 then Some (c - 87)
      else if 65 \<le> c \<and> c \<le> 70 then Some (c - 55)
      else None)"

fun hex4 :: "pystr \<Rightarrow> nat option" where
  "hex4 (a # b # c # d # _) =
     (case (hex_value a, hex_value b, hex_value c, hex_value d) of
        (Some a, Some b, Some c, Some d) \<Rightarrow> Some (((a * 16 + b) * 16 + c) * 16 + d)
      | _ \<Rightarrow> None)"
| "hex4 _ = None"

definition escapes :: "(nat \<times> nat) list" where
  "escapes = [(34, 34), (92, 92), (47, 47), (98, 8), (102, 12), (110, 10), (114, 13), (116, 9)]"

definition high_surrogate :: "nat \<Rightarrow> bool" where
  "high_surrogate c \<longleftrightarrow> 55296 \<le> c \<and> c \<le> 56319"

definition low_surrogate :: "nat \<Rightarrow> bool" where
  "low_surrogate c \<longleftrightarrow> 56320 \<le> c \<and> c \<le> 57343"

text \<open>The low surrogate that an escape right behind a high one stands for.\<close>

definition low_escape :: "pystr \<Rightarrow> nat option" where
  "low_escape s =
     (if take 2 s = [92, 117]
      then case hex4 (drop 2 s) of Some u \<Rightarrow> if low_surrogate u then Some u else None | None \<Rightarrow> None
      else None)"

text \<open>The text behind the opening quote.\<close>

function scan_string :: "pystr \<Rightarrow> (pystr \<times> pystr) option" where
  "scan_string s =
     (case s of
        [] \<Rightarrow> None
      | c # t \<Rightarrow>
          if c = 34 then Some ([], t)
          else if c < 32 then None
          else if c \<noteq> 92 then map_option (apfst (Cons c)) (scan_string t)
          else case t of
            [] \<Rightarrow> None
          | e # t' \<Rightarrow>
              if e \<noteq> 117
              then (case map_of escapes e of
                      None \<Rightarrow> None
                    | Some x \<Rightarrow> map_option (apfst (Cons x)) (scan_string t'))
              else (case hex4 t' of
                      None \<Rightarrow> None
                    | Some u \<Rightarrow>
                        (case (if high_surrogate u then low_escape (drop 4 t') else None) of
                           None \<Rightarrow> map_option (apfst (Cons u)) (scan_string (drop 4 t'))
                         | Some l \<Rightarrow>
                             map_option (apfst (Cons (65536 + (u - 55296) * 1024 + (l - 56320)))) (scan_string (drop 10 t')))))"
  by pat_completeness auto
termination
  by (relation "measure length") auto

declare scan_string.simps [simp del]

section \<open>Numbers\<close>

definition is_digit :: "nat \<Rightarrow> bool" where
  "is_digit c \<longleftrightarrow> 48 \<le> c \<and> c \<le> 57"

definition digits_value :: "pystr \<Rightarrow> int" where
  "digits_value ds = foldl (\<lambda>n c. 10 * n + (int c - 48)) 0 ds"

text \<open>The parts of a number: sign, integer digits, fraction digits, and the exponent with its letter, sign and digits.\<close>

record json_number =
  jn_negative :: bool
  jn_int :: pystr
  jn_frac :: "pystr option"
  jn_exp :: "(nat \<times> pystr \<times> pystr) option"

definition scan_int :: "pystr \<Rightarrow> (pystr \<times> pystr) option" where
  "scan_int s =
     (case s of
        [] \<Rightarrow> None
      | c # t \<Rightarrow>
          if c = 48 then Some ([c], t)
          else if is_digit c then Some (c # takeWhile is_digit t, dropWhile is_digit t)
          else None)"

definition scan_frac :: "pystr \<Rightarrow> pystr option \<times> pystr" where
  "scan_frac s =
     (case s of
        [] \<Rightarrow> (None, s)
      | c # t \<Rightarrow>
          if c = 46 \<and> takeWhile is_digit t \<noteq> [] then (Some (takeWhile is_digit t), dropWhile is_digit t) else (None, s))"

definition scan_exp :: "pystr \<Rightarrow> (nat \<times> pystr \<times> pystr) option \<times> pystr" where
  "scan_exp s =
     (case s of
        [] \<Rightarrow> (None, s)
      | c # t \<Rightarrow>
          let (sign, t') = (case t of x # t' \<Rightarrow> if x = 43 \<or> x = 45 then ([x], t') else ([], t) | [] \<Rightarrow> ([], t))
          in if (c = 101 \<or> c = 69) \<and> takeWhile is_digit t' \<noteq> []
             then (Some (c, sign, takeWhile is_digit t'), dropWhile is_digit t') else (None, s))"

definition scan_number :: "pystr \<Rightarrow> (json_number \<times> pystr) option" where
  "scan_number s =
     (let (negative, t) = (case s of c # t \<Rightarrow> if c = 45 then (True, t) else (False, s) | [] \<Rightarrow> (False, s))
      in case scan_int t of
           None \<Rightarrow> None
         | Some (ds, t1) \<Rightarrow>
             let (frac, t2) = scan_frac t1; (e, t3) = scan_exp t2
             in Some (\<lparr>jn_negative = negative, jn_int = ds, jn_frac = frac, jn_exp = e\<rparr>, t3))"

definition number_rat :: "json_number \<Rightarrow> rat" where
  "number_rat p =
     (let frac = (case jn_frac p of None \<Rightarrow> [] | Some f \<Rightarrow> f);
          e = (case jn_exp p of None \<Rightarrow> 0 | Some (_, sign, ds) \<Rightarrow> if sign = [45] then - digits_value ds else digits_value ds);
          m = of_int (digits_value (jn_int p @ frac)) * 10 powi (e - int (length frac))
      in if jn_negative p then - m else m)"

text \<open>\<open>parse_int\<close> and \<open>parse_float\<close>; \<open>float(text)\<close> is the correctly rounded value.\<close>

definition number_value :: "json_hooks \<Rightarrow> json_number \<Rightarrow> json_error + json" where
  "number_value h p =
     (if jn_frac p = None \<and> jn_exp p = None
      then if length (jn_int p) > jh_digits h then Inl JDigits
           else Inr (JsInt (if jn_negative p then - digits_value (jn_int p) else digits_value (jn_int p)))
      else let f = round_double (number_rat p)
           in if jh_finite h \<and> \<not> isfinite f then Inl JNonFinite else Inr (JsFloat f))"

section \<open>Values and texts\<close>

definition json_space :: "nat \<Rightarrow> bool" where
  "json_space c \<longleftrightarrow> c = 32 \<or> c = 9 \<or> c = 10 \<or> c = 13"

definition skip_space :: "pystr \<Rightarrow> pystr" where
  "skip_space = dropWhile json_space"

definition json_words :: "(pystr \<times> json) list" where
  "json_words = [(ustr ''null'', JsNull), (ustr ''true'', JsBool True), (ustr ''false'', JsBool False)]"

definition json_constants :: "(pystr \<times> json) list" where
  "json_constants = [(ustr ''NaN'', JsFloat NaN), (ustr ''Infinity'', JsFloat PosInf), (ustr ''-Infinity'', JsFloat NegInf)]"

definition scan_word :: "(pystr \<times> json) list \<Rightarrow> pystr \<Rightarrow> (json \<times> pystr) option" where
  "scan_word words s =
     (case filter (\<lambda>(w, v). take (length w) s = w) words of
        [] \<Rightarrow> None
      | (w, v) # _ \<Rightarrow> Some (v, drop (length w) s))"

definition scan_scalar :: "json_hooks \<Rightarrow> pystr \<Rightarrow> json_error + json \<times> pystr" where
  "scan_scalar h s =
     (case scan_word json_words s of
        Some r \<Rightarrow> Inr r
      | None \<Rightarrow>
          (case scan_number s of
             Some (p, r) \<Rightarrow> ebind (number_value h p) (\<lambda>v. Inr (v, r))
           | None \<Rightarrow>
               (case scan_word json_constants s of
                  Some r \<Rightarrow> if jh_constants h then Inl JNonFinite else Inr r
                | None \<Rightarrow> Inl JSyntax)))"

text \<open>The hook for the pairs of an object, and the key with its colon; the text is behind the opening quote.\<close>

definition object_pairs :: "(pystr \<times> json) list \<Rightarrow> json_error + json" where
  "object_pairs pairs = (if distinct (map fst pairs) then Inr (JsObj pairs) else Inl JDuplicate)"

definition scan_key :: "pystr \<Rightarrow> json_error + pystr \<times> pystr" where
  "scan_key s =
     (case s of
        [] \<Rightarrow> Inl JSyntax
      | q # t \<Rightarrow>
          if q \<noteq> 34 then Inl JSyntax
          else case scan_string t of
            None \<Rightarrow> Inl JSyntax
          | Some (key, r) \<Rightarrow>
              (case skip_space r of
                 [] \<Rightarrow> Inl JSyntax
               | c # r' \<Rightarrow> if c = 58 then Inr (key, skip_space r') else Inl JSyntax))"

fun parse_value :: "json_hooks \<Rightarrow> nat \<Rightarrow> nat \<Rightarrow> pystr \<Rightarrow> json_error + json \<times> pystr"
  and parse_items :: "json_hooks \<Rightarrow> nat \<Rightarrow> nat \<Rightarrow> pystr \<Rightarrow> json_error + json list \<times> pystr"
  and parse_members :: "json_hooks \<Rightarrow> nat \<Rightarrow> nat \<Rightarrow> pystr \<Rightarrow> json_error + (pystr \<times> json) list \<times> pystr" where
  "parse_value h 0 d s = Inl JRecursion"
| "parse_value h (Suc n) d s =
     (case s of
        [] \<Rightarrow> Inl JSyntax
      | c # t \<Rightarrow>
          if c = 34 then (case scan_string t of None \<Rightarrow> Inl JSyntax | Some (x, r) \<Rightarrow> Inr (JsStr x, r))
          else if c = 91
          then if d = 0 then Inl JRecursion
               else (case skip_space t of
                       [] \<Rightarrow> Inl JSyntax
                     | x # r \<Rightarrow>
                         if x = 93 then Inr (JsArr [], r)
                         else ebind (parse_items h n (d - 1) (x # r)) (\<lambda>(xs, r). Inr (JsArr xs, r)))
          else if c = 123
          then if d = 0 then Inl JRecursion
               else (case skip_space t of
                       [] \<Rightarrow> Inl JSyntax
                     | x # r \<Rightarrow>
                         if x = 125 then Inr (JsObj [], r)
                         else ebind (parse_members h n (d - 1) (x # r)) (\<lambda>(ps, r).
                              ebind (object_pairs ps) (\<lambda>v. Inr (v, r))))
          else scan_scalar h s)"
| "parse_items h 0 d s = Inl JRecursion"
| "parse_items h (Suc n) d s =
     ebind (parse_value h n d s) (\<lambda>(v, r).
       case skip_space r of
         [] \<Rightarrow> Inl JSyntax
       | x # r' \<Rightarrow>
           if x = 93 then Inr ([v], r')
           else if x = 44 then ebind (parse_items h n d (skip_space r')) (\<lambda>(vs, r''). Inr (v # vs, r''))
           else Inl JSyntax)"
| "parse_members h 0 d s = Inl JRecursion"
| "parse_members h (Suc n) d s =
     ebind (scan_key s) (\<lambda>(k, t).
     ebind (parse_value h n d t) (\<lambda>(v, r).
       case skip_space r of
         [] \<Rightarrow> Inl JSyntax
       | x # r' \<Rightarrow>
           if x = 125 then Inr ([(k, v)], r')
           else if x = 44 then ebind (parse_members h n d (skip_space r')) (\<lambda>(ps, r''). Inr ((k, v) # ps, r''))
           else Inl JSyntax))"

text \<open>\<open>raw_decode\<close> at the start of a text, and \<open>json.loads\<close> of a text.\<close>

definition raw_decode :: "json_hooks \<Rightarrow> pystr \<Rightarrow> json_error + json \<times> pystr" where
  "raw_decode h s = parse_value h (Suc (2 * length s)) (jh_depth h) s"

definition json_loads :: "json_hooks \<Rightarrow> pystr \<Rightarrow> json_error + json" where
  "json_loads h s =
     (if take 1 s = [65279] then Inl JSyntax
      else ebind (raw_decode h (skip_space s)) (\<lambda>(v, r). if skip_space r = [] then Inr v else Inl JSyntax))"

section \<open>The fuel is enough\<close>

text \<open>What is read is not empty, so that more fuel than \<open>raw_decode\<close> gives changes nothing.\<close>

lemma scan_string_shorter: "scan_string s = Some (x, r) \<Longrightarrow> length r < length s"
proof (induction "length s" arbitrary: s x rule: less_induct)
  case less
  have IH: "length r < length s" if "scan_string t = Some (y, r)" "length t < length s" for t y
    using less.hyps [OF that(2,1)] that(2) by simp
  obtain c t where s: "s = c # t" using less.prems by (cases s) (simp_all add: scan_string.simps)
  show ?case
  proof (cases "c = 34 \<or> c \<noteq> 92")
    case True
    then show ?thesis
      using less.prems IH [of t] by (subst (asm) scan_string.simps) (auto simp: s split: if_splits)
  next
    case False
    then obtain e u where t: "t = e # u"
      using less.prems by (subst (asm) scan_string.simps) (auto simp: s split: if_splits list.splits)
    show ?thesis
      using less.prems IH [of u] IH [of "drop 4 u"] IH [of "drop 10 u"] False
      by (subst (asm) scan_string.simps) (auto simp: s t split: if_splits option.splits)
  qed
qed

lemma skip_space_length: "length (skip_space s) \<le> length s"
  by (simp add: skip_space_def length_dropWhile_le)

lemma scan_word_shorter:
  assumes "scan_word words s = Some (v, r)" and "[] \<notin> fst ` set words"
  shows "length r < length s"
proof -
  obtain w vs where "filter (\<lambda>(w, v). take (length w) s = w) words = (w, v) # vs" and r: "r = drop (length w) s"
    using assms(1) by (auto simp: scan_word_def split: list.splits)
  then have "(w, v) \<in> set words" "take (length w) s = w"
    using filter_set [of "\<lambda>(w, v). take (length w) s = w" words] by auto
  then have "0 < length w" "length w \<le> length s"
    using assms(2) length_take [of "length w" s] by (force, metis min.cobounded2 min_def nat_le_linear)
  then show ?thesis using r by (simp only: length_drop)
qed

lemma scan_scalar_shorter: "scan_scalar h s = Inr (v, r) \<Longrightarrow> length r < length s"
proof -
  have number: "length r < length s" if "scan_number s = Some (p, r)" for p r
  proof -
    have d: "length (dropWhile is_digit t) \<le> length t" for t by (rule length_dropWhile_le)
    have int: "scan_int t = Some (ds, t1) \<Longrightarrow> length t1 < length t" for t ds t1
      using d by (auto simp: scan_int_def less_Suc_eq_le split: list.splits if_splits)
    have frac: "scan_frac t = (f, t1) \<Longrightarrow> length t1 \<le> length t" for t f t1
      using d by (auto simp: scan_frac_def le_SucI split: list.splits if_splits)
    have exp: "scan_exp t = (e, t1) \<Longrightarrow> length t1 \<le> length t" for t e t1
      using d by (auto simp: scan_exp_def le_SucI Let_def split: list.splits if_splits prod.splits)
    show ?thesis
      using that by (auto simp: scan_number_def Let_def split: list.splits if_splits option.splits prod.splits
          dest!: int frac exp)
  qed
  assume "scan_scalar h s = Inr (v, r)"
  then show ?thesis
    using number scan_word_shorter [of json_words s v r] scan_word_shorter [of json_constants s v r]
    by (auto simp: scan_scalar_def ebind_def json_words_def json_constants_def ustr_def
        split: option.splits if_splits sum.splits)
qed

lemma scan_key_shorter: "scan_key s = Inr (k, r) \<Longrightarrow> length r < length s"
proof -
  assume "scan_key s = Inr (k, r)"
  then obtain t u c v where "s = 34 # t" "scan_string t = Some (k, u)" "skip_space u = c # v" "r = skip_space v"
    by (auto simp: scan_key_def split: list.splits if_splits option.splits)
  then show ?thesis
    using scan_string_shorter [of t k u] skip_space_length [of u] skip_space_length [of v] by simp
qed

lemma parse_shorter:
  "parse_value h n d s = Inr (v, r) \<Longrightarrow> length r < length s"
  "parse_items h n d s = Inr (vs, r) \<Longrightarrow> length r < length s"
  "parse_members h n d s = Inr (ps, r) \<Longrightarrow> length r < length s"
proof (induction n arbitrary: d s v r vs ps)
  case (Suc n)
  note ihv = Suc.IH(1) and ihi = Suc.IH(2) and ihm = Suc.IH(3)
  note skip = skip_space_length
  {
    case 1
    obtain c t where s: "s = c # t" using 1 by (cases s) simp_all
    show ?case
    proof (cases "c = 91 \<or> c = 123")
      case False
      then show ?thesis
        using 1 s scan_string_shorter [of t] scan_scalar_shorter [of h s v r]
        by (auto split: if_splits option.splits)
    next
      case True
      obtain x u where u: "skip_space t = x # u" using 1 s True by (cases "skip_space t") (auto split: if_splits)
      have "length (x # u) \<le> length t" using skip [of t] u by simp
      then show ?thesis
        using 1 s True u ihi [of "d - 1" "x # u"] ihm [of "d - 1" "x # u"]
        by (auto simp: ebind_def split: if_splits sum.splits)
    qed
  next
    case 2
    obtain w u where w: "parse_value h n d s = Inr (w, u)" using 2 by (auto simp: ebind_def split: sum.splits)
    obtain x u' where x: "skip_space u = x # u'" using 2 w by (cases "skip_space u") simp_all
    have "length u < length s" "length (x # u') \<le> length u" "length (skip_space u') \<le> length u'"
      using ihv [OF w] skip [of u] skip [of u'] x by simp_all
    then show ?case
      using 2 w x ihi [of d "skip_space u'"] by (auto simp: ebind_def split: if_splits sum.splits)
  next
    case 3
    obtain k t where k: "scan_key s = Inr (k, t)" using 3 by (auto simp: ebind_def split: sum.splits)
    obtain w u where w: "parse_value h n d t = Inr (w, u)" using 3 k by (auto simp: ebind_def split: sum.splits)
    obtain x u' where x: "skip_space u = x # u'" using 3 k w by (cases "skip_space u") simp_all
    have "length u < length s" "length (x # u') \<le> length u" "length (skip_space u') \<le> length u'"
      using ihv [OF w] scan_key_shorter [OF k] skip [of u] skip [of u'] x by simp_all
    then show ?case
      using 3 k w x ihm [of d "skip_space u'"] by (auto simp: ebind_def split: if_splits sum.splits)
  }
qed simp_all

lemma parse_enough:
  "Suc (2 * length s) \<le> n \<Longrightarrow> n \<le> n' \<Longrightarrow> parse_value h n' d s = parse_value h n d s"
  "Suc (Suc (2 * length s)) \<le> n \<Longrightarrow> n \<le> n' \<Longrightarrow> parse_items h n' d s = parse_items h n d s"
  "Suc (Suc (2 * length s)) \<le> n \<Longrightarrow> n \<le> n' \<Longrightarrow> parse_members h n' d s = parse_members h n d s"
proof (induction n arbitrary: n' d s)
  case (Suc n)
  note ihv = Suc.IH(1) and ihi = Suc.IH(2) and ihm = Suc.IH(3)
  note skip = skip_space_length
  {
    case 1
    obtain m where m: "n' = Suc m" "n \<le> m" using 1 by (cases n') simp_all
    show ?case
    proof (cases s)
      case (Cons c t)
      have "parse_items h m (d - 1) (x # r) = parse_items h n (d - 1) (x # r)
          \<and> parse_members h m (d - 1) (x # r) = parse_members h n (d - 1) (x # r)"
        if "skip_space t = x # r" for x r
      proof -
        have "length (x # r) \<le> length t" using skip [of t] that by simp
        then have "Suc (Suc (2 * length (x # r))) \<le> n" using 1 Cons by simp
        then show ?thesis using ihi ihm m by blast
      qed
      then show ?thesis using Cons by (auto simp: m split: list.split)
    qed (simp add: m)
  next
    case 2
    obtain m where m: "n' = Suc m" "n \<le> m" using 2 by (cases n') simp_all
    have first: "parse_value h m d s = parse_value h n d s" using ihv [of s m d] 2 m by simp
    have "parse_items h m d (skip_space u') = parse_items h n d (skip_space u')"
      if w: "parse_value h n d s = Inr (w, u)" "skip_space u = x # u'" for w u x u'
    proof -
      have "length u < length s" "length (x # u') \<le> length u" "length (skip_space u') \<le> length u'"
        using parse_shorter(1) [OF w(1)] skip [of u] skip [of u'] w(2) by simp_all
      then show ?thesis using ihi [of "skip_space u'" m d] 2 m by simp
    qed
    then show ?case by (auto simp: m first ebind_def split: sum.split list.split)
  next
    case 3
    obtain m where m: "n' = Suc m" "n \<le> m" using 3 by (cases n') simp_all
    have first: "parse_value h m d t = parse_value h n d t" if "scan_key s = Inr (k, t)" for k t
      using ihv [of t m d] 3 m scan_key_shorter [OF that] by simp
    have "parse_members h m d (skip_space u') = parse_members h n d (skip_space u')"
      if w: "scan_key s = Inr (k, t)" "parse_value h n d t = Inr (w, u)" "skip_space u = x # u'" for k t w u x u'
    proof -
      have "length u < length s" "length (x # u') \<le> length u" "length (skip_space u') \<le> length u'"
        using scan_key_shorter [OF w(1)] parse_shorter(1) [OF w(2)] skip [of u] skip [of u'] w(3) by simp_all
      then show ?thesis using ihm [of "skip_space u'" m d] 3 m by simp
    qed
    then show ?case using first by (auto simp: m ebind_def split: sum.split list.split)
  }
qed simp_all

lemma raw_decode_fuel: "Suc (2 * length s) \<le> n \<Longrightarrow> parse_value h n (jh_depth h) s = raw_decode h s"
  unfolding raw_decode_def by (rule parse_enough(1)) simp_all

section \<open>Printing\<close>

definition hex_lower :: "nat \<Rightarrow> nat" where
  "hex_lower d = (if d < 10 then 48 + d else 87 + d)"

text \<open>One character of a string literal: \<open>encode_basestring\<close>.\<close>

definition escape_char :: "nat \<Rightarrow> pystr" where
  "escape_char c =
     (case map_of [(34, 34), (92, 92), (10, 110), (13, 114), (9, 116), (12, 102), (8, 98)] c of
        Some e \<Rightarrow> [92, e]
      | None \<Rightarrow> if c < 32 then [92, 117, 48, 48, hex_lower (c div 16), hex_lower (c mod 16)] else [c])"

definition json_string :: "pystr \<Rightarrow> pystr" where
  "json_string s = 34 # concat (map escape_char s) @ [34]"

function decimal :: "nat \<Rightarrow> pystr" where
  "decimal n = (if n < 10 then [48 + n] else decimal (n div 10) @ [48 + n mod 10])"
  by pat_completeness auto
termination
  by (relation "measure id") auto

declare decimal.simps [simp del]

definition json_int :: "int \<Rightarrow> pystr" where
  "json_int i = (if i < 0 then 45 # decimal (nat (- i)) else decimal (nat i))"

text \<open>The chunks that \<open>iterencode\<close> yields; \<open>repr\<close> is \<open>float.__repr__\<close>. \<open>buf\<close> is the text in front of an
  element of a list.\<close>

fun is_container :: "json \<Rightarrow> bool" where
  "is_container (JsArr _) = True"
| "is_container (JsObj _) = True"
| "is_container _ = False"

fun json_chunks :: "(pyfloat \<Rightarrow> pystr) \<Rightarrow> json \<Rightarrow> pystr list"
  and list_chunks :: "(pyfloat \<Rightarrow> pystr) \<Rightarrow> nat \<Rightarrow> json list \<Rightarrow> pystr list"
  and dict_chunks :: "(pyfloat \<Rightarrow> pystr) \<Rightarrow> pystr list \<Rightarrow> (pystr \<times> json) list \<Rightarrow> pystr list" where
  "json_chunks repr JsNull = [ustr ''null'']"
| "json_chunks repr (JsBool b) = [if b then ustr ''true'' else ustr ''false'']"
| "json_chunks repr (JsInt i) = [json_int i]"
| "json_chunks repr (JsFloat f) = [repr f]"
| "json_chunks repr (JsStr s) = [json_string s]"
| "json_chunks repr (JsArr xs) = (if xs = [] then [[91, 93]] else list_chunks repr 91 xs @ [[93]])"
| "json_chunks repr (JsObj ps) = (if ps = [] then [[123, 125]] else [123] # dict_chunks repr [] ps @ [[125]])"
| "list_chunks repr buf [] = []"
| "list_chunks repr buf (x # xs) =
     (if is_container x then [buf] # json_chunks repr x else map (Cons buf) (json_chunks repr x)) @ list_chunks repr 44 xs"
| "dict_chunks repr separator [] = []"
| "dict_chunks repr separator ((k, x) # ps) =
     separator @ [json_string k, [58]] @ json_chunks repr x @ dict_chunks repr [[44]] ps"

section \<open>Numbers are read back\<close>

definition digits_ok :: "pystr \<Rightarrow> bool" where
  "digits_ok ds \<longleftrightarrow> ds \<noteq> [] \<and> list_all is_digit ds"

definition number_ok :: "json_number \<Rightarrow> bool" where
  "number_ok p \<longleftrightarrow>
     digits_ok (jn_int p) \<and> (jn_int p = [48] \<or> hd (jn_int p) \<noteq> 48)
     \<and> (case jn_frac p of None \<Rightarrow> True | Some f \<Rightarrow> digits_ok f)
     \<and> (case jn_exp p of None \<Rightarrow> True
        | Some (e, sign, ds) \<Rightarrow> (e = 101 \<or> e = 69) \<and> (sign = [] \<or> sign = [43] \<or> sign = [45]) \<and> digits_ok ds)"

definition number_text :: "json_number \<Rightarrow> pystr" where
  "number_text p =
     (if jn_negative p then [45] else []) @ jn_int p
     @ (case jn_frac p of None \<Rightarrow> [] | Some f \<Rightarrow> 46 # f)
     @ (case jn_exp p of None \<Rightarrow> [] | Some (e, sign, ds) \<Rightarrow> e # sign @ ds)"

text \<open>What may follow a value: the end, a comma or a closing bracket.\<close>

definition delimited :: "pystr \<Rightarrow> bool" where
  "delimited r \<longleftrightarrow> (case r of [] \<Rightarrow> True | c # _ \<Rightarrow> c = 44 \<or> c = 93 \<or> c = 125)"

definition no_digit :: "pystr \<Rightarrow> bool" where
  "no_digit r \<longleftrightarrow> (case r of [] \<Rightarrow> True | c # _ \<Rightarrow> \<not> is_digit c)"

lemma takeWhile_digits:
  assumes "list_all is_digit ds" "no_digit r"
  shows "takeWhile is_digit (ds @ r) = ds" "dropWhile is_digit (ds @ r) = r"
  using assms by (induction ds) (auto simp: no_digit_def split: list.splits)

lemma delimited_no_digit: "delimited r \<Longrightarrow> no_digit r"
  by (auto simp: delimited_def no_digit_def is_digit_def split: list.splits)

lemma scan_int_text:
  "digits_ok ds \<Longrightarrow> ds = [48] \<or> hd ds \<noteq> 48 \<Longrightarrow> no_digit r \<Longrightarrow> scan_int (ds @ r) = Some (ds, r)"
  by (cases ds) (auto simp: scan_int_def digits_ok_def takeWhile_digits)

lemma scan_exp_text:
  assumes "case e of None \<Rightarrow> True
     | Some (c, sign, ds) \<Rightarrow> (c = 101 \<or> c = 69) \<and> (sign = [] \<or> sign = [43] \<or> sign = [45]) \<and> digits_ok ds"
    and "delimited r"
  shows "scan_exp ((case e of None \<Rightarrow> [] | Some (c, sign, ds) \<Rightarrow> c # sign @ ds) @ r) = (e, r)"
proof (cases e)
  case None
  then show ?thesis using assms(2) by (auto simp: scan_exp_def delimited_def split: list.splits prod.splits)
next
  case (Some x)
  obtain c sign ds where x: "x = (c, sign, ds)" by (cases x)
  obtain d ds' where ds: "ds = d # ds'" "is_digit d"
    using assms(1) Some x by (cases ds) (auto simp: digits_ok_def)
  have digits: "list_all is_digit (d # ds')" using assms(1) Some x ds by (simp add: digits_ok_def)
  note t = takeWhile_digits [OF digits delimited_no_digit [OF assms(2)]]
  have d: "d \<noteq> 43" "d \<noteq> 45" using ds(2) by (auto simp: is_digit_def)
  show ?thesis
    using assms(1) Some x ds d t by (auto simp: scan_exp_def)
qed

lemma scan_frac_text:
  assumes "case f of None \<Rightarrow> True | Some f \<Rightarrow> digits_ok f"
    and "no_digit r" "take 1 r \<noteq> [46]"
  shows "scan_frac ((case f of None \<Rightarrow> [] | Some f \<Rightarrow> 46 # f) @ r) = (f, r)"
  using assms by (cases f) (auto simp: scan_frac_def digits_ok_def takeWhile_digits split: list.splits)

lemma scan_number_text:
  assumes "number_ok p" "delimited r"
  shows "scan_number (number_text p @ r) = Some (p, r)"
proof -
  let ?e = "(case jn_exp p of None \<Rightarrow> [] | Some (e, sign, ds) \<Rightarrow> e # sign @ ds) @ r"
  let ?f = "(case jn_frac p of None \<Rightarrow> [] | Some f \<Rightarrow> 46 # f) @ ?e"
  have e: "no_digit ?e" "take 1 ?e \<noteq> [46]"
    using assms by (auto simp: number_ok_def delimited_def no_digit_def is_digit_def split: option.splits list.splits prod.splits)
  have f: "no_digit ?f"
    using e(1) by (auto simp: no_digit_def is_digit_def split: option.splits)
  have exp: "scan_exp ?e = (jn_exp p, r)"
    using assms by (intro scan_exp_text) (auto simp: number_ok_def)
  have frac: "scan_frac ?f = (jn_frac p, ?e)"
    using assms(1) e by (intro scan_frac_text) (auto simp: number_ok_def)
  have int: "scan_int (jn_int p @ ?f) = Some (jn_int p, ?f)"
    using assms(1) f by (intro scan_int_text) (auto simp: number_ok_def)
  obtain c t where ct: "jn_int p = c # t" "c \<noteq> 45"
    using assms(1) by (cases "jn_int p") (auto simp: number_ok_def digits_ok_def is_digit_def)
  have sign: "(case number_text p @ r of c # t \<Rightarrow> if c = 45 then (True, t) else (False, number_text p @ r) | [] \<Rightarrow> (False, number_text p @ r))
      = (jn_negative p, jn_int p @ ?f)"
    using ct by (simp add: number_text_def)
  show ?thesis
    unfolding scan_number_def sign by (simp add: int frac exp)
qed

text \<open>Conversely, a text that is scanned to its end is the text of its parts.\<close>

lemma takeWhile_all: "list_all P (takeWhile P xs)"
  by (induction xs) auto

lemma scan_int_Some:
  "scan_int s = Some (ds, r) \<Longrightarrow> s = ds @ r \<and> digits_ok ds \<and> (ds = [48] \<or> hd ds \<noteq> 48)"
  by (auto simp: scan_int_def digits_ok_def is_digit_def takeWhile_all split: list.splits if_splits)

lemma scan_frac_pair:
  "scan_frac s = (f, r) \<Longrightarrow> s = (case f of None \<Rightarrow> [] | Some f \<Rightarrow> 46 # f) @ r \<and> (case f of None \<Rightarrow> True | Some f \<Rightarrow> digits_ok f)"
  by (auto simp: scan_frac_def digits_ok_def takeWhile_all split: list.splits if_splits)

lemma scan_exp_pair:
  assumes "scan_exp s = (e, r)"
  shows "s = (case e of None \<Rightarrow> [] | Some (c, sign, ds) \<Rightarrow> c # sign @ ds) @ r
    \<and> (case e of None \<Rightarrow> True
       | Some (c, sign, ds) \<Rightarrow> (c = 101 \<or> c = 69) \<and> (sign = [] \<or> sign = [43] \<or> sign = [45]) \<and> digits_ok ds)"
  using assms by (auto simp: scan_exp_def digits_ok_def takeWhile_all split: list.splits if_splits)

lemma scan_number_Some:
  assumes "scan_number s = Some (p, r)"
  shows "number_ok p \<and> s = number_text p @ r"
proof -
  obtain negative t ds t1 frac t2 e where
    sign: "(case s of c # t \<Rightarrow> if c = 45 then (True, t) else (False, s) | [] \<Rightarrow> (False, s)) = (negative, t)"
    and int: "scan_int t = Some (ds, t1)" and frac: "scan_frac t1 = (frac, t2)" and e: "scan_exp t2 = (e, r)"
    and p: "p = \<lparr>jn_negative = negative, jn_int = ds, jn_frac = frac, jn_exp = e\<rparr>"
    using assms by (auto simp: scan_number_def split: prod.splits option.splits)
  have "s = (if negative then [45] else []) @ t"
    using sign by (auto split: list.splits if_splits)
  then show ?thesis
    using scan_int_Some [OF int] scan_frac_pair [OF frac] scan_exp_pair [OF e] by (simp add: p number_ok_def number_text_def)
qed

subsection \<open>Decimal numbers\<close>

lemma decimal_digits: "digits_ok (decimal n)"
proof (induction n rule: decimal.induct)
  case (1 n)
  have "n mod 10 < 10" by simp
  with 1 show ?case
    by (cases "n < 10") (auto simp: decimal.simps [of n] digits_ok_def is_digit_def)
qed

lemma decimal_first: "decimal n = [48] \<or> hd (decimal n) \<noteq> 48"
proof (induction n rule: decimal.induct)
  case (1 n)
  show ?case
  proof (cases "n < 10")
    case True
    then show ?thesis by (auto simp: decimal.simps [of n])
  next
    case False
    have "decimal (n div 10) \<noteq> [48]"
    proof
      assume *: "decimal (n div 10) = [48]"
      have "n div 10 = 0"
        using * decimal_digits [of "n div 10 div 10"] by (auto simp: decimal.simps [of "n div 10"] digits_ok_def split: if_splits)
      with False show False by simp
    qed
    with 1 False decimal_digits [of "n div 10"] show ?thesis
      by (auto simp: decimal.simps [of n] digits_ok_def)
  qed
qed

lemma digits_value_snoc: "digits_value (ds @ [c]) = 10 * digits_value ds + (int c - 48)"
  by (simp add: digits_value_def)

lemma decimal_value: "digits_value (decimal n) = int n"
proof (induction n rule: decimal.induct)
  case (1 n)
  have "int n = 10 * int (n div 10) + int (n mod 10)" by presburger
  with 1 show ?case
    by (cases "n < 10") (simp_all add: decimal.simps [of n] digits_value_snoc, simp add: digits_value_def)
qed

lemma decimal_length: "n < 10 ^ k \<Longrightarrow> 0 < k \<Longrightarrow> length (decimal n) \<le> k"
proof (induction k arbitrary: n)
  case (Suc k)
  show ?case
  proof (cases "n < 10")
    case True
    then show ?thesis by (simp add: decimal.simps [of n])
  next
    case False
    with Suc.prems have "n div 10 < 10 ^ k" "0 < k" by (cases k; simp)+
    with Suc.IH [of "n div 10"] False show ?thesis by (simp add: decimal.simps [of n])
  qed
qed simp

definition int_number :: "int \<Rightarrow> json_number" where
  "int_number i = \<lparr>jn_negative = i < 0, jn_int = decimal (nat \<bar>i\<bar>), jn_frac = None, jn_exp = None\<rparr>"

lemma int_number_text: "json_int i = number_text (int_number i) \<and> number_ok (int_number i)"
  by (auto simp: json_int_def number_text_def int_number_def number_ok_def decimal_digits decimal_first abs_if)

lemma int_number_value:
  "length (decimal (nat \<bar>i\<bar>)) \<le> jh_digits h \<Longrightarrow> number_value h (int_number i) = Inr (JsInt i)"
  by (simp add: number_value_def int_number_def decimal_value)

section \<open>Strings are read back\<close>

lemma hex_lower_value: "d < 16 \<Longrightarrow> hex_value (hex_lower d) = Some d"
  by (auto simp: hex_lower_def)

lemma scan_escape_char: "scan_string (escape_char c @ r) = map_option (apfst (Cons c)) (scan_string r)"
proof -
  have "c < 32 \<Longrightarrow> hex4 (48 # 48 # hex_lower (c div 16) # hex_lower (c mod 16) # r) = Some c"
    using hex_lower_value [of "c div 16"] hex_lower_value [of "c mod 16"] by (simp del: hex_value.simps add: hex_value.simps [of 48])
  then show ?thesis
    by (auto simp: escape_char_def scan_string.simps [of "_ # _"] escapes_def high_surrogate_def split: if_splits)
qed

lemma scan_json_string: "scan_string (concat (map escape_char s) @ 34 # r) = Some (s, r)"
  by (induction s) (simp_all add: scan_escape_char scan_string.simps [of "34 # r"])

section \<open>Values are read back\<close>

text \<open>The text of a value, as one function: \<open>items_text\<close> is what follows the opening bracket.\<close>

fun json_text :: "(pyfloat \<Rightarrow> pystr) \<Rightarrow> json \<Rightarrow> pystr"
  and items_text :: "(pyfloat \<Rightarrow> pystr) \<Rightarrow> json list \<Rightarrow> pystr"
  and members_text :: "(pyfloat \<Rightarrow> pystr) \<Rightarrow> (pystr \<times> json) list \<Rightarrow> pystr" where
  "json_text repr JsNull = ustr ''null''"
| "json_text repr (JsBool b) = (if b then ustr ''true'' else ustr ''false'')"
| "json_text repr (JsInt i) = json_int i"
| "json_text repr (JsFloat f) = repr f"
| "json_text repr (JsStr s) = json_string s"
| "json_text repr (JsArr xs) = 91 # (if xs = [] then [93] else items_text repr xs)"
| "json_text repr (JsObj ps) = 123 # (if ps = [] then [125] else members_text repr ps)"
| "items_text repr [] = []"
| "items_text repr (x # xs) = json_text repr x @ (if xs = [] then [93] else 44 # items_text repr xs)"
| "members_text repr [] = []"
| "members_text repr ((k, x) # ps) =
     json_string k @ 58 # json_text repr x @ (if ps = [] then [125] else 44 # members_text repr ps)"

lemma concat_chunks:
  "concat (json_chunks repr x) = json_text repr x"
  "xs \<noteq> [] \<Longrightarrow> concat (list_chunks repr buf xs) @ [93] = buf # items_text repr xs"
  "ps \<noteq> [] \<Longrightarrow> concat (dict_chunks repr separator ps) @ [125] = concat separator @ members_text repr ps"
proof (induction repr x and repr buf xs and repr separator ps rule: json_chunks_list_chunks_dict_chunks.induct)
  case (9 repr buf x xs)
  then show ?case by (cases x) (auto split: if_splits)
qed auto

text \<open>A float that \<open>repr\<close> prints as a JSON number of the same value: documented behaviour of Python's \<open>repr\<close>.\<close>

definition float_printed :: "(pyfloat \<Rightarrow> pystr) \<Rightarrow> pyfloat \<Rightarrow> bool" where
  "float_printed repr f \<longleftrightarrow>
     (case scan_number (repr f) of
        Some (p, []) \<Rightarrow> (jn_frac p \<noteq> None \<or> jn_exp p \<noteq> None) \<and> isfinite f \<and> round_double (number_rat p) = f
      | _ \<Rightarrow> False)"

fun json_printable :: "(pyfloat \<Rightarrow> pystr) \<Rightarrow> json_hooks \<Rightarrow> json \<Rightarrow> bool" where
  "json_printable repr h (JsInt i) \<longleftrightarrow> length (decimal (nat \<bar>i\<bar>)) \<le> jh_digits h"
| "json_printable repr h (JsFloat f) \<longleftrightarrow> float_printed repr f"
| "json_printable repr h (JsArr xs) \<longleftrightarrow> list_all (json_printable repr h) xs"
| "json_printable repr h (JsObj ps) \<longleftrightarrow> distinct (map fst ps) \<and> list_all (\<lambda>(k, x). json_printable repr h x) ps"
| "json_printable repr h _ \<longleftrightarrow> True"

text \<open>How deep containers nest.\<close>

fun json_depth :: "json \<Rightarrow> nat" where
  "json_depth (JsArr xs) = Suc (foldr max (map json_depth xs) 0)"
| "json_depth (JsObj ps) = Suc (foldr max (map (\<lambda>(k, x). json_depth x) ps) 0)"
| "json_depth _ = 0"

definition starts_value :: "nat \<Rightarrow> bool" where
  "starts_value c \<longleftrightarrow> c \<in> {34, 45, 91, 102, 110, 116, 123} \<or> is_digit c"

lemma number_starts: "number_ok p \<Longrightarrow> \<exists>c t. number_text p = c # t \<and> (c = 45 \<or> is_digit c)"
  by (cases "jn_int p") (auto simp: number_ok_def digits_ok_def number_text_def)

lemma scan_scalar_number:
  assumes "number_ok p" "delimited r"
  shows "scan_scalar h (number_text p @ r) = ebind (number_value h p) (\<lambda>v. Inr (v, r))"
proof -
  obtain c t where c: "number_text p = c # t" "c = 45 \<or> is_digit c" using number_starts [OF assms(1)] by blast
  have "scan_word json_words (number_text p @ r) = None"
    using c by (auto simp: scan_word_def json_words_def ustr_def is_digit_def)
  then show ?thesis by (simp add: scan_scalar_def scan_number_text [OF assms])
qed

lemma float_scalar:
  assumes "float_printed repr f"
  obtains p where "number_ok p" "repr f = number_text p" "number_value h p = Inr (JsFloat f)"
proof -
  obtain p where p: "scan_number (repr f) = Some (p, [])" "jn_frac p \<noteq> None \<or> jn_exp p \<noteq> None" "isfinite f"
    "round_double (number_rat p) = f"
    using assms by (auto simp: float_printed_def split: option.splits prod.splits list.splits)
  show ?thesis
    using that [of p] scan_number_Some [OF p(1)] p by (auto simp: number_value_def)
qed

lemma json_text_starts:
  assumes "json_printable repr h x"
  shows "\<exists>c t. json_text repr x = c # t \<and> starts_value c"
proof (cases x)
  case (JsInt i)
  then show ?thesis using int_number_text [of i] number_starts [of "int_number i"] by (auto simp: starts_value_def)
next
  case (JsFloat f)
  then obtain p where "number_ok p" "repr f = number_text p" using assms float_scalar [of repr f] by auto
  then show ?thesis using JsFloat number_starts [of p] by (auto simp: starts_value_def)
qed (auto simp: starts_value_def ustr_def json_string_def)

lemma starts_value_skip: "starts_value c \<Longrightarrow> skip_space (c # t) = c # t \<and> c \<noteq> 93 \<and> c \<noteq> 125"
  by (auto simp: starts_value_def skip_space_def json_space_def is_digit_def)

lemma scan_key_text:
  "json_text repr x = c # t \<Longrightarrow> starts_value c \<Longrightarrow> scan_key (json_string k @ 58 # json_text repr x @ r) = Inr (k, json_text repr x @ r)"
  using starts_value_skip [of c "t @ r"] scan_json_string [of k "58 # c # t @ r"]
  by (simp add: scan_key_def json_string_def skip_space_def json_space_def)

lemma parse_scalar:
  "\<not> is_container x \<Longrightarrow> json_printable repr h x \<Longrightarrow> delimited r \<Longrightarrow> parse_value h (Suc n) d (json_text repr x @ r) = Inr (x, r)"
proof (cases x)
  case (JsInt i)
  assume a: "json_printable repr h x" "delimited r"
  obtain c t where c: "number_text (int_number i) = c # t" "c = 45 \<or> is_digit c"
    using int_number_text number_starts by blast
  have "c \<noteq> 34 \<and> c \<noteq> 91 \<and> c \<noteq> 123" using c(2) by (auto simp: is_digit_def)
  then show ?thesis
    using JsInt a c scan_scalar_number [of "int_number i" r h] int_number_value [of i h] by (simp add: int_number_text)
next
  case (JsFloat f)
  assume a: "json_printable repr h x" "delimited r"
  then obtain p where p: "number_ok p" "repr f = number_text p" "number_value h p = Inr (JsFloat f)"
    using JsFloat float_scalar [of repr f h] by auto
  obtain c t where c: "number_text p = c # t" "c = 45 \<or> is_digit c" using number_starts [OF p(1)] by blast
  have "c \<noteq> 34 \<and> c \<noteq> 91 \<and> c \<noteq> 123" using c(2) by (auto simp: is_digit_def)
  then show ?thesis using JsFloat a c p scan_scalar_number [OF p(1) a(2), of h] by simp
qed (auto simp: scan_scalar_def scan_word_def json_words_def ustr_def json_string_def scan_json_string)

lemma parse_fuel_scalar:
  "json_printable repr h x \<Longrightarrow> delimited r \<Longrightarrow> length (json_text repr x) \<le> n \<Longrightarrow> \<not> is_container x \<Longrightarrow>
     parse_value h n d (json_text repr x @ r) = Inr (x, r)"
  using json_text_starts [of repr h x] parse_scalar [of x repr h r "n - 1" d] by (cases n) auto

lemma depth_bounds:
  "json_depth (JsArr xs) \<le> d \<Longrightarrow> 0 < d \<and> (\<forall>x\<in>set xs. json_depth x \<le> d - 1)"
  "json_depth (JsObj ps) \<le> d \<Longrightarrow> 0 < d \<and> (\<forall>(k, x)\<in>set ps. json_depth x \<le> d - 1)"
proof -
  have m: "m \<le> n - 1 \<longleftrightarrow> m < n" if "0 < n" for m n :: nat using that by auto
  have f: "foldr max ys 0 < d \<longleftrightarrow> 0 < d \<and> (\<forall>y\<in>set ys. y < d)" for ys :: "nat list" by (induction ys) auto
  show "json_depth (JsArr xs) \<le> d \<Longrightarrow> 0 < d \<and> (\<forall>x\<in>set xs. json_depth x \<le> d - 1)"
    "json_depth (JsObj ps) \<le> d \<Longrightarrow> 0 < d \<and> (\<forall>(k, x)\<in>set ps. json_depth x \<le> d - 1)"
    by (auto simp: Suc_le_eq f m)
qed

lemma skip_comma: "skip_space (44 # r) = 44 # r" "skip_space (93 # r) = 93 # r" "skip_space (125 # r) = 125 # r"
  by (simp_all add: skip_space_def json_space_def)

lemma items_start:
  "xs \<noteq> [] \<Longrightarrow> list_all (json_printable repr h) xs \<Longrightarrow> \<exists>c t. items_text repr xs = c # t \<and> starts_value c"
  using json_text_starts by (cases xs) fastforce+

lemma members_start: "ps \<noteq> [] \<Longrightarrow> \<exists>t. members_text repr ps = 34 # t"
  by (cases ps) (auto simp: json_string_def)

lemma parse_text:
  "json_printable repr h x \<Longrightarrow> delimited r \<Longrightarrow> length (json_text repr x) \<le> n \<Longrightarrow> json_depth x \<le> d \<Longrightarrow>
     parse_value h n d (json_text repr x @ r) = Inr (x, r)"
  "xs \<noteq> [] \<Longrightarrow> list_all (json_printable repr h) xs \<Longrightarrow> length (items_text repr xs) \<le> n \<Longrightarrow> \<forall>x\<in>set xs. json_depth x \<le> d \<Longrightarrow>
     parse_items h n d (items_text repr xs @ r) = Inr (xs, r)"
  "ps \<noteq> [] \<Longrightarrow> list_all (\<lambda>(k, x). json_printable repr h x) ps \<Longrightarrow> length (members_text repr ps) \<le> n \<Longrightarrow>
     \<forall>(k, x)\<in>set ps. json_depth x \<le> d \<Longrightarrow> parse_members h n d (members_text repr ps @ r) = Inr (ps, r)"
proof (induction repr x and repr xs and repr ps arbitrary: n d r and n d r and n d r rule: json_text_items_text_members_text.induct)
  case (6 repr xs)
  then obtain m where n: "n = Suc m" by (cases n) auto
  note depth = depth_bounds(1) [OF 6(5)]
  show ?case
  proof (cases "xs = []")
    case True
    then show ?thesis using depth by (simp add: n skip_comma)
  next
    case False
    obtain c t where c: "items_text repr xs = c # t" "starts_value c"
      using items_start [OF False, of repr h] 6(2) by auto
    have "parse_items h m (d - 1) (items_text repr xs @ r) = Inr (xs, r)"
      using 6(1) [OF False False] 6(2,4) False depth n by simp
    then show ?thesis
      using False depth starts_value_skip [OF c(2)] by (simp add: n c(1))
  qed
next
  case (7 repr ps)
  then obtain m where n: "n = Suc m" by (cases n) auto
  note depth = depth_bounds(2) [OF 7(5)]
  show ?case
  proof (cases "ps = []")
    case True
    then show ?thesis using depth by (simp add: n skip_comma)
  next
    case False
    obtain t where c: "members_text repr ps = 34 # t" using members_start [OF False] by blast
    have "parse_members h m (d - 1) (members_text repr ps @ r) = Inr (ps, r)"
      using 7(1) [OF False False] 7(2,4) False depth n by simp
    then show ?thesis
      using 7(2) False depth starts_value_skip [of 34] by (simp add: n c starts_value_def object_pairs_def)
  qed
next
  case (9 repr x xs)
  then obtain m where n: "n = Suc m" by (cases n) (auto split: if_splits)
  have x: "parse_value h m d (json_text repr x @ s) = Inr (x, s)" if "delimited s" for s
    using 9 that by (intro 9(1)) (auto simp: n split: if_splits)
  show ?case
  proof (cases "xs = []")
    case True
    then show ?thesis using x [of "93 # r"] by (simp add: n delimited_def skip_comma)
  next
    case False
    obtain c t where c: "items_text repr xs = c # t" "starts_value c"
      using items_start [OF False, of repr h] 9(4) by auto
    have "parse_items h m d (items_text repr xs @ r) = Inr (xs, r)"
      using 9(2) [OF False False] 9(4-6) False by (simp add: n)
    then show ?thesis
      using False x [of "44 # items_text repr xs @ r"] starts_value_skip [OF c(2)] c(1) by (simp add: n delimited_def skip_comma)
  qed
next
  case (11 repr k x ps)
  then obtain m where n: "n = Suc m" by (cases n) (auto split: if_splits)
  obtain c t where t: "json_text repr x = c # t" "starts_value c"
    using json_text_starts [of repr h x] 11(4) by auto
  have x: "parse_value h m d (json_text repr x @ s) = Inr (x, s)" if "delimited s" for s
    using 11 that by (intro 11(1)) (auto simp: n split: if_splits)
  show ?case
  proof (cases "ps = []")
    case True
    then show ?thesis using x [of "93 # r"] scan_key_text [OF t, of k "125 # r"] x [of "125 # r"] by (simp add: n delimited_def skip_comma)
  next
    case False
    obtain t' where t': "members_text repr ps = 34 # t'" using members_start [OF False] by blast
    have "parse_members h m d (members_text repr ps @ r) = Inr (ps, r)"
      using 11(2) [OF False False] 11(4-6) False by (simp add: n)
    then show ?thesis
      using False x [of "44 # members_text repr ps @ r"] starts_value_skip [of 34] t' scan_key_text [OF t, of k "44 # members_text repr ps @ r"]
      by (simp add: n delimited_def skip_comma starts_value_def)
  qed
qed ((rule parse_fuel_scalar; simp) | simp)+

theorem json_loads_text:
  assumes "json_printable repr h x" "json_depth x \<le> jh_depth h"
  shows "json_loads h (json_text repr x) = Inr x"
proof -
  obtain c t where c: "json_text repr x = c # t" "starts_value c" using json_text_starts [OF assms(1)] by blast
  have "parse_value h (Suc (2 * length (json_text repr x))) (jh_depth h) (json_text repr x @ []) = Inr (x, [])"
    using assms by (intro parse_text(1)) (auto simp: delimited_def)
  moreover have "c \<noteq> 65279" using c(2) by (auto simp: starts_value_def is_digit_def)
  ultimately show ?thesis
    using starts_value_skip [OF c(2)] by (simp add: json_loads_def raw_decode_def c(1) skip_space_def)
qed

end
