(* ===== verification/Serde_Json.thy ===== *)
theory Serde_Json
  imports Json Redis_Contracts "HOL-Library.AList"
begin

text \<open>
  \<open>bluetape.serde._json\<close>: strict JSON serialisation within limits.

  A Python value is a tree (\<open>serde_object\<close>), so that the search for circular references finds none; the lists and dictionaries
  are exact \<open>list\<close> and \<open>dict\<close> objects. \<open>repr\<close> is \<open>float.__repr__\<close> and \<open>limit\<close> the interpreter's limit for nested
  containers in the decoder. The encoder nests at most 256 levels, which the interpreter allows.
\<close>

section \<open>Failures\<close>

datatype serde_code =
    SC_FORMAT_MISMATCH | SC_CONTENT_TYPE_MISMATCH | SC_UNSUPPORTED_VERSION | SC_TRUST_PROFILE_MISMATCH
  | SC_INPUT_LIMIT | SC_OUTPUT_LIMIT | SC_NESTING_LIMIT | SC_INTEGER_DIGIT_LIMIT
  | SC_INVALID_UTF8 | SC_DUPLICATE_KEY | SC_DECODE_NON_FINITE_NUMBER | SC_INVALID_JSON | SC_INVALID_FORY
  | SC_UNSUPPORTED_VALUE | SC_CIRCULAR_REFERENCE | SC_ENCODE_NON_FINITE_NUMBER | SC_ENCODE_RECURSION | SC_FORY_ENCODE

datatype serde_exn =
    SerdeTypeError string
  | SerdeValueError string
  | FormatMismatchError
  | ContentTypeMismatchError
  | UnsupportedVersionError
  | TrustProfileMismatchError
  | PayloadLimitError serde_code
  | MalformedPayloadError serde_code
  | SerdeEncodeError serde_code

definition limit_codes :: "serde_code list" where
  "limit_codes = [SC_INPUT_LIMIT, SC_OUTPUT_LIMIT, SC_NESTING_LIMIT, SC_INTEGER_DIGIT_LIMIT]"

definition malformed_codes :: "serde_code list" where
  "malformed_codes = [SC_INVALID_UTF8, SC_DUPLICATE_KEY, SC_DECODE_NON_FINITE_NUMBER, SC_INVALID_JSON, SC_INVALID_FORY]"

definition encode_codes :: "serde_code list" where
  "encode_codes = [SC_UNSUPPORTED_VALUE, SC_CIRCULAR_REFERENCE, SC_ENCODE_NON_FINITE_NUMBER, SC_ENCODE_RECURSION, SC_FORY_ENCODE]"

text \<open>The constructors of the restricted errors.\<close>

definition restricted :: "serde_code list \<Rightarrow> (serde_code \<Rightarrow> serde_exn) \<Rightarrow> serde_code \<Rightarrow> serde_exn" where
  "restricted allowed_codes error code =
     (if code \<notin> set allowed_codes then SerdeValueError ''code is not valid for this error type'' else error code)"

definition payload_limit_error :: "serde_code \<Rightarrow> serde_exn" where
  "payload_limit_error = restricted limit_codes PayloadLimitError"

definition malformed_payload_error :: "serde_code \<Rightarrow> serde_exn" where
  "malformed_payload_error = restricted malformed_codes MalformedPayloadError"

definition serde_encode_error :: "serde_code \<Rightarrow> serde_exn" where
  "serde_encode_error = restricted encode_codes SerdeEncodeError"

text \<open>\<open>_fresh_serde_error\<close>: the error is made again, without its traceback.\<close>

fun fresh_serde_error :: "serde_exn \<Rightarrow> serde_exn" where
  "fresh_serde_error (PayloadLimitError code) = payload_limit_error code"
| "fresh_serde_error (MalformedPayloadError code) = malformed_payload_error code"
| "fresh_serde_error (SerdeEncodeError code) = serde_encode_error code"
| "fresh_serde_error e = e"

section \<open>The check before encoding\<close>

datatype serde_object =
    ONone
  | OBool bool
  | OInt int
  | OFloat pyfloat
  | OStr pystr
  | OList "serde_object list"
  | ODict "(serde_object \<times> serde_object) list"
  | OOther

definition max_json_integer_digits :: nat where
  "max_json_integer_digits = 640"

definition max_json_integer_magnitude :: int where
  "max_json_integer_magnitude = 10 ^ max_json_integer_digits"

definition max_supported_nesting_depth :: int where
  "max_supported_nesting_depth = 256"

definition serde_default_size :: int where
  "serde_default_size = 16 * 1024 * 1024"

definition default_max_nesting_depth :: int where
  "default_max_nesting_depth = 100"

definition unsupported_value_error :: serde_exn where
  "unsupported_value_error = serde_encode_error SC_UNSUPPORTED_VALUE"

fun scalar_bound :: "pystr \<Rightarrow> int \<Rightarrow> serde_exn + int" where
  "scalar_bound [] encoded_lower_bound = Inr encoded_lower_bound"
| "scalar_bound (c # rest) encoded_lower_bound =
     (if 55296 \<le> c \<and> c \<le> 57343 then Inl unsupported_value_error
      else scalar_bound rest (encoded_lower_bound + (if c \<le> 127 then 1 else if c \<le> 2047 then 2 else if c \<le> 65535 then 3 else 4)))"

definition validate_unicode_scalar_string :: "pystr \<Rightarrow> serde_exn + int" where
  "validate_unicode_scalar_string value = scalar_bound value 2"

text \<open>An iterator of a container, as what its calls of \<open>next\<close> give: a value and the bytes in front of it, or an error.\<close>

type_synonym traversal_item = "serde_exn + serde_object \<times> int"

definition list_values :: "serde_object list \<Rightarrow> traversal_item list" where
  "list_values value = map (\<lambda>item. Inr (item, 0)) value"

definition dict_values :: "(serde_object \<times> serde_object) list \<Rightarrow> traversal_item list" where
  "dict_values value =
     map (\<lambda>(key, item).
       case key of
         OStr k \<Rightarrow> ebind (validate_unicode_scalar_string k) (\<lambda>key_lower_bound. Inr (item, key_lower_bound + 1))
       | _ \<Rightarrow> Inl unsupported_value_error) value"

text \<open>What one value adds to the lower bound; \<open>active\<close> is the number of open containers.\<close>

definition value_bound :: "int \<Rightarrow> nat \<Rightarrow> serde_object \<Rightarrow> serde_exn + int" where
  "value_bound max_nesting_depth active current =
     (let container = (if int active + 1 > max_nesting_depth then Inl (payload_limit_error SC_NESTING_LIMIT) else Inr 1)
      in case current of
           ONone \<Rightarrow> Inr 1
         | OBool _ \<Rightarrow> Inr 1
         | OInt n \<Rightarrow>
             if n \<ge> max_json_integer_magnitude \<or> n \<le> - max_json_integer_magnitude
             then Inl (payload_limit_error SC_INTEGER_DIGIT_LIMIT) else Inr 1
         | OStr s \<Rightarrow> validate_unicode_scalar_string s
         | OFloat f \<Rightarrow> if \<not> isfinite f then Inl (serde_encode_error SC_ENCODE_NON_FINITE_NUMBER) else Inr 1
         | OList _ \<Rightarrow> container
         | ODict _ \<Rightarrow> container
         | OOther \<Rightarrow> Inl unsupported_value_error)"

definition children :: "serde_object \<Rightarrow> traversal_item list list" where
  "children current = (case current of OList xs \<Rightarrow> [list_values xs] | ODict kvs \<Rightarrow> [dict_values kvs] | _ \<Rightarrow> [])"

text \<open>The inner loop: exhausted iterators are popped, and the next item is taken.\<close>

definition next_item :: "traversal_item list list \<Rightarrow> (traversal_item \<times> traversal_item list list) option" where
  "next_item stack =
     (case dropWhile (\<lambda>it. it = []) stack of
        [] \<Rightarrow> None
      | it # st \<Rightarrow> Some (hd it, tl it # st))"

fun obj_size :: "serde_object \<Rightarrow> nat" where
  "obj_size (OList xs) = Suc (sum_list (map obj_size xs))"
| "obj_size (ODict kvs) = Suc (sum_list (map (\<lambda>(k, v). obj_size v) kvs))"
| "obj_size _ = 1"

definition item_size :: "traversal_item \<Rightarrow> nat" where
  "item_size i = (case i of Inl _ \<Rightarrow> 0 | Inr (x, _) \<Rightarrow> obj_size x)"

definition stack_size :: "traversal_item list list \<Rightarrow> nat" where
  "stack_size stack = sum_list (map (\<lambda>it. sum_list (map item_size it)) stack)"

lemma stack_size_simps [simp]:
  "stack_size [] = 0" "stack_size (it # st) = sum_list (map item_size it) + stack_size st"
  by (simp_all add: stack_size_def)

lemma next_item_size: "next_item stack = Some (i, st) \<Longrightarrow> stack_size stack = item_size i + stack_size st"
  by (induction stack) (auto simp: next_item_def neq_Nil_conv split: if_splits)

lemma children_size: "stack_size (children x) < obj_size x"
proof (cases x)
  case (OList xs)
  then show ?thesis by (simp add: children_def list_values_def o_def item_size_def)
next
  case (ODict kvs)
  have "sum_list (map item_size (dict_values kvs)) \<le> sum_list (map (\<lambda>(k, v). obj_size v) kvs)"
    unfolding dict_values_def
    by (induction kvs) (auto simp: item_size_def ebind_def split: serde_object.splits sum.splits intro: add_mono)
  with ODict show ?thesis by (simp add: children_def)
qed (simp_all add: children_def)

lemma next_child_size:
  "next_item (children x @ stack) = Some (Inr (item, p), st) \<Longrightarrow> obj_size item + stack_size st < obj_size x + stack_size stack"
  using next_item_size [of "children x @ stack" "Inr (item, p)" st] children_size [of x]
  by (simp add: item_size_def stack_size_def)

function preflight_loop ::
  "int \<Rightarrow> int \<Rightarrow> serde_object \<Rightarrow> int \<Rightarrow> traversal_item list list \<Rightarrow> int \<Rightarrow> serde_exn + unit" where
  "preflight_loop max_nesting_depth max_output_size current pending stack validated =
     ebind (value_bound max_nesting_depth (length stack) current) (\<lambda>bound.
       let validated = validated + pending + bound
       in if validated > max_output_size then Inl (payload_limit_error SC_OUTPUT_LIMIT)
          else case next_item (children current @ stack) of
            None \<Rightarrow> Inr ()
          | Some (Inl e, _) \<Rightarrow> Inl e
          | Some (Inr (item, pending), stack) \<Rightarrow>
              preflight_loop max_nesting_depth max_output_size item pending stack validated)"
  by pat_completeness auto
termination
  by (relation "measure (\<lambda>(d, m, current, p, stack, v). obj_size current + stack_size stack)") (auto dest!: next_child_size)

declare preflight_loop.simps [simp del]

definition preflight_json_value :: "serde_object \<Rightarrow> int \<Rightarrow> int \<Rightarrow> serde_exn + unit" where
  "preflight_json_value value max_nesting_depth max_output_size =
     preflight_loop max_nesting_depth max_output_size value 0 [] 0"

section \<open>Encoding\<close>

text \<open>What the encoder makes of an object; \<open>None\<close> for an object it has no JSON for.\<close>

fun json_of :: "serde_object \<Rightarrow> json option" where
  "json_of ONone = Some JsNull"
| "json_of (OBool b) = Some (JsBool b)"
| "json_of (OInt n) = Some (JsInt n)"
| "json_of (OFloat f) = (if isfinite f then Some (JsFloat f) else None)"
| "json_of (OStr s) = Some (JsStr s)"
| "json_of (OList xs) = map_option JsArr (those (map json_of xs))"
| "json_of (ODict kvs) =
     map_option JsObj (those (map (\<lambda>(k, v). case k of OStr s \<Rightarrow> map_option (Pair s) (json_of v) | _ \<Rightarrow> None) kvs))"
| "json_of OOther = None"

definition max_size :: int where
  "max_size = 2 ^ 63 - 1"

text \<open>An argument of another class than the one asked for is \<open>None\<close>.\<close>

definition validate_configuration ::
  "payload_metadata option \<Rightarrow> pyval \<Rightarrow> pyval \<Rightarrow> serde_exn + payload_metadata \<times> int \<times> int" where
  "validate_configuration metadata max_output_size max_nesting_depth =
     (case metadata of
        None \<Rightarrow> Inl (SerdeTypeError ''metadata must be an exact PayloadMetadata'')
      | Some m \<Rightarrow>
          (case max_output_size of
             PyInt limit \<Rightarrow>
               (case max_nesting_depth of
                  PyInt depth \<Rightarrow>
                    if \<not> (0 \<le> limit \<and> limit < max_size)
                    then Inl (SerdeValueError ''max_output_size must be between 0 and sys.maxsize - 1'')
                    else if \<not> (0 \<le> depth \<and> depth \<le> max_supported_nesting_depth)
                    then Inl (SerdeValueError ''max_nesting_depth must be between 0 and MAX_SUPPORTED_NESTING_DEPTH'')
                    else Inr (m, limit, depth)
                | _ \<Rightarrow> Inl (SerdeTypeError ''max_nesting_depth must be an exact int''))
           | _ \<Rightarrow> Inl (SerdeTypeError ''max_output_size must be an exact int'')))"

definition validate_json_metadata :: "payload_metadata \<Rightarrow> serde_exn + unit" where
  "validate_json_metadata metadata =
     (if pm_format metadata \<noteq> ustr ''json'' then Inl FormatMismatchError
      else if pm_content_type metadata \<noteq> Some (ustr ''application/json'') then Inl ContentTypeMismatchError
      else if pm_version metadata \<noteq> 1 then Inl UnsupportedVersionError
      else Inr ())"

text \<open>The loop over the chunks: each is encoded, and added to the output while it fits.\<close>

fun collect_chunks :: "int \<Rightarrow> pystr list \<Rightarrow> pybytes \<Rightarrow> serde_exn + pybytes" where
  "collect_chunks max_output_size [] output = Inr output"
| "collect_chunks max_output_size (chunk # chunks) output =
     (case utf8_encode chunk of
        None \<Rightarrow> Inl (SerdeEncodeError SC_UNSUPPORTED_VALUE)
      | Some encoded_chunk \<Rightarrow>
          if int (length encoded_chunk) > max_output_size - int (length output) then Inl (PayloadLimitError SC_OUTPUT_LIMIT)
          else collect_chunks max_output_size chunks (output @ encoded_chunk))"

definition fresh :: "serde_exn + 'a \<Rightarrow> serde_exn + 'a" where
  "fresh r = (case r of Inl e \<Rightarrow> Inl (fresh_serde_error e) | Inr x \<Rightarrow> Inr x)"

definition json_serialize ::
  "(pyfloat \<Rightarrow> pystr) \<Rightarrow> serde_object \<Rightarrow> payload_metadata option \<Rightarrow> pyval \<Rightarrow> pyval \<Rightarrow> serde_exn + serialized_payload" where
  "json_serialize repr value metadata max_output_size max_nesting_depth =
     ebind (validate_configuration metadata max_output_size max_nesting_depth) (\<lambda>(metadata, max_output_size, max_nesting_depth).
     ebind (fresh (ebind (validate_json_metadata metadata) (\<lambda>_. preflight_json_value value max_nesting_depth max_output_size))) (\<lambda>_.
     ebind (fresh (case json_of value of
                     None \<Rightarrow> Inl (SerdeEncodeError SC_UNSUPPORTED_VALUE)
                   | Some j \<Rightarrow> collect_chunks max_output_size (json_chunks repr j) [])) (\<lambda>output.
       Inr \<lparr>sp_metadata = metadata, sp_data = output\<rparr>)))"

section \<open>Decoding\<close>

definition validate_deserialize_configuration ::
  "serialized_payload option \<Rightarrow> payload_metadata option \<Rightarrow> pyval \<Rightarrow> pyval
   \<Rightarrow> serde_exn + serialized_payload \<times> payload_metadata \<times> int \<times> int" where
  "validate_deserialize_configuration payload expected_metadata max_input_size max_nesting_depth =
     (case payload of
        None \<Rightarrow> Inl (SerdeTypeError ''payload must be an exact SerializedPayload'')
      | Some p \<Rightarrow>
          (case expected_metadata of
             None \<Rightarrow> Inl (SerdeTypeError ''expected_metadata must be an exact PayloadMetadata'')
           | Some m \<Rightarrow>
               (case max_input_size of
                  PyInt limit \<Rightarrow>
                    (case max_nesting_depth of
                       PyInt depth \<Rightarrow>
                         if \<not> (0 \<le> limit \<and> limit < max_size)
                         then Inl (SerdeValueError ''max_input_size must be between 0 and sys.maxsize - 1'')
                         else if \<not> (0 \<le> depth \<and> depth \<le> max_supported_nesting_depth)
                         then Inl (SerdeValueError ''max_nesting_depth must be between 0 and MAX_SUPPORTED_NESTING_DEPTH'')
                         else Inr (p, m, limit, depth)
                     | _ \<Rightarrow> Inl (SerdeTypeError ''max_nesting_depth must be an exact int''))
                | _ \<Rightarrow> Inl (SerdeTypeError ''max_input_size must be an exact int''))))"

definition validate_actual_metadata :: "payload_metadata \<Rightarrow> payload_metadata \<Rightarrow> serde_exn + unit" where
  "validate_actual_metadata actual expected =
     (if pm_format actual \<noteq> pm_format expected then Inl FormatMismatchError
      else if pm_content_type actual \<noteq> pm_content_type expected then Inl ContentTypeMismatchError
      else if pm_version actual \<noteq> pm_version expected then Inl UnsupportedVersionError
      else if pm_trust_profile actual \<noteq> pm_trust_profile expected then Inl TrustProfileMismatchError
      else Inr ())"

text \<open>The state of the scan of a text: inside a string, behind a backslash, and the depth. The scan fails when a
  bracket would open one level too many.\<close>

fun preflight_json_text :: "int \<Rightarrow> bool \<Rightarrow> bool \<Rightarrow> int \<Rightarrow> pystr \<Rightarrow> bool" where
  "preflight_json_text max_nesting_depth in_string escaped depth [] \<longleftrightarrow> True"
| "preflight_json_text max_nesting_depth in_string escaped depth (c # text_rest) \<longleftrightarrow>
     (if in_string
      then if escaped then preflight_json_text max_nesting_depth True False depth text_rest
           else if c = 92 then preflight_json_text max_nesting_depth True True depth text_rest
           else if c = 34 then preflight_json_text max_nesting_depth False escaped depth text_rest
           else preflight_json_text max_nesting_depth True escaped depth text_rest
      else if c = 34 then preflight_json_text max_nesting_depth True escaped depth text_rest
      else if c = 91 \<or> c = 123
      then depth + 1 \<le> max_nesting_depth \<and> preflight_json_text max_nesting_depth False escaped (depth + 1) text_rest
      else if (c = 93 \<or> c = 125) \<and> depth > 0 then preflight_json_text max_nesting_depth False escaped (depth - 1) text_rest
      else preflight_json_text max_nesting_depth False escaped depth text_rest)"

definition json_hooks_of :: "nat \<Rightarrow> json_hooks" where
  "json_hooks_of limit = \<lparr>jh_depth = limit, jh_digits = max_json_integer_digits, jh_finite = True, jh_constants = True\<rparr>"

text \<open>An unpaired surrogate is reported as a syntax error, like the error of the decoder.\<close>

fun normalize_unicode_scalar_string :: "pystr \<Rightarrow> json_error + pystr" where
  "normalize_unicode_scalar_string [] = Inr []"
| "normalize_unicode_scalar_string (c # rest) =
     (if high_surrogate c
      then (case rest of
              [] \<Rightarrow> Inl JSyntax
            | l # rest' \<Rightarrow>
                if \<not> low_surrogate l then Inl JSyntax
                else ebind (normalize_unicode_scalar_string rest') (\<lambda>r. Inr ((65536 + (c - 55296) * 1024 + l - 56320) # r)))
      else if low_surrogate c then Inl JSyntax
      else ebind (normalize_unicode_scalar_string rest) (\<lambda>r. Inr (c # r)))"

definition rename_key :: "(pystr \<times> json) list \<Rightarrow> pystr \<times> pystr \<Rightarrow> (pystr \<times> json) list" where
  "rename_key ps update =
     (case map_of ps (fst update) of
        None \<Rightarrow> ps
      | Some v \<Rightarrow> AList.update (snd update) v (filter (\<lambda>(k, _). k \<noteq> fst update) ps))"

text \<open>The items of a dictionary in order, with the updates of keys so far; \<open>keys\<close> are the keys of the dictionary.\<close>

fun normalize_decoded_strings :: "json \<Rightarrow> json_error + json"
  and normalize_items :: "json list \<Rightarrow> json_error + json list"
  and normalize_members :: "pystr set \<Rightarrow> (pystr \<times> json) list \<Rightarrow> json_error + (pystr \<times> json) list \<times> (pystr \<times> pystr) list" where
  "normalize_decoded_strings (JsStr s) = ebind (normalize_unicode_scalar_string s) (\<lambda>s'. Inr (JsStr s'))"
| "normalize_decoded_strings (JsArr xs) = ebind (normalize_items xs) (\<lambda>xs'. Inr (JsArr xs'))"
| "normalize_decoded_strings (JsObj ps) =
     ebind (normalize_members (fst ` set ps) ps) (\<lambda>(ps', key_updates). Inr (JsObj (foldl rename_key ps' key_updates)))"
| "normalize_decoded_strings JsNull = Inr JsNull"
| "normalize_decoded_strings (JsBool b) = Inr (JsBool b)"
| "normalize_decoded_strings (JsInt i) = Inr (JsInt i)"
| "normalize_decoded_strings (JsFloat f) = Inr (JsFloat f)"
| "normalize_items [] = Inr []"
| "normalize_items (x # xs) =
     ebind (normalize_decoded_strings x) (\<lambda>x'. ebind (normalize_items xs) (\<lambda>xs'. Inr (x' # xs')))"
| "normalize_members keys [] = Inr ([], [])"
| "normalize_members keys ((key, item) # ps) =
     ebind (normalize_decoded_strings item) (\<lambda>item'.
     ebind (normalize_unicode_scalar_string key) (\<lambda>normalized_key.
       if normalized_key \<noteq> key \<and> normalized_key \<in> keys then Inl JDuplicate
       else ebind (normalize_members keys ps) (\<lambda>(ps', updates).
              Inr ((key, item') # ps', if normalized_key \<noteq> key then (key, normalized_key) # updates else updates))))"

fun decode_failure_of :: "json_error \<Rightarrow> serde_exn" where
  "decode_failure_of JDuplicate = malformed_payload_error SC_DUPLICATE_KEY"
| "decode_failure_of JNonFinite = malformed_payload_error SC_DECODE_NON_FINITE_NUMBER"
| "decode_failure_of JDigits = payload_limit_error SC_INTEGER_DIGIT_LIMIT"
| "decode_failure_of JSyntax = malformed_payload_error SC_INVALID_JSON"
| "decode_failure_of JRecursion = malformed_payload_error SC_INVALID_JSON"

definition json_deserialize ::
  "nat \<Rightarrow> serialized_payload option \<Rightarrow> payload_metadata option \<Rightarrow> pyval \<Rightarrow> pyval \<Rightarrow> serde_exn + json" where
  "json_deserialize limit payload expected_metadata max_input_size max_nesting_depth =
     ebind (validate_deserialize_configuration payload expected_metadata max_input_size max_nesting_depth)
       (\<lambda>(payload, expected_metadata, max_input_size, max_nesting_depth).
     ebind (fresh (ebind (validate_json_metadata expected_metadata) (\<lambda>_.
                   validate_actual_metadata (sp_metadata payload) expected_metadata))) (\<lambda>_.
     if int (length (sp_data payload)) > max_input_size then Inl (fresh_serde_error (PayloadLimitError SC_INPUT_LIMIT))
     else case utf8_decode (sp_data payload) of
       None \<Rightarrow> Inl (fresh_serde_error (malformed_payload_error SC_INVALID_UTF8))
     | Some decoded \<Rightarrow>
         if \<not> preflight_json_text max_nesting_depth False False 0 decoded
         then Inl (fresh_serde_error (payload_limit_error SC_NESTING_LIMIT))
         else (case ebind (json_loads (json_hooks_of limit) decoded) normalize_decoded_strings of
                 Inl e \<Rightarrow> Inl (fresh_serde_error (decode_failure_of e))
               | Inr result \<Rightarrow> Inr result)))"

section \<open>The check is a walk over the value\<close>

text \<open>The reference: a recursive walk with the bytes counted so far.\<close>

fun visit :: "int \<Rightarrow> int \<Rightarrow> nat \<Rightarrow> serde_object \<Rightarrow> int \<Rightarrow> serde_exn + int"
  and visit_list :: "int \<Rightarrow> int \<Rightarrow> nat \<Rightarrow> serde_object list \<Rightarrow> int \<Rightarrow> serde_exn + int"
  and visit_dict :: "int \<Rightarrow> int \<Rightarrow> nat \<Rightarrow> (serde_object \<times> serde_object) list \<Rightarrow> int \<Rightarrow> serde_exn + int" where
  "visit dep mx active x sofar =
     ebind (value_bound dep active x) (\<lambda>bound.
       if sofar + bound > mx then Inl (payload_limit_error SC_OUTPUT_LIMIT)
       else case x of
         OList xs \<Rightarrow> visit_list dep mx (Suc active) xs (sofar + bound)
       | ODict kvs \<Rightarrow> visit_dict dep mx (Suc active) kvs (sofar + bound)
       | _ \<Rightarrow> Inr (sofar + bound))"
| "visit_list dep mx active [] sofar = Inr sofar"
| "visit_list dep mx active (x # xs) sofar =
     ebind (visit dep mx active x sofar) (\<lambda>sofar. visit_list dep mx active xs sofar)"
| "visit_dict dep mx active [] sofar = Inr sofar"
| "visit_dict dep mx active ((key, x) # kvs) sofar =
     (case key of
        OStr k \<Rightarrow>
          ebind (validate_unicode_scalar_string k) (\<lambda>key_bound.
          ebind (visit dep mx active x (sofar + (key_bound + 1))) (\<lambda>sofar. visit_dict dep mx active kvs sofar))
      | _ \<Rightarrow> Inl unsupported_value_error)"

declare visit.simps [simp del]

definition resume :: "int \<Rightarrow> int \<Rightarrow> traversal_item list list \<Rightarrow> int \<Rightarrow> serde_exn + unit" where
  "resume dep mx stack sofar =
     (case next_item stack of
        None \<Rightarrow> Inr ()
      | Some (Inl e, _) \<Rightarrow> Inl e
      | Some (Inr (x, pending), st) \<Rightarrow> preflight_loop dep mx x pending st sofar)"

lemma resume_simps [simp]:
  "resume dep mx [] sofar = Inr ()"
  "resume dep mx ([] # st) sofar = resume dep mx st sofar"
  "resume dep mx ((Inl e # it) # st) sofar = Inl e"
  "resume dep mx ((Inr (x, pending) # it) # st) sofar = preflight_loop dep mx x pending (it # st) sofar"
  by (simp_all add: resume_def next_item_def)

lemma values_simps [simp]:
  "list_values [] = []" "list_values (x # xs) = Inr (x, 0) # list_values xs"
  "dict_values [] = []"
  "dict_values ((OStr k, x) # kvs) =
     ebind (validate_unicode_scalar_string k) (\<lambda>key_lower_bound. Inr (x, key_lower_bound + 1)) # dict_values kvs"
  by (simp_all add: list_values_def dict_values_def)

lemma preflight_loop_resume:
  "preflight_loop dep mx x pending st sofar =
     ebind (value_bound dep (length st) x) (\<lambda>bound.
       if sofar + pending + bound > mx then Inl (payload_limit_error SC_OUTPUT_LIMIT)
       else resume dep mx (children x @ st) (sofar + pending + bound))"
  by (subst preflight_loop.simps) (simp add: resume_def Let_def cong: if_cong)

lemma ebind_assoc: "ebind (ebind m f) g = ebind m (\<lambda>x. ebind (f x) g)"
  by (cases m) simp_all

lemma preflight_visit:
  "length st = active \<Longrightarrow> preflight_loop dep mx x pending st sofar = ebind (visit dep mx active x (sofar + pending)) (resume dep mx st)"
  "Suc (length st) = active \<Longrightarrow>
     resume dep mx (list_values xs # st) sofar = ebind (visit_list dep mx active xs sofar) (resume dep mx st)"
  "Suc (length st) = active \<Longrightarrow>
     resume dep mx (dict_values kvs # st) sofar = ebind (visit_dict dep mx active kvs sofar) (resume dep mx st)"
proof (induction dep mx active x "sofar + pending" and dep mx active xs sofar and dep mx active kvs sofar
    arbitrary: pending sofar st and st and st rule: visit_visit_list_visit_dict.induct)
  case (1 dep mx active x pending sofar st)
  show ?case
  proof (cases "value_bound dep active x")
    case (Inr bound)
    then show ?thesis
      using 1(1) [of bound] 1(2) [of bound] 1(3) Inr
      by (cases x) (auto simp: preflight_loop_resume visit.simps children_def)
  qed (simp add: preflight_loop_resume visit.simps 1(3))
next
  case (3 dep mx active x xs sofar)
  show ?case
    using 3(1) [where pending = 0 and st = "list_values xs # st"] 3(2,3)
    by (simp add: ebind_assoc)
next
  case (5 dep mx active key x kvs sofar)
  show ?case
  proof (cases key)
    case (OStr k)
    show ?thesis
    proof (cases "validate_unicode_scalar_string k")
      case (Inr b)
      have "resume dep mx (dict_values kvs # st) = (\<lambda>n. ebind (visit_dict dep mx active kvs n) (resume dep mx st))"
        using 5(2) [OF OStr, of st] 5(3) by (intro ext) simp
      then show ?thesis
        using Inr OStr 5(1) [OF OStr, of b sofar "b + 1" "dict_values kvs # st"] 5(3)
        by (simp add: ebind_assoc)
    qed (simp add: OStr)
  qed (simp_all add: dict_values_def)
qed simp_all

theorem preflight_is_walk:
  "preflight_json_value x dep mx = ebind (visit dep mx 0 x 0) (\<lambda>_. Inr ())"
proof -
  have "resume dep mx [] = (\<lambda>_. Inr ())" by (rule ext) simp
  then show ?thesis
    using preflight_visit(1) [of "[]" 0 dep mx x 0 0] by (simp add: preflight_json_value_def)
qed

section \<open>What the check lets through\<close>

definition text_bytes :: "pystr \<Rightarrow> int" where
  "text_bytes s = int (length (concat (map utf8_char s)))"

definition scalar_text :: "pystr \<Rightarrow> bool" where
  "scalar_text s \<longleftrightarrow> list_all (\<lambda>c. \<not> surrogate c) s"

lemma text_bytes_simps [simp]:
  "text_bytes [] = 0" "text_bytes (c # s) = int (length (utf8_char c)) + text_bytes s" "text_bytes (s @ t) = text_bytes s + text_bytes t"
  by (simp_all add: text_bytes_def)

lemma text_bytes_nonneg [simp]: "0 \<le> text_bytes s"
  by (simp add: text_bytes_def)

lemma scalar_text_simps [simp]:
  "scalar_text []" "scalar_text (c # s) \<longleftrightarrow> \<not> surrogate c \<and> scalar_text s" "scalar_text (s @ t) \<longleftrightarrow> scalar_text s \<and> scalar_text t"
  by (simp_all add: scalar_text_def)

lemma scalar_bound_text: "scalar_bound s n = (if scalar_text s then Inr (n + text_bytes s) else Inl unsupported_value_error)"
  by (induction s arbitrary: n) (auto simp: surrogate_def utf8_char_def)

lemma validate_scalar: "validate_unicode_scalar_string s = (if scalar_text s then Inr (2 + text_bytes s) else Inl unsupported_value_error)"
  by (simp add: validate_unicode_scalar_string_def scalar_bound_text)

fun serde_value :: "json \<Rightarrow> bool" where
  "serde_value (JsInt i) \<longleftrightarrow> \<bar>i\<bar> < max_json_integer_magnitude"
| "serde_value (JsFloat f) \<longleftrightarrow> isfinite f"
| "serde_value (JsStr s) \<longleftrightarrow> scalar_text s"
| "serde_value (JsArr xs) \<longleftrightarrow> list_all serde_value xs"
| "serde_value (JsObj ps) \<longleftrightarrow> list_all (\<lambda>(k, x). scalar_text k \<and> serde_value x) ps"
| "serde_value _ \<longleftrightarrow> True"

text \<open>The floats of a value; and the lists behind \<open>json_of\<close>.\<close>

fun json_floats :: "json \<Rightarrow> pyfloat list" where
  "json_floats (JsFloat f) = [f]"
| "json_floats (JsArr xs) = concat (map json_floats xs)"
| "json_floats (JsObj ps) = concat (map (\<lambda>(k, x). json_floats x) ps)"
| "json_floats _ = []"

fun member_of :: "serde_object \<times> serde_object \<Rightarrow> (pystr \<times> json) option" where
  "member_of (OStr s, v) = map_option (Pair s) (json_of v)"
| "member_of _ = None"

lemma json_of_dict: "json_of (ODict kvs) = map_option JsObj (those (map member_of kvs))"
proof -
  have "(\<lambda>(k, v). case k of OStr s \<Rightarrow> map_option (Pair s) (json_of v) | _ \<Rightarrow> None) = member_of"
    by (auto split: serde_object.splits)
  then show ?thesis by simp
qed

text \<open>The walk is successful exactly for values that are representable and fit.\<close>

lemma visit_sound:
  "visit dep mx active x n = Inr m \<Longrightarrow> int active \<le> dep \<Longrightarrow>
     \<exists>j. json_of x = Some j \<and> serde_value j \<and> int active + int (json_depth j) \<le> dep"
  "visit_list dep mx active xs n = Inr m \<Longrightarrow> int active \<le> dep \<Longrightarrow>
     \<exists>js. those (map json_of xs) = Some js \<and> list_all serde_value js \<and> int active + int (foldr max (map json_depth js) 0) \<le> dep"
  "visit_dict dep mx active kvs n = Inr m \<Longrightarrow> int active \<le> dep \<Longrightarrow>
     \<exists>ps. those (map member_of kvs) = Some ps \<and> list_all (\<lambda>(k, x). scalar_text k \<and> serde_value x) ps
        \<and> int active + int (foldr max (map (\<lambda>(k, x). json_depth x) ps) 0) \<le> dep"
proof (induction dep mx active x n and dep mx active xs n and dep mx active kvs n
    arbitrary: m and m and m rule: visit_visit_list_visit_dict.induct)
  case (1 dep mx active x n)
  show ?case
  proof (cases x)
    case (OList xs)
    then have "int active + 1 \<le> dep" "\<not> mx < n + 1" "visit_list dep mx (Suc active) xs (n + 1) = Inr m"
      using 1(3) by (auto simp: visit.simps value_bound_def split: if_splits)
    then show ?thesis using OList 1(1) [of 1 xs m] by auto
  next
    case (ODict kvs)
    then have "int active + 1 \<le> dep" "\<not> mx < n + 1" "visit_dict dep mx (Suc active) kvs (n + 1) = Inr m"
      using 1(3) by (auto simp: visit.simps value_bound_def split: if_splits)
    then show ?thesis using ODict 1(2) [of 1 kvs m] by (auto simp: json_of_dict simp del: json_of.simps)
  qed (use 1 in \<open>auto simp: visit.simps value_bound_def validate_scalar split: if_splits\<close>)
next
  case (3 dep mx active x xs n)
  then obtain n' where n': "visit dep mx active x n = Inr n'" "visit_list dep mx active xs n' = Inr m" by auto
  show ?case using 3(1) [OF n'(1) 3(4)] 3(2) [OF n'(2) 3(4)] by (auto simp: max_def)
next
  case (5 dep mx active key x kvs n)
  then obtain k where k: "key = OStr k" by (cases key) auto
  with 5(3) obtain n' where n': "scalar_text k" "visit dep mx active x (n + (2 + text_bytes k + 1)) = Inr n'"
    "visit_dict dep mx active kvs n' = Inr m"
    by (auto simp: validate_scalar split: if_splits)
  show ?case using k n'(1) 5(1) [OF k n'(2) 5(4)] 5(2) [OF k n'(3) 5(4)] by (auto simp: max_def)
qed simp_all

text \<open>The bytes the walk counts are no more than the bytes of the text.\<close>

lemma utf8_char_length: "1 \<le> length (utf8_char c)" "c < 128 \<Longrightarrow> length (utf8_char c) = 1"
  by (simp_all add: utf8_char_def)

lemma escape_bytes: "int (length (utf8_char c)) \<le> text_bytes (escape_char c)"
  by (auto simp: escape_char_def utf8_char_length)

lemma json_string_bytes: "2 + text_bytes s \<le> text_bytes (json_string s)"
proof -
  have "text_bytes s \<le> text_bytes (concat (map escape_char s))"
    using escape_bytes by (induction s) (auto intro: add_mono)
  then show ?thesis by (simp add: json_string_def utf8_char_length)
qed

lemma text_bytes_pos: "s \<noteq> [] \<Longrightarrow> 1 \<le> text_bytes s"
  using utf8_char_length(1) by (cases s) (simp_all add: add_increasing2)

lemma float_printed_nonempty: "float_printed repr f \<Longrightarrow> repr f \<noteq> []"
  by (auto simp: float_printed_def scan_number_def scan_int_def)

lemma visit_complete:
  "json_of x = Some j \<Longrightarrow> serde_value j \<Longrightarrow> list_all (float_printed repr) (json_floats j) \<Longrightarrow>
     int active + int (json_depth j) \<le> dep \<Longrightarrow> n + text_bytes (json_text repr j) \<le> mx \<Longrightarrow>
     \<exists>m. visit dep mx active x n = Inr m \<and> m \<le> n + text_bytes (json_text repr j)"
  "those (map json_of xs) = Some js \<Longrightarrow> list_all serde_value js \<Longrightarrow> list_all (\<lambda>j. list_all (float_printed repr) (json_floats j)) js \<Longrightarrow>
     int active + int (foldr max (map json_depth js) 0) \<le> dep \<Longrightarrow> n + text_bytes (items_text repr js) \<le> mx \<Longrightarrow>
     \<exists>m. visit_list dep mx active xs n = Inr m \<and> m \<le> n + text_bytes (items_text repr js)"
  "those (map member_of kvs) = Some ps \<Longrightarrow> list_all (\<lambda>(k, x). scalar_text k \<and> serde_value x) ps \<Longrightarrow>
     list_all (\<lambda>(k, j). list_all (float_printed repr) (json_floats j)) ps \<Longrightarrow>
     int active + int (foldr max (map (\<lambda>(k, x). json_depth x) ps) 0) \<le> dep \<Longrightarrow> n + text_bytes (members_text repr ps) \<le> mx \<Longrightarrow>
     \<exists>m. visit_dict dep mx active kvs n = Inr m \<and> m \<le> n + text_bytes (members_text repr ps)"
proof (induction dep mx active x n and dep mx active xs n and dep mx active kvs n
    arbitrary: j and js and ps rule: visit_visit_list_visit_dict.induct)
  case (1 dep mx active x n)
  show ?case
  proof (cases x)
    case (OList xs)
    then obtain js where js: "those (map json_of xs) = Some js" "j = JsArr js" using 1(3) by auto
    have vb: "value_bound dep active x = Inr 1" using 1(6) js OList by (simp add: value_bound_def)
    have t: "text_bytes (json_text repr j) = 1 + (if js = [] then 1 else text_bytes (items_text repr js))"
      by (simp add: js utf8_char_length)
    have fits: "\<not> mx < n + 1" using 1(7) text_bytes_pos [of "json_text repr j"] by (simp add: js)
    have "\<exists>m. visit_list dep mx (Suc active) xs (n + 1) = Inr m \<and> m \<le> n + 1 + text_bytes (items_text repr js)"
      using 1(3-7) js t fits by (intro 1(1) [OF _ OList]) (auto simp: list_all_iff split: if_splits)
    then show ?thesis using fits t js OList vb by (auto simp: visit.simps split: if_splits)
  next
    case (ODict kvs)
    then obtain ps where ps: "those (map member_of kvs) = Some ps" "j = JsObj ps" using 1(3) by (auto simp: json_of_dict simp del: json_of.simps)
    have vb: "value_bound dep active x = Inr 1" using 1(6) ps ODict by (simp add: value_bound_def)
    have t: "text_bytes (json_text repr j) = 1 + (if ps = [] then 1 else text_bytes (members_text repr ps))"
      by (simp add: ps utf8_char_length)
    have fits: "\<not> mx < n + 1" using 1(7) text_bytes_pos [of "json_text repr j"] by (simp add: ps)
    have "\<exists>m. visit_dict dep mx (Suc active) kvs (n + 1) = Inr m \<and> m \<le> n + 1 + text_bytes (members_text repr ps)"
      using 1(4-7) ps t fits by (intro 1(2) [OF _ ODict]) (auto simp: list_all_iff split: if_splits)
    then show ?thesis using fits t ps ODict vb by (auto simp: visit.simps split: if_splits)
  next
    case (OInt i)
    then have "1 \<le> text_bytes (json_text repr j)"
      using 1(3) decimal_digits by (auto simp: json_int_def digits_ok_def text_bytes_pos)
    then show ?thesis using 1(3-7) OInt by (auto simp: visit.simps value_bound_def)
  next
    case (OFloat f)
    then have "1 \<le> text_bytes (json_text repr j)"
      using 1(3,5) float_printed_nonempty [of repr f] by (auto simp: text_bytes_pos split: if_splits)
    then show ?thesis using 1(3-7) OFloat by (auto simp: visit.simps value_bound_def split: if_splits)
  next
    case (OStr s)
    then show ?thesis using 1(3-7) json_string_bytes [of s] by (auto simp: visit.simps value_bound_def validate_scalar)
  qed (use 1(3-7) in \<open>auto simp: visit.simps value_bound_def ustr_def utf8_char_length split: if_splits\<close>)
next
  case (3 dep mx active x xs n)
  obtain j js' where js: "json_of x = Some j" "those (map json_of xs) = Some js'" "js = j # js'"
    using 3(3) by (auto split: option.splits)
  have t: "text_bytes (items_text repr js) = text_bytes (json_text repr j) + 1 + (if js' = [] then 0 else text_bytes (items_text repr js'))"
    by (simp add: js utf8_char_length)
  have t': "text_bytes (json_text repr j) + text_bytes (items_text repr js') \<le> text_bytes (items_text repr js)"
    by (simp add: t)
  have fits: "n + text_bytes (json_text repr j) \<le> mx" "int active + int (json_depth j) \<le> dep"
    using 3(6,7) t' text_bytes_nonneg [of "items_text repr js'"] js(3) by linarith (use 3(6) js(3) in simp)
  obtain n' where n': "visit dep mx active x n = Inr n'" "n' \<le> n + text_bytes (json_text repr j)"
    using 3(1) [OF js(1)] 3(4,5) js fits by auto
  have "\<exists>m. visit_list dep mx active xs n' = Inr m \<and> m \<le> n' + text_bytes (items_text repr js')"
    using 3(4-7) js n' t' by (intro 3(2) [OF js(2)]) auto
  then show ?case using n' t' by auto
next
  case (5 dep mx active key x kvs n)
  obtain k j ps' where ps: "key = OStr k" "json_of x = Some j" "those (map member_of kvs) = Some ps'" "ps = (k, j) # ps'"
    using 5(3) by (cases key) (auto split: option.splits)
  have t: "text_bytes (members_text repr ps) = text_bytes (json_string k) + 1 + text_bytes (json_text repr j) + 1
      + (if ps' = [] then 0 else text_bytes (members_text repr ps'))"
    by (simp add: ps utf8_char_length)
  note kb = json_string_bytes [of k]
  have t': "2 + text_bytes k + 1 + text_bytes (json_text repr j) + text_bytes (members_text repr ps') \<le> text_bytes (members_text repr ps)"
    using kb by (simp add: t)
  have fits: "n + (2 + text_bytes k + 1) + text_bytes (json_text repr j) \<le> mx" "int active + int (json_depth j) \<le> dep"
    using 5(6,7) t' text_bytes_nonneg [of "members_text repr ps'"] ps(4) by linarith (use 5(6) ps(4) in simp)
  obtain n' where n': "visit dep mx active x (n + (2 + text_bytes k + 1)) = Inr n'" "n' \<le> n + (2 + text_bytes k + 1) + text_bytes (json_text repr j)"
    using 5(1) [OF ps(1,2), of "2 + text_bytes k"] 5(4,5) ps fits by auto
  have "\<exists>m. visit_dict dep mx active kvs n' = Inr m \<and> m \<le> n' + text_bytes (members_text repr ps')"
    using 5(4-7) ps n' t' by (intro 5(2) [OF ps(1,3)]) auto
  then show ?case using n' t' ps 5(4) by (auto simp: validate_scalar)
qed simp_all

section \<open>What is encoded\<close>

definition utf8_bytes :: "pystr \<Rightarrow> pybytes" where
  "utf8_bytes s = concat (map utf8_char s)"

lemma utf8_encode_scalar: "utf8_encode s = (if scalar_text s then Some (utf8_bytes s) else None)"
  by (simp add: utf8_encode_def scalar_text_def utf8_bytes_def)

lemma text_bytes_length: "text_bytes s = int (length (utf8_bytes s))"
  by (simp add: text_bytes_def utf8_bytes_def)

lemma utf8_bytes_append [simp]: "utf8_bytes (s @ t) = utf8_bytes s @ utf8_bytes t"
  by (simp add: utf8_bytes_def)

lemma scalar_digits: "digits_ok ds \<Longrightarrow> scalar_text ds"
  by (auto simp: digits_ok_def scalar_text_def list_all_iff is_digit_def surrogate_def)

lemma scalar_number: "number_ok p \<Longrightarrow> scalar_text (number_text p)"
  by (auto simp: number_ok_def number_text_def scalar_digits surrogate_def split: option.splits)

lemma scalar_json_string: "scalar_text (json_string s) \<longleftrightarrow> scalar_text s"
proof -
  have "scalar_text (escape_char c) \<longleftrightarrow> \<not> surrogate c" for c
    by (auto simp: escape_char_def hex_lower_def surrogate_def split: if_splits)
  then have "scalar_text (concat (map escape_char s)) \<longleftrightarrow> scalar_text s" by (induction s) auto
  then show ?thesis by (simp add: json_string_def surrogate_def)
qed

text \<open>What is asked of the floats of a value.\<close>

abbreviation floats_printed :: "(pyfloat \<Rightarrow> pystr) \<Rightarrow> json \<Rightarrow> bool" where
  "floats_printed repr j \<equiv> list_all (float_printed repr) (json_floats j)"

lemma scalar_json_text:
  "serde_value j \<Longrightarrow> floats_printed repr j \<Longrightarrow> scalar_text (json_text repr j)"
  "list_all serde_value js \<Longrightarrow> list_all (floats_printed repr) js \<Longrightarrow> scalar_text (items_text repr js)"
  "list_all (\<lambda>(k, x). scalar_text k \<and> serde_value x) ps \<Longrightarrow> list_all (\<lambda>(k, j). floats_printed repr j) ps \<Longrightarrow> scalar_text (members_text repr ps)"
proof (induction repr j and repr js and repr ps rule: json_text_items_text_members_text.induct)
  case (3 repr i)
  then show ?case using int_number_text [of i] scalar_number [of "int_number i"] by simp
next
  case (4 repr f)
  then obtain p where "number_ok p" "repr f = number_text p" using float_scalar [of repr f] by auto
  then show ?case using scalar_number by simp
next
  case (7 repr ps)
  have "list_all (\<lambda>(k, j). floats_printed repr j) ps" using 7(3) by (fastforce simp: list_all_iff)
  then show ?case using 7(1,2) by (cases "ps = []") (simp_all add: surrogate_def)
qed (auto simp: scalar_json_string surrogate_def ustr_def list_all_iff)

lemma collect_chunks_fits:
  "scalar_text (concat chunks) \<Longrightarrow> int (length out) + text_bytes (concat chunks) \<le> mx \<Longrightarrow>
     collect_chunks mx chunks out = Inr (out @ utf8_bytes (concat chunks))"
proof (induction chunks arbitrary: out)
  case (Cons c chunks)
  then have "int (length (utf8_bytes c)) \<le> mx - int (length out)"
    using text_bytes_nonneg [of "concat chunks"] text_bytes_length [of c] by (simp del: text_bytes_nonneg)
  with Cons show ?case by (simp add: utf8_encode_scalar text_bytes_length [of c])
qed (simp add: utf8_bytes_def)

lemma collect_chunks_Inr:
  "collect_chunks mx chunks out = Inr r \<Longrightarrow> int (length out) \<le> mx \<Longrightarrow>
     r = out @ utf8_bytes (concat chunks) \<and> int (length r) \<le> mx"
proof (induction chunks arbitrary: out)
  case (Cons c chunks)
  then obtain "scalar_text c" "int (length (utf8_bytes c)) \<le> mx - int (length out)"
    "collect_chunks mx chunks (out @ utf8_bytes c) = Inr r"
    by (auto simp: utf8_encode_scalar split: if_splits)
  then show ?case using Cons.IH by fastforce
qed (simp add: utf8_bytes_def)

lemma fresh_Inr [simp]: "fresh r = Inr x \<longleftrightarrow> r = Inr x"
  by (cases r) (simp_all add: fresh_def)

lemma configuration_Inr:
  "validate_configuration metadata m d = Inr (md, mx, dep) \<longleftrightarrow>
     metadata = Some md \<and> m = PyInt mx \<and> d = PyInt dep \<and> 0 \<le> mx \<and> mx < max_size \<and> 0 \<le> dep \<and> dep \<le> max_supported_nesting_depth"
  by (auto simp: validate_configuration_def split: option.splits pyval.splits)

lemma serialize_Inr:
  assumes "json_serialize repr x metadata m d = Inr p" "\<And>j. json_of x = Some j \<Longrightarrow> floats_printed repr j"
  shows "\<exists>md mx dep j. metadata = Some md \<and> m = PyInt mx \<and> d = PyInt dep \<and> validate_json_metadata md = Inr ()
    \<and> json_of x = Some j \<and> serde_value j \<and> int (json_depth j) \<le> dep \<and> text_bytes (json_text repr j) \<le> mx
    \<and> p = \<lparr>sp_metadata = md, sp_data = utf8_bytes (json_text repr j)\<rparr>"
proof -
  obtain md mx dep bytes j where config: "metadata = Some md" "m = PyInt mx" "d = PyInt dep" "0 \<le> mx" "0 \<le> dep"
    and md: "validate_json_metadata md = Inr ()" and pre: "preflight_json_value x dep mx = Inr ()"
    and j: "json_of x = Some j" and collect: "collect_chunks mx (json_chunks repr j) [] = Inr bytes"
    and p: "p = \<lparr>sp_metadata = md, sp_data = bytes\<rparr>"
    using assms(1) by (auto simp: json_serialize_def configuration_Inr split: option.splits)
  obtain n where n: "visit dep mx 0 x 0 = Inr n" using pre by (auto simp: preflight_is_walk)
  have "serde_value j \<and> int (json_depth j) \<le> dep"
    using visit_sound(1) [OF n] config(5) j by auto
  moreover have "bytes = utf8_bytes (json_text repr j) \<and> text_bytes (json_text repr j) \<le> mx"
    using collect_chunks_Inr [OF collect] config(4) by (auto simp: concat_chunks text_bytes_length)
  ultimately show ?thesis using config md j p by blast
qed

lemma serialize_fits:
  assumes "0 \<le> mx" "mx < max_size" "0 \<le> dep" "dep \<le> max_supported_nesting_depth" "validate_json_metadata md = Inr ()"
    and "json_of x = Some j" "serde_value j" "floats_printed repr j" "int (json_depth j) \<le> dep" "text_bytes (json_text repr j) \<le> mx"
  shows "json_serialize repr x (Some md) (PyInt mx) (PyInt dep) = Inr \<lparr>sp_metadata = md, sp_data = utf8_bytes (json_text repr j)\<rparr>"
proof -
  have "validate_configuration (Some md) (PyInt mx) (PyInt dep) = Inr (md, mx, dep)"
    using assms(1-4) by (simp add: configuration_Inr)
  moreover have "preflight_json_value x dep mx = Inr ()"
    using visit_complete(1) [OF assms(6-8), of 0 dep 0 mx] assms(9,10) by (auto simp: preflight_is_walk)
  moreover have "collect_chunks mx (json_chunks repr j) [] = Inr (utf8_bytes (json_text repr j))"
    using collect_chunks_fits [of "json_chunks repr j" "[]" mx] scalar_json_text(1) [OF assms(7,8)] assms(10)
    by (simp add: concat_chunks)
  ultimately show ?thesis using assms(5,6) by (simp add: json_serialize_def fresh_def)
qed

text \<open>
  C25: \<open>json_serialize\<close> accepts exactly the values that fit, and its output is their text. With valid limits and JSON metadata,
  and with floats that \<open>repr\<close> prints as it documents, the function succeeds if and only if the value is made of
  \<open>None\<close>, booleans, integers of at most 640 digits, finite floats, texts without surrogates, lists and
  dictionaries with such keys, is nested no deeper than the limit, and its compact JSON text is at most
  \<open>max_output_size\<close> bytes of UTF-8; the payload is then that text. In particular the early check, which counts a
  lower bound of the bytes with an explicit stack, never refuses a value that would fit, and what it lets through the encoder can encode.
\<close>

theorem json_serialize_exact:
  assumes "0 \<le> mx" "mx < max_size" "0 \<le> dep" "dep \<le> max_supported_nesting_depth" "validate_json_metadata md = Inr ()"
    and "\<And>j. json_of x = Some j \<Longrightarrow> floats_printed repr j"
  shows "json_serialize repr x (Some md) (PyInt mx) (PyInt dep) = Inr p \<longleftrightarrow>
    (\<exists>j. json_of x = Some j \<and> serde_value j \<and> int (json_depth j) \<le> dep \<and> text_bytes (json_text repr j) \<le> mx
       \<and> p = \<lparr>sp_metadata = md, sp_data = utf8_bytes (json_text repr j)\<rparr>)"
proof
  assume "json_serialize repr x (Some md) (PyInt mx) (PyInt dep) = Inr p"
  from serialize_Inr [OF this assms(6)] show "\<exists>j. json_of x = Some j \<and> serde_value j \<and> int (json_depth j) \<le> dep
      \<and> text_bytes (json_text repr j) \<le> mx \<and> p = \<lparr>sp_metadata = md, sp_data = utf8_bytes (json_text repr j)\<rparr>"
    by auto
qed (use serialize_fits [OF assms(1-5)] assms(6) in blast)

section \<open>What is decoded\<close>

lemma le_foldr_max: "y \<in> set ys \<Longrightarrow> y \<le> foldr max ys (0 :: nat)"
  by (induction ys) auto

lemma depth_int:
  "k + int (json_depth (JsArr js)) \<le> dep \<Longrightarrow> k + 1 \<le> dep \<and> (\<forall>j\<in>set js. k + 1 + int (json_depth j) \<le> dep)"
  "k + int (json_depth (JsObj ps)) \<le> dep \<Longrightarrow> k + 1 \<le> dep \<and> (\<forall>(l, j)\<in>set ps. k + 1 + int (json_depth j) \<le> dep)"
proof -
  have js: "j \<in> set js \<Longrightarrow> json_depth j \<le> foldr max (map json_depth js) 0" for j by (rule le_foldr_max) simp
  show "k + int (json_depth (JsArr js)) \<le> dep \<Longrightarrow> k + 1 \<le> dep \<and> (\<forall>j\<in>set js. k + 1 + int (json_depth j) \<le> dep)"
    using js by fastforce
  have ps: "(l, j) \<in> set ps \<Longrightarrow> json_depth j \<le> foldr max (map (\<lambda>(l, j). json_depth j) ps) 0" for l j
    by (rule le_foldr_max) force
  show "k + int (json_depth (JsObj ps)) \<le> dep \<Longrightarrow> k + 1 \<le> dep \<and> (\<forall>(l, j)\<in>set ps. k + 1 + int (json_depth j) \<le> dep)"
    using ps by fastforce
qed

lemma scan_plain:
  "list_all (\<lambda>c. c \<notin> {34, 91, 93, 123, 125}) s \<Longrightarrow> preflight_json_text dep False False k (s @ r) = preflight_json_text dep False False k r"
  by (induction s) auto

lemma scan_digits: "digits_ok ds \<Longrightarrow> list_all (\<lambda>c. c \<notin> {34, 91, 93, 123, 125}) ds"
  by (auto simp: digits_ok_def list_all_iff is_digit_def)

lemma scan_number: "number_ok p \<Longrightarrow> list_all (\<lambda>c. c \<notin> {34, 91, 93, 123, 125}) (number_text p)"
  using scan_digits by (auto simp: number_ok_def number_text_def split: option.splits)

lemma scan_literal:
  "preflight_json_text dep False False k (json_string s @ r) = preflight_json_text dep False False k r"
proof -
  have c: "preflight_json_text dep True False k (escape_char c @ t) = preflight_json_text dep True False k t" for c t
    by (auto simp: escape_char_def hex_lower_def split: if_splits)
  have "preflight_json_text dep True False k (concat (map escape_char s) @ 34 # r) = preflight_json_text dep False False k r"
    by (induction s) (simp_all add: c)
  then show ?thesis by (simp add: json_string_def)
qed

text \<open>The scan of a printed text does not reject it, and is at the same depth behind it.\<close>

lemma scan_text:
  "floats_printed repr j \<Longrightarrow> 0 \<le> k \<Longrightarrow> k + int (json_depth j) \<le> dep \<Longrightarrow>
     preflight_json_text dep False False k (json_text repr j @ r) = preflight_json_text dep False False k r"
  "js \<noteq> [] \<Longrightarrow> list_all (floats_printed repr) js \<Longrightarrow> 0 < k \<Longrightarrow> \<forall>j\<in>set js. k + int (json_depth j) \<le> dep \<Longrightarrow>
     preflight_json_text dep False False k (items_text repr js @ r) = preflight_json_text dep False False (k - 1) r"
  "ps \<noteq> [] \<Longrightarrow> list_all (\<lambda>(l, j). floats_printed repr j) ps \<Longrightarrow> 0 < k \<Longrightarrow> \<forall>(l, j)\<in>set ps. k + int (json_depth j) \<le> dep \<Longrightarrow>
     preflight_json_text dep False False k (members_text repr ps @ r) = preflight_json_text dep False False (k - 1) r"
proof (induction repr j and repr js and repr ps arbitrary: k r and k r and k r rule: json_text_items_text_members_text.induct)
  case (3 repr i)
  then show ?case using int_number_text [of i] scan_number [of "int_number i"] by (simp add: scan_plain)
next
  case (4 repr f)
  then obtain p where "number_ok p" "repr f = number_text p" using float_scalar [of repr f] by auto
  then show ?case using scan_number [of p] by (simp add: scan_plain)
next
  case (6 repr js)
  have d: "k + 1 \<le> dep" "\<forall>j\<in>set js. k + 1 + int (json_depth j) \<le> dep"
    using depth_int(1) [OF 6(4)] by blast+
  show ?case
  proof (cases "js = []")
    case False
    have "list_all (floats_printed repr) js" using 6(2) by (auto simp: list_all_iff)
    then show ?thesis using 6(1) [OF False False, of "k + 1" r] d 6(3) False by simp
  qed (use d 6(3) in simp)
next
  case (7 repr ps)
  have d: "k + 1 \<le> dep" "\<forall>(l, j)\<in>set ps. k + 1 + int (json_depth j) \<le> dep"
    using depth_int(2) [OF 7(4)] by blast+
  show ?case
  proof (cases "ps = []")
    case False
    have "list_all (\<lambda>(l, j). floats_printed repr j) ps" using 7(2) by (fastforce simp: list_all_iff)
    then show ?thesis using 7(1) [OF False False, of "k + 1" r] d 7(3) False by simp
  qed (use d 7(3) in simp)
next
  case (9 repr x xs)
  then show ?case by (cases "xs = []") simp_all
next
  case (11 repr l x ps)
  then show ?case by (cases "ps = []") (simp_all add: scan_literal)
qed (simp_all add: scan_literal ustr_def)

text \<open>Texts without surrogates are normalised to themselves.\<close>

lemma normalize_scalar: "scalar_text s \<Longrightarrow> normalize_unicode_scalar_string s = Inr s"
  by (induction s) (auto simp: surrogate_def high_surrogate_def low_surrogate_def)

lemma normalize_value:
  "serde_value j \<Longrightarrow> normalize_decoded_strings j = Inr j"
  "list_all serde_value js \<Longrightarrow> normalize_items js = Inr js"
  "list_all (\<lambda>(k, x). scalar_text k \<and> serde_value x) ps \<Longrightarrow> normalize_members keys ps = Inr (ps, [])"
  by (induction j and js and keys ps rule: normalize_decoded_strings_normalize_items_normalize_members.induct)
     (auto simp: normalize_scalar)

text \<open>The keys of a dictionary are distinct: what Python guarantees of a \<open>dict\<close>.\<close>

fun keys_distinct :: "json \<Rightarrow> bool" where
  "keys_distinct (JsArr xs) \<longleftrightarrow> list_all keys_distinct xs"
| "keys_distinct (JsObj ps) \<longleftrightarrow> distinct (map fst ps) \<and> list_all (\<lambda>(k, x). keys_distinct x) ps"
| "keys_distinct _ \<longleftrightarrow> True"

lemma serde_printable:
  "serde_value j \<Longrightarrow> floats_printed repr j \<Longrightarrow> keys_distinct j \<Longrightarrow> json_printable repr (json_hooks_of limit) j"
proof (induction repr "json_hooks_of limit" j rule: json_printable.induct)
  case (1 repr i)
  have "nat \<bar>i\<bar> < 10 ^ max_json_integer_digits"
    using 1 by (simp add: max_json_integer_magnitude_def nat_less_iff)
  then show ?case using decimal_length [of "nat \<bar>i\<bar>" max_json_integer_digits] by (simp add: json_hooks_of_def max_json_integer_digits_def)
next
  case (4 repr ps)
  then show ?case by (fastforce simp: list_all_iff)
qed (auto simp: list_all_iff)

lemma utf8_decode_text:
  assumes "scalar_text s" "str_ok s"
  shows "utf8_decode (utf8_bytes s) = Some s"
  using utf8_decode_encode [OF assms(2), of "utf8_bytes s"] assms(1) by (simp add: utf8_encode_scalar)

lemma deserialize_configuration:
  "validate_deserialize_configuration payload metadata m d = Inr (pl, md, mx, dep) \<longleftrightarrow>
     payload = Some pl \<and> metadata = Some md \<and> m = PyInt mx \<and> d = PyInt dep
     \<and> 0 \<le> mx \<and> mx < max_size \<and> 0 \<le> dep \<and> dep \<le> max_supported_nesting_depth"
  by (auto simp: validate_deserialize_configuration_def split: option.splits pyval.splits)

text \<open>
  C30: what \<open>json_serialize\<close> writes, \<open>json_deserialize\<close> reads back as the same value, with the same
  expected metadata and limits that are no smaller. The value's dictionaries have distinct keys and its texts are
  sequences of code points, as in Python; its floats are printed by \<open>repr\<close> as numbers that \<open>float\<close> reads as the same value; and the interpreter's
  recursion limit is above the nesting limit.
\<close>

theorem json_round_trip:
  assumes "json_serialize repr x (Some md) (PyInt mx) (PyInt dep) = Inr p"
    and "json_of x = Some j" "floats_printed repr j" "keys_distinct j" "str_ok (json_text repr j)"
    and "mx \<le> mx'" "mx' < max_size" "dep \<le> dep'" "dep' \<le> max_supported_nesting_depth" "dep' \<le> int limit"
  shows "json_deserialize limit (Some p) (Some md) (PyInt mx') (PyInt dep') = Inr j"
proof -
  have written: "validate_json_metadata md = Inr ()" "serde_value j" "int (json_depth j) \<le> dep" "text_bytes (json_text repr j) \<le> mx"
    "p = \<lparr>sp_metadata = md, sp_data = utf8_bytes (json_text repr j)\<rparr>"
    using serialize_Inr [OF assms(1)] assms(2,3) by auto
  have range: "0 \<le> mx" "0 \<le> dep"
    using assms(1) by (auto simp: json_serialize_def validate_configuration_def split: if_splits)
  have config: "validate_deserialize_configuration (Some p) (Some md) (PyInt mx') (PyInt dep') = Inr (p, md, mx', dep')"
    using assms(6-9) range by (simp add: deserialize_configuration)
  have scalar: "scalar_text (json_text repr j)" by (rule scalar_json_text(1) [OF written(2) assms(3)])
  have decoded: "utf8_decode (sp_data p) = Some (json_text repr j)"
    using utf8_decode_text [OF scalar assms(5)] written(5) by simp
  have scan: "preflight_json_text dep' False False 0 (json_text repr j)"
    using scan_text(1) [OF assms(3), of 0 dep' "[]"] written(3) assms(8) by simp
  have loads: "json_loads (json_hooks_of limit) (json_text repr j) = Inr j"
    using serde_printable [OF written(2) assms(3,4)] written(3) assms(8,10) by (intro json_loads_text) (auto simp: json_hooks_of_def)
  have fits: "int (length (sp_data p)) \<le> mx'" using written(4,5) assms(6) by (simp add: text_bytes_length)
  show ?thesis
    using config written(1,5) decoded scan loads normalize_value(1) [OF written(2)] fits
    by (simp add: json_deserialize_def fresh_def validate_actual_metadata_def)
qed

section \<open>A concrete value\<close>

definition demo_repr :: "pyfloat \<Rightarrow> pystr" where
  "demo_repr f = ustr ''15.0''"

definition json_metadata :: payload_metadata where
  "json_metadata = \<lparr>pm_format = ustr ''json'', pm_version = 1, pm_content_type = Some (ustr ''application/json''), pm_trust_profile = UNTRUSTED\<rparr>"

definition demo_object :: serde_object where
  "demo_object = ODict [(OStr (ustr ''a''), OList [OInt (- 12), OFloat (Finite 15), OStr [233, 10], ONone])]"

definition demo_json :: json where
  "demo_json = JsObj [(ustr ''a'', JsArr [JsInt (- 12), JsFloat (Finite 15), JsStr [233, 10], JsNull])]"

definition demo_payload :: serialized_payload where
  "demo_payload = \<lparr>sp_metadata = json_metadata, sp_data = utf8_bytes (json_text demo_repr demo_json)\<rparr>"

lemma demo_json_of: "json_of demo_object = Some demo_json"
  by (simp add: demo_object_def demo_json_def)

lemma demo_metadata_ok: "validate_json_metadata json_metadata = Inr ()"
  by (simp add: validate_json_metadata_def json_metadata_def)

lemma demo_floats: "floats_printed demo_repr demo_json"
proof -
  have "scan_number (ustr ''15.0'') = Some (\<lparr>jn_negative = False, jn_int = [49, 53], jn_frac = Some [48], jn_exp = None\<rparr>, [])"
    by code_simp
  then show ?thesis
    using round_double_of_int [of 15] by (simp add: demo_json_def float_printed_def demo_repr_def number_rat_def digits_value_def power_int_minus)
qed

lemma demo_text: "json_text demo_repr demo_json = ustr ''{\"a\":[-12,15.0,\"'' @ [233, 92, 110] @ ustr ''\",null]}''"
  by (simp add: demo_json_def demo_repr_def json_string_def escape_char_def json_int_def decimal.simps ustr_def)

lemma demo_fits: "text_bytes (json_text demo_repr demo_json) \<le> 100" "str_ok (json_text demo_repr demo_json)"
  unfolding demo_text by (simp_all add: ustr_def utf8_char_def str_ok_def)

lemma demo_serde: "serde_value demo_json" "keys_distinct demo_json" "json_depth demo_json = 2"
  by (simp_all add: demo_json_def max_json_integer_magnitude_def max_json_integer_digits_def surrogate_def ustr_def)

lemma json_serialize_exact_witness:
  "json_serialize demo_repr demo_object (Some json_metadata) (PyInt 100) (PyInt 5) = Inr demo_payload"
  by (rule json_serialize_exact [THEN iffD2])
     (use demo_json_of demo_floats demo_fits demo_serde demo_metadata_ok in
       \<open>auto simp: demo_payload_def max_size_def max_supported_nesting_depth_def\<close>)

lemma demo_serialized: "json_serialize demo_repr demo_object (Some json_metadata) (PyInt 100) (PyInt 5) = Inr demo_payload"
  using serialize_fits [of 100 5 json_metadata demo_object demo_json demo_repr] demo_json_of demo_floats demo_fits demo_serde demo_metadata_ok
  by (simp add: demo_payload_def max_size_def max_supported_nesting_depth_def)

lemma json_round_trip_witness:
  "json_deserialize 300 (Some demo_payload) (Some json_metadata) (PyInt 1000) (PyInt 10) = Inr demo_json"
  using json_round_trip [OF demo_serialized demo_json_of demo_floats demo_serde(2) demo_fits(2), of 1000 10 300]
  by (simp add: max_size_def max_supported_nesting_depth_def)

end
