(* ===== verification/Serde_Decode.thy ===== *)
theory Serde_Decode
  imports Serde_Json "HOL-Library.Sublist"
begin

text \<open>
  What \<open>json_deserialize\<close> of \<open>bluetape.serde._json\<close> lets in: every value it returns is within the limits that it was called with, and is
  one that the serialiser would write. The scan of the text for its depth is followed along with the parser.
\<close>

section \<open>What decoding lets in\<close>

text \<open>No low surrogate right behind a high one: what the decoder leaves of escapes.\<close>

fun no_pair :: "pystr \<Rightarrow> bool" where
  "no_pair (c # l # s) \<longleftrightarrow> \<not> (high_surrogate c \<and> low_surrogate l) \<and> no_pair (l # s)"
| "no_pair _ \<longleftrightarrow> True"

lemma no_pair_Cons: "no_pair (c # s) \<longleftrightarrow> no_pair s \<and> (case s of [] \<Rightarrow> True | l # _ \<Rightarrow> \<not> (high_surrogate c \<and> low_surrogate l))"
  by (cases s) auto

lemma normalize_no_pair: "normalize_unicode_scalar_string s = Inr t \<Longrightarrow> no_pair s \<Longrightarrow> t = s \<and> scalar_text s"
proof (induction s arbitrary: t)
  case (Cons c s)
  have "\<not> high_surrogate c"
  proof
    assume high: "high_surrogate c"
    then obtain l s' where s: "s = l # s'" "low_surrogate l" using Cons.prems(1) by (cases s) (auto split: if_splits)
    with high Cons.prems(2) show False by simp
  qed
  with Cons show ?case
    by (auto simp: no_pair_Cons surrogate_def high_surrogate_def low_surrogate_def split: if_splits)
qed simp

text \<open>What the scan of a text does over the part a scanner has consumed: it is where it was, outside of strings.\<close>

definition passes :: "pystr \<Rightarrow> pystr \<Rightarrow> bool" where
  "passes s r \<longleftrightarrow> suffix r s \<and> (\<forall>dep k. preflight_json_text dep False False k s = preflight_json_text dep False False k r)"

lemma passes_refl [simp]: "passes s s"
  by (simp add: passes_def)

lemma passes_trans: "passes s t \<Longrightarrow> passes t r \<Longrightarrow> passes s r"
  by (auto simp: passes_def intro: suffix_order.trans)

lemma scalar_suffix: "suffix r s \<Longrightarrow> scalar_text s \<Longrightarrow> scalar_text r"
  by (auto simp: suffix_def)

lemma passes_scalar: "passes s r \<Longrightarrow> scalar_text s \<Longrightarrow> scalar_text r"
  by (auto simp: passes_def intro: scalar_suffix)

lemma passes_space: "passes s (skip_space s)"
proof -
  have "s = takeWhile json_space s @ skip_space s" by (simp add: skip_space_def)
  moreover have "list_all (\<lambda>c. c \<notin> {34, 91, 93, 123, 125}) (takeWhile json_space s)"
    by (induction s) (auto simp: json_space_def)
  ultimately show ?thesis unfolding passes_def suffix_def by (metis scan_plain)
qed

lemma passes_number: "scan_number s = Some (p, r) \<Longrightarrow> passes s r"
  unfolding passes_def suffix_def using scan_number_Some scan_number scan_plain by metis

lemma scan_word_Some: "scan_word ws s = Some (v, r) \<Longrightarrow> \<exists>w. (w, v) \<in> set ws \<and> s = w @ r"
  by (auto simp: scan_word_def split: list.splits dest!: filter_eq_ConsD) (metis append_take_drop_id)

lemma passes_word: "scan_word json_words s = Some (v, r) \<Longrightarrow> passes s r"
  using scan_word_Some [of json_words s v r] by (auto simp: passes_def json_words_def ustr_def intro!: suffix_ConsI)

text \<open>A string literal: inside it the scan looks only for the closing quote.\<close>

lemma hex4_plain: "hex4 s = Some u \<Longrightarrow> s = take 4 s @ drop 4 s \<and> list_all (\<lambda>c. c \<noteq> 34 \<and> c \<noteq> 92) (take 4 s)"
  by (induction s rule: hex4.induct) (auto split: option.splits if_splits)

lemma inside_plain:
  "list_all (\<lambda>c. c \<noteq> 34 \<and> c \<noteq> 92) s \<Longrightarrow> preflight_json_text dep True False k (s @ r) = preflight_json_text dep True False k r"
  by (induction s) auto

lemma hex4_inside: "hex4 s = Some u \<Longrightarrow> preflight_json_text dep True False k s = preflight_json_text dep True False k (drop 4 s)"
  using hex4_plain inside_plain by metis

lemma low_escape_inside:
  assumes "low_escape s = Some l"
  shows "preflight_json_text dep True False k s = preflight_json_text dep True False k (drop 6 s)"
proof -
  obtain t where s: "s = 92 # 117 # t"
    using assms by (cases s; cases "tl s") (auto simp: low_escape_def split: if_splits)
  then have "hex4 t = Some l" using assms by (auto simp: low_escape_def split: option.splits if_splits)
  with s show ?thesis using hex4_inside [of t l dep k] by simp
qed

lemma scan_string_eqs:
  "scan_string [] = None"
  "scan_string (34 # t) = Some ([], t)"
  "c \<noteq> 34 \<Longrightarrow> c \<noteq> 92 \<Longrightarrow> scan_string (c # t) = (if c < 32 then None else map_option (apfst (Cons c)) (scan_string t))"
  "scan_string [92] = None"
  "e \<noteq> 117 \<Longrightarrow> scan_string (92 # e # t) =
     (case map_of escapes e of None \<Rightarrow> None | Some x \<Rightarrow> map_option (apfst (Cons x)) (scan_string t))"
  "scan_string (92 # 117 # t) =
     (case hex4 t of
        None \<Rightarrow> None
      | Some u \<Rightarrow>
          (case (if high_surrogate u then low_escape (drop 4 t) else None) of
             None \<Rightarrow> map_option (apfst (Cons u)) (scan_string (drop 4 t))
           | Some l \<Rightarrow> map_option (apfst (Cons (65536 + (u - 55296) * 1024 + (l - 56320)))) (scan_string (drop 10 t))))"
  by (simp_all add: scan_string.simps [of "_ # _"] scan_string.simps [of "[]"])

text \<open>The strings that come out of a text without surrogates have no pairs.\<close>

lemma scan_string_pairs: "scan_string s = Some (x, r) \<Longrightarrow> scalar_text s \<Longrightarrow> no_pair x"
proof (induction s arbitrary: x r rule: scan_string.induct)
  case (1 s)
  have raw: "\<not> low_surrogate l" if "scan_string t = Some (l # y, r')" "scalar_text t" "low_escape t = None" for t l y r'
  proof
    note asm = that
    assume low: "low_surrogate l"
    obtain c t' where t: "t = c # t'" using asm(1) by (cases t) (auto simp: scan_string_eqs)
    have "c = 92"
      using asm(1,2) low by (cases "c = 34"; cases "c = 92") (auto simp: t scan_string_eqs surrogate_def low_surrogate_def split: if_splits)
    moreover obtain e t'' where "t' = e # t''" using asm(1) t \<open>c = 92\<close> by (cases t') (auto simp: scan_string_eqs)
    ultimately have t: "t = 92 # e # t''" using t by simp
    have "e = 117"
      using asm(1) low by (rule_tac ccontr) (auto simp: t scan_string_eqs escapes_def low_surrogate_def split: option.splits if_splits)
    with asm(1,3) low t show False
      by (auto simp: scan_string_eqs low_escape_def low_surrogate_def high_surrogate_def split: option.splits if_splits)
  qed
  from 1(5) obtain c t where s: "s = c # t" by (cases s) (auto simp: scan_string_eqs)
  show ?case
  proof (cases "c = 92")
    case False
    then show ?thesis
      using 1(1) [OF s] 1(5,6)
      by (cases "c = 34") (auto simp: s scan_string_eqs no_pair_Cons surrogate_def high_surrogate_def split: if_splits list.splits)
  next
    case True
    with 1(5) obtain e t' where t: "t = e # t'" by (cases t) (auto simp: s scan_string_eqs)
    show ?thesis
    proof (cases "e = 117")
      case False
      then show ?thesis
        using 1(2) [OF s _ _ _ t] 1(5,6) True
        by (auto simp: s t scan_string_eqs no_pair_Cons escapes_def high_surrogate_def split: option.splits if_splits list.splits)
    next
      case e: True
      with 1(5) True obtain u where u: "hex4 t' = Some u" by (cases "hex4 t'") (auto simp: s t scan_string_eqs)
      have scalar: "scalar_text (drop n t')" for n using 1(6) s t by (simp add: scalar_suffix [OF suffix_drop])
      show ?thesis
      proof (cases "if high_surrogate u then low_escape (drop 4 t') else None")
        case None
        then obtain x' where x': "scan_string (drop 4 t') = Some (x', r)" "x = u # x'"
          using 1(5) True e u by (auto simp: s t scan_string_eqs split: if_splits)
        have "no_pair x'" using 1(3) [OF s _ _ _ t _ u None x'(1)] True e scalar by simp
        moreover have "\<not> (high_surrogate u \<and> low_surrogate l)" if "x' = l # y" for l y
          using raw [of "drop 4 t'" l y r] x'(1) that scalar None by (auto split: if_splits)
        ultimately show ?thesis by (simp add: x'(2) no_pair_Cons split: list.splits)
      next
        case (Some l)
        then obtain x' where x': "scan_string (drop 10 t') = Some (x', r)" "x = (65536 + (u - 55296) * 1024 + (l - 56320)) # x'"
          using 1(5) True e u by (auto simp: s t scan_string_eqs split: if_splits)
        have "no_pair x'" using 1(4) [OF s _ _ _ t _ u Some x'(1)] True e scalar by simp
        then show ?thesis by (simp add: x'(2) no_pair_Cons high_surrogate_def split: list.splits)
      qed
    qed
  qed
qed

lemma scan_string_inside:
  "scan_string s = Some (x, r) \<Longrightarrow> suffix r s \<and> preflight_json_text dep True False k s = preflight_json_text dep False False k r"
proof (induction s arbitrary: x r rule: scan_string.induct)
  case (1 s)
  from 1(5) obtain c t where s: "s = c # t" by (cases s) (auto simp: scan_string_eqs)
  show ?case
  proof (cases "c = 92")
    case False
    then show ?thesis
      using 1(1) [OF s] 1(5) by (cases "c = 34") (auto simp: s scan_string_eqs split: if_splits intro!: suffix_ConsI)
  next
    case True
    with 1(5) obtain e t' where t: "t = e # t'" by (cases t) (auto simp: s scan_string_eqs)
    show ?thesis
    proof (cases "e = 117")
      case False
      then show ?thesis
        using 1(2) [OF s _ _ _ t] 1(5) True by (auto simp: s t scan_string_eqs split: option.splits intro!: suffix_ConsI)
    next
      case e: True
      with 1(5) True obtain u where u: "hex4 t' = Some u" by (cases "hex4 t'") (auto simp: s t scan_string_eqs)
      note hex = hex4_inside [OF u, of dep k]
      show ?thesis
      proof (cases "if high_surrogate u then low_escape (drop 4 t') else None")
        case None
        then obtain x' where "scan_string (drop 4 t') = Some (x', r)"
          using 1(5) True e u by (auto simp: s t scan_string_eqs split: if_splits)
        then have "suffix r (drop 4 t') \<and> preflight_json_text dep True False k (drop 4 t') = preflight_json_text dep False False k r"
          using 1(3) [OF s _ _ _ t _ u None] True e by auto
        then show ?thesis
          using hex True e s t suffix_order.trans [OF _ suffix_drop [of 4 t']] by (auto intro!: suffix_ConsI)
      next
        case (Some l)
        then obtain x' where "scan_string (drop 10 t') = Some (x', r)"
          using 1(5) True e u by (auto simp: s t scan_string_eqs split: if_splits)
        then have "suffix r (drop 10 t') \<and> preflight_json_text dep True False k (drop 10 t') = preflight_json_text dep False False k r"
          using 1(4) [OF s _ _ _ t _ u Some] True e by auto
        moreover have "preflight_json_text dep True False k (drop 4 t') = preflight_json_text dep True False k (drop 10 t')"
          using Some low_escape_inside [of "drop 4 t'" l dep k] by (auto split: if_splits)
        ultimately show ?thesis
          using hex True e s t suffix_order.trans [OF _ suffix_drop [of 10 t']] by (auto intro!: suffix_ConsI)
      qed
    qed
  qed
qed

lemma passes_literal: "scan_string t = Some (x, r) \<Longrightarrow> passes (34 # t) r"
  unfolding passes_def using scan_string_inside [of t x r] by (auto intro: suffix_ConsI)

fun parsed :: "json \<Rightarrow> bool" where
  "parsed (JsInt i) \<longleftrightarrow> \<bar>i\<bar> < max_json_integer_magnitude"
| "parsed (JsFloat f) \<longleftrightarrow> isfinite f"
| "parsed (JsStr s) \<longleftrightarrow> no_pair s"
| "parsed (JsArr xs) \<longleftrightarrow> list_all parsed xs"
| "parsed (JsObj ps) \<longleftrightarrow> distinct (map fst ps) \<and> list_all (\<lambda>(k, x). no_pair k \<and> parsed x) ps"
| "parsed _ \<longleftrightarrow> True"

lemma digits_value_bound: "list_all is_digit ds \<Longrightarrow> 0 \<le> digits_value ds \<and> digits_value ds < 10 ^ length ds"
proof (induction ds rule: rev_induct)
  case (snoc c ds)
  then have "48 \<le> int c" "int c \<le> 57" by (auto simp: is_digit_def)
  with snoc show ?case by (simp add: digits_value_snoc)
qed (simp add: digits_value_def)

lemma parsed_number:
  assumes "scan_number s = Some (p, r)" "number_value (json_hooks_of limit) p = Inr v"
  shows "parsed v \<and> json_depth v = 0"
proof -
  have "list_all is_digit (jn_int p)" using scan_number_Some [OF assms(1)] by (simp add: number_ok_def digits_ok_def)
  note b = digits_value_bound [OF this]
  have "digits_value (jn_int p) < max_json_integer_magnitude" if "length (jn_int p) \<le> max_json_integer_digits"
    using b power_increasing [OF that, of "10 :: int"] by (simp add: max_json_integer_magnitude_def del: power_increasing_iff)
  with b assms(2) show ?thesis
    by (auto simp: number_value_def json_hooks_of_def Let_def split: if_splits)
qed

lemma parsed_scalar:
  "scan_scalar (json_hooks_of limit) s = Inr (v, r) \<Longrightarrow> passes s r \<and> parsed v \<and> json_depth v = 0"
  using passes_word [of s v r] scan_word_Some [of json_words s v r] parsed_number [of s _ r limit v] passes_number [of s _ r]
  by (auto simp: scan_scalar_def json_words_def json_hooks_of_def split: option.splits)

lemma parsed_key:
  assumes "scan_key s = Inr (k, t)" "scalar_text s"
  shows "no_pair k \<and> passes s t"
proof -
  obtain u r r' where s: "s = 34 # u" "scan_string u = Some (k, r)" "skip_space r = 58 # r'" "t = skip_space r'"
    using assms(1) by (auto simp: scan_key_def split: list.splits if_splits option.splits)
  have "passes (58 # r') r'" by (auto simp: passes_def intro: suffix_ConsI)
  then have "passes r t" using passes_space [of r] passes_space [of r'] s(3,4) passes_trans by metis
  then show ?thesis
    using passes_literal [OF s(2)] scan_string_pairs [OF s(2)] assms(2) s(1) passes_trans by auto
qed

lemma depth_int_intro:
  "k + 1 \<le> dep \<Longrightarrow> \<forall>j\<in>set js. k + 1 + int (json_depth j) \<le> dep \<Longrightarrow> k + int (json_depth (JsArr js)) \<le> dep"
  "k + 1 \<le> dep \<Longrightarrow> \<forall>(l, j)\<in>set ps. k + 1 + int (json_depth j) \<le> dep \<Longrightarrow> k + int (json_depth (JsObj ps)) \<le> dep"
proof -
  show "k + 1 \<le> dep \<Longrightarrow> \<forall>j\<in>set js. k + 1 + int (json_depth j) \<le> dep \<Longrightarrow> k + int (json_depth (JsArr js)) \<le> dep"
    by (induction js) (auto simp: max_def)
  show "k + 1 \<le> dep \<Longrightarrow> \<forall>(l, j)\<in>set ps. k + 1 + int (json_depth j) \<le> dep \<Longrightarrow> k + int (json_depth (JsObj ps)) \<le> dep"
    by (induction ps) (auto simp: max_def)
qed

text \<open>What the scan has established where a value, the items or the members of a container were parsed.\<close>

definition scan_within :: "int \<Rightarrow> int \<Rightarrow> pystr \<Rightarrow> pystr \<Rightarrow> int \<Rightarrow> json list \<Rightarrow> bool" where
  "scan_within dep k s r k' js \<longleftrightarrow>
     (preflight_json_text dep False False k s \<longrightarrow>
        (\<forall>j\<in>set js. k + int (json_depth j) \<le> dep) \<and> preflight_json_text dep False False k' r)"

lemma scan_within_passes: "passes s t \<Longrightarrow> scan_within dep k t r k' js \<Longrightarrow> scan_within dep k s r k' js"
  by (auto simp: scan_within_def passes_def)

lemma parsed_value:
  "parse_value h n d s = Inr (v, r) \<Longrightarrow> h = json_hooks_of limit \<Longrightarrow> scalar_text s \<Longrightarrow>
     parsed v \<and> suffix r s \<and> (\<forall>k. 0 \<le> k \<longrightarrow> k \<le> dep \<longrightarrow> scan_within dep k s r k [v])"
  "parse_items h n d s = Inr (js, r) \<Longrightarrow> h = json_hooks_of limit \<Longrightarrow> scalar_text s \<Longrightarrow>
     list_all parsed js \<and> suffix r s \<and> (\<forall>k. 0 < k \<longrightarrow> k \<le> dep \<longrightarrow> scan_within dep k s r (k - 1) js)"
  "parse_members h n d s = Inr (ps, r) \<Longrightarrow> h = json_hooks_of limit \<Longrightarrow> scalar_text s \<Longrightarrow>
     list_all (\<lambda>(l, j). no_pair l \<and> parsed j) ps \<and> suffix r s \<and> (\<forall>k. 0 < k \<longrightarrow> k \<le> dep \<longrightarrow> scan_within dep k s r (k - 1) (map snd ps))"
proof (induction h n d s and h n d s and h n d s arbitrary: v r and js r and ps r rule: parse_value_parse_items_parse_members.induct)
  case (2 h n d s)
  from 2(3) obtain c t where s: "s = c # t" by (cases s) auto
  note space = passes_space [of t]
  consider (literal) "c = 34" | (array) "c = 91" | (object) "c = 123" | (scalar) "c \<noteq> 34 \<and> c \<noteq> 91 \<and> c \<noteq> 123" by blast
  then show ?case
  proof cases
    case literal
    then obtain x where "scan_string t = Some (x, r)" "v = JsStr x" using 2(3) s by (auto split: option.splits)
    then show ?thesis
      using passes_literal [of t x r] scan_string_pairs [of t x r] literal s 2(5) by (auto simp: passes_def scan_within_def)
  next
    case scalar
    then have "scan_scalar (json_hooks_of limit) s = Inr (v, r)" using 2(3,4) s by simp
    then show ?thesis using parsed_scalar [of limit s v r] by (auto simp: passes_def scan_within_def)
  next
    case array
    then obtain x u where u: "skip_space t = x # u" "d \<noteq> 0" using 2(3) s by (auto split: if_splits list.splits)
    have sc: "scalar_text (x # u)" using passes_scalar [OF space] 2(5) s u by simp
    show ?thesis
    proof (cases "x = 93")
      case True
      then have "v = JsArr []" "r = u" using 2(3) s u array by auto
      then show ?thesis using True s u array space by (auto simp: passes_def scan_within_def suffix_Cons dest: suffix_ConsD)
    next
      case False
      then obtain xs where xs: "parse_items h n (d - 1) (x # u) = Inr (xs, r)" "v = JsArr xs"
        using 2(3) s u array by auto
      have IH: "list_all parsed xs \<and> suffix r (x # u) \<and> (\<forall>k. 0 < k \<longrightarrow> k \<le> dep \<longrightarrow> scan_within dep k (x # u) r (k - 1) xs)"
        by (rule 2(1) [OF s _ _ _ u(1) False xs(1) 2(4) sc]) (use array u in auto)
      have "scan_within dep k s r k [v]" if k: "0 \<le> k" "k \<le> dep" for k
        unfolding scan_within_def
      proof
        assume "preflight_json_text dep False False k s"
        then have k1: "k + 1 \<le> dep" and "preflight_json_text dep False False (k + 1) (x # u)"
          using s array space u by (auto simp: passes_def)
        then show "(\<forall>j\<in>set [v]. k + int (json_depth j) \<le> dep) \<and> preflight_json_text dep False False k r"
          using IH k depth_int_intro(1) [OF k1, of xs] xs(2) unfolding scan_within_def by (auto dest!: spec [of _ "k + 1"])
      qed
      then show ?thesis using IH xs(2) s u space by (auto simp: passes_def intro: suffix_ConsI suffix_order.trans)
    qed
  next
    case object
    then obtain x u where u: "skip_space t = x # u" "d \<noteq> 0" using 2(3) s by (auto split: if_splits list.splits)
    have sc: "scalar_text (x # u)" using passes_scalar [OF space] 2(5) s u by simp
    show ?thesis
    proof (cases "x = 125")
      case True
      then have "v = JsObj []" "r = u" using 2(3) s u object by auto
      then show ?thesis using True s u object space by (auto simp: passes_def scan_within_def suffix_Cons dest: suffix_ConsD)
    next
      case False
      then obtain ps where ps: "parse_members h n (d - 1) (x # u) = Inr (ps, r)" "v = JsObj ps" "distinct (map fst ps)"
        using 2(3) s u object by (auto simp: object_pairs_def split: if_splits)
      have IH: "list_all (\<lambda>(l, j). no_pair l \<and> parsed j) ps \<and> suffix r (x # u)
          \<and> (\<forall>k. 0 < k \<longrightarrow> k \<le> dep \<longrightarrow> scan_within dep k (x # u) r (k - 1) (map snd ps))"
        by (rule 2(2) [OF s _ _ _ _ u(1) False ps(1) 2(4) sc]) (use object u in auto)
      have "scan_within dep k s r k [v]" if k: "0 \<le> k" "k \<le> dep" for k
        unfolding scan_within_def
      proof
        assume "preflight_json_text dep False False k s"
        then have k1: "k + 1 \<le> dep" and "preflight_json_text dep False False (k + 1) (x # u)"
          using s object space u by (auto simp: passes_def)
        then show "(\<forall>j\<in>set [v]. k + int (json_depth j) \<le> dep) \<and> preflight_json_text dep False False k r"
          using IH k depth_int_intro(2) [OF k1, of ps] ps(2) unfolding scan_within_def
            by (auto simp: case_prod_unfold dest!: spec [of _ "k + 1"])
      qed
      then show ?thesis using IH ps(2,3) s u space by (auto simp: passes_def intro: suffix_ConsI suffix_order.trans)
    qed
  qed
next
  case (4 h n d s)
  from 4(3) obtain v t where v0: "parse_value h n d s = Inr (v, t)"
    and rest: "(case skip_space t of
         [] \<Rightarrow> Inl JSyntax
       | x # r' \<Rightarrow>
           if x = 93 then Inr ([v], r')
           else if x = 44 then ebind (parse_items h n d (skip_space r')) (\<lambda>(vs, r''). Inr (v # vs, r''))
           else Inl JSyntax) = Inr (js, r)"
    by auto
  then obtain c u where v: "parse_value h n d s = Inr (v, t)" "skip_space t = c # u" and c: "c = 93 \<or> c = 44"
    by (cases "skip_space t") (auto split: if_splits)
  have IH: "parsed v \<and> suffix t s \<and> (\<forall>k. 0 \<le> k \<longrightarrow> k \<le> dep \<longrightarrow> scan_within dep k s t k [v])"
    by (rule 4(1) [OF v(1) 4(4,5)])
  note space = passes_space [of t]
  have suf: "suffix (c # u) s" "suffix u s"
    using IH space v(2) by (auto simp: passes_def intro: suffix_order.trans suffix_ConsD)
  show ?case
  proof (cases "c = 93")
    case True
    then have "js = [v]" "r = u" using rest v(2) by auto
    then show ?thesis
      using IH suf(2) space v(2) True by (auto simp: passes_def scan_within_def)
  next
    case False
    with c have c: "c = 44" by simp
    then obtain vs where vs: "parse_items h n d (skip_space u) = Inr (vs, r)" "js = v # vs" using rest v(2) by auto
    note space' = passes_space [of u]
    have sc: "scalar_text (skip_space u)" using scalar_suffix [OF suf(2) 4(5)] passes_scalar [OF space'] by simp
    have IH': "list_all parsed vs \<and> suffix r (skip_space u)
        \<and> (\<forall>k. 0 < k \<longrightarrow> k \<le> dep \<longrightarrow> scan_within dep k (skip_space u) r (k - 1) vs)"
      using 4(2) [OF v(2) _ _ vs(1) 4(4) sc] c by simp
    have "suffix r s" using IH' suf(2) space' by (auto simp: passes_def intro: suffix_order.trans)
    moreover have "scan_within dep k s r (k - 1) js" if k: "0 < k" "k \<le> dep" for k
    proof -
      have "scan_within dep k s t k [v]" "scan_within dep k (skip_space u) r (k - 1) vs" using IH IH' k by auto
      then show ?thesis
        using space space' v(2) c vs(2) by (auto simp: passes_def scan_within_def)
    qed
    ultimately show ?thesis using IH IH' vs(2) by simp
  qed
next
  case (6 h n d s)
  from 6(3) obtain l s' v t where l: "scan_key s = Inr (l, s')" and v0: "parse_value h n d s' = Inr (v, t)"
    and rest: "(case skip_space t of
         [] \<Rightarrow> Inl JSyntax
       | x # r' \<Rightarrow>
           if x = 125 then Inr ([(l, v)], r')
           else if x = 44 then ebind (parse_members h n d (skip_space r')) (\<lambda>(qs, r''). Inr ((l, v) # qs, r''))
           else Inl JSyntax) = Inr (ps, r)"
    by auto
  then obtain c u where v: "parse_value h n d s' = Inr (v, t)" "skip_space t = c # u" and c: "c = 125 \<or> c = 44"
    by (cases "skip_space t") (auto split: if_splits)
  have key: "no_pair l \<and> passes s s'" by (rule parsed_key [OF l 6(5)])
  have sc': "scalar_text s'" using key 6(5) passes_scalar by blast
  have IH: "parsed v \<and> suffix t s' \<and> (\<forall>k. 0 \<le> k \<longrightarrow> k \<le> dep \<longrightarrow> scan_within dep k s' t k [v])"
    by (rule 6(1) [OF v(1) 6(4) sc'])
  note space = passes_space [of t]
  have suf: "suffix u s'"
    using IH space v(2) by (auto simp: passes_def intro: suffix_order.trans suffix_ConsD)
  show ?case
  proof (cases "c = 125")
    case True
    then have "ps = [(l, v)]" "r = u" using rest v(2) by auto
    then show ?thesis
      using IH suf key space v(2) True by (auto simp: passes_def scan_within_def intro: suffix_order.trans)
  next
    case False
    with c have c: "c = 44" by simp
    then obtain qs where qs: "parse_members h n d (skip_space u) = Inr (qs, r)" "ps = (l, v) # qs" using rest v(2) by auto
    note space' = passes_space [of u]
    have sc: "scalar_text (skip_space u)" using scalar_suffix [OF suf sc'] passes_scalar [OF space'] by simp
    have IH': "list_all (\<lambda>(l, j). no_pair l \<and> parsed j) qs \<and> suffix r (skip_space u)
        \<and> (\<forall>k. 0 < k \<longrightarrow> k \<le> dep \<longrightarrow> scan_within dep k (skip_space u) r (k - 1) (map snd qs))"
      using 6(2) [OF v(2) _ _ qs(1) 6(4) sc] c by simp
    have "suffix r s" using IH' suf space' key by (auto simp: passes_def intro: suffix_order.trans)
    moreover have "scan_within dep k s r (k - 1) (map snd ps)" if k: "0 < k" "k \<le> dep" for k
    proof -
      have "scan_within dep k s' t k [v]" "scan_within dep k (skip_space u) r (k - 1) (map snd qs)" using IH IH' k by auto
      then show ?thesis
        using space space' key v(2) c qs(2) by (auto simp: passes_def scan_within_def)
    qed
    ultimately show ?thesis using IH IH' key qs(2) by simp
  qed
qed simp_all

text \<open>Normalising a parsed value is a check: it fails on a lone surrogate, and changes nothing otherwise.\<close>

lemma normalize_parsed:
  "normalize_decoded_strings j = Inr j' \<Longrightarrow> parsed j \<Longrightarrow> j' = j \<and> serde_value j \<and> keys_distinct j"
  "normalize_items js = Inr js' \<Longrightarrow> list_all parsed js \<Longrightarrow> js' = js \<and> list_all serde_value js \<and> list_all keys_distinct js"
  "normalize_members keys ps = Inr (ps', us) \<Longrightarrow> list_all (\<lambda>(k, x). no_pair k \<and> parsed x) ps \<Longrightarrow>
     ps' = ps \<and> us = [] \<and> list_all (\<lambda>(k, x). scalar_text k \<and> serde_value x) ps \<and> list_all (\<lambda>(k, x). keys_distinct x) ps"
proof (induction j and js and keys ps arbitrary: j' and js' and ps' us
    rule: normalize_decoded_strings_normalize_items_normalize_members.induct)
  case (1 s)
  then show ?case using normalize_no_pair by auto
next
  case (3 ps)
  then show ?case by fastforce
next
  case (9 x xs)
  then show ?case by fastforce
next
  case (11 keys key item ps)
  then obtain item' key' qs vs where steps: "normalize_decoded_strings item = Inr item'"
    "normalize_unicode_scalar_string key = Inr key'" "normalize_members keys ps = Inr (qs, vs)"
    and res: "ps' = (key, item') # qs" "us = (if key' \<noteq> key then (key, key') # vs else vs)"
    by (auto split: if_splits)
  have "key' = key \<and> scalar_text key" using normalize_no_pair [OF steps(2)] 11(4) by simp
  moreover have "item' = item \<and> serde_value item \<and> keys_distinct item" using 11(1) [OF steps(1)] 11(4) by simp
  moreover have "qs = ps \<and> vs = [] \<and> list_all (\<lambda>(k, x). scalar_text k \<and> serde_value x) ps \<and> list_all (\<lambda>(k, x). keys_distinct x) ps"
    using 11 steps by (auto split: if_splits)
  ultimately show ?case using res by simp
qed auto

lemma json_loads_parsed:
  assumes "json_loads (json_hooks_of limit) s = Inr j" "scalar_text s" "preflight_json_text dep False False 0 s" "0 \<le> dep"
  shows "parsed j \<and> int (json_depth j) \<le> dep"
proof -
  note space = passes_space [of s]
  obtain r where r: "parse_value (json_hooks_of limit) (Suc (2 * length (skip_space s))) limit (skip_space s) = Inr (j, r)"
    using assms(1) by (auto simp: json_loads_def raw_decode_def json_hooks_of_def split: if_splits)
  have "parsed j \<and> (\<forall>k. 0 \<le> k \<longrightarrow> k \<le> dep \<longrightarrow> scan_within dep k (skip_space s) r k [j])"
    using parsed_value(1) [OF r refl passes_scalar [OF space assms(2)]] by blast
  then show ?thesis
    using assms(3,4) space by (auto simp: passes_def scan_within_def dest!: spec [of _ 0])
qed

text \<open>
  C28: every value that \<open>json_deserialize\<close> returns is within the limits of the call: the payload has the expected
  metadata and at most \<open>max_input_size\<close> bytes, the value is nested no deeper than \<open>max_nesting_depth\<close>, which
  a scan of the text has found before the parser ran, its integers have at most 640 digits, its floats are finite, its texts and keys
  have no surrogates, which the last pass checks and never has to replace, and no dictionary had a key twice. So the
  value is one that \<open>json_serialize\<close> writes.
\<close>

theorem json_deserialize_sound:
  assumes "json_deserialize limit payload metadata m d = Inr j"
  shows "\<exists>p md mx dep. payload = Some p \<and> metadata = Some md \<and> m = PyInt mx \<and> d = PyInt dep
    \<and> sp_metadata p = md \<and> int (length (sp_data p)) \<le> mx \<and> int (json_depth j) \<le> dep \<and> dep \<le> 256
    \<and> serde_value j \<and> keys_distinct j"
proof -
  obtain p md mx dep s where config: "payload = Some p" "metadata = Some md" "m = PyInt mx" "d = PyInt dep" "0 \<le> dep" "dep \<le> max_supported_nesting_depth"
    and meta: "validate_actual_metadata (sp_metadata p) md = Inr ()"
    and fits: "int (length (sp_data p)) \<le> mx" and s: "utf8_decode (sp_data p) = Some s"
    and scan: "preflight_json_text dep False False 0 s"
    and loads: "ebind (json_loads (json_hooks_of limit) s) normalize_decoded_strings = Inr j"
    using assms unfolding json_deserialize_def
    by (auto simp: deserialize_configuration split: if_splits option.splits sum.splits)
  have scalar: "scalar_text s"
    using utf8_encode_decode [OF s] by (auto simp: utf8_encode_scalar split: if_splits)
  obtain j0 where j0: "json_loads (json_hooks_of limit) s = Inr j0" "normalize_decoded_strings j0 = Inr j" using loads by auto
  have "sp_metadata p = md" using meta by (auto simp: validate_actual_metadata_def split: if_splits)
  then show ?thesis
    using json_loads_parsed [OF j0(1) scalar scan config(5)] normalize_parsed(1) [OF j0(2)] config fits
    by (auto simp: max_supported_nesting_depth_def)
qed

lemma json_deserialize_sound_witness:
  "serde_value (JsArr [JsNull]) \<and> keys_distinct (JsArr [JsNull]) \<and> json_depth (JsArr [JsNull]) \<le> 10"
proof -
  have read: "utf8_decode (ustr ''[ null]'') = Some (ustr ''[ null]'')"
    using utf8_decode_text [of "ustr ''[ null]''"] by (simp add: ustr_def utf8_bytes_def utf8_char_def surrogate_def str_ok_def)
  have raw: "raw_decode h t = parse_value h (Suc (length t + length t)) (jh_depth h) t" for h t
    by (simp only: raw_decode_def mult_2)
  have "json_loads (json_hooks_of 300) (ustr ''[ null]'') = Inr (JsArr [JsNull])"
    by (simp add: ustr_def json_loads_def raw json_hooks_of_def skip_space_def json_space_def scan_scalar_def scan_word_def
        json_words_def)
  then have "json_deserialize 300 (Some \<lparr>sp_metadata = json_metadata, sp_data = ustr ''[ null]''\<rparr>) (Some json_metadata)
      (PyInt 1000) (PyInt 10) = Inr (JsArr [JsNull])"
    using read by (simp add: json_deserialize_def validate_deserialize_configuration_def max_size_def max_supported_nesting_depth_def
        demo_metadata_ok validate_actual_metadata_def fresh_def ustr_def)
  from json_deserialize_sound [OF this] show ?thesis by auto
qed

end
