(* ===== verification/Jwt_Core.thy ===== *)
theory Jwt_Core
  imports Json
begin

text \<open>
  \<open>bluetape.jwt\<close>: errors (\<open>_errors\<close>), algorithms (\<open>_algorithms\<close>), and claims (\<open>_claims\<close>).

  Arguments of any type are \<open>jobj\<close>; a \<open>datetime\<close> is what the code observes of it: its instant in UTC in
  microseconds, or that it has no offset or cannot be converted. Objects are trees, so that the search for cycles in \<open>_freeze_json\<close> has nothing to find.
\<close>

section \<open>Errors\<close>

datatype jwt_exn =
    JWTConfigurationError
  | JWTKeyError
  | JWTKeyStateError
  | JWTKeyUnavailableError
  | JWTTokenError
  | JWTMalformedTokenError
  | JWTUnsupportedTokenError
  | JWTSignatureError
  | JWTExpiredError
  | JWTNotYetValidError
  | JWTClaimError
  | JWTIssuancePolicyError
  | JWTCacheError
  | CacheMiss
  | OtherException nat
  | OtherBaseException nat

text \<open>\<open>isinstance(e, JWTError)\<close> and \<open>isinstance(e, Exception)\<close>; \<open>CacheMiss\<close> is \<open>KeyError\<close>.\<close>

fun is_jwt_error :: "jwt_exn \<Rightarrow> bool" where
  "is_jwt_error CacheMiss = False"
| "is_jwt_error (OtherException _) = False"
| "is_jwt_error (OtherBaseException _) = False"
| "is_jwt_error _ = True"

fun is_exception :: "jwt_exn \<Rightarrow> bool" where
  "is_exception (OtherBaseException _) = False"
| "is_exception _ = True"

section \<open>Values\<close>

datatype jobj =
    JNone
  | JBool bool
  | JInt int
  | JFloat pyfloat
  | JStr pystr
  | JBytes pybytes
  | JList "jobj list"
  | JTuple "jobj list"
  | JDict "(jobj \<times> jobj) list"
  | JBroken
  | JDatetime int
  | JNaive
  | JBadDatetime
  | JTimedelta int
  | JOther

text \<open>\<open>JDict\<close> is any mapping, with its items; \<open>JBroken\<close> one that raises when it is copied. A frozen value is a \<open>json\<close>.\<close>

text \<open>Sequencing over a list.\<close>

fun emap :: "('a \<Rightarrow> 'e + 'b) \<Rightarrow> 'a list \<Rightarrow> 'e + 'b list" where
  "emap f [] = Inr []"
| "emap f (x # xs) = ebind (f x) (\<lambda>y. ebind (emap f xs) (\<lambda>ys. Inr (y # ys)))"

definition text_ok :: "pystr \<Rightarrow> bool" where
  "text_ok s \<longleftrightarrow> s \<noteq> [] \<and> s = strip s \<and> 0 \<notin> set s"

definition max_json_depth :: nat where
  "max_json_depth = 32"

definition max_json_nodes :: nat where
  "max_json_nodes = 10000"

text \<open>\<open>freeze\<close>, with the count of nodes so far passed along; \<open>err\<close> is the error that \<open>reject\<close> raises.\<close>

fun freeze :: "jwt_exn \<Rightarrow> jobj \<Rightarrow> nat \<Rightarrow> nat \<Rightarrow> jwt_exn + json \<times> nat"
  and freeze_pairs :: "jwt_exn \<Rightarrow> (jobj \<times> jobj) list \<Rightarrow> nat \<Rightarrow> nat \<Rightarrow> jwt_exn + (pystr \<times> json) list \<times> nat"
  and freeze_list :: "jwt_exn \<Rightarrow> jobj list \<Rightarrow> nat \<Rightarrow> nat \<Rightarrow> jwt_exn + json list \<times> nat" where
  "freeze err item depth nodes =
     (let nodes = nodes + 1
      in if nodes > max_json_nodes \<or> depth > max_json_depth then Inl err
         else case item of
             JNone \<Rightarrow> Inr (JsNull, nodes)
           | JBool b \<Rightarrow> Inr (JsBool b, nodes)
           | JInt n \<Rightarrow> Inr (JsInt n, nodes)
           | JStr s \<Rightarrow> Inr (JsStr s, nodes)
           | JFloat f \<Rightarrow> if \<not> isfinite f then Inl err else Inr (JsFloat f, nodes)
           | JDict kvs \<Rightarrow> ebind (freeze_pairs err kvs (depth + 1) nodes) (\<lambda>(ps, n). Inr (JsObj ps, n))
           | JList xs \<Rightarrow> ebind (freeze_list err xs (depth + 1) nodes) (\<lambda>(js, n). Inr (JsArr js, n))
           | JTuple xs \<Rightarrow> ebind (freeze_list err xs (depth + 1) nodes) (\<lambda>(js, n). Inr (JsArr js, n))
           | _ \<Rightarrow> Inl err)"
| "freeze_pairs err [] depth nodes = Inr ([], nodes)"
| "freeze_pairs err ((key, nested) # rest) depth nodes =
     (case key of
        JStr k \<Rightarrow>
          if \<not> text_ok k then Inl err
          else ebind (freeze err nested depth nodes) (\<lambda>(j, n).
               ebind (freeze_pairs err rest depth n) (\<lambda>(ps, n). Inr ((k, j) # ps, n)))
      | _ \<Rightarrow> Inl err)"
| "freeze_list err [] depth nodes = Inr ([], nodes)"
| "freeze_list err (nested # rest) depth nodes =
     ebind (freeze err nested depth nodes) (\<lambda>(j, n).
     ebind (freeze_list err rest depth n) (\<lambda>(js, n). Inr (j # js, n)))"

declare freeze.simps(1) [simp del]

definition freeze_json :: "jwt_exn \<Rightarrow> jobj \<Rightarrow> jwt_exn + json" where
  "freeze_json err value = ebind (freeze err value 0 0) (\<lambda>(j, n). Inr j)"

fun thaw :: "json \<Rightarrow> jobj" where
  "thaw JsNull = JNone"
| "thaw (JsBool b) = JBool b"
| "thaw (JsInt n) = JInt n"
| "thaw (JsFloat f) = JFloat f"
| "thaw (JsStr s) = JStr s"
| "thaw (JsArr js) = JList (map thaw js)"
| "thaw (JsObj ps) = JDict (map (\<lambda>(k, j). (JStr k, thaw j)) ps)"

text \<open>A frozen value as an object: tuples and read-only mappings.\<close>

fun frozen_obj :: "json \<Rightarrow> jobj" where
  "frozen_obj JsNull = JNone"
| "frozen_obj (JsBool b) = JBool b"
| "frozen_obj (JsInt n) = JInt n"
| "frozen_obj (JsFloat f) = JFloat f"
| "frozen_obj (JsStr s) = JStr s"
| "frozen_obj (JsArr js) = JTuple (map frozen_obj js)"
| "frozen_obj (JsObj ps) = JDict (map (\<lambda>(k, j). (JStr k, frozen_obj j)) ps)"

section \<open>Dates\<close>

text \<open>The instants of year 1 to year 9999.\<close>

definition dt_min :: int where
  "dt_min = - 62135596800000000"

definition dt_max :: int where
  "dt_max = 253402300799999999"

text \<open>\<open>datetime.fromtimestamp(value, tz=UTC)\<close>: of a float the fraction is scaled, in floats, and rounded to
  microseconds.\<close>

definition float_us :: "rat \<Rightarrow> int" where
  "float_us x =
     (let whole = (if x \<ge> 0 then \<lfloor>x\<rfloor> else \<lceil>x\<rceil>)
      in whole * 1000000
         + (case round_double ((x - of_int whole) * 1000000) of Finite y \<Rightarrow> round_half_even y | _ \<Rightarrow> 0))"

definition numeric_date_to_datetime :: "jobj \<Rightarrow> jwt_exn + int" where
  "numeric_date_to_datetime value =
     (let in_range = (\<lambda>us. if dt_min \<le> us \<and> us \<le> dt_max then Inr us else Inl JWTMalformedTokenError)
      in case value of
           JInt n \<Rightarrow> in_range (n * 1000000)
         | JFloat (Finite x) \<Rightarrow> in_range (float_us x)
         | _ \<Rightarrow> Inl JWTMalformedTokenError)"

definition normalize_datetime :: "jobj \<Rightarrow> jwt_exn + int" where
  "normalize_datetime value = (case value of JDatetime us \<Rightarrow> Inr us | _ \<Rightarrow> Inl JWTClaimError)"

text \<open>\<open>math.floor(value.timestamp())\<close>; the timestamp is a correctly rounded quotient.\<close>

definition datetime_to_numeric_date :: "int \<Rightarrow> jwt_exn + int" where
  "datetime_to_numeric_date us =
     (case round_double (of_int us / 1000000) of Finite x \<Rightarrow> Inr \<lfloor>x\<rfloor> | _ \<Rightarrow> Inl JWTClaimError)"

section \<open>Algorithms\<close>

datatype algorithm_family = HMAC | RSA

datatype jws_algorithm = HS256 | HS384 | HS512 | RS256 | RS384 | RS512 | PS256 | PS384 | PS512

fun algorithm_name :: "jws_algorithm \<Rightarrow> pystr" where
  "algorithm_name HS256 = ustr ''HS256''"
| "algorithm_name HS384 = ustr ''HS384''"
| "algorithm_name HS512 = ustr ''HS512''"
| "algorithm_name RS256 = ustr ''RS256''"
| "algorithm_name RS384 = ustr ''RS384''"
| "algorithm_name RS512 = ustr ''RS512''"
| "algorithm_name PS256 = ustr ''PS256''"
| "algorithm_name PS384 = ustr ''PS384''"
| "algorithm_name PS512 = ustr ''PS512''"

definition family :: "jws_algorithm \<Rightarrow> algorithm_family" where
  "family a = (if take 2 (algorithm_name a) = ustr ''HS'' then HMAC else RSA)"

text \<open>\<open>int(self.name[2:])\<close> reads the three digits.\<close>

definition minimum_key_bits :: "jws_algorithm \<Rightarrow> nat" where
  "minimum_key_bits a =
     (if family a = HMAC then foldl (\<lambda>n c. 10 * n + (c - 48)) 0 (drop 2 (algorithm_name a)) else 2048)"

section \<open>Claims\<close>

definition registered_claims :: "pystr list" where
  "registered_claims = map ustr [''iss'', ''sub'', ''aud'', ''exp'', ''nbf'', ''iat'', ''jti'']"

definition reserved_headers :: "pystr list" where
  "reserved_headers = map ustr [''alg'', ''kid'', ''typ'', ''crit'', ''jku'', ''jwk'', ''x5u'', ''x5c'', ''x5t'',
     ''x5t#S256'', ''cty'', ''b64'', ''zip'']"

definition validate_string :: "jwt_exn \<Rightarrow> jobj \<Rightarrow> jwt_exn + pystr" where
  "validate_string err value = (case value of JStr s \<Rightarrow> if text_ok s then Inr s else Inl err | _ \<Rightarrow> Inl err)"

definition normalize_audience :: "jwt_exn \<Rightarrow> bool \<Rightarrow> jobj \<Rightarrow> jwt_exn + pystr list" where
  "normalize_audience err allow_empty value =
     ebind (case value of
              JStr s \<Rightarrow> Inr [value]
            | JTuple xs \<Rightarrow> Inr xs
            | JList xs \<Rightarrow> Inr xs
            | _ \<Rightarrow> Inl err)
       (\<lambda>values. if values = [] \<and> \<not> allow_empty then Inl err else emap (validate_string err) values)"

record claim_args =
  ca_issuer :: jobj
  ca_subject :: jobj
  ca_audience :: jobj
  ca_expires_at :: jobj
  ca_not_before :: jobj
  ca_issued_at :: jobj
  ca_jwt_id :: jobj
  ca_custom :: jobj

record token_claims =
  cl_issuer :: "pystr option"
  cl_subject :: "pystr option"
  cl_audience :: "pystr list"
  cl_expires_at :: "int option"
  cl_not_before :: "int option"
  cl_issued_at :: "int option"
  cl_jwt_id :: "pystr option"
  cl_custom :: "(pystr \<times> json) list"

text \<open>An optional field: \<open>None\<close> is kept.\<close>

definition optional_field :: "(jobj \<Rightarrow> jwt_exn + 'a) \<Rightarrow> jobj \<Rightarrow> jwt_exn + 'a option" where
  "optional_field check value = (case value of JNone \<Rightarrow> Inr None | _ \<Rightarrow> ebind (check value) (\<lambda>x. Inr (Some x)))"

text \<open>\<open>custom\<close>: the copy of a mapping, without registered names, frozen.\<close>

definition capture_custom :: "jobj \<Rightarrow> jwt_exn + (pystr \<times> json) list" where
  "capture_custom value =
     (case value of
        JDict kvs \<Rightarrow>
          if list_ex (\<lambda>(k, v). list_ex (\<lambda>c. k = JStr c) registered_claims) kvs then Inl JWTClaimError
          else ebind (freeze_json JWTClaimError (JDict kvs)) (\<lambda>frozen.
               case frozen of JsObj ps \<Rightarrow> Inr ps | _ \<Rightarrow> Inl JWTClaimError)
      | _ \<Rightarrow> Inl JWTClaimError)"

definition token_claims_new :: "claim_args \<Rightarrow> jwt_exn + token_claims" where
  "token_claims_new args =
     ebind (optional_field (validate_string JWTClaimError) (ca_issuer args)) (\<lambda>issuer.
     ebind (optional_field (validate_string JWTClaimError) (ca_subject args)) (\<lambda>subject.
     ebind (optional_field (validate_string JWTClaimError) (ca_jwt_id args)) (\<lambda>jwt_id.
     ebind (normalize_audience JWTClaimError True (ca_audience args)) (\<lambda>audience.
     ebind (optional_field normalize_datetime (ca_expires_at args)) (\<lambda>expires_at.
     ebind (optional_field normalize_datetime (ca_not_before args)) (\<lambda>not_before.
     ebind (optional_field normalize_datetime (ca_issued_at args)) (\<lambda>issued_at.
     ebind (capture_custom (ca_custom args)) (\<lambda>custom.
       Inr \<lparr>cl_issuer = issuer, cl_subject = subject, cl_audience = audience, cl_expires_at = expires_at,
            cl_not_before = not_before, cl_issued_at = issued_at, cl_jwt_id = jwt_id, cl_custom = custom\<rparr>))))))))"

definition freeze_headers :: "jobj \<Rightarrow> jwt_exn + (pystr \<times> pystr) list" where
  "freeze_headers headers =
     (case headers of
        JDict kvs \<Rightarrow>
          emap (\<lambda>(name, value).
            ebind (validate_string JWTClaimError name) (\<lambda>n.
              if n \<in> set reserved_headers then Inl JWTClaimError
              else ebind (validate_string JWTClaimError value) (\<lambda>v. Inr (n, v)))) kvs
      | _ \<Rightarrow> Inl JWTClaimError)"

record verified_token =
  vt_kid :: pystr
  vt_algorithm :: jws_algorithm
  vt_token_type :: pystr
  vt_issuer :: pystr
  vt_subject :: "pystr option"
  vt_audience :: "pystr list"
  vt_expires_at :: "int option"
  vt_not_before :: "int option"
  vt_issued_at :: "int option"
  vt_jwt_id :: "pystr option"
  vt_custom :: "(pystr \<times> json) list"
  vt_headers :: "(pystr \<times> pystr) list"

definition verified_token_new ::
  "jobj \<Rightarrow> jws_algorithm option \<Rightarrow> jobj \<Rightarrow> claim_args \<Rightarrow> jobj \<Rightarrow> jwt_exn + verified_token" where
  "verified_token_new kid algorithm token_type args headers =
     ebind (validate_string JWTClaimError kid) (\<lambda>kid.
     case algorithm of
       None \<Rightarrow> Inl JWTClaimError
     | Some algorithm \<Rightarrow>
         ebind (validate_string JWTClaimError token_type) (\<lambda>token_type.
         ebind (validate_string JWTClaimError (ca_issuer args)) (\<lambda>issuer.
         ebind (optional_field (validate_string JWTClaimError) (ca_subject args)) (\<lambda>subject.
         ebind (normalize_audience JWTClaimError False (ca_audience args)) (\<lambda>audience.
         ebind (optional_field normalize_datetime (ca_expires_at args)) (\<lambda>expires_at.
         ebind (optional_field normalize_datetime (ca_not_before args)) (\<lambda>not_before.
         ebind (optional_field normalize_datetime (ca_issued_at args)) (\<lambda>issued_at.
         ebind (optional_field (validate_string JWTClaimError) (ca_jwt_id args)) (\<lambda>jwt_id.
         ebind (capture_custom (ca_custom args)) (\<lambda>custom.
         ebind (freeze_headers headers) (\<lambda>headers.
           Inr \<lparr>vt_kid = kid, vt_algorithm = algorithm, vt_token_type = token_type, vt_issuer = issuer,
                vt_subject = subject, vt_audience = audience, vt_expires_at = expires_at, vt_not_before = not_before,
                vt_issued_at = issued_at, vt_jwt_id = jwt_id, vt_custom = custom, vt_headers = headers\<rparr>)))))))))))"

section \<open>Payloads\<close>

type_synonym payload = "(pystr \<times> jobj) list"

definition present :: "('a \<Rightarrow> jwt_exn + 'b) \<Rightarrow> 'a option \<Rightarrow> jwt_exn + 'b option" where
  "present check value = (case value of None \<Rightarrow> Inr None | Some v \<Rightarrow> ebind (check v) (\<lambda>x. Inr (Some x)))"

definition payload_field :: "string \<Rightarrow> jobj option \<Rightarrow> payload" where
  "payload_field name value = (case value of None \<Rightarrow> [] | Some v \<Rightarrow> [(ustr name, v)])"

definition claims_to_payload :: "token_claims \<Rightarrow> jwt_exn + payload" where
  "claims_to_payload claims =
     ebind (present datetime_to_numeric_date (cl_expires_at claims)) (\<lambda>expires.
     ebind (present datetime_to_numeric_date (cl_not_before claims)) (\<lambda>not_before.
     ebind (present datetime_to_numeric_date (cl_issued_at claims)) (\<lambda>issued.
       Inr (map (\<lambda>(k, v). (k, thaw v)) (cl_custom claims)
            @ payload_field ''iss'' (map_option JStr (cl_issuer claims))
            @ payload_field ''sub'' (map_option JStr (cl_subject claims))
            @ payload_field ''aud'' (if cl_audience claims = [] then None else Some (JList (map JStr (cl_audience claims))))
            @ payload_field ''exp'' (map_option JInt expires)
            @ payload_field ''nbf'' (map_option JInt not_before)
            @ payload_field ''iat'' (map_option JInt issued)
            @ payload_field ''jti'' (map_option JStr (cl_jwt_id claims))))))"

definition opt_obj :: "('a \<Rightarrow> jobj) \<Rightarrow> 'a option \<Rightarrow> jobj" where
  "opt_obj f v = (case v of None \<Rightarrow> JNone | Some x \<Rightarrow> f x)"

text \<open>The names of an inbound payload.\<close>

definition payload_entry :: "jobj \<times> jobj \<Rightarrow> jwt_exn + pystr \<times> jobj" where
  "payload_entry item =
     (case item of (JStr k, v) \<Rightarrow> if text_ok k then Inr (k, v) else Inl JWTMalformedTokenError
                  | _ \<Rightarrow> Inl JWTMalformedTokenError)"

definition claims_from_payload :: "jobj \<Rightarrow> jwt_exn + token_claims" where
  "claims_from_payload payload =
     (case payload of
        JDict kvs \<Rightarrow>
          ebind (emap payload_entry kvs) (\<lambda>copied.
          let field = (\<lambda>name. map_of copied (ustr name)); string = validate_string JWTMalformedTokenError
          in ebind (case field ''aud'' of
                      None \<Rightarrow> Inr []
                    | Some v \<Rightarrow> normalize_audience JWTMalformedTokenError False v) (\<lambda>audience.
             ebind (present numeric_date_to_datetime (field ''exp'')) (\<lambda>expires_at.
             ebind (present numeric_date_to_datetime (field ''nbf'')) (\<lambda>not_before.
             ebind (present numeric_date_to_datetime (field ''iat'')) (\<lambda>issued_at.
             ebind (freeze_json JWTMalformedTokenError
                      (JDict (map (\<lambda>(k, v). (JStr k, v)) (filter (\<lambda>(k, v). k \<notin> set registered_claims) copied)))) (\<lambda>custom.
             ebind (ebind (present string (field ''iss'')) (\<lambda>issuer.
                    ebind (present string (field ''sub'')) (\<lambda>subject.
                    ebind (present string (field ''jti'')) (\<lambda>jwt_id.
                      Inr \<lparr>ca_issuer = opt_obj JStr issuer, ca_subject = opt_obj JStr subject,
                           ca_audience = JTuple (map JStr audience), ca_expires_at = opt_obj JDatetime expires_at,
                           ca_not_before = opt_obj JDatetime not_before, ca_issued_at = opt_obj JDatetime issued_at,
                           ca_jwt_id = opt_obj JStr jwt_id, ca_custom = frozen_obj custom\<rparr>)))) (\<lambda>args.
               case token_claims_new args of
                 Inl JWTClaimError \<Rightarrow> Inl JWTMalformedTokenError
               | r \<Rightarrow> r)))))))
      | _ \<Rightarrow> Inl JWTMalformedTokenError)"

definition to_verified_token ::
  "token_claims \<Rightarrow> pystr \<Rightarrow> jws_algorithm \<Rightarrow> pystr \<Rightarrow> (pystr \<times> pystr) list \<Rightarrow> jwt_exn + verified_token" where
  "to_verified_token claims kid algorithm token_type headers =
     (case cl_issuer claims of
        None \<Rightarrow> Inl JWTClaimError
      | Some issuer \<Rightarrow>
          if cl_audience claims = [] then Inl JWTClaimError
          else verified_token_new (JStr kid) (Some algorithm) (JStr token_type)
            \<lparr>ca_issuer = JStr issuer, ca_subject = opt_obj JStr (cl_subject claims),
             ca_audience = JTuple (map JStr (cl_audience claims)), ca_expires_at = opt_obj JDatetime (cl_expires_at claims),
             ca_not_before = opt_obj JDatetime (cl_not_before claims), ca_issued_at = opt_obj JDatetime (cl_issued_at claims),
             ca_jwt_id = opt_obj JStr (cl_jwt_id claims), ca_custom = frozen_obj (JsObj (cl_custom claims))\<rparr>
            (JDict (map (\<lambda>(k, v). (JStr k, JStr v)) headers)))"

section \<open>Freezing\<close>

text \<open>The nodes of a frozen value, the levels below its root, and what every frozen value satisfies.\<close>

fun json_nodes :: "json \<Rightarrow> nat" where
  "json_nodes (JsArr js) = Suc (sum_list (map json_nodes js))"
| "json_nodes (JsObj ps) = Suc (sum_list (map (\<lambda>(k, j). json_nodes j) ps))"
| "json_nodes _ = 1"

fun json_height :: "json \<Rightarrow> nat" where
  "json_height (JsArr js) = foldr max (map (\<lambda>j. Suc (json_height j)) js) 0"
| "json_height (JsObj ps) = foldr max (map (\<lambda>(k, j). Suc (json_height j)) ps) 0"
| "json_height _ = 0"

fun json_ok :: "json \<Rightarrow> bool" where
  "json_ok (JsArr js) \<longleftrightarrow> (\<forall>j\<in>set js. json_ok j)"
| "json_ok (JsObj ps) \<longleftrightarrow> (\<forall>(k, j)\<in>set ps. text_ok k \<and> json_ok j)"
| "json_ok (JsFloat f) \<longleftrightarrow> isfinite f"
| "json_ok _ \<longleftrightarrow> True"

lemma foldr_max_le: "foldr max xs m \<le> (n :: nat) \<longleftrightarrow> m \<le> n \<and> (\<forall>x\<in>set xs. x \<le> n)"
  by (induction xs) auto

lemma height_le:
  assumes "d \<le> k"
  shows "d + json_height (JsArr js) \<le> k \<longleftrightarrow> (\<forall>j\<in>set js. Suc d + json_height j \<le> k)"
    "d + json_height (JsObj ps) \<le> k \<longleftrightarrow> (\<forall>(l, j)\<in>set ps. Suc d + json_height j \<le> k)"
proof -
  have "d + x \<le> k \<longleftrightarrow> x \<le> k - d" for x using assms by auto
  then show "d + json_height (JsArr js) \<le> k \<longleftrightarrow> (\<forall>j\<in>set js. Suc d + json_height j \<le> k)"
    "d + json_height (JsObj ps) \<le> k \<longleftrightarrow> (\<forall>(l, j)\<in>set ps. Suc d + json_height j \<le> k)"
    using assms by (auto simp: foldr_max_le)
qed

declare json_height.simps(1,2) [simp del]

text \<open>What comes out of \<open>freeze\<close> is well formed and within the limits.\<close>

lemma freeze_sound:
  "freeze err x d n = Inr (j, m) \<Longrightarrow> json_ok j \<and> m = n + json_nodes j \<and> m \<le> max_json_nodes \<and> d + json_height j \<le> max_json_depth"
  "freeze_pairs err kvs d n = Inr (ps, m) \<Longrightarrow> n \<le> max_json_nodes \<Longrightarrow>
     json_ok (JsObj ps) \<and> m = n + sum_list (map (\<lambda>(k, j). json_nodes j) ps) \<and> m \<le> max_json_nodes
     \<and> (\<forall>(k, j)\<in>set ps. d + json_height j \<le> max_json_depth)"
  "freeze_list err xs d n = Inr (js, m) \<Longrightarrow> n \<le> max_json_nodes \<Longrightarrow>
     json_ok (JsArr js) \<and> m = n + sum_list (map json_nodes js) \<and> m \<le> max_json_nodes
     \<and> (\<forall>j\<in>set js. d + json_height j \<le> max_json_depth)"
proof (induction err x d n and err kvs d n and err xs d n arbitrary: j m and ps m and js m rule: freeze_freeze_pairs_freeze_list.induct)
  case (1 err item depth nodes)
  then have lim: "\<not> (nodes + 1 > max_json_nodes \<or> depth > max_json_depth)" "depth \<le> max_json_depth"
    by (auto simp: freeze.simps(1) Let_def split: if_splits)
  show ?case
    using 1(4) lim
  proof (cases item)
    case (JList xs)
    then obtain js where js: "freeze_list err xs (depth + 1) (nodes + 1) = Inr (js, m)" "j = JsArr js"
      using 1(4) lim by (auto simp: freeze.simps(1) Let_def ebind_def split: sum.splits)
    from 1(1) [OF refl lim(1) JList js(1)] lim(1) show ?thesis by (simp add: js(2) height_le(1) [OF lim(2)])
  next
    case (JTuple xs)
    then obtain js where js: "freeze_list err xs (depth + 1) (nodes + 1) = Inr (js, m)" "j = JsArr js"
      using 1(4) lim by (auto simp: freeze.simps(1) Let_def ebind_def split: sum.splits)
    from 1(2) [OF refl lim(1) JTuple js(1)] lim(1) show ?thesis by (simp add: js(2) height_le(1) [OF lim(2)])
  next
    case (JDict kvs)
    then obtain ps where ps: "freeze_pairs err kvs (depth + 1) (nodes + 1) = Inr (ps, m)" "j = JsObj ps"
      using 1(4) lim by (auto simp: freeze.simps(1) Let_def ebind_def split: sum.splits)
    from 1(3) [OF refl lim(1) JDict ps(1)] lim(1) show ?thesis by (simp add: ps(2) height_le(2) [OF lim(2)])
  qed (auto simp: freeze.simps(1) Let_def split: if_splits)
next
  case (3 err key nested rest depth nodes)
  then obtain k j n qs where key: "key = JStr k" "text_ok k" and j: "freeze err nested depth nodes = Inr (j, n)"
    and qs: "freeze_pairs err rest depth n = Inr (qs, m)" "ps = (k, j) # qs"
    by (auto simp: ebind_def split: jobj.splits if_splits sum.splits)
  show ?case using 3(1) [OF key(1) _ j] 3(2) [OF key(1) _ qs(1)] key(2) by (auto simp: qs(2))
next
  case (5 err nested rest depth nodes)
  then obtain j n ks where j: "freeze err nested depth nodes = Inr (j, n)"
    and ks: "freeze_list err rest depth n = Inr (ks, m)" "js = j # ks"
    by (auto simp: ebind_def split: sum.splits)
  show ?case using 5(1) [OF j] 5(2) [OF ks(1)] by (auto simp: ks(2))
qed auto

text \<open>A well-formed value within the limits is frozen as it is, whether it is read from JSON or frozen already.\<close>

lemma freeze_pairs_complete:
  assumes "\<And>k j d n. (k, j) \<in> set ps \<Longrightarrow> n + json_nodes j \<le> max_json_nodes \<Longrightarrow> d + json_height j \<le> max_json_depth \<Longrightarrow>
      freeze err (f j) d n = Inr (j, n + json_nodes j)"
    and "\<forall>(k, j)\<in>set ps. text_ok k \<and> d + json_height j \<le> max_json_depth"
    and "n + sum_list (map (\<lambda>(k, j). json_nodes j) ps) \<le> max_json_nodes"
  shows "freeze_pairs err (map (\<lambda>(k, j). (JStr k, f j)) ps) d n = Inr (ps, n + sum_list (map (\<lambda>(k, j). json_nodes j) ps))"
  using assms
proof (induction ps arbitrary: n)
  case (Cons p ps)
  obtain k j where p: "p = (k, j)" by fastforce
  have "freeze err (f j) d n = Inr (j, n + json_nodes j)" using Cons.prems p by (intro Cons.prems(1)) auto
  moreover have "freeze_pairs err (map (\<lambda>(k, j). (JStr k, f j)) ps) d (n + json_nodes j)
      = Inr (ps, n + json_nodes j + sum_list (map (\<lambda>(k, j). json_nodes j) ps))"
    using Cons.prems p by (intro Cons.IH) auto
  ultimately show ?case using Cons.prems(2) by (simp add: p ebind_def)
qed simp

lemma freeze_list_complete:
  assumes "\<And>j d n. j \<in> set js \<Longrightarrow> n + json_nodes j \<le> max_json_nodes \<Longrightarrow> d + json_height j \<le> max_json_depth \<Longrightarrow>
      freeze err (f j) d n = Inr (j, n + json_nodes j)"
    and "\<forall>j\<in>set js. d + json_height j \<le> max_json_depth" "n + sum_list (map json_nodes js) \<le> max_json_nodes"
  shows "freeze_list err (map f js) d n = Inr (js, n + sum_list (map json_nodes js))"
  using assms
proof (induction js arbitrary: n)
  case (Cons j js)
  have "freeze err (f j) d n = Inr (j, n + json_nodes j)" using Cons.prems by (intro Cons.prems(1)) auto
  moreover have "freeze_list err (map f js) d (n + json_nodes j) = Inr (js, n + json_nodes j + sum_list (map json_nodes js))"
    using Cons.prems by (intro Cons.IH) auto
  ultimately show ?case by (simp add: ebind_def)
qed simp

lemma freeze_complete:
  assumes "json_ok j" "n + json_nodes j \<le> max_json_nodes" "d + json_height j \<le> max_json_depth" "f = thaw \<or> f = frozen_obj"
  shows "freeze err (f j) d n = Inr (j, n + json_nodes j)"
  using assms(1-3)
proof (induction j arbitrary: d n rule: json_ok.induct)
  case (1 js)
  have d: "d \<le> max_json_depth" using 1(4) by simp
  have "freeze_list err (map f js) (Suc d) (Suc n) = Inr (js, Suc n + sum_list (map json_nodes js))"
    using 1 d by (intro freeze_list_complete) (auto simp: height_le(1))
  then show ?case using assms(4) 1(3) d by (auto simp: freeze.simps(1) ebind_def)
next
  case (2 ps)
  have d: "d \<le> max_json_depth" using 2(4) by simp
  have "freeze_pairs err (map (\<lambda>(k, j). (JStr k, f j)) ps) (Suc d) (Suc n)
      = Inr (ps, Suc n + sum_list (map (\<lambda>(k, j). json_nodes j) ps))"
    using 2 d by (intro freeze_pairs_complete) (auto simp: height_le(2))
  then show ?case using assms(4) 2(3) d by (auto simp: freeze.simps(1) ebind_def)
qed (use assms(4) in \<open>auto simp: freeze.simps(1)\<close>)

lemma freeze_json_thaw:
  assumes "json_ok j" "json_nodes j \<le> max_json_nodes" "json_height j \<le> max_json_depth"
  shows "freeze_json err (thaw j) = Inr j" "freeze_json err (frozen_obj j) = Inr j"
  using freeze_complete [of j 0 0 thaw err] freeze_complete [of j 0 0 frozen_obj err] assms
  by (simp_all add: freeze_json_def ebind_def)

lemma freeze_json_ok:
  "freeze_json err x = Inr j \<Longrightarrow> json_ok j \<and> json_nodes j \<le> max_json_nodes \<and> json_height j \<le> max_json_depth"
  using freeze_sound(1) [of err x 0 0 j] by (fastforce simp: freeze_json_def ebind_def split: sum.splits)

section \<open>Claims and payloads\<close>

text \<open>What every \<open>TokenClaims\<close> satisfies, with what Python guarantees of a \<open>datetime\<close>.\<close>

definition dates_of :: "token_claims \<Rightarrow> int list" where
  "dates_of c = concat (map (\<lambda>d. case d of None \<Rightarrow> [] | Some us \<Rightarrow> [us]) [cl_expires_at c, cl_not_before c, cl_issued_at c])"

definition texts_of :: "token_claims \<Rightarrow> pystr list" where
  "texts_of c = concat (map (\<lambda>d. case d of None \<Rightarrow> [] | Some s \<Rightarrow> [s]) [cl_issuer c, cl_subject c, cl_jwt_id c]) @ cl_audience c"

definition claims_ok :: "token_claims \<Rightarrow> bool" where
  "claims_ok c \<longleftrightarrow>
     list_all text_ok (texts_of c) \<and> list_all (\<lambda>us. dt_min \<le> us \<and> us \<le> dt_max) (dates_of c)
     \<and> json_ok (JsObj (cl_custom c)) \<and> json_nodes (JsObj (cl_custom c)) \<le> max_json_nodes
     \<and> json_height (JsObj (cl_custom c)) \<le> max_json_depth \<and> list_all (\<lambda>(k, v). k \<notin> set registered_claims) (cl_custom c)"

text \<open>Arguments with dates that exist.\<close>

definition date_args_ok :: "claim_args \<Rightarrow> bool" where
  "date_args_ok args \<longleftrightarrow>
     list_all (\<lambda>v. case v of JDatetime us \<Rightarrow> dt_min \<le> us \<and> us \<le> dt_max | _ \<Rightarrow> True)
       [ca_expires_at args, ca_not_before args, ca_issued_at args]"

lemma ebind_Inr: "ebind m f = Inr y \<longleftrightarrow> (\<exists>x. m = Inr x \<and> f x = Inr y)"
  by (auto simp: ebind_def split: sum.splits)

lemma emap_Inr_ok: "emap f xs = Inr ys \<Longrightarrow> (\<And>x y. f x = Inr y \<Longrightarrow> P y) \<Longrightarrow> list_all P ys"
  by (induction xs arbitrary: ys) (auto simp: ebind_Inr)

lemma emap_length: "emap f xs = Inr ys \<Longrightarrow> length ys = length xs"
  by (induction xs arbitrary: ys) (auto simp: ebind_Inr)

lemma validate_string_ok: "validate_string e v = Inr s \<longleftrightarrow> v = JStr s \<and> text_ok s"
  by (auto simp: validate_string_def split: jobj.splits)

lemma optional_string_ok: "optional_field (validate_string e) v = Inr r \<Longrightarrow> (case r of None \<Rightarrow> v = JNone | Some s \<Rightarrow> v = JStr s \<and> text_ok s)"
  by (cases v) (auto simp: optional_field_def ebind_Inr validate_string_ok)

lemma optional_date_ok: "optional_field normalize_datetime v = Inr r \<Longrightarrow> (case r of None \<Rightarrow> v = JNone | Some us \<Rightarrow> v = JDatetime us)"
  by (cases v) (auto simp: optional_field_def ebind_Inr normalize_datetime_def)

lemma normalize_audience_ok: "normalize_audience e b v = Inr a \<Longrightarrow> list_all text_ok a \<and> (a = [] \<longrightarrow> b)"
  by (cases v) (auto simp: normalize_audience_def ebind_Inr validate_string_ok split: if_splits elim!: emap_Inr_ok dest: emap_length)

lemma freeze_pairs_names: "freeze_pairs err kvs d n = Inr (ps, m) \<Longrightarrow> map fst kvs = map (JStr \<circ> fst) ps"
proof (induction kvs arbitrary: n ps)
  case (Cons kv kvs)
  then show ?case by (cases kv) (auto simp: ebind_Inr split: jobj.splits if_splits)
qed simp

lemma capture_custom_ok:
  assumes "capture_custom v = Inr ps"
  shows "json_ok (JsObj ps) \<and> json_nodes (JsObj ps) \<le> max_json_nodes \<and> json_height (JsObj ps) \<le> max_json_depth
     \<and> list_all (\<lambda>(k, v). k \<notin> set registered_claims) ps"
proof -
  from assms obtain kvs j where v: "v = JDict kvs" "\<not> list_ex (\<lambda>(k, v). list_ex (\<lambda>c. k = JStr c) registered_claims) kvs"
    and j: "freeze_json JWTClaimError (JDict kvs) = Inr j" "(case j of JsObj ps \<Rightarrow> Inr ps | _ \<Rightarrow> Inl JWTClaimError) = Inr ps"
    by (cases v) (auto simp: capture_custom_def ebind_Inr split: if_splits)
  then have f: "freeze_json JWTClaimError (JDict kvs) = Inr (JsObj ps)" by (cases j) simp_all
  have names: "map fst kvs = map (JStr \<circ> fst) ps"
    using f by (auto simp: freeze_json_def ebind_Inr freeze.simps(1) Let_def dest: freeze_pairs_names split: if_splits)
  have "k \<notin> set registered_claims" if "(k, j) \<in> set ps" for k j
  proof
    have "JStr k \<in> set (map (JStr \<circ> fst) ps)" using that by force
    then obtain w where "(JStr k, w) \<in> set kvs" unfolding names [symmetric] by auto
    moreover assume "k \<in> set registered_claims"
    ultimately show False using v(2) unfolding list_ex_iff by blast
  qed
  then show ?thesis using freeze_json_ok [OF f] by (auto simp: list_all_iff)
qed

lemma token_claims_newE:
  assumes "token_claims_new args = Inr c"
  shows "optional_field (validate_string JWTClaimError) (ca_issuer args) = Inr (cl_issuer c)"
    "optional_field (validate_string JWTClaimError) (ca_subject args) = Inr (cl_subject c)"
    "optional_field (validate_string JWTClaimError) (ca_jwt_id args) = Inr (cl_jwt_id c)"
    "normalize_audience JWTClaimError True (ca_audience args) = Inr (cl_audience c)"
    "optional_field normalize_datetime (ca_expires_at args) = Inr (cl_expires_at c)"
    "optional_field normalize_datetime (ca_not_before args) = Inr (cl_not_before c)"
    "optional_field normalize_datetime (ca_issued_at args) = Inr (cl_issued_at c)"
    "capture_custom (ca_custom args) = Inr (cl_custom c)"
  using assms by (auto simp: token_claims_new_def ebind_Inr)

lemma token_claims_ok:
  assumes "token_claims_new args = Inr c" "date_args_ok args"
  shows "claims_ok c"
proof -
  note c = token_claims_newE [OF assms(1)]
  have "list_all text_ok (texts_of c)"
    using c(1-3) [THEN optional_string_ok] normalize_audience_ok [OF c(4)] by (simp add: texts_of_def split: option.splits)
  moreover have "list_all (\<lambda>us. dt_min \<le> us \<and> us \<le> dt_max) (dates_of c)"
    using c(5-7) [THEN optional_date_ok] assms(2) by (simp add: dates_of_def date_args_ok_def split: option.splits)
  ultimately show ?thesis using capture_custom_ok [OF c(8)] by (simp add: claims_ok_def)
qed

text \<open>Whole seconds survive the way through a NumericDate.\<close>

lemma numeric_date_whole:
  assumes "dt_min \<le> us" "us \<le> dt_max" "1000000 dvd us"
  shows "datetime_to_numeric_date us = Inr (us div 1000000)" "numeric_date_to_datetime (JInt (us div 1000000)) = Inr us"
proof -
  obtain k where k: "us = 1000000 * k" using assms(3) by blast
  have "\<bar>k\<bar> < 2 ^ 53" using assms(1,2) by (simp add: k dt_min_def dt_max_def)
  then have "round_double (of_int us / 1000000) = Finite (of_int k)" using round_double_of_int [of k] by (simp add: k)
  then show "datetime_to_numeric_date us = Inr (us div 1000000)" by (simp add: datetime_to_numeric_date_def k)
  show "numeric_date_to_datetime (JInt (us div 1000000)) = Inr us"
    using assms by (simp add: numeric_date_to_datetime_def Let_def)
qed

lemma registered_ok: "list_all text_ok registered_claims"
  by (simp add: registered_claims_def text_ok_def strip_def is_space_def ustr_def)

lemma entry_names: "list_all (\<lambda>(k, v). k = ustr name) (payload_field name v)"
  by (cases v) (simp_all add: payload_field_def)

lemma map_of_entry:
  "map_of (payload_field name v @ rest) k = (if k = ustr name \<and> v \<noteq> None then v else map_of rest k)"
  "map_of (payload_field name v) k = (if k = ustr name then v else None)"
  by (cases v; simp add: payload_field_def)+

lemma map_of_custom:
  "list_all (\<lambda>(k, v). k \<notin> set registered_claims) ps \<Longrightarrow> k \<in> set registered_claims \<Longrightarrow>
   map_of (map (\<lambda>(k, v). (k, f v)) ps @ rest) k = map_of rest k"
  by (induction ps) auto

lemma filter_entry: "ustr name \<in> set registered_claims \<Longrightarrow> filter (\<lambda>(k, v). k \<notin> set registered_claims) (payload_field name v) = []"
  by (cases v) (simp_all add: payload_field_def)

lemma filter_custom:
  "list_all (\<lambda>(k, v). k \<notin> set registered_claims) ps \<Longrightarrow>
   filter (\<lambda>(k, v). k \<notin> set registered_claims) (map (\<lambda>(k, v). (k, f v)) ps) = map (\<lambda>(k, v). (k, f v)) ps"
  by (induction ps) auto

lemma payload_entries: "list_all (\<lambda>(k, v). text_ok k) p \<Longrightarrow> emap payload_entry (map (\<lambda>(k, v). (JStr k, v)) p) = Inr p"
  by (induction p) (auto simp: payload_entry_def ebind_def)

lemma emap_strings: "list_all text_ok xs \<Longrightarrow> emap (validate_string e) (map JStr xs) = Inr xs"
  by (induction xs) (simp_all add: validate_string_def ebind_def)

lemma registered_names:
  "ustr ''iss'' \<in> set registered_claims" "ustr ''sub'' \<in> set registered_claims" "ustr ''aud'' \<in> set registered_claims"
  "ustr ''exp'' \<in> set registered_claims" "ustr ''nbf'' \<in> set registered_claims" "ustr ''iat'' \<in> set registered_claims"
  "ustr ''jti'' \<in> set registered_claims"
  by (simp_all add: registered_claims_def)

lemma claim_names_differ:
  "ustr ''iss'' \<noteq> ustr ''sub''" "ustr ''iss'' \<noteq> ustr ''aud''" "ustr ''iss'' \<noteq> ustr ''exp''"
  "ustr ''iss'' \<noteq> ustr ''nbf''" "ustr ''iss'' \<noteq> ustr ''iat''" "ustr ''iss'' \<noteq> ustr ''jti''"
  "ustr ''sub'' \<noteq> ustr ''iss''" "ustr ''sub'' \<noteq> ustr ''aud''" "ustr ''sub'' \<noteq> ustr ''exp''"
  "ustr ''sub'' \<noteq> ustr ''nbf''" "ustr ''sub'' \<noteq> ustr ''iat''" "ustr ''sub'' \<noteq> ustr ''jti''"
  "ustr ''aud'' \<noteq> ustr ''iss''" "ustr ''aud'' \<noteq> ustr ''sub''" "ustr ''aud'' \<noteq> ustr ''exp''"
  "ustr ''aud'' \<noteq> ustr ''nbf''" "ustr ''aud'' \<noteq> ustr ''iat''" "ustr ''aud'' \<noteq> ustr ''jti''"
  "ustr ''exp'' \<noteq> ustr ''iss''" "ustr ''exp'' \<noteq> ustr ''sub''" "ustr ''exp'' \<noteq> ustr ''aud''"
  "ustr ''exp'' \<noteq> ustr ''nbf''" "ustr ''exp'' \<noteq> ustr ''iat''" "ustr ''exp'' \<noteq> ustr ''jti''"
  "ustr ''nbf'' \<noteq> ustr ''iss''" "ustr ''nbf'' \<noteq> ustr ''sub''" "ustr ''nbf'' \<noteq> ustr ''aud''"
  "ustr ''nbf'' \<noteq> ustr ''exp''" "ustr ''nbf'' \<noteq> ustr ''iat''" "ustr ''nbf'' \<noteq> ustr ''jti''"
  "ustr ''iat'' \<noteq> ustr ''iss''" "ustr ''iat'' \<noteq> ustr ''sub''" "ustr ''iat'' \<noteq> ustr ''aud''"
  "ustr ''iat'' \<noteq> ustr ''exp''" "ustr ''iat'' \<noteq> ustr ''nbf''" "ustr ''iat'' \<noteq> ustr ''jti''"
  "ustr ''jti'' \<noteq> ustr ''iss''" "ustr ''jti'' \<noteq> ustr ''sub''" "ustr ''jti'' \<noteq> ustr ''aud''"
  "ustr ''jti'' \<noteq> ustr ''exp''" "ustr ''jti'' \<noteq> ustr ''nbf''" "ustr ''jti'' \<noteq> ustr ''iat''"
  by (simp_all add: ustr_def)

text \<open>The typed fields of a claims value, read back as arguments.\<close>

lemma token_claims_again:
  assumes "claims_ok c"
  shows "token_claims_new \<lparr>ca_issuer = opt_obj JStr (cl_issuer c), ca_subject = opt_obj JStr (cl_subject c),
      ca_audience = JTuple (map JStr (cl_audience c)), ca_expires_at = opt_obj JDatetime (cl_expires_at c),
      ca_not_before = opt_obj JDatetime (cl_not_before c), ca_issued_at = opt_obj JDatetime (cl_issued_at c),
      ca_jwt_id = opt_obj JStr (cl_jwt_id c), ca_custom = frozen_obj (JsObj (cl_custom c))\<rparr> = Inr c"
proof -
  have str: "optional_field (validate_string e) (opt_obj JStr v) = Inr v" if "case v of None \<Rightarrow> True | Some s \<Rightarrow> text_ok s" for e v
    using that by (cases v) (simp_all add: optional_field_def opt_obj_def validate_string_def ebind_def)
  have date: "optional_field normalize_datetime (opt_obj JDatetime v) = Inr v" for v
    by (cases v) (simp_all add: optional_field_def opt_obj_def normalize_datetime_def ebind_def)
  have texts: "case cl_issuer c of None \<Rightarrow> True | Some s \<Rightarrow> text_ok s" "case cl_subject c of None \<Rightarrow> True | Some s \<Rightarrow> text_ok s"
    "case cl_jwt_id c of None \<Rightarrow> True | Some s \<Rightarrow> text_ok s" "list_all text_ok (cl_audience c)"
    using assms by (auto simp: claims_ok_def texts_of_def split: option.splits)
  have aud: "normalize_audience e True (JTuple (map JStr (cl_audience c))) = Inr (cl_audience c)" for e
    using emap_strings [OF texts(4)] by (simp add: normalize_audience_def ebind_def)
  have ok: "json_ok (JsObj (cl_custom c))" "json_nodes (JsObj (cl_custom c)) \<le> max_json_nodes"
    "json_height (JsObj (cl_custom c)) \<le> max_json_depth"
    and names: "list_all (\<lambda>(k, v). k \<notin> set registered_claims) (cl_custom c)" using assms by (simp_all add: claims_ok_def)
  have "\<not> list_ex (\<lambda>(k, v). list_ex (\<lambda>r. k = JStr r) registered_claims) (map (\<lambda>(k, j). (JStr k, frozen_obj j)) (cl_custom c))"
    using names by (auto simp: list_ex_iff list_all_iff)
  then have "capture_custom (frozen_obj (JsObj (cl_custom c))) = Inr (cl_custom c)"
    using freeze_json_thaw(2) [OF ok, of JWTClaimError] by (simp add: capture_custom_def ebind_def)
  then show ?thesis
    unfolding token_claims_new_def by (simp add: str [OF texts(1)] str [OF texts(2)] str [OF texts(3)] date aud ebind_def del: frozen_obj.simps)
qed

lemma claims_from_payloadI:
  assumes "emap payload_entry kvs = Inr p"
    and "(case map_of p (ustr ''aud'') of None \<Rightarrow> Inr [] | Some v \<Rightarrow> normalize_audience JWTMalformedTokenError False v) = Inr aud"
    and "present numeric_date_to_datetime (map_of p (ustr ''exp'')) = Inr ex"
    "present numeric_date_to_datetime (map_of p (ustr ''nbf'')) = Inr nb"
    "present numeric_date_to_datetime (map_of p (ustr ''iat'')) = Inr ia"
    and "freeze_json JWTMalformedTokenError
      (JDict (map (\<lambda>(k, v). (JStr k, v)) (filter (\<lambda>(k, v). k \<notin> set registered_claims) p))) = Inr custom"
    and "present (validate_string JWTMalformedTokenError) (map_of p (ustr ''iss'')) = Inr is"
    "present (validate_string JWTMalformedTokenError) (map_of p (ustr ''sub'')) = Inr su"
    "present (validate_string JWTMalformedTokenError) (map_of p (ustr ''jti'')) = Inr jt"
    and "token_claims_new \<lparr>ca_issuer = opt_obj JStr is, ca_subject = opt_obj JStr su, ca_audience = JTuple (map JStr aud),
      ca_expires_at = opt_obj JDatetime ex, ca_not_before = opt_obj JDatetime nb, ca_issued_at = opt_obj JDatetime ia,
      ca_jwt_id = opt_obj JStr jt, ca_custom = frozen_obj custom\<rparr> = Inr c"
  shows "claims_from_payload (JDict kvs) = Inr c"
  using assms by (simp add: claims_from_payload_def ebind_def)

text \<open>
  C31: what is signed is what is read. The payload of any claims value whose dates are whole seconds, as NumericDate
  is, is accepted when it comes back, and gives the same claims: names, audiences, dates and the nested custom
  values.
\<close>

theorem payload_roundtrip:
  assumes "claims_ok c" "list_all (\<lambda>us. 1000000 dvd us) (dates_of c)"
  shows "\<exists>p. claims_to_payload c = Inr p \<and> claims_from_payload (JDict (map (\<lambda>(k, v). (JStr k, v)) p)) = Inr c"
proof -
  let ?sec = "map_option (\<lambda>us. us div 1000000)"
  have date: "present datetime_to_numeric_date v = Inr (?sec v)"
    "present numeric_date_to_datetime (map_option JInt (?sec v)) = Inr v"
    if "v \<in> {cl_expires_at c, cl_not_before c, cl_issued_at c}" for v
  proof -
    have "dt_min \<le> us \<and> us \<le> dt_max \<and> 1000000 dvd us" if "v = Some us" for us
      using that \<open>v \<in> _\<close> assms by (auto simp: claims_ok_def dates_of_def split: option.splits)
    then show "present datetime_to_numeric_date v = Inr (?sec v)"
      "present numeric_date_to_datetime (map_option JInt (?sec v)) = Inr v"
      by (cases v; simp add: present_def numeric_date_whole ebind_def)+
  qed
  let ?custom = "map (\<lambda>(k, v). (k, thaw v)) (cl_custom c)"
  let ?rest = "payload_field ''iss'' (map_option JStr (cl_issuer c)) @ payload_field ''sub'' (map_option JStr (cl_subject c))
      @ payload_field ''aud'' (if cl_audience c = [] then None else Some (JList (map JStr (cl_audience c))))
      @ payload_field ''exp'' (map_option JInt (?sec (cl_expires_at c))) @ payload_field ''nbf'' (map_option JInt (?sec (cl_not_before c)))
      @ payload_field ''iat'' (map_option JInt (?sec (cl_issued_at c))) @ payload_field ''jti'' (map_option JStr (cl_jwt_id c))"
  have p: "claims_to_payload c = Inr (?custom @ ?rest)"
    by (simp add: claims_to_payload_def date ebind_def)
  have names: "list_all (\<lambda>(k, v). k \<notin> set registered_claims) (cl_custom c)" using assms(1) by (simp add: claims_ok_def)
  have "list_all (\<lambda>(k, v). text_ok k) ?custom" using assms(1) by (auto simp: claims_ok_def list_all_iff)
  moreover have "list_all (\<lambda>(k, v). text_ok k) (payload_field n v)" if "ustr n \<in> set registered_claims" for n v
    using that registered_ok entry_names [of n v] by (auto simp: list_all_iff)
  ultimately have "emap payload_entry (map (\<lambda>(k, v). (JStr k, v)) (?custom @ ?rest)) = Inr (?custom @ ?rest)"
    by (intro payload_entries) (simp add: registered_names)
  moreover have look: "map_of (?custom @ ?rest) (ustr ''iss'') = map_option JStr (cl_issuer c)"
    "map_of (?custom @ ?rest) (ustr ''sub'') = map_option JStr (cl_subject c)"
    "map_of (?custom @ ?rest) (ustr ''aud'') = (if cl_audience c = [] then None else Some (JList (map JStr (cl_audience c))))"
    "map_of (?custom @ ?rest) (ustr ''exp'') = map_option JInt (?sec (cl_expires_at c))"
    "map_of (?custom @ ?rest) (ustr ''nbf'') = map_option JInt (?sec (cl_not_before c))"
    "map_of (?custom @ ?rest) (ustr ''iat'') = map_option JInt (?sec (cl_issued_at c))"
    "map_of (?custom @ ?rest) (ustr ''jti'') = map_option JStr (cl_jwt_id c)"
    by (simp_all only: map_of_custom [OF names] registered_names map_of_entry claim_names_differ simp_thms if_False if_True)
      (auto split: option.splits)
  moreover have "filter (\<lambda>(k, v). k \<notin> set registered_claims) (?custom @ ?rest) = ?custom"
    by (simp add: filter_custom [OF names] filter_entry registered_names)
  moreover have "freeze_json JWTMalformedTokenError (JDict (map (\<lambda>(k, v). (JStr k, v)) ?custom)) = Inr (JsObj (cl_custom c))"
    using freeze_json_thaw(1) [of "JsObj (cl_custom c)" JWTMalformedTokenError] assms(1)
    by (simp add: claims_ok_def comp_def case_prod_unfold)
  moreover have texts: "case cl_issuer c of None \<Rightarrow> True | Some s \<Rightarrow> text_ok s" "case cl_subject c of None \<Rightarrow> True | Some s \<Rightarrow> text_ok s"
    "case cl_jwt_id c of None \<Rightarrow> True | Some s \<Rightarrow> text_ok s" "list_all text_ok (cl_audience c)"
    using assms(1) by (auto simp: claims_ok_def texts_of_def split: option.splits)
  moreover have "(case if cl_audience c = [] then None else Some (JList (map JStr (cl_audience c))) of
      None \<Rightarrow> Inr [] | Some v \<Rightarrow> normalize_audience JWTMalformedTokenError False v) = Inr (cl_audience c)"
    using emap_strings [OF texts(4)] by (simp add: normalize_audience_def ebind_def)
  moreover have "present (validate_string e) (map_option JStr v) = Inr v" if "case v of None \<Rightarrow> True | Some s \<Rightarrow> text_ok s" for v e
    using that by (cases v) (simp_all add: present_def validate_string_def ebind_def)
  ultimately have "claims_from_payload (JDict (map (\<lambda>(k, v). (JStr k, v)) (?custom @ ?rest))) = Inr c"
    using token_claims_again [OF assms(1)] by (intro claims_from_payloadI) (assumption | simp only: date insertI1 insertI2)+
  with p show ?thesis by blast
qed

definition demo_claims :: token_claims where
  "demo_claims =
     \<lparr>cl_issuer = Some (ustr ''me''), cl_subject = None, cl_audience = [ustr ''api''], cl_expires_at = Some 1700000000000000,
      cl_not_before = None, cl_issued_at = Some 1600000000000000, cl_jwt_id = None,
      cl_custom = [(ustr ''roles'', JsArr [JsInt 1, JsNull])]\<rparr>"

lemma demo_text_ok: "text_ok (ustr ''me'')" "text_ok (ustr ''api'')" "text_ok (ustr ''roles'')"
  by (simp_all add: text_ok_def ustr_def strip_def is_space_def)

lemma payload_roundtrip_witness:
  "\<exists>p. claims_to_payload demo_claims = Inr p \<and> claims_from_payload (JDict (map (\<lambda>(k, v). (JStr k, v)) p)) = Inr demo_claims"
proof (rule payload_roundtrip)
  show "claims_ok demo_claims"
    using demo_text_ok
    by (simp add: claims_ok_def demo_claims_def texts_of_def dates_of_def dt_min_def dt_max_def registered_claims_def
        max_json_depth_def max_json_nodes_def json_height.simps) (simp add: ustr_def)
  show "list_all (\<lambda>us. 1000000 dvd us) (dates_of demo_claims)"
    by (simp add: dates_of_def demo_claims_def)
qed

end
