(* ===== verification/Jwt_Repository.thy ===== *)
theory Jwt_Repository
  imports Jwt_Core "HOL-Library.AList"
begin

text \<open>
  \<open>bluetape.jwt._keys\<close> and \<open>_repository\<close>: keys with their checks, and the repository that owns their life
  cycle.

  The cryptographic keys are objects of the package joserfc, a type parameter \<open>'k\<close>; its functions are the
  parameter \<open>jose_keys\<close>. The repository's data are its algorithm and the published snapshot; every operation
  is one block under the lock. Dictionaries are lists of items with distinct keys. Log records are left out.
\<close>

section \<open>Keys\<close>

record 'k jose_keys =
  jo_import_oct :: "pybytes \<Rightarrow> 'k option"
  jo_import_rsa :: "jobj \<Rightarrow> pybytes option \<Rightarrow> 'k option"
  jo_public_bits :: "'k \<Rightarrow> int"
  jo_is_private :: "'k \<Rightarrow> bool"
  jo_is_rsa :: "'k \<Rightarrow> bool"
  jo_public_dict :: "'k \<Rightarrow> (pystr \<times> jobj) list option"

record 'k jwt_key =
  jk_kid :: pystr
  jk_algorithm :: jws_algorithm
  jk_can_sign :: bool
  jk_provider_key :: 'k

text \<open>\<open>validate_kid\<close> of both modules; \<open>err\<close> is what each of them raises.\<close>

definition kid_ok :: "pystr \<Rightarrow> bool" where
  "kid_ok s \<longleftrightarrow> text_ok s \<and> (\<exists>b. utf8_encode s = Some b \<and> length b \<le> 128)"

definition validate_kid :: "jwt_exn \<Rightarrow> jobj \<Rightarrow> jwt_exn + pystr" where
  "validate_kid err kid =
     (case kid of
        JStr s \<Rightarrow>
          (case utf8_encode s of
             None \<Rightarrow> Inl err
           | Some encoded \<Rightarrow> if \<not> text_ok s \<or> length encoded > 128 then Inl err else Inr s)
      | _ \<Rightarrow> Inl err)"

text \<open>The algorithm argument is \<open>None\<close> if it is no \<open>JWSAlgorithm\<close>.\<close>

definition jwt_validate_algorithm :: "jws_algorithm option \<Rightarrow> algorithm_family \<Rightarrow> jwt_exn + jws_algorithm" where
  "jwt_validate_algorithm algorithm allowed =
     (case algorithm of
        None \<Rightarrow> Inl JWTKeyError
      | Some a \<Rightarrow> if family a = allowed then Inr a else Inl JWTKeyError)"

definition private_rsa_fields :: "pystr list" where
  "private_rsa_fields = map ustr [''d'', ''p'', ''q'', ''dp'', ''dq'', ''qi'', ''oth'']"

text \<open>A field that is absent or the expected text.\<close>

definition field_matches :: "(pystr \<times> jobj) list \<Rightarrow> string \<Rightarrow> pystr \<Rightarrow> bool" where
  "field_matches jwk name expected \<longleftrightarrow>
     (case map_of jwk (ustr name) of None \<Rightarrow> True | Some v \<Rightarrow> v = JStr expected)"

definition string_items :: "jobj list \<Rightarrow> pystr list option" where
  "string_items xs =
     (if list_all (\<lambda>x. case x of JStr _ \<Rightarrow> True | _ \<Rightarrow> False) xs
      then Some (map (\<lambda>x. case x of JStr s \<Rightarrow> s | _ \<Rightarrow> []) xs) else None)"

definition validate_jwk_metadata :: "(pystr \<times> jobj) list \<Rightarrow> pystr \<Rightarrow> jws_algorithm \<Rightarrow> bool \<Rightarrow> jwt_exn + unit" where
  "validate_jwk_metadata jwk kid algorithm private =
     (if \<not> field_matches jwk ''kty'' (ustr ''RSA'') then Inl JWTKeyError
      else if \<not> field_matches jwk ''kid'' kid then Inl JWTKeyError
      else if \<not> field_matches jwk ''alg'' (algorithm_name algorithm) then Inl JWTKeyError
      else if \<not> field_matches jwk ''use'' (ustr ''sig'') then Inl JWTKeyError
      else case map_of jwk (ustr ''key_ops'') of
        None \<Rightarrow> Inr ()
      | Some (JList operations) \<Rightarrow>
          (case string_items operations of
             None \<Rightarrow> Inl JWTKeyError
           | Some ops \<Rightarrow>
               if \<not> distinct ops then Inl JWTKeyError
               else if private
               then if set ops \<noteq> {ustr ''sign'', ustr ''verify''} then Inl JWTKeyError else Inr ()
               else if set ops \<noteq> {ustr ''verify''} then Inl JWTKeyError else Inr ())
      | Some _ \<Rightarrow> Inl JWTKeyError)"

definition copy_rsa_material :: "jobj \<Rightarrow> pystr \<Rightarrow> jws_algorithm \<Rightarrow> bool \<Rightarrow> jwt_exn + jobj" where
  "copy_rsa_material material kid algorithm private =
     (case material of
        JStr _ \<Rightarrow> Inr material
      | JBytes _ \<Rightarrow> Inr material
      | JDict kvs \<Rightarrow>
          ebind (emap (\<lambda>(k, v). case k of JStr s \<Rightarrow> Inr (s, v) | _ \<Rightarrow> Inl JWTKeyError) kvs) (\<lambda>copied.
            case map_of copied (ustr ''key_ops'') of
              None \<Rightarrow> ebind (validate_jwk_metadata copied kid algorithm private) (\<lambda>_. Inr material)
            | Some (JList _) \<Rightarrow> ebind (validate_jwk_metadata copied kid algorithm private) (\<lambda>_. Inr material)
            | Some _ \<Rightarrow> Inl JWTKeyError)
      | _ \<Rightarrow> Inl JWTKeyError)"

definition import_rsa_key :: "'k jose_keys \<Rightarrow> jobj \<Rightarrow> pybytes option \<Rightarrow> jwt_exn + 'k" where
  "import_rsa_key jose material password =
     (case jo_import_rsa jose material password of
        None \<Rightarrow> Inl JWTKeyError
      | Some key \<Rightarrow> if jo_public_bits jose key < 2048 then Inl JWTKeyError else Inr key)"

definition new_jwt_key :: "pystr \<Rightarrow> jws_algorithm \<Rightarrow> bool \<Rightarrow> 'k \<Rightarrow> 'k jwt_key" where
  "new_jwt_key kid algorithm can_sign provider_key =
     \<lparr>jk_kid = kid, jk_algorithm = algorithm, jk_can_sign = can_sign, jk_provider_key = provider_key\<rparr>"

definition from_hmac_secret :: "'k jose_keys \<Rightarrow> jobj \<Rightarrow> jws_algorithm option \<Rightarrow> jobj \<Rightarrow> jwt_exn + 'k jwt_key" where
  "from_hmac_secret jose kid algorithm secret =
     ebind (validate_kid JWTKeyError kid) (\<lambda>k.
     ebind (jwt_validate_algorithm algorithm HMAC) (\<lambda>a.
     case secret of
       JBytes b \<Rightarrow>
         if length b * 8 < minimum_key_bits a then Inl JWTKeyError
         else (case jo_import_oct jose b of
                 None \<Rightarrow> Inl JWTKeyError
               | Some key \<Rightarrow> Inr (new_jwt_key k a True key))
     | _ \<Rightarrow> Inl JWTKeyError))"

definition from_rsa_private ::
  "'k jose_keys \<Rightarrow> jobj \<Rightarrow> jws_algorithm option \<Rightarrow> jobj \<Rightarrow> jobj \<Rightarrow> jwt_exn + 'k jwt_key" where
  "from_rsa_private jose kid algorithm material password =
     ebind (validate_kid JWTKeyError kid) (\<lambda>k.
     ebind (jwt_validate_algorithm algorithm RSA) (\<lambda>a.
     ebind (case password of JNone \<Rightarrow> Inr None | JBytes b \<Rightarrow> Inr (Some b) | _ \<Rightarrow> Inl JWTKeyError) (\<lambda>pw.
     ebind (copy_rsa_material material k a True) (\<lambda>copied.
     if (case copied of JDict _ \<Rightarrow> True | _ \<Rightarrow> False) \<and> pw \<noteq> None then Inl JWTKeyError
     else ebind (import_rsa_key jose copied pw) (\<lambda>key.
          if \<not> jo_is_private jose key then Inl JWTKeyError else Inr (new_jwt_key k a True key))))))"

definition from_rsa_public ::
  "'k jose_keys \<Rightarrow> jobj \<Rightarrow> jws_algorithm option \<Rightarrow> jobj \<Rightarrow> jwt_exn + 'k jwt_key" where
  "from_rsa_public jose kid algorithm material =
     ebind (validate_kid JWTKeyError kid) (\<lambda>k.
     ebind (jwt_validate_algorithm algorithm RSA) (\<lambda>a.
     ebind (copy_rsa_material material k a False) (\<lambda>copied.
     ebind (import_rsa_key jose copied None) (\<lambda>key.
       if jo_is_private jose key then Inl JWTKeyError else Inr (new_jwt_key k a False key)))))"

definition public_jwk :: "'k jose_keys \<Rightarrow> 'k jwt_key \<Rightarrow> jwt_exn + (pystr \<times> pystr) list" where
  "public_jwk jose key =
     (if \<not> jo_is_rsa jose (jk_provider_key key) then Inl JWTKeyError
      else case jo_public_dict jose (jk_provider_key key) of
        None \<Rightarrow> Inl JWTKeyError
      | Some public \<Rightarrow>
          (case (map_of public (ustr ''n''), map_of public (ustr ''e'')) of
             (Some n, Some e) \<Rightarrow>
               let projection = [(ustr ''kty'', JStr (ustr ''RSA'')), (ustr ''kid'', JStr (jk_kid key)),
                     (ustr ''alg'', JStr (algorithm_name (jk_algorithm key))), (ustr ''n'', n), (ustr ''e'', e)]
               in (case string_items (map snd projection) of
                     None \<Rightarrow> Inl JWTKeyError
                   | Some vs \<Rightarrow>
                       if list_ex (\<lambda>(name, v). name \<in> set private_rsa_fields) projection then Inl JWTKeyError
                       else Inr (zip (map fst projection) vs))
           | _ \<Rightarrow> Inl JWTKeyError))"

section \<open>Entries and snapshots\<close>

datatype key_status = ACTIVE | RETIRED | REVOKED

record 'k key_entry =
  ke_status :: key_status
  ke_key :: "'k jwt_key option"

definition key_entry_new :: "key_status \<Rightarrow> 'k jwt_key option \<Rightarrow> jwt_exn + 'k key_entry" where
  "key_entry_new status key =
     (if status = REVOKED then if key \<noteq> None then Inl JWTKeyStateError else Inr \<lparr>ke_status = status, ke_key = key\<rparr>
      else if key = None then Inl JWTKeyStateError
      else Inr \<lparr>ke_status = status, ke_key = key\<rparr>)"

record 'k key_snapshot =
  ks_entries :: "(pystr \<times> 'k key_entry) list"
  ks_epoch :: int

definition active_count :: "(pystr \<times> 'k key_entry) list \<Rightarrow> nat" where
  "active_count entries = length (filter (\<lambda>(kid, e). ke_status e = ACTIVE) entries)"

definition key_snapshot_new :: "(pystr \<times> 'k key_entry) list \<Rightarrow> int \<Rightarrow> jwt_exn + 'k key_snapshot" where
  "key_snapshot_new entries epoch =
     (if epoch < 0 then Inl JWTConfigurationError
      else
        ebind (emap (\<lambda>(kid, e).
                 ebind (validate_kid JWTConfigurationError (JStr kid)) (\<lambda>validated_kid.
                   case ke_key e of
                     None \<Rightarrow> Inr ()
                   | Some key \<Rightarrow> if jk_kid key \<noteq> validated_kid then Inl JWTConfigurationError else Inr ())) entries) (\<lambda>_.
          if active_count entries > 1 then Inl JWTConfigurationError
          else Inr \<lparr>ks_entries = entries, ks_epoch = epoch\<rparr>))"

definition snapshot_active :: "'k key_snapshot \<Rightarrow> 'k key_entry option" where
  "snapshot_active snapshot =
     (case filter (\<lambda>(kid, e). ke_status e = ACTIVE) (ks_entries snapshot) of [] \<Rightarrow> None | (kid, e) # _ \<Rightarrow> Some e)"

section \<open>The repository\<close>

record 'k repository =
  kr_algorithm :: "jws_algorithm option"
  kr_snapshot :: "'k key_snapshot"

text \<open>The loop over the verification keys (\<open>None\<close> is no \<open>JWTKey\<close>), with the entries and the algorithm so far.\<close>

fun add_candidates ::
  "(pystr \<times> 'k key_entry) list \<Rightarrow> jws_algorithm option \<Rightarrow> 'k jwt_key option list
   \<Rightarrow> jwt_exn + (pystr \<times> 'k key_entry) list \<times> jws_algorithm option" where
  "add_candidates entries algorithm [] = Inr (entries, algorithm)"
| "add_candidates entries algorithm (None # rest) = Inl JWTConfigurationError"
| "add_candidates entries algorithm (Some key # rest) =
     (if jk_kid key \<in> fst ` set entries then Inl JWTKeyStateError
      else if algorithm \<noteq> None \<and> algorithm \<noteq> Some (jk_algorithm key) then Inl JWTConfigurationError
      else ebind (key_entry_new RETIRED (Some key)) (\<lambda>e.
             add_candidates (entries @ [(jk_kid key, e)]) (Some (jk_algorithm key)) rest))"

text \<open>The verification keys are \<open>None\<close> if they cannot be iterated; the active key is \<open>None\<close> if it is not given, and
  \<open>Some None\<close> if it is no \<open>JWTKey\<close>.\<close>

definition repository_new :: "'k jwt_key option option \<Rightarrow> 'k jwt_key option list option \<Rightarrow> jwt_exn + 'k repository" where
  "repository_new active verification_keys =
     ebind (case active of
              None \<Rightarrow> Inr ([], None)
            | Some None \<Rightarrow> Inl JWTConfigurationError
            | Some (Some key) \<Rightarrow>
                if \<not> jk_can_sign key then Inl JWTKeyStateError
                else ebind (key_entry_new ACTIVE (Some key)) (\<lambda>e. Inr ([(jk_kid key, e)], Some (jk_algorithm key)))) (\<lambda>(entries, algorithm).
     case verification_keys of
       None \<Rightarrow> Inl JWTConfigurationError
     | Some candidates \<Rightarrow>
         ebind (add_candidates entries algorithm candidates) (\<lambda>(entries, algorithm).
         ebind (key_snapshot_new entries 0) (\<lambda>snapshot.
           Inr \<lparr>kr_algorithm = algorithm, kr_snapshot = snapshot\<rparr>)))"

text \<open>Retiring the entries that are active.\<close>

definition retire_entries :: "(pystr \<times> 'k key_entry) list \<Rightarrow> jwt_exn + (pystr \<times> 'k key_entry) list" where
  "retire_entries entries =
     emap (\<lambda>(kid, e). if ke_status e = ACTIVE then ebind (key_entry_new RETIRED (ke_key e)) (\<lambda>e'. Inr (kid, e')) else Inr (kid, e)) entries"

text \<open>A key argument is \<open>None\<close> if it is no \<open>JWTKey\<close>. An operation gives its outcome and the new data.\<close>

definition new_key_state ::
  "'k jwt_key option \<Rightarrow> bool \<Rightarrow> 'k repository \<Rightarrow> jwt_exn + 'k repository" where
  "new_key_state candidate active d =
     (case candidate of
        None \<Rightarrow> Inl JWTConfigurationError
      | Some key \<Rightarrow>
          let entries = ks_entries (kr_snapshot d)
          in if active \<and> \<not> jk_can_sign key then Inl JWTKeyStateError
             else if jk_kid key \<in> fst ` set entries then Inl JWTKeyStateError
             else if kr_algorithm d \<noteq> None \<and> kr_algorithm d \<noteq> Some (jk_algorithm key) then Inl JWTConfigurationError
             else
               ebind (if active then retire_entries entries else Inr entries) (\<lambda>kept.
               ebind (key_entry_new (if active then ACTIVE else RETIRED) (Some key)) (\<lambda>e.
               ebind (key_snapshot_new (AList.update (jk_kid key) e kept) (ks_epoch (kr_snapshot d) + 1)) (\<lambda>published.
                 Inr \<lparr>kr_algorithm = (if kr_algorithm d = None then Some (jk_algorithm key) else kr_algorithm d),
                      kr_snapshot = published\<rparr>))))"

datatype identifier_operation = Retire | Revoke

definition new_identifier_state ::
  "identifier_operation \<Rightarrow> jobj \<Rightarrow> 'k repository \<Rightarrow> jwt_exn + 'k repository" where
  "new_identifier_state operation candidate d =
     ebind (validate_kid JWTConfigurationError candidate) (\<lambda>kid.
     let entries = ks_entries (kr_snapshot d)
     in case map_of entries kid of
          None \<Rightarrow> Inl JWTKeyStateError
        | Some e \<Rightarrow>
            ebind (if operation = Retire
                   then if ke_status e \<noteq> ACTIVE then Inl JWTKeyStateError else key_entry_new RETIRED (ke_key e)
                   else if ke_status e = REVOKED then Inl JWTKeyStateError else key_entry_new REVOKED None) (\<lambda>replacement.
            ebind (key_snapshot_new (AList.update kid replacement entries) (ks_epoch (kr_snapshot d) + 1)) (\<lambda>published.
              Inr (d\<lparr>kr_snapshot := published\<rparr>))))"

definition repository_publish :: "('k repository \<Rightarrow> jwt_exn + 'k repository) \<Rightarrow> 'k repository \<Rightarrow> (jwt_exn + 'k key_snapshot) \<times> 'k repository" where
  "repository_publish f d = (case f d of Inl e \<Rightarrow> (Inl e, d) | Inr d' \<Rightarrow> (Inr (kr_snapshot d'), d'))"

definition mutate_key :: "'k jwt_key option \<Rightarrow> bool \<Rightarrow> 'k repository \<Rightarrow> (jwt_exn + 'k key_snapshot) \<times> 'k repository" where
  "mutate_key candidate active = repository_publish (new_key_state candidate active)"

definition mutate_identifier ::
  "identifier_operation \<Rightarrow> jobj \<Rightarrow> 'k repository \<Rightarrow> (jwt_exn + 'k key_snapshot) \<times> 'k repository" where
  "mutate_identifier operation candidate = repository_publish (new_identifier_state operation candidate)"

definition add_verification_key :: "'k jwt_key option \<Rightarrow> 'k repository \<Rightarrow> (jwt_exn + 'k key_snapshot) \<times> 'k repository" where
  "add_verification_key key = mutate_key key False"

definition rotate_key :: "'k jwt_key option \<Rightarrow> 'k repository \<Rightarrow> (jwt_exn + 'k key_snapshot) \<times> 'k repository" where
  "rotate_key key = mutate_key key True"

definition retire_key :: "jobj \<Rightarrow> 'k repository \<Rightarrow> (jwt_exn + 'k key_snapshot) \<times> 'k repository" where
  "retire_key kid = mutate_identifier Retire kid"

definition revoke_key :: "jobj \<Rightarrow> 'k repository \<Rightarrow> (jwt_exn + 'k key_snapshot) \<times> 'k repository" where
  "revoke_key kid = mutate_identifier Revoke kid"

section \<open>Keys are as strong as their algorithm asks\<close>

lemma validate_kid_Inr: "validate_kid err kid = Inr s \<Longrightarrow> kid = JStr s \<and> kid_ok s"
  by (auto simp: validate_kid_def kid_ok_def split: jobj.splits option.splits if_splits)

lemma validate_kid_known: "kid_ok s \<Longrightarrow> validate_kid err (JStr s) = Inr s"
  by (auto simp: validate_kid_def kid_ok_def)

lemma jwt_validate_algorithm_Inr: "jwt_validate_algorithm algorithm allowed = Inr a \<Longrightarrow> algorithm = Some a \<and> family a = allowed"
  by (auto simp: jwt_validate_algorithm_def split: option.splits if_splits)

definition key_sound :: "'k jose_keys \<Rightarrow> 'k jwt_key \<Rightarrow> bool" where
  "key_sound jose key \<longleftrightarrow>
     kid_ok (jk_kid key)
     \<and> (if family (jk_algorithm key) = HMAC
        then jk_can_sign key
             \<and> (\<exists>secret. jo_import_oct jose secret = Some (jk_provider_key key)
                        \<and> minimum_key_bits (jk_algorithm key) \<le> length secret * 8)
        else jo_public_bits jose (jk_provider_key key) \<ge> 2048
             \<and> jk_can_sign key = jo_is_private jose (jk_provider_key key))"

lemma hmac_key_sound: "from_hmac_secret jose kid algorithm secret = Inr key \<Longrightarrow> key_sound jose key"
  by (cases secret) (auto simp: from_hmac_secret_def key_sound_def new_jwt_key_def not_less
      dest!: validate_kid_Inr jwt_validate_algorithm_Inr split: if_splits option.splits)

lemma rsa_private_sound: "from_rsa_private jose kid algorithm material password = Inr key \<Longrightarrow> key_sound jose key"
  by (auto simp: from_rsa_private_def import_rsa_key_def key_sound_def new_jwt_key_def not_less
      dest!: validate_kid_Inr jwt_validate_algorithm_Inr split: if_splits option.splits)

lemma rsa_public_sound: "from_rsa_public jose kid algorithm material = Inr key \<Longrightarrow> key_sound jose key"
  by (auto simp: from_rsa_public_def import_rsa_key_def key_sound_def new_jwt_key_def not_less
      dest!: validate_kid_Inr jwt_validate_algorithm_Inr split: if_splits option.splits)

section \<open>The life cycle\<close>

text \<open>The operations of the repository as steps, failures included.\<close>

inductive repo_step :: "'k repository \<Rightarrow> 'k repository \<Rightarrow> bool" where
  add: "repo_step d (snd (add_verification_key key d))"
| rotate: "repo_step d (snd (rotate_key key d))"
| retire: "repo_step d (snd (retire_key kid d))"
| revoke: "repo_step d (snd (revoke_key kid d))"

inductive_cases repo_stepE: "repo_step d d'"

abbreviation repo_entries :: "'k repository \<Rightarrow> (pystr \<times> 'k key_entry) list" where
  "repo_entries d \<equiv> ks_entries (kr_snapshot d)"

abbreviation repo_epoch :: "'k repository \<Rightarrow> int" where
  "repo_epoch d \<equiv> ks_epoch (kr_snapshot d)"

definition entry_wf :: "jws_algorithm option \<Rightarrow> pystr \<Rightarrow> 'k key_entry \<Rightarrow> bool" where
  "entry_wf algorithm kid e \<longleftrightarrow>
     kid_ok kid
     \<and> (case ke_key e of
          None \<Rightarrow> ke_status e = REVOKED
        | Some key \<Rightarrow> ke_status e \<noteq> REVOKED \<and> jk_kid key = kid \<and> algorithm = Some (jk_algorithm key)
            \<and> (ke_status e = ACTIVE \<longrightarrow> jk_can_sign key))"

definition repo_inv :: "'k repository \<Rightarrow> bool" where
  "repo_inv d \<longleftrightarrow>
     distinct (map fst (repo_entries d))
     \<and> list_all (\<lambda>(kid, e). entry_wf (kr_algorithm d) kid e) (repo_entries d)
     \<and> active_count (repo_entries d) \<le> 1
     \<and> repo_epoch d \<ge> 0
     \<and> (kr_algorithm d = None \<longrightarrow> repo_entries d = [])"

text \<open>The stages of a key: the numbers grow along its life.\<close>

fun stage :: "key_status \<Rightarrow> nat" where
  "stage ACTIVE = 0"
| "stage RETIRED = 1"
| "stage REVOKED = 2"

definition entry_follows :: "'k key_entry \<Rightarrow> 'k key_entry \<Rightarrow> bool" where
  "entry_follows e e' \<longleftrightarrow> e' = e \<or> stage (ke_status e) < stage (ke_status e') \<and> (ke_key e' = ke_key e \<or> ke_status e' = REVOKED \<and> ke_key e' = None)"

lemma entry_follows_refl [simp]: "entry_follows e e"
  by (simp add: entry_follows_def)

lemma entry_follows_trans: "entry_follows e1 e2 \<Longrightarrow> entry_follows e2 e3 \<Longrightarrow> entry_follows e1 e3"
proof -
  have "stage s \<le> 2" for s by (cases s) auto
  then show "entry_follows e1 e2 \<Longrightarrow> entry_follows e2 e3 \<Longrightarrow> entry_follows e1 e3"
    by (auto simp: entry_follows_def) (metis leD stage.simps(3))+
qed

definition snapshot_follows :: "'k key_snapshot \<Rightarrow> 'k key_snapshot \<Rightarrow> bool" where
  "snapshot_follows s s' \<longleftrightarrow>
     (\<forall>kid e. map_of (ks_entries s) kid = Some e \<longrightarrow> (\<exists>e'. map_of (ks_entries s') kid = Some e' \<and> entry_follows e e'))"

lemma snapshot_follows_refl [simp]: "snapshot_follows s s"
  by (auto simp: snapshot_follows_def)

lemma snapshot_follows_trans: "snapshot_follows s1 s2 \<Longrightarrow> snapshot_follows s2 s3 \<Longrightarrow> snapshot_follows s1 s3"
  unfolding snapshot_follows_def by (meson entry_follows_trans)

subsection \<open>What one operation publishes\<close>

lemma key_entry_new_Inr:
  "key_entry_new status key = Inr e \<Longrightarrow> e = \<lparr>ke_status = status, ke_key = key\<rparr> \<and> (status = REVOKED) = (key = None)"
  by (auto simp: key_entry_new_def split: if_splits)

lemma emap_unit: "emap f xs = Inr ys \<Longrightarrow> list_all (\<lambda>x. \<exists>y. f x = Inr y) xs"
  by (induction xs arbitrary: ys) auto

lemma key_snapshot_new_Inr:
  assumes "key_snapshot_new entries epoch = Inr s"
  shows "s = \<lparr>ks_entries = entries, ks_epoch = epoch\<rparr> \<and> epoch \<ge> 0 \<and> active_count entries \<le> 1
    \<and> list_all (\<lambda>(kid, e). kid_ok kid \<and> (case ke_key e of None \<Rightarrow> True | Some key \<Rightarrow> jk_kid key = kid)) entries"
  using assms
  by (auto simp: key_snapshot_new_def list_all_iff split: if_splits option.splits
      dest!: emap_unit validate_kid_Inr) (fastforce dest!: validate_kid_Inr split: option.splits if_splits)+

text \<open>Retiring never fails on well-formed entries, and is a map.\<close>

definition retire_entry :: "'k key_entry \<Rightarrow> 'k key_entry" where
  "retire_entry e = (if ke_status e = ACTIVE then e\<lparr>ke_status := RETIRED\<rparr> else e)"

lemma retire_entries_Inr: "retire_entries entries = Inr ys \<Longrightarrow> ys = map (\<lambda>(kid, e). (kid, retire_entry e)) entries"
  by (induction entries arbitrary: ys)
     (auto simp: retire_entries_def retire_entry_def split: if_splits dest!: key_entry_new_Inr)

lemma in_update: "x \<in> set (AList.update k v xs) \<Longrightarrow> x = (k, v) \<or> x \<in> set xs"
  by (induction xs) (auto split: if_splits)

lemma map_of_retired: "map_of (map (\<lambda>(kid, e). (kid, f e)) xs) kid = map_option f (map_of xs kid)"
  by (induction xs) auto

lemma fst_retired: "map fst (map (\<lambda>(kid, e). (kid, f e)) xs) = map fst xs"
  by (induction xs) auto

lemma retire_entry_wf: "entry_wf a kid e \<Longrightarrow> entry_wf a kid (retire_entry e)"
  by (auto simp: entry_wf_def retire_entry_def split: option.splits)

lemma retire_entry_follows: "entry_follows e (retire_entry e)"
  by (auto simp: entry_follows_def retire_entry_def)

text \<open>What a published operation gives, whichever it was.\<close>

definition published :: "'k repository \<Rightarrow> 'k repository \<Rightarrow> bool" where
  "published d d' \<longleftrightarrow> repo_inv d' \<and> snapshot_follows (kr_snapshot d) (kr_snapshot d') \<and> repo_epoch d' = repo_epoch d + 1"

lemma published_update:
  assumes "repo_inv d"
    and kept: "distinct (map fst kept)" "list_all (\<lambda>(kid, e). entry_wf a kid e) kept"
      "\<And>k e'. k \<noteq> kid \<Longrightarrow> map_of (repo_entries d) k = Some e' \<Longrightarrow> \<exists>e''. map_of kept k = Some e'' \<and> entry_follows e' e''"
      "\<And>e'. map_of (repo_entries d) kid = Some e' \<Longrightarrow> entry_follows e' e"
    and new: "entry_wf a kid e" "a \<noteq> None"
    and s: "key_snapshot_new (AList.update kid e kept) (repo_epoch d + 1) = Inr s"
  shows "published d \<lparr>kr_algorithm = a, kr_snapshot = s\<rparr>"
proof -
  note snapshot = key_snapshot_new_Inr [OF s]
  have "list_all (\<lambda>(kid, e). entry_wf a kid e) (AList.update kid e kept)"
    using kept(2) new(1) by (auto simp: list_all_iff dest!: in_update)
  moreover have "snapshot_follows (kr_snapshot d) s"
    using snapshot kept(3,4) by (auto simp: snapshot_follows_def update_conv')
  ultimately show ?thesis
    using assms(1) snapshot kept(1) new(2) by (auto simp: published_def repo_inv_def distinct_update)
qed

lemma new_key_published:
  assumes inv: "repo_inv d" and ok: "new_key_state candidate active d = Inr d'"
  shows "published d d'"
proof -
  obtain key kept e s where key: "candidate = Some key"
    and guards: "active \<longrightarrow> jk_can_sign key" "jk_kid key \<notin> fst ` set (repo_entries d)"
      "kr_algorithm d = None \<or> kr_algorithm d = Some (jk_algorithm key)"
    and kept: "(if active then retire_entries (repo_entries d) else Inr (repo_entries d)) = Inr kept"
    and e: "key_entry_new (if active then ACTIVE else RETIRED) (Some key) = Inr e"
    and s: "key_snapshot_new (AList.update (jk_kid key) e kept) (repo_epoch d + 1) = Inr s"
    and d': "d' = \<lparr>kr_algorithm = Some (jk_algorithm key), kr_snapshot = s\<rparr>"
    using ok by (cases candidate) (auto simp: new_key_state_def Let_def split: if_split_asm)
  have entries: "distinct (map fst (repo_entries d))" "list_all (\<lambda>(kid, e). entry_wf (Some (jk_algorithm key)) kid e) (repo_entries d)"
    using inv guards(3) by (auto simp: repo_inv_def)
  have kept': "kept = (if active then map (\<lambda>(kid, e). (kid, retire_entry e)) (repo_entries d) else repo_entries d)"
    using kept retire_entries_Inr by (auto split: if_splits)
  have kid: "kid_ok (jk_kid key)"
  proof -
    have "(jk_kid key, e) \<in> set (AList.update (jk_kid key) e kept)"
      by (induction kept) auto
    then show ?thesis using key_snapshot_new_Inr [OF s] by (auto simp: list_all_iff)
  qed
  show ?thesis
    unfolding d'
  proof (rule published_update [OF inv _ _ _ _ _ _ s])
    show "distinct (map fst kept)" using entries(1) by (simp add: kept' fst_retired del: map_map)
    show "list_all (\<lambda>(kid, e). entry_wf (Some (jk_algorithm key)) kid e) kept"
      using entries(2) by (auto simp: kept' list_all_iff intro: retire_entry_wf)
    show "\<exists>e''. map_of kept k = Some e'' \<and> entry_follows e' e''" if "map_of (repo_entries d) k = Some e'" for k e'
      using that by (auto simp: kept' map_of_retired intro: retire_entry_follows)
    show "entry_follows e' e" if "map_of (repo_entries d) (jk_kid key) = Some e'" for e'
      using that guards(2) by (metis fst_conv image_eqI map_of_SomeD)
    show "entry_wf (Some (jk_algorithm key)) (jk_kid key) e"
      using key_entry_new_Inr [OF e] kid guards(1) by (auto simp: entry_wf_def split: if_splits)
  qed simp
qed

lemma new_identifier_published:
  assumes inv: "repo_inv d" and ok: "new_identifier_state operation candidate d = Inr d'"
  shows "published d d'"
proof -
  obtain kid old e s where old: "map_of (repo_entries d) kid = Some old"
    and e: "(if operation = Retire
             then if ke_status old \<noteq> ACTIVE then Inl JWTKeyStateError else key_entry_new RETIRED (ke_key old)
             else if ke_status old = REVOKED then Inl JWTKeyStateError else key_entry_new REVOKED None) = Inr e"
    and s: "key_snapshot_new (AList.update kid e (repo_entries d)) (repo_epoch d + 1) = Inr s"
    and d': "d' = \<lparr>kr_algorithm = kr_algorithm d, kr_snapshot = s\<rparr>"
    using ok by (auto simp: new_identifier_state_def Let_def split: option.splits)
  have wf: "entry_wf (kr_algorithm d) kid old" "kr_algorithm d \<noteq> None"
    using inv map_of_SomeD [OF old] by (auto simp: repo_inv_def list_all_iff)
  have e': "entry_wf (kr_algorithm d) kid e \<and> entry_follows old e"
    using e wf(1) by (cases "ke_status old")
      (auto simp: entry_wf_def entry_follows_def split: if_splits option.splits dest!: key_entry_new_Inr)
  show ?thesis
    unfolding d' using inv wf e' old
    by (intro published_update [OF inv _ _ _ _ _ _ s]) (auto simp: repo_inv_def)
qed

lemma repo_step_cases:
  assumes "repo_inv d" "repo_step d d'"
  shows "d' = d \<or> published d d'"
  using assms(2)
  by cases (auto simp: add_verification_key_def rotate_key_def retire_key_def revoke_key_def mutate_key_def mutate_identifier_def
      repository_publish_def new_key_published [OF assms(1)] new_identifier_published [OF assms(1)] split: sum.splits)

lemma repo_step_inv: "repo_inv d \<Longrightarrow> repo_step d d' \<Longrightarrow> repo_inv d'"
  using repo_step_cases by (auto simp: published_def)

interpretation repo: transition_invariant repo_step repo_inv
  by unfold_locales (rule repo_step_inv)

lemma repo_run:
  assumes "repo_step\<^sup>*\<^sup>* d d'" "repo_inv d"
  shows "snapshot_follows (kr_snapshot d) (kr_snapshot d') \<and> (d' = d \<or> repo_epoch d < repo_epoch d')"
  using assms(1)
proof (induction rule: rtranclp_induct)
  case base
  then show ?case by simp
next
  case (step y z)
  have "z = y \<or> published y z"
    using repo.run_inv [OF step(1) assms(2)] step(2) by (rule repo_step_cases)
  with step.IH show ?case
    by (auto simp: published_def intro: snapshot_follows_trans)
qed

text \<open>The repository starts in its invariant.\<close>

definition building :: "(pystr \<times> 'k key_entry) list \<Rightarrow> jws_algorithm option \<Rightarrow> bool" where
  "building entries algorithm \<longleftrightarrow>
     distinct (map fst entries)
     \<and> list_all (\<lambda>(kid, e). \<exists>key. ke_key e = Some key \<and> ke_status e \<noteq> REVOKED \<and> jk_kid key = kid
                        \<and> algorithm = Some (jk_algorithm key) \<and> (ke_status e = ACTIVE \<longrightarrow> jk_can_sign key)) entries
     \<and> (algorithm = None \<longrightarrow> entries = [])"

lemma add_candidates_building:
  "add_candidates entries algorithm keys = Inr (entries', algorithm') \<Longrightarrow> building entries algorithm \<Longrightarrow> building entries' algorithm'"
proof (induction entries algorithm keys rule: add_candidates.induct)
  case (3 entries algorithm key rest)
  then show ?case
    by (auto simp: building_def split: if_splits dest!: key_entry_new_Inr)
qed simp_all

lemma repository_new_inv:
  assumes "repository_new active keys = Inr d"
  shows "repo_inv d \<and> repo_epoch d = 0"
proof -
  let ?first = "case active of
              None \<Rightarrow> Inr ([], None)
            | Some None \<Rightarrow> Inl JWTConfigurationError
            | Some (Some key) \<Rightarrow>
                if \<not> jk_can_sign key then Inl JWTKeyStateError
                else ebind (key_entry_new ACTIVE (Some key)) (\<lambda>e. Inr ([(jk_kid key, e)], Some (jk_algorithm key)))"
  obtain entries0 algorithm0 entries algorithm candidates s where
    first': "?first = Inr (entries0, algorithm0)"
    and loop: "add_candidates entries0 algorithm0 candidates = Inr (entries, algorithm)"
    and s: "key_snapshot_new entries 0 = Inr s"
    and d: "d = \<lparr>kr_algorithm = algorithm, kr_snapshot = s\<rparr>"
    using assms unfolding repository_new_def by (cases keys) (simp, simp only: option.case ebind_eq_Inr, fastforce)
  have first: "building entries0 algorithm0"
    using first' by (auto simp: building_def split: option.splits if_splits dest!: key_entry_new_Inr)
  show ?thesis
    using add_candidates_building [OF loop first] key_snapshot_new_Inr [OF s]
    by (auto simp: d repo_inv_def building_def entry_wf_def list_all_iff)
qed

text \<open>
  C26: a key that the repository knows only moves forward, active, retired, revoked, and the repository keeps it.
  Take any repository, run any operations on it, failed ones among them, and then some more. The identifiers of the
  earlier snapshot are all in the later one; each entry is the same or is at a later stage, with the same key or, once
  revoked, with none; a revoked identifier stays a tombstone for ever. Every snapshot has at most one active key,
  which can sign and is of the algorithm of the repository; keys lie under their own identifiers. And the epoch
  identifies the snapshot: two equal epochs of one history are the same repository.
\<close>

theorem key_lifecycle:
  assumes "repository_new active keys = Inr d0" "repo_step\<^sup>*\<^sup>* d0 d" "repo_step\<^sup>*\<^sup>* d d'"
  shows "repo_inv d \<and> repo_inv d'
    \<and> snapshot_follows (kr_snapshot d) (kr_snapshot d')
    \<and> (map_of (repo_entries d) kid = Some \<lparr>ke_status = REVOKED, ke_key = None\<rparr>
       \<longrightarrow> map_of (repo_entries d') kid = Some \<lparr>ke_status = REVOKED, ke_key = None\<rparr>)
    \<and> (repo_epoch d' = repo_epoch d \<longrightarrow> d' = d) \<and> 0 \<le> repo_epoch d \<and> repo_epoch d \<le> repo_epoch d'"
proof -
  have inv: "repo_inv d" "repo_inv d'"
    using repository_new_inv [OF assms(1)] assms(2,3) by (blast intro: repo.run_inv rtranclp_trans)+
  have run: "snapshot_follows (kr_snapshot d) (kr_snapshot d') \<and> (d' = d \<or> repo_epoch d < repo_epoch d')"
    by (rule repo_run [OF assms(3) inv(1)])
  have stays: "entry_follows \<lparr>ke_status = REVOKED, ke_key = None\<rparr> e \<Longrightarrow> e = \<lparr>ke_status = REVOKED, ke_key = None\<rparr>" for e :: "'a key_entry"
    by (cases "ke_status e") (auto simp: entry_follows_def)
  show ?thesis
    using inv run stays unfolding snapshot_follows_def repo_inv_def by (auto; fastforce)
qed

text \<open>Two keys, one that is revoked and one that replaces it.\<close>

definition demo_key :: "string \<Rightarrow> unit jwt_key" where
  "demo_key name = new_jwt_key (ustr name) HS256 True ()"

definition demo_repository :: "unit repository" where
  "demo_repository =
     \<lparr>kr_algorithm = Some HS256, kr_snapshot = \<lparr>ks_entries = [(ustr ''a'', \<lparr>ke_status = ACTIVE, ke_key = Some (demo_key ''a'')\<rparr>)], ks_epoch = 0\<rparr>\<rparr>"

lemma demo_kids: "validate_kid e (JStr (ustr ''a'')) = Inr (ustr ''a'')" "validate_kid e (JStr (ustr ''b'')) = Inr (ustr ''b'')"
proof -
  have "text_ok (ustr ''a'')" "text_ok (ustr ''b'')"
    by (simp_all add: text_ok_def ustr_def strip_def is_space_def)
  then show "validate_kid e (JStr (ustr ''a'')) = Inr (ustr ''a'')" "validate_kid e (JStr (ustr ''b'')) = Inr (ustr ''b'')"
    using utf8_encode_ascii [of "ustr ''a''"] utf8_encode_ascii [of "ustr ''b''"] by (simp_all add: validate_kid_def ustr_def)
qed

lemma key_lifecycle_witness:
  "map_of (repo_entries (snd (rotate_key (Some (demo_key ''b'')) (snd (revoke_key (JStr (ustr ''a'')) demo_repository)))))
     (ustr ''a'') = Some \<lparr>ke_status = REVOKED, ke_key = None\<rparr>"
proof -
  let ?d = "snd (revoke_key (JStr (ustr ''a'')) demo_repository)"
  have new: "repository_new (Some (Some (demo_key ''a''))) (Some []) = Inr demo_repository"
    using demo_kids(1)
    by (simp add: repository_new_def demo_key_def new_jwt_key_def key_entry_new_def key_snapshot_new_def active_count_def demo_repository_def)
  have "map_of (repo_entries ?d) (ustr ''a'') = Some \<lparr>ke_status = REVOKED, ke_key = None\<rparr>"
    using demo_kids(1)
    by (simp add: revoke_key_def mutate_identifier_def repository_publish_def new_identifier_state_def demo_repository_def Let_def
        key_entry_new_def key_snapshot_new_def active_count_def)
  moreover have "repo_step\<^sup>*\<^sup>* demo_repository ?d" "repo_step\<^sup>*\<^sup>* ?d (snd (rotate_key (Some (demo_key ''b'')) ?d))"
    by (intro r_into_rtranclp repo_step.intros)+
  ultimately show ?thesis using key_lifecycle [OF new] by blast
qed

text \<open>
  C32: a key that a factory returns has the strength its algorithm asks for. An HMAC key comes from a secret of at least as
  many bits as the digest has; an RSA key has a modulus of at least 2048 bits; and a key can sign exactly if it is an
  HMAC key or has the private part. A key of the wrong family, a public key given as private, a private
  key given as public and a bad identifier are refused.
\<close>

theorem key_factories_sound:
  assumes "from_hmac_secret jose kid algorithm material = Inr key
    \<or> from_rsa_private jose kid algorithm material password = Inr key
    \<or> from_rsa_public jose kid algorithm material = Inr key"
  shows "key_sound jose key \<and> kid = JStr (jk_kid key) \<and> algorithm = Some (jk_algorithm key)"
proof -
  have "kid = JStr (jk_kid key) \<and> algorithm = Some (jk_algorithm key)"
    using assms
    by (cases material) (auto simp: from_hmac_secret_def from_rsa_private_def from_rsa_public_def import_rsa_key_def new_jwt_key_def
        dest!: validate_kid_Inr jwt_validate_algorithm_Inr split: if_splits option.splits)
  then show ?thesis using assms hmac_key_sound rsa_private_sound rsa_public_sound by blast
qed

definition demo_jose :: "nat jose_keys" where
  "demo_jose = \<lparr>jo_import_oct = (\<lambda>b. Some (length b)), jo_import_rsa = (\<lambda>_ _. None), jo_public_bits = (\<lambda>_. 0),
     jo_is_private = (\<lambda>_. True), jo_is_rsa = (\<lambda>_. False), jo_public_dict = (\<lambda>_. None)\<rparr>"

lemma key_factories_sound_witness:
  "key_sound demo_jose \<lparr>jk_kid = ustr ''a'', jk_algorithm = HS256, jk_can_sign = True, jk_provider_key = 40\<rparr>"
proof -
  have bits: "family HS256 = HMAC" "minimum_key_bits HS256 = 256" by code_simp+
  have "from_hmac_secret demo_jose (JStr (ustr ''a'')) (Some HS256) (JBytes (replicate 40 7))
      = Inr \<lparr>jk_kid = ustr ''a'', jk_algorithm = HS256, jk_can_sign = True, jk_provider_key = 40\<rparr>"
    by (simp add: from_hmac_secret_def demo_kids jwt_validate_algorithm_def bits demo_jose_def new_jwt_key_def)
  then show ?thesis
    using key_factories_sound [of demo_jose "JStr (ustr ''a'')" "Some HS256" "JBytes (replicate 40 7)"] by blast
qed

end
