(* ===== verification/Spec2Isabelle.thy ===== *)
theory Spec2Isabelle
  imports Backoff Pipeline Sync_Cache Async_Cache Redis_Options Redis_Acquire
    Ulid Uuid7 Codec Collections Coordination_Runs Serde_Decode Jwt_Repository
begin

text \<open>
  Verification of bluetape-py: the resilience policies, the local caches, leader election over Redis, the
  coordinated result cache over Redis, identifiers, codecs and collections, JSON serialisation, and the
  claims and keys of JSON Web Tokens.
  The repository is a set of Python packages under \<open>packages/\<close>; the parts below are those with state
  machines, concurrency and protocols of their own.

  \<^bold>\<open>How programs are modelled.\<close> Code with effects is a function on a program state that returns or
  raises, or never ends (\<open>act\<close> in theory \<open>Prelude\<close>). The state is a type variable: it stands for everything the
  code can reach. A component reads and writes its own data through accessors of a record (\<open>bulkhead\<close>,
  \<open>ttl_cache\<close>, \<open>redis_lease\<close>, ...), and what it calls besides (clocks, locks, condition variables, loaders,
  listeners, tasks, the Redis client) are further fields of that record. Other threads or tasks run inside
  those calls and nowhere else: a block under a lock is one step. Triples (\<open>hoare\<close>) and invariants
  (\<open>keeps\<close>) state what holds whatever the foreign code does, under named assumptions on it (\<open>breaker_env\<close>,
  \<open>bulk_env\<close>, \<open>clock_progress\<close>, \<open>tc_env\<close>, \<open>acquire_env\<close>, \<open>confirming\<close>, \<open>redis_laws\<close>, ...); each such theorem is applied to a concrete
  program that meets them. In addition the lock blocks of the circuit breaker, the caches and the lease
  handles are transitions of a step relation, with invariants of all interleavings by the locale
  \<open>transition_invariant\<close>. Floats are IEEE doubles, integers are unbounded as in Python, and the 64-bit
  limits of Redis are explicit.

  \<^bold>\<open>Resilience\<close> (\<open>bluetape-resilience\<close>). \<open>Resilience_Core\<close> models \<open>_core.py\<close>: values, events and argument
  checks; \<open>Backoff\<close> models \<open>_backoff.py\<close>; \<open>Retry\<close> models \<open>_retry.py\<close>, with both loops as instances of the
  locale \<open>attempt_loop\<close>; \<open>Circuit\<close> models the data and the synchronous breaker of \<open>_circuit.py\<close>,
  \<open>Bulkhead\<close> the synchronous bulkhead of \<open>_bulkhead.py\<close> with its wait loop. \<open>Async_Base\<close> holds what
  their asynchronous twins share (event loop binding, the release that survives cancellation, timeout
  scopes), and \<open>Async_Circuit\<close> and \<open>Async_Bulkhead\<close> the twins. \<open>Pipeline\<close> models \<open>_timeout.py\<close> and
  \<open>_pipeline.py\<close>; the locale \<open>policy_contract\<close> is what a pipeline relies on. Shown: a delay is the
  capped power spread by the jitter, up to rounding; retries end after at most \<open>max_attempts\<close> runs and what they return or raise; half-open slots
  and generations in every interleaving; no call of a policy, and no pipeline of them, leaks a slot,
  a queue place or an admission, on any path, cancellation included.

  \<^bold>\<open>Caches\<close> (\<open>bluetape-cache\<close>). \<open>Cache_State\<close> models \<open>_core.py\<close>: entries in recency order, the expiry
  heap, key versions and counters. \<open>Sync_Cache\<close> models \<open>_sync.py\<close> with its flights and waits, \<open>Async_Cache\<close>
  models \<open>_async.py\<close> with the task of a load, its waiters and their release. Shown: size bounds; lookups
  are right with respect to the history of the operations; eviction order; at most one load per key that can
  publish; no stale or abandoned load is published in any interleaving; waiter counts are exact; a
  \<open>get_or_load\<close> of the synchronous cache leaves nothing behind, and ends if what it calls and waits for does. Two theorems show deviations: a version that is reused makes
  an entry expire early, and a late waiter of an old flight keeps a fresh load from being cached.

  \<^bold>\<open>Leader election\<close> (\<open>bluetape-leader\<close>, \<open>bluetape-leader-redis\<close>). \<open>Leader_Core\<close> models the options, lease
  observations, results and errors; \<open>Lease_Record\<close> the owner tokens, fences, records and keys
  (\<open>_support.py\<close>, \<open>_keys.py\<close>) and the format checks of the Lua scripts; \<open>Lease_Scripts\<close> the five scripts of
  \<open>_scripts.py\<close> over a parameter for the Redis commands (\<open>redis\<close>, with its documented behaviour as
  \<open>redis_laws\<close>), and the abstract lock; \<open>Redis_Client\<close> the dispatch, decoders, durations, time budgets and
  options; \<open>Redis_Options\<close> the inspection of the client and its pool; \<open>Redis_Lock\<close> the lease handle, its
  renewal thread, the acquisition loop (\<open>_lock.py\<close>) and the elector (\<open>_elector.py\<close>); \<open>Redis_Acquire\<close>
  puts all of them together and holds a concrete program. The layers are connected by refinement: scripts
  refine the abstract lock on any server that behaves as documented, client and server together refine it,
  and an acquisition run end to end gives the handle and the server state that it promises. Shown besides:
  fencing in every interleaving with leases that run out; Python and Lua agree on the record format; handle
  states only move forward; a reported election is that of the handle which the run acquired, and Redis confirmed
  the release of its record (\<open>confirmed\<close> is a history variable); acquisition always ends; and a
  contender in the last millisecond of a lease is told that the lock is corrupt.

  \<^bold>\<open>The result cache over Redis\<close> (\<open>bluetape-cache-redis\<close>). \<open>Redis_Contracts\<close> models \<open>_contracts.py\<close>, \<open>Utf8\<close>
  the text encoding, \<open>Binary_Format\<close> the binary format of \<open>_formats.py\<close> and \<open>Envelope_Codec\<close> the codec of
  \<open>_envelope.py\<close>; \<open>Result_Scripts\<close> the Lua scripts of \<open>_provider.py\<close> over a parameter for the commands
  (\<open>result_redis\<close>, \<open>result_laws\<close>, with the view of the key space of \<open>Redis_Server\<close>), \<open>Redis_Provider\<close> the
  provider with its life cycle, and \<open>Coordination\<close> the coordinator of \<open>_coordination.py\<close>, whose
  runs in several processes are the step relation of \<open>Coordination_Runs\<close>. Shown: the binary format is a
  bijection; values come back under their owner token only; a closing provider drains its operations and
  raises only its own errors; its operations are atomic on an abstract key space; a load ends within its
  budgets and runs its loader at most once; and a value that is reused was published by the owner of the
  lease whose marker stands beside it.

  \<^bold>\<open>Identifiers, codecs, collections\<close> (\<open>bluetape-id\<close>, \<open>bluetape-codec\<close>, \<open>bluetape-collections\<close>). \<open>Id_Core\<close> is the
  shared part with the locale \<open>monotonic_generator\<close>, which \<open>Ulid\<close> and \<open>Uuid7\<close> interpret: what one generator
  issues strictly increases in every interleaving of its threads. \<open>Codec\<close> models Base64 and hexadecimal text
  with their round trips, \<open>Collections\<close> the helpers on sequences, each equal to a reference.

  \<^bold>\<open>JSON and tokens\<close> (\<open>bluetape-serde\<close>, \<open>bluetape-jwt\<close>). \<open>Json\<close> models what the packages use of Python's \<open>json\<close>;
  \<open>Serde_Json\<close> models \<open>_json.py\<close> with its limits, and \<open>Serde_Decode\<close> shows what it lets in. Shown: it writes
  exactly the representable values within the limits, reads back what it writes, and returns only such
  values. \<open>Jwt_Core\<close> models \<open>_errors.py\<close>, \<open>_algorithms.py\<close> and \<open>_claims.py\<close> (the payload of any claims gives the
  same claims), \<open>Jwt_Repository\<close> models \<open>_keys.py\<close> and \<open>_repository.py\<close>: keys only move from active over retired
  to revoked, at most one is active, and the epoch identifies the published snapshot.

  \<^bold>\<open>Bounds and fuel.\<close> The JSON parser has fuel for twice the length of its text, and every call of it
  consumes text or descends: more fuel changes no result (\<open>parse_enough\<close>, \<open>raw_decode_fuel\<close>); its other counter is the interpreter's
  limit of nested containers, a parameter. No other definition uses fuel. Loops that end by their data are \<open>function\<close>s with a measure;
  loops that wait for the environment (\<open>bulkhead_wait_loop\<close>, \<open>tc_wait_for\<close>, \<open>renew_loop\<close>, \<open>acquire_loop\<close>,
  \<open>drain_loop\<close>, \<open>poll_loop\<close>, \<open>run_flight\<close>, \<open>follow_loop\<close>, the cancellation loops) are \<open>partial_function\<close>s, for which not returning is \<open>None\<close>. For the policies, the
  synchronous cache and the acquisition of a lock termination is proved from what the environment does (a
  clock that advances, timeouts that pass, finitely many notifications and cancellations), and for a
  coordinated load from its budgets. The renewal loop runs
  until it is told to stop, and for the two release loops of the asynchronous cache (\<open>ac_acquire\<close>,
  \<open>ac_await_release_task\<close>) only the lock blocks are covered by theorems so far.

  \<^bold>\<open>Not modelled.\<close> The asynchronous lock and elector of \<open>bluetape-leader-redis\<close> and the asynchronous provider
  and coordinator of \<open>bluetape-cache-redis\<close> (the same scripts and state machines with tasks in place of
  threads), the JSON envelope format, the profiles, the issuance and verification and the token cache of
  \<open>bluetape-jwt\<close>, measures, money and audit values, and the helpers for asyncio and HTTP are left to later
  extensions; compression, Fory, observability, benchmark, logging, testing and testcontainers are glue around
  third-party or platform code. Messages of exceptions carry no checked content, \<open>repr\<close> methods and exception
  notes are left out. Third-party code (the Redis server and client, SHA-256, the address parser, joserfc,
  the event loop) is a parameter throughout.
\<close>

end
